(* ===== verification/Pk_Prelude.thy ===== *)
theory Pk_Prelude
  imports Main "HOL-Library.Word"
begin

text \<open>
  Shared vocabulary of the development: the machine integers of the Rust sources, \<open>Result\<close>
  and its early return, decimal text (the \<open>Display\<close> and \<open>parse\<close> of unsigned integers), and
  the list facts the components use.

  Unsigned integers are words (\<open>u64 = 64 word\<close>), so their bounds hold by type.  Signed
  64-bit values (unix timestamps) are \<open>int\<close>; every operation of the code that could leave the
  64-bit range is written out as wrapping or saturating.
\<close>

named_theorems result_simps \<open>unfolding of results and early returns\<close>

type_synonym u8 = "8 word"
type_synonym u16 = "16 word"
type_synonym u32 = "32 word"
type_synonym u64 = "64 word"
type_synonym i64 = int

section \<open>Machine integers\<close>

definition checked_add :: "'a::len word \<Rightarrow> 'a word \<Rightarrow> 'a word option" where
  "checked_add a b = (if unat a + unat b < 2 ^ LENGTH('a) then Some (a + b) else None)"

definition saturating_add :: "'a::len word \<Rightarrow> 'a word \<Rightarrow> 'a word" where
  "saturating_add a b = (if unat a + unat b < 2 ^ LENGTH('a) then a + b else - 1)"

definition saturating_sub :: "'a::len word \<Rightarrow> 'a word \<Rightarrow> 'a word" where
  "saturating_sub a b = (if a < b then 0 else a - b)"

definition saturating_mul :: "'a::len word \<Rightarrow> 'a word \<Rightarrow> 'a word" where
  "saturating_mul a b = (if unat a * unat b < 2 ^ LENGTH('a) then a * b else - 1)"

definition i64_min :: i64 where
  "i64_min = - (2 ^ 63)"

definition i64_max :: i64 where
  "i64_max = 2 ^ 63 - 1"

definition in_i64 :: "i64 \<Rightarrow> bool" where
  "in_i64 x \<longleftrightarrow> i64_min \<le> x \<and> x \<le> i64_max"

text \<open>Two's-complement wrap-around of a mathematical integer to the 64-bit range.\<close>

definition i64_wrap :: "int \<Rightarrow> i64" where
  "i64_wrap x = (x + 2 ^ 63) mod 2 ^ 64 - 2 ^ 63"

definition i64_saturating_add :: "i64 \<Rightarrow> i64 \<Rightarrow> i64" where
  "i64_saturating_add a b = max i64_min (min i64_max (a + b))"

text \<open>The cast \<open>x as i64\<close> of an unsigned 64-bit value.\<close>

definition u64_as_i64 :: "u64 \<Rightarrow> i64" where
  "u64_as_i64 x = i64_wrap (uint x)"

section \<open>Results\<close>

text \<open>\<open>Result<T, E>\<close> is \<open>'e + 'a\<close> with \<open>Inl\<close> the error; \<open>try_bind\<close> is the operator \<open>?\<close>.\<close>

definition try_bind :: "'e + 'a \<Rightarrow> ('a \<Rightarrow> 'e + 'b) \<Rightarrow> 'e + 'b" where
  "try_bind r f = (case r of Inl e \<Rightarrow> Inl e | Inr a \<Rightarrow> f a)"

definition ok_or :: "'a option \<Rightarrow> 'e \<Rightarrow> 'e + 'a" where
  "ok_or x e = (case x of None \<Rightarrow> Inl e | Some a \<Rightarrow> Inr a)"

text \<open>\<open>Result::map_err\<close>.\<close>

definition map_err :: "('e \<Rightarrow> 'f) \<Rightarrow> 'e + 'a \<Rightarrow> 'f + 'a" where
  "map_err f r = (case r of Inl e \<Rightarrow> Inl (f e) | Inr a \<Rightarrow> Inr a)"

definition unwrap_or :: "'a option \<Rightarrow> 'a \<Rightarrow> 'a" where
  "unwrap_or x d = (case x of None \<Rightarrow> d | Some a \<Rightarrow> a)"

text \<open>The error of the shared core: \<open>core::Error\<close>, with its \<open>Serialization\<close> and \<open>Other\<close> messages.\<close>

datatype core_error = SerializationError string | Other string

section \<open>Little-endian bytes\<close>

text \<open>\<open>to_le_bytes\<close> and \<open>from_le_bytes\<close> of a machine integer.\<close>

definition le_bytes :: "'a::len word \<Rightarrow> u8 list" where
  "le_bytes w = map (\<lambda>i. ucast (drop_bit (8 * i) w)) [0..<LENGTH('a) div 8]"

definition from_le_bytes :: "u8 list \<Rightarrow> 'a::len word" where
  "from_le_bytes bs = foldr (\<lambda>b w. or (ucast b) (push_bit 8 w)) bs 0"

section \<open>Decimal text\<close>

definition digit_char :: "nat \<Rightarrow> char" where
  "digit_char n = char_of (48 + n)"

definition is_ascii_digit :: "char \<Rightarrow> bool" where
  "is_ascii_digit c \<longleftrightarrow> 48 \<le> (of_char c :: nat) \<and> (of_char c :: nat) \<le> 57"

definition digit_value :: "char \<Rightarrow> nat" where
  "digit_value c = of_char c - 48"

text \<open>\<open>to_string\<close> of an unsigned integer: decimal, no leading zero.\<close>

fun show_nat :: "nat \<Rightarrow> string" where
  "show_nat n = (if n < 10 then [digit_char n] else show_nat (n div 10) @ [digit_char (n mod 10)])"

declare show_nat.simps [simp del]

text \<open>The number a string of digits denotes.\<close>

definition digits_value :: "string \<Rightarrow> nat" where
  "digits_value s = foldl (\<lambda>acc c. 10 * acc + digit_value c) 0 s"

text \<open>\<open>str::trim_start_matches('0')\<close> and \<open>str::trim_end_matches('0')\<close>.\<close>

definition trim_start_zeros :: "string \<Rightarrow> string" where
  "trim_start_zeros s = dropWhile (\<lambda>c. c = CHR ''0'') s"

definition trim_end_zeros :: "string \<Rightarrow> string" where
  "trim_end_zeros s = rev (dropWhile (\<lambda>c. c = CHR ''0'') (rev s))"

section \<open>Lemmas on machine integers\<close>

lemma unat_lt_2p [simp]: "unat (x :: 'a::len word) < 2 ^ LENGTH('a)"
  by (rule unsigned_less)

lemma checked_add_Some_iff:
  "checked_add a b = Some c \<longleftrightarrow> unat (c :: 'a::len word) = unat a + unat b"
proof
  assume "checked_add a b = Some c"
  then show "unat c = unat a + unat b"
    by (auto simp: checked_add_def unat_word_ariths split: if_splits)
next
  assume eq: "unat c = unat a + unat b"
  then have fits: "unat a + unat b < 2 ^ LENGTH('a)"
    by (metis unat_lt_2p)
  then have "unat (a + b) = unat c"
    using eq by (simp add: unat_word_ariths)
  then show "checked_add a b = Some c"
    using fits by (simp add: checked_add_def word_unat_eq_iff)
qed

lemma checked_add_inc: "checked_add a b = Some c \<Longrightarrow> a \<le> (c :: 'a::len word)"
  by (simp add: checked_add_Some_iff word_le_nat_alt)

lemma checked_add_diff: "checked_add a b = Some c \<Longrightarrow> c - a = (b :: 'a::len word)"
  by (auto simp: checked_add_def split: if_splits)

lemma saturating_add_ge: "a \<le> saturating_add a (b :: 'a::len word)"
proof (cases "unat a + unat b < 2 ^ LENGTH('a)")
  case True
  then show ?thesis
    by (simp add: saturating_add_def word_le_nat_alt unat_word_ariths)
qed (simp add: saturating_add_def)

lemma unat_saturating_sub: "unat (saturating_sub a b) = unat a - unat (b :: 'a::len word)"
  by (auto simp: saturating_sub_def word_less_nat_alt unat_sub word_le_nat_alt)

lemma in_i64_wrap [simp]: "in_i64 (i64_wrap x)"
proof -
  have "0 \<le> (x + 2 ^ 63) mod 2 ^ 64" "(x + 2 ^ 63) mod 2 ^ 64 < 2 ^ 64"
    by simp_all
  then show ?thesis
    by (simp add: in_i64_def i64_wrap_def i64_min_def i64_max_def)
qed

lemma i64_wrap_id: "in_i64 x \<Longrightarrow> i64_wrap x = x"
  by (simp add: in_i64_def i64_wrap_def i64_min_def i64_max_def)

lemma i64_wrap_add_u64: "i64_wrap (t + u64_as_i64 l) = i64_wrap (t + int (unat l))"
proof -
  have "t + u64_as_i64 l + 2 ^ 63 = (uint l + 2 ^ 63) mod 2 ^ 64 + t"
    by (simp add: i64_wrap_def u64_as_i64_def)
  then have "(t + u64_as_i64 l + 2 ^ 63) mod 2 ^ 64 = (uint l + 2 ^ 63 + t) mod 2 ^ 64"
    by (simp only: mod_add_left_eq)
  also have "uint l + 2 ^ 63 + t = t + int (unat l) + 2 ^ 63"
    by simp
  finally show ?thesis
    by (simp only: i64_wrap_def)
qed

lemma in_i64_saturating_add [simp]: "in_i64 (i64_saturating_add a b)"
  by (auto simp: in_i64_def i64_saturating_add_def i64_min_def i64_max_def)

lemma i64_saturating_add_id: "in_i64 (a + b) \<Longrightarrow> i64_saturating_add a b = a + b"
  by (simp add: in_i64_def i64_saturating_add_def)

section \<open>Lemmas on bytes\<close>

lemma length_le_bytes [simp]: "length (le_bytes (w :: 'a::len word)) = LENGTH('a) div 8"
  by (simp add: le_bytes_def)

lemma bit_le_bytes:
  assumes "n < LENGTH('a)" "8 dvd LENGTH('a)"
  shows "bit (le_bytes (w :: 'a::len word) ! (n div 8)) (n mod 8) = bit w n"
proof -
  have "n div 8 < LENGTH('a) div 8"
    using assms by (auto elim!: dvdE)
  moreover have "n mod 8 < 8" by simp
  moreover have "8 * (n div 8) + n mod 8 = n" by simp
  ultimately show ?thesis
    by (simp add: le_bytes_def bit_ucast_iff bit_drop_bit_eq)
qed

lemma bit_from_le_bytes:
  "bit (from_le_bytes bs :: 'a::len word) n \<longleftrightarrow>
     n < LENGTH('a) \<and> n div 8 < length bs \<and> bit (bs ! (n div 8)) (n mod 8)"
proof (induction bs arbitrary: n)
  case Nil
  then show ?case by (simp add: from_le_bytes_def)
next
  case (Cons b bs)
  have step: "bit (from_le_bytes (b # bs) :: 'a word) n \<longleftrightarrow>
      n < LENGTH('a) \<and> (n < 8 \<and> bit b n \<or> 8 \<le> n \<and> bit (from_le_bytes bs :: 'a word) (n - 8))"
    by (auto simp: from_le_bytes_def bit_or_iff bit_ucast_iff bit_push_bit_iff dest: bit_imp_le_length)
  show ?case
  proof (cases "n < 8")
    case True
    then show ?thesis unfolding step by simp
  next
    case False
    then obtain m where m: "n = m + 8" by (metis le_add_diff_inverse2 not_less)
    moreover have "(m + 8) div 8 = Suc (m div 8)" by simp
    ultimately show ?thesis unfolding step using Cons.IH [of m] by auto
  qed
qed

lemma from_le_bytes_le_bytes:
  assumes "8 dvd LENGTH('a)"
  shows "from_le_bytes (le_bytes w) = (w :: 'a::len word)"
proof (rule bit_word_eqI)
  fix n assume n: "n < LENGTH('a)"
  then have "n div 8 < LENGTH('a) div 8"
    using assms by (auto elim!: dvdE)
  with n show "bit (from_le_bytes (le_bytes w) :: 'a word) n = bit w n"
    using bit_le_bytes [OF n assms] by (simp add: bit_from_le_bytes)
qed

lemma from_le_bytes_u32 [simp]: "from_le_bytes (le_bytes w) = (w :: u32)"
  by (rule from_le_bytes_le_bytes) simp

lemma from_le_bytes_u64 [simp]: "from_le_bytes (le_bytes w) = (w :: u64)"
  by (rule from_le_bytes_le_bytes) simp

lemma le_bytes_inject [simp]: "le_bytes v = le_bytes w \<longleftrightarrow> v = (w :: u64)"
  by (metis from_le_bytes_u64)

lemma le_bytes_from_le_bytes:
  assumes "length bs = LENGTH('a) div 8" "8 dvd LENGTH('a)"
  shows "le_bytes (from_le_bytes bs :: 'a::len word) = bs"
proof (rule nth_equalityI)
  fix i
  assume "i < length (le_bytes (from_le_bytes bs :: 'a word))"
  then have i: "i < LENGTH('a) div 8" by simp
  show "le_bytes (from_le_bytes bs :: 'a word) ! i = bs ! i"
  proof (rule bit_word_eqI)
    fix n
    assume n: "n < LENGTH(8)"
    then have "8 * i + n < LENGTH('a)" using i assms(2) by auto
    with n i assms bit_le_bytes [of "8 * i + n", where 'a = 'a and w = "from_le_bytes bs"]
    show "bit (le_bytes (from_le_bytes bs :: 'a word) ! i) n = bit (bs ! i) n"
      by (simp add: bit_from_le_bytes)
  qed
qed (use assms in simp)

section \<open>Lemmas on results\<close>

lemma try_bind_simps [simp, result_simps]:
  "try_bind (Inl e) f = Inl e"
  "try_bind (Inr a) f = f a"
  by (simp_all add: try_bind_def)

lemma try_bind_Inr_iff [result_simps]:
  "try_bind r f = Inr b \<longleftrightarrow> (\<exists>a. r = Inr a \<and> f a = Inr b)"
  by (cases r) auto

lemma ok_or_simps [simp, result_simps]: "ok_or None e = Inl e" "ok_or (Some a) e = Inr a"
  by (simp_all add: ok_or_def)

lemma ok_or_Inr_iff [simp]: "ok_or x e = Inr a \<longleftrightarrow> x = Some a"
  by (cases x) (simp_all add: ok_or_def)

lemma map_err_simps [simp, result_simps]: "map_err f (Inl e) = Inl (f e)" "map_err f (Inr a) = Inr a"
  by (simp_all add: map_err_def)

lemma map_err_Inr_iff [simp]: "map_err f r = Inr a \<longleftrightarrow> r = Inr a"
  by (cases r) (simp_all add: map_err_def)

lemma unwrap_or_simps [simp, result_simps]: "unwrap_or None d = d" "unwrap_or (Some a) d = a"
  by (simp_all add: unwrap_or_def)

section \<open>Lemmas on decimal text\<close>

lemma of_char_digit: "n < 10 \<Longrightarrow> (of_char (digit_char n) :: nat) = 48 + n"
  by (simp add: digit_char_def)

lemma is_ascii_digit_digit_char [simp]: "n < 10 \<Longrightarrow> is_ascii_digit (digit_char n)"
  by (simp add: is_ascii_digit_def of_char_digit)

lemma digit_value_digit_char [simp]: "n < 10 \<Longrightarrow> digit_value (digit_char n) = n"
  by (simp add: digit_value_def of_char_digit)

lemma digit_value_bound: "is_ascii_digit c \<Longrightarrow> digit_value c < 10"
  unfolding is_ascii_digit_def digit_value_def by linarith

lemma digit_char_digit_value: "is_ascii_digit c \<Longrightarrow> digit_char (digit_value c) = c"
  by (simp add: is_ascii_digit_def digit_value_def digit_char_def)

lemma char_of_nat_zero: "char_of (48 :: nat) = CHR ''0''"
  by (simp add: char_of_def bit_Suc_0_iff)

lemma digit_value_zero_iff: "is_ascii_digit c \<Longrightarrow> digit_value c = 0 \<longleftrightarrow> c = CHR ''0''"
proof
  assume "is_ascii_digit c" "digit_value c = 0"
  then have "digit_char 0 = c"
    using digit_char_digit_value by fastforce
  then show "c = CHR ''0''"
    by (simp add: digit_char_def char_of_nat_zero)
qed (simp add: digit_value_def)

lemma digits_value_snoc [simp]: "digits_value (s @ [c]) = 10 * digits_value s + digit_value c"
  by (simp add: digits_value_def)

lemma digits_value_Nil [simp]: "digits_value [] = 0"
  by (simp add: digits_value_def)

lemma digits_value_show_nat [simp]: "digits_value (show_nat n) = n"
proof (induction n rule: show_nat.induct)
  case (1 n)
  then show ?case
    by (subst show_nat.simps) (auto simp: digits_value_def)
qed

lemma show_nat_digits: "c \<in> set (show_nat n) \<Longrightarrow> is_ascii_digit c"
proof (induction n rule: show_nat.induct)
  case (1 n)
  then show ?case
    by (subst (asm) (2) show_nat.simps) (auto split: if_splits)
qed

lemma show_nat_nonempty [simp]: "show_nat n \<noteq> []"
  by (subst show_nat.simps) simp

lemma show_nat_inject [simp]: "show_nat m = show_nat n \<longleftrightarrow> m = n"
  by (metis digits_value_show_nat)

end
