(* ===== verification/Kv_Store.thy ===== *)
theory Kv_Store
  imports Pk_Prelude
begin

text \<open>
  The asynchronous key-value \<open>Store\<close> of \<open>core/store.rs\<close>: the trait, its in-memory
  implementation, and the semantics of code that awaits several store calls.

  A trait object \<open>dyn Store\<close> is a record of its five operations over a state of any type.
  Code that awaits store calls is a \<open>prog\<close>: each constructor is one atomic call and holds
  what the code does with the reply, so two requests running at the same time are two programs
  whose calls interleave in any order (\<open>interleave\<close>), and one request running alone is
  \<open>run\<close>.  Handing a transaction to the network is a step too; \<open>broadcasts\<close> lists the
  transactions a request running alone hands out.  The serialised form of a value is written by \<open>serde_json\<close>, which is a
  parameter (\<open>json_codec\<close>).
\<close>

section \<open>Values, errors and the trait\<close>

text \<open>
  \<open>serde_json::Value\<close>; a number that is not an integer keeps its text.  An object is the list of
  its members in key order, as the library's ordered map keeps them.
\<close>

datatype json =
    JNull
  | JBool bool
  | JNumber int
  | JFloat string
  | JString string
  | JArray "json list"
  | JObject "(string \<times> json) list"

datatype store_error = Internal string | Serialization string

record 's store =
  get_op :: "string \<Rightarrow> 's \<Rightarrow> (store_error + json option) \<times> 's"
  put_op :: "string \<Rightarrow> json \<Rightarrow> 's \<Rightarrow> (store_error + unit) \<times> 's"
  delete_op :: "string \<Rightarrow> 's \<Rightarrow> (store_error + unit) \<times> 's"
  put_if_absent_op :: "string \<Rightarrow> json \<Rightarrow> 's \<Rightarrow> (store_error + bool) \<times> 's"
  put_if_eq_op :: "string \<Rightarrow> json option \<Rightarrow> json \<Rightarrow> 's \<Rightarrow> (store_error + bool) \<times> 's"

section \<open>The in-memory store\<close>

text \<open>
  \<open>serde_json::to_string\<close> and \<open>serde_json::from_str\<close>; errors carry their message.
\<close>

record 'raw json_codec =
  to_string :: "json \<Rightarrow> string + 'raw"
  from_str :: "'raw \<Rightarrow> string + json"

type_synonym 'raw memory = "string \<rightharpoonup> 'raw"

definition memory_get :: "'raw json_codec \<Rightarrow> string \<Rightarrow> 'raw memory
    \<Rightarrow> (store_error + json option) \<times> 'raw memory" where
  "memory_get C key data =
     (case data key of
        Some raw \<Rightarrow>
          (case from_str C raw of
             Inl e \<Rightarrow> (Inl (Serialization e), data)
           | Inr value \<Rightarrow> (Inr (Some value), data))
      | None \<Rightarrow> (Inr None, data))"

definition memory_put :: "'raw json_codec \<Rightarrow> string \<Rightarrow> json \<Rightarrow> 'raw memory
    \<Rightarrow> (store_error + unit) \<times> 'raw memory" where
  "memory_put C key value data =
     (case to_string C value of
        Inl e \<Rightarrow> (Inl (Serialization e), data)
      | Inr serialized \<Rightarrow> (Inr (), data(key \<mapsto> serialized)))"

definition memory_delete :: "string \<Rightarrow> 'raw memory \<Rightarrow> (store_error + unit) \<times> 'raw memory" where
  "memory_delete key data = (Inr (), data(key := None))"

definition memory_put_if_absent :: "'raw json_codec \<Rightarrow> string \<Rightarrow> json \<Rightarrow> 'raw memory
    \<Rightarrow> (store_error + bool) \<times> 'raw memory" where
  "memory_put_if_absent C key value data =
     (case to_string C value of
        Inl e \<Rightarrow> (Inl (Serialization e), data)
      | Inr serialized \<Rightarrow>
          (case data key of
             Some _ \<Rightarrow> (Inr False, data)
           | None \<Rightarrow> (Inr True, data(key \<mapsto> serialized))))"

definition memory_put_if_eq :: "'raw json_codec \<Rightarrow> string \<Rightarrow> json option \<Rightarrow> json \<Rightarrow> 'raw memory
    \<Rightarrow> (store_error + bool) \<times> 'raw memory" where
  "memory_put_if_eq C key expected value data =
     (case to_string C value of
        Inl e \<Rightarrow> (Inl (Serialization e), data)
      | Inr serialized \<Rightarrow>
          (case (case data key of
                   None \<Rightarrow> Inr None
                 | Some raw \<Rightarrow> map_sum id Some (from_str C raw)) of
             Inl e \<Rightarrow> (Inl (Serialization e), data)
           | Inr current \<Rightarrow>
               if current \<noteq> expected then (Inr False, data)
               else (Inr True, data(key \<mapsto> serialized))))"

definition memory_store :: "'raw json_codec \<Rightarrow> 'raw memory store" where
  "memory_store C =
     \<lparr>get_op = memory_get C, put_op = memory_put C, delete_op = memory_delete,
      put_if_absent_op = memory_put_if_absent C, put_if_eq_op = memory_put_if_eq C\<rparr>"

text \<open>
  What the code relies on of \<open>serde_json\<close>: a value serialises, and parses back to itself.
\<close>

definition codec_ok :: "'raw json_codec \<Rightarrow> bool" where
  "codec_ok C \<longleftrightarrow> (\<forall>v. \<exists>raw. to_string C v = Inr raw \<and> from_str C raw = Inr v)"

text \<open>The codec that keeps the value itself as its serialised form.\<close>

definition value_codec :: "json json_codec" where
  "value_codec = \<lparr>to_string = Inr, from_str = Inr\<rparr>"

definition memory_view :: "'raw json_codec \<Rightarrow> 'raw memory \<Rightarrow> string \<Rightarrow> json option" where
  "memory_view C data key =
     (case data key of
        None \<Rightarrow> None
      | Some raw \<Rightarrow> (case from_str C raw of Inl _ \<Rightarrow> None | Inr v \<Rightarrow> Some v))"

definition memory_ok :: "'raw json_codec \<Rightarrow> 'raw memory \<Rightarrow> bool" where
  "memory_ok C data \<longleftrightarrow> (\<forall>key raw. data key = Some raw \<longrightarrow> (\<exists>v. from_str C raw = Inr v))"

section \<open>Programs over a store\<close>

text \<open>
  \<open>Broadcast s p\<close> hands the transaction that signature \<open>s\<close> names to the network and goes on as
  \<open>p\<close>; it does not touch the store.
\<close>

datatype 'r prog =
    Done 'r
  | Get string "(store_error + json option) \<Rightarrow> 'r prog"
  | Put string json "(store_error + unit) \<Rightarrow> 'r prog"
  | Delete string "(store_error + unit) \<Rightarrow> 'r prog"
  | PutIfAbsent string json "(store_error + bool) \<Rightarrow> 'r prog"
  | PutIfEq string "json option" json "(store_error + bool) \<Rightarrow> 'r prog"
  | Broadcast string "'r prog"

primrec bind_prog :: "'a prog \<Rightarrow> ('a \<Rightarrow> 'b prog) \<Rightarrow> 'b prog" where
  "bind_prog (Done r) f = f r"
| "bind_prog (Get k c) f = Get k (\<lambda>x. bind_prog (c x) f)"
| "bind_prog (Put k v c) f = Put k v (\<lambda>x. bind_prog (c x) f)"
| "bind_prog (Delete k c) f = Delete k (\<lambda>x. bind_prog (c x) f)"
| "bind_prog (PutIfAbsent k v c) f = PutIfAbsent k v (\<lambda>x. bind_prog (c x) f)"
| "bind_prog (PutIfEq k e v c) f = PutIfEq k e v (\<lambda>x. bind_prog (c x) f)"
| "bind_prog (Broadcast m p) f = Broadcast m (bind_prog p f)"

text \<open>\<open>.await?\<close>: an error ends the program with that error.\<close>

definition bind_try :: "('e + 'a) prog \<Rightarrow> ('a \<Rightarrow> ('e + 'b) prog) \<Rightarrow> ('e + 'b) prog" where
  "bind_try p f = bind_prog p (\<lambda>r. case r of Inl e \<Rightarrow> Done (Inl e) | Inr a \<Rightarrow> f a)"

text \<open>One request running alone.\<close>

primrec run :: "'s store \<Rightarrow> 'r prog \<Rightarrow> 's \<Rightarrow> 'r \<times> 's" where
  "run S (Done r) = (\<lambda>s. (r, s))"
| "run S (Get k c) = (\<lambda>s. let (x, s') = get_op S k s in run S (c x) s')"
| "run S (Put k v c) = (\<lambda>s. let (x, s') = put_op S k v s in run S (c x) s')"
| "run S (Delete k c) = (\<lambda>s. let (x, s') = delete_op S k s in run S (c x) s')"
| "run S (PutIfAbsent k v c) = (\<lambda>s. let (x, s') = put_if_absent_op S k v s in run S (c x) s')"
| "run S (PutIfEq k e v c) = (\<lambda>s. let (x, s') = put_if_eq_op S k e v s in run S (c x) s')"
| "run S (Broadcast m p) = run S p"

text \<open>The transactions it hands to the network, in order.\<close>

primrec broadcasts :: "'s store \<Rightarrow> 'r prog \<Rightarrow> 's \<Rightarrow> string list" where
  "broadcasts S (Done r) = (\<lambda>s. [])"
| "broadcasts S (Get k c) = (\<lambda>s. let (x, s') = get_op S k s in broadcasts S (c x) s')"
| "broadcasts S (Put k v c) = (\<lambda>s. let (x, s') = put_op S k v s in broadcasts S (c x) s')"
| "broadcasts S (Delete k c) = (\<lambda>s. let (x, s') = delete_op S k s in broadcasts S (c x) s')"
| "broadcasts S (PutIfAbsent k v c) = (\<lambda>s. let (x, s') = put_if_absent_op S k v s in broadcasts S (c x) s')"
| "broadcasts S (PutIfEq k e v c) = (\<lambda>s. let (x, s') = put_if_eq_op S k e v s in broadcasts S (c x) s')"
| "broadcasts S (Broadcast m p) = (\<lambda>s. m # broadcasts S p s)"

text \<open>A program that hands out nothing, whatever the store answers.\<close>

primrec silent :: "'r prog \<Rightarrow> bool" where
  "silent (Done r) = True"
| "silent (Get k c) = (\<forall>x. silent (c x))"
| "silent (Put k v c) = (\<forall>x. silent (c x))"
| "silent (Delete k c) = (\<forall>x. silent (c x))"
| "silent (PutIfAbsent k v c) = (\<forall>x. silent (c x))"
| "silent (PutIfEq k e v c) = (\<forall>x. silent (c x))"
| "silent (Broadcast m p) = False"

text \<open>One atomic call of one program.\<close>

fun step_prog :: "'s store \<Rightarrow> 'r prog \<Rightarrow> 's \<Rightarrow> 'r prog \<times> 's" where
  "step_prog S (Done r) s = (Done r, s)"
| "step_prog S (Get k c) s = (let (x, s') = get_op S k s in (c x, s'))"
| "step_prog S (Put k v c) s = (let (x, s') = put_op S k v s in (c x, s'))"
| "step_prog S (Delete k c) s = (let (x, s') = delete_op S k s in (c x, s'))"
| "step_prog S (PutIfAbsent k v c) s = (let (x, s') = put_if_absent_op S k v s in (c x, s'))"
| "step_prog S (PutIfEq k e v c) s = (let (x, s') = put_if_eq_op S k e v s in (c x, s'))"
| "step_prog S (Broadcast m p) s = (p, s)"

text \<open>
  Concurrent requests: a schedule names, step by step, the request whose next call runs.  An
  index that names no request changes nothing.
\<close>

definition step_at :: "'s store \<Rightarrow> nat \<Rightarrow> 'r prog list \<times> 's \<Rightarrow> 'r prog list \<times> 's" where
  "step_at S i cfg =
     (case cfg of (ps, s) \<Rightarrow>
        if i < length ps then (case step_prog S (ps ! i) s of (p', s') \<Rightarrow> (ps[i := p'], s'))
        else (ps, s))"

definition interleave :: "'s store \<Rightarrow> nat list \<Rightarrow> 'r prog list \<times> 's \<Rightarrow> 'r prog list \<times> 's" where
  "interleave S sched cfg = fold (step_at S) sched cfg"

section \<open>Laws of programs\<close>

lemma bind_prog_Done_right [simp]: "bind_prog p Done = p"
  by (induction p) (simp_all add: fun_eq_iff)

lemma bind_prog_assoc: "bind_prog (bind_prog p f) g = bind_prog p (\<lambda>x. bind_prog (f x) g)"
  by (induction p) (simp_all add: fun_eq_iff)

lemma bind_try_simps [simp]:
  "bind_try (Done (Inl e)) f = Done (Inl e)"
  "bind_try (Done (Inr a)) f = f a"
  by (simp_all add: bind_try_def)

lemma run_bind_prog:
  "run S (bind_prog p f) s = (case run S p s of (r, s') \<Rightarrow> run S (f r) s')"
  by (induction p arbitrary: s) (simp_all add: case_prod_beta)

lemma run_bind_try:
  "run S (bind_try p f) s =
     (case run S p s of (Inl e, s') \<Rightarrow> (Inl e, s') | (Inr a, s') \<Rightarrow> run S (f a) s')"
  by (simp add: bind_try_def run_bind_prog split: prod.split sum.split)

lemma broadcasts_bind_prog:
  "broadcasts S (bind_prog p f) s = broadcasts S p s @ (case run S p s of (r, s') \<Rightarrow> broadcasts S (f r) s')"
  by (induction p arbitrary: s) (simp_all add: case_prod_beta)

lemma broadcasts_bind_try:
  "broadcasts S (bind_try p f) s =
     broadcasts S p s @ (case run S p s of (Inl e, s') \<Rightarrow> [] | (Inr a, s') \<Rightarrow> broadcasts S (f a) s')"
  by (simp add: bind_try_def broadcasts_bind_prog split: prod.split sum.split)

lemma silent_broadcasts [simp]: "silent p \<Longrightarrow> broadcasts S p s = []"
  by (induction p arbitrary: s) (simp_all add: case_prod_beta)

lemma silent_bind_prog: "silent p \<Longrightarrow> (\<And>r. silent (f r)) \<Longrightarrow> silent (bind_prog p f)"
  by (induction p) simp_all

lemma silent_bind_try: "silent p \<Longrightarrow> (\<And>a. silent (f a)) \<Longrightarrow> silent (bind_try p f)"
  unfolding bind_try_def by (erule silent_bind_prog) (simp split: sum.split)

lemma interleave_Nil [simp]: "interleave S [] cfg = cfg"
  by (simp add: interleave_def)

lemma interleave_Cons [simp]: "interleave S (i # is) cfg = interleave S is (step_at S i cfg)"
  by (simp add: interleave_def)

lemma interleave_append: "interleave S (is @ js) cfg = interleave S js (interleave S is cfg)"
  by (simp add: interleave_def)

end
