(* ===== verification/Store_Contract.thy ===== *)
theory Store_Contract
  imports Kv_Store
begin

text \<open>
  The contract of the \<open>Store\<close> trait and what concurrent clients may conclude from it.

  \<open>store_contract\<close> states the atomic effect of each operation on the abstract content of a
  store (\<open>view\<close>), and that an operation that fails changes nothing.  \<open>vstep\<close> is the same
  contract as a step relation on a program and a view; \<open>step_prog_vstep\<close> shows that every
  store obeying the contract takes only such steps.  \<open>one_shot\<close> is the argument both replay
  ledgers use: when every program keeps a rely relation and can only win by turning an unspent
  view into a spent one, at most one program wins, in whatever order the calls interleave.
  The in-memory store obeys the contract.
\<close>

type_synonym view = "string \<Rightarrow> json option"

section \<open>Steps on views\<close>

inductive vstep :: "'r prog \<Rightarrow> view \<Rightarrow> 'r prog \<Rightarrow> view \<Rightarrow> bool" where
  get_ok: "vstep (Get k c) V (c (Inr (V k))) V"
| get_err: "vstep (Get k c) V (c (Inl e)) V"
| put_ok: "vstep (Put k v c) V (c (Inr ())) (V(k \<mapsto> v))"
| put_err: "vstep (Put k v c) V (c (Inl e)) V"
| delete_ok: "vstep (Delete k c) V (c (Inr ())) (V(k := None))"
| delete_err: "vstep (Delete k c) V (c (Inl e)) V"
| absent_win: "V k = None \<Longrightarrow> vstep (PutIfAbsent k v c) V (c (Inr True)) (V(k \<mapsto> v))"
| absent_lose: "V k = Some y \<Longrightarrow> vstep (PutIfAbsent k v c) V (c (Inr False)) V"
| absent_err: "vstep (PutIfAbsent k v c) V (c (Inl e)) V"
| eq_win: "V k = x \<Longrightarrow> vstep (PutIfEq k x v c) V (c (Inr True)) (V(k \<mapsto> v))"
| eq_lose: "V k \<noteq> x \<Longrightarrow> vstep (PutIfEq k x v c) V (c (Inr False)) V"
| eq_err: "vstep (PutIfEq k x v c) V (c (Inl e)) V"
| broadcast: "vstep (Broadcast m p) V p V"

inductive_cases vstep_Done [elim!]: "vstep (Done r) V p' V'"
inductive_cases vstep_Get [elim!]: "vstep (Get k c) V p' V'"
inductive_cases vstep_Put [elim!]: "vstep (Put k v c) V p' V'"
inductive_cases vstep_Delete [elim!]: "vstep (Delete k c) V p' V'"
inductive_cases vstep_PutIfAbsent [elim!]: "vstep (PutIfAbsent k v c) V p' V'"
inductive_cases vstep_PutIfEq [elim!]: "vstep (PutIfEq k x v c) V p' V'"
inductive_cases vstep_Broadcast [elim!]: "vstep (Broadcast m p) V p' V'"

definition is_won :: "('r \<Rightarrow> bool) \<Rightarrow> 'r prog \<Rightarrow> bool" where
  "is_won win p = (case p of Done r \<Rightarrow> win r | _ \<Rightarrow> False)"

definition wins :: "('r \<Rightarrow> bool) \<Rightarrow> 'r prog list \<Rightarrow> nat" where
  "wins win ps = length (filter (is_won win) ps)"

text \<open>
  \<open>safe\<close>: the program, started from any view that relates to \<open>V\<close> by \<open>rely\<close>, only
  takes steps that keep \<open>rely\<close>, and ends in a winning result only by a step that turns an
  unspent view into a spent one.
\<close>

inductive safe :: "(view \<Rightarrow> view \<Rightarrow> bool) \<Rightarrow> (view \<Rightarrow> bool) \<Rightarrow> ('r \<Rightarrow> bool) \<Rightarrow> 'r prog \<Rightarrow> view \<Rightarrow> bool"
  for rely spent win where
  safe_Done: "\<not> win r \<Longrightarrow> safe rely spent win (Done r) V"
| safe_step:
    "(\<And>r. p \<noteq> Done r) \<Longrightarrow>
     (\<And>V1 p' V2. rely V V1 \<Longrightarrow> vstep p V1 p' V2 \<Longrightarrow>
        rely V1 V2 \<and> (safe rely spent win p' V2 \<or> is_won win p' \<and> spent V2 \<and> \<not> spent V1)) \<Longrightarrow>
     safe rely spent win p V"

section \<open>The contract\<close>

locale store_contract =
  fixes S :: "'s store"
    and view :: "'s \<Rightarrow> view"
    and ok :: "'s \<Rightarrow> bool"
  assumes get_law: "ok s \<Longrightarrow> get_op S k s = (r, s') \<Longrightarrow>
      ok s' \<and> view s' = view s \<and> (\<forall>x. r = Inr x \<longrightarrow> x = view s k)"
    and put_law: "ok s \<Longrightarrow> put_op S k v s = (ru, s') \<Longrightarrow>
      ok s' \<and> view s' = (case ru of Inl _ \<Rightarrow> view s | Inr _ \<Rightarrow> (view s)(k \<mapsto> v))"
    and delete_law: "ok s \<Longrightarrow> delete_op S k s = (ru, s') \<Longrightarrow>
      ok s' \<and> view s' = (case ru of Inl _ \<Rightarrow> view s | Inr _ \<Rightarrow> (view s)(k := None))"
    and put_if_absent_law: "ok s \<Longrightarrow> put_if_absent_op S k v s = (rb, s') \<Longrightarrow>
      ok s' \<and> (case rb of
                 Inl _ \<Rightarrow> view s' = view s
               | Inr b \<Rightarrow> b = (view s k = None)
                   \<and> view s' = (if b then (view s)(k \<mapsto> v) else view s))"
    and put_if_eq_law: "ok s \<Longrightarrow> put_if_eq_op S k x v s = (rb, s') \<Longrightarrow>
      ok s' \<and> (case rb of
                 Inl _ \<Rightarrow> view s' = view s
               | Inr b \<Rightarrow> b = (view s k = x)
                   \<and> view s' = (if b then (view s)(k \<mapsto> v) else view s))"
begin

lemma step_prog_vstep:
  assumes "ok s" "step_prog S p s = (p', s')" "\<And>r. p \<noteq> Done r"
  shows "ok s' \<and> vstep p (view s) p' (view s')"
proof (cases p)
  case (Get k c)
  obtain x t where op: "get_op S k s = (x, t)" by force
  with assms Get have "p' = c x" "s' = t" by simp_all
  with get_law [OF assms(1) op] Get show ?thesis
    by (cases x) (auto intro: vstep.intros)
next
  case (Put k v c)
  obtain x t where op: "put_op S k v s = (x, t)" by force
  with assms Put have "p' = c x" "s' = t" by simp_all
  with put_law [OF assms(1) op] Put show ?thesis
    by (cases x) (auto intro: vstep.intros)
next
  case (Delete k c)
  obtain x t where op: "delete_op S k s = (x, t)" by force
  with assms Delete have "p' = c x" "s' = t" by simp_all
  with delete_law [OF assms(1) op] Delete show ?thesis
    by (cases x) (auto intro: vstep.intros)
next
  case (PutIfAbsent k v c)
  obtain x t where op: "put_if_absent_op S k v s = (x, t)" by force
  with assms PutIfAbsent have "p' = c x" "s' = t" by simp_all
  with put_if_absent_law [OF assms(1) op] PutIfAbsent show ?thesis
    by (cases x) (auto split: if_splits intro: vstep.intros)
next
  case (PutIfEq k e v c)
  obtain x t where op: "put_if_eq_op S k e v s = (x, t)" by force
  with assms PutIfEq have "p' = c x" "s' = t" by simp_all
  with put_if_eq_law [OF assms(1) op] PutIfEq show ?thesis
    by (cases x) (auto split: if_splits intro: vstep.intros)
qed (use assms in \<open>auto intro: vstep.intros\<close>)

end

section \<open>At most one winner\<close>

lemma is_won_Done [simp]: "is_won win (Done r) = win r"
  by (simp add: is_won_def)

lemma is_won_cases: "is_won win p \<Longrightarrow> \<exists>r. p = Done r \<and> win r"
  by (cases p) (auto simp: is_won_def)

lemma safe_not_won: "safe rely spent win p V \<Longrightarrow> \<not> is_won win p"
  by (cases p) (auto simp: is_won_def elim: safe.cases)

lemma wins_update:
  assumes "i < length ps" "\<not> is_won win (ps ! i)"
  shows "wins win (ps[i := p']) = wins win ps + (if is_won win p' then 1 else 0)"
proof -
  have "ps = take i ps @ ps ! i # drop (Suc i) ps"
    using assms(1) by (rule id_take_nth_drop)
  then have "wins win ps = length (filter (is_won win) (take i ps @ ps ! i # drop (Suc i) ps))"
    by (simp add: wins_def)
  moreover have "ps[i := p'] = take i ps @ p' # drop (Suc i) ps"
    using assms(1) by (rule upd_conv_take_nth_drop)
  ultimately show ?thesis
    using assms(2) by (simp add: wins_def)
qed

locale one_shot = store_contract S view ok
  for S :: "'s store" and view :: "'s \<Rightarrow> view" and ok :: "'s \<Rightarrow> bool" +
  fixes rely :: "view \<Rightarrow> view \<Rightarrow> bool"
    and spent :: "view \<Rightarrow> bool"
    and win :: "'r \<Rightarrow> bool"
  assumes rely_refl: "rely V V"
    and rely_trans: "rely V1 V2 \<Longrightarrow> rely V2 V3 \<Longrightarrow> rely V1 V3"
    and spent_stable: "rely V1 V2 \<Longrightarrow> spent V1 \<Longrightarrow> spent V2"
begin

definition cfg_ok :: "view \<Rightarrow> 'r prog list \<times> 's \<Rightarrow> bool" where
  "cfg_ok V0 cfg \<longleftrightarrow>
     (case cfg of (ps, s) \<Rightarrow>
        ok s \<and> rely V0 (view s)
        \<and> (\<forall>p \<in> set ps. is_won win p \<or> safe rely spent win p (view s))
        \<and> wins win ps \<le> (if spent (view s) then 1 else 0)
        \<and> (spent V0 \<longrightarrow> wins win ps = 0))"

lemma safe_rely: "safe rely spent win p V \<Longrightarrow> rely V V' \<Longrightarrow> safe rely spent win p V'"
  using rely_trans by (elim safe.cases) (blast intro: safe.intros)+

lemma cfg_ok_step_at:
  assumes inv: "cfg_ok V0 (ps, s)" and i: "i < length ps"
    and p: "safe rely spent win (ps ! i) (view s)" and running: "\<And>r. ps ! i \<noteq> Done r"
  shows "cfg_ok V0 (step_at S i (ps, s))"
proof -
  obtain p' s' where st: "step_prog S (ps ! i) s = (p', s')" by force
  have "ok s" and v0: "rely V0 (view s)"
    using inv by (auto simp: cfg_ok_def)
  then have ok': "ok s'" and vs: "vstep (ps ! i) (view s) p' (view s')"
    using step_prog_vstep [OF _ st running] by auto
  from p have "rely (view s) (view s') \<and>
     (safe rely spent win p' (view s')
       \<or> is_won win p' \<and> spent (view s') \<and> \<not> spent (view s))"
    by (cases rule: safe.cases) (use running vs rely_refl in auto)
  then have r: "rely (view s) (view s')"
    and p': "safe rely spent win p' (view s')
       \<or> is_won win p' \<and> spent (view s') \<and> \<not> spent (view s)"
    by auto
  have others: "\<forall>q \<in> set ps. is_won win q \<or> safe rely spent win q (view s')"
    using inv r by (auto simp: cfg_ok_def intro: safe_rely)
  have "wins win (ps[i := p']) = wins win ps + (if is_won win p' then 1 else 0)"
    using i safe_not_won [OF p] by (rule wins_update)
  moreover have "wins win ps \<le> (if spent (view s) then 1 else 0)"
    using inv by (simp add: cfg_ok_def)
  ultimately have "wins win (ps[i := p']) \<le> (if spent (view s') then 1 else 0)"
    using p' safe_not_won [of rely spent win p' "view s'"] spent_stable [OF r]
    by (auto split: if_splits)
  moreover have "spent V0 \<longrightarrow> wins win (ps[i := p']) = 0"
    using inv p' spent_stable [OF v0] safe_not_won [of rely spent win p' "view s'"]
      wins_update [OF i safe_not_won [OF p]]
    by (auto simp: cfg_ok_def)
  moreover have "\<forall>q \<in> set (ps[i := p']). is_won win q \<or> safe rely spent win q (view s')"
    using others p' set_update_subset_insert by fastforce
  ultimately show ?thesis
    using i st ok' rely_trans [OF v0 r] by (simp add: step_at_def cfg_ok_def)
qed

lemma cfg_ok_step: "cfg_ok V0 cfg \<Longrightarrow> cfg_ok V0 (step_at S i cfg)"
proof -
  assume inv: "cfg_ok V0 cfg"
  obtain ps s where cfg: "cfg = (ps, s)" by force
  show ?thesis
  proof (cases "i < length ps \<and> (\<forall>r. ps ! i \<noteq> Done r)")
    case True
    then have "\<not> is_won win (ps ! i)" by (auto dest: is_won_cases)
    then have "safe rely spent win (ps ! i) (view s)"
      using inv cfg True by (auto simp: cfg_ok_def)
    then show ?thesis
      using inv cfg True cfg_ok_step_at by blast
  next
    case False
    then have "step_at S i (ps, s) = (ps, s)"
      by (auto simp: step_at_def) (metis list_update_id)
    then show ?thesis
      using inv cfg by simp
  qed
qed

lemma cfg_ok_interleave: "cfg_ok V0 cfg \<Longrightarrow> cfg_ok V0 (interleave S sched cfg)"
proof (induction sched arbitrary: cfg)
  case (Cons i sched)
  then have "cfg_ok V0 (interleave S sched (step_at S i cfg))"
    using cfg_ok_step by blast
  then show ?case by simp
qed simp

text \<open>The conclusion clients use.\<close>

lemma at_most_one_win:
  assumes "ok s" "\<And>p. p \<in> set ps \<Longrightarrow> safe rely spent win p (view s)"
    and "interleave S sched (ps, s) = (ps', s')"
  shows "wins win ps' \<le> 1" and "rely (view s) (view s')"
    and "wins win ps' = 1 \<Longrightarrow> spent (view s')"
    and "spent (view s) \<Longrightarrow> wins win ps' = 0"
proof -
  have "wins win ps = 0"
    using assms(2) safe_not_won by (fastforce simp: wins_def filter_empty_conv)
  then have "cfg_ok (view s) (ps, s)"
    using assms(1,2) rely_refl by (simp add: cfg_ok_def)
  then have "cfg_ok (view s) (ps', s')"
    using cfg_ok_interleave assms(3) by metis
  then show "wins win ps' \<le> 1" "rely (view s) (view s')"
      "wins win ps' = 1 \<Longrightarrow> spent (view s')" "spent (view s) \<Longrightarrow> wins win ps' = 0"
    by (auto simp: cfg_ok_def split: if_splits)
qed

end

section \<open>Programs that write only some keys\<close>

text \<open>\<open>confined P Q p\<close>: \<open>p\<close> writes only keys in \<open>P\<close> and its results are in \<open>Q\<close>.\<close>

primrec confined :: "(string \<Rightarrow> bool) \<Rightarrow> ('r \<Rightarrow> bool) \<Rightarrow> 'r prog \<Rightarrow> bool" where
  "confined P Q (Done r) = Q r"
| "confined P Q (Get k c) = (\<forall>x. confined P Q (c x))"
| "confined P Q (Put k v c) = (P k \<and> (\<forall>x. confined P Q (c x)))"
| "confined P Q (Delete k c) = (P k \<and> (\<forall>x. confined P Q (c x)))"
| "confined P Q (PutIfAbsent k v c) = (P k \<and> (\<forall>x. confined P Q (c x)))"
| "confined P Q (PutIfEq k e v c) = (P k \<and> (\<forall>x. confined P Q (c x)))"
| "confined P Q (Broadcast m p) = confined P Q p"

lemma confined_bind_prog:
  "confined P Q' p \<Longrightarrow> (\<And>r. Q' r \<Longrightarrow> confined P Q (f r)) \<Longrightarrow> confined P Q (bind_prog p f)"
  by (induction p) auto

lemma confined_bind_try:
  "confined P (\<lambda>_. True) p \<Longrightarrow> (\<And>e. Q (Inl e)) \<Longrightarrow> (\<And>a. confined P Q (f a)) \<Longrightarrow>
   confined P Q (bind_try p f)"
  unfolding bind_try_def by (erule confined_bind_prog) (auto split: sum.split)

lemma confined_safe:
  assumes "confined P (\<lambda>r. \<not> win r) p"
    and upd: "\<And>V k x. P k \<Longrightarrow> rely V (V(k := x))" and refl: "\<And>V. rely V V"
  shows "safe rely spent win p V"
  using assms(1)
proof (induction p arbitrary: V)
  case (Done r)
  then show ?case by (simp add: safe_Done)
next
  case (Get k c)
  then show ?case
    by (intro safe_step) (auto intro: refl)
next
  case (Put k v c)
  then show ?case
    by (intro safe_step) (auto intro: upd refl)
next
  case (Delete k c)
  then show ?case
    by (intro safe_step) (auto intro: upd refl)
next
  case (PutIfAbsent k v c)
  then show ?case
    by (intro safe_step) (auto intro: upd refl)
next
  case (PutIfEq k e v c)
  then show ?case
    by (intro safe_step) (auto intro: upd refl)
next
  case (Broadcast m p)
  then show ?case
    by (intro safe_step) (auto intro: refl)
qed

section \<open>The in-memory store obeys the contract\<close>

lemma memory_view_update:
  assumes "codec_ok C" "to_string C v = Inr raw"
  shows "memory_view C (data(k \<mapsto> raw)) = (memory_view C data)(k \<mapsto> v)"
    and "memory_ok C data \<Longrightarrow> memory_ok C (data(k \<mapsto> raw))"
proof -
  obtain raw' where "to_string C v = Inr raw'" "from_str C raw' = Inr v"
    using assms(1) unfolding codec_ok_def by blast
  then have "from_str C raw = Inr v"
    using assms(2) by simp
  then show "memory_view C (data(k \<mapsto> raw)) = (memory_view C data)(k \<mapsto> v)"
      "memory_ok C data \<Longrightarrow> memory_ok C (data(k \<mapsto> raw))"
    by (auto simp: memory_view_def memory_ok_def fun_eq_iff)
qed

lemma memory_view_delete:
  "memory_view C (data(k := None)) = (memory_view C data)(k := None)"
  "memory_ok C data \<Longrightarrow> memory_ok C (data(k := None))"
  by (auto simp: memory_view_def memory_ok_def fun_eq_iff)

lemma memory_view_None: "memory_ok C data \<Longrightarrow> memory_view C data k = None \<longleftrightarrow> data k = None"
  by (cases "data k") (fastforce simp: memory_view_def memory_ok_def split: sum.splits)+

lemma memory_store_contract:
  assumes "codec_ok C"
  shows "store_contract (memory_store C) (memory_view C) (memory_ok C)"
proof
  fix s :: "'a memory" and k r s' assume ok: "memory_ok C s"
    and op: "get_op (memory_store C) k s = (r, s')"
  then show "memory_ok C s' \<and> memory_view C s' = memory_view C s
      \<and> (\<forall>x. r = Inr x \<longrightarrow> x = memory_view C s k)"
    by (auto simp: memory_store_def memory_get_def memory_view_def
        split: option.splits sum.splits)
next
  fix s :: "'a memory" and k v r s' assume ok: "memory_ok C s"
    and op: "put_op (memory_store C) k v s = (r, s')"
  then show "memory_ok C s' \<and> memory_view C s' =
      (case r of Inl _ \<Rightarrow> memory_view C s | Inr _ \<Rightarrow> (memory_view C s)(k \<mapsto> v))"
    using memory_view_update [OF assms]
    by (auto simp: memory_store_def memory_put_def split: sum.splits)
next
  fix s :: "'a memory" and k r s' assume ok: "memory_ok C s"
    and op: "delete_op (memory_store C) k s = (r, s')"
  then show "memory_ok C s' \<and> memory_view C s' =
      (case r of Inl _ \<Rightarrow> memory_view C s | Inr _ \<Rightarrow> (memory_view C s)(k := None))"
    by (auto simp: memory_store_def memory_delete_def memory_view_delete)
next
  fix s :: "'a memory" and k v r s' assume ok: "memory_ok C s"
    and op: "put_if_absent_op (memory_store C) k v s = (r, s')"
  then show "memory_ok C s' \<and> (case r of Inl _ \<Rightarrow> memory_view C s' = memory_view C s
      | Inr b \<Rightarrow> b = (memory_view C s k = None)
          \<and> memory_view C s' = (if b then (memory_view C s)(k \<mapsto> v) else memory_view C s))"
    using memory_view_update [OF assms] memory_view_None [OF ok, of k]
    by (auto simp: memory_store_def memory_put_if_absent_def split: sum.splits option.splits)
next
  fix s :: "'a memory" and k x v r s' assume ok: "memory_ok C s"
    and op: "put_if_eq_op (memory_store C) k x v s = (r, s')"
  have cur: "(case s k of None \<Rightarrow> Inr None | Some raw \<Rightarrow> map_sum id Some (from_str C raw)) =
      Inr (memory_view C s k)"
    using ok by (cases "s k") (fastforce simp: memory_view_def memory_ok_def split: sum.splits)+
  then show "memory_ok C s' \<and> (case r of Inl _ \<Rightarrow> memory_view C s' = memory_view C s
      | Inr b \<Rightarrow> b = (memory_view C s k = x)
          \<and> memory_view C s' = (if b then (memory_view C s)(k \<mapsto> v) else memory_view C s))"
    using ok op memory_view_update [OF assms]
    by (auto simp: memory_store_def memory_put_if_eq_def split: sum.splits if_splits)
qed

lemma codec_ok_value_codec [simp]: "codec_ok value_codec"
  by (simp add: codec_ok_def value_codec_def)

interpretation mem: store_contract "memory_store value_codec" "memory_view value_codec"
    "memory_ok value_codec"
  by (rule memory_store_contract) simp

lemma memory_view_value_codec [simp]: "memory_view value_codec data = data"
  by (auto simp: memory_view_def value_codec_def fun_eq_iff split: option.split)

lemma memory_ok_value_codec [simp]: "memory_ok value_codec data"
  by (simp add: memory_ok_def value_codec_def)

lemma memory_ok_empty [simp]: "memory_ok C Map.empty"
  by (simp add: memory_ok_def)

lemma memory_view_empty [simp]: "memory_view C Map.empty = Map.empty"
  by (simp add: memory_view_def fun_eq_iff)

section \<open>A store that does not fail\<close>

text \<open>
  Run alone on a store whose calls succeed, a program does to the content of the store what it
  does on the in-memory store that keeps plain values.
\<close>

locale reliable_store = store_contract S view ok
  for S :: "'s store" and view :: "'s \<Rightarrow> view" and ok :: "'s \<Rightarrow> bool" +
  assumes get_ok: "ok s \<Longrightarrow> \<exists>x s'. get_op S k s = (Inr x, s')"
    and put_ok: "ok s \<Longrightarrow> \<exists>x s'. put_op S k v s = (Inr x, s')"
    and delete_ok: "ok s \<Longrightarrow> \<exists>x s'. delete_op S k s = (Inr x, s')"
    and put_if_absent_ok: "ok s \<Longrightarrow> \<exists>x s'. put_if_absent_op S k v s = (Inr x, s')"
    and put_if_eq_ok: "ok s \<Longrightarrow> \<exists>x s'. put_if_eq_op S k e v s = (Inr x, s')"
begin

lemma get_run: "ok s \<Longrightarrow> \<exists>s'. get_op S k s = (Inr (view s k), s') \<and> ok s' \<and> view s' = view s"
  using get_ok get_law by metis

lemma put_run:
  "ok s \<Longrightarrow> \<exists>s'. put_op S k v s = (Inr (), s') \<and> ok s' \<and> view s' = (view s)(k \<mapsto> v)"
  using put_ok [of s k v] put_law [of s k v] by fastforce

lemma delete_run:
  "ok s \<Longrightarrow> \<exists>s'. delete_op S k s = (Inr (), s') \<and> ok s' \<and> view s' = (view s)(k := None)"
  using delete_ok [of s k] delete_law [of s k] by fastforce

lemma put_if_absent_run:
  "ok s \<Longrightarrow> \<exists>s'. put_if_absent_op S k v s = (Inr (view s k = None), s') \<and> ok s'
     \<and> view s' = (if view s k = None then (view s)(k \<mapsto> v) else view s)"
  using put_if_absent_ok [of s k v] put_if_absent_law [of s k v] by fastforce

lemma put_if_eq_run:
  "ok s \<Longrightarrow> \<exists>s'. put_if_eq_op S k e v s = (Inr (view s k = e), s') \<and> ok s'
     \<and> view s' = (if view s k = e then (view s)(k \<mapsto> v) else view s)"
  using put_if_eq_ok [of s k e v] put_if_eq_law [of s k e v] by fastforce

end

abbreviation "plain \<equiv> memory_store value_codec"

lemma value_store_ops [simp]:
  "get_op (memory_store value_codec) k V = (Inr (V k), V)"
  "put_op (memory_store value_codec) k v V = (Inr (), V(k \<mapsto> v))"
  "delete_op (memory_store value_codec) k V = (Inr (), V(k := None))"
  "put_if_absent_op (memory_store value_codec) k v V =
     (Inr (V k = None), if V k = None then V(k \<mapsto> v) else V)"
  "put_if_eq_op (memory_store value_codec) k e v V =
     (Inr (V k = e), if V k = e then V(k \<mapsto> v) else V)"
  by (auto simp: memory_store_def memory_get_def memory_put_def memory_delete_def
      memory_put_if_absent_def memory_put_if_eq_def value_codec_def split: option.splits)

context reliable_store
begin

lemma run_view:
  assumes "ok s"
  shows "\<exists>s'. run S p s = (fst (run (memory_store value_codec) p (view s)), s') \<and> ok s'
    \<and> view s' = snd (run (memory_store value_codec) p (view s))"
  using assms
proof (induction p arbitrary: s)
  case (Get k c)
  from get_run [OF Get.prems, of k] Get.IH show ?case by fastforce
next
  case (Put k v c)
  from put_run [OF Put.prems, of k v] Put.IH show ?case by fastforce
next
  case (Delete k c)
  from delete_run [OF Delete.prems, of k] Delete.IH show ?case by fastforce
next
  case (PutIfAbsent k v c)
  from put_if_absent_run [OF PutIfAbsent.prems, of k v] PutIfAbsent.IH show ?case by fastforce
next
  case (PutIfEq k e v c)
  from put_if_eq_run [OF PutIfEq.prems, of k e v] PutIfEq.IH show ?case by fastforce
next
  case (Broadcast m p)
  from Broadcast.IH [OF Broadcast.prems] show ?case by simp
qed simp

end

lemma memory_store_reliable:
  assumes "codec_ok C"
  shows "reliable_store (memory_store C) (memory_view C) (memory_ok C)"
proof (intro reliable_store.intro memory_store_contract [OF assms] reliable_store_axioms.intro)
  have enc: "\<exists>raw. to_string C v = Inr raw" for v
    using assms unfolding codec_ok_def by blast
  fix s :: "'a memory" and k e v
  assume ok: "memory_ok C s"
  have dec: "from_str C raw = Inr (the (memory_view C s k))" if "s k = Some raw" for raw
    using ok that by (fastforce simp: memory_ok_def memory_view_def split: sum.splits)
  show "\<exists>x s'. get_op (memory_store C) k s = (Inr x, s')"
    using dec by (cases "s k") (simp_all add: memory_store_def memory_get_def)
  show "\<exists>x s'. put_op (memory_store C) k v s = (Inr x, s')"
    using enc [of v] by (auto simp: memory_store_def memory_put_def)
  show "\<exists>x s'. delete_op (memory_store C) k s = (Inr x, s')"
    by (simp add: memory_store_def memory_delete_def)
  show "\<exists>x s'. put_if_absent_op (memory_store C) k v s = (Inr x, s')"
    using enc [of v] by (cases "s k") (auto simp: memory_store_def memory_put_if_absent_def)
  show "\<exists>x s'. put_if_eq_op (memory_store C) k e v s = (Inr x, s')"
    using enc [of v] dec by (cases "s k") (auto simp: memory_store_def memory_put_if_eq_def)
qed

interpretation reliable_mem: reliable_store "memory_store value_codec" "memory_view value_codec"
    "memory_ok value_codec"
  by (rule memory_store_reliable) simp

lemma run_memory_store:
  assumes "codec_ok C" "memory_ok C s" "run (memory_store C) p s = (r, s')"
  shows "memory_ok C s'"
    and "run (memory_store value_codec) p (memory_view C s) = (r, memory_view C s')"
  using reliable_store.run_view [OF memory_store_reliable [OF assms(1)], OF assms(2), of p] assms(3)
  by (auto simp: prod_eq_iff)

end
