(* ===== verification/Consumed_Signatures.thy ===== *)
theory Consumed_Signatures
  imports Store_Contract
begin

text \<open>
  \<open>ConsumedSignatures\<close> of \<open>core/store.rs\<close>: the protocol-independent ledger of Solana
  transaction signatures that already authorised a response, over any \<open>Store\<close>.

  Each method is a program of store calls.  \<open>ledger_authorises_once\<close> is the purpose of the
  ledger: however the calls of any number of requests interleave, one signature authorises at
  most one response, as long as no holder releases a consumed claim.  The sequential behaviour
  of a claim (\<open>run_claim_with\<close>), the give-back of a refused claim and the release of a claim
  are stated on the abstract content of the store.
\<close>

section \<open>Keys and markers\<close>

definition consumed_signature_key :: "string \<Rightarrow> string" where
  "consumed_signature_key signature = ''solana:consumed-signature:'' @ signature"

definition LEGACY_X402_NETWORKS :: "string list" where
  "LEGACY_X402_NETWORKS =
     [''solana:5eykt4UsFv8P8NJdTREpY1vzqKqZKvdp'',
      ''solana:EtWTRABZaYq6iMfeYKouRu166VU2xqa1'',
      ''solana:4uhcVJyU9pJkvQyS88uRDiswHXSCkY3z'']"

definition legacy_consumed_signature_keys :: "string \<Rightarrow> string list" where
  "legacy_consumed_signature_keys signature =
     (''solana-charge:consumed:'' @ signature)
     # map (\<lambda>network. ''x402-exact:consumed:'' @ network @ '':'' @ signature) LEGACY_X402_NETWORKS"

definition released_marker :: json where
  "released_marker = JObject [(''state'', JString ''released'')]"

definition pending_marker :: json where
  "pending_marker = JObject [(''state'', JString ''pending'')]"

datatype pending_claim = Fresh | ResumePending | Consumed

section \<open>The ledger's methods\<close>

fun give_back :: "string list \<Rightarrow> unit prog" where
  "give_back [] = Done ()"
| "give_back (key # keys) = Delete key (\<lambda>_. give_back keys)"

text \<open>
  The loop over the legacy keys: \<open>Inr taken\<close> goes on with the keys taken, \<open>Inl outcome\<close>
  is the early return.
\<close>

fun take_legacy :: "string list \<Rightarrow> string list \<Rightarrow> ((store_error + bool) + string list) prog" where
  "take_legacy [] taken = Done (Inr taken)"
| "take_legacy (key # keys) taken =
     PutIfAbsent key (JBool True) (\<lambda>outcome.
       if outcome = Inr True then take_legacy keys (taken @ [key])
       else bind_prog (give_back taken) (\<lambda>_. Done (Inl outcome)))"

definition claim_finish :: "string list \<Rightarrow> store_error + bool \<Rightarrow> (store_error + bool) prog" where
  "claim_finish taken outcome =
     (if outcome \<noteq> Inr True then bind_prog (give_back taken) (\<lambda>_. Done outcome)
      else Done outcome)"

definition claim_with :: "string \<Rightarrow> json \<Rightarrow> (store_error + bool) prog" where
  "claim_with signature value =
     bind_prog (take_legacy (legacy_consumed_signature_keys signature) []) (\<lambda>legacy.
       case legacy of
         Inl outcome \<Rightarrow> Done outcome
       | Inr taken \<Rightarrow>
           (let key = consumed_signature_key signature in
            PutIfAbsent key value (\<lambda>first.
              if first = Inr False
              then PutIfEq key (Some released_marker) value (claim_finish taken)
              else claim_finish taken first)))"

definition claim :: "string \<Rightarrow> (store_error + bool) prog" where
  "claim signature = claim_with signature (JBool True)"

definition claim_pending :: "string \<Rightarrow> (store_error + pending_claim) prog" where
  "claim_pending signature =
     bind_try (claim_with signature pending_marker) (\<lambda>won.
       if won then Done (Inr Fresh)
       else Get (consumed_signature_key signature) (\<lambda>held.
         case held of
           Inl e \<Rightarrow> Done (Inl e)
         | Inr value \<Rightarrow>
             Done (Inr (if value = Some pending_marker then ResumePending else Consumed))))"

definition confirm :: "string \<Rightarrow> (store_error + bool) prog" where
  "confirm signature =
     PutIfEq (consumed_signature_key signature) (Some pending_marker) (JBool True) Done"

fun delete_keys :: "string list \<Rightarrow> (store_error + bool) prog" where
  "delete_keys [] = Done (Inr True)"
| "delete_keys (key # keys) =
     Delete key (\<lambda>r. case r of Inl e \<Rightarrow> Done (Inl e) | Inr _ \<Rightarrow> delete_keys keys)"

definition release_holding :: "string \<Rightarrow> json \<Rightarrow> (store_error + bool) prog" where
  "release_holding signature held =
     PutIfEq (consumed_signature_key signature) (Some held) released_marker (\<lambda>r.
       case r of
         Inl e \<Rightarrow> Done (Inl e)
       | Inr swapped \<Rightarrow>
           if \<not> swapped then Done (Inr False)
           else delete_keys (legacy_consumed_signature_keys signature))"

definition release :: "string \<Rightarrow> (store_error + bool) prog" where
  "release signature = release_holding signature (JBool True)"

definition release_pending :: "string \<Rightarrow> (store_error + bool) prog" where
  "release_pending signature = release_holding signature pending_marker"

section \<open>Requests against the ledger\<close>

text \<open>
  A request calls one method for one signature; its result keeps both, so that results of
  different requests can be told apart.  \<open>authorises\<close> names the results that let a request be
  served: a claim that won, and the confirmation of a pending claim that won.
\<close>

datatype ledger_op = OpClaim | OpClaimPending | OpConfirm | OpReleasePending

datatype ledger_result =
    BoolResult ledger_op string "store_error + bool"
  | PendingResult string "store_error + pending_claim"

fun ledger_request :: "ledger_op \<times> string \<Rightarrow> ledger_result prog" where
  "ledger_request (OpClaim, signature) =
     bind_prog (claim signature) (\<lambda>r. Done (BoolResult OpClaim signature r))"
| "ledger_request (OpClaimPending, signature) =
     bind_prog (claim_pending signature) (\<lambda>r. Done (PendingResult signature r))"
| "ledger_request (OpConfirm, signature) =
     bind_prog (confirm signature) (\<lambda>r. Done (BoolResult OpConfirm signature r))"
| "ledger_request (OpReleasePending, signature) =
     bind_prog (release_pending signature) (\<lambda>r. Done (BoolResult OpReleasePending signature r))"

definition authorises :: "string \<Rightarrow> ledger_result \<Rightarrow> bool" where
  "authorises signature r \<longleftrightarrow>
     r = BoolResult OpClaim signature (Inr True) \<or> r = BoolResult OpConfirm signature (Inr True)"

section \<open>What a claim does, on the content of the store\<close>

definition claimable :: "string \<Rightarrow> view \<Rightarrow> bool" where
  "claimable signature V \<longleftrightarrow>
     list_all (\<lambda>k. V k = None) (legacy_consumed_signature_keys signature)
     \<and> (V (consumed_signature_key signature) = None
         \<or> V (consumed_signature_key signature) = Some released_marker)"

definition claimed_view :: "string \<Rightarrow> json \<Rightarrow> view \<Rightarrow> view" where
  "claimed_view signature value V = (\<lambda>k.
     if k = consumed_signature_key signature then Some value
     else if k \<in> set (legacy_consumed_signature_keys signature) then Some (JBool True)
     else V k)"

definition released_view :: "string \<Rightarrow> view \<Rightarrow> view" where
  "released_view signature V = (\<lambda>k.
     if k = consumed_signature_key signature then Some released_marker
     else if k \<in> set (legacy_consumed_signature_keys signature) then None
     else V k)"

section \<open>Lemmas: keys\<close>

lemma consumed_signature_key_inject [simp]:
  "consumed_signature_key a = consumed_signature_key b \<longleftrightarrow> a = b"
  by (simp add: consumed_signature_key_def)

lemma legacy_not_ledger:
  "key \<in> set (legacy_consumed_signature_keys a) \<Longrightarrow> key \<noteq> consumed_signature_key b"
  by (auto simp: legacy_consumed_signature_keys_def consumed_signature_key_def)

lemma distinct_legacy_keys: "distinct (legacy_consumed_signature_keys a)"
  by (simp add: legacy_consumed_signature_keys_def LEGACY_X402_NETWORKS_def)

lemma markers_distinct [simp]:
  "released_marker \<noteq> pending_marker" "pending_marker \<noteq> released_marker"
  "released_marker \<noteq> JBool b" "pending_marker \<noteq> JBool b"
  "JBool b \<noteq> released_marker" "JBool b \<noteq> pending_marker"
  by (simp_all add: released_marker_def pending_marker_def)

section \<open>Lemmas: the ledger as a one-shot protocol\<close>

text \<open>
  For one signature: the claim is spent once its key holds \<open>true\<close>, and requests rely on a
  spent claim staying spent.
\<close>

abbreviation ledger_spent :: "string \<Rightarrow> view \<Rightarrow> bool" where
  "ledger_spent signature V \<equiv> V (consumed_signature_key signature) = Some (JBool True)"

abbreviation ledger_rely :: "string \<Rightarrow> view \<Rightarrow> view \<Rightarrow> bool" where
  "ledger_rely signature V V' \<equiv> ledger_spent signature V \<longrightarrow> ledger_spent signature V'"

definition ledger_safe :: "string \<Rightarrow> ledger_result prog \<Rightarrow> bool" where
  "ledger_safe signature p \<longleftrightarrow>
     (\<forall>V. safe (ledger_rely signature) (ledger_spent signature) (authorises signature) p V)"

lemma ledger_safe_Done: "\<not> authorises signature r \<Longrightarrow> ledger_safe signature (Done r)"
  by (simp add: ledger_safe_def safe_Done)

lemma ledger_safe_step:
  assumes "\<And>r. p \<noteq> Done r"
    and "\<And>V1 p' V2. vstep p V1 p' V2 \<Longrightarrow> ledger_rely signature V1 V2 \<and>
      (ledger_safe signature p'
        \<or> is_won (authorises signature) p' \<and> ledger_spent signature V2 \<and> \<not> ledger_spent signature V1)"
  shows "ledger_safe signature p"
  unfolding ledger_safe_def
  by (intro allI safe_step assms(1)) (use assms(2) in \<open>auto simp: ledger_safe_def\<close>)

lemma ledger_safe_Get:
  "(\<And>x. ledger_safe signature (c x)) \<Longrightarrow> ledger_safe signature (Get k c)"
  by (rule ledger_safe_step) auto

lemma ledger_safe_Delete:
  "k \<noteq> consumed_signature_key signature \<Longrightarrow> (\<And>x. ledger_safe signature (c x)) \<Longrightarrow>
   ledger_safe signature (Delete k c)"
  by (rule ledger_safe_step) auto

lemma ledger_safe_PutIfAbsent:
  "k \<noteq> consumed_signature_key signature \<Longrightarrow> (\<And>x. ledger_safe signature (c x)) \<Longrightarrow>
   ledger_safe signature (PutIfAbsent k v c)"
  by (rule ledger_safe_step) auto

lemma ledger_safe_PutIfEq:
  "k \<noteq> consumed_signature_key signature \<Longrightarrow> (\<And>x. ledger_safe signature (c x)) \<Longrightarrow>
   ledger_safe signature (PutIfEq k e v c)"
  by (rule ledger_safe_step) auto

lemma ledger_safe_give_back:
  assumes "\<And>k. k \<in> set keys \<Longrightarrow> k \<noteq> consumed_signature_key signature"
    and "ledger_safe signature (f ())"
  shows "ledger_safe signature (bind_prog (give_back keys) f)"
  using assms by (induction keys) (auto intro: ledger_safe_Delete)

lemma ledger_safe_delete_keys:
  assumes "\<And>k. k \<in> set keys \<Longrightarrow> k \<noteq> consumed_signature_key signature"
    and "\<And>r. ledger_safe signature (f r)"
  shows "ledger_safe signature (bind_prog (delete_keys keys) f)"
  using assms by (induction keys) (auto intro!: ledger_safe_Delete split: sum.split)

lemma ledger_safe_take_legacy:
  assumes "\<And>k. k \<in> set keys \<union> set taken \<Longrightarrow> k \<noteq> consumed_signature_key signature"
    and "\<And>outcome. outcome \<noteq> Inr True \<Longrightarrow> ledger_safe signature (f (Inl outcome))"
    and "\<And>taken'. set taken' \<subseteq> set keys \<union> set taken \<Longrightarrow> ledger_safe signature (f (Inr taken'))"
  shows "ledger_safe signature (bind_prog (take_legacy keys taken) f)"
  using assms
proof (induction keys arbitrary: taken)
  case (Cons key keys)
  have "ledger_safe signature (bind_prog (take_legacy keys (taken @ [key])) f)"
    using Cons.prems by (intro Cons.IH) auto
  moreover have "ledger_safe signature
      (bind_prog (bind_prog (give_back taken) (\<lambda>_. Done (Inl outcome))) f)"
    if "outcome \<noteq> Inr True" for outcome
    unfolding bind_prog_assoc using Cons.prems that by (intro ledger_safe_give_back) auto
  ultimately show ?case
    using Cons.prems(1) by (auto intro!: ledger_safe_PutIfAbsent)
qed simp

lemma ledger_safe_claim_finish:
  assumes "\<And>k. k \<in> set taken \<Longrightarrow> k \<noteq> consumed_signature_key signature"
    and "outcome \<noteq> Inr True" "ledger_safe signature (f outcome)"
  shows "ledger_safe signature (bind_prog (claim_finish taken outcome) f)"
proof -
  have "bind_prog (claim_finish taken outcome) f = bind_prog (give_back taken) (\<lambda>_. f outcome)"
    using assms(2) by (simp add: claim_finish_def bind_prog_assoc)
  then show ?thesis
    using assms(1,3) by (auto intro: ledger_safe_give_back)
qed

lemma claim_finish_won [simp]: "claim_finish taken (Inr True) = Done (Inr True)"
  by (simp add: claim_finish_def)

text \<open>
  A claim is safe when its refusals are, and when its success is either safe too or is the
  authorisation that writes \<open>true\<close> under the signature's own key.
\<close>

lemma ledger_safe_claim_with:
  assumes refused: "\<And>r. r \<noteq> Inr True \<Longrightarrow> ledger_safe signature (f r)"
    and won: "ledger_safe signature (f (Inr True))
      \<or> a = signature \<and> value = JBool True \<and> is_won (authorises signature) (f (Inr True))"
  shows "ledger_safe signature (bind_prog (claim_with a value) f)"
proof -
  let ?key = "consumed_signature_key a"
  have taken_ok: "k \<noteq> consumed_signature_key signature"
    if "set taken \<subseteq> set (legacy_consumed_signature_keys a)" "k \<in> set taken" for taken k
    using that legacy_not_ledger by blast
  have swap: "ledger_safe signature
      (bind_prog (PutIfEq ?key (Some released_marker) value (claim_finish taken)) f)"
    if t: "set taken \<subseteq> set (legacy_consumed_signature_keys a)" for taken
  proof (rule ledger_safe_step)
    fix V1 p' V2
    assume "vstep (bind_prog (PutIfEq ?key (Some released_marker) value (claim_finish taken)) f)
      V1 p' V2"
    then show "ledger_rely signature V1 V2 \<and> (ledger_safe signature p'
        \<or> is_won (authorises signature) p' \<and> ledger_spent signature V2
          \<and> \<not> ledger_spent signature V1)"
      using won ledger_safe_claim_finish [OF taken_ok [OF t], where f = f] refused by auto
  qed simp
  have put: "ledger_safe signature
      (bind_prog (PutIfAbsent ?key value (\<lambda>first. if first = Inr False
         then PutIfEq ?key (Some released_marker) value (claim_finish taken)
         else claim_finish taken first)) f)"
    if t: "set taken \<subseteq> set (legacy_consumed_signature_keys a)" for taken
  proof (rule ledger_safe_step)
    fix V1 p' V2
    assume "vstep (bind_prog (PutIfAbsent ?key value (\<lambda>first. if first = Inr False
         then PutIfEq ?key (Some released_marker) value (claim_finish taken)
         else claim_finish taken first)) f) V1 p' V2"
    then show "ledger_rely signature V1 V2 \<and> (ledger_safe signature p'
        \<or> is_won (authorises signature) p' \<and> ledger_spent signature V2
          \<and> \<not> ledger_spent signature V1)"
      using won swap [OF t] ledger_safe_claim_finish [OF taken_ok [OF t], where f = f] refused
      by auto
  qed simp
  show ?thesis
    unfolding claim_with_def bind_prog_assoc
    by (rule ledger_safe_take_legacy)
      (use legacy_not_ledger refused put in \<open>auto simp: Let_def\<close>)
qed

lemma ledger_safe_request: "ledger_safe signature (ledger_request (op, a))"
proof (cases op)
  case OpClaim
  show ?thesis
    unfolding OpClaim ledger_request.simps claim_def
    by (rule ledger_safe_claim_with)
      (auto simp: authorises_def intro!: ledger_safe_Done)
next
  case OpClaimPending
  let ?read = "\<lambda>won. if won then Done (Inr Fresh)
    else Get (consumed_signature_key a) (\<lambda>held. case held of
           Inl e \<Rightarrow> Done (Inl e)
         | Inr value \<Rightarrow> Done (Inr (if value = Some pending_marker then ResumePending else Consumed)))"
  have read: "ledger_safe signature (bind_prog (?read won) (\<lambda>r. Done (PendingResult a r)))" for won
    by (cases won)
      (auto simp: authorises_def split!: sum.split intro!: ledger_safe_Done ledger_safe_Get)
  have "ledger_safe signature (bind_prog (claim_with a pending_marker) (\<lambda>r. bind_prog
      (case r of Inl e \<Rightarrow> Done (Inl e) | Inr won \<Rightarrow> ?read won)
      (\<lambda>r. Done (PendingResult a r))))"
    using read
    by (intro ledger_safe_claim_with)
      (auto simp: authorises_def split!: sum.split intro!: ledger_safe_Done)
  then show ?thesis
    unfolding OpClaimPending by (simp add: claim_pending_def bind_try_def bind_prog_assoc)
next
  case OpConfirm
  show ?thesis
    unfolding OpConfirm ledger_request.simps confirm_def
    by (rule ledger_safe_step) (auto simp: authorises_def intro!: ledger_safe_Done)
next
  case OpReleasePending
  have "ledger_safe signature (bind_prog (delete_keys (legacy_consumed_signature_keys a))
      (\<lambda>r. Done (BoolResult OpReleasePending a r)))"
    by (rule ledger_safe_delete_keys)
      (auto simp: authorises_def legacy_not_ledger intro!: ledger_safe_Done)
  then show ?thesis
    unfolding OpReleasePending ledger_request.simps release_pending_def release_holding_def
    by (intro ledger_safe_step) (auto simp: authorises_def intro!: ledger_safe_Done)
qed

lemma ledger_one_shot:
  assumes "codec_ok C"
  shows "one_shot (memory_store C) (memory_view C) (memory_ok C)
    (ledger_rely signature) (ledger_spent signature)"
  using memory_store_contract [OF assms]
  by (auto simp: one_shot_def one_shot_axioms_def)

interpretation ledger: one_shot "memory_store value_codec" "memory_view value_codec"
    "memory_ok value_codec" "ledger_rely signature" "ledger_spent signature"
    "authorises signature" for signature
  by (rule ledger_one_shot) simp

section \<open>Lemmas: one request alone\<close>

lemma run_give_back:
  "run plain (give_back keys) V = ((), \<lambda>k. if k \<in> set keys then None else V k)"
  by (induction keys arbitrary: V) (auto simp: fun_eq_iff)

lemma run_delete_keys:
  "run plain (delete_keys keys) V = (Inr True, \<lambda>k. if k \<in> set keys then None else V k)"
  by (induction keys arbitrary: V) (auto simp: fun_eq_iff)

lemma run_take_legacy:
  assumes "distinct keys"
  shows "run plain (take_legacy keys taken) V =
    (if list_all (\<lambda>k. V k = None) keys
     then (Inr (taken @ keys), \<lambda>k. if k \<in> set keys then Some (JBool True) else V k)
     else (Inl (Inr False), \<lambda>k. if k \<in> set taken then None else V k))"
  using assms
proof (induction keys arbitrary: taken V)
  case (Cons key keys)
  have "list_all (\<lambda>k. (V(key \<mapsto> JBool True)) k = None) keys = list_all (\<lambda>k. V k = None) keys"
    using Cons.prems by (auto simp: list_all_iff)
  with Cons show ?case
    by (auto simp: run_bind_prog run_give_back fun_eq_iff)
qed auto

lemma run_claim_with:
  "run plain (claim_with signature value) V =
    (Inr (claimable signature V),
     if claimable signature V then claimed_view signature value V else V)"
proof -
  let ?keys = "legacy_consumed_signature_keys signature"
  let ?key = "consumed_signature_key signature"
  let ?V = "\<lambda>k. if k \<in> set ?keys then Some (JBool True) else V k"
  have key: "?key \<notin> set ?keys"
    using legacy_not_ledger by blast
  note take = run_take_legacy [OF distinct_legacy_keys, of signature "[]" V]
  show ?thesis
  proof (cases "list_all (\<lambda>k. V k = None) ?keys")
    case False
    then show ?thesis
      by (simp add: claim_with_def run_bind_prog take claimable_def)
  next
    case True
    then have restored: "(\<lambda>k. if k \<in> set ?keys then None else ?V k) = V"
      by (auto simp: fun_eq_iff list_all_iff)
    show ?thesis
    proof (cases "claimable signature V")
      case won: True
      then show ?thesis
        using True key
        by (auto simp: claim_with_def run_bind_prog take claimable_def claimed_view_def Let_def)
    next
      case refused: False
      then obtain w where "V ?key = Some w" "w \<noteq> released_marker"
        using True by (auto simp: claimable_def)
      then show ?thesis
        using True refused key restored
        by (simp add: claim_with_def run_bind_prog take Let_def claim_finish_def run_give_back)
    qed
  qed
qed

lemma run_claim_pending:
  "run plain (claim_pending signature) V =
    (Inr (if claimable signature V then Fresh
          else if V (consumed_signature_key signature) = Some pending_marker then ResumePending
          else Consumed),
     if claimable signature V then claimed_view signature pending_marker V else V)"
  by (simp add: claim_pending_def run_bind_try run_claim_with)

lemma run_confirm:
  "run plain (confirm signature) V =
    (let pending = V (consumed_signature_key signature) = Some pending_marker in
     (Inr pending,
      if pending then V(consumed_signature_key signature \<mapsto> JBool True) else V))"
  by (simp add: confirm_def Let_def)

lemma run_release_holding:
  "run plain (release_holding signature held) V =
    (let holds = V (consumed_signature_key signature) = Some held in
     (Inr holds, if holds then released_view signature V else V))"
  using legacy_not_ledger [of "consumed_signature_key signature" signature signature]
  by (auto simp: release_holding_def run_delete_keys released_view_def fun_eq_iff Let_def)

lemmas run_ledger = run_claim_with run_claim_pending run_confirm run_release_holding
  claim_def release_def release_pending_def

lemma claimable_released: "claimable signature (released_view signature V)"
  using legacy_not_ledger
  by (fastforce simp: claimable_def released_view_def list_all_iff)

lemma claimed_view_key [simp]:
  "claimed_view signature value V (consumed_signature_key signature) = Some value"
  by (simp add: claimed_view_def)

lemma not_claimable_claimed [simp]: "\<not> claimable signature (claimed_view signature value V)"
  by (auto simp: claimable_def claimed_view_def legacy_consumed_signature_keys_def
      consumed_signature_key_def)

section \<open>Properties\<close>

text \<open>
  C7.  One transaction signature authorises at most one response.  Take any number of requests,
  each of them \<open>claim\<close>, \<open>claim_pending\<close>, \<open>confirm\<close> or \<open>release_pending\<close> of any signature (the
  unconditional \<open>release\<close>, which gives a won claim back so that it can be won again, is not among
  them), started on any in-memory store, and let their store calls interleave in any order: for every
  signature at most one request ends with a won claim or a won confirmation, none does if the
  signature was already consumed, and a signature consumed before or by such a win is recorded
  as consumed at the end.
\<close>

theorem ledger_authorises_once:
  assumes "codec_ok C" "memory_ok C s"
    and run: "interleave (memory_store C) sched (map ledger_request reqs, s) = (ps, s')"
  shows "wins (authorises signature) ps \<le> 1
    \<and> (memory_view C s (consumed_signature_key signature) = Some (JBool True) \<longrightarrow>
        wins (authorises signature) ps = 0)
    \<and> (wins (authorises signature) ps = 1
        \<or> memory_view C s (consumed_signature_key signature) = Some (JBool True) \<longrightarrow>
        memory_view C s' (consumed_signature_key signature) = Some (JBool True))"
proof -
  have safe: "safe (ledger_rely signature) (ledger_spent signature) (authorises signature) p
      (memory_view C s)" if "p \<in> set (map ledger_request reqs)" for p
    using that ledger_safe_request [of signature] by (auto simp: ledger_safe_def)
  note win = one_shot.at_most_one_win [OF ledger_one_shot [OF assms(1)], OF assms(2) safe run,
      simplified]
  show ?thesis
    using win by auto
qed

theorem ledger_authorises_once_witness:
  "\<exists>sched ps s'.
     interleave (memory_store value_codec) sched
       (map ledger_request [(OpClaim, ''s''), (OpClaim, ''s'')], Map.empty) = (ps, s')
     \<and> wins (authorises ''s'') ps = 1
     \<and> s' (consumed_signature_key ''s'') = Some (JBool True)"
proof -
  let ?sched = "concat (replicate 8 [0, 1])"
  let ?reqs = "[(OpClaim, ''s''), (OpClaim, ''s'')]"
  obtain ps s' where run: "interleave (memory_store value_codec) ?sched
      (map ledger_request ?reqs, Map.empty) = (ps, s')"
    by force
  have "wins (authorises ''s'') (fst (interleave (memory_store value_codec) ?sched
      (map ledger_request ?reqs, Map.empty))) = 1"
    by code_simp
  then have "wins (authorises ''s'') ps = 1"
    by (simp only: run fst_conv)
  moreover have "s' (consumed_signature_key ''s'') = Some (JBool True)"
    using ledger_authorises_once [OF _ _ run, of "''s''"] calculation by simp
  ultimately show ?thesis
    using run by blast
qed

text \<open>
  The outcome of a claim, on every branch: it wins exactly when every legacy key is free
  and the ledger key is free or holds a released marker; a winning claim takes all of them, and
  a refused claim leaves the content of the store as it found it (the keys it took are given
  back).
\<close>

theorem claim_with_correct:
  assumes "codec_ok C" "memory_ok C s"
    and "run (memory_store C) (claim_with signature value) s = (r, s')"
  shows "r = Inr (claimable signature (memory_view C s))
    \<and> memory_view C s' =
        (if claimable signature (memory_view C s)
         then claimed_view signature value (memory_view C s) else memory_view C s)"
  using run_memory_store(2) [OF assms] by (auto simp: run_claim_with)

theorem claim_with_correct_witness:
  "\<exists>s'. run (memory_store value_codec) (claim_with ''s'' (JBool True)) Map.empty = (Inr True, s')
     \<and> s' = claimed_view ''s'' (JBool True) Map.empty"
proof -
  obtain r s' where run:
    "run (memory_store value_codec) (claim_with ''s'' (JBool True)) Map.empty = (r, s')"
    by force
  have "claimable ''s'' Map.empty"
    by (simp add: claimable_def list_all_iff)
  then show ?thesis
    using claim_with_correct [OF _ _ run] run by simp
qed

text \<open>
  The life of a pending claim.  While the outcome of a broadcast is unknown the signature is
  taken: a claim is refused and a second pending claim resumes it.  Once confirmed it stays
  consumed: a later confirmation and a late release are refused and change nothing, and every
  claim is refused.
\<close>

theorem pending_claim_confirmed:
  assumes "codec_ok C" "memory_ok C s0" "claimable signature (memory_view C s0)"
    and "run (memory_store C) (claim_pending signature) s0 = (r1, s1)"
    and "run (memory_store C) (claim signature) s1 = (r2, s2)"
    and "run (memory_store C) (claim_pending signature) s2 = (r3, s3)"
    and "run (memory_store C) (confirm signature) s3 = (r4, s4)"
    and "run (memory_store C) (release_pending signature) s4 = (r5, s5)"
    and "run (memory_store C) (confirm signature) s5 = (r6, s6)"
    and "run (memory_store C) (claim_pending signature) s6 = (r7, s7)"
  shows "r1 = Inr Fresh \<and> r2 = Inr False \<and> r3 = Inr ResumePending \<and> r4 = Inr True
    \<and> r5 = Inr False \<and> r6 = Inr False \<and> r7 = Inr Consumed
    \<and> memory_view C s7 = claimed_view signature (JBool True) (memory_view C s0)"
proof -
  let ?k = "consumed_signature_key signature"
  note runs = run_memory_store [OF assms(1)]
  have 1: "r1 = Inr Fresh" "memory_ok C s1"
      "memory_view C s1 = claimed_view signature pending_marker (memory_view C s0)"
    using runs [OF assms(2,4)] assms(3) by (simp_all add: run_ledger)
  have 2: "r2 = Inr False" "memory_ok C s2" "memory_view C s2 = memory_view C s1"
    using runs [OF 1(2) assms(5)] 1(3) by (simp_all add: run_ledger)
  have 3: "r3 = Inr ResumePending" "memory_ok C s3" "memory_view C s3 = memory_view C s1"
    using runs [OF 2(2) assms(6)] 1(3) 2(3) by (simp_all add: run_ledger)
  have upd: "(claimed_view signature v V)(?k \<mapsto> w) = claimed_view signature w V" for v w V
    by (auto simp: claimed_view_def fun_eq_iff)
  have 4: "r4 = Inr True" "memory_ok C s4"
      "memory_view C s4 = claimed_view signature (JBool True) (memory_view C s0)"
    using runs [OF 3(2) assms(7)] 1(3) 3(3) by (simp_all add: run_ledger upd)
  have 5: "r5 = Inr False" "memory_ok C s5" "memory_view C s5 = memory_view C s4"
    using runs [OF 4(2) assms(8)] 4(3) by (simp_all add: run_ledger)
  have 6: "r6 = Inr False" "memory_ok C s6" "memory_view C s6 = memory_view C s4"
    using runs [OF 5(2) assms(9)] 4(3) 5(3) by (simp_all add: run_ledger)
  have 7: "r7 = Inr Consumed" "memory_view C s7 = memory_view C s4"
    using runs [OF 6(2) assms(10)] 4(3) 6(3) by (simp_all add: run_ledger)
  from 1 2 3 4 5 6 7 show ?thesis by simp
qed

theorem pending_claim_confirmed_witness:
  "\<exists>s7. run (memory_store value_codec)
      (bind_prog (claim_pending ''s'') (\<lambda>r1. bind_prog (claim ''s'') (\<lambda>r2.
       bind_prog (claim_pending ''s'') (\<lambda>r3. bind_prog (confirm ''s'') (\<lambda>r4.
       bind_prog (release_pending ''s'') (\<lambda>r5. bind_prog (confirm ''s'') (\<lambda>r6.
       bind_prog (claim_pending ''s'') (\<lambda>r7. Done (r1, r2, r3, r4, r5, r6, r7)))))))))
      Map.empty
    = ((Inr Fresh, Inr False, Inr ResumePending, Inr True, Inr False, Inr False, Inr Consumed), s7)"
proof -
  have free: "claimable ''s'' (memory_view value_codec Map.empty)"
    by (simp add: claimable_def list_all_iff)
  obtain r1 s1 where 1: "run (memory_store value_codec) (claim_pending ''s'') Map.empty = (r1, s1)"
    by force
  obtain r2 s2 where 2: "run (memory_store value_codec) (claim ''s'') s1 = (r2, s2)"
    by force
  obtain r3 s3 where 3: "run (memory_store value_codec) (claim_pending ''s'') s2 = (r3, s3)"
    by force
  obtain r4 s4 where 4: "run (memory_store value_codec) (confirm ''s'') s3 = (r4, s4)"
    by force
  obtain r5 s5 where 5: "run (memory_store value_codec) (release_pending ''s'') s4 = (r5, s5)"
    by force
  obtain r6 s6 where 6: "run (memory_store value_codec) (confirm ''s'') s5 = (r6, s6)"
    by force
  obtain r7 s7 where 7: "run (memory_store value_codec) (claim_pending ''s'') s6 = (r7, s7)"
    by force
  from pending_claim_confirmed [OF codec_ok_value_codec memory_ok_empty free 1 2 3 4 5 6 7]
  show ?thesis
    by (simp add: run_bind_prog 1 2 3 4 5 6 7)
qed

text \<open>
  A pending claim that provably never landed can be released, and the signature then
  presented again: the release succeeds, and the next claim wins and leaves the store as a
  first claim would have.
\<close>

theorem pending_claim_released:
  assumes "codec_ok C" "memory_ok C s0" "claimable signature (memory_view C s0)"
    and "run (memory_store C) (claim_pending signature) s0 = (r1, s1)"
    and "run (memory_store C) (release_pending signature) s1 = (r2, s2)"
    and "run (memory_store C) (claim signature) s2 = (r3, s3)"
  shows "r1 = Inr Fresh \<and> r2 = Inr True \<and> r3 = Inr True
    \<and> memory_view C s3 = claimed_view signature (JBool True) (memory_view C s0)"
proof -
  note runs = run_memory_store [OF assms(1)]
  have 1: "r1 = Inr Fresh" "memory_ok C s1"
      "memory_view C s1 = claimed_view signature pending_marker (memory_view C s0)"
    using runs [OF assms(2,4)] assms(3) by (simp_all add: run_ledger)
  have 2: "r2 = Inr True" "memory_ok C s2"
      "memory_view C s2 = released_view signature (memory_view C s1)"
    using runs [OF 1(2) assms(5)] 1(3) by (simp_all add: run_ledger)
  have 3: "r3 = Inr True"
      "memory_view C s3 = claimed_view signature (JBool True) (memory_view C s2)"
    using runs [OF 2(2) assms(6)] claimable_released 2(3) by (simp_all add: run_ledger)
  have "claimed_view signature (JBool True) (memory_view C s2)
      = claimed_view signature (JBool True) (memory_view C s0)"
    by (auto simp: 2(3) 1(3) claimed_view_def released_view_def fun_eq_iff)
  with 1 2 3 show ?thesis by simp
qed

theorem pending_claim_released_witness:
  "\<exists>s3. run (memory_store value_codec)
      (bind_prog (claim_pending ''s'') (\<lambda>r1. bind_prog (release_pending ''s'') (\<lambda>r2.
       bind_prog (claim ''s'') (\<lambda>r3. Done (r1, r2, r3))))) Map.empty
    = ((Inr Fresh, Inr True, Inr True), s3)"
proof -
  have free: "claimable ''s'' (memory_view value_codec Map.empty)"
    by (simp add: claimable_def list_all_iff)
  obtain r1 s1 where 1: "run (memory_store value_codec) (claim_pending ''s'') Map.empty = (r1, s1)"
    by force
  obtain r2 s2 where 2: "run (memory_store value_codec) (release_pending ''s'') s1 = (r2, s2)"
    by force
  obtain r3 s3 where 3: "run (memory_store value_codec) (claim ''s'') s2 = (r3, s3)"
    by force
  from pending_claim_released [OF codec_ok_value_codec memory_ok_empty free 1 2 3]
  show ?thesis
    by (simp add: run_bind_prog 1 2 3)
qed

end
