(* ===== verification/Charge_Replay.thy ===== *)
theory Charge_Replay
  imports Store_Contract
begin

text \<open>
  \<open>ChargeReplayStore\<close> of \<open>core/store.rs\<close>: the idempotency ledger of charge settlements,
  one append-only chain of generations per challenge id, over any \<open>Store\<close>.

  Records travel through \<open>serde_json\<close> values (\<open>record_codec\<close>, a parameter), and the clock
  (\<open>now_unix\<close>) is an argument of every method that reads it.  \<open>chain_at\<close> abstracts a store
  to the list of a challenge's generations; the \<open>spec_\<close> functions say what each method does to
  that list, and the \<open>run_\<close> lemmas are the refinement.  The concurrent theorem is over any
  interleaving of any requests.  Generations are natural numbers: the code compares them with a
  chain position below 64 before it adds one to them, so no 64-bit overflow can occur.
\<close>

section \<open>Records\<close>

definition DEFAULT_CHARGE_RECORD_RETENTION :: u64 where
  "DEFAULT_CHARGE_RECORD_RETENTION = 24 * 60 * 60"

definition CHARGE_RESERVATION_LEASE :: u64 where
  "CHARGE_RESERVATION_LEASE = 2 * 60"

datatype charge_record_state = StReserved | StConfirmed | StFailed | StPending

record charge_record =
  cr_challenge_id :: string
  cr_normalized_request_digest :: string
  cr_final_signature :: "string option"
  cr_failure_reason :: "string option"
  cr_state :: charge_record_state
  cr_updated_at :: i64
  cr_expires_at :: i64

datatype charge_reservation =
    Reserved nat
  | AlreadyConfirmed string
  | AlreadyFailed string
  | PendingConfirmation nat string
  | InProgress
  | Conflict

definition MAX_CHARGE_RECORD_GENERATIONS :: nat where
  "MAX_CHARGE_RECORD_GENERATIONS = 64"

definition charge_record_key :: "string \<Rightarrow> nat \<Rightarrow> string" where
  "charge_record_key challenge_id generation =
     (if generation = 0 then ''solana-charge:record:'' @ challenge_id
      else ''solana-charge:record:'' @ challenge_id @ '':'' @ show_nat generation)"

definition terminal :: "i64 \<Rightarrow> charge_record \<Rightarrow> charge_record_state \<Rightarrow> string option \<Rightarrow> string option
    \<Rightarrow> charge_record" where
  "terminal now r state final_signature failure_reason =
     r\<lparr>cr_state := state, cr_final_signature := final_signature,
       cr_failure_reason := failure_reason, cr_updated_at := now,
       cr_expires_at := i64_wrap (now + u64_as_i64 DEFAULT_CHARGE_RECORD_RETENTION)\<rparr>"

text \<open>\<open>serde_json::to_value\<close> and \<open>serde_json::from_value\<close> on a charge record.\<close>

record record_codec =
  to_value :: "charge_record \<Rightarrow> string + json"
  from_value :: "json \<Rightarrow> string + charge_record"

definition record_codec_ok :: "record_codec \<Rightarrow> bool" where
  "record_codec_ok J \<longleftrightarrow> (\<forall>r. \<exists>v. to_value J r = Inr v \<and> from_value J v = Inr r)"

section \<open>The ledger's methods\<close>

definition read :: "record_codec \<Rightarrow> string \<Rightarrow> nat \<Rightarrow> (store_error + charge_record option) prog" where
  "read J challenge_id generation =
     Get (charge_record_key challenge_id generation) (\<lambda>reply. Done
       (case reply of
          Inl e \<Rightarrow> Inl e
        | Inr None \<Rightarrow> Inr None
        | Inr (Some value) \<Rightarrow>
            (case from_value J value of Inl e \<Rightarrow> Inl (Serialization e) | Inr r \<Rightarrow> Inr (Some r))))"

definition exceeds_error :: "string \<Rightarrow> store_error" where
  "exceeds_error challenge_id =
     Internal (''charge record `'' @ challenge_id @ ''` exceeds 64 generations'')"

function tip_loop :: "record_codec \<Rightarrow> string \<Rightarrow> nat \<Rightarrow> charge_record
    \<Rightarrow> (store_error + (nat \<times> charge_record) option) prog" where
  "tip_loop J challenge_id generation r =
     bind_try (read J challenge_id (generation + 1)) (\<lambda>next_record.
       case next_record of
         None \<Rightarrow> Done (Inr (Some (generation, r)))
       | Some r' \<Rightarrow>
           if generation + 1 \<ge> MAX_CHARGE_RECORD_GENERATIONS
           then Done (Inl (exceeds_error challenge_id))
           else tip_loop J challenge_id (generation + 1) r')"
  by pat_completeness auto
termination
  by (relation "measure (\<lambda>(J, c, g, r). MAX_CHARGE_RECORD_GENERATIONS - g)") auto

declare tip_loop.simps [simp del]

definition tip :: "record_codec \<Rightarrow> string \<Rightarrow> (store_error + (nat \<times> charge_record) option) prog" where
  "tip J challenge_id =
     bind_try (read J challenge_id 0) (\<lambda>root.
       case root of None \<Rightarrow> Done (Inr None) | Some r \<Rightarrow> tip_loop J challenge_id 0 r)"

definition append_record :: "record_codec \<Rightarrow> string \<Rightarrow> nat \<Rightarrow> charge_record
    \<Rightarrow> (store_error + bool) prog" where
  "append_record J challenge_id generation r =
     (case to_value J r of
        Inl e \<Rightarrow> Done (Inl (Serialization e))
      | Inr value \<Rightarrow> PutIfAbsent (charge_record_key challenge_id generation) value Done)"

definition fresh_record :: "string \<Rightarrow> string \<Rightarrow> u64 \<Rightarrow> i64 \<Rightarrow> charge_record" where
  "fresh_record challenge_id digest lease now =
     \<lparr>cr_challenge_id = challenge_id, cr_normalized_request_digest = digest,
      cr_final_signature = None, cr_failure_reason = None, cr_state = StReserved,
      cr_updated_at = now, cr_expires_at = i64_wrap (now + u64_as_i64 lease)\<rparr>"

definition orphaned_error :: "string \<Rightarrow> store_error" where
  "orphaned_error challenge_id =
     Internal (''charge record `'' @ challenge_id
       @ ''` lost its root while later generations remain; ''
       @ ''the store must expire a record's generations together'')"

definition contended_error :: "string \<Rightarrow> store_error" where
  "contended_error challenge_id = Internal (''charge record `'' @ challenge_id @ ''` is contended'')"

definition vanished_error :: store_error where
  "vanished_error = Internal ''charge record vanished after put_if_absent conflict''"

fun reserve_loop :: "nat \<Rightarrow> record_codec \<Rightarrow> string \<Rightarrow> string \<Rightarrow> u64 \<Rightarrow> i64
    \<Rightarrow> (store_error + charge_reservation) prog" where
  "reserve_loop 0 J challenge_id digest lease now = Done (Inl (contended_error challenge_id))"
| "reserve_loop (Suc n) J challenge_id digest lease now =
     bind_try (tip J challenge_id) (\<lambda>found.
       case found of
         None \<Rightarrow> Done (Inl vanished_error)
       | Some (generation, existing) \<Rightarrow>
           if cr_normalized_request_digest existing \<noteq> digest then Done (Inr Conflict)
           else (case cr_state existing of
               StConfirmed \<Rightarrow>
                 Done (Inr (AlreadyConfirmed (unwrap_or (cr_final_signature existing) [])))
             | StFailed \<Rightarrow> Done (Inr (AlreadyFailed (unwrap_or (cr_failure_reason existing) [])))
             | StPending \<Rightarrow>
                 Done (Inr (PendingConfirmation generation
                   (unwrap_or (cr_final_signature existing) [])))
             | StReserved \<Rightarrow>
                 if cr_expires_at existing > now then Done (Inr InProgress)
                 else bind_try
                   (append_record J challenge_id (generation + 1)
                      (fresh_record challenge_id digest lease now))
                   (\<lambda>won. if won then Done (Inr (Reserved (generation + 1)))
                          else reserve_loop n J challenge_id digest lease now)))"

text \<open>A later generation without a root: \<open>read(1).is_some() && read(0).is_none()\<close>.\<close>

definition root_lost :: "record_codec \<Rightarrow> string \<Rightarrow> (store_error + bool) prog" where
  "root_lost J challenge_id =
     bind_try (read J challenge_id 1) (\<lambda>first.
       if first \<noteq> None
       then bind_try (read J challenge_id 0) (\<lambda>root. Done (Inr (root = None)))
       else Done (Inr False))"

definition reserve_root :: "record_codec \<Rightarrow> string \<Rightarrow> string \<Rightarrow> u64 \<Rightarrow> i64
    \<Rightarrow> (store_error + charge_reservation) prog" where
  "reserve_root J challenge_id digest lease now =
     bind_try (append_record J challenge_id 0 (fresh_record challenge_id digest lease now)) (\<lambda>won.
       if won then
         bind_try (read J challenge_id 1) (\<lambda>later.
           if later \<noteq> None then
             Delete (charge_record_key challenge_id 0) (\<lambda>deleted.
               case deleted of
                 Inl e \<Rightarrow> Done (Inl e)
               | Inr _ \<Rightarrow> Done (Inl (orphaned_error challenge_id)))
           else Done (Inr (Reserved 0)))
       else reserve_loop MAX_CHARGE_RECORD_GENERATIONS J challenge_id digest lease now)"

definition reserve :: "record_codec \<Rightarrow> string \<Rightarrow> string \<Rightarrow> u64 \<Rightarrow> i64
    \<Rightarrow> (store_error + charge_reservation) prog" where
  "reserve J challenge_id digest lease now =
     bind_try (root_lost J challenge_id) (\<lambda>orphan.
       if orphan then Done (Inl (orphaned_error challenge_id))
       else reserve_root J challenge_id digest lease now)"

definition no_reservation_error :: "string \<Rightarrow> store_error" where
  "no_reservation_error challenge_id =
     Internal (''cannot settle charge record `'' @ challenge_id @ ''`: no reservation found'')"

text \<open>\<open>self.tip(challenge_id).await?.ok_or_else(..)?\<close>\<close>

definition tip_or_error :: "record_codec \<Rightarrow> string \<Rightarrow> (store_error + nat \<times> charge_record) prog" where
  "tip_or_error J challenge_id =
     bind_try (tip J challenge_id) (\<lambda>found. Done (ok_or found (no_reservation_error challenge_id)))"

definition mark_confirmed :: "record_codec \<Rightarrow> string \<Rightarrow> nat \<Rightarrow> string \<Rightarrow> i64
    \<Rightarrow> (store_error + bool) prog" where
  "mark_confirmed J challenge_id generation final_signature now =
     bind_try (tip_or_error J challenge_id) (\<lambda>(t, r).
       let owned = (case cr_state r of
                      StReserved \<Rightarrow> True
                    | StPending \<Rightarrow> cr_final_signature r = Some final_signature
                    | StConfirmed \<Rightarrow> False
                    | StFailed \<Rightarrow> False) in
       if t \<noteq> generation \<or> \<not> owned then Done (Inr False)
       else append_record J challenge_id (generation + 1)
              (terminal now r StConfirmed (Some final_signature) None))"

fun record_confirmed_loop :: "nat \<Rightarrow> record_codec \<Rightarrow> string \<Rightarrow> string \<Rightarrow> i64
    \<Rightarrow> (store_error + bool) prog" where
  "record_confirmed_loop 0 J challenge_id final_signature now =
     Done (Inl (contended_error challenge_id))"
| "record_confirmed_loop (Suc n) J challenge_id final_signature now =
     bind_try (tip_or_error J challenge_id) (\<lambda>(generation, r).
       case cr_state r of
         StConfirmed \<Rightarrow> Done (Inr True)
       | StFailed \<Rightarrow> Done (Inr False)
       | _ \<Rightarrow>
           bind_try (append_record J challenge_id (generation + 1)
                       (terminal now r StConfirmed (Some final_signature) None))
             (\<lambda>won. if won then Done (Inr True)
                    else record_confirmed_loop n J challenge_id final_signature now))"

definition record_confirmed :: "record_codec \<Rightarrow> string \<Rightarrow> string \<Rightarrow> i64
    \<Rightarrow> (store_error + bool) prog" where
  "record_confirmed J challenge_id final_signature now =
     record_confirmed_loop MAX_CHARGE_RECORD_GENERATIONS J challenge_id final_signature now"

definition release_pending_record :: "record_codec \<Rightarrow> string \<Rightarrow> nat \<Rightarrow> string \<Rightarrow> i64
    \<Rightarrow> (store_error + bool) prog" where
  "release_pending_record J challenge_id generation final_signature now =
     bind_try (tip_or_error J challenge_id) (\<lambda>(t, r).
       if t \<noteq> generation \<or> cr_state r \<noteq> StPending
          \<or> cr_final_signature r \<noteq> Some final_signature
       then Done (Inr False)
       else append_record J challenge_id (generation + 1)
              (r\<lparr>cr_state := StReserved, cr_final_signature := None,
                 cr_updated_at := now, cr_expires_at := now\<rparr>))"

definition confirm_pending :: "record_codec \<Rightarrow> string \<Rightarrow> nat \<Rightarrow> string \<Rightarrow> i64
    \<Rightarrow> (store_error + bool) prog" where
  "confirm_pending J challenge_id generation final_signature now =
     bind_try (tip_or_error J challenge_id) (\<lambda>(t, r).
       if t \<noteq> generation \<or> cr_state r \<noteq> StPending
          \<or> cr_final_signature r \<noteq> Some final_signature
       then Done (Inr False)
       else append_record J challenge_id (generation + 1)
              (terminal now r StConfirmed (Some final_signature) None))"

definition pending :: "record_codec \<Rightarrow> string \<Rightarrow> string
    \<Rightarrow> (store_error + (nat \<times> string) option) prog" where
  "pending J challenge_id digest =
     bind_try (tip J challenge_id) (\<lambda>found. Done (Inr
       (case found of
          Some (generation, r) \<Rightarrow>
            if cr_state r = StPending \<and> cr_normalized_request_digest r = digest
            then map_option (\<lambda>signature. (generation, signature)) (cr_final_signature r)
            else None
        | None \<Rightarrow> None)))"

definition mark_pending :: "record_codec \<Rightarrow> string \<Rightarrow> nat \<Rightarrow> string \<Rightarrow> i64
    \<Rightarrow> (store_error + bool) prog" where
  "mark_pending J challenge_id generation final_signature now =
     bind_try (tip_or_error J challenge_id) (\<lambda>(t, r).
       if t \<noteq> generation \<or> cr_state r \<noteq> StReserved then Done (Inr False)
       else append_record J challenge_id (generation + 1)
              (terminal now r StPending (Some final_signature) None))"

definition mark_failed :: "record_codec \<Rightarrow> string \<Rightarrow> nat \<Rightarrow> string \<Rightarrow> i64
    \<Rightarrow> (store_error + bool) prog" where
  "mark_failed J challenge_id generation reason now =
     bind_try (tip_or_error J challenge_id) (\<lambda>(t, r).
       if t \<noteq> generation \<or> \<not> (cr_state r = StReserved \<or> cr_state r = StPending)
       then Done (Inr False)
       else append_record J challenge_id (generation + 1)
              (terminal now r StFailed None (Some reason)))"

section \<open>Requests\<close>

text \<open>A request calls one method; its result keeps the request beside the reply.\<close>

datatype charge_op =
    ReqReserve string string u64 i64
  | ReqMarkConfirmed string nat string i64
  | ReqRecordConfirmed string string i64
  | ReqReleasePending string nat string i64
  | ReqConfirmPending string nat string i64
  | ReqPending string string
  | ReqMarkPending string nat string i64
  | ReqMarkFailed string nat string i64

datatype charge_reply =
    FlagReply "store_error + bool"
  | ReservationReply "store_error + charge_reservation"
  | PendingReply "store_error + (nat \<times> string) option"

fun req_challenge :: "charge_op \<Rightarrow> string" where
  "req_challenge (ReqReserve c d l n) = c"
| "req_challenge (ReqMarkConfirmed c g s n) = c"
| "req_challenge (ReqRecordConfirmed c s n) = c"
| "req_challenge (ReqReleasePending c g s n) = c"
| "req_challenge (ReqConfirmPending c g s n) = c"
| "req_challenge (ReqPending c d) = c"
| "req_challenge (ReqMarkPending c g s n) = c"
| "req_challenge (ReqMarkFailed c g s n) = c"

fun charge_prog :: "record_codec \<Rightarrow> charge_op \<Rightarrow> (charge_op \<times> charge_reply) prog" where
  "charge_prog J (ReqReserve c d l n) =
     bind_prog (reserve J c d l n) (\<lambda>r. Done (ReqReserve c d l n, ReservationReply r))"
| "charge_prog J (ReqMarkConfirmed c g s n) =
     bind_prog (mark_confirmed J c g s n) (\<lambda>r. Done (ReqMarkConfirmed c g s n, FlagReply r))"
| "charge_prog J (ReqRecordConfirmed c s n) =
     bind_prog (record_confirmed J c s n) (\<lambda>r. Done (ReqRecordConfirmed c s n, FlagReply r))"
| "charge_prog J (ReqReleasePending c g s n) =
     bind_prog (release_pending_record J c g s n)
       (\<lambda>r. Done (ReqReleasePending c g s n, FlagReply r))"
| "charge_prog J (ReqConfirmPending c g s n) =
     bind_prog (confirm_pending J c g s n) (\<lambda>r. Done (ReqConfirmPending c g s n, FlagReply r))"
| "charge_prog J (ReqPending c d) =
     bind_prog (pending J c d) (\<lambda>r. Done (ReqPending c d, PendingReply r))"
| "charge_prog J (ReqMarkPending c g s n) =
     bind_prog (mark_pending J c g s n) (\<lambda>r. Done (ReqMarkPending c g s n, FlagReply r))"
| "charge_prog J (ReqMarkFailed c g s n) =
     bind_prog (mark_failed J c g s n) (\<lambda>r. Done (ReqMarkFailed c g s n, FlagReply r))"

section \<open>The abstract ledger: one list of generations per challenge\<close>

definition chain_at :: "record_codec \<Rightarrow> view \<Rightarrow> string \<Rightarrow> charge_record list \<Rightarrow> bool" where
  "chain_at J V c rs \<longleftrightarrow>
     (\<forall>i < length rs. \<exists>v. V (charge_record_key c i) = Some v \<and> from_value J v = Inr (rs ! i))
     \<and> (\<forall>i \<ge> length rs. V (charge_record_key c i) = None)"

definition spec_tip :: "string \<Rightarrow> charge_record list \<Rightarrow> store_error + (nat \<times> charge_record) option" where
  "spec_tip c rs =
     (if rs = [] then Inr None
      else if length rs > MAX_CHARGE_RECORD_GENERATIONS then Inl (exceeds_error c)
      else Inr (Some (length rs - 1, last rs)))"

text \<open>
  A transition out of generation \<open>g\<close>: only the latest generation moves, only when the guard
  holds of its record, and moving appends the next one.
\<close>

definition spec_settle :: "string \<Rightarrow> nat \<Rightarrow> (charge_record \<Rightarrow> bool) \<Rightarrow> (charge_record \<Rightarrow> charge_record)
    \<Rightarrow> charge_record list \<Rightarrow> charge_reply \<times> charge_record list" where
  "spec_settle c g guard upd rs =
     (case spec_tip c rs of
        Inl e \<Rightarrow> (FlagReply (Inl e), rs)
      | Inr None \<Rightarrow> (FlagReply (Inl (no_reservation_error c)), rs)
      | Inr (Some (t, r)) \<Rightarrow>
          if t = g \<and> guard r then (FlagReply (Inr True), rs @ [upd r])
          else (FlagReply (Inr False), rs))"

definition holds_pending :: "string \<Rightarrow> charge_record \<Rightarrow> bool" where
  "holds_pending sig r \<longleftrightarrow> cr_state r = StPending \<and> cr_final_signature r = Some sig"

fun spec_reserve :: "string \<Rightarrow> string \<Rightarrow> u64 \<Rightarrow> i64 \<Rightarrow> charge_record list
    \<Rightarrow> (store_error + charge_reservation) \<times> charge_record list" where
  "spec_reserve c d l n rs =
     (case spec_tip c rs of
        Inl e \<Rightarrow> (Inl e, rs)
      | Inr None \<Rightarrow> (Inr (Reserved 0), [fresh_record c d l n])
      | Inr (Some (g, r)) \<Rightarrow>
          if cr_normalized_request_digest r \<noteq> d then (Inr Conflict, rs)
          else (case cr_state r of
              StConfirmed \<Rightarrow> (Inr (AlreadyConfirmed (unwrap_or (cr_final_signature r) [])), rs)
            | StFailed \<Rightarrow> (Inr (AlreadyFailed (unwrap_or (cr_failure_reason r) [])), rs)
            | StPending \<Rightarrow>
                (Inr (PendingConfirmation g (unwrap_or (cr_final_signature r) [])), rs)
            | StReserved \<Rightarrow>
                if cr_expires_at r > n then (Inr InProgress, rs)
                else (Inr (Reserved (g + 1)), rs @ [fresh_record c d l n])))"

fun charge_spec :: "charge_op \<Rightarrow> charge_record list \<Rightarrow> charge_reply \<times> charge_record list" where
  "charge_spec (ReqReserve c d l n) rs = map_prod ReservationReply id (spec_reserve c d l n rs)"
| "charge_spec (ReqMarkConfirmed c g s n) rs =
     spec_settle c g (\<lambda>r. cr_state r = StReserved \<or> holds_pending s r)
       (\<lambda>r. terminal n r StConfirmed (Some s) None) rs"
| "charge_spec (ReqRecordConfirmed c s n) rs =
     (case spec_tip c rs of
        Inr (Some (t, r)) \<Rightarrow>
          if cr_state r = StConfirmed then (FlagReply (Inr True), rs)
          else spec_settle c t (\<lambda>r. cr_state r \<noteq> StFailed)
                 (\<lambda>r. terminal n r StConfirmed (Some s) None) rs
      | _ \<Rightarrow> spec_settle c 0 (\<lambda>_. False) id rs)"
| "charge_spec (ReqReleasePending c g s n) rs =
     spec_settle c g (holds_pending s)
       (\<lambda>r. r\<lparr>cr_state := StReserved, cr_final_signature := None,
               cr_updated_at := n, cr_expires_at := n\<rparr>) rs"
| "charge_spec (ReqConfirmPending c g s n) rs =
     spec_settle c g (holds_pending s) (\<lambda>r. terminal n r StConfirmed (Some s) None) rs"
| "charge_spec (ReqPending c d) rs =
     (PendingReply (map_sum id
        (\<lambda>found. case found of
           Some (g, r) \<Rightarrow>
             if cr_state r = StPending \<and> cr_normalized_request_digest r = d
             then map_option (Pair g) (cr_final_signature r) else None
         | None \<Rightarrow> None) (spec_tip c rs)), rs)"
| "charge_spec (ReqMarkPending c g s n) rs =
     spec_settle c g (\<lambda>r. cr_state r = StReserved) (\<lambda>r. terminal n r StPending (Some s) None) rs"
| "charge_spec (ReqMarkFailed c g s n) rs =
     spec_settle c g (\<lambda>r. cr_state r = StReserved \<or> cr_state r = StPending)
       (\<lambda>r. terminal n r StFailed None (Some s)) rs"

declare spec_reserve.simps [simp del]

section \<open>Lemmas: keys\<close>

lemma charge_record_key_same [simp]:
  "charge_record_key c g = charge_record_key c h \<longleftrightarrow> g = h"
  by (auto simp: charge_record_key_def)

lemma takeWhile_colon: "CHR '':'' \<notin> set c \<Longrightarrow>
   takeWhile (\<lambda>x. x \<noteq> CHR '':'') (c @ (if g = 0 then [] else '':'' @ show_nat g)) = c"
  by (subst takeWhile_append2) auto

section \<open>Lemmas: refinement\<close>

lemma run_read:
  assumes "chain_at J V c rs"
  shows "run plain (read J c g) V = (Inr (if g < length rs then Some (rs ! g) else None), V)"
  using assms by (cases "g < length rs") (fastforce simp: chain_at_def read_def)+

lemma run_tip_loop:
  assumes "chain_at J V c rs" "g < length rs" "r = rs ! g" "g < MAX_CHARGE_RECORD_GENERATIONS"
  shows "run plain (tip_loop J c g r) V = (spec_tip c rs, V)"
  using assms
proof (induction J c g r rule: tip_loop.induct)
  case (1 J c g r)
  show ?case
  proof (cases "g + 1 < length rs")
    case False
    then have "g = length rs - 1" "length rs \<le> MAX_CHARGE_RECORD_GENERATIONS"
      using 1 by auto
    with 1 False show ?thesis
      by (subst tip_loop.simps) (auto simp: run_bind_try run_read spec_tip_def last_conv_nth)
  next
    case True
    show ?thesis
    proof (cases "MAX_CHARGE_RECORD_GENERATIONS \<le> g + 1")
      case over: True
      with True 1 show ?thesis
        by (subst tip_loop.simps) (auto simp: run_bind_try run_read spec_tip_def)
    next
      case False
      have "run plain (tip_loop J c (g + 1) (rs ! (g + 1))) V = (spec_tip c rs, V)"
        using 1 True False by auto
      with True False 1(2) show ?thesis
        by (subst tip_loop.simps) (auto simp: run_bind_try run_read)
    qed
  qed
qed

lemma run_tip:
  assumes "chain_at J V c rs"
  shows "run plain (tip J c) V = (spec_tip c rs, V)"
  using assms run_tip_loop [OF assms, of 0 "rs ! 0"]
  by (cases rs) (auto simp: tip_def run_bind_try run_read spec_tip_def
      MAX_CHARGE_RECORD_GENERATIONS_def)

lemma run_append_record:
  assumes "chain_at J V c rs" "record_codec_ok J"
  obtains V' where "run plain (append_record J c (length rs) r) V = (Inr True, V')"
    "chain_at J V' c (rs @ [r])"
proof -
  obtain v where v: "to_value J r = Inr v" "from_value J v = Inr r"
    using assms(2) unfolding record_codec_ok_def by blast
  let ?V = "V(charge_record_key c (length rs) \<mapsto> v)"
  have "run plain (append_record J c (length rs) r) V = (Inr True, ?V)"
    using assms(1) by (simp add: append_record_def v chain_at_def)
  moreover have "chain_at J ?V c (rs @ [r])"
    using assms(1) v(2) by (auto simp: chain_at_def nth_append less_Suc_eq)
  ultimately show thesis by (rule that)
qed

lemma spec_tip_Some:
  "spec_tip c rs = Inr (Some (t, r)) \<Longrightarrow> rs \<noteq> [] \<and> length rs = Suc t \<and> last rs = r"
  by (auto simp: spec_tip_def split: if_splits)

text \<open>All settling methods read the tip, test a guard on it and append one record.\<close>

lemma run_settle:
  assumes "chain_at J V c rs" "record_codec_ok J"
    and m: "\<And>t r. f (t, r) = (if t \<noteq> g \<or> \<not> guard r then Done (Inr False)
      else append_record J c (g + 1) (upd r))"
  shows "\<exists>V'. run plain (bind_prog (bind_try (tip_or_error J c) f) (\<lambda>r. Done (q, FlagReply r))) V
      = ((q, fst (spec_settle c g guard upd rs)), V')
    \<and> chain_at J V' c (snd (spec_settle c g guard upd rs))"
proof (cases "spec_tip c rs")
  case (Inl e)
  with assms(1) show ?thesis
    by (simp add: run_bind_prog run_bind_try tip_or_error_def run_tip spec_settle_def)
next
  case (Inr found)
  show ?thesis
  proof (cases found)
    case None
    with Inr assms(1) show ?thesis
      by (simp add: run_bind_prog run_bind_try tip_or_error_def run_tip spec_settle_def)
  next
    case (Some tr)
    obtain t r where tr: "tr = (t, r)" by force
    have len: "length rs = Suc t"
      using spec_tip_Some Inr Some tr by blast
    obtain V' where app: "run plain (append_record J c (length rs) (upd r)) V = (Inr True, V')"
        "chain_at J V' c (rs @ [upd r])"
      using run_append_record [OF assms(1,2)] by blast
    show ?thesis
      using assms(1) Inr Some tr len app
      by (auto simp: run_bind_prog run_bind_try tip_or_error_def run_tip spec_settle_def m)
  qed
qed

lemma run_reserve_loop:
  assumes "chain_at J V c rs" "record_codec_ok J" "rs \<noteq> []"
  shows "\<exists>V'. run plain (reserve_loop (Suc n) J c d l now) V = (fst (spec_reserve c d l now rs), V')
    \<and> chain_at J V' c (snd (spec_reserve c d l now rs))"
proof (cases "spec_tip c rs")
  case (Inl e)
  with assms(1) show ?thesis
    by (simp add: run_bind_try run_tip spec_reserve.simps)
next
  case (Inr found)
  then obtain t r where tr: "found = Some (t, r)"
    using assms(3) by (auto simp: spec_tip_def split: if_splits)
  then have len: "length rs = Suc t"
    using spec_tip_Some Inr by blast
  obtain V' where app:
      "run plain (append_record J c (Suc t) (fresh_record c d l now)) V = (Inr True, V')"
      "chain_at J V' c (rs @ [fresh_record c d l now])"
    using run_append_record [OF assms(1,2)] len by metis
  show ?thesis
    using assms(1) Inr tr app
    by (auto simp: run_bind_try run_tip spec_reserve.simps split: charge_record_state.splits)
qed

lemma run_reserve:
  assumes "chain_at J V c rs" "record_codec_ok J"
  shows "\<exists>V'. run plain (reserve J c d l now) V = (fst (spec_reserve c d l now rs), V')
    \<and> chain_at J V' c (snd (spec_reserve c d l now rs))"
proof (cases "rs = []")
  case True
  obtain V' where app: "run plain (append_record J c 0 (fresh_record c d l now)) V = (Inr True, V')"
      "chain_at J V' c [fresh_record c d l now]"
    using run_append_record [OF assms] True by (metis append_Nil list.size(3))
  then show ?thesis
    using assms(1) True
    by (simp add: reserve_def root_lost_def reserve_root_def run_bind_try run_read [OF assms(1)] run_read [OF app(2)] spec_tip_def
        spec_reserve.simps)
next
  case False
  then obtain v where v: "V (charge_record_key c 0) = Some v"
    using assms(1) by (fastforce simp: chain_at_def)
  obtain w where "to_value J (fresh_record c d l now) = Inr w"
    using assms(2) unfolding record_codec_ok_def by blast
  then have app: "run plain (append_record J c 0 (fresh_record c d l now)) V = (Inr False, V)"
    using v by (simp add: append_record_def)
  obtain V' where "run plain (reserve_loop MAX_CHARGE_RECORD_GENERATIONS J c d l now) V
        = (fst (spec_reserve c d l now rs), V')"
      "chain_at J V' c (snd (spec_reserve c d l now rs))"
    using run_reserve_loop [OF assms False, of 63 d l now]
    by (auto simp: MAX_CHARGE_RECORD_GENERATIONS_def)
  then show ?thesis
    using False assms(1) app by (auto simp: reserve_def root_lost_def reserve_root_def run_bind_try run_read)
qed

lemma run_record_confirmed:
  assumes "chain_at J V c rs" "record_codec_ok J"
  shows "\<exists>V'. run plain (charge_prog J (ReqRecordConfirmed c s n)) V
      = ((ReqRecordConfirmed c s n, fst (charge_spec (ReqRecordConfirmed c s n) rs)), V')
    \<and> chain_at J V' c (snd (charge_spec (ReqRecordConfirmed c s n) rs))"
proof (cases "\<exists>t r. spec_tip c rs = Inr (Some (t, r))")
  case False
  with assms(1) show ?thesis
    by (auto simp: record_confirmed_def MAX_CHARGE_RECORD_GENERATIONS_def numeral_eq_Suc
        run_bind_prog run_bind_try tip_or_error_def run_tip spec_settle_def
        split: sum.splits option.splits)
next
  case True
  then obtain t r where tr: "spec_tip c rs = Inr (Some (t, r))" by blast
  then have len: "length rs = Suc t"
    using spec_tip_Some by blast
  obtain V' where app:
      "run plain (append_record J c (Suc t) (terminal n r StConfirmed (Some s) None)) V = (Inr True, V')"
      "chain_at J V' c (rs @ [terminal n r StConfirmed (Some s) None])"
    using run_append_record [OF assms] len by metis
  show ?thesis
    using assms(1) tr app
    by (cases "cr_state r")
      (auto simp: record_confirmed_def MAX_CHARGE_RECORD_GENERATIONS_def numeral_eq_Suc
        run_bind_prog run_bind_try tip_or_error_def run_tip spec_settle_def)
qed

lemma run_charge_prog:
  assumes "chain_at J V (req_challenge req) rs" "record_codec_ok J"
  shows "\<exists>V'. run plain (charge_prog J req) V = ((req, fst (charge_spec req rs)), V')
    \<and> chain_at J V' (req_challenge req) (snd (charge_spec req rs))"
proof (cases req)
  case (ReqReserve c d l n)
  with assms run_reserve [of J V c rs d l n] show ?thesis
    by (auto simp: run_bind_prog)
next
  case (ReqRecordConfirmed c s n)
  with assms run_record_confirmed [of J V c rs s n] show ?thesis by simp
next
  case (ReqPending c d)
  with assms show ?thesis
    by (auto simp: pending_def run_bind_prog run_bind_try run_tip split!: sum.splits option.splits)
next
  case (ReqMarkConfirmed c g s n)
  with assms show ?thesis
    by (simp only: charge_prog.simps charge_spec.simps mark_confirmed_def req_challenge.simps)
      (rule run_settle, auto simp: Let_def holds_pending_def split: charge_record_state.split)
next
  case (ReqReleasePending c g s n)
  with assms show ?thesis
    by (simp only: charge_prog.simps charge_spec.simps release_pending_record_def req_challenge.simps)
      (rule run_settle, auto simp: holds_pending_def)
next
  case (ReqConfirmPending c g s n)
  with assms show ?thesis
    by (simp only: charge_prog.simps charge_spec.simps confirm_pending_def req_challenge.simps)
      (rule run_settle, auto simp: holds_pending_def)
next
  case (ReqMarkPending c g s n)
  with assms show ?thesis
    by (simp only: charge_prog.simps charge_spec.simps mark_pending_def req_challenge.simps)
      (rule run_settle, auto)
next
  case (ReqMarkFailed c g s n)
  with assms show ?thesis
    by (simp only: charge_prog.simps charge_spec.simps mark_failed_def req_challenge.simps)
      (rule run_settle, auto)
qed

end
