(* ===== verification/Charge_Concurrency.thy ===== *)
theory Charge_Concurrency
  imports Charge_Replay
begin

text \<open>
  Concurrent requests against the charge ledger.  The rely relation is that the chain of the
  challenge is append-only and stays well formed (only its last generation may be terminal);
  every method of every request keeps it, in any interleaving.  Two one-shot arguments follow:
  at most one request confirms a challenge, and at most one request takes over each generation.
\<close>

section \<open>The rely relation\<close>

definition unsettled :: "charge_record \<Rightarrow> bool" where
  "unsettled r \<longleftrightarrow> cr_state r = StReserved \<or> cr_state r = StPending"

definition has_record :: "record_codec \<Rightarrow> string \<Rightarrow> view \<Rightarrow> nat \<Rightarrow> charge_record \<Rightarrow> bool" where
  "has_record J c V g r \<longleftrightarrow>
     (\<exists>v. V (charge_record_key c g) = Some v \<and> from_value J v = Inr r)"

definition open_chain :: "charge_record list \<Rightarrow> bool" where
  "open_chain rs \<longleftrightarrow> rs \<noteq> [] \<and> list_all unsettled (butlast rs)"

definition chain_wf :: "record_codec \<Rightarrow> string \<Rightarrow> view \<Rightarrow> bool" where
  "chain_wf J c V \<longleftrightarrow> (\<exists>rs. chain_at J V c rs \<and> open_chain rs)"

definition charge_rely :: "record_codec \<Rightarrow> string \<Rightarrow> view \<Rightarrow> view \<Rightarrow> bool" where
  "charge_rely J c V V' \<longleftrightarrow>
     (\<forall>g v. V (charge_record_key c g) = Some v \<longrightarrow> V' (charge_record_key c g) = Some v)
     \<and> (chain_wf J c V \<longrightarrow> chain_wf J c V')"

definition confirmed_spent :: "record_codec \<Rightarrow> string \<Rightarrow> view \<Rightarrow> bool" where
  "confirmed_spent J c V \<longleftrightarrow> (\<exists>g r. has_record J c V g r \<and> cr_state r = StConfirmed)"

fun confirms :: "string \<Rightarrow> charge_op \<times> charge_reply \<Rightarrow> bool" where
  "confirms c (ReqMarkConfirmed c' g s n, reply) \<longleftrightarrow> c' = c \<and> reply = FlagReply (Inr True)"
| "confirms c (ReqConfirmPending c' g s n, reply) \<longleftrightarrow> c' = c \<and> reply = FlagReply (Inr True)"
| "confirms c _ \<longleftrightarrow> False"

text \<open>\<open>moves c g\<close>: the reply that lets a request go on as the one that left generation \<open>g\<close>.\<close>

fun moves :: "string \<Rightarrow> nat \<Rightarrow> charge_op \<times> charge_reply \<Rightarrow> bool" where
  "moves c g (ReqReserve c' d l n, reply) \<longleftrightarrow>
     c' = c \<and> reply = ReservationReply (Inr (Reserved (Suc g)))"
| "moves c g (ReqMarkConfirmed c' g' s n, reply) \<longleftrightarrow> c' = c \<and> g' = g \<and> reply = FlagReply (Inr True)"
| "moves c g (ReqReleasePending c' g' s n, reply) \<longleftrightarrow> c' = c \<and> g' = g \<and> reply = FlagReply (Inr True)"
| "moves c g (ReqConfirmPending c' g' s n, reply) \<longleftrightarrow> c' = c \<and> g' = g \<and> reply = FlagReply (Inr True)"
| "moves c g (ReqMarkPending c' g' s n, reply) \<longleftrightarrow> c' = c \<and> g' = g \<and> reply = FlagReply (Inr True)"
| "moves c g (ReqMarkFailed c' g' s n, reply) \<longleftrightarrow> c' = c \<and> g' = g \<and> reply = FlagReply (Inr True)"
| "moves c g _ \<longleftrightarrow> False"

definition generation_spent :: "string \<Rightarrow> nat \<Rightarrow> view \<Rightarrow> bool" where
  "generation_spent c g V \<longleftrightarrow> V (charge_record_key c (Suc g)) \<noteq> None"

section \<open>Lemmas: keys of different challenges\<close>

lemma charge_record_key_inject:
  assumes "CHR '':'' \<notin> set c" "CHR '':'' \<notin> set c'"
  shows "charge_record_key c g = charge_record_key c' h \<longleftrightarrow> c = c' \<and> g = h"
proof
  have key: "charge_record_key x n =
      ''solana-charge:record:'' @ x @ (if n = 0 then [] else '':'' @ show_nat n)" for x n
    by (simp add: charge_record_key_def)
  assume eq: "charge_record_key c g = charge_record_key c' h"
  then have "c @ (if g = 0 then [] else '':'' @ show_nat g)
      = c' @ (if h = 0 then [] else '':'' @ show_nat h)"
    by (simp only: key append_same_eq same_append_eq)
  then have "c = c'"
    using takeWhile_colon [OF assms(1), of g] takeWhile_colon [OF assms(2), of h] by metis
  with eq show "c = c' \<and> g = h" by simp
qed simp

section \<open>Lemmas: the rely relation\<close>

lemma charge_rely_refl [simp]: "charge_rely J c V V"
  by (simp add: charge_rely_def)

lemma charge_rely_trans:
  "charge_rely J c V1 V2 \<Longrightarrow> charge_rely J c V2 V3 \<Longrightarrow> charge_rely J c V1 V3"
  by (auto simp: charge_rely_def)

lemma charge_rely_wf: "charge_rely J c V V' \<Longrightarrow> chain_wf J c V \<Longrightarrow> chain_wf J c V'"
  by (simp add: charge_rely_def)

lemma charge_rely_has: "charge_rely J c V V' \<Longrightarrow> has_record J c V g r \<Longrightarrow> has_record J c V' g r"
  by (auto simp: charge_rely_def has_record_def)

lemma charge_rely_other:
  assumes "\<And>g. k \<noteq> charge_record_key c g"
  shows "charge_rely J c V (V(k := x))"
proof -
  have "(V(k := x)) (charge_record_key c g) = V (charge_record_key c g)" for g
    using assms [of g] by auto
  then show ?thesis
    by (simp add: charge_rely_def chain_wf_def chain_at_def)
qed

lemma confirmed_spent_stable:
  "charge_rely J c V V' \<Longrightarrow> confirmed_spent J c V \<Longrightarrow> confirmed_spent J c V'"
  unfolding confirmed_spent_def by (blast dest: charge_rely_has)

lemma generation_spent_stable:
  "charge_rely J c V V' \<Longrightarrow> generation_spent c g V \<Longrightarrow> generation_spent c g V'"
  by (auto simp: charge_rely_def generation_spent_def)

lemma chain_wf_root: "chain_wf J c V \<Longrightarrow> V (charge_record_key c 0) \<noteq> None"
  by (auto simp: chain_wf_def chain_at_def open_chain_def)

text \<open>Appending after the record a request read, when that record is not terminal.\<close>

lemma chain_extend:
  assumes "chain_wf J c V" "has_record J c V g r" "unsettled r"
    and "V (charge_record_key c (Suc g)) = None" "from_value J v = Inr r'"
  shows "charge_rely J c V (V(charge_record_key c (Suc g) \<mapsto> v))"
    and "\<not> confirmed_spent J c V"
    and "cr_state r' = StConfirmed \<Longrightarrow> confirmed_spent J c (V(charge_record_key c (Suc g) \<mapsto> v))"
proof -
  obtain rs where rs: "chain_at J V c rs" "open_chain rs"
    using assms(1) by (auto simp: chain_wf_def)
  have at: "i < length rs \<and> rs ! i = x" if "has_record J c V i x" for i x
    using rs(1) that by (cases "i < length rs") (fastforce simp: chain_at_def has_record_def)+
  have "\<not> Suc g < length rs"
    using rs(1) assms(4) by (auto simp: chain_at_def)
  then have len: "length rs = Suc g" and r: "rs ! g = r"
    using at [OF assms(2)] by auto
  then have last: "last rs = r"
    using rs(2) by (simp add: last_conv_nth open_chain_def)
  then have all: "list_all unsettled rs"
    using rs(2) assms(3) by (cases rs rule: rev_cases) (auto simp: open_chain_def)
  show "\<not> confirmed_spent J c V"
  proof
    assume "confirmed_spent J c V"
    then obtain i x where "has_record J c V i x" "cr_state x = StConfirmed"
      by (auto simp: confirmed_spent_def)
    with at [OF this(1)] all have "unsettled x"
      by (metis list_all_length)
    with \<open>cr_state x = StConfirmed\<close> show False
      by (simp add: unsettled_def)
  qed
  show "cr_state r' = StConfirmed \<Longrightarrow> confirmed_spent J c (V(charge_record_key c (Suc g) \<mapsto> v))"
    using assms(5) by (auto simp: confirmed_spent_def has_record_def)
  have "chain_at J (V(charge_record_key c (Suc g) \<mapsto> v)) c (rs @ [r'])"
    using rs(1) len assms(5) by (auto simp: chain_at_def nth_append less_Suc_eq)
  moreover have "open_chain (rs @ [r'])"
    using all by (simp add: open_chain_def)
  ultimately show "charge_rely J c V (V(charge_record_key c (Suc g) \<mapsto> v))"
    using assms(4) by (auto simp: charge_rely_def chain_wf_def)
qed

section \<open>Lemmas: a request writes only its own challenge's keys\<close>

definition own_key :: "string \<Rightarrow> string \<Rightarrow> bool" where
  "own_key c k \<longleftrightarrow> (\<exists>g. k = charge_record_key c g)"

lemma own_key [simp]: "own_key c (charge_record_key c g)"
  by (auto simp: own_key_def)

lemma confined_read [simp]: "confined P (\<lambda>_. True) (read J c g)"
  by (simp add: read_def)

lemma confined_append [simp]: "confined (own_key c) (\<lambda>_. True) (append_record J c g r)"
  by (simp add: append_record_def split: sum.split)

lemma confined_tip_loop [simp]: "confined P (\<lambda>_. True) (tip_loop J c g r)"
proof (induction J c g r rule: tip_loop.induct)
  case (1 J c g r)
  then show ?case
    by (subst tip_loop.simps) (auto intro!: confined_bind_try split: option.split)
qed

lemma confined_tip [simp]: "confined P (\<lambda>_. True) (tip J c)"
  by (auto simp: tip_def intro!: confined_bind_try split: option.split)

lemma confined_tip_or_error [simp]: "confined P (\<lambda>_. True) (tip_or_error J c)"
  by (auto simp: tip_or_error_def intro!: confined_bind_try)

lemma confined_reserve_loop [simp]: "confined (own_key c) (\<lambda>_. True) (reserve_loop n J c d l now)"
  by (induction n) (auto intro!: confined_bind_try split: option.split charge_record_state.split)

lemma confined_reserve [simp]: "confined (own_key c) (\<lambda>_. True) (reserve J c d l now)"
  by (auto simp: reserve_def root_lost_def reserve_root_def intro!: confined_bind_try split: sum.split)

lemma confined_record_confirmed_loop [simp]:
  "confined (own_key c) (\<lambda>_. True) (record_confirmed_loop n J c s now)"
  by (induction n) (auto intro!: confined_bind_try split: option.split charge_record_state.split)

lemma confined_charge_prog:
  "confined (own_key (req_challenge q)) (\<lambda>x. fst x = q) (charge_prog J q)"
  by (cases q)
    (auto simp: mark_confirmed_def record_confirmed_def release_pending_record_def
      confirm_pending_def pending_def mark_pending_def mark_failed_def
      intro!: confined_bind_prog [where Q' = "\<lambda>_. True"] confined_bind_try)

section \<open>Lemmas: every method is a safe client of the chain\<close>

text \<open>
  \<open>earned q g r reply\<close>: \<open>reply\<close> is what request \<open>q\<close> answers after it appended record
  \<open>r\<close> behind generation \<open>g\<close>.
\<close>

fun earned :: "charge_op \<Rightarrow> nat \<Rightarrow> charge_record \<Rightarrow> charge_reply \<Rightarrow> bool" where
  "earned (ReqReserve c d l n) g r reply \<longleftrightarrow> reply = ReservationReply (Inr (Reserved (Suc g)))"
| "earned (ReqMarkConfirmed c g' s n) g r reply \<longleftrightarrow>
     g' = g \<and> cr_state r = StConfirmed \<and> reply = FlagReply (Inr True)"
| "earned (ReqConfirmPending c g' s n) g r reply \<longleftrightarrow>
     g' = g \<and> cr_state r = StConfirmed \<and> reply = FlagReply (Inr True)"
| "earned (ReqReleasePending c g' s n) g r reply \<longleftrightarrow> g' = g \<and> reply = FlagReply (Inr True)"
| "earned (ReqMarkPending c g' s n) g r reply \<longleftrightarrow> g' = g \<and> reply = FlagReply (Inr True)"
| "earned (ReqMarkFailed c g' s n) g r reply \<longleftrightarrow> g' = g \<and> reply = FlagReply (Inr True)"
| "earned (ReqRecordConfirmed c s n) g r reply \<longleftrightarrow> False"
| "earned (ReqPending c d) g r reply \<longleftrightarrow> False"

text \<open>
  What a one-shot argument over a chain has to say about its winning replies: each is earned by
  an append of its own challenge, and that append spends the view.
\<close>

locale charge_client =
  fixes J :: record_codec
    and c :: string
    and spent :: "view \<Rightarrow> bool"
    and win :: "charge_op \<times> charge_reply \<Rightarrow> bool"
  assumes codec: "record_codec_ok J"
    and win_challenge: "win (q, reply) \<Longrightarrow> req_challenge q = c"
    and win_earned: "win (q, reply) \<Longrightarrow> \<exists>g r. earned q g r reply"
    and win_spends: "win (q, reply) \<Longrightarrow> earned q g r' reply \<Longrightarrow> chain_wf J c V \<Longrightarrow>
      has_record J c V g r \<Longrightarrow> unsettled r \<Longrightarrow> V (charge_record_key c (Suc g)) = None \<Longrightarrow>
      from_value J v = Inr r' \<Longrightarrow>
      \<not> spent V \<and> spent (V(charge_record_key c (Suc g) \<mapsto> v))"
begin

abbreviation "safe_at p V \<equiv> safe (charge_rely J c) spent win p V"

lemma safe_end:
  "(\<And>g r. \<not> earned q g r reply) \<Longrightarrow> safe_at (Done (q, reply)) V"
  using win_earned by (blast intro: safe_Done)

lemma safe_end_other: "req_challenge q \<noteq> c \<Longrightarrow> \<not> win (q, reply)"
  using win_challenge by blast

lemma safe_read:
  assumes "\<And>V' found. charge_rely J c V V' \<Longrightarrow>
      (case found of None \<Rightarrow> V' (charge_record_key c g) = None | Some r \<Rightarrow> has_record J c V' g r) \<Longrightarrow>
      safe_at (f (Inr found)) V'"
    and "\<And>V' e. charge_rely J c V V' \<Longrightarrow> safe_at (f (Inl e)) V'"
  shows "safe_at (bind_prog (read J c g) f) V"
proof (rule safe_step)
  fix V1 p' V2
  assume r: "charge_rely J c V V1" and "vstep (bind_prog (read J c g) f) V1 p' V2"
  then have V2: "V2 = V1" and "(\<exists>e. p' = f (Inl e)) \<or>
      (\<exists>found. p' = f (Inr found) \<and> (case found of
          None \<Rightarrow> V1 (charge_record_key c g) = None | Some r \<Rightarrow> has_record J c V1 g r))"
    by (auto simp: read_def has_record_def split: option.splits sum.splits)
  then have "safe_at p' V2"
    using assms r by blast
  then show "charge_rely J c V1 V2 \<and>
      (safe_at p' V2 \<or> is_won win p' \<and> spent V2 \<and> \<not> spent V1)"
    using V2 by simp
qed (simp add: read_def)

lemma safe_tip_loop:
  assumes "has_record J c V g r"
    and "\<And>V' t r'. charge_rely J c V V' \<Longrightarrow> has_record J c V' t r' \<Longrightarrow> safe_at (f (Inr (Some (t, r')))) V'"
    and "\<And>V' e. charge_rely J c V V' \<Longrightarrow> safe_at (f (Inl e)) V'"
  shows "safe_at (bind_prog (tip_loop J c g r) f) V"
  using assms
proof (induction "MAX_CHARGE_RECORD_GENERATIONS - g" arbitrary: g r V rule: less_induct)
  case less
  show ?case
    unfolding tip_loop.simps [of J c g r] bind_try_def bind_prog_assoc
  proof (rule safe_read)
    fix V' found
    assume r: "charge_rely J c V V'" and found: "case found of
        None \<Rightarrow> V' (charge_record_key c (g + 1)) = None | Some x \<Rightarrow> has_record J c V' (g + 1) x"
    have here: "has_record J c V' g r"
      using r less.prems(1) by (rule charge_rely_has)
    have onward: "safe_at (bind_prog (tip_loop J c (g + 1) x) f) V'"
      if "has_record J c V' (g + 1) x" "g + 1 < MAX_CHARGE_RECORD_GENERATIONS" for x
      using that less.prems(2,3) charge_rely_trans [OF r] by (intro less.hyps) auto
    show "safe_at (bind_prog (case Inr found of Inl e \<Rightarrow> Done (Inl e)
        | Inr next_record \<Rightarrow> (case next_record of None \<Rightarrow> Done (Inr (Some (g, r)))
           | Some r' \<Rightarrow> if MAX_CHARGE_RECORD_GENERATIONS \<le> g + 1 then Done (Inl (exceeds_error c))
               else tip_loop J c (g + 1) r')) f) V'"
      using less.prems(2,3) r here found onward by (cases found) auto
  qed (use less.prems(3) in simp)
qed

lemma safe_tip:
  assumes wf: "chain_wf J c V"
    and "\<And>V' t r'. charge_rely J c V V' \<Longrightarrow> has_record J c V' t r' \<Longrightarrow> safe_at (f (Inr (Some (t, r')))) V'"
    and "\<And>V' e. charge_rely J c V V' \<Longrightarrow> safe_at (f (Inl e)) V'"
  shows "safe_at (bind_prog (tip J c) f) V"
  unfolding tip_def bind_try_def bind_prog_assoc
proof (rule safe_read)
  fix V' found
  assume r: "charge_rely J c V V'" and found: "case found of
      None \<Rightarrow> V' (charge_record_key c 0) = None | Some x \<Rightarrow> has_record J c V' 0 x"
  have "V' (charge_record_key c 0) \<noteq> None"
    using chain_wf_root [OF charge_rely_wf [OF r wf]] .
  then obtain x where x: "found = Some x" "has_record J c V' 0 x"
    using found by (cases found) auto
  have "safe_at (bind_prog (tip_loop J c 0 x) f) V'"
    using x(2) assms(2,3) charge_rely_trans [OF r] by (intro safe_tip_loop) auto
  then show "safe_at (bind_prog (case Inr found of Inl e \<Rightarrow> Done (Inl e)
      | Inr root \<Rightarrow> (case root of None \<Rightarrow> Done (Inr None) | Some r \<Rightarrow> tip_loop J c 0 r)) f) V'"
    using x(1) by simp
qed (use assms(3) in simp)

lemma safe_append:
  assumes wf: "chain_wf J c V" and rec: "has_record J c V g r" "unsettled r"
    and lost: "\<And>V' b. charge_rely J c V V' \<Longrightarrow> b \<noteq> Inr True \<Longrightarrow> safe_at (f b) V'"
    and won: "\<exists>reply. f (Inr True) = Done (q, reply) \<and> (earned q g r' reply \<or> (\<forall>h x. \<not> earned q h x reply))"
  shows "safe_at (bind_prog (append_record J c (Suc g) r') f) V"
proof -
  obtain v where v: "to_value J r' = Inr v" "from_value J v = Inr r'"
    using codec unfolding record_codec_ok_def by blast
  have "safe_at (PutIfAbsent (charge_record_key c (Suc g)) v f) V"
  proof (rule safe_step)
    fix V1 p' V2
    assume r: "charge_rely J c V V1"
      and st: "vstep (PutIfAbsent (charge_record_key c (Suc g)) v f) V1 p' V2"
    note now = charge_rely_wf [OF r wf] charge_rely_has [OF r rec(1)] rec(2)
    have step: "charge_rely J c V1 V2 \<and> (safe_at p' V2 \<or> is_won win p' \<and> spent V2 \<and> \<not> spent V1)"
      if free: "V1 (charge_record_key c (Suc g)) = None" and p: "p' = f (Inr True)"
        and V2: "V2 = V1(charge_record_key c (Suc g) \<mapsto> v)"
    proof -
      obtain reply where p': "p' = Done (q, reply)"
        "earned q g r' reply \<or> (\<forall>h x. \<not> earned q h x reply)"
        using won p by auto
      then show ?thesis
        using chain_extend(1) [OF now free v(2)] win_spends [OF _ _ now free v(2)] V2
          win_earned [of q reply]
        by (cases "win (q, reply)") (auto intro: safe_Done)
    qed
    from st show "charge_rely J c V1 V2 \<and> (safe_at p' V2 \<or> is_won win p' \<and> spent V2 \<and> \<not> spent V1)"
      by cases (use step lost r in auto)
  qed simp
  then show ?thesis
    by (simp add: append_record_def v(1))
qed

lemma safe_settle:
  assumes wf: "chain_wf J c V"
    and m: "\<And>t r. f (t, r) = (if t \<noteq> g \<or> \<not> guard r then Done (Inr False)
      else append_record J c (g + 1) (upd r))"
    and guard: "\<And>r. guard r \<Longrightarrow> unsettled r"
    and earned: "\<And>r. earned q g (upd r) (FlagReply (Inr True))"
      "\<And>h x b. b \<noteq> Inr True \<Longrightarrow> \<not> earned q h x (FlagReply b)"
  shows "safe_at (bind_prog (bind_try (tip_or_error J c) f) (\<lambda>b. Done (q, FlagReply b))) V"
  unfolding tip_or_error_def bind_try_def bind_prog_assoc
proof (rule safe_tip [OF wf])
  fix V' t r
  assume r: "charge_rely J c V V'" and rec: "has_record J c V' t r"
  have "safe_at (bind_prog (append_record J c (Suc g) (upd r)) (\<lambda>b. Done (q, FlagReply b))) V'"
    if "t = g" "guard r"
    using that rec guard earned charge_rely_wf [OF r wf]
    by (intro safe_append [where r = r and q = q]) (auto intro: safe_end)
  then have "safe_at (bind_prog (f (t, r)) (\<lambda>b. Done (q, FlagReply b))) V'"
    using earned(2) by (auto simp: m intro: safe_end)
  then show "safe_at (bind_prog (case Inr (Some (t, r)) of Inl e \<Rightarrow> Done (Inl e)
      | Inr found \<Rightarrow> Done (ok_or found (no_reservation_error c)))
      (\<lambda>x. bind_prog (case x of Inl e \<Rightarrow> Done (Inl e) | Inr a \<Rightarrow> f a)
         (\<lambda>b. Done (q, FlagReply b)))) V'"
    by (simp add: ok_or_def)
qed (use earned(2) in \<open>auto intro: safe_end\<close>)

lemma safe_reserve_loop:
  assumes "chain_wf J c V"
  shows "safe_at (bind_prog (reserve_loop n J c d l now)
    (\<lambda>r. Done (ReqReserve c d l now, ReservationReply r))) V"
  using assms
proof (induction n arbitrary: V)
  case 0
  show ?case by (auto intro: safe_end)
next
  case (Suc n)
  show ?case
    unfolding reserve_loop.simps bind_try_def bind_prog_assoc
  proof (rule safe_tip [OF Suc.prems])
    fix V' t r
    assume rely: "charge_rely J c V V'" and rec: "has_record J c V' t r"
    let ?f = "\<lambda>r. Done (ReqReserve c d l now, ReservationReply r)"
    let ?retry = "\<lambda>b. bind_prog (case b of Inl e \<Rightarrow> Done (Inl e)
        | Inr won \<Rightarrow> if won then Done (Inr (Reserved (t + 1)))
            else reserve_loop n J c d l now) ?f"
    have "safe_at (bind_prog (append_record J c (Suc t) (fresh_record c d l now)) ?retry) V'"
      if "cr_state r = StReserved"
    proof (rule safe_append [OF _ rec])
      show "unsettled r" using that by (simp add: unsettled_def)
      show "safe_at (?retry b) V''" if "charge_rely J c V' V''" "b \<noteq> Inr True" for V'' b
        using that rely Suc charge_rely_wf by (cases b) (auto intro: safe_end)
    qed (use charge_rely_wf [OF rely Suc.prems] in auto)
    then show "safe_at (bind_prog (case Inr (Some (t, r)) of Inl e \<Rightarrow> Done (Inl e)
      | Inr found \<Rightarrow> (case found of
         None \<Rightarrow> Done (Inl vanished_error)
       | Some (generation, existing) \<Rightarrow>
           if cr_normalized_request_digest existing \<noteq> d then Done (Inr Conflict)
           else (case cr_state existing of
               StReserved \<Rightarrow>
                 if now < cr_expires_at existing then Done (Inr InProgress)
                 else bind_prog
                   (append_record J c (generation + 1) (fresh_record c d l now))
                   (\<lambda>x. case x of Inl e \<Rightarrow> Done (Inl e) | Inr won \<Rightarrow>
                      if won then Done (Inr (Reserved (generation + 1)))
                      else reserve_loop n J c d l now)
             | StConfirmed \<Rightarrow>
                 Done (Inr (AlreadyConfirmed (unwrap_or (cr_final_signature existing) [])))
             | StFailed \<Rightarrow> Done (Inr (AlreadyFailed (unwrap_or (cr_failure_reason existing) [])))
             | StPending \<Rightarrow>
                 Done (Inr (PendingConfirmation generation
                   (unwrap_or (cr_final_signature existing) [])))))) ?f) V'"
      by (auto simp: bind_prog_assoc intro: safe_end split: charge_record_state.split)
  qed (auto intro: safe_end)
qed

lemma safe_append_root:
  assumes wf: "chain_wf J c V"
    and lost: "\<And>V' b. charge_rely J c V V' \<Longrightarrow> b \<noteq> Inr True \<Longrightarrow> safe_at (f b) V'"
  shows "safe_at (bind_prog (append_record J c 0 r') f) V"
proof (cases "to_value J r'")
  case (Inl e)
  then show ?thesis
    using lost [of V] by (simp add: append_record_def)
next
  case (Inr v)
  have "safe_at (PutIfAbsent (charge_record_key c 0) v f) V"
  proof (rule safe_step)
    fix V1 p' V2
    assume r: "charge_rely J c V V1" and st: "vstep (PutIfAbsent (charge_record_key c 0) v f) V1 p' V2"
    have "V1 (charge_record_key c 0) \<noteq> None"
      using chain_wf_root [OF charge_rely_wf [OF r wf]] .
    with st show "charge_rely J c V1 V2 \<and> (safe_at p' V2 \<or> is_won win p' \<and> spent V2 \<and> \<not> spent V1)"
      by cases (use lost r in auto)
  qed simp
  then show ?thesis
    using Inr by (simp add: append_record_def)
qed

lemma safe_reserve_root:
  assumes wf: "chain_wf J c V"
  shows "safe_at (bind_prog (reserve_root J c d l now)
    (\<lambda>r. Done (ReqReserve c d l now, ReservationReply r))) V"
proof -
  have "safe_at (bind_prog (case b of Inl e \<Rightarrow> Done (Inl e)
        | Inr won \<Rightarrow> if won then p else reserve_loop MAX_CHARGE_RECORD_GENERATIONS J c d l now)
      (\<lambda>r. Done (ReqReserve c d l now, ReservationReply r))) V'"
    if "charge_rely J c V V'" "b \<noteq> Inr True" for V' p and b :: "store_error + bool"
    using that safe_reserve_loop charge_rely_wf [OF _ wf] by (cases b) (auto intro: safe_end)
  then show ?thesis
    unfolding reserve_root_def bind_try_def [of "append_record _ _ _ _"] bind_prog_assoc
    by (intro safe_append_root [OF wf])
qed

lemma safe_root_lost:
  assumes ok: "\<And>V' b. charge_rely J c V V' \<Longrightarrow> safe_at (f b) V'"
  shows "safe_at (bind_prog (root_lost J c) f) V"
proof -
  have "safe_at (bind_prog (bind_try (read J c 0) (\<lambda>root. Done (Inr (root = None)))) f) V'"
    if "charge_rely J c V V'" for V'
    unfolding bind_try_def bind_prog_assoc
    using ok charge_rely_trans [OF that] by (intro safe_read) auto
  then show ?thesis
    unfolding root_lost_def bind_try_def [of "read J c 1"] bind_prog_assoc
    using ok by (intro safe_read) auto
qed

lemma safe_reserve:
  assumes wf: "chain_wf J c V"
  shows "safe_at (charge_prog J (ReqReserve c d l now)) V"
  unfolding charge_prog.simps reserve_def bind_try_def [of "root_lost J c"] bind_prog_assoc
  using safe_reserve_root charge_rely_wf [OF _ wf]
  by (intro safe_root_lost) (auto intro: safe_end split: sum.split)

lemma safe_record_confirmed_loop:
  assumes "chain_wf J c V"
  shows "safe_at (bind_prog (record_confirmed_loop n J c s now)
    (\<lambda>r. Done (ReqRecordConfirmed c s now, FlagReply r))) V"
  using assms
proof (induction n arbitrary: V)
  case (Suc n)
  let ?f = "\<lambda>r. Done (ReqRecordConfirmed c s now, FlagReply r)"
  show ?case
    unfolding record_confirmed_loop.simps tip_or_error_def bind_try_def bind_prog_assoc
  proof (rule safe_tip [OF Suc.prems])
    fix V' t r
    assume rely: "charge_rely J c V V'" and rec: "has_record J c V' t r"
    have "safe_at (bind_prog (append_record J c (Suc t) (terminal now r StConfirmed (Some s) None))
        (\<lambda>b. bind_prog (case b of Inl e \<Rightarrow> Done (Inl e) | Inr won \<Rightarrow> if won then Done (Inr True)
           else record_confirmed_loop n J c s now) ?f)) V'"
      if "unsettled r"
    proof (rule safe_append [OF _ rec that])
      fix V'' and b :: "store_error + bool"
      assume "charge_rely J c V' V''" "b \<noteq> Inr True"
      then show "safe_at (bind_prog (case b of Inl e \<Rightarrow> Done (Inl e) | Inr won \<Rightarrow>
          if won then Done (Inr True) else record_confirmed_loop n J c s now) ?f) V''"
        using rely Suc charge_rely_wf by (cases b) (auto intro: safe_end)
    qed (use charge_rely_wf [OF rely Suc.prems] in auto)
    then have "safe_at (bind_prog (case cr_state r of
         StConfirmed \<Rightarrow> Done (Inr True) | StFailed \<Rightarrow> Done (Inr False)
       | _ \<Rightarrow> bind_prog (append_record J c (t + 1) (terminal now r StConfirmed (Some s) None))
          (\<lambda>b. case b of Inl e \<Rightarrow> Done (Inl e) | Inr won \<Rightarrow> if won then Done (Inr True)
           else record_confirmed_loop n J c s now)) ?f) V'"
      by (cases "cr_state r") (auto simp: unsettled_def bind_prog_assoc intro: safe_end)
    then show "safe_at (bind_prog (case Inr (Some (t, r)) of Inl e \<Rightarrow> Done (Inl e)
        | Inr found \<Rightarrow> Done (ok_or found (no_reservation_error c)))
       (\<lambda>x. bind_prog (case x of Inl e \<Rightarrow> Done (Inl e) | Inr (generation, r) \<Rightarrow>
          (case cr_state r of
         StConfirmed \<Rightarrow> Done (Inr True) | StFailed \<Rightarrow> Done (Inr False)
       | _ \<Rightarrow> bind_prog (append_record J c (generation + 1) (terminal now r StConfirmed (Some s) None))
          (\<lambda>b. case b of Inl e \<Rightarrow> Done (Inl e) | Inr won \<Rightarrow> if won then Done (Inr True)
           else record_confirmed_loop n J c s now))) ?f)) V'"
      by (simp add: ok_or_def)
  qed (auto intro: safe_end)
qed (auto intro: safe_end)

lemma safe_pending:
  assumes wf: "chain_wf J c V"
  shows "safe_at (charge_prog J (ReqPending c d)) V"
  unfolding charge_prog.simps pending_def bind_try_def bind_prog_assoc
  by (rule safe_tip [OF wf]) (auto intro: safe_end)

lemma safe_same_challenge:
  assumes wf: "chain_wf J c V" and "req_challenge q = c"
  shows "safe_at (charge_prog J q) V"
proof (cases q)
  case (ReqReserve c' d l n)
  with assms show ?thesis by (simp only: req_challenge.simps safe_reserve)
next
  case (ReqRecordConfirmed c' s n)
  with assms show ?thesis
    by (simp add: record_confirmed_def safe_record_confirmed_loop)
next
  case (ReqPending c' d)
  with assms show ?thesis by (simp only: req_challenge.simps safe_pending)
next
  case (ReqMarkConfirmed c' g s n)
  have "safe_at (bind_prog (mark_confirmed J c g s n) (\<lambda>b. Done (q, FlagReply b))) V"
    unfolding mark_confirmed_def
    by (rule safe_settle [OF wf, where guard = "\<lambda>r. cr_state r = StReserved \<or> holds_pending s r"])
      (auto simp: ReqMarkConfirmed terminal_def unsettled_def holds_pending_def
        split: charge_record_state.split)
  with ReqMarkConfirmed assms(2) show ?thesis by simp
next
  case (ReqReleasePending c' g s n)
  have "safe_at (bind_prog (release_pending_record J c g s n) (\<lambda>b. Done (q, FlagReply b))) V"
    unfolding release_pending_record_def
    by (rule safe_settle [OF wf, where guard = "holds_pending s"])
      (auto simp: ReqReleasePending unsettled_def holds_pending_def)
  with ReqReleasePending assms(2) show ?thesis by simp
next
  case (ReqConfirmPending c' g s n)
  have "safe_at (bind_prog (confirm_pending J c g s n) (\<lambda>b. Done (q, FlagReply b))) V"
    unfolding confirm_pending_def
    by (rule safe_settle [OF wf, where guard = "holds_pending s"])
      (auto simp: ReqConfirmPending terminal_def unsettled_def holds_pending_def)
  with ReqConfirmPending assms(2) show ?thesis by simp
next
  case (ReqMarkPending c' g s n)
  have "safe_at (bind_prog (mark_pending J c g s n) (\<lambda>b. Done (q, FlagReply b))) V"
    unfolding mark_pending_def
    by (rule safe_settle [OF wf, where guard = "\<lambda>r. cr_state r = StReserved"])
      (auto simp: ReqMarkPending unsettled_def)
  with ReqMarkPending assms(2) show ?thesis by simp
next
  case (ReqMarkFailed c' g s n)
  have "safe_at (bind_prog (mark_failed J c g s n) (\<lambda>b. Done (q, FlagReply b))) V"
    unfolding mark_failed_def
    by (rule safe_settle [OF wf, where guard = unsettled]) (auto simp: ReqMarkFailed unsettled_def)
  with ReqMarkFailed assms(2) show ?thesis by simp
qed

lemma safe_other_challenge:
  assumes "req_challenge q \<noteq> c" "CHR '':'' \<notin> set c" "CHR '':'' \<notin> set (req_challenge q)"
  shows "safe_at (charge_prog J q) V"
proof (rule confined_safe [where P = "own_key (req_challenge q)"])
  have "confined P (\<lambda>x. fst x = q) p \<Longrightarrow> confined P (\<lambda>r. \<not> win r) p" for P and p :: "_ prog"
    using safe_end_other [OF assms(1)] by (induction p) auto
  then show "confined (own_key (req_challenge q)) (\<lambda>r. \<not> win r) (charge_prog J q)"
    using confined_charge_prog by blast
  show "charge_rely J c V (V(k := x))" if "own_key (req_challenge q) k" for V k x
    using that assms charge_record_key_inject [OF assms(3,2)]
    by (intro charge_rely_other) (auto simp: own_key_def)
qed simp

lemma safe_request:
  assumes "chain_wf J c V" "CHR '':'' \<notin> set c" "CHR '':'' \<notin> set (req_challenge q)"
  shows "safe_at (charge_prog J q) V"
  using safe_same_challenge safe_other_challenge assms by blast

end

section \<open>The two clients\<close>

lemma confirming_client:
  assumes "record_codec_ok J"
  shows "charge_client J c (confirmed_spent J c) (confirms c)"
proof
  show "record_codec_ok J" by (rule assms)
  fix q reply
  assume win: "confirms c (q, reply)"
  then show "req_challenge q = c" by (cases q) auto
  from win show "\<exists>g r. earned q g r reply"
    by (cases q) (auto intro: exI [of _ "undefined\<lparr>cr_state := StConfirmed\<rparr>"])
  fix g r' V r v
  assume "earned q g r' reply" and chain: "chain_wf J c V" "has_record J c V g r" "unsettled r"
    "V (charge_record_key c (Suc g)) = None" "from_value J v = Inr r'"
  then have "cr_state r' = StConfirmed"
    using win by (cases q) auto
  then show "\<not> confirmed_spent J c V
      \<and> confirmed_spent J c (V(charge_record_key c (Suc g) \<mapsto> v))"
    using chain_extend [OF chain] by simp
qed

lemma moving_client:
  assumes "record_codec_ok J"
  shows "charge_client J c (generation_spent c g) (moves c g)"
proof
  show "record_codec_ok J" by (rule assms)
  fix q reply
  assume win: "moves c g (q, reply)"
  then show "req_challenge q = c" by (cases q) auto
  from win show "\<exists>g r. earned q g r reply"
    by (cases q) (auto intro: exI [of _ "undefined\<lparr>cr_state := StConfirmed\<rparr>"])
  fix h r' r v and V :: view
  assume e: "earned q h r' reply" and free: "V (charge_record_key c (Suc h)) = None"
  have "h = g"
    using win e by (cases q) auto
  then show "\<not> generation_spent c g V
      \<and> generation_spent c g (V(charge_record_key c (Suc h) \<mapsto> v))"
    using free by (simp add: generation_spent_def)
qed

lemma charge_one_shot:
  assumes "codec_ok C" "\<And>V V'. charge_rely J c V V' \<Longrightarrow> spent V \<Longrightarrow> spent V'"
  shows "one_shot (memory_store C) (memory_view C) (memory_ok C) (charge_rely J c) spent"
  using memory_store_contract [OF assms(1)] assms(2) charge_rely_trans
  by (fastforce simp: one_shot_def one_shot_axioms_def)

text \<open>A codec as \<open>serde\<close> derives it for the record: its fields in key order.\<close>

fun state_name :: "charge_record_state \<Rightarrow> string" where
  "state_name StReserved = ''reserved''"
| "state_name StConfirmed = ''confirmed''"
| "state_name StFailed = ''failed''"
| "state_name StPending = ''pending''"

definition state_of_name :: "string \<Rightarrow> charge_record_state" where
  "state_of_name n =
     (if n = ''reserved'' then StReserved else if n = ''confirmed'' then StConfirmed
      else if n = ''failed'' then StFailed else StPending)"

fun json_of_option :: "string option \<Rightarrow> json" where
  "json_of_option None = JNull"
| "json_of_option (Some x) = JString x"

fun option_of_json :: "json \<Rightarrow> string option" where
  "option_of_json (JString x) = Some x"
| "option_of_json _ = None"

definition record_to_json :: "charge_record \<Rightarrow> json" where
  "record_to_json r = JObject
     [(''challenge_id'', JString (cr_challenge_id r)),
      (''expires_at'', JNumber (cr_expires_at r)),
      (''failure_reason'', json_of_option (cr_failure_reason r)),
      (''final_signature'', json_of_option (cr_final_signature r)),
      (''normalized_request_digest'', JString (cr_normalized_request_digest r)),
      (''state'', JString (state_name (cr_state r))),
      (''updated_at'', JNumber (cr_updated_at r))]"

definition string_field :: "(string \<times> json) list \<Rightarrow> string \<Rightarrow> string" where
  "string_field kvs n = (case map_of kvs n of Some (JString x) \<Rightarrow> x | _ \<Rightarrow> [])"

definition int_field :: "(string \<times> json) list \<Rightarrow> string \<Rightarrow> int" where
  "int_field kvs n = (case map_of kvs n of Some (JNumber x) \<Rightarrow> x | _ \<Rightarrow> 0)"

definition option_field :: "(string \<times> json) list \<Rightarrow> string \<Rightarrow> string option" where
  "option_field kvs n = (case map_of kvs n of Some x \<Rightarrow> option_of_json x | None \<Rightarrow> None)"

fun record_of_json :: "json \<Rightarrow> string + charge_record" where
  "record_of_json (JObject kvs) =
     Inr \<lparr>cr_challenge_id = string_field kvs ''challenge_id'',
          cr_normalized_request_digest = string_field kvs ''normalized_request_digest'',
          cr_final_signature = option_field kvs ''final_signature'',
          cr_failure_reason = option_field kvs ''failure_reason'',
          cr_state = state_of_name (string_field kvs ''state''),
          cr_updated_at = int_field kvs ''updated_at'', cr_expires_at = int_field kvs ''expires_at''\<rparr>"
| "record_of_json _ = Inl ''invalid charge record''"

definition derived_codec :: record_codec where
  "derived_codec = \<lparr>to_value = \<lambda>r. Inr (record_to_json r), from_value = record_of_json\<rparr>"

lemma state_of_name [simp]: "state_of_name (state_name st) = st"
  by (cases st) (simp_all add: state_of_name_def)

lemma option_of_json [simp]: "option_of_json (json_of_option x) = x"
  by (cases x) simp_all

lemma derived_codec_ok [simp]: "record_codec_ok derived_codec"
  by (simp add: record_codec_ok_def derived_codec_def record_to_json_def string_field_def
      int_field_def option_field_def)

interpretation confirming: charge_client derived_codec c "confirmed_spent derived_codec c"
    "confirms c" for c
  by (rule confirming_client) simp

interpretation moving: charge_client derived_codec c "generation_spent c g" "moves c g" for c g
  by (rule moving_client) simp

interpretation confirming_shot: one_shot "memory_store value_codec" "memory_view value_codec"
    "memory_ok value_codec" "charge_rely derived_codec c" "confirmed_spent derived_codec c"
    "confirms c" for c
  by (rule charge_one_shot) (simp_all add: confirmed_spent_stable)

section \<open>Lemmas: whole interleavings\<close>

definition colon_free :: "string \<Rightarrow> bool" where
  "colon_free c \<longleftrightarrow> CHR '':'' \<notin> set c"

lemma rely_extends:
  assumes "chain_at J V c rs" "open_chain rs" "charge_rely J c V V'"
  obtains ext where "chain_at J V' c (rs @ ext)" "open_chain (rs @ ext)"
proof -
  obtain rs' where rs': "chain_at J V' c rs'" "open_chain rs'"
    using assms by (auto simp: charge_rely_def chain_wf_def)
  have same: "i < length rs' \<and> rs' ! i = rs ! i" if i: "i < length rs" for i
  proof -
    obtain v where "V (charge_record_key c i) = Some v" "from_value J v = Inr (rs ! i)"
      using assms(1) i by (auto simp: chain_at_def)
    with assms(3) have "V' (charge_record_key c i) = Some v" "from_value J v = Inr (rs ! i)"
      by (auto simp: charge_rely_def)
    with rs'(1) show ?thesis
      by (cases "i < length rs'") (fastforce simp: chain_at_def)+
  qed
  then have "length rs \<le> length rs'"
    by (meson not_le_imp_less less_irrefl)
  then have "rs' = rs @ drop (length rs) rs'"
    using same by (intro nth_equalityI) (auto simp: nth_append)
  with rs' that show thesis by metis
qed

lemma charge_interleaving:
  assumes "codec_ok C" "memory_ok C s" "chain_at J (memory_view C s) c rs" "open_chain rs"
    and "colon_free c" "list_all (\<lambda>q. colon_free (req_challenge q)) reqs"
    and client: "charge_client J c spent win"
    and stable: "\<forall>V V'. charge_rely J c V V' \<longrightarrow> spent V \<longrightarrow> spent V'"
    and run: "interleave (memory_store C) sched (map (charge_prog J) reqs, s) = (ps, s')"
  shows "wins win ps \<le> 1" "spent (memory_view C s) \<Longrightarrow> wins win ps = 0"
    and "charge_rely J c (memory_view C s) (memory_view C s')"
proof -
  have safe: "safe (charge_rely J c) spent win p (memory_view C s)"
    if "p \<in> set (map (charge_prog J) reqs)" for p
    using that assms(3-6) charge_client.safe_request [OF client]
    by (auto simp: colon_free_def list_all_iff chain_wf_def)
  have "one_shot (memory_store C) (memory_view C) (memory_ok C) (charge_rely J c) spent"
    using charge_one_shot [OF assms(1)] stable by blast
  note one = one_shot.at_most_one_win [OF this assms(2) safe run]
  show "wins win ps \<le> 1" "charge_rely J c (memory_view C s) (memory_view C s')"
    "spent (memory_view C s) \<Longrightarrow> wins win ps = 0"
    using one by simp_all
qed

lemma run_confined:
  "confined P Q p \<Longrightarrow> run plain p V = (r, V') \<Longrightarrow> \<not> P k \<Longrightarrow> V' k = V k"
proof (induction p arbitrary: V)
  case (PutIfAbsent k' v c)
  then show ?case by (fastforce split: if_splits)
next
  case (PutIfEq k' e v c)
  then show ?case by (fastforce split: if_splits)
qed fastforce+

lemma charge_refinement:
  assumes "codec_ok C" "record_codec_ok J" "memory_ok C s"
    and "chain_at J (memory_view C s) (req_challenge q) rs"
    and "run (memory_store C) (charge_prog J q) s = (x, s')"
  shows "memory_ok C s'" "x = (q, fst (charge_spec q rs))"
    and "chain_at J (memory_view C s') (req_challenge q) (snd (charge_spec q rs))"
proof -
  have ok: "memory_ok C s'"
    and plain: "run plain (charge_prog J q) (memory_view C s) = (x, memory_view C s')"
    using run_memory_store [OF assms(1,3,5)] by auto
  show "memory_ok C s'" by (rule ok)
  from run_charge_prog [OF assms(4,2)] plain
  show "x = (q, fst (charge_spec q rs))"
    "chain_at J (memory_view C s') (req_challenge q) (snd (charge_spec q rs))"
    by auto
qed

section \<open>Properties\<close>

text \<open>
  C8.  A challenge is confirmed at most once.  Let any number of requests of any kind, for any
  challenges whose ids have no colon, run against a store in which the challenge already has a chain of
  at least one record, whose settled record, if any, is its last; let their store calls interleave in
  any order.  At most one request is told
  it confirmed the challenge, none is if the chain was already confirmed, and the chain at the
  end extends the one at the start (nothing is rewritten or deleted) with its settled record
  still last.
\<close>

theorem charge_confirmed_once:
  assumes "codec_ok C" "record_codec_ok J" "memory_ok C s"
    and "chain_at J (memory_view C s) c rs" "open_chain rs"
    and "colon_free c" "list_all (\<lambda>q. colon_free (req_challenge q)) reqs"
    and "interleave (memory_store C) sched (map (charge_prog J) reqs, s) = (ps, s')"
  shows "wins (confirms c) ps \<le> 1
    \<and> (confirmed_spent J c (memory_view C s) \<longrightarrow> wins (confirms c) ps = 0)
    \<and> (\<exists>ext. chain_at J (memory_view C s') c (rs @ ext) \<and> open_chain (rs @ ext))"
proof -
  have "\<forall>V V'. charge_rely J c V V' \<longrightarrow> confirmed_spent J c V \<longrightarrow> confirmed_spent J c V'"
    using confirmed_spent_stable by blast
  note all = charge_interleaving [OF assms(1,3-7) confirming_client [OF assms(2)] this assms(8)]
  show ?thesis
    using all(1,2) rely_extends [OF assms(4,5) all(3)] by blast
qed

definition reserved_record :: charge_record where
  "reserved_record = fresh_record ''ch'' ''d'' 120 0"

definition reserved_store :: view where
  "reserved_store = [charge_record_key ''ch'' 0 \<mapsto> record_to_json reserved_record]"

lemma reserved_store_chain:
  "chain_at derived_codec (memory_view value_codec reserved_store) ''ch'' [reserved_record]"
  "open_chain [reserved_record]"
proof -
  have "from_value derived_codec (record_to_json reserved_record) = Inr reserved_record"
    using derived_codec_ok by (simp add: record_codec_ok_def derived_codec_def)
  then show "chain_at derived_codec (memory_view value_codec reserved_store) ''ch'' [reserved_record]"
    by (simp add: chain_at_def reserved_store_def)
qed (simp add: open_chain_def)

theorem charge_confirmed_once_witness:
  "\<exists>ps s' ext.
     interleave (memory_store value_codec) (concat (replicate 3 [0, 1]))
       (map (charge_prog derived_codec)
          [ReqMarkConfirmed ''ch'' 0 ''s1'' 5, ReqMarkConfirmed ''ch'' 0 ''s2'' 6], reserved_store)
       = (ps, s')
     \<and> wins (confirms ''ch'') ps = 1
     \<and> chain_at derived_codec s' ''ch'' (reserved_record # ext)"
proof -
  let ?cfg = "(map (charge_prog derived_codec)
     [ReqMarkConfirmed ''ch'' 0 ''s1'' 5, ReqMarkConfirmed ''ch'' 0 ''s2'' 6], reserved_store)"
  obtain ps s' where run: "interleave (memory_store value_codec) (concat (replicate 3 [0, 1])) ?cfg
      = (ps, s')"
    by force
  have "wins (confirms ''ch'') (fst (interleave (memory_store value_codec)
      (concat (replicate 3 [0, 1])) ?cfg)) = 1"
    by code_simp
  then have "wins (confirms ''ch'') ps = 1"
    by (simp only: run fst_conv)
  moreover obtain ext where "chain_at derived_codec s' ''ch'' (reserved_record # ext)"
    using charge_confirmed_once [OF _ _ _ reserved_store_chain _ _ run]
    by (auto simp: colon_free_def)
  ultimately show ?thesis using run by blast
qed

text \<open>
  A generation is left at most once, so ownership is fenced.  In any interleaving of any
  requests on such a store, at most one request is told that it moved generation \<open>g\<close> of the
  challenge on: either one presentation took the expired reservation over, or one owner marked
  it pending, confirmed, failed or released.  Nobody is when the next generation already exists,
  so an owner whose lease was taken over can no longer settle.
\<close>

theorem generation_left_once:
  assumes "codec_ok C" "record_codec_ok J" "memory_ok C s"
    and "chain_at J (memory_view C s) c rs" "open_chain rs"
    and "colon_free c" "list_all (\<lambda>q. colon_free (req_challenge q)) reqs"
    and "interleave (memory_store C) sched (map (charge_prog J) reqs, s) = (ps, s')"
  shows "wins (moves c g) ps \<le> 1 \<and> (Suc g < length rs \<longrightarrow> wins (moves c g) ps = 0)"
proof -
  have "generation_spent c g (memory_view C s)" if "Suc g < length rs"
    using that assms(4) by (fastforce simp: generation_spent_def chain_at_def)
  moreover have
    "\<forall>V V'. charge_rely J c V V' \<longrightarrow> generation_spent c g V \<longrightarrow> generation_spent c g V'"
    using generation_spent_stable by blast
  ultimately show ?thesis
    using charge_interleaving(1,2) [OF assms(1,3-7) moving_client [OF assms(2)] _ assms(8)]
    by blast
qed

theorem generation_left_once_witness:
  "\<exists>ps s'.
     interleave (memory_store value_codec) (concat (replicate 5 [0, 1]))
       (map (charge_prog derived_codec)
          [ReqReserve ''ch'' ''d'' 120 200, ReqMarkPending ''ch'' 0 ''s'' 200], reserved_store)
       = (ps, s')
     \<and> wins (moves ''ch'' 0) ps = 1"
proof -
  let ?cfg = "(map (charge_prog derived_codec)
     [ReqReserve ''ch'' ''d'' 120 200, ReqMarkPending ''ch'' 0 ''s'' 200], reserved_store)"
  obtain ps s' where run: "interleave (memory_store value_codec) (concat (replicate 5 [0, 1])) ?cfg
      = (ps, s')"
    by force
  have "0 < wins (moves ''ch'' 0) (fst (interleave (memory_store value_codec)
      (concat (replicate 5 [0, 1])) ?cfg))"
    by code_simp
  then have "0 < wins (moves ''ch'' 0) ps"
    by (simp only: run fst_conv)
  moreover have "wins (moves ''ch'' 0) ps \<le> 1"
    using generation_left_once [OF _ _ _ reserved_store_chain _ _ run, of 0]
    by (simp add: colon_free_def)
  ultimately show ?thesis using run by force
qed

text \<open>
  Run alone on an in-memory store, every method does to a challenge's list of generations
  exactly what its abstract specification says: same reply, same new list.  The chains of all
  other challenges are untouched.
\<close>

theorem charge_prog_refines:
  assumes "codec_ok C" "record_codec_ok J" "memory_ok C s"
    and "chain_at J (memory_view C s) (req_challenge q) rs"
    and "run (memory_store C) (charge_prog J q) s = (x, s')"
    and "colon_free (req_challenge q)" "colon_free c'" "c' \<noteq> req_challenge q"
    and "chain_at J (memory_view C s) c' rs'"
  shows "memory_ok C s' \<and> x = (q, fst (charge_spec q rs))
    \<and> chain_at J (memory_view C s') (req_challenge q) (snd (charge_spec q rs))
    \<and> chain_at J (memory_view C s') c' rs'"
proof -
  have plain: "run plain (charge_prog J q) (memory_view C s) = (x, memory_view C s')"
    using run_memory_store [OF assms(1,3,5)] by simp
  have "\<not> own_key (req_challenge q) (charge_record_key c' g)" for g
    using assms(6-8) by (auto simp: own_key_def colon_free_def charge_record_key_inject)
  then have "memory_view C s' (charge_record_key c' g) = memory_view C s (charge_record_key c' g)" for g
    using run_confined [OF confined_charge_prog plain] by blast
  with assms(9) have "chain_at J (memory_view C s') c' rs'"
    by (simp add: chain_at_def)
  with charge_refinement [OF assms(1-5)] show ?thesis by blast
qed

theorem charge_prog_refines_witness:
  "\<exists>x s'. run (memory_store value_codec)
      (charge_prog derived_codec (ReqMarkPending ''ch'' 0 ''sig'' 60)) reserved_store = (x, s')
    \<and> x = (ReqMarkPending ''ch'' 0 ''sig'' 60, FlagReply (Inr True))
    \<and> chain_at derived_codec s' ''ch''
        [reserved_record, terminal 60 reserved_record StPending (Some ''sig'') None]
    \<and> chain_at derived_codec s' ''other'' []"
proof -
  let ?q = "ReqMarkPending ''ch'' 0 ''sig'' 60"
  obtain x s' where run: "run (memory_store value_codec) (charge_prog derived_codec ?q)
      reserved_store = (x, s')"
    by (cases "run plain (charge_prog derived_codec ?q) reserved_store") simp
  have other: "chain_at derived_codec (memory_view value_codec reserved_store) ''other'' []"
    using charge_record_key_inject [of "''other''" "''ch''" _ 0]
    by (auto simp: chain_at_def reserved_store_def)
  have "x = (?q, fst (charge_spec ?q [reserved_record]))
      \<and> chain_at derived_codec s' ''ch'' (snd (charge_spec ?q [reserved_record]))
      \<and> chain_at derived_codec s' ''other'' []"
    using charge_prog_refines [OF codec_ok_value_codec derived_codec_ok memory_ok_value_codec _ run
        _ _ _ other] reserved_store_chain(1)
    by (simp add: colon_free_def)
  with run show ?thesis
    by (simp add: spec_settle_def spec_tip_def reserved_record_def fresh_record_def
        MAX_CHARGE_RECORD_GENERATIONS_def)
qed

text \<open>
  The life of a charge whose first process crashed.  A challenge with no record is reserved
  at time \<open>t0\<close>; until the lease ends every presentation with the same digest is told it is in
  progress, and one with another digest that it conflicts; once the lease is over the next
  presentation takes generation 1; the first owner can then neither record a broadcast nor fail
  the charge; the new owner records its broadcast signature, and from then on no presentation,
  however late, takes it over again: it is told to reconcile that signature, and once this is
  confirmed every later presentation gets the confirmed signature and a failure is refused.
\<close>

theorem charge_lifecycle:
  assumes "codec_ok C" "record_codec_ok J" "memory_ok C s0"
    and "\<And>g. memory_view C s0 (charge_record_key c g) = None" "d' \<noteq> d"
    and "in_i64 (t0 + int (unat lease))" "0 \<le> t0" "t1 < t0 + int (unat lease)"
    and "t0 + int (unat lease) \<le> t2"
    and "run (memory_store C) (charge_prog J (ReqReserve c d lease t0)) s0 = (x0, s1)"
    and "run (memory_store C) (charge_prog J (ReqReserve c d lease t1)) s1 = (x1, s2)"
    and "run (memory_store C) (charge_prog J (ReqReserve c d' lease t1)) s2 = (x2, s3)"
    and "run (memory_store C) (charge_prog J (ReqReserve c d lease t2)) s3 = (x3, s4)"
    and "run (memory_store C) (charge_prog J (ReqMarkPending c 0 sig' t2)) s4 = (x4, s5)"
    and "run (memory_store C) (charge_prog J (ReqMarkFailed c 0 why t2)) s5 = (x5, s6)"
    and "run (memory_store C) (charge_prog J (ReqMarkPending c 1 sig t2)) s6 = (x6, s7)"
    and "run (memory_store C) (charge_prog J (ReqReserve c d lease t3)) s7 = (x7, s8)"
    and "run (memory_store C) (charge_prog J (ReqConfirmPending c 2 sig t3)) s8 = (x8, s9)"
    and "run (memory_store C) (charge_prog J (ReqReserve c d lease t4)) s9 = (x9, s10)"
    and "run (memory_store C) (charge_prog J (ReqMarkFailed c 3 why t4)) s10 = (x10, s11)"
  shows "snd x0 = ReservationReply (Inr (Reserved 0))
    \<and> snd x1 = ReservationReply (Inr InProgress)
    \<and> snd x2 = ReservationReply (Inr Conflict)
    \<and> snd x3 = ReservationReply (Inr (Reserved 1))
    \<and> snd x4 = FlagReply (Inr False) \<and> snd x5 = FlagReply (Inr False)
    \<and> snd x6 = FlagReply (Inr True)
    \<and> snd x7 = ReservationReply (Inr (PendingConfirmation 2 sig))
    \<and> snd x8 = FlagReply (Inr True)
    \<and> snd x9 = ReservationReply (Inr (AlreadyConfirmed sig))
    \<and> snd x10 = FlagReply (Inr False)"
proof -
  note sim = charge_refinement [OF assms(1,2)]
  define r0 where "r0 = fresh_record c d lease t0"
  define r1 where "r1 = fresh_record c d lease t2"
  define r2 where "r2 = terminal t2 r1 StPending (Some sig) None"
  define r3 where "r3 = terminal t3 r2 StConfirmed (Some sig) None"
  have "i64_wrap (t0 + u64_as_i64 lease) = t0 + int (unat lease)"
    using assms(6) by (simp add: i64_wrap_add_u64 i64_wrap_id)
  then have recs: "cr_normalized_request_digest r0 = d" "cr_state r0 = StReserved"
      "cr_expires_at r0 = t0 + int (unat lease)"
      "cr_normalized_request_digest r1 = d" "cr_state r1 = StReserved"
      "cr_normalized_request_digest r2 = d" "cr_state r2 = StPending" "cr_final_signature r2 = Some sig"
      "cr_normalized_request_digest r3 = d" "cr_state r3 = StConfirmed" "cr_final_signature r3 = Some sig"
    by (simp_all add: r0_def r1_def r2_def r3_def fresh_record_def terminal_def)
  note spec = recs spec_reserve.simps spec_settle_def spec_tip_def holds_pending_def
    MAX_CHARGE_RECORD_GENERATIONS_def unwrap_or_def
  have 0: "chain_at J (memory_view C s0) c []"
    using assms(4) by (simp add: chain_at_def)
  have 1: "memory_ok C s1" "snd x0 = ReservationReply (Inr (Reserved 0))"
      "chain_at J (memory_view C s1) c [r0]"
    using sim [where rs = "[]", OF assms(3) _ assms(10)] 0 by (simp_all add: spec r0_def)
  have 2: "memory_ok C s2" "snd x1 = ReservationReply (Inr InProgress)"
      "chain_at J (memory_view C s2) c [r0]"
    using sim [where rs = "[r0]", OF 1(1) _ assms(11)] 1(3) assms(8) by (simp_all add: spec)
  have 3: "memory_ok C s3" "snd x2 = ReservationReply (Inr Conflict)"
      "chain_at J (memory_view C s3) c [r0]"
    using sim [where rs = "[r0]", OF 2(1) _ assms(12)] 2(3) assms(5) by (simp_all add: spec)
  have 4: "memory_ok C s4" "snd x3 = ReservationReply (Inr (Reserved 1))"
      "chain_at J (memory_view C s4) c [r0, r1]"
    using sim [where rs = "[r0]", OF 3(1) _ assms(13)] 3(3) assms(9) by (simp_all add: spec r1_def)
  have 5: "memory_ok C s5" "snd x4 = FlagReply (Inr False)"
      "chain_at J (memory_view C s5) c [r0, r1]"
    using sim [where rs = "[r0, r1]", OF 4(1) _ assms(14)] 4(3) by (simp_all add: spec)
  have 6: "memory_ok C s6" "snd x5 = FlagReply (Inr False)"
      "chain_at J (memory_view C s6) c [r0, r1]"
    using sim [where rs = "[r0, r1]", OF 5(1) _ assms(15)] 5(3) by (simp_all add: spec)
  have 7: "memory_ok C s7" "snd x6 = FlagReply (Inr True)"
      "chain_at J (memory_view C s7) c [r0, r1, r2]"
    using sim [where rs = "[r0, r1]", OF 6(1) _ assms(16)] 6(3) by (simp_all add: spec r2_def)
  have 8: "memory_ok C s8" "snd x7 = ReservationReply (Inr (PendingConfirmation 2 sig))"
      "chain_at J (memory_view C s8) c [r0, r1, r2]"
    using sim [where rs = "[r0, r1, r2]", OF 7(1) _ assms(17)] 7(3) by (simp_all add: spec)
  have 9: "memory_ok C s9" "snd x8 = FlagReply (Inr True)"
      "chain_at J (memory_view C s9) c [r0, r1, r2, r3]"
    using sim [where rs = "[r0, r1, r2]", OF 8(1) _ assms(18)] 8(3) by (simp_all add: spec r3_def)
  have 10: "memory_ok C s10" "snd x9 = ReservationReply (Inr (AlreadyConfirmed sig))"
      "chain_at J (memory_view C s10) c [r0, r1, r2, r3]"
    using sim [where rs = "[r0, r1, r2, r3]", OF 9(1) _ assms(19)] 9(3) by (simp_all add: spec)
  have "snd x10 = FlagReply (Inr False)"
    using sim [where rs = "[r0, r1, r2, r3]", OF 10(1) _ assms(20)] 10(3) by (simp_all add: spec)
  with 1 2 3 4 5 6 7 8 9 10 show ?thesis by blast
qed

theorem charge_lifecycle_witness:
  "\<exists>s1 s2 s3 s4 x0 x1 x2 x3.
     run plain (charge_prog derived_codec (ReqReserve ''ch'' ''d'' 120 1000)) Map.empty = (x0, s1)
   \<and> run plain (charge_prog derived_codec (ReqReserve ''ch'' ''d'' 120 1119)) s1 = (x1, s2)
   \<and> run plain (charge_prog derived_codec (ReqReserve ''ch'' ''e'' 120 1119)) s2 = (x2, s3)
   \<and> run plain (charge_prog derived_codec (ReqReserve ''ch'' ''d'' 120 1120)) s3 = (x3, s4)
   \<and> snd x1 = ReservationReply (Inr InProgress) \<and> snd x3 = ReservationReply (Inr (Reserved 1))"
proof -
  let ?go = "\<lambda>q s. run plain (charge_prog derived_codec q) s"
  obtain x0 s1 where 0: "?go (ReqReserve ''ch'' ''d'' 120 1000) Map.empty = (x0, s1)"
    by (metis surj_pair)
  obtain x1 s2 where 1: "?go (ReqReserve ''ch'' ''d'' 120 1119) s1 = (x1, s2)"
    by (metis surj_pair)
  obtain x2 s3 where 2: "?go (ReqReserve ''ch'' ''e'' 120 1119) s2 = (x2, s3)"
    by (metis surj_pair)
  obtain x3 s4 where 3: "?go (ReqReserve ''ch'' ''d'' 120 1120) s3 = (x3, s4)"
    by (metis surj_pair)
  obtain x4 s5 where 4: "?go (ReqMarkPending ''ch'' 0 ''x'' 1120) s4 = (x4, s5)"
    by (metis surj_pair)
  obtain x5 s6 where 5: "?go (ReqMarkFailed ''ch'' 0 ''w'' 1120) s5 = (x5, s6)"
    by (metis surj_pair)
  obtain x6 s7 where 6: "?go (ReqMarkPending ''ch'' 1 ''s'' 1120) s6 = (x6, s7)"
    by (metis surj_pair)
  obtain x7 s8 where 7: "?go (ReqReserve ''ch'' ''d'' 120 9000) s7 = (x7, s8)"
    by (metis surj_pair)
  obtain x8 s9 where 8: "?go (ReqConfirmPending ''ch'' 2 ''s'' 9000) s8 = (x8, s9)"
    by (metis surj_pair)
  obtain x9 s10 where 9: "?go (ReqReserve ''ch'' ''d'' 120 9001) s9 = (x9, s10)"
    by (metis surj_pair)
  obtain x10 s11 where 10: "?go (ReqMarkFailed ''ch'' 3 ''w'' 9001) s10 = (x10, s11)"
    by (metis surj_pair)
  have "snd x1 = ReservationReply (Inr InProgress) \<and> snd x3 = ReservationReply (Inr (Reserved 1))"
    using charge_lifecycle [OF codec_ok_value_codec derived_codec_ok memory_ok_empty _ _ _ _ _ _
        0 1 2 3 4 5 6 7 8 9 10]
    by (simp add: in_i64_def i64_min_def i64_max_def)
  with 0 1 2 3 show ?thesis by blast
qed

fun finished :: "'r prog \<Rightarrow> 'r option" where
  "finished (Done r) = Some r"
| "finished _ = None"

text \<open>
  C39.  The replay race of a stalled first reservation.  For every fresh challenge there is a schedule
  in which one process writes the root record and stalls past its lease before its next store call; a
  second presentation takes generation 1 over and is told it owns the challenge; the first process
  resumes, sees generation 1, deletes the root as if it were orphaned and fails.  From then on the owner
  of generation 1 cannot record any broadcast, and every later presentation of the challenge
  fails too, at any time and with any request.
\<close>

theorem takeover_race_orphans_the_owner:
  fixes V :: view
  assumes "record_codec_ok J" "\<forall>g. V (charge_record_key c g) = None"
    and "cr_expires_at (fresh_record c d lease now) \<le> now'"
  shows "\<exists>sched W. interleave plain sched
      (map (charge_prog J) [ReqReserve c d lease now, ReqReserve c d lease now'], V)
      = ([Done (ReqReserve c d lease now, ReservationReply (Inl (orphaned_error c))),
          Done (ReqReserve c d lease now', ReservationReply (Inr (Reserved 1)))], W)
    \<and> (\<forall>s t. fst (run plain (mark_pending J c 1 s t) W) = Inl (no_reservation_error c))
    \<and> (\<forall>d' lease' t. fst (run plain (reserve J c d' lease' t) W) = Inl (orphaned_error c))"
proof -
  let ?k = "charge_record_key c"
  obtain v0 where v0: "to_value J (fresh_record c d lease now) = Inr v0" "from_value J v0 = Inr (fresh_record c d lease now)"
    using assms(1) unfolding record_codec_ok_def by blast
  obtain v1 where v1: "to_value J (fresh_record c d lease now') = Inr v1" "from_value J v1 = Inr (fresh_record c d lease now')"
    using assms(1) unfolding record_codec_ok_def by blast
  let ?W = "V(?k 0 \<mapsto> v0, ?k 1 \<mapsto> v1, ?k 0 := None)"
  have fields: "cr_normalized_request_digest (fresh_record c d lease now) = d" "cr_state (fresh_record c d lease now) = StReserved"
    by (simp_all add: fresh_record_def)
  obtain m where bound: "MAX_CHARGE_RECORD_GENERATIONS = Suc m"
    by (cases MAX_CHARGE_RECORD_GENERATIONS) (simp_all add: MAX_CHARGE_RECORD_GENERATIONS_def)
  have "interleave plain [0, 0, 1, 1, 1, 1, 1, 0, 0]
      (map (charge_prog J) [ReqReserve c d lease now, ReqReserve c d lease now'], V)
      = ([Done (ReqReserve c d lease now, ReservationReply (Inl (orphaned_error c))),
          Done (ReqReserve c d lease now', ReservationReply (Inr (Reserved 1)))], ?W)"
    using assms(2,3) v0 v1 fields
    by (simp add: step_at_def reserve_def root_lost_def reserve_root_def read_def append_record_def bind_try_def
        tip_def tip_loop.simps [of J c 0] bound not_less)
  moreover have "fst (run plain (mark_pending J c 1 s t) ?W) = Inl (no_reservation_error c)" for s t
    by (simp add: mark_pending_def tip_or_error_def tip_def read_def bind_try_def)
  moreover have "fst (run plain (reserve J c d' lease' t) ?W) = Inl (orphaned_error c)" for d' lease' t
    using v1 by (simp add: reserve_def root_lost_def read_def bind_try_def)
  ultimately show ?thesis by blast
qed

theorem takeover_race_orphans_the_owner_witness:
  "\<exists>sched ps W. interleave plain sched
      (map (charge_prog derived_codec) [ReqReserve ''ch'' ''d'' CHARGE_RESERVATION_LEASE 0,
         ReqReserve ''ch'' ''d'' CHARGE_RESERVATION_LEASE 200], Map.empty) = (ps, W)
    \<and> finished (ps ! 1) = Some (ReqReserve ''ch'' ''d'' CHARGE_RESERVATION_LEASE 200, ReservationReply (Inr (Reserved 1)))
    \<and> fst (run plain (mark_pending derived_codec ''ch'' 1 ''sig'' 201) W) = Inl (no_reservation_error ''ch'')"
proof -
  have "cr_expires_at (fresh_record ''ch'' ''d'' CHARGE_RESERVATION_LEASE 0) \<le> 200" by code_simp
  from takeover_race_orphans_the_owner [OF derived_codec_ok _ this, of Map.empty] show ?thesis
    by (auto simp del: charge_prog.simps) (metis finished.simps(1) nth_Cons_0 nth_Cons_Suc One_nat_def)
qed

end
