(* ===== verification/Channel_State.thy ===== *)
theory Channel_State
  imports Kv_Store
begin

text \<open>
  \<open>ChannelState\<close> of \<open>core/store.rs\<close>: the persisted record of a payment channel, its
  deployment binding, its recorded grace period and its onchain observations.

  The record has the fields of the source.  \<open>extra\<close>, the JSON members a writer does not know,
  is a map; the binding and the observation live there.  A method that takes \<open>&mut self\<close>
  returns the new record beside its result.  The JSON form of a binding is made by \<open>serde\<close>
  and is a parameter (\<open>binding_codec\<close>).
\<close>

section \<open>Deliveries, setups and lifecycle\<close>

record pending_delivery =
  pd_delivery_id :: string
  pd_amount :: u64
  pd_sequence :: u64
  pd_expires_at :: i64
  pd_request_fingerprint :: "string option"
  pd_handler_succeeded :: bool

definition owed_at_close :: "pending_delivery \<Rightarrow> i64 \<Rightarrow> bool" where
  "owed_at_close p now \<longleftrightarrow>
     pd_request_fingerprint p = None \<or> pd_handler_succeeded p \<or> pd_expires_at p > now"

record cached_upstream_response =
  cur_status :: u16
  cur_content_type :: "string option"
  cur_headers :: "(string \<times> string) list"
  cur_body :: "u8 list"

record committed_delivery =
  cd_delivery_id :: string
  cd_amount :: u64
  cd_cumulative :: u64
  cd_voucher_signature :: string
  cd_request_fingerprint :: "string option"
  cd_settlement_response :: "json option"
  cd_retain_until :: i64
  cd_cached_response :: "cached_upstream_response option"

record pending_setup =
  ps_payer_signature :: string
  ps_deposit :: u64
  ps_opens_channel :: bool
  ps_expires_at :: i64

record channel_lifecycle =
  cl_owner :: string
  cl_close_after :: u64

record processed_use =
  pu_challenge_id :: string
  pu_idempotency_key :: string
  pu_cumulative :: u64
  pu_voucher_signature :: string
  pu_amount :: "u64 option"

definition CHANNEL_STATE_SCHEMA_VERSION :: u32 where
  "CHANNEL_STATE_SCHEMA_VERSION = 2"

section \<open>The channel record\<close>

record channel_state =
  cs_channel_id :: string
  cs_authorized_signer :: string
  cs_deposit :: u64
  cs_cumulative :: u64
  cs_sealed :: bool
  cs_highest_voucher_signature :: "string option"
  cs_highest_voucher_expires_at :: "i64 option"
  cs_close_requested_at :: "u64 option"
  cs_final_cumulative :: "u64 option"
  cs_open_slot :: "u64 option"
  cs_payer :: string
  cs_rent_payer :: string
  cs_opening_challenge_id :: string
  cs_authentication :: "string option"
  cs_voucher_signer :: string
  cs_idle_timeout_seconds :: "u32 option"
  cs_last_activity_at :: u64
  cs_spent_amount :: u64
  cs_settled_on_chain :: u64
  cs_distributed_on_chain :: u64
  cs_processed_uses :: "processed_use list"
  cs_processed_topup_signatures :: "string list"
  cs_next_delivery_sequence :: u64
  cs_pending_deliveries :: "pending_delivery list"
  cs_committed_deliveries :: "committed_delivery list"
  cs_pending_setup :: "pending_setup option"
  cs_onchain_checked_at :: u64
  cs_lifecycle :: "channel_lifecycle option"
  cs_schema_version :: u32
  cs_extra :: "string \<rightharpoonup> json"

section \<open>The deployment binding\<close>

record channel_binding =
  cb_scheme :: string
  cb_pay_to :: "string option"
  cb_network :: "string option"
  cb_program_id :: "string option"

definition differs :: "string option \<Rightarrow> string option \<Rightarrow> bool" where
  "differs recorded current =
     (case (recorded, current) of (Some a, Some b) \<Rightarrow> a \<noteq> b | _ \<Rightarrow> False)"

definition mismatch :: "channel_binding \<Rightarrow> channel_binding \<Rightarrow> string option" where
  "mismatch b current =
     (if cb_scheme b \<noteq> cb_scheme current then Some ''scheme''
      else if differs (cb_pay_to b) (cb_pay_to current) then Some ''payTo''
      else if differs (cb_network b) (cb_network current) then Some ''network''
      else if differs (cb_program_id b) (cb_program_id current) then Some ''programId''
      else None)"

definition is_complete :: "channel_binding \<Rightarrow> bool" where
  "is_complete b \<longleftrightarrow>
     cb_pay_to b \<noteq> None \<and> cb_network b \<noteq> None \<and> cb_program_id b \<noteq> None"

definition or_else :: "'a option \<Rightarrow> 'a option \<Rightarrow> 'a option" where
  "or_else x y = (case x of None \<Rightarrow> y | Some a \<Rightarrow> Some a)"

definition filled_from :: "channel_binding \<Rightarrow> channel_binding \<Rightarrow> channel_binding" where
  "filled_from b current =
     \<lparr>cb_scheme = cb_scheme b,
      cb_pay_to = or_else (cb_pay_to b) (cb_pay_to current),
      cb_network = or_else (cb_network b) (cb_network current),
      cb_program_id = or_else (cb_program_id b) (cb_program_id current)\<rparr>"

text \<open>\<open>serde_json::to_value\<close> and \<open>serde_json::from_value\<close> on a binding.\<close>

record binding_codec =
  binding_to_value :: "channel_binding \<Rightarrow> string + json"
  binding_from_value :: "json \<Rightarrow> string + channel_binding"

definition binding_codec_ok :: "binding_codec \<Rightarrow> bool" where
  "binding_codec_ok B \<longleftrightarrow>
     (\<forall>b. \<exists>v. binding_to_value B b = Inr v \<and> binding_from_value B v = Inr b)"

definition CHANNEL_BINDING_KEY :: string where
  "CHANNEL_BINDING_KEY = ''channelBinding''"

definition GRACE_PERIOD_KEY :: string where
  "GRACE_PERIOD_KEY = ''gracePeriod''"

definition ONCHAIN_OBSERVED_SLOT_KEY :: string where
  "ONCHAIN_OBSERVED_SLOT_KEY = ''onchainObservedSlot''"

definition ONCHAIN_OBSERVED_AT_KEY :: string where
  "ONCHAIN_OBSERVED_AT_KEY = ''onchainObservedAt''"

definition binding :: "binding_codec \<Rightarrow> channel_state \<Rightarrow> store_error + channel_binding option" where
  "binding B st =
     (case cs_extra st CHANNEL_BINDING_KEY of
        None \<Rightarrow> Inr None
      | Some value \<Rightarrow>
          (case binding_from_value B value of
             Inl e \<Rightarrow> Inl (Internal (''channel '' @ cs_channel_id st
                        @ '' has an unreadable binding: '' @ e))
           | Inr b \<Rightarrow> Inr (Some b)))"

definition set_binding :: "binding_codec \<Rightarrow> channel_binding \<Rightarrow> channel_state \<Rightarrow> channel_state" where
  "set_binding B b st =
     (case binding_to_value B b of
        Inl _ \<Rightarrow> st
      | Inr value \<Rightarrow> st\<lparr>cs_extra := (cs_extra st)(CHANNEL_BINDING_KEY \<mapsto> value)\<rparr>)"

definition adopt_binding :: "binding_codec \<Rightarrow> channel_binding \<Rightarrow> channel_state
    \<Rightarrow> (store_error + unit) \<times> channel_state" where
  "adopt_binding B current st =
     (case binding B st of
        Inl e \<Rightarrow> (Inl e, st)
      | Inr recorded \<Rightarrow>
          (let adopted = (case recorded of None \<Rightarrow> current | Some b \<Rightarrow> filled_from b current) in
           if recorded \<noteq> Some adopted then (Inr (), set_binding B adopted st) else (Inr (), st)))"

definition check_binding :: "binding_codec \<Rightarrow> channel_binding \<Rightarrow> channel_state
    \<Rightarrow> store_error + unit" where
  "check_binding B current st =
     try_bind (binding B st) (\<lambda>recorded.
       case recorded of
         Some b \<Rightarrow>
           (case mismatch b current of
              Some field \<Rightarrow> Inl (Internal (''channel '' @ cs_channel_id st
                @ '' belongs to another deployment ('' @ field @ '' differs)''))
            | None \<Rightarrow> Inr ())
       | None \<Rightarrow> Inr ())"

definition check_binding_complete :: "binding_codec \<Rightarrow> channel_binding \<Rightarrow> channel_state
    \<Rightarrow> store_error + unit" where
  "check_binding_complete B current st =
     try_bind (check_binding B current st) (\<lambda>_.
     try_bind (binding B st) (\<lambda>recorded.
       if (case recorded of Some b \<Rightarrow> b = current \<and> is_complete b | None \<Rightarrow> False) then Inr ()
       else Inl (Internal (''channel '' @ cs_channel_id st
              @ '' has no complete deployment binding''))))"

section \<open>The grace period\<close>

text \<open>\<open>serde_json::Value::as_u64\<close> and \<open>u64::into\<close>.\<close>

fun as_u64 :: "json \<Rightarrow> u64 option" where
  "as_u64 (JNumber n) = (if 0 \<le> n \<and> n < 2 ^ 64 then Some (word_of_int n) else None)"
| "as_u64 _ = None"

definition json_of_word :: "'a::len word \<Rightarrow> json" where
  "json_of_word w = JNumber (uint w)"

definition u32_try_from :: "u64 \<Rightarrow> u32 option" where
  "u32_try_from x = (if unat x < 2 ^ 32 then Some (ucast x) else None)"

definition grace_period :: "channel_state \<Rightarrow> u32 option" where
  "grace_period st =
     Option.bind (Option.bind (cs_extra st GRACE_PERIOD_KEY) as_u64) u32_try_from"

definition set_grace_period :: "u32 \<Rightarrow> channel_state \<Rightarrow> channel_state" where
  "set_grace_period g st = st\<lparr>cs_extra := (cs_extra st)(GRACE_PERIOD_KEY \<mapsto> json_of_word g)\<rparr>"

definition check_grace_period :: "u32 \<Rightarrow> channel_state \<Rightarrow> store_error + unit" where
  "check_grace_period withdraw_delay st =
     (case grace_period st of
        Some recorded \<Rightarrow>
          if recorded = withdraw_delay then Inr ()
          else Inl (Internal (''channel '' @ cs_channel_id st @ '' has a ''
                 @ show_nat (unat recorded) @ ''s grace period, not the ''
                 @ show_nat (unat withdraw_delay) @ ''s this server requires''))
      | None \<Rightarrow> Inl (Internal (''channel '' @ cs_channel_id st
                    @ '' has no recorded grace period'')))"

section \<open>Onchain observations\<close>

datatype observed_lifecycle = Open | Closing u64 | Terminal "u64 option"

definition u64_try_from_i64 :: "i64 \<Rightarrow> u64 option" where
  "u64_try_from_i64 x = (if 0 \<le> x \<and> x < 2 ^ 64 then Some (word_of_int x) else None)"

definition of_channel :: "u8 \<Rightarrow> i64 \<Rightarrow> u64 \<Rightarrow> observed_lifecycle" where
  "of_channel status closure_started_at now =
     (let started_at =
        (if closure_started_at \<noteq> 0 \<or> status \<noteq> 0
         then Some (max (unwrap_or (u64_try_from_i64 closure_started_at) now) 1) else None) in
      if (status = 0 \<or> status = 2) \<and> started_at \<noteq> None then Closing (the started_at)
      else if status = 0 \<and> started_at = None then Open
      else Terminal started_at)"

record onchain_observation =
  ob_slot :: "u64 option"
  ob_lifecycle :: observed_lifecycle

datatype observation_outcome = FreshObservation | Behind u64

definition onchain_observed_slot :: "channel_state \<Rightarrow> u64" where
  "onchain_observed_slot st =
     unwrap_or (Option.bind (cs_extra st ONCHAIN_OBSERVED_SLOT_KEY) as_u64) 0"

definition onchain_observed_at :: "channel_state \<Rightarrow> u64" where
  "onchain_observed_at st =
     unwrap_or (Option.bind (cs_extra st ONCHAIN_OBSERVED_AT_KEY) as_u64) 0"

definition request_close :: "u64 \<Rightarrow> channel_state \<Rightarrow> channel_state" where
  "request_close started_at st =
     st\<lparr>cs_close_requested_at := Some (unwrap_or (cs_close_requested_at st) started_at)\<rparr>"

definition apply_fences :: "observed_lifecycle \<Rightarrow> channel_state \<Rightarrow> channel_state" where
  "apply_fences lifecycle st =
     (case lifecycle of
        Open \<Rightarrow> st
      | Closing started_at \<Rightarrow> request_close started_at st
      | Terminal started_at \<Rightarrow>
          (case started_at of
             Some t \<Rightarrow> request_close t (st\<lparr>cs_sealed := True\<rparr>)
           | None \<Rightarrow> st\<lparr>cs_sealed := True\<rparr>))"

definition renew_snapshot :: "u64 option \<Rightarrow> u64 \<Rightarrow> channel_state \<Rightarrow> channel_state" where
  "renew_snapshot slot now st =
     (let extra = (case slot of
                     Some s \<Rightarrow> (cs_extra st)(ONCHAIN_OBSERVED_SLOT_KEY \<mapsto> json_of_word s)
                   | None \<Rightarrow> cs_extra st) in
      st\<lparr>cs_extra := extra(ONCHAIN_OBSERVED_AT_KEY \<mapsto> json_of_word now),
         cs_onchain_checked_at := now\<rparr>)"

definition record_onchain_observation :: "onchain_observation \<Rightarrow> u64 \<Rightarrow> channel_state
    \<Rightarrow> observation_outcome \<times> channel_state" where
  "record_onchain_observation observation now st =
     (let st' = apply_fences (ob_lifecycle observation) st;
          recorded = onchain_observed_slot st' in
      case ob_slot observation of
        Some slot \<Rightarrow>
          if slot < recorded then (Behind recorded, st')
          else (FreshObservation, renew_snapshot (Some slot) now st')
      | None \<Rightarrow> (FreshObservation, renew_snapshot None now st'))"

text \<open>A sequence of reads recorded one after the other, each at its own time.\<close>

definition observe_all :: "(onchain_observation \<times> u64) list \<Rightarrow> channel_state \<Rightarrow> channel_state" where
  "observe_all obs st = fold (\<lambda>(ob, now) s. snd (record_onchain_observation ob now s)) obs st"

fun close_time :: "observed_lifecycle \<Rightarrow> u64 option" where
  "close_time Open = None"
| "close_time (Closing t) = Some t"
| "close_time (Terminal t) = t"

fun is_terminal :: "observed_lifecycle \<Rightarrow> bool" where
  "is_terminal (Terminal t) = True"
| "is_terminal _ = False"

definition slot_or_zero :: "onchain_observation \<times> u64 \<Rightarrow> u64" where
  "slot_or_zero ob = unwrap_or (ob_slot (fst ob)) 0"

section \<open>Lemmas\<close>

lemma extra_keys_distinct [simp]:
  "CHANNEL_BINDING_KEY \<noteq> GRACE_PERIOD_KEY" "CHANNEL_BINDING_KEY \<noteq> ONCHAIN_OBSERVED_SLOT_KEY"
  "CHANNEL_BINDING_KEY \<noteq> ONCHAIN_OBSERVED_AT_KEY" "GRACE_PERIOD_KEY \<noteq> CHANNEL_BINDING_KEY"
  "ONCHAIN_OBSERVED_SLOT_KEY \<noteq> ONCHAIN_OBSERVED_AT_KEY"
  "ONCHAIN_OBSERVED_AT_KEY \<noteq> ONCHAIN_OBSERVED_SLOT_KEY"
  "ONCHAIN_OBSERVED_SLOT_KEY \<noteq> CHANNEL_BINDING_KEY"
  "ONCHAIN_OBSERVED_AT_KEY \<noteq> CHANNEL_BINDING_KEY"
  by (simp_all add: CHANNEL_BINDING_KEY_def GRACE_PERIOD_KEY_def ONCHAIN_OBSERVED_SLOT_KEY_def
      ONCHAIN_OBSERVED_AT_KEY_def)

lemma uint_u64_bound: "uint (w :: u64) < 2 ^ 64"
proof -
  have "uint w < 2 ^ LENGTH(64)"
    by (rule unsigned_less)
  then show ?thesis by simp
qed

lemma as_u64_json_of_word [simp]: "as_u64 (json_of_word (w :: u64)) = Some w"
  using uint_u64_bound [of w] by (simp add: json_of_word_def)

lemma binding_set_binding [simp]:
  assumes "binding_codec_ok B"
  shows "binding B (set_binding B b st) = Inr (Some b)"
proof -
  obtain v where "binding_to_value B b = Inr v" "binding_from_value B v = Inr b"
    using assms unfolding binding_codec_ok_def by blast
  then show ?thesis
    by (simp add: binding_def set_binding_def)
qed

lemma filled_from_mismatch: "mismatch (filled_from b current) current = mismatch b current"
  by (auto simp: mismatch_def filled_from_def differs_def or_else_def split: option.splits)

lemma filled_from_complete:
  assumes "is_complete current" "mismatch b current = None"
  shows "filled_from b current = current"
  using assms
  by (cases b; cases current)
    (auto simp: mismatch_def filled_from_def differs_def or_else_def is_complete_def
      split: option.splits if_splits)

lemma mismatch_refl [simp]: "mismatch b b = None"
  by (simp add: mismatch_def differs_def split: option.splits)

lemma filled_from_eq_mismatch: "filled_from b current = current \<Longrightarrow> mismatch b current = None"
  using filled_from_mismatch [of b current] by simp

lemma onchain_observed_slot_fences [simp]:
  "onchain_observed_slot (apply_fences l st) = onchain_observed_slot st"
  "onchain_observed_at (apply_fences l st) = onchain_observed_at st"
  by (auto simp: onchain_observed_slot_def onchain_observed_at_def apply_fences_def request_close_def
      split: observed_lifecycle.split option.split)

lemma renew_snapshot_fields [simp]:
  "onchain_observed_slot (renew_snapshot slot now st) = unwrap_or slot (onchain_observed_slot st)"
  "onchain_observed_at (renew_snapshot slot now st) = now"
  "cs_sealed (renew_snapshot slot now st) = cs_sealed st"
  "cs_close_requested_at (renew_snapshot slot now st) = cs_close_requested_at st"
  by (auto simp: onchain_observed_slot_def onchain_observed_at_def renew_snapshot_def Let_def
      split: option.split)

lemma apply_fences_fields [simp]:
  "cs_sealed (apply_fences l st) = (cs_sealed st \<or> is_terminal l)"
  "cs_close_requested_at (apply_fences l st) = or_else (cs_close_requested_at st) (close_time l)"
  by (auto simp: apply_fences_def request_close_def or_else_def unwrap_or_def
      split: observed_lifecycle.split option.split)

lemma or_else_assoc: "or_else (or_else x y) z = or_else x (or_else y z)"
  by (simp add: or_else_def split: option.split)

text \<open>One recorded read.\<close>

lemma record_observation_fields:
  assumes "record_onchain_observation ob now st = (outcome, st')"
  shows "cs_sealed st' = (cs_sealed st \<or> is_terminal (ob_lifecycle ob))"
    and "cs_close_requested_at st' = or_else (cs_close_requested_at st) (close_time (ob_lifecycle ob))"
    and "onchain_observed_slot st' = max (onchain_observed_slot st) (unwrap_or (ob_slot ob) 0)"
    and "outcome = Behind (onchain_observed_slot st)
           \<longleftrightarrow> unwrap_or (ob_slot ob) (onchain_observed_slot st) < onchain_observed_slot st"
    and "onchain_observed_at st' = (if outcome = FreshObservation then now else onchain_observed_at st)"
  using assms
  by (auto simp: record_onchain_observation_def Let_def max_def not_less split: option.splits if_splits)

lemma observe_all_simps [simp]:
  "observe_all [] st = st"
  "observe_all ((ob, now) # obs) st = observe_all obs (snd (record_onchain_observation ob now st))"
  by (simp_all add: observe_all_def)

section \<open>Properties\<close>

text \<open>
  Completing a record's deployment binding never moves a channel between deployments.
  After \<open>adopt_binding\<close> with a complete binding, the record passes the check that admits a
  charge exactly when, before it, nothing recorded disagreed with the binding; and a record
  that is admitted under two bindings is admitted under one only.
\<close>

theorem adopt_binding_admits_iff:
  assumes "binding_codec_ok B" "is_complete current"
  shows "(check_binding_complete B current (snd (adopt_binding B current st)) = Inr ())
      = (check_binding B current st = Inr ())
    \<and> (check_binding_complete B current st = Inr () \<and> check_binding_complete B other st = Inr ()
        \<longrightarrow> other = current)"
proof
  show "(check_binding_complete B current (snd (adopt_binding B current st)) = Inr ())
      = (check_binding B current st = Inr ())"
  proof (cases "binding B st")
    case (Inl e)
    then show ?thesis
      by (simp add: adopt_binding_def check_binding_def check_binding_complete_def)
  next
    case (Inr recorded)
    show ?thesis
    proof (cases recorded)
      case None
      with Inr assms show ?thesis
        by (simp add: adopt_binding_def check_binding_def check_binding_complete_def)
    next
      case (Some b)
      have "binding B (snd (adopt_binding B current st)) = Inr (Some (filled_from b current))"
        using Inr Some assms(1) by (simp add: adopt_binding_def Let_def)
      then have "(check_binding_complete B current (snd (adopt_binding B current st)) = Inr ())
          = (filled_from b current = current)"
        using assms(2)
        by (auto simp: check_binding_def check_binding_complete_def try_bind_def split: option.split)
      also have "\<dots> = (mismatch b current = None)"
        using filled_from_complete [OF assms(2)] filled_from_eq_mismatch by blast
      also have "\<dots> = (check_binding B current st = Inr ())"
        using Inr Some by (simp add: check_binding_def split: option.split)
      finally show ?thesis .
    qed
  qed
  show "check_binding_complete B current st = Inr () \<and> check_binding_complete B other st = Inr ()
        \<longrightarrow> other = current"
    by (auto simp: check_binding_complete_def try_bind_Inr_iff split: option.splits if_splits)
qed

definition value_binding_codec :: binding_codec where
  "value_binding_codec =
     \<lparr>binding_to_value = \<lambda>b. Inr (JArray (JString (cb_scheme b)
        # map (\<lambda>x. case x of None \<Rightarrow> JNull | Some s \<Rightarrow> JString s)
            [cb_pay_to b, cb_network b, cb_program_id b])),
      binding_from_value = \<lambda>v. case v of
          JArray (JString s # vs) \<Rightarrow>
            (let f = (\<lambda>i. case vs ! i of JString x \<Rightarrow> Some x | _ \<Rightarrow> None) in
             Inr \<lparr>cb_scheme = s, cb_pay_to = f 0, cb_network = f 1, cb_program_id = f 2\<rparr>)
        | _ \<Rightarrow> Inl ''invalid binding''\<rparr>"

lemma value_binding_codec_ok: "binding_codec_ok value_binding_codec"
  by (auto simp: binding_codec_ok_def value_binding_codec_def Let_def split: option.split)

definition sample_channel :: channel_state where
  "sample_channel =
     \<lparr>cs_channel_id = ''chan'', cs_authorized_signer = ''signer'', cs_deposit = 1000,
      cs_cumulative = 100, cs_sealed = False, cs_highest_voucher_signature = None,
      cs_highest_voucher_expires_at = None, cs_close_requested_at = None,
      cs_final_cumulative = None, cs_open_slot = Some 7, cs_payer = ''payer'',
      cs_rent_payer = ''payer'', cs_opening_challenge_id = ''ch'', cs_authentication = None,
      cs_voucher_signer = ''client'', cs_idle_timeout_seconds = None, cs_last_activity_at = 0,
      cs_spent_amount = 100, cs_settled_on_chain = 0, cs_distributed_on_chain = 0,
      cs_processed_uses = [], cs_processed_topup_signatures = [], cs_next_delivery_sequence = 0,
      cs_pending_deliveries = [], cs_committed_deliveries = [], cs_pending_setup = None,
      cs_onchain_checked_at = 0, cs_lifecycle = None, cs_schema_version = 2,
      cs_extra = Map.empty\<rparr>"

definition sample_binding :: channel_binding where
  "sample_binding =
     \<lparr>cb_scheme = ''batch-settlement'', cb_pay_to = Some ''merchant'', cb_network = Some ''mainnet'',
      cb_program_id = Some ''program''\<rparr>"

theorem adopt_binding_admits_iff_witness:
  "check_binding_complete value_binding_codec sample_binding
     (snd (adopt_binding value_binding_codec sample_binding sample_channel)) = Inr ()"
proof -
  have "check_binding value_binding_codec sample_binding sample_channel = Inr ()"
    by (simp add: check_binding_def binding_def sample_channel_def)
  moreover have "is_complete sample_binding"
    by (simp add: is_complete_def sample_binding_def)
  ultimately show ?thesis
    using adopt_binding_admits_iff [OF value_binding_codec_ok, of sample_binding sample_channel]
    by simp
qed

text \<open>
  Onchain reads only ever close a channel, whatever order they arrive in.  After any
  sequence of recorded reads the record is sealed exactly when it was before or some read
  showed a terminal channel; the close time is the first one known; the observed slot is the
  greatest slot seen; and a read behind that slot does not renew the admission window.
\<close>

theorem observations_fence:
  "cs_sealed (observe_all obs st)
      = (cs_sealed st \<or> list_ex (\<lambda>ob. is_terminal (ob_lifecycle (fst ob))) obs)
   \<and> cs_close_requested_at (observe_all obs st)
      = fold (\<lambda>ob t. or_else t (close_time (ob_lifecycle (fst ob)))) obs (cs_close_requested_at st)
   \<and> onchain_observed_slot (observe_all obs st)
      = fold max (map slot_or_zero obs) (onchain_observed_slot st)
   \<and> onchain_observed_at (observe_all obs st)
      = snd (fold (\<lambda>ob (slot, at).
           (max slot (slot_or_zero ob),
            if unwrap_or (ob_slot (fst ob)) slot < slot then at else snd ob)) obs
         (onchain_observed_slot st, onchain_observed_at st))"
proof (induction obs arbitrary: st)
  case (Cons a obs)
  obtain ob now where a: "a = (ob, now)" by force
  obtain outcome st' where rec: "record_onchain_observation ob now st = (outcome, st')" by force
  note f = record_observation_fields [OF rec]
  have "(outcome = FreshObservation)
      = (\<not> unwrap_or (ob_slot ob) (onchain_observed_slot st) < onchain_observed_slot st)"
    using rec by (auto simp: record_onchain_observation_def Let_def split: option.splits if_splits)
  with f Cons.IH [of st'] show ?case
    by (simp add: a rec slot_or_zero_def max.commute)
qed simp

text \<open>
  What a channel account's status and close time mean.  An account is open only with
  status 0 and no close time; with status 0 or 2 and otherwise it is closing; anything else is
  terminal.  A close time is never zero: a positive one is kept, a negative one becomes the
  current time, and a missing one (zero) becomes 1, whatever the current time is.
\<close>

theorem of_channel_classifies:
  "(of_channel status closure now = Open) = (status = 0 \<and> closure = 0)
   \<and> ((\<exists>t. of_channel status closure now = Closing t) = (status = 2 \<or> status = 0 \<and> closure \<noteq> 0))
   \<and> (\<forall>t. of_channel status closure now = Closing t
        \<or> of_channel status closure now = Terminal (Some t) \<longrightarrow>
        1 \<le> t \<and> (0 < closure \<and> closure < 2 ^ 64 \<longrightarrow> uint t = closure)
        \<and> (closure < 0 \<and> 1 \<le> now \<longrightarrow> t = now) \<and> (closure = 0 \<longrightarrow> t = 1))
   \<and> of_channel status closure now \<noteq> Terminal None"
proof -
  have pos: "1 \<le> max x (1 :: u64)" for x by simp
  have big: "uint (max (word_of_int closure) (1 :: u64)) = closure"
    if "0 < closure" "closure < 2 ^ 64"
  proof -
    have "uint (word_of_int closure :: u64) = closure"
      using that by (simp add: uint_word_of_int_eq take_bit_int_eq_self)
    then show ?thesis
      using that by (simp add: max_def word_le_def)
  qed
  show ?thesis
    using pos big by (auto simp: of_channel_def Let_def u64_try_from_i64_def max_def split: if_splits)
qed

theorem of_channel_classifies_witness:
  "of_channel 2 0 1700000000 = Closing 1"
proof -
  obtain t where t: "of_channel 2 0 1700000000 = Closing t"
    using of_channel_classifies [of 2 0 1700000000] by auto
  then have "t = 1"
    using of_channel_classifies [of 2 0 1700000000] by blast
  with t show ?thesis by simp
qed

end
