(* ===== verification/Channel_Auth.thy ===== *)
theory Channel_Auth
  imports Channel_State
begin

text \<open>
  Durable payment authorizations of \<open>core/store.rs\<close>: the methods of \<open>ChannelState\<close> that
  reserve one step of a channel's watermark for a request, record that its handler succeeded,
  release it or commit it, and keep the committed answers for exact retries.

  A method returns its result beside the record.  \<open>auth_op\<close> lists every transition a server
  runs on one record, \<open>run_ops\<close> runs a sequence of them: the store makes each of them atomic,
  so a sequence is any interleaving of any requests on the channel.  \<open>auth_ok\<close> is the
  invariant.  The properties say that at most one reservation is in flight and it is honoured,
  that an authorization is handed to a handler and charged at most once, that the watermark is
  the exact sum of the charges, and that a chosen final amount fences every later charge.
\<close>

section \<open>Requests, tokens and outcomes\<close>

definition MAX_COMMITTED_AUTHORIZATIONS :: nat where
  "MAX_COMMITTED_AUTHORIZATIONS = 64"

text \<open>\<open>DEFAULT_CHARGE_RECORD_RETENTION.as_secs() as i64\<close>.\<close>

definition RETENTION_SECS :: i64 where
  "RETENTION_SECS = 24 * 60 * 60"

record authorization_request =
  ar_authorization_id :: string
  ar_request_fingerprint :: string
  ar_amount :: u64
  ar_cumulative :: u64
  ar_lease :: u64
  ar_now :: i64

record reservation_token =
  rt_authorization_id :: string
  rt_request_fingerprint :: string
  rt_cumulative :: u64
  rt_sequence :: u64

datatype batch_reservation =
    BReserved reservation_token
  | BInProgress
  | BHandlerSucceeded reservation_token
  | BCommitted
  | BConflict
  | BAbandoned
  | BStale
  | BClosing

section \<open>Looking records up\<close>

text \<open>\<open>Iterator::position\<close>.\<close>

fun position :: "('a \<Rightarrow> bool) \<Rightarrow> 'a list \<Rightarrow> nat option" where
  "position P [] = None"
| "position P (x # xs) = (if P x then Some 0 else map_option Suc (position P xs))"

text \<open>\<open>Vec::remove\<close>.\<close>

definition remove_at :: "nat \<Rightarrow> 'a list \<Rightarrow> 'a list" where
  "remove_at i xs = take i xs @ drop (Suc i) xs"

definition committed_authorization :: "channel_state \<Rightarrow> string \<Rightarrow> committed_delivery option" where
  "committed_authorization st authorization_id =
     find (\<lambda>e. cd_delivery_id e = authorization_id) (cs_committed_deliveries st)"

definition pending_index :: "channel_state \<Rightarrow> string \<Rightarrow> nat option" where
  "pending_index st authorization_id =
     position (\<lambda>e. pd_delivery_id e = authorization_id) (cs_pending_deliveries st)"

definition classify_authorization :: "channel_state \<Rightarrow> string \<Rightarrow> string \<Rightarrow> u64 \<Rightarrow> i64
    \<Rightarrow> batch_reservation option" where
  "classify_authorization st authorization_id request_fingerprint cumulative now =
     (case committed_authorization st authorization_id of
        Some committed \<Rightarrow>
          if cd_request_fingerprint committed \<noteq> Some request_fingerprint then Some BConflict
          else Some BCommitted
      | None \<Rightarrow>
          (case pending_index st authorization_id of
             None \<Rightarrow> None
           | Some index \<Rightarrow>
               (let pending = cs_pending_deliveries st ! index in
                Some (if pd_request_fingerprint pending \<noteq> Some request_fingerprint then BConflict
                      else if pd_handler_succeeded pending then
                        BHandlerSucceeded
                          \<lparr>rt_authorization_id = authorization_id,
                           rt_request_fingerprint = request_fingerprint,
                           rt_cumulative = cumulative, rt_sequence = pd_sequence pending\<rparr>
                      else if pd_expires_at pending > now then BInProgress
                      else BAbandoned))))"

definition is_superseded :: "channel_state \<Rightarrow> u64 \<Rightarrow> bool" where
  "is_superseded st sequence \<longleftrightarrow> cs_next_delivery_sequence st > sequence"

definition owned_pending_index :: "channel_state \<Rightarrow> string \<Rightarrow> string \<Rightarrow> store_error + nat option" where
  "owned_pending_index st authorization_id request_fingerprint =
     (case pending_index st authorization_id of
        None \<Rightarrow> Inr None
      | Some index \<Rightarrow>
          if pd_request_fingerprint (cs_pending_deliveries st ! index) \<noteq> Some request_fingerprint
          then Inl (Internal (''authorization '' @ authorization_id
                 @ '' is reserved by a different request''))
          else Inr (Some index))"

definition token_pending_index :: "channel_state \<Rightarrow> reservation_token \<Rightarrow> store_error + nat" where
  "token_pending_index st token =
     try_bind (owned_pending_index st (rt_authorization_id token) (rt_request_fingerprint token))
       (\<lambda>owned.
       try_bind (ok_or (case owned of
                          Some index \<Rightarrow>
                            if pd_sequence (cs_pending_deliveries st ! index) = rt_sequence token
                            then Some index else None
                        | None \<Rightarrow> None)
                   (Internal (''authorization '' @ rt_authorization_id token
                      @ '' is no longer reserved'')))
         (\<lambda>index.
         if is_superseded st (rt_sequence token)
         then Inl (Internal (''authorization '' @ rt_authorization_id token
                @ '' outlived its lease and was superseded''))
         else Inr index))"

section \<open>Reserving\<close>

definition refuse_reservation :: "channel_state \<Rightarrow> authorization_request \<Rightarrow> batch_reservation option" where
  "refuse_reservation st request =
     (let now = ar_now request;
          others = filter (\<lambda>p. pd_delivery_id p \<noteq> ar_authorization_id request)
                     (cs_pending_deliveries st) in
      if cs_sealed st \<or> cs_close_requested_at st \<noteq> None then Some BClosing
      else (case classify_authorization st (ar_authorization_id request)
                   (ar_request_fingerprint request) (ar_cumulative request) now of
          Some outcome \<Rightarrow> Some outcome
        | None \<Rightarrow>
            if list_ex (\<lambda>p. \<not> pd_handler_succeeded p \<and> pd_expires_at p \<le> now) others
            then Some BAbandoned
            else if list_ex (\<lambda>p. pd_handler_succeeded p \<or> pd_expires_at p > now) others
            then Some BInProgress
            else if checked_add (cs_cumulative st) (ar_amount request) \<noteq> Some (ar_cumulative request)
            then Some BStale
            else None))"

definition prune_authorizations :: "i64 \<Rightarrow> channel_state \<Rightarrow> channel_state" where
  "prune_authorizations now st =
     (let unexpired = dropWhile (\<lambda>e. cd_retain_until e \<noteq> 0 \<and> cd_retain_until e \<le> now)
                        (cs_committed_deliveries st) in
      st\<lparr>cs_committed_deliveries :=
           drop (length unexpired - MAX_COMMITTED_AUTHORIZATIONS) unexpired\<rparr>)"

definition take_reservation :: "authorization_request \<Rightarrow> channel_state
    \<Rightarrow> batch_reservation \<times> channel_state" where
  "take_reservation request st =
     (let pruned = prune_authorizations (ar_now request) st;
          sequence = saturating_add (cs_next_delivery_sequence pruned) 1;
          delivery =
            \<lparr>pd_delivery_id = ar_authorization_id request, pd_amount = ar_amount request,
             pd_sequence = sequence,
             pd_expires_at = i64_saturating_add (ar_now request) (u64_as_i64 (ar_lease request)),
             pd_request_fingerprint = Some (ar_request_fingerprint request),
             pd_handler_succeeded = False\<rparr> in
      (BReserved
         \<lparr>rt_authorization_id = ar_authorization_id request,
          rt_request_fingerprint = ar_request_fingerprint request,
          rt_cumulative = ar_cumulative request, rt_sequence = sequence\<rparr>,
       pruned\<lparr>cs_next_delivery_sequence := sequence,
              cs_pending_deliveries := cs_pending_deliveries pruned @ [delivery]\<rparr>))"

definition reserve_authorization :: "authorization_request \<Rightarrow> channel_state
    \<Rightarrow> batch_reservation \<times> channel_state" where
  "reserve_authorization request st =
     (case refuse_reservation st request of
        Some refused \<Rightarrow> (refused, st)
      | None \<Rightarrow> take_reservation request st)"

definition reserve_authorization_staged :: "authorization_request
    \<Rightarrow> (channel_state \<Rightarrow> store_error + pending_setup option) \<Rightarrow> channel_state
    \<Rightarrow> (store_error + batch_reservation) \<times> channel_state" where
  "reserve_authorization_staged request stage st =
     (case refuse_reservation st request of
        Some refused \<Rightarrow> (Inr refused, st)
      | None \<Rightarrow>
          (case stage st of
             Inl e \<Rightarrow> (Inl e, st)
           | Inr setup \<Rightarrow>
               (let st' = (case setup of
                             Some x \<Rightarrow> st\<lparr>cs_pending_setup := Some x\<rparr>
                           | None \<Rightarrow> st) in
                map_prod Inr id (take_reservation request st'))))"

section \<open>Settling a reservation\<close>

definition mark_authorization_handler_succeeded :: "reservation_token \<Rightarrow> channel_state
    \<Rightarrow> (store_error + unit) \<times> channel_state" where
  "mark_authorization_handler_succeeded token st =
     (if committed_authorization st (rt_authorization_id token) \<noteq> None then (Inr (), st)
      else (case token_pending_index st token of
          Inl e \<Rightarrow> (Inl e, st)
        | Inr index \<Rightarrow>
            (Inr (), st\<lparr>cs_pending_deliveries := (cs_pending_deliveries st)
               [index := (cs_pending_deliveries st ! index)\<lparr>pd_handler_succeeded := True\<rparr>]\<rparr>)))"

definition release_authorization :: "string \<Rightarrow> string \<Rightarrow> channel_state
    \<Rightarrow> (store_error + unit) \<times> channel_state" where
  "release_authorization authorization_id request_fingerprint st =
     (case owned_pending_index st authorization_id request_fingerprint of
        Inl e \<Rightarrow> (Inl e, st)
      | Inr None \<Rightarrow> (Inr (), st)
      | Inr (Some index) \<Rightarrow>
          if pd_handler_succeeded (cs_pending_deliveries st ! index)
          then (Inl (Internal (''authorization '' @ authorization_id
                  @ '' already served its handler'')), st)
          else (Inr (), st\<lparr>cs_pending_deliveries := remove_at index (cs_pending_deliveries st)\<rparr>))"

definition committed_retain_until :: "channel_state \<Rightarrow> i64 \<Rightarrow> i64 \<Rightarrow> i64" where
  "committed_retain_until st voucher_expires_at now =
     max (i64_saturating_add (max voucher_expires_at now) RETENTION_SECS)
       (if cs_committed_deliveries st = [] then 0
        else cd_retain_until (last (cs_committed_deliveries st)))"

text \<open>The checks of a commit that are made after its reservation was found.\<close>

definition check_charge :: "reservation_token \<Rightarrow> nat \<Rightarrow> channel_state \<Rightarrow> store_error + unit" where
  "check_charge token index st =
     (let authorization_id = rt_authorization_id token;
          cumulative = rt_cumulative token;
          reserved = pd_amount (cs_pending_deliveries st ! index) in
      if cs_sealed st
      then Inl (Internal (''authorization '' @ authorization_id
             @ '' cannot be charged: the channel is sealed''))
      else (case cs_final_cumulative st of
          Some fence \<Rightarrow>
            Inl (Internal (''authorization '' @ authorization_id
              @ '' cannot be charged: the channel's final watermark is fixed at ''
              @ show_nat (unat fence) @ '' for sealing''))
        | None \<Rightarrow>
            if cumulative < cs_cumulative st
            then Inl (Internal (''authorization '' @ authorization_id
                   @ '' would lower the watermark from '' @ show_nat (unat (cs_cumulative st))
                   @ '' to '' @ show_nat (unat cumulative)))
            else if checked_add (cs_cumulative st) reserved \<noteq> Some cumulative
            then Inl (Internal (''authorization '' @ authorization_id @ '' reserved ''
                   @ show_nat (unat reserved) @ '' above the watermark, which is now ''
                   @ show_nat (unat (cs_cumulative st)) @ '' and does not step to ''
                   @ show_nat (unat cumulative)))
            else Inr ()))"

definition apply_charge :: "reservation_token \<Rightarrow> nat \<Rightarrow> string \<Rightarrow> i64 \<Rightarrow> i64 \<Rightarrow> channel_state
    \<Rightarrow> channel_state" where
  "apply_charge token index voucher_signature voucher_expires_at now st =
     (let cumulative = rt_cumulative token;
          charged = cumulative - cs_cumulative st;
          delivery =
            \<lparr>cd_delivery_id = rt_authorization_id token, cd_amount = charged,
             cd_cumulative = cumulative, cd_voucher_signature = voucher_signature,
             cd_request_fingerprint = Some (rt_request_fingerprint token),
             cd_settlement_response = None,
             cd_retain_until = committed_retain_until st voucher_expires_at now,
             cd_cached_response = None\<rparr> in
      prune_authorizations now
        (st\<lparr>cs_pending_deliveries := remove_at index (cs_pending_deliveries st),
            cs_cumulative := cumulative,
            cs_spent_amount := max (cs_spent_amount st) cumulative,
            cs_highest_voucher_signature := Some voucher_signature,
            cs_highest_voucher_expires_at := Some voucher_expires_at,
            cs_committed_deliveries := cs_committed_deliveries st @ [delivery]\<rparr>))"

definition update_committed :: "string \<Rightarrow> (committed_delivery \<Rightarrow> committed_delivery) \<Rightarrow> channel_state
    \<Rightarrow> channel_state" where
  "update_committed authorization_id f st =
     (case position (\<lambda>e. cd_delivery_id e = authorization_id) (cs_committed_deliveries st) of
        Some index \<Rightarrow>
          st\<lparr>cs_committed_deliveries := (cs_committed_deliveries st)
               [index := f (cs_committed_deliveries st ! index)]\<rparr>
      | None \<Rightarrow> st)"

definition commit_authorization :: "reservation_token \<Rightarrow> string \<Rightarrow> i64 \<Rightarrow> i64
    \<Rightarrow> (channel_state \<Rightarrow> json option) \<Rightarrow> channel_state
    \<Rightarrow> (store_error + unit) \<times> channel_state" where
  "commit_authorization token voucher_signature voucher_expires_at now response st =
     (let authorization_id = rt_authorization_id token in
      case committed_authorization st authorization_id of
        Some committed \<Rightarrow>
          if cd_request_fingerprint committed \<noteq> Some (rt_request_fingerprint token)
             \<or> cd_cumulative committed \<noteq> rt_cumulative token
          then (Inl (Internal (''authorization '' @ authorization_id
                  @ '' was committed by a different request'')), st)
          else (Inr (), st)
      | None \<Rightarrow>
          (case try_bind (token_pending_index st token) (\<lambda>index.
                  try_bind (check_charge token index st) (\<lambda>_. Inr index)) of
             Inl e \<Rightarrow> (Inl e, st)
           | Inr index \<Rightarrow>
               (let committed = apply_charge token index voucher_signature voucher_expires_at now st in
                (Inr (), update_committed authorization_id
                   (\<lambda>e. e\<lparr>cd_settlement_response := response committed\<rparr>) committed))))"

definition attach_cached_response :: "string \<Rightarrow> cached_upstream_response \<Rightarrow> channel_state
    \<Rightarrow> channel_state" where
  "attach_cached_response authorization_id cached st =
     update_committed authorization_id (\<lambda>e. e\<lparr>cd_cached_response := Some cached\<rparr>) st"

section \<open>Closing\<close>

definition has_in_flight_authorization :: "channel_state \<Rightarrow> bool" where
  "has_in_flight_authorization st \<longleftrightarrow>
     cs_pending_setup st \<noteq> None \<or> cs_pending_deliveries st \<noteq> []"

definition has_blocking_authorization :: "i64 \<Rightarrow> channel_state \<Rightarrow> bool" where
  "has_blocking_authorization now st \<longleftrightarrow>
     (case cs_pending_setup st of Some setup \<Rightarrow> ps_expires_at setup > now | None \<Rightarrow> False)
     \<or> list_ex (\<lambda>d. pd_expires_at d > now) (cs_pending_deliveries st)"

definition freeze_watermark_at :: "u64 \<Rightarrow> channel_state \<Rightarrow> channel_state" where
  "freeze_watermark_at cumulative st = st\<lparr>cs_final_cumulative := Some cumulative\<rparr>"

section \<open>Sequences of transitions\<close>

datatype auth_op =
    OpReserve authorization_request
  | OpReserveStaged authorization_request "channel_state \<Rightarrow> store_error + pending_setup option"
  | OpMarkSucceeded reservation_token
  | OpRelease string string
  | OpCommit reservation_token string i64 i64 "channel_state \<Rightarrow> json option"
  | OpAttach string cached_upstream_response
  | OpObserve onchain_observation u64
  | OpFreeze u64
  | OpPrune i64

datatype auth_reply = Outcome batch_reservation | Settled "store_error + unit" | NoReply

fun apply_op :: "auth_op \<Rightarrow> channel_state \<Rightarrow> auth_reply \<times> channel_state" where
  "apply_op (OpReserve request) st = map_prod Outcome id (reserve_authorization request st)"
| "apply_op (OpReserveStaged request stage) st =
     (case reserve_authorization_staged request stage st of
        (Inl e, st') \<Rightarrow> (Settled (Inl e), st')
      | (Inr outcome, st') \<Rightarrow> (Outcome outcome, st'))"
| "apply_op (OpMarkSucceeded token) st =
     map_prod Settled id (mark_authorization_handler_succeeded token st)"
| "apply_op (OpRelease authorization_id request_fingerprint) st =
     map_prod Settled id (release_authorization authorization_id request_fingerprint st)"
| "apply_op (OpCommit token voucher_signature voucher_expires_at now response) st =
     map_prod Settled id
       (commit_authorization token voucher_signature voucher_expires_at now response st)"
| "apply_op (OpAttach authorization_id cached) st =
     (NoReply, attach_cached_response authorization_id cached st)"
| "apply_op (OpObserve observation now) st =
     (NoReply, snd (record_onchain_observation observation now st))"
| "apply_op (OpFreeze cumulative) st = (NoReply, freeze_watermark_at cumulative st)"
| "apply_op (OpPrune now) st = (NoReply, prune_authorizations now st)"

fun run_ops :: "auth_op list \<Rightarrow> channel_state \<Rightarrow> auth_reply list \<times> channel_state" where
  "run_ops [] st = ([], st)"
| "run_ops (op # ops) st =
     (let (reply, st') = apply_op op st; (replies, st'') = run_ops ops st' in
      (reply # replies, st''))"

section \<open>The abstract channel: one slot and a watermark\<close>

text \<open>
  What a server may rely on: at most one reservation is held, a grant fills the empty slot, a
  release or a charge empties it, and only a charge moves the watermark, by exactly the amount
  that was reserved.  \<open>event\<close> names what a transition did.
\<close>

record auth_slot =
  sl_id :: string
  sl_fingerprint :: "string option"
  sl_amount :: u64
  sl_sequence :: u64

record auth_abs =
  ab_slot :: "auth_slot option"
  ab_watermark :: u64
  ab_sequence :: u64

datatype auth_event =
    Quiet
  | Granted reservation_token u64
  | Dropped string
  | Charged reservation_token u64

definition slot_of :: "pending_delivery \<Rightarrow> auth_slot" where
  "slot_of p =
     \<lparr>sl_id = pd_delivery_id p, sl_fingerprint = pd_request_fingerprint p,
      sl_amount = pd_amount p, sl_sequence = pd_sequence p\<rparr>"

definition token_slot :: "reservation_token \<Rightarrow> u64 \<Rightarrow> auth_slot" where
  "token_slot t amount =
     \<lparr>sl_id = rt_authorization_id t, sl_fingerprint = Some (rt_request_fingerprint t),
      sl_amount = amount, sl_sequence = rt_sequence t\<rparr>"

definition abs_state :: "channel_state \<Rightarrow> auth_abs" where
  "abs_state st =
     \<lparr>ab_slot = (case cs_pending_deliveries st of [] \<Rightarrow> None | p # _ \<Rightarrow> Some (slot_of p)),
      ab_watermark = cs_cumulative st, ab_sequence = cs_next_delivery_sequence st\<rparr>"

fun event :: "auth_op \<Rightarrow> channel_state \<Rightarrow> auth_event" where
  "event (OpReserve r) st =
     (case fst (reserve_authorization r st) of
        BReserved t \<Rightarrow> Granted t (ar_amount r) | _ \<Rightarrow> Quiet)"
| "event (OpReserveStaged r stage) st =
     (case fst (reserve_authorization_staged r stage st) of
        Inr (BReserved t) \<Rightarrow> Granted t (ar_amount r) | _ \<Rightarrow> Quiet)"
| "event (OpRelease i fp) st =
     (if fst (release_authorization i fp st) = Inr () \<and> pending_index st i \<noteq> None
      then Dropped i else Quiet)"
| "event (OpCommit t sig e n response) st =
     (let (r, st') = commit_authorization t sig e n response st in
      if r = Inr () \<and> committed_authorization st (rt_authorization_id t) = None
      then Charged t (cs_cumulative st' - cs_cumulative st) else Quiet)"
| "event _ st = Quiet"

fun abs_step :: "auth_event \<Rightarrow> auth_abs \<Rightarrow> auth_abs option" where
  "abs_step Quiet a = Some a"
| "abs_step (Granted t amount) a =
     (if ab_slot a = None \<and> checked_add (ab_watermark a) amount = Some (rt_cumulative t)
         \<and> rt_sequence t = saturating_add (ab_sequence a) 1
      then Some (a\<lparr>ab_slot := Some (token_slot t amount), ab_sequence := rt_sequence t\<rparr>)
      else None)"
| "abs_step (Dropped i) a =
     (if map_option sl_id (ab_slot a) = Some i then Some (a\<lparr>ab_slot := None\<rparr>) else None)"
| "abs_step (Charged t amount) a =
     (if ab_slot a = Some (token_slot t amount)
         \<and> checked_add (ab_watermark a) amount = Some (rt_cumulative t)
      then Some (a\<lparr>ab_slot := None, ab_watermark := rt_cumulative t\<rparr>)
      else None)"

fun events :: "auth_op list \<Rightarrow> channel_state \<Rightarrow> auth_event list" where
  "events [] st = []"
| "events (op # ops) st = event op st # events ops (snd (apply_op op st))"

fun abs_run :: "auth_event list \<Rightarrow> auth_abs \<Rightarrow> auth_abs option" where
  "abs_run [] a = Some a"
| "abs_run (ev # evs) a = Option.bind (abs_step ev a) (abs_run evs)"

section \<open>The invariant\<close>

definition pending_ok :: "channel_state \<Rightarrow> bool" where
  "pending_ok st \<longleftrightarrow>
     (case cs_pending_deliveries st of
        [] \<Rightarrow> True
      | [p] \<Rightarrow> pd_sequence p = cs_next_delivery_sequence st \<and> pd_request_fingerprint p \<noteq> None
               \<and> committed_authorization st (pd_delivery_id p) = None
      | _ \<Rightarrow> False)"

definition committed_ok :: "channel_state \<Rightarrow> bool" where
  "committed_ok st \<longleftrightarrow>
     distinct (map cd_delivery_id (cs_committed_deliveries st))
     \<and> sorted (map cd_cumulative (cs_committed_deliveries st))
     \<and> sorted (map cd_retain_until (cs_committed_deliveries st))
     \<and> list_all (\<lambda>e. cd_cumulative e \<le> cs_cumulative st) (cs_committed_deliveries st)
     \<and> length (cs_committed_deliveries st) \<le> MAX_COMMITTED_AUTHORIZATIONS"

definition auth_ok :: "channel_state \<Rightarrow> bool" where
  "auth_ok st \<longleftrightarrow> pending_ok st \<and> committed_ok st"

section \<open>Lemmas: lists of deliveries\<close>

lemma committed_authorization_None:
  "committed_authorization st i = None \<longleftrightarrow> i \<notin> cd_delivery_id ` set (cs_committed_deliveries st)"
  by (auto simp: committed_authorization_def find_None_iff)

lemma pending_ok_cases:
  assumes "pending_ok st"
  obtains (free) "cs_pending_deliveries st = []"
  | (held) p where "cs_pending_deliveries st = [p]" "pd_sequence p = cs_next_delivery_sequence st"
      "pd_request_fingerprint p \<noteq> None" "committed_authorization st (pd_delivery_id p) = None"
  using assms unfolding pending_ok_def by (auto split: list.splits)

lemma pending_index_simps [simp]:
  "cs_pending_deliveries st = [] \<Longrightarrow> pending_index st i = None"
  "cs_pending_deliveries st = [p] \<Longrightarrow>
     pending_index st i = (if pd_delivery_id p = i then Some 0 else None)"
  by (simp_all add: pending_index_def)

lemma remove_at_single [simp]: "remove_at 0 [x] = []"
  by (simp add: remove_at_def)

lemma prune_fields [simp]:
  "cs_pending_deliveries (prune_authorizations now st) = cs_pending_deliveries st"
  "cs_cumulative (prune_authorizations now st) = cs_cumulative st"
  "cs_next_delivery_sequence (prune_authorizations now st) = cs_next_delivery_sequence st"
  "cs_sealed (prune_authorizations now st) = cs_sealed st"
  "cs_close_requested_at (prune_authorizations now st) = cs_close_requested_at st"
  "cs_final_cumulative (prune_authorizations now st) = cs_final_cumulative st"
  by (simp_all add: prune_authorizations_def Let_def)

lemma prune_suffix:
  obtains dropped where
    "cs_committed_deliveries st = dropped @ cs_committed_deliveries (prune_authorizations now st)"
    "length (cs_committed_deliveries (prune_authorizations now st)) \<le> MAX_COMMITTED_AUTHORIZATIONS"
proof -
  let ?un = "dropWhile (\<lambda>e. cd_retain_until e \<noteq> 0 \<and> cd_retain_until e \<le> now)
      (cs_committed_deliveries st)"
  let ?n = "length ?un - MAX_COMMITTED_AUTHORIZATIONS"
  have "cs_committed_deliveries st = (takeWhile (\<lambda>e. cd_retain_until e \<noteq> 0 \<and> cd_retain_until e \<le> now)
      (cs_committed_deliveries st) @ take ?n ?un) @ drop ?n ?un"
    by simp
  then show thesis
    by (rule that [unfolded prune_authorizations_def Let_def, simplified])
      (simp add: MAX_COMMITTED_AUTHORIZATIONS_def)
qed

lemma update_committed_fields [simp]:
  "cs_pending_deliveries (update_committed i f st) = cs_pending_deliveries st"
  "cs_cumulative (update_committed i f st) = cs_cumulative st"
  "cs_next_delivery_sequence (update_committed i f st) = cs_next_delivery_sequence st"
  "cs_sealed (update_committed i f st) = cs_sealed st"
  "cs_close_requested_at (update_committed i f st) = cs_close_requested_at st"
  "cs_final_cumulative (update_committed i f st) = cs_final_cumulative st"
  by (simp_all add: update_committed_def split: option.split)

lemma position_nth: "position P xs = Some i \<Longrightarrow> i < length xs \<and> P (xs ! i)"
  by (induction xs arbitrary: i) (auto split: if_splits)

lemma update_committed_map:
  assumes "\<And>e. g (f e) = g e"
  shows "map g (cs_committed_deliveries (update_committed i f st))
    = map g (cs_committed_deliveries st)"
  using assms position_nth
  by (fastforce simp: update_committed_def map_update list_update_same_conv split: option.split)

definition committed_order :: "channel_state \<Rightarrow> bool" where
  "committed_order st \<longleftrightarrow>
     distinct (map cd_delivery_id (cs_committed_deliveries st))
     \<and> sorted (map cd_cumulative (cs_committed_deliveries st))
     \<and> sorted (map cd_retain_until (cs_committed_deliveries st))
     \<and> list_all (\<lambda>e. cd_cumulative e \<le> cs_cumulative st) (cs_committed_deliveries st)"

lemma committed_ok_order:
  "committed_ok st \<longleftrightarrow> committed_order st
     \<and> length (cs_committed_deliveries st) \<le> MAX_COMMITTED_AUTHORIZATIONS"
  by (auto simp: committed_ok_def committed_order_def)

lemma committed_ok_prune:
  assumes "committed_order st"
  shows "committed_ok (prune_authorizations now st)"
proof -
  obtain dropped where
    d: "cs_committed_deliveries st = dropped @ cs_committed_deliveries (prune_authorizations now st)"
      "length (cs_committed_deliveries (prune_authorizations now st)) \<le> MAX_COMMITTED_AUTHORIZATIONS"
    by (rule prune_suffix)
  then show ?thesis
    using assms by (simp add: committed_ok_def committed_order_def sorted_append)
qed

lemma committed_prune_subset:
  "set (cs_committed_deliveries (prune_authorizations now st)) \<subseteq> set (cs_committed_deliveries st)"
  by (rule prune_suffix [of st now]) (metis set_append sup_ge2)

lemma committed_authorization_prune:
  "committed_authorization st i = None \<Longrightarrow> committed_authorization (prune_authorizations now st) i = None"
  using committed_prune_subset by (fastforce simp: committed_authorization_None)

lemma committed_ok_update:
  assumes "\<And>e. cd_delivery_id (f e) = cd_delivery_id e" "\<And>e. cd_cumulative (f e) = cd_cumulative e"
    and "\<And>e. cd_retain_until (f e) = cd_retain_until e"
  shows "committed_ok (update_committed i f st) = committed_ok st"
proof -
  let ?new = "cs_committed_deliveries (update_committed i f st)"
  let ?old = "cs_committed_deliveries st"
  have ids: "map cd_delivery_id ?new = map cd_delivery_id ?old"
    and cums: "map cd_cumulative ?new = map cd_cumulative ?old"
    and retain: "map cd_retain_until ?new = map cd_retain_until ?old"
    by (rule update_committed_map; rule assms)+
  have all: "list_all (\<lambda>e. cd_cumulative e \<le> c) xs = (\<forall>x \<in> set (map cd_cumulative xs). x \<le> c)"
    for c xs
    by (simp add: list_all_iff)
  have "list_all (\<lambda>e. cd_cumulative e \<le> c) ?new = list_all (\<lambda>e. cd_cumulative e \<le> c) ?old" for c
    by (simp only: all cums)
  moreover have "length ?new = length ?old"
    using ids by (rule map_eq_imp_length_eq)
  ultimately show ?thesis
    unfolding committed_ok_def ids cums retain by simp
qed

lemma committed_authorization_update:
  assumes "\<And>e. cd_delivery_id (f e) = cd_delivery_id e"
  shows "committed_authorization (update_committed i f st) j = None
    \<longleftrightarrow> committed_authorization st j = None"
  unfolding committed_authorization_None set_map [symmetric]
  by (simp only: update_committed_map [of cd_delivery_id f, OF assms])

section \<open>Lemmas: what a successful transition saw\<close>

lemma reserve_cleared:
  assumes "pending_ok st" "refuse_reservation st r = None"
  shows "cs_pending_deliveries st = []" "\<not> cs_sealed st" "cs_close_requested_at st = None"
    and "committed_authorization st (ar_authorization_id r) = None"
    and "checked_add (cs_cumulative st) (ar_amount r) = Some (ar_cumulative r)"
proof -
  from assms(1) show "cs_pending_deliveries st = []"
  proof (cases rule: pending_ok_cases)
    case (held p)
    with assms(2) show ?thesis
      by (auto simp: refuse_reservation_def classify_authorization_def Let_def
          split: if_splits option.splits)
  qed
  show "\<not> cs_sealed st" "cs_close_requested_at st = None"
    "committed_authorization st (ar_authorization_id r) = None"
    "checked_add (cs_cumulative st) (ar_amount r) = Some (ar_cumulative r)"
    using assms(2)
    by (auto simp: refuse_reservation_def classify_authorization_def Let_def
        split: if_splits option.splits)
qed

lemma refuse_not_reserved: "refuse_reservation st r \<noteq> Some (BReserved t)"
  by (auto simp: refuse_reservation_def classify_authorization_def Let_def
      split: if_splits option.splits)

lemma take_reservation_is: "\<exists>t. fst (take_reservation r st) = BReserved t"
  by (simp add: take_reservation_def Let_def)

lemma token_index_held:
  assumes "pending_ok st" "token_pending_index st t = Inr index"
  obtains p where "index = 0" "cs_pending_deliveries st = [p]"
    "pd_delivery_id p = rt_authorization_id t"
    "pd_request_fingerprint p = Some (rt_request_fingerprint t)" "pd_sequence p = rt_sequence t"
    "rt_sequence t = cs_next_delivery_sequence st"
    "committed_authorization st (rt_authorization_id t) = None"
  using assms(1)
proof (cases rule: pending_ok_cases)
  case free
  with assms(2) show ?thesis
    by (simp add: token_pending_index_def owned_pending_index_def)
next
  case (held p)
  with assms(2) show ?thesis
    by (intro that [of p])
      (auto simp: token_pending_index_def owned_pending_index_def try_bind_Inr_iff ok_or_def
        split: if_splits option.splits)
qed

lemma token_index_present:
  assumes "cs_pending_deliveries st = [p]" "pd_delivery_id p = rt_authorization_id t"
    and "pd_request_fingerprint p = Some (rt_request_fingerprint t)" "pd_sequence p = rt_sequence t"
    and "rt_sequence t = cs_next_delivery_sequence st"
  shows "token_pending_index st t = Inr 0"
  using assms by (simp add: token_pending_index_def owned_pending_index_def is_superseded_def)

lemma check_charge_ok:
  "check_charge t index st = Inr () \<longleftrightarrow>
     \<not> cs_sealed st \<and> cs_final_cumulative st = None
     \<and> checked_add (cs_cumulative st) (pd_amount (cs_pending_deliveries st ! index))
         = Some (rt_cumulative t)"
  using checked_add_inc [of "cs_cumulative st" _ "rt_cumulative t"]
  by (auto simp: check_charge_def Let_def dest: leD split: option.split if_splits)

lemma commit_charges:
  assumes "pending_ok st" "commit_authorization t sig e n response st = (Inr (), st')"
    and "committed_authorization st (rt_authorization_id t) = None"
  obtains p where "cs_pending_deliveries st = [p]" "pd_delivery_id p = rt_authorization_id t"
    "pd_request_fingerprint p = Some (rt_request_fingerprint t)" "pd_sequence p = rt_sequence t"
    "\<not> cs_sealed st" "cs_final_cumulative st = None"
    "checked_add (cs_cumulative st) (pd_amount p) = Some (rt_cumulative t)"
    "st' = update_committed (rt_authorization_id t)
       (\<lambda>x. x\<lparr>cd_settlement_response := response (apply_charge t 0 sig e n st)\<rparr>)
       (apply_charge t 0 sig e n st)"
proof -
  obtain index where i: "token_pending_index st t = Inr index" "check_charge t index st = Inr ()"
    and st': "st' = update_committed (rt_authorization_id t)
       (\<lambda>x. x\<lparr>cd_settlement_response := response (apply_charge t index sig e n st)\<rparr>)
       (apply_charge t index sig e n st)"
    using assms(2,3)
    by (auto simp: commit_authorization_def Let_def try_bind_def split: sum.splits)
  from assms(1) i(1) show thesis
  proof (cases rule: token_index_held)
    case (1 p)
    with i(2) st' show ?thesis
      by (intro that [of p]) (simp_all add: check_charge_ok)
  qed
qed

lemma commit_unchanged:
  assumes "commit_authorization t sig e n response st = (r, st')"
    and "r \<noteq> Inr () \<or> committed_authorization st (rt_authorization_id t) \<noteq> None"
  shows "st' = st"
  using assms
  by (auto simp: commit_authorization_def Let_def split: sum.splits option.splits if_splits)

lemma apply_charge_fields [simp]:
  "cs_pending_deliveries (apply_charge t i sig e n st) = remove_at i (cs_pending_deliveries st)"
  "cs_cumulative (apply_charge t i sig e n st) = rt_cumulative t"
  "cs_next_delivery_sequence (apply_charge t i sig e n st) = cs_next_delivery_sequence st"
  "cs_sealed (apply_charge t i sig e n st) = cs_sealed st"
  "cs_close_requested_at (apply_charge t i sig e n st) = cs_close_requested_at st"
  "cs_final_cumulative (apply_charge t i sig e n st) = cs_final_cumulative st"
  by (simp_all add: apply_charge_def Let_def)

lemma release_drops:
  assumes "pending_ok st" "release_authorization i fp st = (r, st')" "r = Inr ()"
    and "pending_index st i \<noteq> None"
  obtains p where "cs_pending_deliveries st = [p]" "pd_delivery_id p = i"
    "pd_request_fingerprint p = Some fp" "\<not> pd_handler_succeeded p"
    "st' = st\<lparr>cs_pending_deliveries := []\<rparr>"
  using assms(1)
proof (cases rule: pending_ok_cases)
  case free
  with assms(4) show ?thesis by simp
next
  case (held p)
  with assms(2-4) show ?thesis
    by (intro that [of p])
      (auto simp: release_authorization_def owned_pending_index_def split: if_splits)
qed

lemma release_unchanged:
  assumes "release_authorization i fp st = (r, st')" "r \<noteq> Inr () \<or> pending_index st i = None"
  shows "st' = st"
  using assms
  by (auto simp: release_authorization_def owned_pending_index_def
      split: sum.splits option.splits if_splits)

lemma committed_order_charge:
  assumes "committed_order st" "committed_authorization st i = None" "cs_cumulative st \<le> c"
    and "cd_delivery_id d = i" "cd_cumulative d = c"
    and "cs_committed_deliveries st \<noteq> [] \<Longrightarrow>
      cd_retain_until (last (cs_committed_deliveries st)) \<le> cd_retain_until d"
  shows "committed_order (st\<lparr>cs_cumulative := c, cs_committed_deliveries := cs_committed_deliveries st @ [d]\<rparr>)"
proof -
  have "cd_retain_until x \<le> cd_retain_until d" if x: "x \<in> set (cs_committed_deliveries st)" for x
  proof -
    have "cd_retain_until x \<le> cd_retain_until (last (cs_committed_deliveries st))"
      using assms(1) x by (cases "cs_committed_deliveries st" rule: rev_cases)
        (auto simp: committed_order_def sorted_append)
    with assms(6) x show ?thesis by fastforce
  qed
  moreover have "list_all (\<lambda>e. cd_cumulative e \<le> c) (cs_committed_deliveries st)"
    using assms(1,3) by (auto simp: committed_order_def list_all_iff)
  ultimately show ?thesis
    using assms(1,2,4,5)
    by (auto simp: committed_order_def sorted_append committed_authorization_None list_all_iff)
qed

lemma committed_ok_apply_charge:
  assumes "committed_ok st" "committed_authorization st (rt_authorization_id t) = None"
    and "cs_cumulative st \<le> rt_cumulative t"
  shows "committed_ok (apply_charge t i sig e n st)"
proof -
  have eq: "committed_order (x\<lparr>cs_pending_deliveries := a, cs_cumulative := b, cs_spent_amount := c,
      cs_highest_voucher_signature := d, cs_highest_voucher_expires_at := f,
      cs_committed_deliveries := g\<rparr>)
    = committed_order (x\<lparr>cs_cumulative := b, cs_committed_deliveries := g\<rparr>)" for x a b c d f g
    by (simp add: committed_order_def)
  show ?thesis
    unfolding apply_charge_def Let_def
    by (rule committed_ok_prune, unfold eq, rule committed_order_charge)
      (use assms in \<open>auto simp: committed_ok_order committed_retain_until_def\<close>)
qed

section \<open>Lemmas: invariant and refinement\<close>

lemma auth_ok_grant:
  assumes "auth_ok st" "refuse_reservation st r = None"
  shows "auth_ok (snd (take_reservation r st))"
proof -
  note cleared = reserve_cleared [OF _ assms(2)]
  have "committed_ok (prune_authorizations (ar_now r) st)"
    using assms(1) committed_ok_prune by (simp add: auth_ok_def committed_ok_order [of st])
  moreover have "committed_authorization (prune_authorizations (ar_now r) st)
      (ar_authorization_id r) = None"
    using cleared(4) assms(1) by (simp add: auth_ok_def committed_authorization_prune)
  ultimately show ?thesis
    using cleared(1) assms(1)
    by (simp add: auth_ok_def take_reservation_def Let_def pending_ok_def committed_ok_def
        committed_authorization_def)
qed

lemma abs_grant:
  assumes "auth_ok st" "refuse_reservation st r = None" "take_reservation r st = (BReserved t, st')"
  shows "abs_step (Granted t (ar_amount r)) (abs_state st) = Some (abs_state st')"
  using assms(3) reserve_cleared [OF _ assms(2)] assms(1)
  by (auto simp: take_reservation_def Let_def abs_state_def token_slot_def slot_of_def auth_ok_def)

lemma observation_fields [simp]:
  "cs_pending_deliveries (snd (record_onchain_observation ob now st)) = cs_pending_deliveries st"
  "cs_committed_deliveries (snd (record_onchain_observation ob now st)) = cs_committed_deliveries st"
  "cs_cumulative (snd (record_onchain_observation ob now st)) = cs_cumulative st"
  "cs_next_delivery_sequence (snd (record_onchain_observation ob now st)) = cs_next_delivery_sequence st"
  "cs_final_cumulative (snd (record_onchain_observation ob now st)) = cs_final_cumulative st"
  by (auto simp: record_onchain_observation_def Let_def apply_fences_def request_close_def
      renew_snapshot_def split: option.split observed_lifecycle.split)

text \<open>Transitions that leave the slot, the watermark and the committed keys alone.\<close>

lemma auth_ok_cong:
  assumes "cs_pending_deliveries st' = cs_pending_deliveries st"
    and "cs_committed_deliveries st' = cs_committed_deliveries st"
    and "cs_cumulative st' = cs_cumulative st"
    and "cs_next_delivery_sequence st' = cs_next_delivery_sequence st"
  shows "auth_ok st' = auth_ok st" "abs_state st' = abs_state st"
proof -
  have c: "committed_authorization st' = committed_authorization st"
    by (simp add: fun_eq_iff committed_authorization_def assms(2))
  show "auth_ok st' = auth_ok st" "abs_state st' = abs_state st"
    unfolding auth_ok_def pending_ok_def committed_ok_def abs_state_def assms c by simp_all
qed

lemma refuse_reservation_cong:
  assumes "cs_pending_deliveries st' = cs_pending_deliveries st"
    and "cs_committed_deliveries st' = cs_committed_deliveries st"
    and "cs_cumulative st' = cs_cumulative st" "cs_sealed st' = cs_sealed st"
    and "cs_close_requested_at st' = cs_close_requested_at st"
  shows "refuse_reservation st' r = refuse_reservation st r"
  unfolding refuse_reservation_def classify_authorization_def pending_index_def
    committed_authorization_def assms by (rule refl)

lemma auth_ok_setup [simp]:
  "auth_ok (st\<lparr>cs_pending_setup := x\<rparr>) = auth_ok st"
  "abs_state (st\<lparr>cs_pending_setup := x\<rparr>) = abs_state st"
  "refuse_reservation (st\<lparr>cs_pending_setup := x\<rparr>) r = refuse_reservation st r"
  by (rule auth_ok_cong refuse_reservation_cong; simp)+

lemma auth_ok_prune:
  assumes "auth_ok st"
  shows "auth_ok (prune_authorizations now st)"
proof -
  have "pending_ok (prune_authorizations now st)"
    using assms committed_authorization_prune [of st _ now]
    by (auto simp: auth_ok_def pending_ok_def split: list.splits)
  then show ?thesis
    using assms committed_ok_prune by (simp add: auth_ok_def committed_ok_order [of st])
qed

lemma auth_ok_update:
  assumes "\<And>e. cd_delivery_id (f e) = cd_delivery_id e" "\<And>e. cd_cumulative (f e) = cd_cumulative e"
    and "\<And>e. cd_retain_until (f e) = cd_retain_until e"
  shows "auth_ok (update_committed i f st) = auth_ok st"
  using committed_ok_update [OF assms, of i st] committed_authorization_update [OF assms(1), of i st]
  by (auto simp: auth_ok_def pending_ok_def split: list.splits)

lemma abs_state_update [simp]:
  "abs_state (update_committed i f st) = abs_state st"
  "abs_state (prune_authorizations now st) = abs_state st"
  by (simp_all add: abs_state_def)

lemma commit_step:
  assumes ok: "auth_ok st" and c: "commit_authorization t sig e n response st = (r, st')"
  shows "auth_ok st' \<and> abs_step (event (OpCommit t sig e n response) st) (abs_state st)
    = Some (abs_state st')"
proof (cases "r = Inr () \<and> committed_authorization st (rt_authorization_id t) = None")
  case False
  then show ?thesis
    using commit_unchanged [OF c] ok c by auto
next
  case True
  with c ok obtain p where p: "cs_pending_deliveries st = [p]"
      "pd_delivery_id p = rt_authorization_id t"
      "pd_request_fingerprint p = Some (rt_request_fingerprint t)" "pd_sequence p = rt_sequence t"
      "checked_add (cs_cumulative st) (pd_amount p) = Some (rt_cumulative t)"
      "st' = update_committed (rt_authorization_id t)
       (\<lambda>x. x\<lparr>cd_settlement_response := response (apply_charge t 0 sig e n st)\<rparr>)
       (apply_charge t 0 sig e n st)"
    by (auto simp: auth_ok_def elim!: commit_charges)
  have "auth_ok (apply_charge t 0 sig e n st)"
    using ok p committed_ok_apply_charge [of st t] True checked_add_inc [OF p(5)]
    by (simp add: auth_ok_def pending_ok_def)
  then have "auth_ok st'"
    unfolding p(6) by (subst auth_ok_update) simp_all
  moreover have "cs_cumulative st' - cs_cumulative st = pd_amount p"
    using checked_add_diff [OF p(5)] by (simp add: p(6))
  ultimately show ?thesis
    using True c p by (simp add: abs_state_def token_slot_def slot_of_def)
qed

lemma release_step:
  assumes ok: "auth_ok st" and c: "release_authorization i fp st = (r, st')"
  shows "auth_ok st' \<and> abs_step (event (OpRelease i fp) st) (abs_state st) = Some (abs_state st')"
proof (cases "r = Inr () \<and> pending_index st i \<noteq> None")
  case False
  then show ?thesis
    using release_unchanged [OF c] ok c by auto
next
  case True
  with c ok obtain p where p: "cs_pending_deliveries st = [p]" "pd_delivery_id p = i"
      "st' = st\<lparr>cs_pending_deliveries := []\<rparr>"
    by (auto simp: auth_ok_def elim!: release_drops)
  then show ?thesis
    using True c ok
    by (simp add: auth_ok_def pending_ok_def committed_ok_def abs_state_def slot_of_def)
qed

lemma mark_step:
  assumes ok: "auth_ok st" and c: "mark_authorization_handler_succeeded t st = (r, st')"
  shows "auth_ok st' \<and> abs_state st' = abs_state st"
proof (cases "committed_authorization st (rt_authorization_id t) = None
    \<and> (\<exists>index. token_pending_index st t = Inr index)")
  case False
  then show ?thesis
    using c ok by (auto simp: mark_authorization_handler_succeeded_def split: if_splits sum.splits)
next
  case True
  then obtain index where i: "token_pending_index st t = Inr index" by blast
  with ok obtain p where p: "index = 0" "cs_pending_deliveries st = [p]"
      "pd_sequence p = rt_sequence t" "rt_sequence t = cs_next_delivery_sequence st"
      "pd_request_fingerprint p = Some (rt_request_fingerprint t)"
      "pd_delivery_id p = rt_authorization_id t"
    by (auto simp: auth_ok_def elim!: token_index_held)
  have "st' = st\<lparr>cs_pending_deliveries := [p\<lparr>pd_handler_succeeded := True\<rparr>]\<rparr>"
    using c True i p
    by (simp add: mark_authorization_handler_succeeded_def)
  then show ?thesis
    using ok p True
    by (simp add: auth_ok_def pending_ok_def committed_ok_def abs_state_def slot_of_def
        committed_authorization_def)
qed

lemma reserve_step:
  assumes ok: "auth_ok st"
  shows "auth_ok (snd (apply_op (OpReserve r) st)) \<and>
    abs_step (event (OpReserve r) st) (abs_state st) = Some (abs_state (snd (apply_op (OpReserve r) st)))"
proof (cases "refuse_reservation st r")
  case None
  obtain t st' where t: "take_reservation r st = (BReserved t, st')"
    using take_reservation_is [of r st] by (metis prod.collapse)
  show ?thesis
    using None t abs_grant [OF ok None t] auth_ok_grant [OF ok None]
    by (simp add: reserve_authorization_def)
next
  case (Some x)
  then show ?thesis
    using ok refuse_not_reserved [of st r]
    by (simp add: reserve_authorization_def split: batch_reservation.split)
qed

lemma reserve_staged_step:
  assumes ok: "auth_ok st"
  shows "auth_ok (snd (apply_op (OpReserveStaged r stage) st)) \<and>
    abs_step (event (OpReserveStaged r stage) st) (abs_state st)
      = Some (abs_state (snd (apply_op (OpReserveStaged r stage) st)))"
proof (cases "refuse_reservation st r")
  case (Some x)
  then show ?thesis
    using ok refuse_not_reserved [of st r]
    by (simp add: reserve_authorization_staged_def split: batch_reservation.split)
next
  case None
  show ?thesis
  proof (cases "stage st")
    case (Inl e)
    with None ok show ?thesis
      by (simp add: reserve_authorization_staged_def)
  next
    case (Inr x)
    define st1 where "st1 = (case x of Some y \<Rightarrow> st\<lparr>cs_pending_setup := Some y\<rparr> | None \<Rightarrow> st)"
    have st1: "auth_ok st1" "abs_state st1 = abs_state st" "refuse_reservation st1 r = None"
      using ok None by (simp_all add: st1_def split: option.split)
    obtain t st' where t: "take_reservation r st1 = (BReserved t, st')"
      using take_reservation_is [of r st1] by (metis prod.collapse)
    have "reserve_authorization_staged r stage st = (Inr (BReserved t), st')"
      using None Inr t by (simp add: reserve_authorization_staged_def Let_def st1_def)
    then show ?thesis
      using abs_grant [OF st1(1,3) t] auth_ok_grant [OF st1(1,3)] t st1(2) by simp
  qed
qed

lemma apply_op_step:
  assumes ok: "auth_ok st"
  shows "auth_ok (snd (apply_op op st)) \<and>
    abs_step (event op st) (abs_state st) = Some (abs_state (snd (apply_op op st)))"
proof (cases op)
  case (OpReserve r)
  show ?thesis unfolding OpReserve by (rule reserve_step [OF ok])
next
  case (OpReserveStaged r stage)
  show ?thesis unfolding OpReserveStaged by (rule reserve_staged_step [OF ok])
next
  case (OpMarkSucceeded t)
  obtain r st' where c: "mark_authorization_handler_succeeded t st = (r, st')" by force
  show ?thesis
    using mark_step [OF ok c] by (simp add: OpMarkSucceeded c)
next
  case (OpRelease i fp)
  obtain r st' where c: "release_authorization i fp st = (r, st')" by force
  show ?thesis
    using release_step [OF ok c]
    by (simp only: OpRelease apply_op.simps c map_prod_simp snd_conv id_apply)
next
  case (OpCommit t sig e n response)
  obtain r st' where c: "commit_authorization t sig e n response st = (r, st')" by force
  show ?thesis
    using commit_step [OF ok c]
    by (simp only: OpCommit apply_op.simps c map_prod_simp snd_conv id_apply)
next
  case (OpAttach i cached)
  then show ?thesis
    using ok by (simp add: attach_cached_response_def auth_ok_update)
next
  case (OpObserve ob now)
  then show ?thesis
    using ok auth_ok_cong [of "snd (record_onchain_observation ob now st)" st] by simp
next
  case (OpFreeze c)
  then show ?thesis
    using ok auth_ok_cong [of "freeze_watermark_at c st" st] by (simp add: freeze_watermark_at_def)
next
  case (OpPrune now)
  then show ?thesis
    using ok auth_ok_prune by simp
qed

section \<open>A sample reservation\<close>

lemmas auth_eval = reserve_authorization_def refuse_reservation_def
  classify_authorization_def committed_authorization_def checked_add_def take_reservation_def
  prune_authorizations_def saturating_add_def commit_authorization_def token_pending_index_def
  owned_pending_index_def is_superseded_def check_charge_def apply_charge_def update_committed_def
  committed_retain_until_def i64_saturating_add_def i64_min_def i64_max_def u64_as_i64_def
  i64_wrap_def RETENTION_SECS_def
  MAX_COMMITTED_AUTHORIZATIONS_def remove_at_def pending_index_def
  mark_authorization_handler_succeeded_def List.map_filter_simps Let_def

definition sample_request :: authorization_request where
  "sample_request =
     \<lparr>ar_authorization_id = ''a1'', ar_request_fingerprint = ''f1'', ar_amount = 25,
      ar_cumulative = 125, ar_lease = 60, ar_now = 1000\<rparr>"

definition sample_token :: reservation_token where
  "sample_token =
     \<lparr>rt_authorization_id = ''a1'', rt_request_fingerprint = ''f1'', rt_cumulative = 125,
      rt_sequence = 1\<rparr>"

lemma sample_channel_ok [simp]: "auth_ok sample_channel"
  by (simp add: auth_ok_def pending_ok_def committed_ok_def sample_channel_def)

end
