(* ===== verification/Channel_Ledger.thy ===== *)
theory Channel_Ledger
  imports Channel_Auth
begin

text \<open>
  What any sequence of authorization transitions on one channel record guarantees.  Sequences
  of transitions refine sequences of steps of the one-slot machine; the guarantees are proved on
  that machine and carried to the record.
\<close>

section \<open>Counting grants and charges\<close>

fun reply_grants :: "string \<Rightarrow> auth_reply \<Rightarrow> bool" where
  "reply_grants i (Outcome (BReserved t)) \<longleftrightarrow> rt_authorization_id t = i"
| "reply_grants i _ \<longleftrightarrow> False"

fun is_grant :: "auth_reply \<Rightarrow> bool" where
  "is_grant (Outcome (BReserved t)) \<longleftrightarrow> True"
| "is_grant _ \<longleftrightarrow> False"

fun event_grants :: "string \<Rightarrow> auth_event \<Rightarrow> bool" where
  "event_grants i (Granted t amount) \<longleftrightarrow> rt_authorization_id t = i"
| "event_grants i _ \<longleftrightarrow> False"

fun charge_of :: "auth_event \<Rightarrow> (reservation_token \<times> u64) option" where
  "charge_of (Charged t amount) = Some (t, amount)"
| "charge_of _ = None"

definition charges :: "auth_op list \<Rightarrow> channel_state \<Rightarrow> (reservation_token \<times> u64) list" where
  "charges ops st = List.map_filter charge_of (events ops st)"

text \<open>
  The charges made, read from the records: for each commit that charged, its token, the amount that
  was reserved for its authorization, and the amount the record then reports as charged.
\<close>

definition reserved_for :: "reservation_token \<Rightarrow> channel_state \<Rightarrow> u64" where
  "reserved_for t st = (case find (\<lambda>p. pd_delivery_id p = rt_authorization_id t) (cs_pending_deliveries st) of
     Some p \<Rightarrow> pd_amount p | None \<Rightarrow> 0)"

fun charge_entry :: "auth_op \<Rightarrow> channel_state \<Rightarrow> (reservation_token \<times> u64 \<times> u64 option) list" where
  "charge_entry (OpCommit t sig e n response) st =
     (if fst (commit_authorization t sig e n response st) = Inr () \<and> committed_authorization st (rt_authorization_id t) = None
      then [(t, reserved_for t st, map_option cd_amount
          (committed_authorization (snd (commit_authorization t sig e n response st)) (rt_authorization_id t)))]
      else [])"
| "charge_entry _ st = []"

fun charge_log :: "auth_op list \<Rightarrow> channel_state \<Rightarrow> (reservation_token \<times> u64 \<times> u64 option) list" where
  "charge_log [] st = []"
| "charge_log (op # ops) st = charge_entry op st @ charge_log ops (snd (apply_op op st))"

fun asked :: "auth_op \<Rightarrow> authorization_request option" where
  "asked (OpReserve r) = Some r"
| "asked (OpReserveStaged r stage) = Some r"
| "asked _ = None"

text \<open>
  \<open>asks i c op\<close>: \<open>op\<close>, when it asks for authorization \<open>i\<close>, presents the voucher of
  cumulative \<open>c\<close> for a positive amount.  \<open>names i op\<close>: \<open>op\<close> releases or commits \<open>i\<close>.
\<close>

definition presents :: "string \<Rightarrow> u64 \<Rightarrow> authorization_request \<Rightarrow> bool" where
  "presents i c r \<longleftrightarrow> ar_authorization_id r \<noteq> i \<or> ar_cumulative r = c \<and> 0 < ar_amount r"

fun asks :: "string \<Rightarrow> u64 \<Rightarrow> auth_op \<Rightarrow> bool" where
  "asks i c (OpReserve r) \<longleftrightarrow> presents i c r"
| "asks i c (OpReserveStaged r stage) \<longleftrightarrow> presents i c r"
| "asks i c _ \<longleftrightarrow> True"

fun releases :: "string \<Rightarrow> auth_op \<Rightarrow> bool" where
  "releases i (OpRelease j fp) \<longleftrightarrow> j = i"
| "releases i _ \<longleftrightarrow> False"

fun commits :: "string \<Rightarrow> auth_op \<Rightarrow> bool" where
  "commits i (OpCommit t sig e n response) \<longleftrightarrow> rt_authorization_id t = i"
| "commits i _ \<longleftrightarrow> False"

section \<open>Lemmas: traces refine the one-slot machine\<close>

lemma run_ops_refines:
  assumes "auth_ok st"
  shows "auth_ok (snd (run_ops ops st)) \<and>
    abs_run (events ops st) (abs_state st) = Some (abs_state (snd (run_ops ops st)))"
  using assms
proof (induction ops arbitrary: st)
  case (Cons op ops)
  with apply_op_step [OF Cons.prems, of op] show ?case
    by (simp add: case_prod_beta Let_def)
qed simp

lemma event_reply:
  "event_grants i (event op st) \<longleftrightarrow> reply_grants i (fst (apply_op op st))"
  by (cases op) (auto simp: case_prod_beta Let_def split: batch_reservation.split sum.split)

lemma grants_replies:
  "length (filter (event_grants i) (events ops st))
    = length (filter (reply_grants i) (fst (run_ops ops st)))"
  by (induction ops arbitrary: st) (simp_all add: event_reply case_prod_beta Let_def)

lemma is_grant_iff: "is_grant reply \<longleftrightarrow> (\<exists>i. reply_grants i reply)"
  by (cases reply rule: is_grant.cases) auto

text \<open>What an event says about the request behind it.\<close>

lemma event_Granted:
  assumes "event op st = Granted t amount" "asks i c op" "rt_authorization_id t = i"
  shows "rt_cumulative t = c \<and> 0 < amount"
  using assms refuse_not_reserved
  by (cases op)
    (auto simp: presents_def reserve_authorization_def reserve_authorization_staged_def
      take_reservation_def Let_def case_prod_beta
      split: batch_reservation.splits sum.splits option.splits if_splits)

lemma event_Dropped: "event op st = Dropped i \<Longrightarrow> releases i op"
  by (cases op) (auto simp: Let_def case_prod_beta split: batch_reservation.splits sum.splits if_splits)

lemma event_Charged: "event op st = Charged t amount \<Longrightarrow> commits (rt_authorization_id t) op"
  by (cases op) (auto simp: Let_def case_prod_beta split: batch_reservation.splits sum.splits if_splits)

section \<open>Lemmas: the one-slot machine\<close>

lemma abs_run_watermark:
  assumes "abs_run evs a = Some a'"
  shows "unat (ab_watermark a') = unat (ab_watermark a)
    + sum_list (map (unat \<circ> snd) (List.map_filter charge_of evs))"
  using assms
proof (induction evs arbitrary: a)
  case (Cons ev evs)
  then obtain b where b: "abs_step ev a = Some b" "abs_run evs b = Some a'"
    by (auto simp: bind_eq_Some_conv)
  with Cons.IH [OF b(2)] show ?case
    by (cases ev) (auto simp: checked_add_Some_iff List.map_filter_simps split: if_splits)
qed (simp add: List.map_filter_simps)

definition slot_current :: "auth_abs \<Rightarrow> bool" where
  "slot_current a \<longleftrightarrow> (\<forall>s. ab_slot a = Some s \<longrightarrow> sl_sequence s = ab_sequence a)"

lemma slot_current_step: "abs_step ev a = Some b \<Longrightarrow> slot_current a \<Longrightarrow> slot_current b"
  by (cases ev) (auto simp: slot_current_def token_slot_def split: if_splits)

lemma saturating_inc:
  "unat (x :: u64) < 2 ^ 64 - 1 \<Longrightarrow> unat (saturating_add x 1) = unat x + 1"
  by (simp add: saturating_add_def unat_word_ariths)

lemma abs_run_sequences:
  assumes "abs_run evs a = Some a'" "slot_current a" "unat (ab_sequence a) + length evs < 2 ^ 64"
  shows "sorted_wrt (<) (map (rt_sequence \<circ> fst) (List.map_filter charge_of evs))
    \<and> list_all (\<lambda>(t, amount). (if ab_slot a = None then unat (ab_sequence a) < unat (rt_sequence t)
         else unat (ab_sequence a) \<le> unat (rt_sequence t))) (List.map_filter charge_of evs)"
  using assms
proof (induction evs arbitrary: a)
  case (Cons ev evs)
  then obtain b where b: "abs_step ev a = Some b" "abs_run evs b = Some a'"
    by (auto simp: bind_eq_Some_conv)
  have len: "unat (ab_sequence a) < 2 ^ 64 - 1"
    using Cons.prems(3) by simp
  have seq: "unat (ab_sequence b) \<le> unat (ab_sequence a) + 1"
    using b(1) saturating_inc [OF len] by (cases ev) (auto split: if_splits)
  then have "unat (ab_sequence b) + length evs < 2 ^ 64"
    using Cons.prems(3) by simp
  note IH = Cons.IH [OF b(2) slot_current_step [OF b(1) Cons.prems(2)] this]
  show ?case
  proof (cases ev)
    case Quiet
    with b(1) have "b = a" by simp
    from Quiet IH [unfolded this] show ?thesis by (simp add: List.map_filter_simps)
  next
    case (Granted t amount)
    with IH b(1) saturating_inc [OF len] show ?thesis
      by (auto simp: List.map_filter_simps list_all_iff split: if_splits)
  next
    case (Dropped i)
    with IH b(1) show ?thesis
      by (auto simp: List.map_filter_simps list_all_iff split: if_splits)
  next
    case (Charged t amount)
    then have "rt_sequence t = ab_sequence a" "ab_slot a \<noteq> None" "ab_slot b = None"
        "ab_sequence b = ab_sequence a"
      using b(1) Cons.prems(2) by (auto simp: slot_current_def token_slot_def split: if_splits)
    with IH Charged show ?thesis
      by (auto simp: List.map_filter_simps list_all_iff word_less_nat_alt)
  qed
qed (simp add: List.map_filter_simps)

lemma checked_add_pos: "checked_add a b = Some c \<Longrightarrow> 0 < b \<Longrightarrow> \<not> c \<le> (a :: u64)"
  by (simp add: checked_add_Some_iff word_le_nat_alt word_less_nat_alt)

text \<open>An authorization that is held, or behind the watermark, is not granted again.\<close>

definition used_up :: "string \<Rightarrow> u64 \<Rightarrow> auth_abs \<Rightarrow> bool" where
  "used_up i c a \<longleftrightarrow> c \<le> ab_watermark a
     \<or> (\<exists>s. ab_slot a = Some s \<and> sl_id s = i \<and> checked_add (ab_watermark a) (sl_amount s) = Some c)"

lemma used_up_granted:
  "abs_step (Granted t amount) a = Some b \<Longrightarrow> used_up (rt_authorization_id t) (rt_cumulative t) b"
  by (auto simp: used_up_def token_slot_def split: if_splits)

lemma used_up_step:
  assumes "abs_step ev a = Some b" "used_up i c a"
    and "\<And>t amount. ev = Granted t amount \<Longrightarrow> rt_authorization_id t = i \<Longrightarrow>
      rt_cumulative t = c \<and> 0 < amount"
    and "ev \<noteq> Dropped i"
  shows "used_up i c b \<and> \<not> event_grants i ev"
proof (cases ev)
  case (Granted t amount)
  with assms(1) have a: "ab_slot a = None" "checked_add (ab_watermark a) amount = Some (rt_cumulative t)"
      "ab_watermark b = ab_watermark a"
    by (auto split: if_splits)
  with assms(2) have "c \<le> ab_watermark a" by (simp add: used_up_def)
  with a assms(3) [OF Granted] checked_add_pos [OF a(2)] Granted show ?thesis
    by (auto simp: used_up_def)
next
  case (Charged t amount)
  with assms(1,2) show ?thesis
    by (auto simp: used_up_def token_slot_def dest: checked_add_inc split: if_splits)
qed (use assms in \<open>auto simp: used_up_def split: if_splits\<close>)

lemma used_up_run:
  assumes "auth_ok st" "used_up i c (abs_state st)"
    and "list_all (asks i c) ops" "\<not> list_ex (releases i) ops"
  shows "filter (event_grants i) (events ops st) = []"
  using assms
proof (induction ops arbitrary: st)
  case (Cons op ops)
  note step = apply_op_step [OF Cons.prems(1), of op]
  have "used_up i c (abs_state (snd (apply_op op st))) \<and> \<not> event_grants i (event op st)"
  proof (rule used_up_step [OF _ Cons.prems(2)])
    show "rt_cumulative t = c \<and> 0 < amount"
      if "event op st = Granted t amount" "rt_authorization_id t = i" for t amount
      using event_Granted [of op st t amount i c] that Cons.prems(3) by simp
    show "event op st \<noteq> Dropped i"
      using event_Dropped [of op st i] Cons.prems(4) by auto
  qed (use step in simp)
  then show ?case
    using Cons step by simp
qed simp

lemma granted_once:
  assumes "auth_ok st" "list_all (asks i c) ops" "\<not> list_ex (releases i) ops"
  shows "length (filter (event_grants i) (events ops st)) \<le> 1"
  using assms
proof (induction ops arbitrary: st)
  case (Cons op ops)
  note step = apply_op_step [OF Cons.prems(1), of op]
  show ?case
  proof (cases "event_grants i (event op st)")
    case False
    with Cons step show ?thesis by simp
  next
    case True
    then obtain t amount where ev: "event op st = Granted t amount" "rt_authorization_id t = i"
      by (cases "event op st") auto
    have "rt_cumulative t = c"
      using event_Granted [of op st t amount i c] ev Cons.prems(2) by simp
    then have "used_up i c (abs_state (snd (apply_op op st)))"
      using step ev used_up_granted by metis
    with Cons step True show ?thesis
      using used_up_run [of "snd (apply_op op st)" i c ops] by simp
  qed
qed simp

text \<open>A held slot stays as long as nobody releases or commits its authorization.\<close>

lemma held_run:
  assumes "auth_ok st" "ab_slot (abs_state st) = Some s"
    and "\<not> list_ex (releases (sl_id s)) ops" "\<not> list_ex (commits (sl_id s)) ops"
  shows "ab_slot (abs_state (snd (run_ops ops st))) = Some s
    \<and> ab_watermark (abs_state (snd (run_ops ops st))) = ab_watermark (abs_state st)
    \<and> ab_sequence (abs_state (snd (run_ops ops st))) = ab_sequence (abs_state st)
    \<and> \<not> list_ex is_grant (fst (run_ops ops st))"
  using assms
proof (induction ops arbitrary: st)
  case (Cons op ops)
  let ?st = "snd (apply_op op st)"
  note step = apply_op_step [OF Cons.prems(1), of op]
  have quiet: "event op st = Quiet"
    using step Cons.prems(2-4) event_Dropped [of op st "sl_id s"] event_Charged [of op st]
    by (cases "event op st") (auto simp: token_slot_def split: if_splits)
  then have "\<not> is_grant (fst (apply_op op st))"
    using event_reply [of _ op st] by (simp add: is_grant_iff)
  moreover have "abs_state ?st = abs_state st" "auth_ok ?st"
    using step quiet by auto
  ultimately show ?case
    using Cons.IH [of ?st] Cons.prems by (simp add: case_prod_beta Let_def)
qed simp

lemma held_pending:
  assumes "auth_ok st" "ab_slot (abs_state st) = Some (token_slot t amount)"
  obtains p where "cs_pending_deliveries st = [p]" "pd_delivery_id p = rt_authorization_id t"
    "pd_request_fingerprint p = Some (rt_request_fingerprint t)" "pd_sequence p = rt_sequence t"
    "pd_amount p = amount" "rt_sequence t = cs_next_delivery_sequence st"
    "committed_authorization st (rt_authorization_id t) = None"
proof -
  from assms(1) have "pending_ok st" by (simp add: auth_ok_def)
  then show thesis
  proof (cases rule: pending_ok_cases)
    case free
    with assms(2) show ?thesis by (simp add: abs_state_def)
  next
    case (held p)
    with assms(2) show ?thesis
      by (intro that [of p]) (auto simp: abs_state_def slot_of_def token_slot_def)
  qed
qed

lemma commit_held:
  assumes "auth_ok st" "ab_slot (abs_state st) = Some (token_slot t amount)"
    and "checked_add (cs_cumulative st) amount = Some (rt_cumulative t)"
  shows "if cs_sealed st \<or> cs_final_cumulative st \<noteq> None
    then (\<exists>e. commit_authorization t sig ex now response st = (Inl e, st))
    else fst (commit_authorization t sig ex now response st) = Inr ()
      \<and> cs_cumulative (snd (commit_authorization t sig ex now response st)) = rt_cumulative t
      \<and> cs_pending_deliveries (snd (commit_authorization t sig ex now response st)) = []"
  using assms(1,2)
proof (cases rule: held_pending)
  case (1 p)
  then have "token_pending_index st t = Inr 0"
    by (intro token_index_present)
  moreover have "(check_charge t 0 st = Inr ()) = (\<not> (cs_sealed st \<or> cs_final_cumulative st \<noteq> None))"
    using 1 assms(3) by (auto simp: check_charge_ok)
  ultimately show ?thesis
    using 1 by (cases "check_charge t 0 st") (auto simp: commit_authorization_def Let_def)
qed

section \<open>Lemmas: fences\<close>

lemma apply_op_fences:
  "cs_sealed st \<longrightarrow> cs_sealed (snd (apply_op op st))"
  "cs_final_cumulative st \<noteq> None \<longrightarrow> cs_final_cumulative (snd (apply_op op st)) \<noteq> None"
proof -
  have commit: "cs_sealed (snd (commit_authorization t sig e n resp st)) = cs_sealed st
      \<and> cs_final_cumulative (snd (commit_authorization t sig e n resp st)) = cs_final_cumulative st"
    for t sig e n resp
    by (auto simp: commit_authorization_def Let_def split: option.split sum.split)
  have release: "cs_sealed (snd (release_authorization i fp st)) = cs_sealed st
      \<and> cs_final_cumulative (snd (release_authorization i fp st)) = cs_final_cumulative st" for i fp
    by (auto simp: release_authorization_def split: option.split sum.split)
  have mark: "cs_sealed (snd (mark_authorization_handler_succeeded t st)) = cs_sealed st
      \<and> cs_final_cumulative (snd (mark_authorization_handler_succeeded t st)) = cs_final_cumulative st"
    for t
    by (auto simp: mark_authorization_handler_succeeded_def split: sum.split)
  have take: "cs_sealed (snd (take_reservation r x)) = cs_sealed x
      \<and> cs_final_cumulative (snd (take_reservation r x)) = cs_final_cumulative x" for r x
    by (simp add: take_reservation_def Let_def)
  have observe: "cs_sealed st \<Longrightarrow> cs_sealed (snd (record_onchain_observation ob now st))" for ob now
    by (metis record_observation_fields(1) prod.collapse)
  show "cs_sealed st \<longrightarrow> cs_sealed (snd (apply_op op st))"
    by (cases op) (simp_all add: commit release mark take observe reserve_authorization_def
        reserve_authorization_staged_def attach_cached_response_def freeze_watermark_at_def
        case_prod_beta Let_def split: option.split sum.split)
  show "cs_final_cumulative st \<noteq> None \<longrightarrow> cs_final_cumulative (snd (apply_op op st)) \<noteq> None"
    by (cases op) (simp_all add: commit release mark take reserve_authorization_def
        reserve_authorization_staged_def attach_cached_response_def freeze_watermark_at_def
        case_prod_beta Let_def split: option.split sum.split)
qed

lemma fenced_event:
  assumes "auth_ok st" "cs_sealed st \<or> cs_final_cumulative st \<noteq> None"
  shows "event op st \<noteq> Charged t amount"
proof
  assume ev: "event op st = Charged t amount"
  then obtain t' sig e n resp where op: "op = OpCommit t' sig e n resp"
    using event_Charged [OF ev] by (cases op) auto
  from ev have "fst (commit_authorization t' sig e n resp st) = Inr ()"
      "committed_authorization st (rt_authorization_id t') = None"
    by (auto simp: op Let_def case_prod_beta split: if_splits)
  then have c: "commit_authorization t' sig e n resp st
      = (Inr (), snd (commit_authorization t' sig e n resp st))"
    and free: "committed_authorization st (rt_authorization_id t') = None"
    by (metis prod.collapse, blast)
  have "pending_ok st"
    using assms(1) by (simp add: auth_ok_def)
  from commit_charges [OF this c free] have "\<not> cs_sealed st \<and> cs_final_cumulative st = None"
    by blast
  with assms(2) show False by simp
qed

lemma uncharged_watermark:
  "abs_step ev a = Some b \<Longrightarrow> charge_of ev = None \<Longrightarrow> ab_watermark b = ab_watermark a"
  by (cases ev) (auto split: if_splits)

lemma fenced_run:
  assumes "auth_ok st" "cs_sealed st \<or> cs_final_cumulative st \<noteq> None"
  shows "cs_cumulative (snd (run_ops ops st)) = cs_cumulative st
    \<and> (cs_sealed (snd (run_ops ops st)) \<or> cs_final_cumulative (snd (run_ops ops st)) \<noteq> None)"
  using assms
proof (induction ops arbitrary: st)
  case (Cons op ops)
  note step = apply_op_step [OF Cons.prems(1), of op]
  have "ab_watermark (abs_state (snd (apply_op op st))) = ab_watermark (abs_state st)"
    using step fenced_event [OF Cons.prems, of op] uncharged_watermark
    by (metis charge_of.elims)
  then have "cs_cumulative (snd (apply_op op st)) = cs_cumulative st"
    by (simp add: abs_state_def)
  then show ?case
    using Cons.IH [of "snd (apply_op op st)"] step Cons.prems(2) apply_op_fences [of st op]
    by (auto simp: case_prod_beta Let_def)
qed simp

lemma fenced_charges:
  assumes "auth_ok st" "cs_sealed st \<or> cs_final_cumulative st \<noteq> None"
  shows "charges ops st = []"
  using assms
proof (induction ops arbitrary: st)
  case (Cons op ops)
  have "charge_of (event op st) = None"
    using fenced_event [OF Cons.prems, of op] by (cases "event op st") auto
  moreover have "charges ops (snd (apply_op op st)) = []"
    using Cons.prems apply_op_step [OF Cons.prems(1), of op] apply_op_fences [of st op]
    by (intro Cons.IH) auto
  ultimately show ?case
    by (simp add: charges_def List.map_filter_simps)
qed (simp add: charges_def List.map_filter_simps)

section \<open>Lemmas: kept answers\<close>

lemma find_position: "find P xs = map_option (nth xs) (position P xs)"
  by (induction xs) (auto simp: option.map_comp comp_def split: option.split)

lemma find_update:
  assumes "position P xs = Some i" "P (f (xs ! i))"
  shows "find P (xs[i := f (xs ! i)]) = Some (f (xs ! i))"
  using assms by (induction xs arbitrary: i) (auto split: if_splits)

lemma committed_update_committed:
  assumes "committed_authorization st i = Some d" "cd_delivery_id (f d) = cd_delivery_id d"
  shows "committed_authorization (update_committed i f st) i = Some (f d)"
proof -
  obtain k where k: "position (\<lambda>e. cd_delivery_id e = i) (cs_committed_deliveries st) = Some k"
      "d = cs_committed_deliveries st ! k"
    using assms(1) by (auto simp: committed_authorization_def find_position)
  moreover have "cd_delivery_id d = i"
    using assms(1) by (auto simp: committed_authorization_def find_Some_iff)
  ultimately show ?thesis
    using assms(2) find_update [of "\<lambda>e. cd_delivery_id e = i" "cs_committed_deliveries st" k f]
    by (simp add: committed_authorization_def update_committed_def)
qed

lemma prune_keeps_last:
  assumes "cs_committed_deliveries st = xs @ [d]" "now < cd_retain_until d"
  obtains ys where "cs_committed_deliveries (prune_authorizations now st) = ys @ [d]"
    "set ys \<subseteq> set xs"
proof -
  let ?P = "\<lambda>e. cd_retain_until e \<noteq> 0 \<and> cd_retain_until e \<le> now"
  have "dropWhile ?P (xs @ [d]) = dropWhile ?P xs @ [d]"
    using assms(2) dropWhile_append3 [of ?P d xs "[]"] by auto
  then have "cs_committed_deliveries (prune_authorizations now st)
      = drop (Suc (length (dropWhile ?P xs)) - MAX_COMMITTED_AUTHORIZATIONS) (dropWhile ?P xs) @ [d]"
    by (simp add: prune_authorizations_def assms(1) MAX_COMMITTED_AUTHORIZATIONS_def)
  moreover have "set (drop k (dropWhile ?P xs)) \<subseteq> set xs" for k
    by (meson set_drop_subset set_dropWhileD subset_iff)
  ultimately show thesis by (rule that)
qed

lemma charge_recorded:
  assumes "committed_authorization st (rt_authorization_id t) = None" "now < i64_max"
  obtains d where "committed_authorization (apply_charge t 0 sig ex now st) (rt_authorization_id t) = Some d"
    "cd_request_fingerprint d = Some (rt_request_fingerprint t)" "cd_cumulative d = rt_cumulative t"
    "cd_voucher_signature d = sig" "cd_amount d = rt_cumulative t - cs_cumulative st"
proof -
  define d where "d = \<lparr>cd_delivery_id = rt_authorization_id t,
     cd_amount = rt_cumulative t - cs_cumulative st, cd_cumulative = rt_cumulative t,
     cd_voucher_signature = sig, cd_request_fingerprint = Some (rt_request_fingerprint t),
     cd_settlement_response = None, cd_retain_until = committed_retain_until st ex now,
     cd_cached_response = None\<rparr>"
  have "now < cd_retain_until d"
    using assms(2)
    by (auto simp: d_def committed_retain_until_def i64_saturating_add_def RETENTION_SECS_def)
  moreover have "\<exists>s. apply_charge t 0 sig ex now st = prune_authorizations now s
      \<and> cs_committed_deliveries s = cs_committed_deliveries st @ [d]"
    unfolding apply_charge_def Let_def d_def by (intro exI conjI, rule refl) simp
  then obtain s where s: "apply_charge t 0 sig ex now st = prune_authorizations now s"
      "cs_committed_deliveries s = cs_committed_deliveries st @ [d]"
    by blast
  ultimately obtain ys where "cs_committed_deliveries (apply_charge t 0 sig ex now st) = ys @ [d]"
      "set ys \<subseteq> set (cs_committed_deliveries st)"
    using prune_keeps_last [OF s(2)] by metis
  moreover have "rt_authorization_id t \<notin> cd_delivery_id ` set ys"
    using assms(1) calculation(2) by (auto simp: committed_authorization_None)
  then have "find (\<lambda>e. cd_delivery_id e = rt_authorization_id t) (ys @ [d]) = Some d"
    by (induction ys) (auto simp: d_def)
  ultimately have "committed_authorization (apply_charge t 0 sig ex now st) (rt_authorization_id t)
      = Some d"
    by (simp add: committed_authorization_def)
  then show thesis
    by (rule that) (simp_all add: d_def)
qed

lemma dropWhile_sorted_filter:
  fixes f :: "'a \<Rightarrow> 'b::linorder"
  assumes "sorted (map f xs)"
  shows "dropWhile (\<lambda>x. f x \<le> k) xs = filter (\<lambda>x. k < f x) xs"
  using assms
proof (induction xs)
  case (Cons x xs)
  show ?case
  proof (cases "f x \<le> k")
    case False
    with Cons.prems have "filter (\<lambda>x. k < f x) xs = xs"
      by (force intro!: filter_True)
    with False show ?thesis by simp
  qed (use Cons in auto)
qed simp

section \<open>Lemmas: charges as the record reports them\<close>

lemma charged_commit:
  assumes "auth_ok st" "fst (commit_authorization t sig e n response st) = Inr ()"
    and "committed_authorization st (rt_authorization_id t) = None"
  shows "event (OpCommit t sig e n response) st = Charged t (reserved_for t st)"
    and "n < i64_max \<Longrightarrow> map_option cd_amount (committed_authorization (snd (commit_authorization t sig e n response st))
      (rt_authorization_id t)) = Some (reserved_for t st)"
proof -
  let ?st = "snd (commit_authorization t sig e n response st)"
  have eq: "commit_authorization t sig e n response st = (Inr (), ?st)"
    using assms(2) by (metis prod.collapse)
  have "pending_ok st" using assms(1) by (simp add: auth_ok_def)
  from commit_charges [OF this eq assms(3)] obtain p where p: "cs_pending_deliveries st = [p]" "pd_delivery_id p = rt_authorization_id t"
      "checked_add (cs_cumulative st) (pd_amount p) = Some (rt_cumulative t)"
      "?st = update_committed (rt_authorization_id t)
        (\<lambda>x. x\<lparr>cd_settlement_response := response (apply_charge t 0 sig e n st)\<rparr>) (apply_charge t 0 sig e n st)"
    by blast
  then have amount: "reserved_for t st = pd_amount p" "rt_cumulative t - cs_cumulative st = pd_amount p"
    by (simp_all add: reserved_for_def) (auto simp: checked_add_def eq_diff_eq [symmetric] split: if_splits)
  have step: "event (OpCommit t sig e n response) st = Charged t (cs_cumulative ?st - cs_cumulative st)"
    using assms(2,3) by (simp add: case_prod_beta Let_def)
  then have "ab_slot (abs_state st) = Some (token_slot t (cs_cumulative ?st - cs_cumulative st))"
    using apply_op_step [OF assms(1), of "OpCommit t sig e n response"] by (auto split: if_splits)
  with p(1) amount(1) step show "event (OpCommit t sig e n response) st = Charged t (reserved_for t st)"
    by (simp add: abs_state_def slot_of_def token_slot_def)
  show "map_option cd_amount (committed_authorization ?st (rt_authorization_id t)) = Some (reserved_for t st)"
    if now: "n < i64_max"
  proof -
    obtain d where "committed_authorization (apply_charge t 0 sig e n st) (rt_authorization_id t) = Some d"
        "cd_amount d = rt_cumulative t - cs_cumulative st"
      using charge_recorded [OF assms(3) now] by metis
    with committed_update_committed [of _ _ d "\<lambda>x. x\<lparr>cd_settlement_response := response (apply_charge t 0 sig e n st)\<rparr>"]
    show ?thesis using amount p(4) by simp
  qed
qed

lemma charge_entry_event:
  assumes "auth_ok st"
  shows "map (\<lambda>(t, amount, recorded). (t, amount)) (charge_entry op st) = (case charge_of (event op st) of None \<Rightarrow> [] | Some x \<Rightarrow> [x])"
proof (cases op)
  case (OpCommit t sig e n response)
  show ?thesis
  proof (cases "fst (commit_authorization t sig e n response st) = Inr () \<and> committed_authorization st (rt_authorization_id t) = None")
    case True
    then show ?thesis using charged_commit(1) [OF assms, of t sig e n response] OpCommit by (simp del: event.simps)
  next
    case False
    then show ?thesis using OpCommit by (auto simp: case_prod_beta Let_def)
  qed
qed (auto simp: Let_def case_prod_beta split: batch_reservation.split sum.split)

lemma charge_log_charges:
  "auth_ok st \<Longrightarrow> map (\<lambda>(t, amount, recorded). (t, amount)) (charge_log ops st) = charges ops st"
proof (induction ops arbitrary: st)
  case (Cons op ops)
  have "auth_ok (snd (apply_op op st))" using apply_op_step [OF Cons.prems] by simp
  with Cons.IH charge_entry_event [OF Cons.prems, of op] show ?case
    by (simp add: charges_def List.map_filter_simps split: option.split)
qed (simp add: charges_def List.map_filter_simps)

lemma charge_log_recorded:
  assumes "auth_ok st" "\<forall>t sig e n response. OpCommit t sig e n response \<in> set ops \<longrightarrow> n < i64_max"
  shows "\<forall>(t, amount, recorded) \<in> set (charge_log ops st). recorded = Some amount"
  using assms
proof (induction ops arbitrary: st)
  case (Cons op ops)
  have "auth_ok (snd (apply_op op st))" using apply_op_step [OF Cons.prems(1)] by simp
  moreover have "\<forall>t sig e n response. OpCommit t sig e n response \<in> set ops \<longrightarrow> n < i64_max"
    using Cons.prems(2) by (meson list.set_intros(2))
  ultimately have "\<forall>(t, amount, recorded) \<in> set (charge_log ops (snd (apply_op op st))). recorded = Some amount"
    by (rule Cons.IH)
  moreover have "\<forall>(t, amount, recorded) \<in> set (charge_entry op st). recorded = Some amount"
    using Cons.prems(2) charged_commit(2) [OF Cons.prems(1)] by (cases op) auto
  ultimately show ?case by auto
qed simp

text \<open>A charge is for the amount of the grant it follows.\<close>

lemma abs_run_granted:
  assumes "abs_run evs a = Some a'" "Charged t n \<in> set evs"
  shows "(\<exists>t'. Granted t' n \<in> set evs \<and> rt_authorization_id t' = rt_authorization_id t)
    \<or> map_option (\<lambda>s. (sl_id s, sl_amount s)) (ab_slot a) = Some (rt_authorization_id t, n)"
  using assms
proof (induction evs arbitrary: a)
  case (Cons ev evs)
  then obtain b where b: "abs_step ev a = Some b" "abs_run evs b = Some a'"
    by (auto simp: bind_eq_Some_conv)
  show ?case
  proof (cases "ev = Charged t n")
    case True
    with b(1) show ?thesis by (auto simp: token_slot_def split: if_splits)
  next
    case False
    with Cons.prems(2) Cons.IH [OF b(2)] b(1) show ?thesis
      by (cases ev) (auto simp: token_slot_def split: if_splits, blast)
  qed
qed simp

lemma event_asked: "event op st = Granted t n \<Longrightarrow> \<exists>r. asked op = Some r \<and> ar_authorization_id r = rt_authorization_id t \<and> ar_amount r = n"
  using refuse_not_reserved
  by (cases op)
    (auto simp: reserve_authorization_def reserve_authorization_staged_def take_reservation_def Let_def case_prod_beta
      split: batch_reservation.splits sum.splits option.splits if_splits)

lemma granted_asked:
  "Granted t n \<in> set (events ops st) \<Longrightarrow>
   \<exists>r \<in> set (List.map_filter asked ops). ar_authorization_id r = rt_authorization_id t \<and> ar_amount r = n"
proof (induction ops arbitrary: st)
  case (Cons op ops)
  then show ?case
    using event_asked [of op st t n] by (auto simp: List.map_filter_simps split: option.split)
qed simp

lemma charge_log_asked:
  assumes "auth_ok st" "(t, amount, recorded) \<in> set (charge_log ops st)"
  shows "(\<exists>r \<in> set (List.map_filter asked ops). ar_authorization_id r = rt_authorization_id t \<and> ar_amount r = amount)
    \<or> (\<exists>p \<in> set (cs_pending_deliveries st). pd_delivery_id p = rt_authorization_id t \<and> pd_amount p = amount)"
proof -
  have "(t, amount) \<in> set (charges ops st)"
    using assms(2) unfolding charge_log_charges [OF assms(1), symmetric] by force
  then obtain ev where ev: "ev \<in> set (events ops st)" "charge_of ev = Some (t, amount)"
    by (auto simp: charges_def List.map_filter_def)
  from ev(2) have "ev = Charged t amount" by (cases ev) simp_all
  with ev(1) have "Charged t amount \<in> set (events ops st)" by simp
  from abs_run_granted [OF conjunct2 [OF run_ops_refines [OF assms(1)]] this] show ?thesis
    using granted_asked [of _ amount ops st]
    by (fastforce simp: abs_state_def slot_of_def split: list.splits)
qed

section \<open>Properties\<close>

text \<open>
  C9.  Every sequence of authorization transitions keeps the record well formed, and does to
  its reservation slot and watermark exactly what the one-slot machine does: at most one
  reservation is held, carrying the current sequence number; the committed records have
  distinct ids, non-decreasing amounts and expiries, lie below the watermark and are at most 64.
\<close>

theorem authorizations_refine_slot:
  assumes "auth_ok st"
  shows "auth_ok (snd (run_ops ops st))
    \<and> abs_run (events ops st) (abs_state st) = Some (abs_state (snd (run_ops ops st)))"
  using run_ops_refines [OF assms] .

theorem authorizations_refine_slot_witness:
  "auth_ok (snd (run_ops [OpReserve sample_request, OpMarkSucceeded sample_token,
     OpCommit sample_token ''sig'' 2000 1001 (\<lambda>_. None)] sample_channel))"
  using authorizations_refine_slot [OF sample_channel_ok,
      of "[OpReserve sample_request, OpMarkSucceeded sample_token,
        OpCommit sample_token ''sig'' 2000 1001 (\<lambda>_. None)]"]
  by (rule conjunct1)

text \<open>
  C10.  A handler runs at most once per authorization.  In any sequence of transitions that
  never releases authorization \<open>i\<close>, whose voucher has cumulative \<open>c\<close> and pays a positive
  amount, at most one presentation of \<open>i\<close> is told it owns the reservation, however many
  requests present it and whether or not the committed record is still kept.
\<close>

theorem handler_runs_at_most_once:
  assumes "auth_ok st" "list_all (asks i c) ops" "\<not> list_ex (releases i) ops"
  shows "length (filter (reply_grants i) (fst (run_ops ops st))) \<le> 1"
  using granted_once [OF assms] by (simp add: grants_replies)

theorem handler_runs_at_most_once_witness:
  "length (filter (reply_grants ''a1'') (fst (run_ops
     [OpReserve sample_request, OpReserve sample_request,
      OpCommit sample_token ''sig'' 2000 1001 (\<lambda>_. None), OpPrune 999999, OpReserve sample_request]
     sample_channel))) \<le> 1"
  by (rule handler_runs_at_most_once [where c = 125])
    (simp_all add: presents_def sample_request_def)

text \<open>
  C11.  The watermark is the exact sum of what was asked for.  Over any sequence of transitions, the
  watermark grows by the sum of the amounts reserved by the charges that were made, with no
  wrap-around, and no two charges are made under the same reservation (as long as the 64-bit sequence
  counter is not exhausted and the clock is below its last second).  Each charge is for the amount its
  authorization asked for when it was granted, in this sequence or before it, and the channel record
  reports that amount, and not more, as charged.
\<close>

theorem watermark_is_sum_of_charges:
  assumes "auth_ok st" "unat (cs_next_delivery_sequence st) + length ops < 2 ^ 64"
    and "\<forall>t sig e n response. OpCommit t sig e n response \<in> set ops \<longrightarrow> n < i64_max"
  shows "unat (cs_cumulative (snd (run_ops ops st)))
      = unat (cs_cumulative st) + sum_list (map (\<lambda>(t, amount, recorded). unat amount) (charge_log ops st))
    \<and> distinct (map (\<lambda>(t, amount, recorded). rt_sequence t) (charge_log ops st))
    \<and> list_all (\<lambda>(t, amount, recorded). recorded = Some amount
        \<and> ((\<exists>r \<in> set (List.map_filter asked ops). ar_authorization_id r = rt_authorization_id t \<and> ar_amount r = amount)
          \<or> (\<exists>p \<in> set (cs_pending_deliveries st). pd_delivery_id p = rt_authorization_id t \<and> pd_amount p = amount)))
      (charge_log ops st)"
proof -
  have run: "abs_run (events ops st) (abs_state st) = Some (abs_state (snd (run_ops ops st)))"
    using run_ops_refines [OF assms(1)] by simp
  have "slot_current (abs_state st)"
    using assms(1)
    by (auto simp: slot_current_def abs_state_def auth_ok_def pending_ok_def slot_of_def
        split: list.splits)
  moreover have "length (events ops st) = length ops"
    by (induction ops arbitrary: st) simp_all
  ultimately have "sorted_wrt (<) (map (rt_sequence \<circ> fst) (charges ops st))"
    using abs_run_sequences [OF run] assms(2) by (simp add: abs_state_def charges_def)
  then have seqs: "distinct (map (rt_sequence \<circ> fst) (charges ops st))" by (simp add: strict_sorted_iff)
  have total: "unat (cs_cumulative (snd (run_ops ops st)))
      = unat (cs_cumulative st) + sum_list (map (unat \<circ> snd) (charges ops st))"
    using abs_run_watermark [OF run] by (simp add: abs_state_def charges_def)
  have log: "map (\<lambda>(t, amount, recorded). (t, amount)) (charge_log ops st) = charges ops st"
    by (rule charge_log_charges [OF assms(1)])
  have entries: "list_all (\<lambda>(t, amount, recorded). recorded = Some amount
        \<and> ((\<exists>r \<in> set (List.map_filter asked ops). ar_authorization_id r = rt_authorization_id t \<and> ar_amount r = amount)
          \<or> (\<exists>p \<in> set (cs_pending_deliveries st). pd_delivery_id p = rt_authorization_id t \<and> pd_amount p = amount)))
      (charge_log ops st)"
    unfolding list_all_iff using charge_log_recorded [OF assms(1,3)] charge_log_asked [OF assms(1)] by blast
  from seqs total have "unat (cs_cumulative (snd (run_ops ops st)))
      = unat (cs_cumulative st) + sum_list (map (\<lambda>(t, amount, recorded). unat amount) (charge_log ops st))
    \<and> distinct (map (\<lambda>(t, amount, recorded). rt_sequence t) (charge_log ops st))"
    unfolding log [symmetric] by (simp add: comp_def case_prod_unfold)
  with entries show ?thesis by blast
qed

theorem watermark_is_sum_of_charges_witness:
  "unat (cs_cumulative (snd (run_ops
     [OpReserve sample_request, OpCommit sample_token ''sig'' 2000 1001 (\<lambda>_. None)] sample_channel)))
   = 125"
proof -
  let ?ops = "[OpReserve sample_request, OpCommit sample_token ''sig'' 2000 1001 (\<lambda>_. None)]"
  have "unat (cs_cumulative sample_channel) = 100" "unat (cs_next_delivery_sequence sample_channel) = 0"
    by (simp_all add: sample_channel_def)
  moreover have "map (fst \<circ> snd) (charge_log ?ops sample_channel) = [25]"
    by (simp add: auth_eval reserved_for_def sample_channel_def sample_request_def sample_token_def)
  then have "map (\<lambda>(t, amount, recorded). unat amount) (charge_log ?ops sample_channel) = [25]"
    by (cases "charge_log ?ops sample_channel") (auto simp: case_prod_beta)
  ultimately show ?thesis
    using watermark_is_sum_of_charges [OF sample_channel_ok, of ?ops]
    by (simp add: i64_max_def del: charge_log.simps run_ops.simps)
qed

text \<open>
  A granted reservation is honoured.  After a presentation was told it owns authorization
  \<open>i\<close>, let anything happen on the channel except a release or a commit of \<open>i\<close> itself:
  nobody else is granted a reservation and the watermark stays where it was; and the owner's
  commit then succeeds and moves the watermark to exactly the cumulative of its voucher, unless
  the channel was sealed or its final amount chosen in between, in which case it is refused and
  changes nothing.
\<close>

theorem reservation_honoured:
  assumes "auth_ok st" "reserve_authorization r st = (BReserved t, st1)"
    and "\<not> list_ex (releases (ar_authorization_id r)) ops"
    and "\<not> list_ex (commits (ar_authorization_id r)) ops"
    and "run_ops ops st1 = (replies, st2)"
    and "commit_authorization t sig ex now response st2 = (result, st3)"
  shows "\<not> list_ex is_grant replies \<and> cs_cumulative st2 = cs_cumulative st
    \<and> (if cs_sealed st2 \<or> cs_final_cumulative st2 \<noteq> None then result \<noteq> Inr () \<and> st3 = st2
       else result = Inr () \<and> cs_cumulative st3 = ar_cumulative r
         \<and> unat (ar_cumulative r) = unat (cs_cumulative st) + unat (ar_amount r)
         \<and> cs_pending_deliveries st3 = [])"
proof -
  have clear: "refuse_reservation st r = None" "take_reservation r st = (BReserved t, st1)"
    using assms(2) refuse_not_reserved [of st r t]
    by (auto simp: reserve_authorization_def split: option.splits)
  have t: "rt_authorization_id t = ar_authorization_id r" "rt_cumulative t = ar_cumulative r"
    using clear(2) by (auto simp: take_reservation_def Let_def)
  have step: "checked_add (cs_cumulative st) (ar_amount r) = Some (ar_cumulative r)"
    using reserve_cleared(5) [OF _ clear(1)] assms(1) by (simp add: auth_ok_def)
  have st1: "auth_ok st1" "ab_slot (abs_state st1) = Some (token_slot t (ar_amount r))"
      "cs_cumulative st1 = cs_cumulative st"
    using auth_ok_grant [OF assms(1) clear(1)] abs_grant [OF assms(1) clear] clear(2)
    by (auto simp: abs_state_def split: if_splits)
  have held: "ab_slot (abs_state st2) = Some (token_slot t (ar_amount r))"
      "cs_cumulative st2 = cs_cumulative st" "\<not> list_ex is_grant replies" "auth_ok st2"
    using held_run [OF st1(1,2), of ops] assms(3-5) t(1) st1(3) run_ops_refines [OF st1(1), of ops]
    by (auto simp: token_slot_def abs_state_def)
  have "checked_add (cs_cumulative st2) (ar_amount r) = Some (rt_cumulative t)"
    using step held(2) t(2) by simp
  from commit_held [OF held(4,1) this, of sig ex now response] assms(6) t(2) held step
  show ?thesis
    by (auto simp: checked_add_Some_iff split: if_splits)
qed

theorem reservation_honoured_witness:
  "\<exists>st1 st2 st3 replies. reserve_authorization sample_request sample_channel = (BReserved sample_token, st1)
    \<and> run_ops [OpReserve (sample_request\<lparr>ar_authorization_id := ''a2''\<rparr>), OpPrune 5000,
         OpMarkSucceeded sample_token] st1 = (replies, st2)
    \<and> commit_authorization sample_token ''sig'' 2000 1001 (\<lambda>_. None) st2 = (Inr (), st3)
    \<and> \<not> list_ex is_grant replies \<and> cs_cumulative st3 = 125"
proof -
  let ?ops = "[OpReserve (sample_request\<lparr>ar_authorization_id := ''a2''\<rparr>), OpPrune 5000,
     OpMarkSucceeded sample_token]"
  obtain st1 where r: "reserve_authorization sample_request sample_channel = (BReserved sample_token, st1)"
    by (simp add: auth_eval charges_def sample_request_def sample_channel_def sample_token_def)
  obtain replies st2 where ops: "run_ops ?ops st1 = (replies, st2)" by force
  obtain result st3 where c: "commit_authorization sample_token ''sig'' 2000 1001 (\<lambda>_. None) st2
      = (result, st3)"
    by force
  have "snd (run_ops ?ops (snd (reserve_authorization sample_request sample_channel))) = st2"
    by (simp only: r ops snd_conv)
  then have "cs_sealed st2 = False \<and> cs_final_cumulative st2 = None"
    by (auto simp: auth_eval charges_def sample_request_def sample_channel_def sample_token_def)
  then show ?thesis
    using reservation_honoured [OF sample_channel_ok r _ _ ops c] r ops c
    by (auto simp: sample_request_def)
qed

text \<open>
  A lost response can be answered again.  After a commit charged an authorization, the
  record keeps its answer: the response computed on the charged state is stored; presenting the
  same request again is answered as committed and changes nothing, another request under the
  same id is a conflict, committing again succeeds and changes nothing, and a response attached
  later is kept with the answer.
\<close>

theorem committed_answer_kept:
  assumes "auth_ok st" "committed_authorization st (rt_authorization_id t) = None" "now < i64_max"
    and "cs_close_requested_at st = None"
    and "commit_authorization t sig ex now response st = (Inr (), st')"
    and "ar_authorization_id r = rt_authorization_id t"
  shows "\<exists>d. committed_authorization st' (rt_authorization_id t) = Some d
    \<and> cd_settlement_response d = response (apply_charge t 0 sig ex now st)
    \<and> unat (cd_amount d) = unat (rt_cumulative t) - unat (cs_cumulative st)
    \<and> reserve_authorization r st' =
        (if ar_request_fingerprint r = rt_request_fingerprint t then BCommitted else BConflict, st')
    \<and> commit_authorization t sig' ex' now' response' st' = (Inr (), st')
    \<and> committed_authorization (attach_cached_response (rt_authorization_id t) cached st')
        (rt_authorization_id t) = Some (d\<lparr>cd_cached_response := Some cached\<rparr>)"
proof -
  have "pending_ok st" using assms(1) by (simp add: auth_ok_def)
  then obtain p where "cs_pending_deliveries st = [p]" "pd_delivery_id p = rt_authorization_id t"
    "pd_request_fingerprint p = Some (rt_request_fingerprint t)" "pd_sequence p = rt_sequence t"
    and open_st: "\<not> cs_sealed st" and "cs_final_cumulative st = None"
    and step: "checked_add (cs_cumulative st) (pd_amount p) = Some (rt_cumulative t)"
    and st': "st' = update_committed (rt_authorization_id t)
       (\<lambda>x. x\<lparr>cd_settlement_response := response (apply_charge t 0 sig ex now st)\<rparr>)
       (apply_charge t 0 sig ex now st)"
    by (rule commit_charges [OF _ assms(5,2)])
  obtain d where d: "committed_authorization (apply_charge t 0 sig ex now st)
      (rt_authorization_id t) = Some d"
      "cd_request_fingerprint d = Some (rt_request_fingerprint t)" "cd_cumulative d = rt_cumulative t"
      "cd_amount d = rt_cumulative t - cs_cumulative st"
    using charge_recorded [OF assms(2,3), of sig ex] by blast
  define d' where "d' = d\<lparr>cd_settlement_response := response (apply_charge t 0 sig ex now st)\<rparr>"
  have d': "committed_authorization st' (rt_authorization_id t) = Some d'"
    unfolding st' d'_def by (rule committed_update_committed [OF d(1)]) simp
  have amount: "unat (cd_amount d') = unat (rt_cumulative t) - unat (cs_cumulative st)"
    using checked_add_diff [OF step] step by (simp add: d'_def d(4) checked_add_Some_iff)
  have "cs_sealed st' = False" "cs_close_requested_at st' = None"
    using open_st assms(4) by (simp_all add: st')
  then have "reserve_authorization r st' =
        (if ar_request_fingerprint r = rt_request_fingerprint t then BCommitted else BConflict, st')"
    using d' d(2) assms(6)
    by (simp add: reserve_authorization_def refuse_reservation_def classify_authorization_def d'_def)
  moreover have "commit_authorization t sig' ex' now' response' st' = (Inr (), st')"
    using d' d(2,3) by (simp add: commit_authorization_def d'_def)
  moreover have "committed_authorization (attach_cached_response (rt_authorization_id t) cached st')
        (rt_authorization_id t) = Some (d'\<lparr>cd_cached_response := Some cached\<rparr>)"
    unfolding attach_cached_response_def by (rule committed_update_committed [OF d']) simp
  ultimately show ?thesis
    using d' amount by (intro exI [of _ d']) (simp add: d'_def)
qed

definition reserved_channel :: channel_state where
  "reserved_channel = snd (reserve_authorization sample_request sample_channel)"

definition sample_response :: cached_upstream_response where
  "sample_response =
     \<lparr>cur_status = 200, cur_content_type = None, cur_headers = [], cur_body = []\<rparr>"

theorem committed_answer_kept_witness:
  "\<exists>st'. commit_authorization sample_token ''sig'' 2000 1001 (\<lambda>_. Some JNull) reserved_channel = (Inr (), st')
     \<and> reserve_authorization sample_request st' = (BCommitted, st')"
proof -
  have eval: "fst (commit_authorization sample_token ''sig'' 2000 1001 (\<lambda>_. Some JNull) reserved_channel)
      = Inr ()" "auth_ok reserved_channel" "cs_close_requested_at reserved_channel = None"
      "committed_authorization reserved_channel (rt_authorization_id sample_token) = None"
    by (simp_all add: auth_eval charges_def reserved_channel_def sample_request_def sample_channel_def
        sample_token_def auth_ok_def pending_ok_def committed_ok_def)
  then obtain st' where c: "commit_authorization sample_token ''sig'' 2000 1001 (\<lambda>_. Some JNull)
      reserved_channel = (Inr (), st')"
    by (metis prod.collapse)
  have "reserve_authorization sample_request st' = (BCommitted, st')"
    using committed_answer_kept [OF eval(2,4) _ eval(3) c, where r = sample_request and sig' = "[]"
        and ex' = 0 and now' = 0 and response' = "\<lambda>_. None" and cached = sample_response]
    by (auto simp: sample_request_def sample_token_def i64_max_def)
  with c show ?thesis by blast
qed

text \<open>
  Pruning from the front of the deque is the filter it stands for: on a well-formed record
  whose answers all carry an expiry, exactly the answers that have not expired are kept.
\<close>

theorem prune_is_filter:
  assumes "auth_ok st" "list_all (\<lambda>e. cd_retain_until e \<noteq> 0) (cs_committed_deliveries st)"
  shows "cs_committed_deliveries (prune_authorizations now st)
    = filter (\<lambda>e. now < cd_retain_until e) (cs_committed_deliveries st)"
proof -
  let ?xs = "cs_committed_deliveries st"
  have "dropWhile (\<lambda>e. cd_retain_until e \<noteq> 0 \<and> cd_retain_until e \<le> now) ?xs
      = dropWhile (\<lambda>e. cd_retain_until e \<le> now) ?xs"
    using assms(2) by (intro dropWhile_cong) (auto simp: list_all_iff)
  also have "\<dots> = filter (\<lambda>e. now < cd_retain_until e) ?xs"
    using assms(1) by (intro dropWhile_sorted_filter) (simp add: auth_ok_def committed_ok_def)
  finally have "dropWhile (\<lambda>e. cd_retain_until e \<noteq> 0 \<and> cd_retain_until e \<le> now) ?xs
      = filter (\<lambda>e. now < cd_retain_until e) ?xs" .
  moreover have "length (filter (\<lambda>e. now < cd_retain_until e) ?xs) \<le> MAX_COMMITTED_AUTHORIZATIONS"
    using assms(1) length_filter_le le_trans unfolding auth_ok_def committed_ok_def by blast
  ultimately show ?thesis
    by (simp add: prune_authorizations_def)
qed

definition kept :: "string \<Rightarrow> i64 \<Rightarrow> committed_delivery" where
  "kept i retain =
     \<lparr>cd_delivery_id = i, cd_amount = 1, cd_cumulative = 50, cd_voucher_signature = ''s'',
      cd_request_fingerprint = Some ''f'', cd_settlement_response = None, cd_retain_until = retain,
      cd_cached_response = None\<rparr>"

theorem prune_is_filter_witness:
  "cs_committed_deliveries (prune_authorizations 10
      (sample_channel\<lparr>cs_committed_deliveries := [kept ''a'' 5, kept ''b'' 20]\<rparr>)) = [kept ''b'' 20]"
proof -
  have "auth_ok (sample_channel\<lparr>cs_committed_deliveries := [kept ''a'' 5, kept ''b'' 20]\<rparr>)"
    by (simp add: auth_ok_def pending_ok_def committed_ok_def sample_channel_def kept_def
        MAX_COMMITTED_AUTHORIZATIONS_def)
  from prune_is_filter [OF this, of 10] show ?thesis
    by (simp add: kept_def)
qed

text \<open>
  Nothing is charged behind a seal.  Once the close finalizer fixed the amount it seals
  at, or the channel is sealed, no sequence of transitions charges anything or moves the
  watermark, whatever reservations were still held.
\<close>

theorem fenced_watermark:
  assumes "auth_ok st" "fenced = freeze_watermark_at c st \<or> cs_sealed st \<and> fenced = st"
    and "run_ops ops fenced = (replies, st')"
  shows "charges ops fenced = [] \<and> cs_cumulative st' = cs_cumulative st"
proof -
  have ok: "auth_ok fenced" and cum: "cs_cumulative fenced = cs_cumulative st"
    and fence: "cs_sealed fenced \<or> cs_final_cumulative fenced \<noteq> None"
    using assms(1,2) auth_ok_cong [of fenced st] by (auto simp: freeze_watermark_at_def)
  show ?thesis
    using fenced_charges [OF ok fence] fenced_run [OF ok fence, of ops] assms(3) cum by simp
qed

theorem fenced_watermark_witness:
  "\<exists>st'. snd (run_ops [OpCommit sample_token ''sig'' 2000 1001 (\<lambda>_. None)]
       (freeze_watermark_at 100 reserved_channel)) = st' \<and> cs_cumulative st' = 100"
proof -
  have "auth_ok reserved_channel" "cs_cumulative reserved_channel = 100"
    by (simp_all add: auth_eval charges_def reserved_channel_def sample_request_def sample_channel_def
        auth_ok_def pending_ok_def committed_ok_def)
  with fenced_watermark [of reserved_channel "freeze_watermark_at 100 reserved_channel" 100
      "[OpCommit sample_token ''sig'' 2000 1001 (\<lambda>_. None)]"]
  show ?thesis by (metis prod.collapse)
qed

end
