(* ===== verification/Voucher.thy ===== *)
theory Voucher
  imports Pk_Prelude "HOL-Library.Multiset"
begin

text \<open>
  Voucher verification: \<open>core/voucher.rs\<close>, the signed bytes of
  \<open>core/payment_channel/v1.rs\<close> and the micro-batched verifier of \<open>core/batch_verify.rs\<close>.

  Base58 decoding and the Ed25519 operations come from libraries and are a parameter
  (\<open>crypto\<close>).  The signed message is written out byte by byte; its theorem is that it fixes
  every field of the voucher.  The batched verifier is shown to answer every job exactly as
  strict verification would, whatever the batch it lands in.
\<close>

section \<open>The signed message\<close>

definition i64_bits :: "i64 \<Rightarrow> u64" where
  "i64_bits x = word_of_int x"

definition VOUCHER_MAGIC :: "u8 list" where
  "VOUCHER_MAGIC = [0x56, 0x01]"

definition voucher_message_bytes :: "u8 list \<Rightarrow> u64 \<Rightarrow> i64 \<Rightarrow> u8 list" where
  "voucher_message_bytes channel_id cumulative_amount expires_at =
     VOUCHER_MAGIC @ channel_id @ le_bytes cumulative_amount @ le_bytes (i64_bits expires_at)"

section \<open>The checks\<close>

text \<open>
  The library calls: \<open>Pubkey::from_str\<close>, the base58 decoders, \<open>VerifyingKey::from_bytes\<close>,
  \<open>verify_strict\<close> and \<open>verify_batch\<close>, and what \<open>is_degenerate\<close> asks of points: whether 32 bytes
  decompress to one (\<open>CompressedEdwardsY::decompress\<close>), and its order.
\<close>

record curve_point =
  is_small_order :: bool
  is_torsion_free :: bool

record 'key crypto =
  pubkey_from_str :: "string \<Rightarrow> string + u8 list"
  decode_64 :: "string \<Rightarrow> string + u8 list"
  decode_32 :: "string \<Rightarrow> string + u8 list"
  key_from_bytes :: "u8 list \<Rightarrow> string + 'key"
  verify_strict :: "'key \<Rightarrow> u8 list \<Rightarrow> u8 list \<Rightarrow> bool"
  verify_batch :: "('key \<times> u8 list \<times> u8 list) list \<Rightarrow> bool"
  key_is_weak :: "'key \<Rightarrow> bool"
  key_to_bytes :: "'key \<Rightarrow> u8 list"
  decompress :: "u8 list \<Rightarrow> curve_point option"

record 'key verify_parts =
  vp_message :: "u8 list"
  vp_key :: 'key
  vp_signature :: "u8 list"

definition show_int :: "int \<Rightarrow> string" where
  "show_int x = (if x < 0 then ''-'' @ show_nat (nat (- x)) else show_nat (nat x))"

definition settle_deadline :: "i64 \<Rightarrow> i64 \<Rightarrow> i64" where
  "settle_deadline now settlement_window = i64_saturating_add now (max settlement_window 0)"

definition check_expiry :: "i64 \<Rightarrow> i64 \<Rightarrow> i64 \<Rightarrow> core_error + unit" where
  "check_expiry expires_at now settlement_window =
     (if expires_at \<noteq> 0 then
        if expires_at \<le> now then Inl (Other ''Voucher has expired'')
        else if expires_at \<le> settle_deadline now settlement_window
        then Inl (Other (''Voucher expiry '' @ show_int expires_at
               @ '' does not outlast the settlement window (must be > ''
               @ show_int (settle_deadline now settlement_window) @ '' = now '' @ show_int now
               @ '' + window '' @ show_int settlement_window @ '')''))
        else Inr ()
      else Inr ())"

text \<open>\<open>.map_err(|e| Error::Other(format!("..: {e}")))\<close>.\<close>

definition map_err :: "string \<Rightarrow> string + 'a \<Rightarrow> core_error + 'a" where
  "map_err what r = (case r of Inl e \<Rightarrow> Inl (Other (what @ '': '' @ e)) | Inr a \<Rightarrow> Inr a)"

definition voucher_verify_parts :: "'key crypto \<Rightarrow> string \<Rightarrow> u64 \<Rightarrow> i64 \<Rightarrow> string \<Rightarrow> string \<Rightarrow> i64 \<Rightarrow> i64
    \<Rightarrow> core_error + 'key verify_parts" where
  "voucher_verify_parts K channel_id cumulative expires_at signature_b58 authorized_signer_b58 now
      settlement_window =
     try_bind (check_expiry expires_at now settlement_window) (\<lambda>_.
     try_bind (map_err ''invalid channelId'' (pubkey_from_str K channel_id)) (\<lambda>channel.
     try_bind (map_err ''Invalid signature encoding'' (decode_64 K signature_b58)) (\<lambda>sig_bytes.
     try_bind (map_err ''Invalid authorized_signer'' (decode_32 K authorized_signer_b58)) (\<lambda>pubkey_bytes.
     try_bind (map_err ''Invalid authorized_signer key'' (key_from_bytes K pubkey_bytes)) (\<lambda>key.
       Inr \<lparr>vp_message = voucher_message_bytes channel cumulative expires_at, vp_key = key,
            vp_signature = sig_bytes\<rparr>)))))"

definition verification_failed :: core_error where
  "verification_failed = Other ''Voucher signature verification failed''"

definition verify_voucher_signature :: "'key crypto \<Rightarrow> string \<Rightarrow> u64 \<Rightarrow> i64 \<Rightarrow> string \<Rightarrow> string \<Rightarrow> i64 \<Rightarrow> i64
    \<Rightarrow> core_error + unit" where
  "verify_voucher_signature K channel_id cumulative expires_at signature_b58 authorized_signer_b58
      now settlement_window =
     try_bind (voucher_verify_parts K channel_id cumulative expires_at signature_b58
         authorized_signer_b58 now settlement_window) (\<lambda>parts.
       if verify_strict K (vp_key parts) (vp_message parts) (vp_signature parts) then Inr ()
       else Inl verification_failed)"

section \<open>The batched verifier\<close>

record 'key job =
  job_message :: "u8 list"
  job_key :: 'key
  job_signature :: "u8 list"

definition MAX_BATCH_VERIFY_WORKERS :: nat where
  "MAX_BATCH_VERIFY_WORKERS = 256"

definition bounded_worker_count :: "nat \<Rightarrow> nat" where
  "bounded_worker_count workers = max 1 (min workers MAX_BATCH_VERIFY_WORKERS)"

definition worker_index :: "nat \<Rightarrow> nat \<Rightarrow> nat" where
  "worker_index next_ticket senders = next_ticket mod senders"

definition strict :: "'key crypto \<Rightarrow> 'key job \<Rightarrow> bool" where
  "strict K j = verify_strict K (job_key j) (job_message j) (job_signature j)"

text \<open>The \<open>R\<close> part of a signature is its first 32 bytes.\<close>

definition is_degenerate :: "'key crypto \<Rightarrow> 'key job \<Rightarrow> bool" where
  "is_degenerate K j \<longleftrightarrow>
     (if key_is_weak K (job_key j) then True
      else if \<not> (case decompress K (key_to_bytes K (job_key j)) of Some point \<Rightarrow> is_torsion_free point | None \<Rightarrow> False)
      then True
      else case decompress K (take 32 (job_signature j)) of
        Some point \<Rightarrow> is_small_order point \<or> \<not> is_torsion_free point
      | None \<Rightarrow> True)"

definition batch_input :: "'key job \<Rightarrow> 'key \<times> u8 list \<times> u8 list" where
  "batch_input j = (job_key j, job_message j, job_signature j)"

text \<open>The replies sent, in order: each to one job.\<close>

definition reply_candidates :: "'key crypto \<Rightarrow> 'key job list \<Rightarrow> ('key job \<times> bool) list" where
  "reply_candidates K candidates =
     (case candidates of
        [] \<Rightarrow> []
      | [j] \<Rightarrow> [(j, strict K j)]
      | _ \<Rightarrow>
          if verify_batch K (map batch_input candidates)
          then map (\<lambda>j. (j, True)) candidates
          else map (\<lambda>j. (j, strict K j)) candidates)"

definition verify_and_reply :: "'key crypto \<Rightarrow> 'key job list \<Rightarrow> ('key job \<times> bool) list" where
  "verify_and_reply K batch =
     (case batch of
        [j] \<Rightarrow> [(j, strict K j)]
      | _ \<Rightarrow>
          map (\<lambda>j. (j, strict K j)) (filter (is_degenerate K) batch)
          @ reply_candidates K (filter (\<lambda>j. \<not> is_degenerate K j) batch))"

text \<open>
  What the code relies on of the curve library, without reference to the code: when every key is
  strong and a torsion-free point, and every \<open>R\<close> a torsion-free point that is not of small order,
  the batch equation holds only if every signature passes strict verification.
\<close>

definition torsion_free_bytes :: "'key crypto \<Rightarrow> u8 list \<Rightarrow> bool" where
  "torsion_free_bytes K bs \<longleftrightarrow> (\<exists>point. decompress K bs = Some point \<and> is_torsion_free point)"

definition large_order_bytes :: "'key crypto \<Rightarrow> u8 list \<Rightarrow> bool" where
  "large_order_bytes K bs \<longleftrightarrow> (\<forall>point. decompress K bs = Some point \<longrightarrow> \<not> is_small_order point)"

definition batch_sound :: "'key crypto \<Rightarrow> bool" where
  "batch_sound K \<longleftrightarrow>
     (\<forall>inputs. verify_batch K inputs \<and> (\<forall>(key, message, signature) \<in> set inputs.
          \<not> key_is_weak K key \<and> torsion_free_bytes K (key_to_bytes K key)
          \<and> torsion_free_bytes K (take 32 signature) \<and> large_order_bytes K (take 32 signature))
        \<longrightarrow> (\<forall>(key, message, signature) \<in> set inputs. verify_strict K key message signature))"

section \<open>Lemmas: bytes\<close>

lemma i64_bits_inject:
  assumes "in_i64 x" "in_i64 y"
  shows "i64_bits x = i64_bits y \<longleftrightarrow> x = y"
proof
  assume "i64_bits x = i64_bits y"
  then have "take_bit 64 x = take_bit 64 y"
    unfolding i64_bits_def by (simp add: word_of_int_eq_iff)
  then have "x mod 2 ^ 64 = y mod 2 ^ 64"
    by (simp add: take_bit_eq_mod)
  then have "(x + 2 ^ 63) mod 2 ^ 64 = (y + 2 ^ 63) mod 2 ^ 64"
    by (metis mod_add_left_eq)
  then show "x = y"
    using assms i64_wrap_id [of x] i64_wrap_id [of y] by (simp add: i64_wrap_def)
qed simp

section \<open>Lemmas: batches\<close>

lemma not_degenerate:
  assumes "\<not> is_degenerate K j"
  shows "\<not> key_is_weak K (job_key j)" "torsion_free_bytes K (key_to_bytes K (job_key j))"
    "torsion_free_bytes K (take 32 (job_signature j))" "large_order_bytes K (take 32 (job_signature j))"
  using assms
  by (auto simp: is_degenerate_def torsion_free_bytes_def large_order_bytes_def split: if_splits option.splits)

lemma batch_sound_strict:
  assumes "batch_sound K" "verify_batch K (map batch_input candidates)"
    and "list_all (\<lambda>j. \<not> is_degenerate K j) candidates"
  shows "map (\<lambda>j. (j, True)) candidates = map (\<lambda>j. (j, strict K j)) candidates"
proof -
  have "\<not> is_degenerate K j" if "j \<in> set candidates" for j
    using assms(3) that by (simp add: list_all_iff)
  then have "\<forall>(key, message, signature) \<in> set (map batch_input candidates).
      \<not> key_is_weak K key \<and> torsion_free_bytes K (key_to_bytes K key)
      \<and> torsion_free_bytes K (take 32 signature) \<and> large_order_bytes K (take 32 signature)"
    by (auto simp: batch_input_def not_degenerate)
  with assms(1,2) have "\<forall>(key, message, signature) \<in> set (map batch_input candidates). verify_strict K key message signature"
    unfolding batch_sound_def by blast
  then show ?thesis by (simp add: batch_input_def strict_def)
qed

lemma reply_candidates_strict:
  assumes "batch_sound K" "list_all (\<lambda>j. \<not> is_degenerate K j) candidates"
  shows "reply_candidates K candidates = map (\<lambda>j. (j, strict K j)) candidates"
proof -
  have "(if verify_batch K (map batch_input candidates) then map (\<lambda>j. (j, True)) candidates
      else map (\<lambda>j. (j, strict K j)) candidates) = map (\<lambda>j. (j, strict K j)) candidates"
    using batch_sound_strict [OF assms(1) _ assms(2)] by simp
  then show ?thesis
    unfolding reply_candidates_def by (cases candidates; cases "tl candidates") auto
qed

lemma verify_and_reply_parts:
  assumes "batch_sound K"
  shows "mset (verify_and_reply K batch)
    = mset (map (\<lambda>j. (j, strict K j))
        (filter (is_degenerate K) batch @ filter (\<lambda>j. \<not> is_degenerate K j) batch))"
  by (cases batch; cases "tl batch")
    (simp_all add: verify_and_reply_def reply_candidates_strict [OF assms] list_all_iff)

section \<open>Properties\<close>

text \<open>
  The signed bytes fix the voucher.  For 32-byte channel ids the message is 50 bytes long,
  and two vouchers have the same message only if channel, cumulative amount and expiry agree:
  a signature over one voucher is never a signature over another.
\<close>

theorem voucher_message_binds:
  assumes "length c = 32" "length c' = 32" "in_i64 x" "in_i64 x'"
  shows "length (voucher_message_bytes c n x) = 50
    \<and> (voucher_message_bytes c n x = voucher_message_bytes c' n' x') = (c = c' \<and> n = n' \<and> x = x')"
  using assms i64_bits_inject [OF assms(3,4)]
  by (auto simp: voucher_message_bytes_def VOUCHER_MAGIC_def)

theorem voucher_message_binds_witness:
  "voucher_message_bytes (replicate 32 7) 42 1234 \<noteq> voucher_message_bytes (replicate 32 7) 42 1235"
  using voucher_message_binds [of "replicate 32 7" "replicate 32 7" 1234 1235 42 42]
  by (simp add: in_i64_def i64_min_def i64_max_def)

text \<open>
  An accepted voucher can still be redeemed.  When the expiry check passes at \<open>now\<close> for a
  settlement window, the program's own rule (refuse when the expiry is not zero and the time is
  at or past it) does not refuse the voucher at any time up to the end of that window; a voucher
  with expiry zero never expires, and one that is expired now is refused.
\<close>

theorem accepted_voucher_outlasts_window:
  assumes "in_i64 expires_at" "in_i64 now"
  shows "(check_expiry expires_at now window = Inr ())
      = (expires_at = 0 \<or> now + max window 0 < expires_at)
    \<and> (check_expiry expires_at now window = Inr () \<and> t \<le> now + max window 0
        \<longrightarrow> \<not> (expires_at \<noteq> 0 \<and> expires_at \<le> t))"
  using assms
  by (auto simp: check_expiry_def settle_deadline_def i64_saturating_add_def in_i64_def)

theorem accepted_voucher_outlasts_window_witness:
  "check_expiry 2000 1000 900 = Inr () \<and> \<not> (2000 \<noteq> (0::int) \<and> 2000 \<le> (1900::int))"
  using accepted_voucher_outlasts_window [of 2000 1000 900 1900]
  by (simp add: in_i64_def i64_min_def i64_max_def)

text \<open>
  C31.  Batching changes no verdict.  Provided the batch equation is sound for strong, torsion-free keys
  and torsion-free \<open>R\<close> parts of large order (what is known of the equation; it is not sound beyond
  that), every job of any batch gets exactly one reply, and it is the verdict of strict
  verification: no bad voucher rides a passing batch, and none of its batchmates is rejected
  because of it.
\<close>

theorem batching_is_transparent:
  assumes "batch_sound K"
  shows "mset (verify_and_reply K batch) = image_mset (\<lambda>j. (j, strict K j)) (mset batch)"
proof -
  have "mset (filter (is_degenerate K) batch @ filter (\<lambda>j. \<not> is_degenerate K j) batch) = mset batch"
    by (simp add: mset_filter)
  then show ?thesis
    using verify_and_reply_parts [OF assms, of batch] by (metis mset_map)
qed

text \<open>A toy signature scheme: the signature repeats the message, the empty one is degenerate.\<close>

definition toy_crypto :: "nat crypto" where
  "toy_crypto =
     \<lparr>pubkey_from_str = (\<lambda>s. Inr (replicate 32 0)), decode_64 = (\<lambda>s. Inr (replicate 64 0)),
      decode_32 = (\<lambda>s. Inr (replicate 32 0)), key_from_bytes = (\<lambda>b. Inr 0),
      verify_strict = (\<lambda>k m s. s = m \<and> m \<noteq> []),
      verify_batch = list_all (\<lambda>(k, m, s). s = m),
      key_is_weak = (\<lambda>k. False), key_to_bytes = (\<lambda>k. [1]),
      decompress = (\<lambda>bs. if bs = [] then None else Some \<lparr>is_small_order = False, is_torsion_free = True\<rparr>)\<rparr>"

definition toy_job :: "u8 list \<Rightarrow> u8 list \<Rightarrow> nat job" where
  "toy_job m s = \<lparr>job_message = m, job_key = 0, job_signature = s\<rparr>"

lemma toy_crypto_sound: "batch_sound toy_crypto"
  by (fastforce simp: batch_sound_def toy_crypto_def torsion_free_bytes_def list_all_iff split: if_splits)

theorem batching_is_transparent_witness:
  "mset (verify_and_reply toy_crypto [toy_job [1] [1], toy_job [] [], toy_job [2] [2], toy_job [3] [4]])
   = {#(toy_job [1] [1], True), (toy_job [] [], False), (toy_job [2] [2], True), (toy_job [3] [4], False)#}"
  using batching_is_transparent [OF toy_crypto_sound,
      of "[toy_job [1] [1], toy_job [] [], toy_job [2] [2], toy_job [3] [4]]"]
  by (simp add: strict_def toy_crypto_def toy_job_def)

end
