(* ===== verification/Channel_Store.thy ===== *)
theory Channel_Store
  imports Channel_Auth
begin

text \<open>
  The \<open>ChannelStore\<close> trait of \<open>core/store.rs\<close> and its two implementations.

  \<open>MemoryChannelStore\<close> is a map of channel records; every method holds the lock of its
  channel, so each is one function of the map.  \<open>RedisChannelStore\<close> talks to a shared server:
  a method is a program of server calls (\<open>rprog\<close>), other gateways change the store between
  the calls (\<open>run_env\<close>), and writes go through the compare-and-set script.  The text form of a
  record is made by \<open>serde_json\<close> and is a parameter (\<open>record_text\<close>).  The refinement
  theorem is linearizability: whatever happens between its calls, a method that succeeds has the
  effect and the answer of the in-memory method at one of its calls, and one that fails changes
  nothing.  The locale \<open>channel_store\<close> is the contract the session code relies on.
\<close>

section \<open>The in-memory store\<close>

type_synonym channels = "string \<rightharpoonup> channel_state"

definition not_found :: store_error where
  "not_found = Internal ''Channel not found''"

definition get_channel :: "string \<Rightarrow> channels \<Rightarrow> (store_error + channel_state option) \<times> channels" where
  "get_channel channel_id data = (Inr (data channel_id), data)"

definition already_exists :: "string \<Rightarrow> store_error" where
  "already_exists channel_id = Internal (''Channel '' @ channel_id @ '' already exists'')"

definition put_channel :: "string \<Rightarrow> channel_state \<Rightarrow> channels \<Rightarrow> (store_error + unit) \<times> channels" where
  "put_channel channel_id state data =
     (case data channel_id of
        None \<Rightarrow> (Inr (), data(channel_id \<mapsto> state))
      | Some _ \<Rightarrow> (Inl (already_exists channel_id), data))"

definition delete_channel :: "string \<Rightarrow> channels \<Rightarrow> (store_error + unit) \<times> channels" where
  "delete_channel channel_id data = (Inr (), data(channel_id := None))"

definition delete_channel_if :: "string \<Rightarrow> (channel_state \<Rightarrow> bool) \<Rightarrow> channels
    \<Rightarrow> (store_error + bool) \<times> channels" where
  "delete_channel_if channel_id approve data =
     (case data channel_id of
        Some state \<Rightarrow>
          if approve state then (Inr True, data(channel_id := None)) else (Inr False, data)
      | None \<Rightarrow> (Inr False, data))"

definition update_channel :: "string \<Rightarrow> (channel_state option \<Rightarrow> store_error + channel_state) \<Rightarrow> channels
    \<Rightarrow> (store_error + channel_state) \<times> channels" where
  "update_channel channel_id updater data =
     (case data channel_id of
        Some current \<Rightarrow>
          (case updater (Some current) of
             Inr new_state \<Rightarrow> (Inr new_state, data(channel_id \<mapsto> new_state))
           | Inl e \<Rightarrow> (Inl e, data))
      | None \<Rightarrow>
          (case updater None of
             Inr new_state \<Rightarrow> (Inr new_state, data(channel_id \<mapsto> new_state))
           | Inl e \<Rightarrow> (Inl e, data)))"

text \<open>A closure over \<open>&mut ChannelState\<close>: its result, and the record as it leaves it.\<close>

type_synonym 'a mutator = "channel_state \<Rightarrow> (store_error + 'a) \<times> channel_state"

definition mutate_channel :: "string \<Rightarrow> channel_state option \<Rightarrow> 'a mutator \<Rightarrow> channels
    \<Rightarrow> (store_error + 'a) \<times> channels" where
  "mutate_channel channel_id seed mutator data =
     (case data channel_id of
        Some state \<Rightarrow>
          (case mutator state of (r, state') \<Rightarrow> (r, data(channel_id \<mapsto> state')))
      | None \<Rightarrow>
          (case seed of
             Some s \<Rightarrow> (case mutator s of (r, state') \<Rightarrow> (r, data(channel_id \<mapsto> state')))
           | None \<Rightarrow> (Inl not_found, data)))"

definition reserve_on_store :: "string \<Rightarrow> channel_state option \<Rightarrow> authorization_request
    \<Rightarrow> (channel_state \<Rightarrow> store_error + pending_setup option) \<Rightarrow> channels
    \<Rightarrow> (store_error + batch_reservation) \<times> channels" where
  "reserve_on_store channel_id seed request prepare data =
     mutate_channel channel_id seed (reserve_authorization_staged request prepare) data"

definition replaces_lifecycle :: "channel_lifecycle \<Rightarrow> channel_state \<Rightarrow> bool" where
  "replaces_lifecycle lifecycle state \<longleftrightarrow>
     \<not> cs_sealed state \<and> cs_close_requested_at state = None
     \<and> (case cs_lifecycle state of
          None \<Rightarrow> True
        | Some current \<Rightarrow> cl_close_after lifecycle \<ge> cl_close_after current)"

definition touch_channel_lifecycle :: "string \<Rightarrow> channel_lifecycle \<Rightarrow> channels
    \<Rightarrow> (store_error + channel_state) \<times> channels" where
  "touch_channel_lifecycle channel_id lifecycle data =
     (case data channel_id of
        Some state \<Rightarrow>
          (let state' = (if replaces_lifecycle lifecycle state
                         then state\<lparr>cs_lifecycle := Some lifecycle\<rparr> else state) in
           (Inr state', data(channel_id \<mapsto> state')))
      | None \<Rightarrow> (Inl not_found, data))"

definition advance_cumulative :: "string \<Rightarrow> u64 \<Rightarrow> u64 \<Rightarrow> channels \<Rightarrow> (store_error + bool) \<times> channels" where
  "advance_cumulative channel_id expected new data =
     (case data channel_id of
        Some state \<Rightarrow>
          if cs_cumulative state = expected
          then (Inr True, data(channel_id \<mapsto> state\<lparr>cs_cumulative := new\<rparr>))
          else (Inr False, data)
      | None \<Rightarrow> (Inl not_found, data))"

definition update_deposit :: "string \<Rightarrow> u64 \<Rightarrow> channels \<Rightarrow> (store_error + unit) \<times> channels" where
  "update_deposit channel_id new_deposit data =
     (case data channel_id of
        Some state \<Rightarrow> (Inr (), data(channel_id \<mapsto> state\<lparr>cs_deposit := new_deposit\<rparr>))
      | None \<Rightarrow> (Inl not_found, data))"

definition mark_sealed :: "string \<Rightarrow> channels \<Rightarrow> (store_error + unit) \<times> channels" where
  "mark_sealed channel_id data =
     (case data channel_id of
        Some state \<Rightarrow> (Inr (), data(channel_id \<mapsto> state\<lparr>cs_sealed := True\<rparr>))
      | None \<Rightarrow> (Inl not_found, data))"

definition mark_finalized :: "string \<Rightarrow> channels \<Rightarrow> (store_error + unit) \<times> channels" where
  "mark_finalized channel_id data = mark_sealed channel_id data"

section \<open>The Redis server\<close>

text \<open>
  A key holds a text and, when an expiry is set, its remaining life in seconds.  \<open>RGet\<close> and
  \<open>RDel\<close> are the plain commands, \<open>RCas\<close> and \<open>RDelIf\<close> the scripts of
  \<open>compare_and_set\<close> and \<open>delete_channel_if\<close>.
\<close>

type_synonym 'raw redis = "string \<rightharpoonup> 'raw \<times> u64 option"

datatype 'raw redis_call =
    RGet string
  | RCas string "'raw option" 'raw
  | RDel string
  | RDelIf string 'raw

datatype 'raw redis_reply = ReplyText "'raw option" | ReplyInt int | ReplyFailure string

definition cas_script :: "string \<Rightarrow> 'raw option \<Rightarrow> 'raw \<Rightarrow> 'raw redis \<Rightarrow> int \<times> 'raw redis" where
  "cas_script key expected new_value s =
     (case expected of
        None \<Rightarrow>
          (case s key of
             Some _ \<Rightarrow> (0, s)
           | None \<Rightarrow> (1, s(key \<mapsto> (new_value, None))))
      | Some e \<Rightarrow>
          (case s key of
             None \<Rightarrow> (0, s)
           | Some (current, ttl) \<Rightarrow>
               if current \<noteq> e then (0, s) else (1, s(key \<mapsto> (new_value, ttl)))))"

definition delete_if_script :: "string \<Rightarrow> 'raw \<Rightarrow> 'raw redis \<Rightarrow> int \<times> 'raw redis" where
  "delete_if_script key raw s =
     (if map_option fst (s key) = Some raw then (1, s(key := None)) else (0, s))"

fun serve :: "'raw redis_call \<Rightarrow> 'raw redis \<Rightarrow> 'raw redis_reply \<times> 'raw redis" where
  "serve (RGet key) s = (ReplyText (map_option fst (s key)), s)"
| "serve (RCas key expected new_value) s = map_prod ReplyInt id (cas_script key expected new_value s)"
| "serve (RDel key) s = (ReplyInt (if s key = None then 0 else 1), s(key := None))"
| "serve (RDelIf key raw) s = map_prod ReplyInt id (delete_if_script key raw s)"

datatype ('raw, 'r) rprog =
    RDone 'r
  | RCall "'raw redis_call" "'raw redis_reply \<Rightarrow> ('raw, 'r) rprog"

text \<open>
  Running a method while others use the store: before each call the environment may do anything
  to the store; a call may be lost before it is executed, and its reply may be lost after.  The
  trace lists the store before and after each call; running out of turns is \<open>None\<close>.
\<close>

datatype 'raw turn =
    Serve "'raw redis \<Rightarrow> 'raw redis"
  | LoseCall "'raw redis \<Rightarrow> 'raw redis" string
  | LoseReply "'raw redis \<Rightarrow> 'raw redis" string

fun run_env :: "'raw turn list \<Rightarrow> ('raw, 'r) rprog \<Rightarrow> 'raw redis
    \<Rightarrow> ('r \<times> ('raw redis \<times> 'raw redis) list) option" where
  "run_env ts (RDone r) s = Some (r, [])"
| "run_env [] (RCall c k) s = None"
| "run_env (Serve env # ts) (RCall c k) s =
     (let b = env s; (reply, a) = serve c b in
      map_option (\<lambda>(r, tr). (r, (b, a) # tr)) (run_env ts (k reply) a))"
| "run_env (LoseCall env e # ts) (RCall c k) s =
     (let b = env s in
      map_option (\<lambda>(r, tr). (r, (b, b) # tr)) (run_env ts (k (ReplyFailure e)) b))"
| "run_env (LoseReply env e # ts) (RCall c k) s =
     (let b = env s; a = snd (serve c b) in
      map_option (\<lambda>(r, tr). (r, (b, a) # tr)) (run_env ts (k (ReplyFailure e)) a))"

section \<open>The Redis store\<close>

record 'raw record_text =
  state_to_text :: "channel_state \<Rightarrow> string + 'raw"
  state_from_text :: "'raw \<Rightarrow> string + channel_state"

definition namespace_key_prefix :: "string \<Rightarrow> string" where
  "namespace_key_prefix key_prefix = show_nat (length key_prefix) @ '':'' @ key_prefix @ '':''"

definition redis_key :: "string \<Rightarrow> string \<Rightarrow> string" where
  "redis_key prefix channel_id = prefix @ channel_id"

definition is_glob_meta :: "char \<Rightarrow> bool" where
  "is_glob_meta ch \<longleftrightarrow>
     ch = CHR ''*'' \<or> ch = CHR ''?'' \<or> ch = CHR ''['' \<or> ch = CHR '']'' \<or> ch = CHR 0x5C"

definition escape_glob :: "char \<Rightarrow> string" where
  "escape_glob ch = (if is_glob_meta ch then [CHR 0x5C, ch] else [ch])"

definition scan_pattern :: "string \<Rightarrow> string" where
  "scan_pattern prefix = concat (map escape_glob prefix) @ ''*''"

definition decode :: "'raw record_text \<Rightarrow> 'raw \<Rightarrow> store_error + channel_state" where
  "decode T raw =
     (case state_from_text T raw of
        Inl e \<Rightarrow> Inl (Serialization e)
      | Inr state \<Rightarrow>
          if cs_schema_version state > CHANNEL_STATE_SCHEMA_VERSION
          then Inl (Serialization (''channel record schema_version ''
                 @ show_nat (unat (cs_schema_version state))
                 @ '' is newer than this writer's ''
                 @ show_nat (unat CHANNEL_STATE_SCHEMA_VERSION)
                 @ ''; refusing lossy decode''))
          else Inr state)"

definition stamp :: "channel_state \<Rightarrow> channel_state" where
  "stamp state = state\<lparr>cs_schema_version := CHANNEL_STATE_SCHEMA_VERSION\<rparr>"

definition encode_for_write :: "'raw record_text \<Rightarrow> channel_state \<Rightarrow> store_error + 'raw \<times> channel_state" where
  "encode_for_write T state =
     (case state_to_text T (stamp state) of
        Inl e \<Rightarrow> Inl (Serialization e)
      | Inr raw \<Rightarrow> Inr (raw, stamp state))"

text \<open>One server call and the error its failure becomes.\<close>

definition get_raw :: "string \<Rightarrow> (store_error + 'raw option \<Rightarrow> ('raw, 'r) rprog) \<Rightarrow> ('raw, 'r) rprog" where
  "get_raw key k = RCall (RGet key) (\<lambda>reply.
     case reply of
       ReplyText raw \<Rightarrow> k (Inr raw)
     | ReplyFailure e \<Rightarrow> k (Inl (Internal (''Redis GET: '' @ e)))
     | ReplyInt _ \<Rightarrow> k (Inl (Internal ''Redis GET: '')))"

definition compare_and_set :: "string \<Rightarrow> 'raw option \<Rightarrow> 'raw
    \<Rightarrow> (store_error + bool \<Rightarrow> ('raw, 'r) rprog) \<Rightarrow> ('raw, 'r) rprog" where
  "compare_and_set key expected new_value k = RCall (RCas key expected new_value) (\<lambda>reply.
     case reply of
       ReplyInt n \<Rightarrow> k (Inr (n = 1))
     | ReplyFailure e \<Rightarrow> k (Inl (Internal (''Redis CAS: '' @ e)))
     | ReplyText _ \<Rightarrow> k (Inl (Internal ''Redis CAS: '')))"

definition conflict_error :: store_error where
  "conflict_error = Internal ''Concurrent channel update; retry the request''"

text \<open>\<open>current_raw.as_deref().map(Self::decode).transpose()\<close>.\<close>

definition decode_opt :: "'raw record_text \<Rightarrow> 'raw option \<Rightarrow> store_error + channel_state option" where
  "decode_opt T raw = (case raw of None \<Rightarrow> Inr None | Some x \<Rightarrow> map_sum id Some (decode T x))"

definition redis_get_channel :: "'raw record_text \<Rightarrow> string
    \<Rightarrow> ('raw, store_error + channel_state option) rprog" where
  "redis_get_channel T key = get_raw key (\<lambda>got. RDone (try_bind got (decode_opt T)))"

definition redis_put_channel :: "'raw record_text \<Rightarrow> string \<Rightarrow> string \<Rightarrow> channel_state
    \<Rightarrow> ('raw, store_error + unit) rprog" where
  "redis_put_channel T key channel_id state =
     (case encode_for_write T state of
        Inl e \<Rightarrow> RDone (Inl e)
      | Inr (encoded, _) \<Rightarrow>
          compare_and_set key None encoded (\<lambda>swapped. RDone
            (case swapped of
               Inl e \<Rightarrow> Inl e
             | Inr won \<Rightarrow> if won then Inr () else Inl (already_exists channel_id))))"

definition redis_delete_channel :: "string \<Rightarrow> ('raw, store_error + unit) rprog" where
  "redis_delete_channel key = RCall (RDel key) (\<lambda>reply. RDone
     (case reply of
        ReplyInt _ \<Rightarrow> Inr ()
      | ReplyFailure e \<Rightarrow> Inl (Internal (''Redis DEL: '' @ e))
      | ReplyText _ \<Rightarrow> Inl (Internal ''Redis DEL: '')))"

definition redis_delete_channel_if :: "'raw record_text \<Rightarrow> string \<Rightarrow> (channel_state \<Rightarrow> bool)
    \<Rightarrow> ('raw, store_error + bool) rprog" where
  "redis_delete_channel_if T key approve =
     get_raw key (\<lambda>got.
       case got of
         Inl e \<Rightarrow> RDone (Inl e)
       | Inr None \<Rightarrow> RDone (Inr False)
       | Inr (Some raw) \<Rightarrow>
           (case decode T raw of
              Inl e \<Rightarrow> RDone (Inl e)
            | Inr state \<Rightarrow>
                if \<not> approve state then RDone (Inr False)
                else RCall (RDelIf key raw) (\<lambda>reply. RDone
                  (case reply of
                     ReplyInt n \<Rightarrow> Inr (n = 1)
                   | ReplyFailure e \<Rightarrow> Inl (Internal (''Redis compare-and-delete: '' @ e))
                   | ReplyText _ \<Rightarrow> Inl (Internal ''Redis compare-and-delete: '')))))"

text \<open>Encode, compare-and-set against the text that was read, report a conflict.\<close>

definition write_back :: "'raw record_text \<Rightarrow> string \<Rightarrow> 'raw option \<Rightarrow> channel_state
    \<Rightarrow> (channel_state \<Rightarrow> 'a) \<Rightarrow> ('raw, store_error + 'a) rprog" where
  "write_back T key current_raw new_state result =
     (case encode_for_write T new_state of
        Inl e \<Rightarrow> RDone (Inl e)
      | Inr (new_raw, stamped) \<Rightarrow>
          compare_and_set key current_raw new_raw (\<lambda>swapped. RDone
            (case swapped of
               Inl e \<Rightarrow> Inl e
             | Inr won \<Rightarrow> if won then Inr (result stamped) else Inl conflict_error)))"

definition redis_update_channel :: "'raw record_text \<Rightarrow> string
    \<Rightarrow> (channel_state option \<Rightarrow> store_error + channel_state)
    \<Rightarrow> ('raw, store_error + channel_state) rprog" where
  "redis_update_channel T key updater =
     get_raw key (\<lambda>got.
       case got of
         Inl e \<Rightarrow> RDone (Inl e)
       | Inr current_raw \<Rightarrow>
           (case try_bind (decode_opt T current_raw) updater of
              Inl e \<Rightarrow> RDone (Inl e)
            | Inr new_state \<Rightarrow> write_back T key current_raw new_state id))"

definition redis_mutate_channel :: "'raw record_text \<Rightarrow> string \<Rightarrow> channel_state option \<Rightarrow> 'a mutator
    \<Rightarrow> ('raw, store_error + 'a) rprog" where
  "redis_mutate_channel T key seed mutator =
     get_raw key (\<lambda>got.
       case got of
         Inl e \<Rightarrow> RDone (Inl e)
       | Inr current_raw \<Rightarrow>
           (case try_bind (decode_opt T current_raw) (\<lambda>current.
                   case current of Some state \<Rightarrow> Inr state | None \<Rightarrow> ok_or seed not_found) of
              Inl e \<Rightarrow> RDone (Inl e)
            | Inr state \<Rightarrow>
                (case mutator state of
                   (Inl e, _) \<Rightarrow> RDone (Inl e)
                 | (Inr a, state') \<Rightarrow> write_back T key current_raw state' (\<lambda>_. a))))"

definition lifecycle_conflict :: store_error where
  "lifecycle_conflict = Internal ''Concurrent channel lifecycle updates; retry the request''"

fun redis_touch_loop :: "nat \<Rightarrow> 'raw record_text \<Rightarrow> string \<Rightarrow> channel_lifecycle
    \<Rightarrow> ('raw, store_error + channel_state) rprog" where
  "redis_touch_loop 0 T key lifecycle = RDone (Inl lifecycle_conflict)"
| "redis_touch_loop (Suc n) T key lifecycle =
     get_raw key (\<lambda>got.
       case got of
         Inl e \<Rightarrow> RDone (Inl e)
       | Inr None \<Rightarrow> RDone (Inl not_found)
       | Inr (Some current_raw) \<Rightarrow>
           (case decode T current_raw of
              Inl e \<Rightarrow> RDone (Inl e)
            | Inr state \<Rightarrow>
                if \<not> replaces_lifecycle lifecycle state then RDone (Inr state)
                else (case encode_for_write T (state\<lparr>cs_lifecycle := Some lifecycle\<rparr>) of
                    Inl e \<Rightarrow> RDone (Inl e)
                  | Inr (new_raw, stamped) \<Rightarrow>
                      compare_and_set key (Some current_raw) new_raw (\<lambda>swapped.
                        case swapped of
                          Inl e \<Rightarrow> RDone (Inl e)
                        | Inr won \<Rightarrow>
                            if won then RDone (Inr stamped)
                            else redis_touch_loop n T key lifecycle))))"

definition redis_touch_channel_lifecycle :: "'raw record_text \<Rightarrow> string \<Rightarrow> channel_lifecycle
    \<Rightarrow> ('raw, store_error + channel_state) rprog" where
  "redis_touch_channel_lifecycle T key lifecycle = redis_touch_loop 8 T key lifecycle"

definition redis_advance_cumulative :: "'raw record_text \<Rightarrow> string \<Rightarrow> u64 \<Rightarrow> u64
    \<Rightarrow> ('raw, store_error + bool) rprog" where
  "redis_advance_cumulative T key expected new =
     get_raw key (\<lambda>got.
       case got of
         Inl e \<Rightarrow> RDone (Inl e)
       | Inr None \<Rightarrow> RDone (Inl not_found)
       | Inr (Some current_raw) \<Rightarrow>
           (case decode T current_raw of
              Inl e \<Rightarrow> RDone (Inl e)
            | Inr state \<Rightarrow>
                if cs_cumulative state \<noteq> expected then RDone (Inr False)
                else (case encode_for_write T (state\<lparr>cs_cumulative := new\<rparr>) of
                    Inl e \<Rightarrow> RDone (Inl e)
                  | Inr (new_raw, _) \<Rightarrow>
                      compare_and_set key (Some current_raw) new_raw RDone)))"

text \<open>\<open>.await.map(..)\<close> on the result of a method.\<close>

primrec map_result :: "('a \<Rightarrow> 'b) \<Rightarrow> ('raw, store_error + 'a) rprog \<Rightarrow> ('raw, store_error + 'b) rprog" where
  "map_result f (RDone r) = RDone (map_sum id f r)"
| "map_result f (RCall c k) = RCall c (\<lambda>reply. map_result f (k reply))"

definition redis_update_deposit :: "'raw record_text \<Rightarrow> string \<Rightarrow> u64
    \<Rightarrow> ('raw, store_error + unit) rprog" where
  "redis_update_deposit T key new_deposit =
     map_result (\<lambda>_. ()) (redis_update_channel T key (\<lambda>state.
       try_bind (ok_or state not_found) (\<lambda>st. Inr (st\<lparr>cs_deposit := new_deposit\<rparr>))))"

section \<open>The sealing scripts\<close>

text \<open>
  \<open>mark_sealed_atomic\<close> and \<open>mark_finalized_atomic\<close> edit the record as text, with Lua's plain
  \<open>string.find\<close>.
\<close>

fun starts_with :: "string \<Rightarrow> string \<Rightarrow> bool" where
  "starts_with [] s = True"
| "starts_with (p # ps) [] = False"
| "starts_with (p # ps) (c # s) = (p = c \<and> starts_with ps s)"

fun string_find :: "string \<Rightarrow> string \<Rightarrow> nat option" where
  "string_find [] p = (if p = [] then Some 0 else None)"
| "string_find (c # s) p = (if starts_with p (c # s) then Some 0 else map_option Suc (string_find s p))"

definition sealed_false :: string where
  "sealed_false = [CHR 0x22] @ ''sealed'' @ [CHR 0x22] @ '':false''"

definition sealed_true :: string where
  "sealed_true = [CHR 0x22] @ ''sealed'' @ [CHR 0x22] @ '':true''"

text \<open>The code the script returns and the text it leaves; \<open>None\<close> when it writes nothing.\<close>

definition seal_text :: "string \<Rightarrow> int \<times> string option" where
  "seal_text current =
     (if string_find current sealed_true \<noteq> None then (1, None)
      else (case string_find current sealed_false of
          None \<Rightarrow> (- 1, None)
        | Some first \<Rightarrow>
            (1, Some (take first current @ sealed_true
                   @ drop (first + length sealed_false) current))))"

definition mark_sealed_script :: "string \<Rightarrow> string redis \<Rightarrow> int \<times> string redis" where
  "mark_sealed_script key s =
     (case s key of
        None \<Rightarrow> (0, s)
      | Some (current, ttl) \<Rightarrow>
          (case seal_text current of
             (code, None) \<Rightarrow> (code, s)
           | (code, Some updated) \<Rightarrow> (code, s(key \<mapsto> (updated, ttl)))))"

definition mark_finalized_script :: "string \<Rightarrow> u64 \<Rightarrow> string redis \<Rightarrow> int \<times> string redis" where
  "mark_finalized_script key retention s =
     (case s key of
        None \<Rightarrow> (0, s)
      | Some (current, ttl) \<Rightarrow>
          (case seal_text current of
             (code, None) \<Rightarrow>
               (code, if code = 1 \<and> ttl = None then s(key \<mapsto> (current, Some retention)) else s)
           | (code, Some updated) \<Rightarrow> (code, s(key \<mapsto> (updated, Some retention)))))"

definition seal_result :: "int \<Rightarrow> store_error + unit" where
  "seal_result code =
     (if code = 1 then Inr ()
      else if code = 0 then Inl not_found
      else Inl (Serialization ''Channel record is missing its sealed field''))"

section \<open>What a Redis method may be compared with\<close>

definition text_ok :: "'raw record_text \<Rightarrow> bool" where
  "text_ok T \<longleftrightarrow> (\<forall>st. \<exists>raw. state_to_text T st = Inr raw \<and> state_from_text T raw = Inr st)"

definition redis_view :: "'raw record_text \<Rightarrow> string \<Rightarrow> 'raw redis \<Rightarrow> channels" where
  "redis_view T prefix s channel_id =
     (case s (redis_key prefix channel_id) of
        None \<Rightarrow> None
      | Some (raw, ttl) \<Rightarrow> (case decode T raw of Inl _ \<Rightarrow> None | Inr st \<Rightarrow> Some st))"

text \<open>
  \<open>linearized T prefix spec r tr\<close>: one call of the trace did to the view what \<open>spec\<close> does,
  with the same answer, and the other calls changed nothing.
\<close>

definition untouched :: "('s \<times> 's) list \<Rightarrow> bool" where
  "untouched tr \<longleftrightarrow> list_all (\<lambda>(b, a). a = b) tr"

definition linearized :: "'raw record_text \<Rightarrow> string \<Rightarrow> (channels \<Rightarrow> 'r \<times> channels) \<Rightarrow> 'r
    \<Rightarrow> ('raw redis \<times> 'raw redis) list \<Rightarrow> bool" where
  "linearized T prefix spec r tr \<longleftrightarrow>
     (\<exists>before b a rest. tr = before @ (b, a) # rest \<and> untouched before \<and> untouched rest
        \<and> spec (redis_view T prefix b) = (r, redis_view T prefix a))"

fun reply_lost :: "'raw turn \<Rightarrow> bool" where
  "reply_lost (LoseReply env e) = True"
| "reply_lost _ = False"

text \<open>The writer's schema version is stamped on what an updater returns.\<close>

definition stamping :: "(channel_state option \<Rightarrow> store_error + channel_state)
    \<Rightarrow> channel_state option \<Rightarrow> store_error + channel_state" where
  "stamping updater current = map_sum id stamp (updater current)"

definition stamping_mutator :: "'a mutator \<Rightarrow> 'a mutator" where
  "stamping_mutator m st = (case m st of (Inl e, st') \<Rightarrow> (Inl e, st) | (Inr a, st') \<Rightarrow> (Inr a, stamp st'))"

section \<open>Lemmas: server calls\<close>

lemma run_env_get:
  assumes "run_env ts (get_raw key k) s = Some (r, tr)"
  obtains b ts' tr' got where "tr = (b, b) # tr'" "run_env ts' (k got) b = Some (r, tr')"
    "got = Inr (map_option fst (b key)) \<or> (\<exists>e. got = Inl e)"
    "list_ex reply_lost ts' \<Longrightarrow> list_ex reply_lost ts"
proof (cases ts)
  case Nil
  with assms show ?thesis by (simp add: get_raw_def)
next
  case (Cons t ts')
  show ?thesis
  proof (cases t)
    case (Serve env)
    with assms Cons obtain tr' where "tr = (env s, env s) # tr'"
        "run_env ts' (k (Inr (map_option fst (env s key)))) (env s) = Some (r, tr')"
      by (auto simp: get_raw_def Let_def)
    then show ?thesis using Cons by (intro that) auto
  next
    case (LoseCall env e)
    with assms Cons obtain tr' where "tr = (env s, env s) # tr'"
        "run_env ts' (k (Inl (Internal (''Redis GET: '' @ e)))) (env s) = Some (r, tr')"
      by (auto simp: get_raw_def Let_def)
    then show ?thesis using Cons by (intro that) auto
  next
    case (LoseReply env e)
    with assms Cons obtain tr' where "tr = (env s, env s) # tr'"
        "run_env ts' (k (Inl (Internal (''Redis GET: '' @ e)))) (env s) = Some (r, tr')"
      by (auto simp: get_raw_def Let_def)
    then show ?thesis using Cons by (intro that) auto
  qed
qed

lemma cas_script_cases:
  "cas_script key ex new b = (1, b(key \<mapsto> (new, Option.bind (b key) snd))) \<and> map_option fst (b key) = ex
   \<or> cas_script key ex new b = (0, b)"
  by (cases ex; cases "b key") (auto simp: cas_script_def split: if_splits)

lemma run_env_cas:
  assumes "run_env ts (compare_and_set key ex new k) s = Some (r, tr)"
  obtains b a ts' tr' got where "tr = (b, a) # tr'" "run_env ts' (k got) a = Some (r, tr')"
    "got = Inr True \<and> map_option fst (b key) = ex \<and> a = b(key \<mapsto> (new, Option.bind (b key) snd))
     \<or> got = Inr False \<and> a = b
     \<or> (\<exists>e. got = Inl e) \<and> (a = b \<or> list_ex reply_lost ts
          \<and> map_option fst (b key) = ex \<and> a = b(key \<mapsto> (new, Option.bind (b key) snd)))"
    "list_ex reply_lost ts' \<Longrightarrow> list_ex reply_lost ts"
proof (cases ts)
  case Nil
  with assms show ?thesis by (simp add: compare_and_set_def)
next
  case (Cons t ts')
  show ?thesis
  proof (cases t)
    case (Serve env)
    with assms Cons obtain tr' where *: "tr = (env s, snd (cas_script key ex new (env s))) # tr'"
        "run_env ts' (k (Inr (fst (cas_script key ex new (env s)) = 1)))
           (snd (cas_script key ex new (env s))) = Some (r, tr')"
      by (auto simp: compare_and_set_def Let_def map_prod_def case_prod_beta)
    show ?thesis
      by (rule that [OF *]) (use cas_script_cases [of key ex new "env s"] Cons in auto)
  next
    case (LoseCall env e)
    with assms Cons obtain tr' where *: "tr = (env s, env s) # tr'"
        "run_env ts' (k (Inl (Internal (''Redis CAS: '' @ e)))) (env s) = Some (r, tr')"
      by (auto simp: compare_and_set_def Let_def)
    show ?thesis by (rule that [OF *]) (use Cons in auto)
  next
    case (LoseReply env e)
    with assms Cons obtain tr' where *: "tr = (env s, snd (cas_script key ex new (env s))) # tr'"
        "run_env ts' (k (Inl (Internal (''Redis CAS: '' @ e))))
           (snd (cas_script key ex new (env s))) = Some (r, tr')"
      by (auto simp: compare_and_set_def Let_def)
    show ?thesis
      by (rule that [OF *]) (use cas_script_cases [of key ex new "env s"] Cons LoseReply in auto)
  qed
qed

lemma redis_key_inject [simp]: "redis_key prefix i = redis_key prefix j \<longleftrightarrow> i = j"
  by (simp add: redis_key_def)

lemma decode_stamped:
  assumes "text_ok T" "encode_for_write T st = Inr (raw, st')"
  shows "st' = stamp st" "decode T raw = Inr (stamp st)"
proof -
  show st': "st' = stamp st"
    using assms(2) by (auto simp: encode_for_write_def split: sum.splits)
  obtain raw' where "state_to_text T (stamp st) = Inr raw'" "state_from_text T raw' = Inr (stamp st)"
    using assms(1) unfolding text_ok_def by blast
  then show "decode T raw = Inr (stamp st)"
    using assms(2) by (auto simp: encode_for_write_def decode_def stamp_def)
qed

lemma encode_total:
  assumes "text_ok T"
  obtains raw where "encode_for_write T st = Inr (raw, stamp st)"
proof -
  obtain raw where "state_to_text T (stamp st) = Inr raw"
    using assms unfolding text_ok_def by blast
  then show thesis by (intro that) (simp add: encode_for_write_def)
qed

lemma redis_view_write:
  assumes "decode T raw = Inr st"
  shows "redis_view T prefix (b(redis_key prefix i \<mapsto> (raw, ttl))) = (redis_view T prefix b)(i \<mapsto> st)"
  using assms by (auto simp: redis_view_def fun_eq_iff)

lemma redis_view_delete:
  "redis_view T prefix (b(redis_key prefix i := None)) = (redis_view T prefix b)(i := None)"
  by (auto simp: redis_view_def fun_eq_iff)

lemma decode_opt_view:
  assumes "decode_opt T (map_option fst (b (redis_key prefix i))) = Inr current"
  shows "redis_view T prefix b i = current"
  using assms by (auto simp: decode_opt_def redis_view_def split: option.splits sum.splits prod.splits)

lemma untouched_simps [simp]:
  "untouched []" "untouched ((b, a) # tr) \<longleftrightarrow> a = b \<and> untouched tr"
  by (auto simp: untouched_def)

lemma linearized_Cons: "linearized T prefix spec r tr \<Longrightarrow> linearized T prefix spec r ((b, b) # tr)"
  unfolding linearized_def by (metis append_Cons untouched_simps(2))

lemma linearized_here:
  "spec (redis_view T prefix b) = (r, redis_view T prefix a) \<Longrightarrow> untouched tr \<Longrightarrow>
   linearized T prefix spec r ((b, a) # tr)"
  unfolding linearized_def by (metis append_Nil untouched_simps(1))

text \<open>
  The write-back after a read of text \<open>raw\<close>: it succeeds only on a store that still holds that
  text, and then its effect on the view is that of \<open>spec\<close>.
\<close>

lemma run_env_write_back:
  assumes T: "text_ok T"
    and run: "run_env ts (write_back T (redis_key prefix i) raw st result) s = Some (r, tr)"
    and spec: "\<And>b. map_option fst (b (redis_key prefix i)) = raw \<Longrightarrow>
      spec (redis_view T prefix b) = (Inr (result (stamp st)), (redis_view T prefix b)(i \<mapsto> stamp st))"
  shows "(\<forall>a. r = Inr a \<longrightarrow> linearized T prefix spec r tr)
    \<and> (r = Inl e \<longrightarrow> untouched tr
        \<or> list_ex reply_lost ts \<and> (\<exists>answer. linearized T prefix spec (Inr answer) tr))"
proof -
  obtain new where new: "encode_for_write T st = Inr (new, stamp st)"
    using encode_total [OF T] .
  note dec = decode_stamped(2) [OF T new]
  from run have "run_env ts (compare_and_set (redis_key prefix i) raw new (\<lambda>swapped. RDone
      (case swapped of Inl e \<Rightarrow> Inl e
       | Inr won \<Rightarrow> if won then Inr (result (stamp st)) else Inl conflict_error))) s = Some (r, tr)"
    by (simp add: write_back_def new)
  then show ?thesis
  proof (rule run_env_cas)
    fix b a ts' tr' got
    assume tr: "tr = (b, a) # tr'"
      and fin: "run_env ts' (RDone (case got of Inl e \<Rightarrow> Inl e
        | Inr won \<Rightarrow> if won then Inr (result (stamp st)) else Inl conflict_error)) a = Some (r, tr')"
      and got: "got = Inr True \<and> map_option fst (b (redis_key prefix i)) = raw
          \<and> a = b(redis_key prefix i \<mapsto> (new, Option.bind (b (redis_key prefix i)) snd))
        \<or> got = Inr False \<and> a = b \<or> (\<exists>e. got = Inl e) \<and> (a = b \<or> list_ex reply_lost ts
            \<and> map_option fst (b (redis_key prefix i)) = raw
            \<and> a = b(redis_key prefix i \<mapsto> (new, Option.bind (b (redis_key prefix i)) snd)))"
    then show ?thesis
      using spec [of b] redis_view_write [OF dec, of prefix b i]
      by (auto intro!: linearized_here)
  qed
qed

lemma redis_update_linearized:
  assumes T: "text_ok T"
    and run: "run_env ts (redis_update_channel T (redis_key prefix i) updater) s = Some (r, tr)"
  shows "(\<forall>a. r = Inr a \<longrightarrow> linearized T prefix (update_channel i (stamping updater)) r tr)
    \<and> (r = Inl e \<longrightarrow> untouched tr
        \<or> list_ex reply_lost ts \<and> (\<exists>answer. linearized T prefix (update_channel i (stamping updater)) (Inr answer) tr))"
  using run unfolding redis_update_channel_def
proof (rule run_env_get)
  fix b ts' tr' got
  assume tr: "tr = (b, b) # tr'" and got: "got = Inr (map_option fst (b (redis_key prefix i))) \<or> (\<exists>e. got = Inl e)"
    and rest: "run_env ts' (case got of Inl e \<Rightarrow> RDone (Inl e) | Inr current_raw \<Rightarrow>
       (case try_bind (decode_opt T current_raw) updater of Inl e \<Rightarrow> RDone (Inl e)
        | Inr new_state \<Rightarrow> write_back T (redis_key prefix i) current_raw new_state id)) b = Some (r, tr')"
    and lost: "list_ex reply_lost ts' \<Longrightarrow> list_ex reply_lost ts"
  let ?raw = "map_option fst (b (redis_key prefix i))"
  show ?thesis
  proof (cases "\<exists>st. got = Inr ?raw \<and> try_bind (decode_opt T ?raw) updater = Inr st")
    case False
    then obtain e where "got = Inl e \<or> got = Inr ?raw \<and> try_bind (decode_opt T ?raw) updater = Inl e"
      using got by (cases "try_bind (decode_opt T ?raw) updater") blast+
    then have "r = Inl e \<and> tr' = []"
      using rest by (elim disjE) simp_all
    with tr show ?thesis by auto
  next
    case True
    then obtain st where st: "got = Inr ?raw" "try_bind (decode_opt T ?raw) updater = Inr st" by blast
    have spec: "update_channel i (stamping updater) (redis_view T prefix b')
        = (Inr (id (stamp st)), (redis_view T prefix b')(i \<mapsto> stamp st))"
      if "map_option fst (b' (redis_key prefix i)) = ?raw" for b'
    proof -
      obtain current where "decode_opt T ?raw = Inr current" "updater current = Inr st"
        using st(2) by (auto simp: try_bind_Inr_iff)
      with decode_opt_view [of T b' prefix i current] that show ?thesis
        by (cases current) (auto simp: update_channel_def stamping_def)
    qed
    have "run_env ts' (write_back T (redis_key prefix i) ?raw st id) b = Some (r, tr')"
      using rest st by simp
    from run_env_write_back [OF T this spec, where e = e] show ?thesis
      using tr lost by (auto intro: linearized_Cons)
  qed
qed

lemma redis_mutate_linearized:
  assumes T: "text_ok T"
    and run: "run_env ts (redis_mutate_channel T (redis_key prefix i) seed m) s = Some (r, tr)"
  shows "(\<forall>a. r = Inr a \<longrightarrow> linearized T prefix (mutate_channel i seed (stamping_mutator m)) r tr)
    \<and> (r = Inl e \<longrightarrow> untouched tr
        \<or> list_ex reply_lost ts \<and> (\<exists>answer. linearized T prefix (mutate_channel i seed (stamping_mutator m)) (Inr answer) tr))"
  using run unfolding redis_mutate_channel_def
proof (rule run_env_get)
  let ?start = "\<lambda>raw. try_bind (decode_opt T raw) (\<lambda>current.
      case current of Some state \<Rightarrow> Inr state | None \<Rightarrow> ok_or seed not_found)"
  fix b ts' tr' got
  assume tr: "tr = (b, b) # tr'" and got: "got = Inr (map_option fst (b (redis_key prefix i))) \<or> (\<exists>e. got = Inl e)"
    and rest: "run_env ts' (case got of Inl e \<Rightarrow> RDone (Inl e) | Inr current_raw \<Rightarrow>
       (case ?start current_raw of Inl e \<Rightarrow> RDone (Inl e)
        | Inr state \<Rightarrow> (case m state of (Inl e, _) \<Rightarrow> RDone (Inl e)
           | (Inr a, state') \<Rightarrow> write_back T (redis_key prefix i) current_raw state' (\<lambda>_. a)))) b
      = Some (r, tr')"
    and lost: "list_ex reply_lost ts' \<Longrightarrow> list_ex reply_lost ts"
  let ?raw = "map_option fst (b (redis_key prefix i))"
  show ?thesis
  proof (cases "\<exists>st a st'. got = Inr ?raw \<and> ?start ?raw = Inr st \<and> m st = (Inr a, st')")
    case False
    with rest got have "(\<exists>e. r = Inl e) \<and> tr' = []"
      by (auto split: sum.splits prod.splits)
    with tr show ?thesis by auto
  next
    case True
    then obtain st a st' where st: "got = Inr ?raw" "?start ?raw = Inr st" "m st = (Inr a, st')" by blast
    have spec: "mutate_channel i seed (stamping_mutator m) (redis_view T prefix b')
        = (Inr ((\<lambda>_. a) (stamp st')), (redis_view T prefix b')(i \<mapsto> stamp st'))"
      if "map_option fst (b' (redis_key prefix i)) = ?raw" for b'
    proof -
      obtain current where "decode_opt T ?raw = Inr current"
          "(case current of Some state \<Rightarrow> Inr state | None \<Rightarrow> ok_or seed not_found) = Inr st"
        using st(2) by (auto simp: try_bind_Inr_iff)
      with decode_opt_view [of T b' prefix i current] that st(3) show ?thesis
        by (cases current; cases seed) (auto simp: mutate_channel_def stamping_mutator_def)
    qed
    have "run_env ts' (write_back T (redis_key prefix i) ?raw st' (\<lambda>_. a)) b = Some (r, tr')"
      using rest st by simp
    from run_env_write_back [OF T this spec, where e = e] show ?thesis
      using tr lost by (auto intro: linearized_Cons)
  qed
qed

text \<open>A read, a decision on the record read, and at most one guarded write.\<close>

lemma redis_advance_linearized:
  assumes T: "text_ok T"
    and run: "run_env ts (redis_advance_cumulative T (redis_key prefix i) expected new) s = Some (r, tr)"
  shows "(r = Inr True \<longrightarrow> (\<exists>st b a. (b, a) \<in> set tr \<and> redis_view T prefix b i = Some st
      \<and> cs_cumulative st = expected
      \<and> redis_view T prefix a = (redis_view T prefix b)(i \<mapsto> stamp (st\<lparr>cs_cumulative := new\<rparr>))))
    \<and> (\<not> list_ex reply_lost ts \<and> r \<noteq> Inr True \<longrightarrow> untouched tr)"
  using run unfolding redis_advance_cumulative_def
proof (rule run_env_get)
  let ?key = "redis_key prefix i"
  let ?body = "\<lambda>got. case got of Inl e \<Rightarrow> RDone (Inl e) | Inr None \<Rightarrow> RDone (Inl not_found)
     | Inr (Some current_raw) \<Rightarrow>
           (case decode T current_raw of Inl e \<Rightarrow> RDone (Inl e)
            | Inr state \<Rightarrow>
                if cs_cumulative state \<noteq> expected then RDone (Inr False)
                else (case encode_for_write T (state\<lparr>cs_cumulative := new\<rparr>) of
                    Inl e \<Rightarrow> RDone (Inl e)
                  | Inr (new_raw, _) \<Rightarrow> compare_and_set ?key (Some current_raw) new_raw RDone))"
  fix b ts' tr' got
  assume tr: "tr = (b, b) # tr'" and got: "got = Inr (map_option fst (b ?key)) \<or> (\<exists>e. got = Inl e)"
    and rest: "run_env ts' (?body got) b = Some (r, tr')"
    and lost: "list_ex reply_lost ts' \<Longrightarrow> list_ex reply_lost ts"
  show ?thesis
  proof (cases "\<exists>raw st. got = Inr (Some raw) \<and> decode T raw = Inr st \<and> cs_cumulative st = expected")
    case False
    have "tr' = [] \<and> r \<noteq> Inr True"
    proof (cases got)
      case (Inr raw)
      with rest False show ?thesis
        by (cases raw) (auto split: sum.splits if_splits)
    qed (use rest in auto)
    with tr show ?thesis by auto
  next
    case True
    then obtain raw st where g: "got = Inr (Some raw)" "decode T raw = Inr st" "cs_cumulative st = expected"
      by blast
    obtain x where x: "encode_for_write T (st\<lparr>cs_cumulative := new\<rparr>)
        = Inr (x, stamp (st\<lparr>cs_cumulative := new\<rparr>))"
      using encode_total [OF T] .
    note dec = decode_stamped(2) [OF T x]
    have "run_env ts' (compare_and_set ?key (Some raw) x RDone) b = Some (r, tr')"
      using rest g x by simp
    then show ?thesis
    proof (rule run_env_cas)
      fix c a ts'' tr'' won
      assume c: "tr' = (c, a) # tr''" and fin: "run_env ts'' (RDone won) a = Some (r, tr'')"
        and cases: "won = Inr True \<and> map_option fst (c ?key) = Some raw
            \<and> a = c(?key \<mapsto> (x, Option.bind (c ?key) snd))
          \<or> won = Inr False \<and> a = c \<or> (\<exists>e. won = Inl e) \<and> (a = c \<or> list_ex reply_lost ts'
              \<and> map_option fst (c ?key) = Some raw \<and> a = c(?key \<mapsto> (x, Option.bind (c ?key) snd)))"
      show ?thesis
      proof (cases "r = Inr True")
        case True
        with cases fin have "map_option fst (c ?key) = Some raw"
            "a = c(?key \<mapsto> (x, Option.bind (c ?key) snd))"
          by auto
        moreover have "redis_view T prefix c i = Some st"
          using calculation(1) g(2) by (auto simp: redis_view_def)
        ultimately show ?thesis
          using True tr c g(3) redis_view_write [OF dec, of prefix c i] by auto
      next
        case False
        with cases fin lost have "\<not> list_ex reply_lost ts \<longrightarrow> a = c \<and> tr'' = []" by auto
        with tr c False show ?thesis by auto
      qed
    qed
  qed
qed

section \<open>Lemmas: namespaces\<close>

lemma takeWhile_digits:
  "takeWhile is_ascii_digit (show_nat n @ CHR '':'' # rest) = show_nat n"
  using show_nat_digits [of _ n] by (subst takeWhile_append2) (auto simp: is_ascii_digit_def)

lemma namespace_key_inject:
  assumes "redis_key (namespace_key_prefix a) i = redis_key (namespace_key_prefix b) j"
  shows "a = b \<and> i = j"
proof -
  have eq: "show_nat (length a) @ CHR '':'' # a @ CHR '':'' # i
      = show_nat (length b) @ CHR '':'' # b @ CHR '':'' # j"
    using assms by (simp add: redis_key_def namespace_key_prefix_def)
  then have "show_nat (length a) = show_nat (length b)"
    using takeWhile_digits by metis
  with eq show ?thesis by simp
qed

text \<open>
  Redis \<open>MATCH\<close>: \<open>*\<close> is any text, \<open>?\<close> any character, a backslash quotes the next one.
\<close>

fun glob_match :: "string \<Rightarrow> string \<Rightarrow> bool" where
  "glob_match [] s = (s = [])"
| "glob_match (p # ps) s =
     (if p = CHR ''*'' then glob_match ps s \<or> (case s of [] \<Rightarrow> False | c # cs \<Rightarrow> glob_match (p # ps) cs)
      else if p = CHR 0x5C then
        (case ps of [] \<Rightarrow> False | q # qs \<Rightarrow> (case s of [] \<Rightarrow> False | c # cs \<Rightarrow> q = c \<and> glob_match qs cs))
      else if p = CHR ''['' then False
      else (case s of [] \<Rightarrow> False | c # cs \<Rightarrow> (p = CHR ''?'' \<or> p = c) \<and> glob_match ps cs))"

lemma glob_star [simp]: "glob_match ''*'' s"
  by (induction s) auto

lemma glob_literal: "glob_match (concat (map escape_glob prefix) @ ''*'') s \<longleftrightarrow> starts_with prefix s"
proof (induction prefix arbitrary: s)
  case (Cons ch prefix)
  show ?case
    by (cases s) (auto simp: Cons.IH escape_glob_def [of ch] is_glob_meta_def [of ch])
qed (simp only: list.map concat.simps append_Nil glob_star starts_with.simps)

lemma starts_with_iff: "starts_with p s \<longleftrightarrow> (\<exists>rest. s = p @ rest)"
  by (induction p s rule: starts_with.induct) auto

section \<open>Lemmas: sealing a text\<close>

lemma string_find_append:
  assumes "p \<noteq> []" "string_find (pre @ p @ post) p = Some n"
  shows "n \<le> length pre"
  using assms
proof (induction pre arbitrary: n)
  case Nil
  have "starts_with p (p @ post)"
    using starts_with_iff by blast
  with Nil show ?case by (cases "p @ post") auto
qed (auto split: if_splits)

lemma string_find_Some:
  "string_find s p = Some n \<Longrightarrow> \<exists>pre post. s = pre @ p @ post \<and> length pre = n"
proof (induction s p arbitrary: n rule: string_find.induct)
  case (2 c s p)
  show ?case
  proof (cases "starts_with p (c # s)")
    case True
    with 2 show ?thesis by (auto simp: starts_with_iff)
  next
    case False
    with 2 obtain m where m: "string_find s p = Some m" "n = Suc m" by auto
    with 2(1) [OF False m(1)] show ?thesis by (metis append_Cons length_Cons)
  qed
qed (auto split: if_splits)

lemma string_find_None: "string_find s p = None \<Longrightarrow> s \<noteq> pre @ p @ post"
proof (induction s p arbitrary: pre rule: string_find.induct)
  case (2 c s p)
  then have no: "\<not> starts_with p (c # s)" "string_find s p = None" by (auto split: if_splits)
  show ?case
  proof (cases pre)
    case Nil
    with no(1) show ?thesis by (auto simp: starts_with_iff)
  next
    case (Cons x xs)
    with 2(1) [OF no, of xs] show ?thesis by auto
  qed
qed (auto split: if_splits)

section \<open>The contract clients rely on\<close>

type_synonym channel_updater = "channel_state option \<Rightarrow> store_error + channel_state"

text \<open>A sequence of updates, whatever each of them answered.\<close>

fun update_all :: "(string \<Rightarrow> channel_updater \<Rightarrow> 's \<Rightarrow> (store_error + channel_state) \<times> 's)
    \<Rightarrow> (string \<times> channel_updater) list \<Rightarrow> 's \<Rightarrow> 's" where
  "update_all update [] s = s"
| "update_all update ((i, u) # us) s = update_all update us (snd (update i u s))"

text \<open>
  \<open>stored\<close> is what the store keeps of a record an updater returned: the record itself, up to
  the schema version of the writer.
\<close>

locale channel_store =
  fixes update :: "string \<Rightarrow> (channel_state option \<Rightarrow> store_error + channel_state) \<Rightarrow> 's
      \<Rightarrow> (store_error + channel_state) \<times> 's"
    and contents :: "'s \<Rightarrow> channels"
    and stored :: "channel_state \<Rightarrow> channel_state"
  assumes update_ok: "update i u s = (Inr st, s') \<Longrightarrow>
      \<exists>st0. u (contents s i) = Inr st0 \<and> st = stored st0 \<and> contents s' = (contents s)(i \<mapsto> st)"
    and update_err: "update i u s = (Inl e, s') \<Longrightarrow> contents s' = contents s"
    and stored_version: "\<exists>v. stored st = st\<lparr>cs_schema_version := v\<rparr>"
begin

text \<open>A relation every updater keeps, and the schema version does not touch, holds from end to end.\<close>

lemma update_all_keeps:
  assumes refl: "\<And>st. R st st" and trans: "\<And>a b c. R a b \<Longrightarrow> R b c \<Longrightarrow> R a c"
    and version: "\<And>a b v. R a b \<Longrightarrow> R a (b\<lparr>cs_schema_version := v\<rparr>)"
    and keeps: "\<And>i u st st'. (i, u) \<in> set us \<Longrightarrow> u (Some st) = Inr st' \<Longrightarrow> R st st'"
    and "contents s i = Some st"
  shows "\<exists>st'. contents (update_all update us s) i = Some st' \<and> R st st'"
  using assms(4-)
proof (induction us arbitrary: s st)
  case Nil
  then show ?case by (simp add: refl)
next
  case (Cons x us)
  obtain j u where x: "x = (j, u)" by force
  obtain r s' where up: "update j u s = (r, s')" by force
  have "\<exists>st1. contents s' i = Some st1 \<and> R st st1"
  proof (cases r)
    case (Inl e)
    with update_err up Cons.prems(2) refl show ?thesis by metis
  next
    case (Inr new)
    with up update_ok obtain st0 where st0: "u (contents s j) = Inr st0" "new = stored st0"
        "contents s' = (contents s)(j \<mapsto> new)"
      by blast
    show ?thesis
    proof (cases "j = i")
      case True
      then have "R st st0"
        using st0(1) Cons.prems x by auto
      then show ?thesis
        using True st0 version stored_version [of st0] by auto
    qed (use st0 Cons.prems(2) refl in auto)
  qed
  then obtain st1 where st1: "contents s' i = Some st1" "R st st1" by blast
  have "\<exists>st'. contents (update_all update us s') i = Some st' \<and> R st1 st'"
    using Cons.prems(1) st1(1) by (intro Cons.IH) auto
  with st1(2) trans show ?case
    using x up by auto
qed

end

interpretation memory_channels: channel_store update_channel "\<lambda>s. s" "\<lambda>st. st"
proof
  show "\<exists>v. st = st\<lparr>cs_schema_version := v\<rparr>" for st :: channel_state
    by (rule exI [of _ "cs_schema_version st"]) simp
qed (auto simp: update_channel_def split: option.splits sum.splits)

text \<open>A method running alone on the server.\<close>

primrec run_alone :: "('raw, 'r) rprog \<Rightarrow> 'raw redis \<Rightarrow> 'r \<times> 'raw redis" where
  "run_alone (RDone r) = (\<lambda>s. (r, s))"
| "run_alone (RCall c k) = (\<lambda>s. let (reply, s') = serve c s in run_alone (k reply) s')"

definition redis_update_alone :: "'raw record_text \<Rightarrow> string \<Rightarrow> string
    \<Rightarrow> (channel_state option \<Rightarrow> store_error + channel_state) \<Rightarrow> 'raw redis
    \<Rightarrow> (store_error + channel_state) \<times> 'raw redis" where
  "redis_update_alone T prefix i u s = run_alone (redis_update_channel T (redis_key prefix i) u) s"

definition plain_text :: "channel_state record_text" where
  "plain_text = \<lparr>state_to_text = Inr, state_from_text = Inr\<rparr>"

lemma text_ok_plain [simp]: "text_ok plain_text"
  by (simp add: text_ok_def plain_text_def)

lemma redis_update_alone_eq:
  assumes "text_ok T"
  shows "\<exists>raw. redis_update_alone T prefix i u s =
    (case try_bind (decode_opt T (map_option fst (s (redis_key prefix i)))) u of
       Inl e \<Rightarrow> (Inl e, s)
     | Inr st \<Rightarrow> (Inr (stamp st), s(redis_key prefix i \<mapsto>
         (raw, Option.bind (s (redis_key prefix i)) snd))))
    \<and> (\<forall>st. try_bind (decode_opt T (map_option fst (s (redis_key prefix i)))) u = Inr st \<longrightarrow>
         decode T raw = Inr (stamp st))"
proof (cases "try_bind (decode_opt T (map_option fst (s (redis_key prefix i)))) u")
  case (Inl e)
  then show ?thesis
    by (simp add: redis_update_alone_def redis_update_channel_def get_raw_def)
next
  case (Inr st)
  obtain raw where raw: "encode_for_write T st = Inr (raw, stamp st)"
    using encode_total [OF assms] .
  have "cas_script (redis_key prefix i) (map_option fst (s (redis_key prefix i))) raw s
      = (1, s(redis_key prefix i \<mapsto> (raw, Option.bind (s (redis_key prefix i)) snd)))"
    by (cases "s (redis_key prefix i)") (auto simp: cas_script_def)
  with Inr raw decode_stamped(2) [OF assms raw] show ?thesis
    by (auto simp: redis_update_alone_def redis_update_channel_def get_raw_def write_back_def
        compare_and_set_def)
qed

lemma redis_channel_store:
  assumes "text_ok T"
  shows "channel_store (redis_update_alone T prefix) (redis_view T prefix) stamp"
proof
  fix i u s st s'
  assume up: "redis_update_alone T prefix i u s = (Inr st, s')"
  let ?key = "redis_key prefix i"
  obtain raw st0 where st0: "try_bind (decode_opt T (map_option fst (s ?key))) u = Inr st0"
      "st = stamp st0" "s' = s(?key \<mapsto> (raw, Option.bind (s ?key) snd))" "decode T raw = Inr (stamp st0)"
    using redis_update_alone_eq [OF assms, of prefix i u s] up
    by (cases "try_bind (decode_opt T (map_option fst (s ?key))) u") auto
  then obtain current where "decode_opt T (map_option fst (s ?key)) = Inr current" "u current = Inr st0"
    by (auto simp: try_bind_Inr_iff)
  with decode_opt_view [of T s prefix i current] st0 redis_view_write [OF st0(4), of prefix s i]
  show "\<exists>st0. u (redis_view T prefix s i) = Inr st0 \<and> st = stamp st0
      \<and> redis_view T prefix s' = (redis_view T prefix s)(i \<mapsto> st)"
    by auto
next
  fix i u s e s'
  assume "redis_update_alone T prefix i u s = (Inl e, s')"
  then show "redis_view T prefix s' = redis_view T prefix s"
    using redis_update_alone_eq [OF assms, of prefix i u s]
    by (cases "try_bind (decode_opt T (map_option fst (s (redis_key prefix i)))) u") auto
next
  show "\<exists>v. stamp st = st\<lparr>cs_schema_version := v\<rparr>" for st
    by (auto simp: stamp_def)
qed

interpretation redis_channels: channel_store "redis_update_alone plain_text prefix"
    "redis_view plain_text prefix" stamp for prefix
  by (rule redis_channel_store) simp

section \<open>Properties\<close>

text \<open>
  C12.  An update of a Redis-backed channel is atomic.  Whatever other gateways do to the store
  before each of its calls, and whichever calls are lost, an update that succeeds has, at one of
  its calls, exactly the effect and the answer of the in-memory update (with the schema version
  stamped), and its other calls change nothing.  One that fails changes nothing, or, when a reply was
  lost, at one of its calls it had exactly the effect of an in-memory update that succeeds, whose
  answer is what was lost; its other calls then change nothing.
\<close>

theorem redis_update_linearizable:
  assumes "text_ok T"
    and "run_env ts (redis_update_channel T (redis_key prefix i) updater) s = Some (r, tr)"
  shows "(\<forall>st. r = Inr st \<longrightarrow> linearized T prefix (update_channel i (stamping updater)) r tr)
    \<and> (r = Inl e \<longrightarrow> untouched tr
        \<or> list_ex reply_lost ts \<and> (\<exists>answer. linearized T prefix (update_channel i (stamping updater)) (Inr answer) tr))"
  using redis_update_linearized [OF assms, of e] by simp

theorem redis_update_linearizable_witness:
  "\<exists>r tr. run_env [Serve id, Serve (\<lambda>s. s(''k'' \<mapsto> (sample_channel, None)))]
       (redis_update_channel plain_text (redis_key [] ''k'')
          (\<lambda>current. Inr sample_channel)) Map.empty = Some (r, tr)
     \<and> r = Inl conflict_error \<and> untouched tr"
proof -
  obtain tr where run: "run_env [Serve id, Serve (\<lambda>s. s(''k'' \<mapsto> (sample_channel, None)))]
       (redis_update_channel plain_text (redis_key [] ''k'')
          (\<lambda>current. Inr sample_channel)) Map.empty = Some (Inl conflict_error, tr)"
    by (simp add: redis_update_channel_def get_raw_def decode_opt_def write_back_def
        encode_for_write_def plain_text_def compare_and_set_def cas_script_def redis_key_def Let_def)
  with redis_update_linearizable [OF text_ok_plain run, of conflict_error] show ?thesis by auto
qed

text \<open>
  Reserving on a Redis-backed channel is atomic.  The same holds for \<open>mutate_channel\<close>, and
  so for the authorization reservation that runs through it: of all gateways reserving at the
  same time, each either behaves as the in-memory reservation at one instant or changes nothing.
\<close>

theorem redis_reserve_linearizable:
  assumes "text_ok T"
    and "run_env ts (redis_mutate_channel T (redis_key prefix i) seed
          (reserve_authorization_staged request prepare)) s = Some (r, tr)"
  shows "(\<forall>outcome. r = Inr outcome \<longrightarrow> linearized T prefix
        (mutate_channel i seed (stamping_mutator (reserve_authorization_staged request prepare))) r tr)
    \<and> (r = Inl e \<longrightarrow> untouched tr
        \<or> list_ex reply_lost ts \<and> (\<exists>answer. linearized T prefix
            (mutate_channel i seed (stamping_mutator (reserve_authorization_staged request prepare))) (Inr answer) tr))"
  using redis_mutate_linearized [OF assms, of e] by simp

theorem redis_reserve_linearizable_witness:
  "\<exists>tr. run_env [Serve id, Serve (\<lambda>s. s(''k'' := None))]
       (redis_mutate_channel plain_text (redis_key [] ''k'') None
          (reserve_authorization_staged sample_request (\<lambda>_. Inr None)))
       [''k'' \<mapsto> (sample_channel, None)] = Some (Inl conflict_error, tr)
     \<and> untouched tr"
proof -
  have grant: "\<exists>st'. reserve_authorization_staged sample_request (\<lambda>_. Inr None) sample_channel
      = (Inr (BReserved sample_token), st')"
    by (simp add: reserve_authorization_staged_def auth_eval sample_request_def sample_channel_def
        sample_token_def)
  have version: "\<not> CHANNEL_STATE_SCHEMA_VERSION < cs_schema_version sample_channel"
    by (simp add: sample_channel_def CHANNEL_STATE_SCHEMA_VERSION_def)
  obtain tr where run: "run_env [Serve id, Serve (\<lambda>s. s(''k'' := None))]
       (redis_mutate_channel plain_text (redis_key [] ''k'') None
          (reserve_authorization_staged sample_request (\<lambda>_. Inr None)))
       [''k'' \<mapsto> (sample_channel, None)] = Some (Inl conflict_error, tr)"
    using grant version
    by (auto simp: redis_mutate_channel_def get_raw_def decode_opt_def decode_def write_back_def
        encode_for_write_def plain_text_def compare_and_set_def cas_script_def redis_key_def Let_def)
  with redis_reserve_linearizable [OF text_ok_plain run, of conflict_error] show ?thesis by auto
qed

text \<open>
  Namespaces are disjoint.  The keys of two configured namespaces never coincide, and a
  scan of one namespace matches exactly its own keys, whatever characters the namespaces hold
  and even when one is a prefix of the other.
\<close>

theorem namespaces_disjoint:
  "(redis_key (namespace_key_prefix a) i = redis_key (namespace_key_prefix b) j) = (a = b \<and> i = j)
   \<and> glob_match (scan_pattern (namespace_key_prefix a)) (redis_key (namespace_key_prefix b) j) = (a = b)"
proof
  show "(redis_key (namespace_key_prefix a) i = redis_key (namespace_key_prefix b) j) = (a = b \<and> i = j)"
    using namespace_key_inject by blast
  have "glob_match (scan_pattern (namespace_key_prefix a)) (redis_key (namespace_key_prefix b) j)
      \<longleftrightarrow> (\<exists>k. redis_key (namespace_key_prefix b) j = redis_key (namespace_key_prefix a) k)"
    unfolding scan_pattern_def glob_literal starts_with_iff by (auto simp: redis_key_def)
  then show "glob_match (scan_pattern (namespace_key_prefix a)) (redis_key (namespace_key_prefix b) j)
      = (a = b)"
    using namespace_key_inject by blast
qed

text \<open>
  The sealing script edits the record as text.  On a text that does not contain
  \<open>"sealed":true\<close> it replaces the first \<open>"sealed":false\<close>, and only that; but whenever the text
  contains \<open>"sealed":true\<close> anywhere, even inside a nested member while the record's own flag is
  false, it reports success and writes nothing.
\<close>

theorem seal_text_effect:
  assumes "string_find raw sealed_true = None" "raw = pre @ sealed_false @ post"
    and "\<forall>p q. raw = p @ sealed_false @ q \<longrightarrow> length pre \<le> length p"
  shows "seal_text raw = (1, Some (pre @ sealed_true @ post))
    \<and> seal_text (x @ sealed_true @ y) = (1, None)
    \<and> seal_result (fst (seal_text (x @ sealed_true @ y))) = Inr ()"
proof -
  obtain n where n: "string_find raw sealed_false = Some n"
    using string_find_None [of raw sealed_false pre post] assms(2) by (cases "string_find raw sealed_false") auto
  then obtain p q where pq: "raw = p @ sealed_false @ q" "length p = n"
    using string_find_Some by blast
  have "n \<le> length pre"
    using string_find_append [of sealed_false pre post n] n assms(2) by (simp add: sealed_false_def)
  then have "n = length pre"
    using assms(3) pq by fastforce
  then have "seal_text raw = (1, Some (pre @ sealed_true @ post))"
    using assms(1,2) n by (simp add: seal_text_def)
  moreover have "string_find (x @ sealed_true @ y) sealed_true \<noteq> None"
    using string_find_None by blast
  ultimately show ?thesis
    by (simp add: seal_text_def seal_result_def)
qed

theorem seal_text_effect_witness:
  "seal_text (''{'' @ sealed_false @ ''}'') = (1, Some (''{'' @ sealed_true @ ''}''))
   \<and> seal_text (''{'' @ sealed_false @ '',x:{'' @ sealed_true @ ''}}'') = (1, None)"
proof -
  have first: "length ''{'' \<le> length p" if "''{'' @ sealed_false @ ''}'' = p @ sealed_false @ q" for p q
    using that by (cases p) (auto simp: sealed_false_def)
  have "string_find (''{'' @ sealed_false @ ''}'') sealed_true = None"
    by (simp add: sealed_false_def sealed_true_def)
  from seal_text_effect [OF this refl, where x = "''{'' @ sealed_false @ '',x:{''" and y = "''}}''"] first
  show ?thesis by auto
qed

text \<open>
  C37.  The two stores differ when the preparation of a first reservation fails.  Let a reservation
  on a channel that is in neither store bring a seed that would be granted the reservation, and let its
  preparation answer with an error.  Both stores answer with that error; the Redis store is left as it
  was, without a record, but the in-memory store keeps the seed as a channel record.
\<close>

theorem refused_seed_differs:
  assumes "text_ok T" "data i = None" "s (redis_key prefix i) = None"
    and "refuse_reservation seed request = None" "prepare seed = Inl e"
  shows "reserve_on_store i (Some seed) request prepare data = (Inl e, data(i \<mapsto> seed))
    \<and> run_alone (redis_mutate_channel T (redis_key prefix i) (Some seed)
        (reserve_authorization_staged request prepare)) s = (Inl e, s)"
  using assms
  by (simp add: reserve_on_store_def mutate_channel_def reserve_authorization_staged_def
      redis_mutate_channel_def get_raw_def decode_opt_def)

theorem refused_seed_differs_witness:
  "snd (reserve_on_store ''k'' (Some sample_channel) sample_request (\<lambda>_. Inl not_found) Map.empty) ''k''
     = Some sample_channel
   \<and> snd (run_alone (redis_mutate_channel plain_text (redis_key [] ''k'') (Some sample_channel)
        (reserve_authorization_staged sample_request (\<lambda>_. Inl not_found))) Map.empty) (redis_key [] ''k'')
     = None"
proof -
  have "refuse_reservation sample_channel sample_request = None"
    by (simp add: auth_eval sample_request_def sample_channel_def)
  from refused_seed_differs [OF text_ok_plain _ _ this, where data = Map.empty and s = Map.empty
      and i = "''k''" and prefix = "[]" and prepare = "\<lambda>_. Inl not_found" and e = not_found]
  show ?thesis by simp
qed

end
