(* ===== verification/Voucher_Session.thy ===== *)
theory Voucher_Session
  imports Voucher Channel_Store
begin

text \<open>
  \<open>accept_voucher\<close> of \<open>core/session.rs\<close>: the server's acceptance of a cumulative voucher.

  The code reads the channel, checks the voucher against that snapshot, and then commits under
  the store's lock, where the decision is made again.  The two awaits are two steps: \<open>env\<close> is
  whatever happens to the store between them.  \<open>accept_all\<close> runs the locked halves of any
  number of requests in any order.
\<close>

section \<open>Requests\<close>

record voucher_request =
  vq_channel_id :: string
  vq_cumulative :: u64
  vq_expires_at :: i64
  vq_signature :: string
  vq_now :: i64
  vq_min_voucher_delta :: u64
  vq_settlement_window :: i64
  vq_required_availability :: u64

record voucher_acceptance =
  va_cumulative :: u64
  va_charged :: u64
  va_replay :: bool

text \<open>\<open>Display\<close> of a store error, and the error an operation on the store becomes.\<close>

fun show_store_error :: "store_error \<Rightarrow> string" where
  "show_store_error (Internal e) = ''Store error: '' @ e"
| "show_store_error (Serialization e) = ''Serialization error: '' @ e"

definition store_err :: "store_error \<Rightarrow> core_error" where
  "store_err e = Other (''store error: '' @ show_store_error e)"

definition close_pending :: string where
  "close_pending =
     ''Channel close is pending '' @ [CHR 0xE2, CHR 0x80, CHR 0x94] @ '' no further vouchers accepted''"

definition is_replay :: "voucher_request \<Rightarrow> channel_state \<Rightarrow> bool" where
  "is_replay q state \<longleftrightarrow>
     vq_cumulative q = cs_cumulative state
     \<and> cs_highest_voucher_signature state = Some (vq_signature q)"

section \<open>Checks against the snapshot\<close>

text \<open>
  \<open>batch\<close> is the verdict of the batched verifier when that mode is on; otherwise the signature
  is verified in place.
\<close>

definition verify_request :: "'key crypto \<Rightarrow> ('key verify_parts \<Rightarrow> bool) option \<Rightarrow> voucher_request
    \<Rightarrow> string \<Rightarrow> core_error + unit" where
  "verify_request K batch q authorized_signer =
     (case batch of
        Some verdict \<Rightarrow>
          try_bind (voucher_verify_parts K (vq_channel_id q) (vq_cumulative q) (vq_expires_at q)
              (vq_signature q) authorized_signer (vq_now q) (vq_settlement_window q)) (\<lambda>parts.
            if \<not> verdict parts then Inl verification_failed else Inr ())
      | None \<Rightarrow>
          verify_voucher_signature K (vq_channel_id q) (vq_cumulative q) (vq_expires_at q)
            (vq_signature q) authorized_signer (vq_now q) (vq_settlement_window q))"

definition voucher_precheck :: "'key crypto \<Rightarrow> ('key verify_parts \<Rightarrow> bool) option \<Rightarrow> voucher_request
    \<Rightarrow> channel_state \<Rightarrow> core_error + unit" where
  "voucher_precheck K batch q state =
     (if cs_sealed state then Inl (Other ''Channel is already sealed'')
      else if cs_close_requested_at state \<noteq> None then Inl (Other close_pending)
      else if \<not> is_replay q state \<and> vq_cumulative q \<le> cs_cumulative state
      then Inl (Other (''Voucher cumulative '' @ show_nat (unat (vq_cumulative q))
             @ '' must exceed watermark '' @ show_nat (unat (cs_cumulative state))))
      else if vq_cumulative q > cs_deposit state
      then Inl (Other (''Voucher cumulative '' @ show_nat (unat (vq_cumulative q))
             @ '' exceeds deposit '' @ show_nat (unat (cs_deposit state))))
      else (let delta = saturating_sub (vq_cumulative q) (cs_cumulative state) in
        if \<not> is_replay q state \<and> vq_min_voucher_delta q > 0 \<and> delta < vq_min_voucher_delta q
        then Inl (Other (''Voucher delta '' @ show_nat (unat delta) @ '' is below minimum ''
               @ show_nat (unat (vq_min_voucher_delta q))))
        else verify_request K batch q (cs_authorized_signer state)))"

section \<open>The decision under the lock\<close>

type_synonym commit_callback = "channel_state \<Rightarrow> bool \<Rightarrow> store_error + channel_state"

text \<open>The closure given to \<open>update_channel\<close>; its second component is the captured replay flag.\<close>

definition voucher_updater :: "voucher_request \<Rightarrow> commit_callback \<Rightarrow> channel_state option
    \<Rightarrow> store_error + channel_state \<times> bool" where
  "voucher_updater q commit state_opt =
     try_bind (ok_or state_opt not_found) (\<lambda>state.
       if cs_sealed state then Inl (Internal ''Channel is already sealed'')
       else if cs_close_requested_at state \<noteq> None then Inl (Internal close_pending)
       else if is_replay q state
       then try_bind (commit state True) (\<lambda>state'. Inr (state', True))
       else if vq_cumulative q \<le> cs_cumulative state
       then Inl (Internal ''Concurrent update: watermark advanced'')
       else if saturating_sub (vq_cumulative q) (cs_spent_amount state) < vq_required_availability q
       then Inl (Internal ''insufficient authorized voucher availability'')
       else try_bind (commit state False) (\<lambda>state'.
         Inr (state'\<lparr>cs_cumulative := vq_cumulative q,
                     cs_highest_voucher_signature := Some (vq_signature q),
                     cs_highest_voucher_expires_at := Some (vq_expires_at q)\<rparr>, False)))"

definition state_updater :: "voucher_request \<Rightarrow> commit_callback \<Rightarrow> channel_state option
    \<Rightarrow> store_error + channel_state" where
  "state_updater q commit state_opt = map_sum id fst (voucher_updater q commit state_opt)"

definition accept_locked :: "voucher_request \<Rightarrow> commit_callback \<Rightarrow> u64 \<Rightarrow> channels
    \<Rightarrow> (core_error + voucher_acceptance) \<times> channels" where
  "accept_locked q commit prior_cumulative data =
     (let was_replay = (case voucher_updater q commit (data (vq_channel_id q)) of
                          Inr (_, replay) \<Rightarrow> replay | Inl _ \<Rightarrow> False) in
      case update_channel (vq_channel_id q) (state_updater q commit) data of
        (Inl e, data') \<Rightarrow> (Inl (store_err e), data')
      | (Inr new_state, data') \<Rightarrow>
          (Inr \<lparr>va_cumulative = cs_cumulative new_state,
                va_charged = (if was_replay then 0
                              else saturating_sub (cs_cumulative new_state) prior_cumulative),
                va_replay = was_replay\<rparr>, data'))"

section \<open>The whole acceptance\<close>

definition accept_voucher_with_commit :: "'key crypto \<Rightarrow> ('key verify_parts \<Rightarrow> bool) option
    \<Rightarrow> (channels \<Rightarrow> channels) \<Rightarrow> commit_callback \<Rightarrow> voucher_request \<Rightarrow> channels
    \<Rightarrow> (core_error + voucher_acceptance) \<times> channels" where
  "accept_voucher_with_commit K batch env commit q data =
     (case get_channel (vq_channel_id q) data of
        (Inl e, data') \<Rightarrow> (Inl (store_err e), data')
      | (Inr None, data') \<Rightarrow>
          (Inl (Other (''Channel '' @ vq_channel_id q @ '' not found'')), data')
      | (Inr (Some state), data') \<Rightarrow>
          (case voucher_precheck K batch q state of
             Inl e \<Rightarrow> (Inl e, data')
           | Inr _ \<Rightarrow> accept_locked q commit (cs_cumulative state) (env data')))"

definition no_commit :: commit_callback where
  "no_commit state replay = Inr state"

definition accept_voucher :: "'key crypto \<Rightarrow> ('key verify_parts \<Rightarrow> bool) option
    \<Rightarrow> (channels \<Rightarrow> channels) \<Rightarrow> voucher_request \<Rightarrow> channels
    \<Rightarrow> (core_error + voucher_acceptance) \<times> channels" where
  "accept_voucher K batch env q data = accept_voucher_with_commit K batch env no_commit q data"

text \<open>The locked halves of many requests, each with the watermark of its own snapshot.\<close>

fun accept_all :: "(voucher_request \<times> commit_callback \<times> u64) list \<Rightarrow> channels
    \<Rightarrow> (core_error + voucher_acceptance) list \<times> channels" where
  "accept_all [] data = ([], data)"
| "accept_all ((q, commit, prior) # qs) data =
     (let (r, data') = accept_locked q commit prior data; (rs, data'') = accept_all qs data' in
      (r # rs, data''))"

section \<open>Lemmas\<close>

text \<open>A callback that leaves the watermark alone.\<close>

definition keeps_watermark :: "commit_callback \<Rightarrow> bool" where
  "keeps_watermark commit \<longleftrightarrow>
     (\<forall>st b st'. commit st b = Inr st' \<longrightarrow> cs_cumulative st' = cs_cumulative st)"

lemma keeps_watermark_no_commit [simp]: "keeps_watermark no_commit"
  by (simp add: keeps_watermark_def no_commit_def)

lemma voucher_updater_watermark:
  assumes "voucher_updater q commit (Some st) = Inr (st', replay)" "keeps_watermark commit"
  shows "if replay then cs_cumulative st' = cs_cumulative st \<and> is_replay q st
    else cs_cumulative st' = vq_cumulative q \<and> cs_cumulative st < vq_cumulative q"
  using assms
  by (auto simp: voucher_updater_def keeps_watermark_def try_bind_Inr_iff split: if_splits)

lemma state_updater_watermark:
  assumes "state_updater q commit (Some st) = Inr st'" "keeps_watermark commit"
  shows "cs_cumulative st \<le> cs_cumulative st'"
proof -
  obtain replay where "voucher_updater q commit (Some st) = Inr (st', replay)"
    using assms(1) by (cases "voucher_updater q commit (Some st)") (auto simp: state_updater_def)
  from voucher_updater_watermark [OF this assms(2)] show ?thesis
    by (auto split: if_splits)
qed

lemma accept_locked_cases:
  assumes "accept_locked q commit prior data = (r, data')"
  obtains (refused) e where "r = Inl e" "data' = data"
  | (accepted) st' replay where "voucher_updater q commit (data (vq_channel_id q)) = Inr (st', replay)"
      "data' = data(vq_channel_id q \<mapsto> st')"
      "r = Inr \<lparr>va_cumulative = cs_cumulative st',
        va_charged = (if replay then 0 else saturating_sub (cs_cumulative st') prior),
        va_replay = replay\<rparr>"
proof (cases "voucher_updater q commit (data (vq_channel_id q))")
  case (Inl e)
  with assms show ?thesis
    by (intro refused [of "store_err e"])
      (auto simp: accept_locked_def update_channel_def state_updater_def split: option.splits)
next
  case (Inr x)
  obtain st' replay where x: "x = (st', replay)" by force
  with Inr assms show ?thesis
    by (intro accepted [of st' replay])
      (auto simp: accept_locked_def update_channel_def state_updater_def split: option.splits)
qed

lemma updater_None [simp]: "voucher_updater q commit None = Inl not_found"
  by (simp add: voucher_updater_def)

text \<open>The cumulative amounts of the requests that were accepted as a new charge, in order.\<close>

definition fresh_of :: "core_error + voucher_acceptance \<Rightarrow> u64 option" where
  "fresh_of r = (case r of Inl _ \<Rightarrow> None | Inr a \<Rightarrow> if va_replay a then None else Some (va_cumulative a))"

definition fresh :: "(core_error + voucher_acceptance) list \<Rightarrow> u64 list" where
  "fresh rs = List.map_filter fresh_of rs"

lemma fresh_Cons:
  "fresh (r # rs) = (case fresh_of r of None \<Rightarrow> fresh rs | Some c \<Rightarrow> c # fresh rs)"
  by (simp add: fresh_def List.map_filter_simps split: option.split)

lemma accept_all_watermark:
  assumes "\<forall>(q, commit, prior) \<in> set qs. vq_channel_id q = i \<and> keeps_watermark commit"
    and "data i = Some st" "accept_all qs data = (rs, data')"
  shows "\<exists>st'. data' i = Some st' \<and> sorted_wrt (<) (cs_cumulative st # fresh rs)
    \<and> cs_cumulative st' = last (cs_cumulative st # fresh rs)"
  using assms
proof (induction qs arbitrary: data st rs data')
  case Nil
  then show ?case by (simp add: fresh_def List.map_filter_simps)
next
  case (Cons x qs)
  obtain q commit prior where x: "x = (q, commit, prior)" by (cases x)
  obtain r data1 where r: "accept_locked q commit prior data = (r, data1)" by force
  obtain rs1 where rs: "rs = r # rs1" "accept_all qs data1 = (rs1, data')"
    using Cons.prems(3) r x by (auto split: prod.splits)
  have q: "vq_channel_id q = i" "keeps_watermark commit"
    using Cons.prems(1) x by auto
  have rest: "\<forall>(q, commit, prior) \<in> set qs. vq_channel_id q = i \<and> keeps_watermark commit"
    using Cons.prems(1) by simp
  from r show ?case
  proof (cases rule: accept_locked_cases)
    case (refused e)
    then show ?thesis
      using Cons.IH [OF rest _ rs(2)] Cons.prems(2) by (simp add: rs(1) fresh_Cons fresh_of_def)
  next
    case (accepted st1 replay)
    then have up: "voucher_updater q commit (Some st) = Inr (st1, replay)"
      using Cons.prems(2) q(1) by simp
    have d1: "data1 i = Some st1"
      using accepted(2) q(1) by simp
    obtain st' where st': "data' i = Some st'" "sorted_wrt (<) (cs_cumulative st1 # fresh rs1)"
        "cs_cumulative st' = last (cs_cumulative st1 # fresh rs1)"
      using Cons.IH [OF rest d1 rs(2)] by blast
    show ?thesis
      using voucher_updater_watermark [OF up q(2)] st' accepted(3)
      by (cases replay) (auto simp: rs(1) fresh_Cons fresh_of_def)
  qed
qed

text \<open>What the checks on the snapshot let through.\<close>

lemma voucher_precheck_ok:
  "voucher_precheck K batch q st = Inr () \<longleftrightarrow>
     \<not> cs_sealed st \<and> cs_close_requested_at st = None \<and> vq_cumulative q \<le> cs_deposit st
     \<and> (is_replay q st \<or> cs_cumulative st < vq_cumulative q
          \<and> (vq_min_voucher_delta q = 0
              \<or> vq_min_voucher_delta q \<le> saturating_sub (vq_cumulative q) (cs_cumulative st)))
     \<and> verify_request K batch q (cs_authorized_signer st) = Inr ()"
  by (auto simp: voucher_precheck_def Let_def not_le not_less word_gt_0)

definition chargeable :: "'key crypto \<Rightarrow> ('key verify_parts \<Rightarrow> bool) option \<Rightarrow> voucher_request
    \<Rightarrow> channel_state \<Rightarrow> bool" where
  "chargeable K batch q st \<longleftrightarrow>
     \<not> cs_sealed st \<and> cs_close_requested_at st = None
     \<and> cs_cumulative st < vq_cumulative q \<and> vq_cumulative q \<le> cs_deposit st
     \<and> (vq_min_voucher_delta q = 0
         \<or> unat (vq_min_voucher_delta q) \<le> unat (vq_cumulative q) - unat (cs_cumulative st))
     \<and> unat (vq_required_availability q) \<le> unat (vq_cumulative q) - unat (cs_spent_amount st)
     \<and> verify_request K batch q (cs_authorized_signer st) = Inr ()"

definition replayable :: "'key crypto \<Rightarrow> ('key verify_parts \<Rightarrow> bool) option \<Rightarrow> voucher_request
    \<Rightarrow> channel_state \<Rightarrow> bool" where
  "replayable K batch q st \<longleftrightarrow>
     \<not> cs_sealed st \<and> cs_close_requested_at st = None
     \<and> is_replay q st \<and> vq_cumulative q \<le> cs_deposit st
     \<and> verify_request K batch q (cs_authorized_signer st) = Inr ()"

lemma saturating_sub_unat [simp]: "unat (saturating_sub a b) = unat a - unat (b :: u64)"
  by (rule unat_saturating_sub)

lemma le_saturating_sub: "x \<le> saturating_sub a b \<longleftrightarrow> unat x \<le> unat a - unat (b :: u64)"
  by (simp add: word_le_nat_alt)

lemma saturating_sub_less: "saturating_sub a b < x \<longleftrightarrow> unat a - unat b < unat (x :: u64)"
  by (simp add: word_less_nat_alt)

lemma accept_locked_no_commit:
  assumes "data (vq_channel_id q) = Some st" "\<not> cs_sealed st" "cs_close_requested_at st = None"
  shows "if is_replay q st
    then accept_locked q no_commit prior data =
      (Inr \<lparr>va_cumulative = cs_cumulative st, va_charged = 0, va_replay = True\<rparr>, data)
    else if cs_cumulative st < vq_cumulative q
      \<and> unat (vq_required_availability q) \<le> unat (vq_cumulative q) - unat (cs_spent_amount st)
    then accept_locked q no_commit prior data =
      (Inr \<lparr>va_cumulative = vq_cumulative q, va_charged = saturating_sub (vq_cumulative q) prior,
            va_replay = False\<rparr>,
       data(vq_channel_id q \<mapsto> st\<lparr>cs_cumulative := vq_cumulative q,
          cs_highest_voucher_signature := Some (vq_signature q),
          cs_highest_voucher_expires_at := Some (vq_expires_at q)\<rparr>))
    else (\<exists>e. accept_locked q no_commit prior data = (Inl e, data))"
  using assms
  by (auto simp: accept_locked_def update_channel_def state_updater_def voucher_updater_def
      no_commit_def Let_def fun_upd_idem not_less not_le saturating_sub_less)

lemma chargeable_accepted:
  assumes "data (vq_channel_id q) = Some st" "chargeable K batch q st"
  shows "accept_voucher K batch id q data =
    (Inr \<lparr>va_cumulative = vq_cumulative q, va_charged = vq_cumulative q - cs_cumulative st, va_replay = False\<rparr>,
     data(vq_channel_id q \<mapsto> st\<lparr>cs_cumulative := vq_cumulative q,
        cs_highest_voucher_signature := Some (vq_signature q),
        cs_highest_voucher_expires_at := Some (vq_expires_at q)\<rparr>))"
proof -
  have less: "cs_cumulative st < vq_cumulative q" using assms(2) by (simp add: chargeable_def)
  then have "saturating_sub (vq_cumulative q) (cs_cumulative st) = vq_cumulative q - cs_cumulative st"
    using order.asym [OF less] by (auto simp: saturating_sub_def)
  moreover have "voucher_precheck K batch q st = Inr ()"
    using assms(2) by (auto simp: voucher_precheck_ok chargeable_def le_saturating_sub)
  moreover have "vq_cumulative q \<noteq> cs_cumulative st" using less by auto
  ultimately show ?thesis
    using accept_locked_no_commit [of data q st "cs_cumulative st"] assms less
    by (auto simp: accept_voucher_def accept_voucher_with_commit_def get_channel_def chargeable_def is_replay_def)
qed

section \<open>Properties\<close>

text \<open>
  C27.  What accepting a voucher does.  With nothing in between, a voucher is accepted exactly
  when the channel is open and it either is a valid new charge (properly signed and unexpired, above
  the watermark, within the deposit, at least the minimum step, enough new credit) or repeats
  the highest voucher.  A new charge moves the watermark to the voucher and charges exactly the
  difference; a repeat charges nothing; in every other case nothing changes.
\<close>

theorem accept_voucher_exact:
  assumes "data (vq_channel_id q) = Some st"
  shows "if chargeable K batch q st
    then accept_voucher K batch id q data =
      (Inr \<lparr>va_cumulative = vq_cumulative q, va_charged = vq_cumulative q - cs_cumulative st,
            va_replay = False\<rparr>,
       data(vq_channel_id q \<mapsto> st\<lparr>cs_cumulative := vq_cumulative q,
          cs_highest_voucher_signature := Some (vq_signature q),
          cs_highest_voucher_expires_at := Some (vq_expires_at q)\<rparr>))
    else if replayable K batch q st
    then accept_voucher K batch id q data =
      (Inr \<lparr>va_cumulative = cs_cumulative st, va_charged = 0, va_replay = True\<rparr>, data)
    else (\<exists>e. accept_voucher K batch id q data = (Inl e, data))"
proof (cases "voucher_precheck K batch q st")
  case (Inl e)
  then have "\<not> chargeable K batch q st" "\<not> replayable K batch q st"
    using voucher_precheck_ok [of K batch q st]
    by (auto simp: chargeable_def replayable_def le_saturating_sub)
  with Inl assms show ?thesis
    by (simp add: accept_voucher_def accept_voucher_with_commit_def get_channel_def)
next
  case (Inr u)
  then have pre: "voucher_precheck K batch q st = Inr ()" by simp
  then have st: "\<not> cs_sealed st" "cs_close_requested_at st = None"
    and cases: "is_replay q st \<or> cs_cumulative st < vq_cumulative q"
    using voucher_precheck_ok [of K batch q st] by auto
  have run: "accept_voucher K batch id q data = accept_locked q no_commit (cs_cumulative st) data"
    using assms pre by (simp add: accept_voucher_def accept_voucher_with_commit_def get_channel_def)
  have sub: "saturating_sub (vq_cumulative q) (cs_cumulative st) = vq_cumulative q - cs_cumulative st"
    if "cs_cumulative st < vq_cumulative q"
    using that order.asym [OF that] by (auto simp: saturating_sub_def)
  show ?thesis
    using accept_locked_no_commit [of data q st "cs_cumulative st", OF assms st] pre [unfolded voucher_precheck_ok]
      cases sub
    by (auto simp: run chargeable_def replayable_def le_saturating_sub is_replay_def)
qed

text \<open>A crypto instance that accepts every signature.\<close>

definition yes_crypto :: "nat crypto" where
  "yes_crypto = toy_crypto\<lparr>verify_strict := \<lambda>k m s. True\<rparr>"

definition sample_voucher :: voucher_request where
  "sample_voucher =
     \<lparr>vq_channel_id = ''chan'', vq_cumulative = 150, vq_expires_at = 0, vq_signature = ''sig'',
      vq_now = 1000, vq_min_voucher_delta = 10, vq_settlement_window = 900,
      vq_required_availability = 0\<rparr>"

lemma sample_voucher_verified:
  "verify_request yes_crypto None (sample_voucher\<lparr>vq_cumulative := c, vq_signature := s\<rparr>) signer = Inr ()"
  by (simp add: verify_request_def verify_voucher_signature_def voucher_verify_parts_def map_err_def
      check_expiry_def yes_crypto_def toy_crypto_def sample_voucher_def)

lemma sample_voucher_ok: "verify_request yes_crypto None sample_voucher signer = Inr ()"
proof -
  have "sample_voucher\<lparr>vq_cumulative := 150, vq_signature := ''sig''\<rparr> = sample_voucher"
    by (simp add: sample_voucher_def)
  then show ?thesis
    using sample_voucher_verified [where c = 150 and s = "''sig''"] by simp
qed

lemma accept_voucher_exact_run:
  "\<exists>a data'. accept_voucher yes_crypto None id sample_voucher [''chan'' \<mapsto> sample_channel] = (Inr a, data')"
proof -
  have "voucher_precheck yes_crypto None sample_voucher sample_channel = Inr ()"
    using sample_voucher_ok [of "cs_authorized_signer sample_channel"]
    by (simp add: voucher_precheck_ok) (simp add: sample_channel_def sample_voucher_def le_saturating_sub)
  then show ?thesis
    using accept_locked_no_commit [of "[''chan'' \<mapsto> sample_channel]" sample_voucher sample_channel
        "cs_cumulative sample_channel"]
    by (simp add: accept_voucher_def accept_voucher_with_commit_def get_channel_def sample_voucher_def
        sample_channel_def is_replay_def)
qed

theorem accept_voucher_exact_witness:
  "fst (accept_voucher yes_crypto None id sample_voucher [''chan'' \<mapsto> sample_channel])
     = Inr \<lparr>va_cumulative = 150, va_charged = 50, va_replay = False\<rparr>"
proof -
  have data: "[''chan'' \<mapsto> sample_channel] (vq_channel_id sample_voucher) = Some sample_channel"
    by (simp add: sample_voucher_def)
  have "chargeable yes_crypto None sample_voucher sample_channel"
    using sample_voucher_ok [of "cs_authorized_signer sample_channel"]
    by (simp add: chargeable_def) (simp add: sample_channel_def sample_voucher_def)
  with accept_voucher_exact [where data = "[''chan'' \<mapsto> sample_channel]" and q = sample_voucher
      and st = sample_channel and K = yes_crypto and batch = None, OF data] show ?thesis
    by (simp add: sample_voucher_def sample_channel_def)
qed

text \<open>
  One voucher is charged once.  Let the locked halves of any number of acceptances on one
  channel run in any order, with any callbacks that leave the watermark alone: the amounts
  accepted as new charges are strictly increasing and above the watermark at the start, and the
  watermark ends at the last of them.  No cumulative amount, under whatever signature, is
  accepted as a new charge twice.
\<close>

theorem vouchers_charged_once:
  assumes "\<forall>(q, commit, prior) \<in> set qs. vq_channel_id q = i \<and> keeps_watermark commit"
    and "data i = Some st" "accept_all qs data = (rs, data')"
  shows "sorted_wrt (<) (cs_cumulative st # fresh rs) \<and> distinct (fresh rs)
    \<and> map_option cs_cumulative (data' i) = Some (last (cs_cumulative st # fresh rs))"
proof -
  obtain st' where st': "data' i = Some st'" "sorted_wrt (<) (cs_cumulative st # fresh rs)"
      "cs_cumulative st' = last (cs_cumulative st # fresh rs)"
    using accept_all_watermark [OF assms] by blast
  then show ?thesis by (simp add: strict_sorted_iff)
qed

theorem vouchers_charged_once_witness:
  "\<exists>rs data'. accept_all [(sample_voucher, no_commit, 100), (sample_voucher, no_commit, 100)]
      [''chan'' \<mapsto> sample_channel] = (rs, data')
    \<and> distinct (fresh rs)
    \<and> map_option cs_cumulative (data' ''chan'') = Some (last (cs_cumulative sample_channel # fresh rs))"
proof -
  let ?qs = "[(sample_voucher, no_commit, 100), (sample_voucher, no_commit, 100)]"
  obtain rs data' where run: "accept_all ?qs [''chan'' \<mapsto> sample_channel] = (rs, data')"
    by (metis surj_pair)
  have "\<forall>(q, commit, prior) \<in> set ?qs. vq_channel_id q = ''chan'' \<and> keeps_watermark commit"
    by (simp add: sample_voucher_def)
  from vouchers_charged_once [OF this _ run, of sample_channel] run show ?thesis by auto
qed

text \<open>
  A voucher never exceeds the deposit.  Whatever happens to the channel between the
  snapshot and the lock, as long as its deposit is not lowered, an accepted voucher is within
  the deposit of the record it is written to.
\<close>

theorem accepted_within_deposit:
  assumes "data (vq_channel_id q) = Some st" "env data (vq_channel_id q) = Some st2"
    and "cs_deposit st \<le> cs_deposit st2"
    and "accept_voucher K batch env q data = (Inr a, data')"
  shows "\<exists>st'. data' (vq_channel_id q) = Some st' \<and> cs_cumulative st' = va_cumulative a
    \<and> va_cumulative a = vq_cumulative q \<and> cs_cumulative st' \<le> cs_deposit st'"
proof -
  have pre: "voucher_precheck K batch q st = Inr ()"
    and lock: "accept_locked q no_commit (cs_cumulative st) (env data) = (Inr a, data')"
    using assms(1,4)
    by (auto simp: accept_voucher_def accept_voucher_with_commit_def get_channel_def split: sum.splits)
  have cum: "vq_cumulative q \<le> cs_deposit st2"
    using pre assms(3) by (auto simp: voucher_precheck_ok)
  from lock show ?thesis
  proof (cases rule: accept_locked_cases)
    case (accepted st' replay)
    then have up: "voucher_updater q no_commit (Some st2) = Inr (st', replay)"
      using assms(2) by simp
    then have "cs_deposit st' = cs_deposit st2" "cs_cumulative st' = vq_cumulative q"
      by (auto simp: voucher_updater_def no_commit_def is_replay_def split: if_splits)
    with cum accepted show ?thesis by auto
  qed simp
qed

theorem accepted_within_deposit_witness:
  "\<exists>a data' st'. accept_voucher yes_crypto None id sample_voucher [''chan'' \<mapsto> sample_channel] = (Inr a, data')
     \<and> data' ''chan'' = Some st' \<and> cs_cumulative st' \<le> cs_deposit st'"
proof -
  obtain a data' where run: "accept_voucher yes_crypto None id sample_voucher
      [''chan'' \<mapsto> sample_channel] = (Inr a, data')"
    using accept_voucher_exact_run by blast
  have "[''chan'' \<mapsto> sample_channel] (vq_channel_id sample_voucher) = Some sample_channel"
      "id [''chan'' \<mapsto> sample_channel] (vq_channel_id sample_voucher) = Some sample_channel"
    by (simp_all add: sample_voucher_def)
  from accepted_within_deposit [OF this _ run] run show ?thesis
    by (auto simp: sample_voucher_def)
qed

text \<open>
  The watermark never falls, on either store.  Whatever sequence of voucher updates, from
  any gateways and with callbacks that leave the watermark alone, a Redis-backed store applies,
  a channel it holds keeps a record whose watermark is at least what it was; the in-process
  store does the same.
\<close>

theorem watermark_never_falls:
  assumes "text_ok T"
    and "\<forall>(j, u) \<in> set us. \<exists>q commit. u = state_updater q commit \<and> keeps_watermark commit"
    and "redis_view T prefix s i = Some st" "data i = Some st2"
  shows "(\<exists>st'. redis_view T prefix (update_all (redis_update_alone T prefix) us s) i = Some st'
        \<and> cs_cumulative st \<le> cs_cumulative st')
    \<and> (\<exists>st'. update_all update_channel us data i = Some st' \<and> cs_cumulative st2 \<le> cs_cumulative st')"
proof -
  have keeps: "cs_cumulative a \<le> cs_cumulative b" if "(j, u) \<in> set us" "u (Some a) = Inr b" for j u a b
    using that assms(2) state_updater_watermark by fastforce
  show ?thesis
    using channel_store.update_all_keeps [OF redis_channel_store [OF assms(1)],
        where R = "\<lambda>a b. cs_cumulative a \<le> cs_cumulative b" and us = us, OF _ _ _ keeps assms(3)]
      memory_channels.update_all_keeps
        [where R = "\<lambda>a b. cs_cumulative a \<le> cs_cumulative b" and us = us and s = data and i = i and st = st2,
          OF _ _ _ keeps assms(4)]
    by simp
qed

theorem watermark_never_falls_witness:
  "\<exists>st'. update_all update_channel [(''chan'', state_updater sample_voucher no_commit)]
      [''chan'' \<mapsto> sample_channel] ''chan'' = Some st' \<and> 100 \<le> cs_cumulative st'"
proof -
  have "redis_view plain_text ''p'' [redis_key ''p'' ''chan'' \<mapsto> (sample_channel, None)] ''chan''
      = Some sample_channel"
    by (simp add: redis_view_def plain_text_def decode_def sample_channel_def CHANNEL_STATE_SCHEMA_VERSION_def)
  moreover have "\<forall>(j, u) \<in> set [(''chan'', state_updater sample_voucher no_commit)].
      \<exists>q commit. u = state_updater q commit \<and> keeps_watermark commit"
    using exI [of "\<lambda>q. \<exists>c. state_updater sample_voucher no_commit = state_updater q c \<and> keeps_watermark c",
        OF exI [of _ no_commit]] by simp
  moreover have "[''chan'' \<mapsto> sample_channel] ''chan'' = Some sample_channel" by simp
  moreover have "cs_cumulative sample_channel = 100" by (simp add: sample_channel_def)
  ultimately show ?thesis
    using watermark_never_falls [OF text_ok_plain, of "[(''chan'', state_updater sample_voucher no_commit)]"
        "''p''" _ "''chan''" sample_channel "[''chan'' \<mapsto> sample_channel]" sample_channel] by auto
qed

text \<open>
  C40.  Two overlapping vouchers report more than they move.  Let two vouchers each be a valid new
  charge against the same channel record, the second for more than the first, and let the request with
  the second read the record before the first is accepted and commit after it.  Both are accepted, the
  watermark ends at the second voucher, but the charges reported add up to more than the watermark
  moved, by exactly what the first charged; the minimum step is not checked against the watermark the
  second voucher then moves.
\<close>

theorem overlapping_vouchers_over_report:
  assumes "data i = Some st" "vq_channel_id q = i" "vq_channel_id q' = i"
    and "chargeable K batch q st" "chargeable K batch q' st" "vq_cumulative q < vq_cumulative q'"
    and "accept_voucher K batch id q data = (r, data1)" "accept_voucher K batch (\<lambda>_. data1) q' data = (r', data2)"
  shows "\<exists>a a' st1 st'. r = Inr a \<and> r' = Inr a' \<and> data1 i = Some st1 \<and> data2 i = Some st'
    \<and> cs_cumulative st1 = vq_cumulative q \<and> cs_cumulative st' = vq_cumulative q'
    \<and> unat (va_charged a) = unat (cs_cumulative st1) - unat (cs_cumulative st) \<and> 0 < va_charged a
    \<and> unat (va_charged a) + unat (va_charged a') = (unat (cs_cumulative st') - unat (cs_cumulative st)) + unat (va_charged a)"
proof -
  let ?st = "st\<lparr>cs_cumulative := vq_cumulative q, cs_highest_voucher_signature := Some (vq_signature q),
    cs_highest_voucher_expires_at := Some (vq_expires_at q)\<rparr>"
  let ?prior = "cs_cumulative st"
  from chargeable_accepted [of data q st K batch] assms(1,2,4,7) have first:
      "r = Inr \<lparr>va_cumulative = vq_cumulative q, va_charged = vq_cumulative q - ?prior, va_replay = False\<rparr>"
      "data1 = data(i \<mapsto> ?st)"
    by auto
  have "voucher_precheck K batch q' st = Inr ()"
    using assms(5) by (auto simp: voucher_precheck_ok chargeable_def le_saturating_sub)
  then have "accept_voucher K batch (\<lambda>_. data1) q' data = accept_locked q' no_commit ?prior data1"
    using assms(1,3) by (simp add: accept_voucher_def accept_voucher_with_commit_def get_channel_def)
  moreover have "accept_locked q' no_commit ?prior data1 =
      (Inr \<lparr>va_cumulative = vq_cumulative q', va_charged = saturating_sub (vq_cumulative q') ?prior, va_replay = False\<rparr>,
       data1(i \<mapsto> ?st\<lparr>cs_cumulative := vq_cumulative q', cs_highest_voucher_signature := Some (vq_signature q'),
          cs_highest_voucher_expires_at := Some (vq_expires_at q')\<rparr>))"
  proof -
    have st: "data1 (vq_channel_id q') = Some ?st" "\<not> cs_sealed ?st" "cs_close_requested_at ?st = None"
      and fresh: "\<not> is_replay q' ?st"
      and enough: "cs_cumulative ?st < vq_cumulative q'
        \<and> unat (vq_required_availability q') \<le> unat (vq_cumulative q') - unat (cs_spent_amount ?st)"
      using assms(3,5,6) first(2) by (auto simp: chargeable_def is_replay_def)
    from accept_locked_no_commit [of data1 q' ?st ?prior, OF st] show ?thesis
      unfolding if_not_P [OF fresh] if_P [OF enough] assms(3) .
  qed
  moreover have "?prior < vq_cumulative q" "?prior < vq_cumulative q'"
    using assms(4,5) by (simp_all add: chargeable_def)
  ultimately show ?thesis
    using assms(8) first
    by (auto simp: saturating_sub_def unat_sub word_le_nat_alt word_less_nat_alt)
qed

theorem overlapping_vouchers_over_report_witness:
  "\<exists>a a' data1 data2.
     accept_voucher yes_crypto None id sample_voucher [''chan'' \<mapsto> sample_channel] = (Inr a, data1)
   \<and> accept_voucher yes_crypto None (\<lambda>_. data1) (sample_voucher\<lparr>vq_cumulative := 155, vq_signature := ''sig2''\<rparr>)
       [''chan'' \<mapsto> sample_channel] = (Inr a', data2)
   \<and> map_option cs_cumulative (data2 ''chan'') = Some 155 \<and> cs_cumulative sample_channel = 100
   \<and> unat (va_charged a) + unat (va_charged a') = 105 \<and> vq_min_voucher_delta sample_voucher = 10"
proof -
  let ?open = "[''chan'' \<mapsto> sample_channel]"
  let ?second = "sample_voucher\<lparr>vq_cumulative := 155, vq_signature := ''sig2''\<rparr>"
  obtain r data1 where run1: "accept_voucher yes_crypto None id sample_voucher ?open = (r, data1)" by force
  obtain r' data2 where run2: "accept_voucher yes_crypto None (\<lambda>_. data1) ?second ?open = (r', data2)" by force
  have ok: "chargeable yes_crypto None sample_voucher sample_channel" "chargeable yes_crypto None ?second sample_channel"
    using sample_voucher_ok [of "cs_authorized_signer sample_channel"]
      sample_voucher_verified [where c = 155 and s = "''sig2''" and signer = "cs_authorized_signer sample_channel"]
    by (simp_all add: chargeable_def) (simp_all add: sample_channel_def sample_voucher_def)
  have fields: "?open ''chan'' = Some sample_channel" "vq_channel_id sample_voucher = ''chan''" "vq_channel_id ?second = ''chan''"
      "vq_cumulative sample_voucher < vq_cumulative ?second" "cs_cumulative sample_channel = 100"
      "vq_cumulative sample_voucher = 150" "vq_min_voucher_delta sample_voucher = 10"
    by (simp_all add: sample_voucher_def sample_channel_def)
  from overlapping_vouchers_over_report [OF fields(1-3) ok fields(4) run1 run2] run1 run2 show ?thesis
    by (auto simp: fields(5-7))
qed

end
