(* ===== verification/Mpp_Headers.thy ===== *)
theory Mpp_Headers
  imports Pk_Prelude
begin

text \<open>
  The HTTP headers of the MPP protocol: \<open>mpp/protocol/core/headers.rs\<close>, with the challenge data
  and the base64 normalization of \<open>challenge.rs\<close> and \<open>types.rs\<close>.

  Text is the list of its Unicode code points (\<open>ustring\<close>), because the parser works on
  characters and its notion of white space is Unicode's.  The cursor loops of the source are
  recursion on the text that is left.  Base64 decoding and the JSON readers and writers come
  from libraries and are fields of the parameter \<open>'c mpp_codec\<close>, where \<open>'c\<close> is the type of
  credentials.
\<close>

section \<open>Text\<close>

type_synonym ustring = "nat list"

definition ascii :: "string \<Rightarrow> ustring" where
  "ascii s = map of_char s"

definition is_ascii_whitespace :: "nat \<Rightarrow> bool" where
  "is_ascii_whitespace c \<longleftrightarrow> c \<in> {9, 10, 12, 13, 32}"

text \<open>\<open>char::is_whitespace\<close>: the code points with the property \<open>White_Space\<close>.\<close>

definition is_whitespace :: "nat \<Rightarrow> bool" where
  "is_whitespace c \<longleftrightarrow>
     c \<in> {9, 10, 11, 12, 13, 32, 0x85, 0xA0, 0x1680, 0x2028, 0x2029, 0x202F, 0x205F, 0x3000}
     \<or> 0x2000 \<le> c \<and> c \<le> 0x200A"

definition is_ascii_lowercase :: "nat \<Rightarrow> bool" where
  "is_ascii_lowercase c \<longleftrightarrow> 97 \<le> c \<and> c \<le> 122"

definition to_ascii_lowercase :: "ustring \<Rightarrow> ustring" where
  "to_ascii_lowercase s = map (\<lambda>c. if 65 \<le> c \<and> c \<le> 90 then c + 32 else c) s"

definition eq_ignore_ascii_case :: "ustring \<Rightarrow> ustring \<Rightarrow> bool" where
  "eq_ignore_ascii_case s t \<longleftrightarrow> to_ascii_lowercase s = to_ascii_lowercase t"

definition trim_start :: "ustring \<Rightarrow> ustring" where
  "trim_start s = dropWhile is_whitespace s"

definition trim_end_by :: "(nat \<Rightarrow> bool) \<Rightarrow> ustring \<Rightarrow> ustring" where
  "trim_end_by P s = rev (dropWhile P (rev s))"

definition trim :: "ustring \<Rightarrow> ustring" where
  "trim s = trim_end_by is_whitespace (trim_start s)"

text \<open>\<open>str::len\<close>: the number of bytes of the UTF-8 encoding.\<close>

definition utf8_len :: "ustring \<Rightarrow> nat" where
  "utf8_len s = sum_list (map (\<lambda>c. if c < 0x80 then 1 else if c < 0x800 then 2
     else if c < 0x10000 then 3 else 4) s)"

abbreviation "quote \<equiv> (34 :: nat)"
abbreviation "backslash \<equiv> (92 :: nat)"
abbreviation "comma \<equiv> (44 :: nat)"
abbreviation "equals \<equiv> (61 :: nat)"
abbreviation "space \<equiv> (32 :: nat)"

datatype mpp_error = MppOther ustring

definition other :: "string \<Rightarrow> mpp_error" where
  "other m = MppOther (ascii m)"

section \<open>Challenges\<close>

record payment_challenge =
  pc_id :: ustring
  pc_realm :: ustring
  pc_method :: ustring
  pc_intent :: ustring
  pc_request :: ustring
  pc_expires :: "ustring option"
  pc_description :: "ustring option"
  pc_digest :: "ustring option"
  pc_opaque :: "ustring option"

definition method_name :: "ustring \<Rightarrow> ustring" where
  "method_name name = to_ascii_lowercase name"

definition intent_name :: "ustring \<Rightarrow> ustring" where
  "intent_name name = to_ascii_lowercase name"

record 'c mpp_codec =
  url_safe_no_pad_encode :: "nat list \<Rightarrow> ustring"
  url_safe_no_pad_decode :: "ustring \<Rightarrow> ustring + nat list"
  json_from_slice :: "nat list \<Rightarrow> ustring + unit"
  credential_to_jcs :: "'c \<Rightarrow> ustring + nat list"
  credential_from_slice :: "nat list \<Rightarrow> ustring + 'c"

text \<open>Both alphabets, with or without padding.\<close>

definition base64url_decode :: "'c mpp_codec \<Rightarrow> ustring \<Rightarrow> mpp_error + nat list" where
  "base64url_decode C input =
     (let normalized = map (\<lambda>c. if c = 43 then 45 else if c = 47 then 95 else c)
                         (filter (\<lambda>c. c \<noteq> 61) input) in
      case url_safe_no_pad_decode C normalized of
        Inl e \<Rightarrow> Inl (MppOther (ascii ''Invalid base64url: '' @ e))
      | Inr bs \<Rightarrow> Inr bs)"

section \<open>Parsing\<close>

definition MAX_TOKEN_LEN :: nat where
  "MAX_TOKEN_LEN = 16 * 1024"

definition PAYMENT_SCHEME :: ustring where
  "PAYMENT_SCHEME = ascii ''Payment''"

definition strip_payment_scheme :: "ustring \<Rightarrow> ustring option" where
  "strip_payment_scheme header =
     (let h = trim_start header; n = length PAYMENT_SCHEME in
      if length h \<ge> n \<and> eq_ignore_ascii_case (take n h) PAYMENT_SCHEME then Some (drop n h) else None)"

text \<open>The inside of a quoted value, up to its closing quote: the value and what follows.\<close>

fun read_quoted :: "ustring \<Rightarrow> ustring \<times> ustring" where
  "read_quoted [] = ([], [])"
| "read_quoted [c] = (if c = quote then ([], []) else ([c], []))"
| "read_quoted (c # d # rest) =
     (if c = quote then ([], d # rest)
      else if c = backslash then (let (v, r) = read_quoted rest in (d # v, r))
      else (let (v, r) = read_quoted (d # rest) in (c # v, r)))"

definition read_value :: "ustring \<Rightarrow> ustring \<times> ustring" where
  "read_value s =
     (case s of
        c # rest \<Rightarrow>
          if c = quote then read_quoted rest
          else (takeWhile (\<lambda>c. \<not> is_whitespace c \<and> c \<noteq> comma) s,
                dropWhile (\<lambda>c. \<not> is_whitespace c \<and> c \<noteq> comma) s)
      | [] \<Rightarrow> ([], []))"

lemma read_quoted_shorter: "length (snd (read_quoted s)) \<le> length s"
  by (induction s rule: read_quoted.induct) (auto split: prod.splits)

lemma read_value_shorter: "length (snd (read_value s)) \<le> length s"
  using read_quoted_shorter [of "tl s"] length_dropWhile_le [of "\<lambda>c. \<not> is_whitespace c \<and> c \<noteq> comma" s]
  by (auto simp: read_value_def split: list.split)

definition skip_separators :: "ustring \<Rightarrow> ustring" where
  "skip_separators s = dropWhile (\<lambda>c. is_whitespace c \<or> c = comma) s"

definition key_char :: "nat \<Rightarrow> bool" where
  "key_char c \<longleftrightarrow> c \<noteq> equals \<and> \<not> is_whitespace c"

lemma length_skip_separators: "length (skip_separators s) \<le> length s"
  by (simp add: skip_separators_def length_dropWhile_le)

lemma after_key_shorter:
  assumes "skip_separators s \<noteq> []" "dropWhile key_char (skip_separators s) = r"
    "r = [] \<or> hd r \<noteq> equals"
  shows "length r < length s"
proof -
  let ?s = "skip_separators s"
  have "\<not> is_whitespace (hd ?s)"
    using assms(1) hd_dropWhile [of "\<lambda>c. is_whitespace c \<or> c = comma" s] by (auto simp: skip_separators_def)
  then have "takeWhile key_char ?s \<noteq> []"
    using assms by (cases ?s) (auto simp: key_char_def)
  then have "length r < length ?s"
    using takeWhile_dropWhile_id [of key_char ?s] assms(2)
    by (metis length_append length_greater_0_conv less_add_same_cancel2)
  then show ?thesis using length_skip_separators [of s] by simp
qed

function parse_auth_params_from :: "ustring \<Rightarrow> (ustring \<rightharpoonup> ustring) \<Rightarrow> mpp_error + (ustring \<rightharpoonup> ustring)" where
  "parse_auth_params_from s params =
     (let s1 = skip_separators s in
      if s1 = [] then Inr params
      else (let key = takeWhile key_char s1; s2 = dropWhile key_char s1 in
        if s2 = [] \<or> hd s2 \<noteq> equals
        then parse_auth_params_from (dropWhile (\<lambda>c. \<not> is_whitespace c \<and> c \<noteq> comma) s2) params
        else if tl s2 = [] then Inr params
        else (let v = fst (read_value (tl s2)); s3 = snd (read_value (tl s2)) in
          if params key \<noteq> None
          then Inl (MppOther (ascii ''Duplicate parameter: '' @ key))
          else parse_auth_params_from s3 (params(key \<mapsto> v)))))"
  by pat_completeness auto
termination
proof (relation "measure (\<lambda>(s, params). length s)", goal_cases)
  case (2 s params s1 key s2)
  then have "length s2 < length s"
    using after_key_shorter [of s s2] by auto
  then show ?case
    using length_dropWhile_le [of "\<lambda>c. \<not> is_whitespace c \<and> c \<noteq> comma" s2] by simp
next
  case (3 s params s1 key s2 v s3)
  have "length s3 \<le> length (tl s2)" using 3(7,8) read_value_shorter [of "tl s2"] by simp
  also have "\<dots> < length s2" using 3 by (cases s2) auto
  also have "\<dots> \<le> length s"
    using 3 length_dropWhile_le [of key_char s1] length_skip_separators [of s] by simp
  finally show ?case by simp
qed simp

declare parse_auth_params_from.simps [simp del]

definition parse_auth_params :: "ustring \<Rightarrow> mpp_error + (ustring \<rightharpoonup> ustring)" where
  "parse_auth_params params_str = parse_auth_params_from params_str Map.empty"

definition require_param :: "(ustring \<rightharpoonup> ustring) \<Rightarrow> string \<Rightarrow> mpp_error + ustring" where
  "require_param params key = ok_or (params (ascii key)) (other (''Missing '' @ [CHR 0x27] @ key @ [CHR 0x27] @ '' field''))"

definition quoted_scheme :: string where
  "quoted_scheme = [CHR 0x27] @ ''Payment'' @ [CHR 0x27] @ '' scheme''"

definition parse_www_authenticate :: "'c mpp_codec \<Rightarrow> ustring \<Rightarrow> mpp_error + payment_challenge" where
  "parse_www_authenticate C header =
     try_bind (ok_or (strip_payment_scheme header) (other (''Expected '' @ quoted_scheme))) (\<lambda>rest.
     try_bind (case rest of c # r \<Rightarrow> if c = space \<or> c = 9 then Inr (trim_start r)
                               else Inl (other (''Expected space after '' @ quoted_scheme))
               | [] \<Rightarrow> Inl (other (''Expected space after '' @ quoted_scheme))) (\<lambda>params_str.
     try_bind (parse_auth_params params_str) (\<lambda>params.
     try_bind (require_param params ''id'') (\<lambda>id_param.
     if id_param = [] then Inl (other (''Empty '' @ [CHR 0x27] @ ''id'' @ [CHR 0x27] @ '' parameter''))
     else
     try_bind (require_param params ''realm'') (\<lambda>realm.
     try_bind (require_param params ''method'') (\<lambda>method_raw.
     if method_raw = [] \<or> \<not> list_all is_ascii_lowercase method_raw
     then Inl (MppOther (ascii ''Invalid method: '' @ [quote] @ method_raw @ [quote]
            @ ascii ''. Must be lowercase ASCII.''))
     else
     try_bind (require_param params ''intent'') (\<lambda>intent.
     try_bind (require_param params ''request'') (\<lambda>request_b64.
     if utf8_len request_b64 > MAX_TOKEN_LEN
     then Inl (other (''Challenge request parameter exceeds maximum length of ''
            @ show_nat MAX_TOKEN_LEN @ '' bytes''))
     else
     try_bind (base64url_decode C request_b64) (\<lambda>request_bytes.
     case json_from_slice C request_bytes of
       Inl e \<Rightarrow> Inl (MppOther (ascii ''Invalid JSON in request field: '' @ e))
     | Inr _ \<Rightarrow> Inr
        \<lparr>pc_id = id_param, pc_realm = realm, pc_method = method_name method_raw,
         pc_intent = intent_name intent, pc_request = request_b64,
         pc_expires = params (ascii ''expires''), pc_description = params (ascii ''description''),
         pc_digest = params (ascii ''digest''), pc_opaque = params (ascii ''opaque'')\<rparr>)))))))))"

section \<open>Several challenges in one header\<close>

text \<open>
  \<open>prev\<close> is what was read, last character first.  The tests before the scheme look back over
  white space for the start of the header or a comma.
\<close>

definition is_payment_scheme_start :: "ustring \<Rightarrow> ustring \<Rightarrow> bool" where
  "is_payment_scheme_start prev s \<longleftrightarrow>
     length s > length PAYMENT_SCHEME
     \<and> eq_ignore_ascii_case (take (length PAYMENT_SCHEME) s) PAYMENT_SCHEME
     \<and> is_ascii_whitespace (s ! length PAYMENT_SCHEME)
     \<and> (let before = dropWhile is_ascii_whitespace prev in before = [] \<or> hd before = comma)"

function scheme_starts :: "ustring \<Rightarrow> ustring \<Rightarrow> bool \<Rightarrow> bool \<Rightarrow> nat list" where
  "scheme_starts prev s in_quote escaped =
     (case s of
        [] \<Rightarrow> []
      | c # rest \<Rightarrow>
          if in_quote then
            (if escaped then scheme_starts (c # prev) rest True False
             else if c = backslash then scheme_starts (c # prev) rest True True
             else if c = quote then scheme_starts (c # prev) rest False False
             else scheme_starts (c # prev) rest True False)
          else if c = quote then scheme_starts (c # prev) rest True escaped
          else if is_payment_scheme_start prev s then
            length prev # scheme_starts (rev (take (length PAYMENT_SCHEME) s) @ prev)
              (drop (length PAYMENT_SCHEME) s) False escaped
          else scheme_starts (c # prev) rest False escaped)"
  by pat_completeness auto
termination
  by (relation "measure (\<lambda>(prev, s, in_quote, escaped). length s)")
    (auto simp: PAYMENT_SCHEME_def ascii_def)

declare scheme_starts.simps [simp del]

fun chunks :: "ustring \<Rightarrow> nat list \<Rightarrow> ustring list" where
  "chunks header [] = []"
| "chunks header [a] = [drop a header]"
| "chunks header (a # b # starts) = take (b - a) (drop a header) # chunks header (b # starts)"

definition clean_chunk :: "ustring \<Rightarrow> ustring" where
  "clean_chunk chunk = trim (trim_end_by (\<lambda>c. c = comma) (trim chunk))"

definition split_payment_challenge_values :: "ustring \<Rightarrow> ustring list" where
  "split_payment_challenge_values header =
     filter (\<lambda>c. c \<noteq> []) (map clean_chunk (chunks header (scheme_starts [] header False False)))"

definition parse_www_authenticate_all :: "'c mpp_codec \<Rightarrow> ustring list
    \<Rightarrow> (mpp_error + payment_challenge) list" where
  "parse_www_authenticate_all C headers =
     map (parse_www_authenticate C) (concat (map split_payment_challenge_values headers))"

section \<open>Printing\<close>

definition replace_char :: "nat \<Rightarrow> ustring \<Rightarrow> ustring \<Rightarrow> ustring" where
  "replace_char c r s = concat (map (\<lambda>x. if x = c then r else [x]) s)"

definition escape_quoted_value :: "ustring \<Rightarrow> mpp_error + ustring" where
  "escape_quoted_value s =
     (if 13 \<in> set s \<or> 10 \<in> set s then Inl (other ''Header value contains invalid CRLF characters'')
      else Inr (replace_char quote [backslash, quote] (replace_char backslash [backslash, backslash] s)))"

definition format_param :: "string \<Rightarrow> ustring \<Rightarrow> mpp_error + ustring" where
  "format_param key v =
     try_bind (escape_quoted_value v) (\<lambda>e. Inr (ascii key @ [equals, quote] @ e @ [quote]))"

text \<open>The parameters in the order they are written; an absent one is not.\<close>

definition challenge_params :: "payment_challenge \<Rightarrow> (string \<times> ustring) list" where
  "challenge_params c =
     [(''id'', pc_id c), (''realm'', pc_realm c), (''method'', pc_method c),
      (''intent'', pc_intent c), (''request'', pc_request c)]
     @ (case pc_description c of Some v \<Rightarrow> [(''description'', v)] | None \<Rightarrow> [])
     @ (case pc_digest c of Some v \<Rightarrow> [(''digest'', v)] | None \<Rightarrow> [])
     @ (case pc_expires c of Some v \<Rightarrow> [(''expires'', v)] | None \<Rightarrow> [])
     @ (case pc_opaque c of Some v \<Rightarrow> [(''opaque'', v)] | None \<Rightarrow> [])"

fun format_params :: "(string \<times> ustring) list \<Rightarrow> mpp_error + ustring list" where
  "format_params [] = Inr []"
| "format_params ((k, v) # kvs) =
     try_bind (format_param k v) (\<lambda>p. try_bind (format_params kvs) (\<lambda>ps. Inr (p # ps)))"

fun join_params :: "ustring list \<Rightarrow> ustring" where
  "join_params [] = []"
| "join_params [p] = p"
| "join_params (p # ps) = p @ [comma, space] @ join_params ps"

definition format_www_authenticate :: "payment_challenge \<Rightarrow> mpp_error + ustring" where
  "format_www_authenticate c =
     try_bind (format_params (challenge_params c)) (\<lambda>parts.
       Inr (ascii ''Payment '' @ join_params parts))"

section \<open>Credentials\<close>

text \<open>\<open>header.split(',')\<close>.\<close>

fun split_comma :: "ustring \<Rightarrow> ustring list" where
  "split_comma [] = [[]]"
| "split_comma (c # s) =
     (if c = comma then [] # split_comma s
      else (case split_comma s of w # ws \<Rightarrow> (c # w) # ws | [] \<Rightarrow> [[c]]))"

definition extract_payment_scheme :: "ustring \<Rightarrow> ustring option" where
  "extract_payment_scheme header =
     find (\<lambda>s. length s \<ge> 8 \<and> eq_ignore_ascii_case (take 8 s) (ascii ''payment ''))
       (map trim (split_comma header))"

definition parse_authorization :: "'c mpp_codec \<Rightarrow> ustring \<Rightarrow> mpp_error + 'c" where
  "parse_authorization C header =
     try_bind (ok_or (extract_payment_scheme header) (other (''Expected '' @ quoted_scheme))) (\<lambda>part.
       let token = trim (drop 8 part) in
       if utf8_len token > MAX_TOKEN_LEN
       then Inl (other (''Token exceeds maximum length of '' @ show_nat MAX_TOKEN_LEN @ '' bytes''))
       else try_bind (base64url_decode C token) (\<lambda>decoded.
         case credential_from_slice C decoded of
           Inl e \<Rightarrow> Inl (MppOther (ascii ''Invalid credential JSON: '' @ e))
         | Inr credential \<Rightarrow> Inr credential))"

definition format_authorization :: "'c mpp_codec \<Rightarrow> 'c \<Rightarrow> mpp_error + ustring" where
  "format_authorization C credential =
     (case credential_to_jcs C credential of
        Inl e \<Rightarrow> Inl (MppOther (ascii ''JCS serialization failed: '' @ e))
      | Inr json \<Rightarrow> Inr (ascii ''Payment '' @ url_safe_no_pad_encode C json))"

section \<open>Lemmas: quoting\<close>

definition esc :: "ustring \<Rightarrow> ustring" where
  "esc s = replace_char quote [backslash, quote] (replace_char backslash [backslash, backslash] s)"

lemma esc_simps [simp]:
  "esc [] = []"
  "esc (c # s) = (if c = backslash then [backslash, backslash]
     else if c = quote then [backslash, quote] else [c]) @ esc s"
  by (simp_all add: esc_def replace_char_def)

lemma read_quoted_esc: "read_quoted (esc v @ quote # r) = (v, r)"
proof (induction v)
  case Nil
  then show ?case by (cases r) simp_all
next
  case (Cons c v)
  obtain d s where "esc v @ quote # r = d # s" by (cases "esc v @ quote # r") auto
  with Cons show ?case by auto
qed

definition no_crlf :: "ustring \<Rightarrow> bool" where
  "no_crlf s \<longleftrightarrow> 13 \<notin> set s \<and> 10 \<notin> set s"

lemma no_crlf_esc [simp]: "no_crlf (esc s) \<longleftrightarrow> no_crlf s"
  by (induction s) (auto simp: no_crlf_def)

definition param_text :: "string \<times> ustring \<Rightarrow> ustring" where
  "param_text kv = ascii (fst kv) @ [equals, quote] @ esc (snd kv) @ [quote]"

lemma format_param_eq:
  "format_param k v = (if no_crlf v then Inr (param_text (k, v))
     else Inl (other ''Header value contains invalid CRLF characters''))"
  by (auto simp: format_param_def escape_quoted_value_def no_crlf_def param_text_def esc_def)

lemma format_params_eq:
  "format_params kvs = (if list_all (no_crlf \<circ> snd) kvs then Inr (map param_text kvs)
     else Inl (other ''Header value contains invalid CRLF characters''))"
  by (induction kvs rule: format_params.induct) (auto simp: format_param_eq)

section \<open>Lemmas: reading parameters back\<close>

definition good_key :: "string \<Rightarrow> bool" where
  "good_key k \<longleftrightarrow> k \<noteq> [] \<and> list_all (\<lambda>c. key_char c \<and> c \<noteq> comma \<and> c \<noteq> quote) (ascii k)"

lemma skip_separators_comma [simp]:
  "skip_separators (comma # s) = skip_separators s" "skip_separators (space # s) = skip_separators s"
  by (simp_all add: skip_separators_def is_whitespace_def)

lemma parse_skip: "parse_auth_params_from (comma # space # s) params = parse_auth_params_from s params"
  by (subst (1 2) parse_auth_params_from.simps) simp

lemma parse_param:
  assumes "good_key k" "params (ascii k) = None"
  shows "parse_auth_params_from (param_text (k, v) @ r) params
    = parse_auth_params_from r (params(ascii k \<mapsto> v))"
proof -
  let ?s = "param_text (k, v) @ r"
  have k: "ascii k \<noteq> []" "list_all key_char (ascii k)" "hd (ascii k) \<noteq> comma"
    using assms(1) by (cases k; auto simp: good_key_def ascii_def list_all_iff)+
  then have "\<not> is_whitespace (hd (ascii k))"
    by (cases "ascii k") (auto simp: key_char_def)
  with k have skip: "skip_separators ?s = ?s"
    by (cases "ascii k") (auto simp: skip_separators_def param_text_def)
  have key: "takeWhile key_char ?s = ascii k" "dropWhile key_char ?s = equals # quote # esc v @ quote # r"
    using k(2) by (auto simp: param_text_def takeWhile_append dropWhile_append list_all_iff key_char_def)
  have "param_text (k, v) \<noteq> []" by (simp add: param_text_def)
  then show ?thesis
    using skip key assms(2) read_quoted_esc [of v r]
    by (subst parse_auth_params_from.simps) (simp add: Let_def read_value_def)
qed

lemma parse_params_back:
  assumes "list_all (good_key \<circ> fst) kvs" "distinct (map (ascii \<circ> fst) kvs)"
    and "\<forall>k \<in> set kvs. params (ascii (fst k)) = None"
  shows "parse_auth_params_from (join_params (map param_text kvs)) params
    = Inr (params ++ map_of (rev (map (map_prod ascii id) kvs)))"
  using assms
proof (induction kvs arbitrary: params)
  case Nil
  then show ?case by (subst parse_auth_params_from.simps) (simp add: skip_separators_def)
next
  case (Cons kv kvs)
  obtain k v where kv: "kv = (k, v)" by force
  let ?params = "params(ascii k \<mapsto> v)"
  have step: "parse_auth_params_from (param_text kv @ r) params = parse_auth_params_from r ?params" for r
    using parse_param [of k params v r] Cons.prems kv by simp
  have "\<forall>x \<in> set kvs. ?params (ascii (fst x)) = None"
    using Cons.prems kv by force
  then have IH: "parse_auth_params_from (join_params (map param_text kvs)) ?params
      = Inr (?params ++ map_of (rev (map (map_prod ascii id) kvs)))"
    using Cons.IH Cons.prems(1,2) by (metis list.pred_inject(2) distinct.simps(2) list.simps(9))
  have add: "?params ++ m = params ++ (Map.empty(ascii k \<mapsto> v) ++ m)" for m
    by (simp add: map_add_def fun_eq_iff split: option.split)
  have "parse_auth_params_from (join_params (map param_text (kv # kvs))) params
      = parse_auth_params_from (join_params (map param_text kvs)) ?params"
    using step [of "[]"] step [of "comma # space # join_params (map param_text kvs)"] parse_skip
    by (cases kvs) simp_all
  moreover have "map_of (rev (map (map_prod ascii id) (kv # kvs)))
      = Map.empty(ascii k \<mapsto> v) ++ map_of (rev (map (map_prod ascii id) kvs))"
    using kv by simp
  ultimately show ?case
    using IH add [of "map_of (rev (map (map_prod ascii id) kvs))"] by metis
qed

section \<open>Lemmas: one challenge\<close>

lemma ascii_eq_iff [simp]: "ascii s = ascii t \<longleftrightarrow> s = t"
  unfolding ascii_def by (simp add: inj_map_eq_map inj_def)

lemma good_keys [simp]:
  "good_key ''id''" "good_key ''realm''" "good_key ''method''" "good_key ''intent''" "good_key ''request''"
  "good_key ''description''" "good_key ''digest''" "good_key ''expires''" "good_key ''opaque''"
  by (simp_all add: good_key_def ascii_def key_char_def is_whitespace_def)

text \<open>A challenge a server can send: a valid method and intent name, an id, a decodable request,
  and no line break in any parameter.\<close>

definition sendable :: "'c mpp_codec \<Rightarrow> payment_challenge \<Rightarrow> bool" where
  "sendable C c \<longleftrightarrow>
     pc_id c \<noteq> [] \<and> pc_method c \<noteq> [] \<and> list_all is_ascii_lowercase (pc_method c)
     \<and> intent_name (pc_intent c) = pc_intent c
     \<and> utf8_len (pc_request c) \<le> MAX_TOKEN_LEN
     \<and> (case base64url_decode C (pc_request c) of
          Inl _ \<Rightarrow> False | Inr bs \<Rightarrow> json_from_slice C bs = Inr ())
     \<and> list_all (no_crlf \<circ> snd) (challenge_params c)"

definition header_text :: "payment_challenge \<Rightarrow> ustring" where
  "header_text c = ascii ''Payment '' @ join_params (map param_text (challenge_params c))"

lemma format_sendable: "sendable C c \<Longrightarrow> format_www_authenticate c = Inr (header_text c)"
  by (simp add: sendable_def format_www_authenticate_def format_params_eq header_text_def)

lemma challenge_params_keys:
  "list_all (good_key \<circ> fst) (challenge_params c)" "distinct (map (ascii \<circ> fst) (challenge_params c))"
  by (auto simp: challenge_params_def split: option.splits)

lemma challenge_params_lookup:
  "map_of (rev (map (map_prod ascii id) (challenge_params c))) (ascii k) =
     (if k = ''id'' then Some (pc_id c) else if k = ''realm'' then Some (pc_realm c)
      else if k = ''method'' then Some (pc_method c) else if k = ''intent'' then Some (pc_intent c)
      else if k = ''request'' then Some (pc_request c)
      else if k = ''description'' then pc_description c else if k = ''digest'' then pc_digest c
      else if k = ''expires'' then pc_expires c else if k = ''opaque'' then pc_opaque c else None)"
  by (simp add: challenge_params_def split: option.split)

lemma to_ascii_lowercase_id: "list_all is_ascii_lowercase s \<Longrightarrow> to_ascii_lowercase s = s"
  by (induction s) (auto simp: to_ascii_lowercase_def is_ascii_lowercase_def)

lemma parse_header_text:
  assumes "sendable C c"
  shows "parse_www_authenticate C (header_text c) = Inr c"
proof -
  let ?params = "map_of (rev (map (map_prod ascii id) (challenge_params c)))"
  let ?text = "join_params (map param_text (challenge_params c))"
  obtain t where t: "?text = 105 # t"
    by (simp add: challenge_params_def param_text_def ascii_def)
  have "strip_payment_scheme (header_text c) = Some (space # ?text)"
    by (simp add: strip_payment_scheme_def header_text_def trim_start_def PAYMENT_SCHEME_def ascii_def
        is_whitespace_def eq_ignore_ascii_case_def Let_def)
  moreover have "trim_start ?text = ?text"
    unfolding t by (simp add: trim_start_def is_whitespace_def)
  moreover have "parse_auth_params ?text = Inr ?params"
    using parse_params_back [where params = Map.empty, OF challenge_params_keys, of c] by (simp add: parse_auth_params_def)
  moreover obtain bs where "base64url_decode C (pc_request c) = Inr bs" "json_from_slice C bs = Inr ()"
    using assms by (auto simp: sendable_def split: sum.splits)
  ultimately show ?thesis
    using assms to_ascii_lowercase_id [of "pc_method c"]
    by (simp add: parse_www_authenticate_def require_param_def challenge_params_lookup sendable_def
        method_name_def intent_name_def not_less)
qed

section \<open>Lemmas: finding the challenges of a header\<close>

lemmas scheme_starts_Cons = scheme_starts.simps [of _ "_ # _", simplified]
lemmas scheme_starts_Nil = scheme_starts.simps [of _ "[]", simplified]

lemma starts_quoted:
  "scheme_starts prev (esc v @ quote # r) True False = scheme_starts (quote # rev (esc v) @ prev) r False False"
  by (induction v arbitrary: prev) (simp_all add: scheme_starts_Cons)

lemma ascii_whitespace_not_key: "is_ascii_whitespace c \<Longrightarrow> \<not> key_char c \<and> c \<noteq> equals"
  by (auto simp: is_ascii_whitespace_def key_char_def is_whitespace_def)

lemma not_start_key:
  assumes "list_all key_char ks"
  shows "\<not> is_payment_scheme_start prev (ks @ equals # t)"
proof
  assume start: "is_payment_scheme_start prev (ks @ equals # t)"
  let ?n = "length PAYMENT_SCHEME"
  have eq: "to_ascii_lowercase (take ?n (ks @ equals # t)) = to_ascii_lowercase PAYMENT_SCHEME"
    and ws: "is_ascii_whitespace ((ks @ equals # t) ! ?n)"
    using start by (simp_all add: is_payment_scheme_start_def eq_ignore_ascii_case_def)
  show False
  proof (cases "length ks < ?n")
    case True
    then obtain m where "?n - length ks = Suc m" by (metis Suc_diff_Suc)
    then have "equals \<in> set (take ?n (ks @ equals # t))" by simp
    then have "equals \<in> set (to_ascii_lowercase (take ?n (ks @ equals # t)))"
      by (force simp: to_ascii_lowercase_def)
    then show False
      unfolding eq by (simp add: PAYMENT_SCHEME_def ascii_def to_ascii_lowercase_def)
  next
    case False
    then have "(ks @ equals # t) ! ?n \<in> set ks \<union> {equals}"
      by (cases "length ks = ?n") (auto simp: nth_append)
    with ws assms ascii_whitespace_not_key show False by (auto simp: list_all_iff)
  qed
qed

lemma not_start_first:
  "c \<notin> {80, 112} \<Longrightarrow> \<not> is_payment_scheme_start prev (c # s)"
  by (auto simp: is_payment_scheme_start_def PAYMENT_SCHEME_def ascii_def eq_ignore_ascii_case_def
      to_ascii_lowercase_def split: if_splits)

lemma starts_key:
  assumes "list_all (\<lambda>c. key_char c \<and> c \<noteq> quote) ks"
  shows "scheme_starts prev (ks @ equals # quote # t) False False
    = scheme_starts (quote # equals # rev ks @ prev) t True False"
  using assms
proof (induction ks arbitrary: prev)
  case Nil
  then show ?case by (simp add: scheme_starts_Cons not_start_first)
next
  case (Cons k ks)
  then have "\<not> is_payment_scheme_start prev ((k # ks) @ equals # quote # t)"
    by (intro not_start_key) (auto simp: list_all_iff)
  with Cons show ?case by (simp add: scheme_starts_Cons)
qed

lemma starts_param:
  assumes "good_key (fst kv)"
  shows "scheme_starts prev (param_text kv @ r) False False = scheme_starts (rev (param_text kv) @ prev) r False False"
proof -
  have "list_all (\<lambda>c. key_char c \<and> c \<noteq> quote) (ascii (fst kv))"
    using assms by (auto simp: good_key_def list_all_iff)
  from starts_key [OF this, of prev "esc (snd kv) @ quote # r"] show ?thesis
    by (simp add: param_text_def starts_quoted)
qed

lemma starts_separator:
  "scheme_starts prev (comma # space # r) False False = scheme_starts (space # comma # prev) r False False"
  by (simp add: scheme_starts_Cons not_start_first)

lemma starts_params:
  assumes "list_all (good_key \<circ> fst) kvs"
  shows "scheme_starts prev (join_params (map param_text kvs) @ r) False False
    = scheme_starts (rev (join_params (map param_text kvs)) @ prev) r False False"
  using assms
proof (induction "map param_text kvs" arbitrary: kvs prev rule: join_params.induct)
  case (2 p)
  then show ?case using starts_param by auto
next
  case (3 p q ps)
  then obtain kv kvs' where kvs: "kvs = kv # kvs'" "map param_text kvs' = q # ps" "p = param_text kv"
    by (auto simp: Cons_eq_map_conv)
  have "join_params (map param_text kvs) = param_text kv @ comma # space # join_params (map param_text kvs')"
    using kvs by simp
  then show ?case
    using 3(1) [of kvs'] 3(3) kvs starts_param [of kv] starts_separator by simp
qed simp

lemma starts_header:
  assumes "let before = dropWhile is_ascii_whitespace prev in before = [] \<or> hd before = comma"
  shows "scheme_starts prev (header_text c @ r) False False
    = length prev # scheme_starts (rev (header_text c) @ prev) r False False"
proof -
  let ?text = "join_params (map param_text (challenge_params c))"
  have start: "is_payment_scheme_start prev (header_text c @ r)"
    using assms by (simp add: is_payment_scheme_start_def header_text_def PAYMENT_SCHEME_def ascii_def
        eq_ignore_ascii_case_def is_ascii_whitespace_def)
  have "scheme_starts prev (header_text c @ r) False False
      = length prev # scheme_starts (rev (ascii ''Payment'') @ prev) (space # ?text @ r) False False"
    using start by (simp add: header_text_def ascii_def scheme_starts_Cons PAYMENT_SCHEME_def)
  also have "\<dots> = length prev # scheme_starts (rev ?text @ space # rev (ascii ''Payment'') @ prev) r False False"
    using starts_params [OF challenge_params_keys(1)] by (simp add: scheme_starts_Cons not_start_first)
  finally show ?thesis by (simp add: header_text_def ascii_def)
qed

section \<open>Lemmas: cutting a header\<close>

fun offsets :: "nat \<Rightarrow> ustring list \<Rightarrow> nat list" where
  "offsets n [] = []"
| "offsets n (h # hs) = n # offsets (n + length h + 2) hs"

lemma starts_headers:
  assumes "let before = dropWhile is_ascii_whitespace prev in before = [] \<or> hd before = comma"
  shows "scheme_starts prev (join_params (map header_text cs)) False False
    = offsets (length prev) (map header_text cs)"
  using assms
proof (induction cs arbitrary: prev)
  case Nil
  then show ?case by (simp add: scheme_starts_Nil)
next
  case (Cons c cs)
  show ?case
  proof (cases cs)
    case Nil
    then show ?thesis
      using starts_header [OF Cons.prems, of c "[]"] by (simp add: scheme_starts_Nil)
  next
    case (Cons d ds)
    let ?prev = "space # comma # rev (header_text c) @ prev"
    have "scheme_starts ?prev (join_params (map header_text cs)) False False
        = offsets (length ?prev) (map header_text cs)"
      by (rule Cons.IH) (simp add: is_ascii_whitespace_def)
    then show ?thesis
      using starts_header [OF Cons.prems, of c "comma # space # join_params (map header_text cs)"] Cons
        starts_separator [of "rev (header_text c) @ prev"]
      by (simp add: add.commute)
  qed
qed

lemma chunks_offsets:
  "chunks (pre @ join_params hs) (offsets (length pre) hs)
     = (case hs of [] \<Rightarrow> [] | _ \<Rightarrow> map (\<lambda>h. h @ [comma, space]) (butlast hs) @ [last hs])"
proof (induction hs arbitrary: pre)
  case (Cons h hs)
  show ?case
  proof (cases hs)
    case (Cons g gs)
    have "chunks (pre @ join_params (h # hs)) (offsets (length (pre @ h @ [comma, space])) hs)
        = map (\<lambda>h. h @ [comma, space]) (butlast hs) @ [last hs]"
      using Cons.IH [of "pre @ h @ [comma, space]"] Cons by simp
    with Cons show ?thesis by (simp add: numeral_2_eq_2)
  qed simp
qed simp

lemma trim_id: "s \<noteq> [] \<Longrightarrow> \<not> is_whitespace (hd s) \<Longrightarrow> \<not> is_whitespace (last s) \<Longrightarrow> trim s = s"
proof -
  assume s: "s \<noteq> []" "\<not> is_whitespace (hd s)" "\<not> is_whitespace (last s)"
  then have "dropWhile is_whitespace s = s" "dropWhile is_whitespace (rev s) = rev s"
    by (simp_all add: dropWhile_eq_self_iff hd_rev)
  then show "trim s = s" by (simp add: trim_def trim_start_def trim_end_by_def)
qed

lemma header_text_ends: "\<exists>t. header_text c = 80 # t @ [quote]"
proof -
  have "\<exists>t. join_params (map param_text kvs) = t @ [quote]" if "kvs \<noteq> []" for kvs
    using that
  proof (induction kvs)
    case (Cons kv kvs)
    then show ?case by (cases kvs) (auto simp: param_text_def)
  qed simp
  from this [of "challenge_params c"]
  have "\<exists>t. join_params (map param_text (challenge_params c)) = t @ [quote]"
    by (simp add: challenge_params_def)
  then show ?thesis by (auto simp: header_text_def ascii_def)
qed

lemma clean_chunk_header:
  "clean_chunk (header_text c) = header_text c" "clean_chunk (header_text c @ [comma, space]) = header_text c"
proof -
  obtain t where t: "header_text c = 80 # t @ [quote]" using header_text_ends by blast
  have ws: "\<not> is_whitespace 80" "\<not> is_whitespace quote" "\<not> is_whitespace comma" "is_whitespace space"
    by (simp_all add: is_whitespace_def)
  then have "trim (header_text c) = header_text c" by (intro trim_id) (simp_all add: t)
  moreover have "trim (header_text c @ [comma, space]) = header_text c @ [comma]"
    using ws by (simp add: t trim_def trim_start_def trim_end_by_def)
  ultimately show "clean_chunk (header_text c) = header_text c"
      "clean_chunk (header_text c @ [comma, space]) = header_text c"
    by (simp_all add: clean_chunk_def trim_end_by_def t)
qed

lemma split_headers:
  "split_payment_challenge_values (join_params (map header_text cs)) = map header_text cs"
proof (cases "cs = []")
  case True
  then show ?thesis by (simp add: split_payment_challenge_values_def scheme_starts_Nil)
next
  case False
  then have "chunks (join_params (map header_text cs)) (scheme_starts [] (join_params (map header_text cs)) False False)
      = map (\<lambda>h. h @ [comma, space]) (butlast (map header_text cs)) @ [last (map header_text cs)]"
    using starts_headers [of "[]" cs] chunks_offsets [of "[]" "map header_text cs"]
    by (simp split: list.split)
  then have "map clean_chunk (chunks (join_params (map header_text cs))
        (scheme_starts [] (join_params (map header_text cs)) False False))
      = map header_text (butlast cs) @ [header_text (last cs)]"
    using False by (simp add: clean_chunk_header comp_def map_butlast [symmetric] last_map)
  also have "\<dots> = map header_text cs"
    using False by (metis append_butlast_last_id list.simps(8,9) map_append)
  finally have "map clean_chunk (chunks (join_params (map header_text cs))
      (scheme_starts [] (join_params (map header_text cs)) False False)) = map header_text cs" .
  moreover have "header_text c \<noteq> []" for c using header_text_ends [of c] by auto
  ultimately show ?thesis by (simp add: split_payment_challenge_values_def)
qed

lemma no_crlf_header:
  assumes "sendable C c"
  shows "no_crlf (header_text c)"
proof -
  have key: "no_crlf (ascii k)" if "good_key k" for k
    using that by (auto simp: good_key_def no_crlf_def list_all_iff key_char_def is_whitespace_def)
  have "no_crlf (join_params (map param_text kvs))"
    if "list_all (good_key \<circ> fst) kvs" "list_all (no_crlf \<circ> snd) kvs" for kvs
    using that
  proof (induction kvs)
    case (Cons kv kvs)
    then have "no_crlf (param_text kv)"
      using key [of "fst kv"] no_crlf_esc [of "snd kv"] by (simp add: param_text_def no_crlf_def)
    with Cons show ?case by (cases kvs) (simp_all add: no_crlf_def)
  qed (simp add: no_crlf_def)
  from this [OF challenge_params_keys(1)] assms
  have "no_crlf (join_params (map param_text (challenge_params c)))" by (simp add: sendable_def)
  then show ?thesis by (simp add: header_text_def no_crlf_def ascii_def)
qed

section \<open>Properties\<close>

text \<open>
  C36.  Challenges survive the wire, however they are put into headers.  Any list of sendable
  challenges, whatever text their quoted parameters hold (quotes, backslashes, commas, or a text
  that looks like another challenge), can be formatted without a line break and is read back
  exactly and in order, both when each has a header of its own and when all of them share one
  header, separated by commas.
\<close>

theorem challenges_round_trip:
  assumes "list_all (sendable C) cs"
  shows "\<exists>hs. map format_www_authenticate cs = map Inr hs \<and> list_all no_crlf hs
    \<and> parse_www_authenticate_all C hs = map Inr cs
    \<and> parse_www_authenticate_all C [join_params hs] = map Inr cs"
proof (intro exI conjI)
  let ?hs = "map header_text cs"
  show "map format_www_authenticate cs = map Inr ?hs" "list_all no_crlf ?hs"
    using assms format_sendable no_crlf_header by (fastforce simp: list_all_iff)+
  have parse: "map (parse_www_authenticate C) ?hs = map Inr cs"
    using assms parse_header_text by (fastforce simp: list_all_iff)
  have "split_payment_challenge_values (header_text c) = [header_text c]" for c
    using split_headers [of "[c]"] by simp
  then have "concat (map split_payment_challenge_values ?hs) = ?hs"
    by (simp add: comp_def)
  with parse show "parse_www_authenticate_all C ?hs = map Inr cs"
    by (simp add: parse_www_authenticate_all_def)
  show "parse_www_authenticate_all C [join_params ?hs] = map Inr cs"
    using parse by (simp add: parse_www_authenticate_all_def split_headers)
qed

text \<open>A codec that keeps texts as they are, and a challenge whose description imitates another.\<close>

definition plain_codec :: "nat list mpp_codec" where
  "plain_codec = \<lparr>url_safe_no_pad_encode = \<lambda>bs. bs, url_safe_no_pad_decode = Inr,
     json_from_slice = \<lambda>bs. Inr (), credential_to_jcs = Inr, credential_from_slice = Inr\<rparr>"

definition sample_challenge :: payment_challenge where
  "sample_challenge = \<lparr>pc_id = ascii ''abc'', pc_realm = ascii ''api'', pc_method = ascii ''solana'',
     pc_intent = ascii ''charge'', pc_request = ascii ''e30'', pc_expires = None,
     pc_description = Some (ascii '', Payment id='' @ [quote] @ ascii ''x'' @ [quote]),
     pc_digest = None, pc_opaque = None\<rparr>"

lemma sample_challenge_sendable: "sendable plain_codec sample_challenge"
  by (simp add: sendable_def plain_codec_def sample_challenge_def ascii_def is_ascii_lowercase_def
      intent_name_def to_ascii_lowercase_def utf8_len_def MAX_TOKEN_LEN_def base64url_decode_def
      challenge_params_def no_crlf_def)

theorem challenges_round_trip_witness:
  "\<exists>hs. parse_www_authenticate_all plain_codec [join_params hs]
      = map Inr [sample_challenge, sample_challenge]"
proof -
  have "list_all (sendable plain_codec) [sample_challenge, sample_challenge]"
    using sample_challenge_sendable by simp
  from challenges_round_trip [OF this] show ?thesis by blast
qed

end
