(* ===== verification/Mpp_Challenge.thy ===== *)
theory Mpp_Challenge
  imports Mpp_Headers
begin

text \<open>
  Challenges bound to a server secret: \<open>mpp/protocol/core/challenge.rs\<close>, and the credential header
  of \<open>headers.rs\<close> read back.

  The MAC (HMAC-SHA256 followed by base64) is a parameter; that two inputs never share a MAC is
  the hypothesis \<open>collision_free\<close>.  A credential echoes the challenge with the same fields, so the
  echo is a \<open>payment_challenge\<close>.
\<close>

unbundle bit_operations_syntax

section \<open>Bytes of a text\<close>

text \<open>UTF-8.\<close>

definition utf8_char :: "nat \<Rightarrow> nat list" where
  "utf8_char c =
     (if c < 0x80 then [c]
      else if c < 0x800 then [0xC0 + c div 64, 0x80 + c mod 64]
      else if c < 0x10000 then [0xE0 + c div 4096, 0x80 + c div 64 mod 64, 0x80 + c mod 64]
      else [0xF0 + c div 262144, 0x80 + c div 4096 mod 64, 0x80 + c div 64 mod 64, 0x80 + c mod 64])"

definition utf8 :: "ustring \<Rightarrow> nat list" where
  "utf8 s = concat (map utf8_char s)"

section \<open>The challenge id\<close>

type_synonym mac = "ustring \<Rightarrow> ustring \<Rightarrow> ustring"

abbreviation "bar \<equiv> (124 :: nat)"

fun join_bar :: "ustring list \<Rightarrow> ustring" where
  "join_bar [] = []"
| "join_bar [s] = s"
| "join_bar (s # ss) = s @ bar # join_bar ss"

definition compute_challenge_id :: "mac \<Rightarrow> ustring \<Rightarrow> ustring \<Rightarrow> ustring \<Rightarrow> ustring \<Rightarrow> ustring
    \<Rightarrow> ustring option \<Rightarrow> ustring option \<Rightarrow> ustring option \<Rightarrow> ustring" where
  "compute_challenge_id M secret realm method intent request expires digest opaque =
     M secret (join_bar [realm, method, intent, request, unwrap_or expires [], unwrap_or digest [],
       unwrap_or opaque []])"

text \<open>Every byte is looked at, whatever the earlier ones were.\<close>

definition constant_time_eq :: "ustring \<Rightarrow> ustring \<Rightarrow> bool" where
  "constant_time_eq a b =
     (if length (utf8 a) \<noteq> length (utf8 b) then False
      else fold (\<lambda>(x, y) result. result OR (x XOR y)) (zip (utf8 a) (utf8 b)) 0 = 0)"

definition challenge_new :: "ustring \<Rightarrow> ustring \<Rightarrow> ustring \<Rightarrow> ustring \<Rightarrow> ustring \<Rightarrow> payment_challenge" where
  "challenge_new i realm method intent request =
     \<lparr>pc_id = i, pc_realm = realm, pc_method = method_name method, pc_intent = intent_name intent,
      pc_request = request, pc_expires = None, pc_description = None, pc_digest = None,
      pc_opaque = None\<rparr>"

definition with_challenge_binding_secret_full :: "mac \<Rightarrow> ustring \<Rightarrow> ustring \<Rightarrow> ustring \<Rightarrow> ustring
    \<Rightarrow> ustring \<Rightarrow> ustring option \<Rightarrow> ustring option \<Rightarrow> ustring option \<Rightarrow> ustring option
    \<Rightarrow> payment_challenge" where
  "with_challenge_binding_secret_full M secret realm method intent request expires digest
       description opaque =
     \<lparr>pc_id = compute_challenge_id M secret realm (method_name method) (intent_name intent) request
        expires digest opaque,
      pc_realm = realm, pc_method = method_name method, pc_intent = intent_name intent,
      pc_request = request, pc_expires = expires, pc_description = description,
      pc_digest = digest, pc_opaque = opaque\<rparr>"

definition with_challenge_binding_secret :: "mac \<Rightarrow> ustring \<Rightarrow> ustring \<Rightarrow> ustring \<Rightarrow> ustring
    \<Rightarrow> ustring \<Rightarrow> payment_challenge" where
  "with_challenge_binding_secret M secret realm method intent request =
     \<lparr>pc_id = compute_challenge_id M secret realm (method_name method) (intent_name intent) request
        None None None,
      pc_realm = realm, pc_method = method_name method, pc_intent = intent_name intent,
      pc_request = request, pc_expires = None, pc_description = None, pc_digest = None,
      pc_opaque = None\<rparr>"

definition challenge_verify :: "mac \<Rightarrow> ustring \<Rightarrow> payment_challenge \<Rightarrow> bool" where
  "challenge_verify M secret c =
     (let expected_id = compute_challenge_id M secret (pc_realm c) (pc_method c) (pc_intent c)
        (pc_request c) (pc_expires c) (pc_digest c) (pc_opaque c) in
      constant_time_eq (pc_id c) expected_id)"

text \<open>\<open>parse\<close> reads an RFC 3339 time; a text it does not read counts as expired.\<close>

definition is_expired :: "(ustring \<Rightarrow> int option) \<Rightarrow> int \<Rightarrow> payment_challenge \<Rightarrow> bool" where
  "is_expired parse now c =
     (case pc_expires c of
        None \<Rightarrow> False
      | Some s \<Rightarrow> (case parse s of Some expires \<Rightarrow> expires \<le> now | None \<Rightarrow> True))"

section \<open>Lemmas: comparing bytes\<close>

lemma split_64: "c div 64 = d div 64 \<Longrightarrow> c mod 64 = d mod 64 \<Longrightarrow> c = (d :: nat)"
  by (metis div_mult_mod_eq)

lemma split_4096: "c div 4096 = d div 4096 \<Longrightarrow> c div 64 mod 64 = d div 64 mod 64 \<Longrightarrow> c div 64 = d div (64 :: nat)"
  using split_64 [of "c div 64" "d div 64"] by (simp add: div_mult2_eq [symmetric])

lemma split_262144:
  "c div 262144 = d div 262144 \<Longrightarrow> c div 4096 mod 64 = d div 4096 mod 64 \<Longrightarrow> c div 4096 = d div (4096 :: nat)"
  using split_64 [of "c div 4096" "d div 4096"] by (simp add: div_mult2_eq [symmetric])

lemma utf8_char_classes:
  obtains (one) "c < 0x80" "utf8_char c = [c]"
  | (two) "0x80 \<le> c" "c div 64 < 32" "utf8_char c = [0xC0 + c div 64, 0x80 + c mod 64]"
  | (three) "c div 4096 < 16" "utf8_char c = [0xE0 + c div 4096, 0x80 + c div 64 mod 64, 0x80 + c mod 64]"
  | (four) "utf8_char c = [0xF0 + c div 262144, 0x80 + c div 4096 mod 64, 0x80 + c div 64 mod 64, 0x80 + c mod 64]"
proof -
  consider "c < 0x80" | "0x80 \<le> c" "c < 0x800" | "0x800 \<le> c" "c < 0x10000" | "0x10000 \<le> c" by linarith
  then show thesis
  proof cases
    case 1
    then show ?thesis by (intro one) (simp_all add: utf8_char_def)
  next
    case 2
    then show ?thesis by (intro two) (simp_all add: utf8_char_def)
  next
    case 3
    then show ?thesis by (intro three) (simp_all add: utf8_char_def)
  next
    case 4
    then show ?thesis by (intro four) (simp_all add: utf8_char_def)
  qed
qed

lemma utf8_char_append:
  assumes "utf8_char c @ s = utf8_char d @ t"
  shows "c = d \<and> s = t"
proof (cases c rule: utf8_char_classes)
  case one
  then show ?thesis using assms by (cases d rule: utf8_char_classes) simp_all
next
  case two
  then show ?thesis using assms split_64 [of c d] by (cases d rule: utf8_char_classes) simp_all
next
  case three
  then show ?thesis
    using assms split_64 [of c d] split_4096 [of c d] by (cases d rule: utf8_char_classes) simp_all
next
  case four
  then show ?thesis
    using assms split_64 [of c d] split_4096 [of c d] split_262144 [of c d]
    by (cases d rule: utf8_char_classes) simp_all
qed

lemma utf8_inject: "utf8 s = utf8 t \<longleftrightarrow> s = t"
proof (induction s arbitrary: t)
  case Nil
  then show ?case by (cases t) (auto simp: utf8_def utf8_char_def)
next
  case (Cons c s)
  show ?case
  proof (cases t)
    case Nil
    then show ?thesis by (auto simp: utf8_def utf8_char_def)
  next
    case (Cons d t')
    with Cons.IH [of t'] utf8_char_append [of c "utf8 s" d "utf8 t'"] show ?thesis
      by (auto simp: utf8_def)
  qed
qed

lemma xor_nat_eq_0: "x XOR y = (0 :: nat) \<longleftrightarrow> x = y"
proof
  assume "x XOR y = 0"
  then have "bit x n = bit y n" for n by (metis bit_0_eq bit_xor_iff bot_apply bot_bool_def)
  then show "x = y" by (simp add: bit_eq_iff)
qed simp

lemma fold_or_zero:
  "fold (\<lambda>(x, y) result. result OR (x XOR y)) ps (r :: nat) = 0 \<longleftrightarrow> r = 0 \<and> list_all (\<lambda>(x, y). x = y) ps"
proof (induction ps arbitrary: r)
  case (Cons p ps)
  obtain x y where "p = (x, y)" by force
  with Cons [of "r OR (x XOR y)"] show ?case
    by (simp only: fold_simps list.pred_inject or_eq_0_iff xor_nat_eq_0 case_prod_conv o_apply conj_assoc)
qed simp

lemma list_all_zip_eq: "length a = length b \<Longrightarrow> list_all (\<lambda>(x, y). x = y) (zip a b) \<longleftrightarrow> a = b"
  by (induction a b rule: list_induct2) auto

lemma constant_time_eq_iff: "constant_time_eq a b \<longleftrightarrow> a = b"
proof -
  have "constant_time_eq a b \<longleftrightarrow> utf8 a = utf8 b"
    unfolding constant_time_eq_def fold_or_zero using list_all_zip_eq [of "utf8 a" "utf8 b"] by auto
  then show ?thesis by (simp add: utf8_inject)
qed

section \<open>Lemmas: the joined fields\<close>

lemma count_join_bar:
  "xs \<noteq> [] \<Longrightarrow> count_list (join_bar xs) bar + 1 = length xs + sum_list (map (\<lambda>s. count_list s bar) xs)"
  by (induction xs rule: join_bar.induct) auto

lemma append_bar_eq:
  assumes "s @ bar # u = t @ bar # v" "bar \<notin> set s" "bar \<notin> set t"
  shows "s = t \<and> u = v"
  using assms by (induction s arbitrary: t) (case_tac t; auto)+

lemma join_bar_free_inject:
  assumes "length xs = length ys" "join_bar xs = join_bar ys"
    "list_all (\<lambda>s. bar \<notin> set s) xs" "list_all (\<lambda>s. bar \<notin> set s) ys"
  shows "xs = ys"
  using assms
proof (induction xs ys rule: list_induct2)
  case (Cons x xs y ys)
  show ?case
  proof (cases "xs = []")
    case True
    with Cons show ?thesis by simp
  next
    case False
    with Cons.hyps obtain a as b bs where "xs = a # as" "ys = b # bs"
      by (metis length_0_conv neq_Nil_conv)
    with Cons append_bar_eq [of x "join_bar xs" y "join_bar ys"] show ?thesis by simp
  qed
qed simp

lemma join_bar_inject:
  assumes "length xs = length ys" "join_bar xs = join_bar ys" "list_all (\<lambda>s. bar \<notin> set s) xs"
  shows "xs = ys"
proof (cases "xs = []")
  case False
  then have "sum_list (map (\<lambda>s. count_list s bar) ys) = sum_list (map (\<lambda>s. count_list s bar) xs)"
    using assms count_join_bar [of xs] count_join_bar [of ys] by fastforce
  also have "\<dots> = 0" using assms(3) by (simp add: list_all_iff count_list_0_iff)
  finally have "list_all (\<lambda>s. bar \<notin> set s) ys" by (simp add: list_all_iff count_list_0_iff)
  with assms show ?thesis by (intro join_bar_free_inject)
qed (use assms in simp)

section \<open>Lemmas: the credential header\<close>

definition payment_part :: "ustring \<Rightarrow> bool" where
  "payment_part s \<longleftrightarrow> length s \<ge> 8 \<and> eq_ignore_ascii_case (take 8 s) (ascii ''payment '')"

lemma extract_payment_scheme_eq:
  "extract_payment_scheme header = find payment_part (map trim (split_comma header))"
  by (simp add: extract_payment_scheme_def payment_part_def [abs_def])

text \<open>What the codec promises for one document: base64url text that decodes to what was encoded.\<close>

definition is_base64url :: "nat \<Rightarrow> bool" where
  "is_base64url c \<longleftrightarrow> 48 \<le> c \<and> c \<le> 57 \<or> 65 \<le> c \<and> c \<le> 90 \<or> 97 \<le> c \<and> c \<le> 122 \<or> c = 45 \<or> c = 95"

definition base64url_lossless :: "'c mpp_codec \<Rightarrow> nat list \<Rightarrow> bool" where
  "base64url_lossless C bs \<longleftrightarrow>
     list_all is_base64url (url_safe_no_pad_encode C bs)
     \<and> url_safe_no_pad_decode C (url_safe_no_pad_encode C bs) = Inr bs
     \<and> (bs \<noteq> [] \<longrightarrow> url_safe_no_pad_encode C bs \<noteq> [])"

lemma is_base64url_plain:
  "is_base64url c \<Longrightarrow> \<not> is_whitespace c \<and> c \<noteq> comma \<and> c \<noteq> 61 \<and> c \<noteq> 43 \<and> c \<noteq> 47 \<and> c < 0x80"
  by (auto simp: is_base64url_def is_whitespace_def)

lemma base64url_decode_plain:
  assumes "list_all is_base64url t"
  shows "base64url_decode C t = (case url_safe_no_pad_decode C t of
      Inl e \<Rightarrow> Inl (MppOther (ascii ''Invalid base64url: '' @ e)) | Inr bs \<Rightarrow> Inr bs)"
proof -
  have "filter (\<lambda>c. c \<noteq> 61) t = t"
    "map (\<lambda>c. if c = 43 then 45 else if c = 47 then 95 else c) t = t"
    using assms is_base64url_plain by (induction t) auto
  then show ?thesis by (simp add: base64url_decode_def)
qed

lemma split_comma_free: "comma \<notin> set s \<Longrightarrow> split_comma s = [s]"
  by (induction s) auto

lemma split_comma_append: "comma \<notin> set s \<Longrightarrow> split_comma (s @ comma # t) = s # split_comma t"
  by (induction s) auto

lemma trim_space: "trim (space # s) = trim s"
  by (simp add: trim_def trim_start_def is_whitespace_def)

lemma split_comma_nonempty: "split_comma s \<noteq> []"
  by (induction s) (simp_all split: list.split)

lemma split_comma_space: "map trim (split_comma (space # s)) = map trim (split_comma s)"
  using split_comma_nonempty [of s] by (cases "split_comma s") (simp_all add: trim_space)

lemma extract_skip:
  assumes "list_all (\<lambda>p. comma \<notin> set p \<and> \<not> payment_part (trim p)) pre" "hs \<noteq> []"
  shows "extract_payment_scheme (join_params (pre @ hs)) = extract_payment_scheme (join_params hs)"
  using assms
proof (induction pre)
  case (Cons p pre)
  obtain q qs where "pre @ hs = q # qs" using \<open>hs \<noteq> []\<close> by (cases "pre @ hs") auto
  with Cons split_comma_append [of p "space # join_params (pre @ hs)"] show ?case
    by (simp add: extract_payment_scheme_eq split_comma_space del: split_comma.simps)
qed simp

lemma extract_first:
  assumes "comma \<notin> set h" "trim h = h" "payment_part h"
  shows "extract_payment_scheme (join_params (h # post)) = Some h"
proof (cases post)
  case Nil
  then show ?thesis
    using assms by (simp add: extract_payment_scheme_eq split_comma_free)
next
  case (Cons q qs)
  then show ?thesis
    using assms split_comma_append [of h "space # join_params post"]
    by (simp add: extract_payment_scheme_eq del: split_comma.simps)
qed

lemma payment_token:
  assumes "list_all is_base64url t" "t \<noteq> []"
  defines "h \<equiv> ascii ''Payment '' @ t"
  shows "comma \<notin> set h" "trim h = h" "payment_part h" "trim (drop 8 h) = t" "utf8_len t = length t"
proof -
  have plain: "\<forall>c \<in> set t. \<not> is_whitespace c \<and> c \<noteq> comma \<and> c < 0x80"
    using assms(1) is_base64url_plain by (auto simp: list_all_iff)
  show "comma \<notin> set h" using plain by (auto simp: h_def ascii_def)
  have "h \<noteq> []" "\<not> is_whitespace (hd h)" "\<not> is_whitespace (last h)"
    using plain assms(2) by (simp_all add: h_def ascii_def is_whitespace_def)
  then show "trim h = h" by (rule trim_id)
  show "payment_part h"
    by (simp add: payment_part_def h_def ascii_def eq_ignore_ascii_case_def to_ascii_lowercase_def)
  have "trim t = t" using plain assms(2) by (intro trim_id) auto
  then show "trim (drop 8 h) = t" by (simp add: h_def ascii_def)
  have "map (\<lambda>c. if c < 0x80 then 1 else if c < 0x800 then 2 else if c < 0x10000 then 3 else 4) t
      = map (\<lambda>_. 1 :: nat) t"
    using plain by simp
  then show "utf8_len t = length t" unfolding utf8_len_def by (simp only: sum_list_triv length_map mult_1_right) (simp add: sum_list_triv)
qed

section \<open>Properties\<close>

text \<open>Different inputs have different MACs under one key.\<close>

definition collision_free :: "mac \<Rightarrow> bool" where
  "collision_free M \<longleftrightarrow> (\<forall>secret x y. M secret x = M secret y \<longrightarrow> x = y)"

definition bound_fields :: "payment_challenge \<Rightarrow> ustring list" where
  "bound_fields c = [pc_realm c, pc_method c, pc_intent c, pc_request c,
     unwrap_or (pc_expires c) [], unwrap_or (pc_digest c) [], unwrap_or (pc_opaque c) []]"

lemma challenge_verify_iff:
  "challenge_verify M secret c \<longleftrightarrow> pc_id c = M secret (join_bar (bound_fields c))"
  by (simp add: challenge_verify_def compute_challenge_id_def bound_fields_def constant_time_eq_iff
      Let_def)

text \<open>
  C30.  A challenge id binds the challenge.  A challenge made with the server's secret, in whose
  fields no \<open>|\<close> occurs, passes \<open>verify\<close> under that secret; and whatever a client echoes with the
  same id passes only when realm, method, intent and request are those of the challenge the
  server made, and expiry, digest and opaque data too (an absent one and an empty one are not
  told apart).  The echo may hold any text, separators included.  The description is not bound:
  changing it never changes the verdict.
\<close>

theorem challenge_id_binds:
  assumes "collision_free M"
    and "c = with_challenge_binding_secret_full M secret realm method intent request expires digest
           description opaque"
    and "list_all (\<lambda>s. bar \<notin> set s) (bound_fields c)"
  shows "challenge_verify M secret c
    \<and> (pc_id echo = pc_id c \<longrightarrow>
        (challenge_verify M secret echo \<longleftrightarrow> bound_fields echo = bound_fields c))
    \<and> challenge_verify M secret (echo\<lparr>pc_description := d\<rparr>) = challenge_verify M secret echo"
proof (intro conjI impI)
  show genuine: "challenge_verify M secret c"
    by (simp add: challenge_verify_iff assms(2) with_challenge_binding_secret_full_def
        compute_challenge_id_def bound_fields_def)
  show "challenge_verify M secret (echo\<lparr>pc_description := d\<rparr>) = challenge_verify M secret echo"
    by (simp add: challenge_verify_iff bound_fields_def)
  assume id: "pc_id echo = pc_id c"
  have "join_bar (bound_fields c) = join_bar (bound_fields echo) \<longrightarrow> bound_fields c = bound_fields echo"
    using join_bar_inject [OF _ _ assms(3), of "bound_fields echo"] by (simp add: bound_fields_def)
  with assms(1) genuine id show "challenge_verify M secret echo \<longleftrightarrow> bound_fields echo = bound_fields c"
    unfolding challenge_verify_iff collision_free_def by metis
qed

theorem challenge_id_binds_witness:
  "let c = with_challenge_binding_secret_full (\<lambda>k x. x) (ascii ''key'') (ascii ''api'')
       (ascii ''solana'') (ascii ''charge'') (ascii ''e30'') (Some (ascii ''2030'')) None None None in
   \<not> challenge_verify (\<lambda>k x. x) (ascii ''key'') (c\<lparr>pc_request := ascii ''e31''\<rparr>)"
proof -
  let ?M = "(\<lambda>k x. x) :: mac"
  let ?c = "with_challenge_binding_secret_full ?M (ascii ''key'') (ascii ''api'')
       (ascii ''solana'') (ascii ''charge'') (ascii ''e30'') (Some (ascii ''2030'')) None None None"
  have "collision_free ?M" by (simp add: collision_free_def)
  moreover have "list_all (\<lambda>s. bar \<notin> set s) (bound_fields ?c)"
    by (simp add: bound_fields_def with_challenge_binding_secret_full_def ascii_def method_name_def
        intent_name_def to_ascii_lowercase_def)
  moreover have "bound_fields (?c\<lparr>pc_request := ascii ''e31''\<rparr>) \<noteq> bound_fields ?c"
    by (simp add: bound_fields_def with_challenge_binding_secret_full_def ascii_def)
  ultimately show ?thesis
    using challenge_id_binds [OF _ refl, of ?M, where echo = "?c\<lparr>pc_request := ascii ''e31''\<rparr>"]
    by (simp add: Let_def)
qed

text \<open>
  A credential survives the wire.  The header \<open>format_authorization\<close> writes for a
  credential, put anywhere into a comma-separated \<open>Authorization\<close> value after parts of other
  schemes and before anything at all, is found and read back as the same credential, provided
  the token fits the length limit.
\<close>

theorem credential_round_trip:
  assumes "credential_to_jcs C credential = Inr json" "json \<noteq> []"
    and "credential_from_slice C json = Inr credential"
    and "base64url_lossless C json"
    and "length (url_safe_no_pad_encode C json) \<le> MAX_TOKEN_LEN"
    and "list_all (\<lambda>p. comma \<notin> set p \<and> \<not> payment_part (trim p)) pre"
  shows "\<exists>h. format_authorization C credential = Inr h
    \<and> parse_authorization C (join_params (pre @ h # post)) = Inr credential"
proof (intro exI conjI)
  let ?t = "url_safe_no_pad_encode C json"
  show "format_authorization C credential = Inr (ascii ''Payment '' @ ?t)"
    by (simp add: format_authorization_def assms(1))
  have t: "list_all is_base64url ?t" "?t \<noteq> []"
    using assms(2,4) by (simp_all add: base64url_lossless_def)
  note token = payment_token [OF t]
  have "extract_payment_scheme (join_params (pre @ (ascii ''Payment '' @ ?t) # post))
      = Some (ascii ''Payment '' @ ?t)"
    using extract_skip [OF assms(6), of "(ascii ''Payment '' @ ?t) # post"]
      extract_first [OF token(1-3), of post] by simp
  moreover have "base64url_decode C ?t = Inr json"
    using base64url_decode_plain [OF t(1), of C] assms(4) by (simp add: base64url_lossless_def)
  ultimately show "parse_authorization C (join_params (pre @ (ascii ''Payment '' @ ?t) # post)) = Inr credential"
    using assms(3,5) token(4,5) by (simp add: parse_authorization_def)
qed

theorem credential_round_trip_witness:
  "\<exists>h. format_authorization plain_codec (ascii ''e30'') = Inr h
    \<and> parse_authorization plain_codec (join_params [ascii ''Bearer abc'', h, ascii ''Payment x'']) = Inr (ascii ''e30'')"
proof -
  have "list_all (\<lambda>p. comma \<notin> set p \<and> \<not> payment_part (trim p)) [ascii ''Bearer abc'']"
    by (simp add: ascii_def payment_part_def trim_def trim_start_def trim_end_by_def is_whitespace_def
        eq_ignore_ascii_case_def to_ascii_lowercase_def)
  from credential_round_trip [OF _ _ _ _ _ this, of plain_codec "ascii ''e30''" "ascii ''e30''"
      "[ascii ''Payment x'']"]
  show ?thesis
    by (simp add: plain_codec_def base64url_lossless_def is_base64url_def ascii_def MAX_TOKEN_LEN_def)
qed

end
