(* ===== verification/Session_Steps.thy ===== *)
theory Session_Steps
  imports Channel_Store
begin

text \<open>
  Requests against a shared channel store.  An asynchronous handler is a tree of atomic steps:
  at each step the scheduler hands it a moment (the clock, what the chain answers, and whether
  the store serves the call) together with the current store, and gets back the rest of the
  handler and the new store.  A pool of handlers runs under an arbitrary schedule.

  The judgement \<open>sat\<close> is rely-guarantee reasoning for one handler: whatever the others do
  within the rely relation, each of its own steps stays within the guarantee and its answer
  meets its postcondition.  The locale \<open>step_order\<close> holds the rules, and the theorem that a
  pool of such handlers keeps all of it under every schedule.
\<close>

section \<open>Handlers\<close>

text \<open>
  The store may refuse a call without running it, or run it and lose the reply, as a remote
  store does.
\<close>

datatype fault = Served | Refused store_error | ReplyLost store_error

record moment =
  mo_fault :: fault
  mo_now :: i64
  mo_account :: "string + u8 list option \<times> u64"
  mo_transaction :: "string + string"

datatype 'r act = Ret 'r | Step "moment \<Rightarrow> channels \<Rightarrow> 'r act \<times> channels"

primrec bind_act :: "'a act \<Rightarrow> ('a \<Rightarrow> 'b act) \<Rightarrow> 'b act" where
  "bind_act (Ret r) k = k r"
| "bind_act (Step f) k = Step (\<lambda>t s. map_prod (\<lambda>p. bind_act p k) id (f t s))"

text \<open>\<open>.await?\<close> and a plain \<open>?\<close> inside a handler.\<close>

definition try_act :: "('e + 'a) act \<Rightarrow> ('a \<Rightarrow> ('e + 'b) act) \<Rightarrow> ('e + 'b) act" where
  "try_act p k = bind_act p (\<lambda>r. case r of Inl e \<Rightarrow> Ret (Inl e) | Inr a \<Rightarrow> k a)"

definition attempt :: "'e + 'a \<Rightarrow> ('a \<Rightarrow> ('e + 'b) act) \<Rightarrow> ('e + 'b) act" where
  "attempt r k = (case r of Inl e \<Rightarrow> Ret (Inl e) | Inr a \<Rightarrow> k a)"

text \<open>
  One call of the store, and the steps that only look at the moment.  \<open>wrap\<close> is how an error of
  the store itself reads among the errors of the call.
\<close>

definition access_err :: "(store_error \<Rightarrow> 'e) \<Rightarrow> (moment \<Rightarrow> channels \<Rightarrow> ('e + 'x) \<times> channels) \<Rightarrow> ('e + 'x) act" where
  "access_err wrap op = Step (\<lambda>t s.
     case mo_fault t of
       Served \<Rightarrow> (case op t s of (r, s') \<Rightarrow> (Ret r, s'))
     | Refused e \<Rightarrow> (Ret (Inl (wrap e)), s)
     | ReplyLost e \<Rightarrow>
         (case op t s of (r, s') \<Rightarrow> (Ret (case r of Inl e' \<Rightarrow> Inl e' | Inr _ \<Rightarrow> Inl (wrap e)), s')))"

definition access :: "(moment \<Rightarrow> channels \<Rightarrow> (store_error + 'x) \<times> channels) \<Rightarrow> (store_error + 'x) act" where
  "access op = access_err id op"

definition clock :: "i64 act" where
  "clock = Step (\<lambda>t s. (Ret (mo_now t), s))"

definition read_account :: "(string + u8 list option \<times> u64) act" where
  "read_account = Step (\<lambda>t s. (Ret (mo_account t), s))"

definition submit_transaction :: "(string + string) act" where
  "submit_transaction = Step (\<lambda>t s. (Ret (mo_transaction t), s))"

text \<open>
  \<open>update_channel\<close> with a closure that also fills a captured cell: the cell is what the closure
  leaves in it when it returns a record.
\<close>

definition update_with :: "string \<Rightarrow> (channel_state option \<Rightarrow> 'e + channel_state \<times> 'x)
    \<Rightarrow> channels \<Rightarrow> ('e + channel_state \<times> 'x) \<times> channels" where
  "update_with channel_id updater data =
     (case updater (data channel_id) of
        Inl e \<Rightarrow> (Inl e, data)
      | Inr (new_state, cell) \<Rightarrow> (Inr (new_state, cell), data(channel_id \<mapsto> new_state)))"

text \<open>A closure without a cell.\<close>

definition with_unit :: "(channel_state option \<Rightarrow> 'e + channel_state) \<Rightarrow> channel_state option
    \<Rightarrow> 'e + channel_state \<times> unit" where
  "with_unit f st = map_sum id (\<lambda>x. (x, ())) (f st)"

section \<open>Pools\<close>

definition step_pool :: "nat \<times> moment \<Rightarrow> 'r act list \<times> channels \<Rightarrow> 'r act list \<times> channels" where
  "step_pool d cfg =
     (case (d, cfg) of ((i, t), (ps, s)) \<Rightarrow>
        if i < length ps
        then (case ps ! i of
                Ret r \<Rightarrow> (ps, s)
              | Step f \<Rightarrow> (case f t s of (p', s') \<Rightarrow> (ps[i := p'], s')))
        else (ps, s))"

definition run_pool :: "(nat \<times> moment) list \<Rightarrow> 'r act list \<times> channels \<Rightarrow> 'r act list \<times> channels" where
  "run_pool sched cfg = fold step_pool sched cfg"

text \<open>One handler alone, served at one moment from its first step to its answer.\<close>

primrec finish :: "'r act \<Rightarrow> moment \<Rightarrow> channels \<Rightarrow> 'r \<times> channels" where
  "finish (Ret r) = (\<lambda>t s. (r, s))"
| "finish (Step f) = (\<lambda>t s. case map_prod finish id (f t s) of (g, s') \<Rightarrow> g t s')"

text \<open>At most \<open>n\<close> steps are left, whatever the turns and the stores they see.\<close>

fun within :: "nat \<Rightarrow> 'r act \<Rightarrow> bool" where
  "within n (Ret r) = True"
| "within 0 (Step f) = False"
| "within (Suc n) (Step f) = (\<forall>t s. within n (fst (f t s)))"

section \<open>Laws of handlers\<close>

lemma attempt_simps [simp]: "attempt (Inl e) k = Ret (Inl e)" "attempt (Inr a) k = k a"
  by (simp_all add: attempt_def)

lemma try_act_Ret [simp]: "try_act (Ret r) k = attempt r k"
  by (simp add: try_act_def attempt_def)

lemma with_unit_Inr [simp]: "with_unit f st = Inr y \<longleftrightarrow> f st = Inr (fst y)"
  by (cases y; cases "f st") (auto simp: with_unit_def)

lemma update_with_channel:
  "map_prod (map_sum id fst) id (update_with i u data) = update_channel i (\<lambda>st. map_sum id fst (u st)) data"
  by (auto simp: update_with_def update_channel_def split: option.splits sum.splits)

lemma within_mono: "within m p \<Longrightarrow> m \<le> n \<Longrightarrow> within n p"
proof (induction m p arbitrary: n rule: within.induct)
  case (3 m f)
  then show ?case by (cases n) auto
qed auto

lemma within_bind:
  assumes "within m p" "\<And>r. within n (k r)"
  shows "within (m + n) (bind_act p k)"
  using assms
proof (induction m p rule: within.induct)
  case (1 m r)
  then show ?case by (auto intro: within_mono [of n])
qed auto

lemma within_attempt:
  assumes "\<And>a. r = Inr a \<Longrightarrow> within n (k a)"
  shows "within n (attempt r k)"
  using assms by (cases r) auto

lemma within_try:
  assumes "within m p" "\<And>a. within n (k a)"
  shows "within (m + n) (try_act p k)"
  unfolding try_act_def using assms by (intro within_bind) (auto split: sum.split)

lemma within_access [simp]: "within (Suc n) (access_err wrap op)" "within (Suc n) (access op)"
  by (auto simp: access_def access_err_def split: fault.split prod.split)

lemma within_local [simp]:
  "within (Suc n) clock" "within (Suc n) read_account" "within (Suc n) submit_transaction"
  by (simp_all add: clock_def read_account_def submit_transaction_def)

lemma run_pool_Nil [simp]: "run_pool [] cfg = cfg"
  by (simp add: run_pool_def)

lemma run_pool_Cons [simp]: "run_pool (d # ds) cfg = run_pool ds (step_pool d cfg)"
  by (simp add: run_pool_def)

lemma length_step_pool [simp]: "length (fst (step_pool d cfg)) = length (fst cfg)"
  by (auto simp: step_pool_def split: prod.split act.split)

lemma step_pool_other: "i \<noteq> j \<Longrightarrow> fst (step_pool (i, t) cfg) ! j = fst cfg ! j"
  by (auto simp: step_pool_def split: prod.split act.split)

text \<open>A handler is finished once it has had as many turns as it may need.\<close>

lemma within_run_pool:
  assumes "j < length ps" "within n (ps ! j)" "n \<le> count_list (map fst sched) j"
  shows "\<exists>r. fst (run_pool sched (ps, s)) ! j = Ret r"
  using assms
proof (induction sched arbitrary: n ps s)
  case Nil
  then show ?case by (cases "ps ! j") auto
next
  case (Cons d sched)
  obtain i t where d: "d = (i, t)" by force
  obtain ps' s' where cfg: "step_pool d (ps, s) = (ps', s')" by force
  then have len: "length ps' = length ps"
    using length_step_pool [of d "(ps, s)"] by simp
  show ?case
  proof (cases "i = j")
    case False
    then have "ps' ! j = ps ! j"
      using step_pool_other [of i j t "(ps, s)"] cfg d by simp
    with False Cons.prems Cons.IH [of ps' n s'] cfg d len show ?thesis by simp
  next
    case True
    show ?thesis
    proof (cases "ps ! j")
      case (Ret r)
      then have "ps' = ps"
        using cfg d True by (auto simp: step_pool_def split: if_splits)
      with Ret Cons.prems(1) Cons.IH [of ps 0 s'] cfg show ?thesis by simp
    next
      case (Step f)
      then obtain m where m: "n = Suc m" using Cons.prems(2) by (cases n) auto
      have "ps' ! j = fst (f t s)"
        using cfg d True Step Cons.prems(1) by (auto simp: step_pool_def split: prod.splits)
      with m Step Cons.prems have "within m (ps' ! j)" by simp
      with m True d cfg len Cons.prems Cons.IH [of ps' m s'] show ?thesis by simp
    qed
  qed
qed

section \<open>Lemmas: a handler alone\<close>

lemma finish_bind [simp]:
  "finish (bind_act p k) t s = (case finish p t s of (r, s') \<Rightarrow> finish (k r) t s')"
proof (induction p arbitrary: s)
  case (Step f)
  obtain q s' where f: "f t s = (q, s')" by force
  have "finish (bind_act q k) t s' = (case finish q t s' of (r, s') \<Rightarrow> finish (k r) t s')"
    by (rule Step.IH [of "f t" "f t s" q s']) (rule rangeI, rule rangeI, simp add: f)
  with f show ?case by simp
qed simp

lemma finish_attempt [simp]:
  "finish (attempt r k) t s = (case r of Inl e \<Rightarrow> (Inl e, s) | Inr a \<Rightarrow> finish (k a) t s)"
  by (simp add: attempt_def split: sum.split)

lemma finish_try [simp]:
  "finish (try_act p k) t s =
     (case finish p t s of (Inl e, s') \<Rightarrow> (Inl e, s') | (Inr a, s') \<Rightarrow> finish (k a) t s')"
  by (auto simp: try_act_def split: prod.split sum.split)

lemma finish_local [simp]:
  "finish clock t s = (mo_now t, s)" "finish read_account t s = (mo_account t, s)"
  "finish submit_transaction t s = (mo_transaction t, s)"
  by (simp_all add: clock_def read_account_def submit_transaction_def)

lemma finish_access:
  "mo_fault t = Served \<Longrightarrow> finish (access_err wrap op) t s = op t s"
  "mo_fault t = Served \<Longrightarrow> finish (access op') t s = op' t s"
  by (simp_all add: access_def access_err_def split: prod.split)

lemma finish_in_pool:
  assumes "j < length ps" "ps ! j = p"
  shows "\<exists>n. run_pool (replicate n (j, t)) (ps, s) = (ps[j := Ret (fst (finish p t s))], snd (finish p t s))"
  using assms
proof (induction p arbitrary: ps s)
  case (Ret r)
  then show ?case by (intro exI [of _ 0]) (use list_update_id [of ps j] in simp)
next
  case (Step f)
  obtain q s' where f: "f t s = (q, s')" by force
  have "step_pool (j, t) (ps, s) = (ps[j := q], s')"
    using f Step.prems by (simp add: step_pool_def)
  moreover have "\<exists>n. run_pool (replicate n (j, t)) (ps[j := q], s')
      = (ps[j := q, j := Ret (fst (finish q t s'))], snd (finish q t s'))"
    by (rule Step.IH [of "f t" "f t s" q "ps[j := q]" s']) (rule rangeI, rule rangeI, use f Step.prems in simp_all)
  then obtain n where "run_pool (replicate n (j, t)) (ps[j := q], s')
      = (ps[j := q, j := Ret (fst (finish q t s'))], snd (finish q t s'))" ..
  ultimately show ?case
    using f by (intro exI [of _ "Suc n"]) simp
qed

section \<open>Rely and guarantee\<close>

inductive sat :: "(channels \<Rightarrow> channels \<Rightarrow> bool) \<Rightarrow> (moment \<Rightarrow> channels \<Rightarrow> channels \<Rightarrow> bool)
    \<Rightarrow> ('r \<Rightarrow> channels \<Rightarrow> bool) \<Rightarrow> 'r act \<Rightarrow> channels \<Rightarrow> bool"
  for rely guar post where
  sat_Ret: "(\<And>s'. rely s s' \<Longrightarrow> post r s') \<Longrightarrow> sat rely guar post (Ret r) s"
| sat_Step: "(\<And>s' t. rely s s' \<Longrightarrow> guar t s' (snd (f t s')) \<and> sat rely guar post (fst (f t s')) (snd (f t s')))
    \<Longrightarrow> sat rely guar post (Step f) s"

inductive_simps sat_Ret_iff: "sat rely guar post (Ret r) s"
inductive_simps sat_Step_iff: "sat rely guar post (Step f) s"

locale step_order =
  fixes rely :: "channels \<Rightarrow> channels \<Rightarrow> bool"
    and guar :: "moment \<Rightarrow> channels \<Rightarrow> channels \<Rightarrow> bool"
  assumes rely_refl [simp]: "rely s s"
    and rely_trans: "rely s1 s2 \<Longrightarrow> rely s2 s3 \<Longrightarrow> rely s1 s3"
    and guar_rely: "guar t s s' \<Longrightarrow> rely s s'"
    and guar_same [simp]: "guar t s s"
begin

lemma sat_mono:
  assumes "sat rely guar Q p s" "\<And>r s'. rely s s' \<Longrightarrow> Q r s' \<Longrightarrow> P r s'"
  shows "sat rely guar P p s"
  using assms
proof (induction rule: sat.induct)
  case (sat_Ret s r)
  then show ?case by (auto intro: sat.sat_Ret)
next
  case (sat_Step s f)
  show ?case
  proof (rule sat.sat_Step)
    fix s' t
    assume s': "rely s s'"
    from sat_Step.IH [OF s', of t] have g: "guar t s' (snd (f t s'))" by simp
    then have "rely s (snd (f t s'))" by (meson s' guar_rely rely_trans)
    with sat_Step.IH [OF s', of t] sat_Step.prems rely_trans
    show "guar t s' (snd (f t s')) \<and> sat rely guar P (fst (f t s')) (snd (f t s'))" by metis
  qed
qed

lemma sat_stable:
  assumes "sat rely guar Q p s" "rely s s'"
  shows "sat rely guar Q p s'"
  using assms by (cases rule: sat.cases) (auto intro: sat.intros rely_trans)

lemma sat_bind:
  assumes "sat rely guar Q p s" "\<And>r s'. rely s s' \<Longrightarrow> Q r s' \<Longrightarrow> sat rely guar P (k r) s'"
  shows "sat rely guar P (bind_act p k) s"
  using assms
proof (induction rule: sat.induct)
  case (sat_Ret s r)
  from sat_Ret.prems [OF rely_refl sat_Ret.hyps [OF rely_refl]] show ?case by simp
next
  case (sat_Step s f)
  have "guar t s' (snd (f t s')) \<and> sat rely guar P (bind_act (fst (f t s')) k) (snd (f t s'))"
    if s': "rely s s'" for s' t
  proof -
    from sat_Step.IH [OF s', of t] have g: "guar t s' (snd (f t s'))" by simp
    then have "rely s (snd (f t s'))" by (meson s' guar_rely rely_trans)
    with sat_Step.IH [OF s', of t] sat_Step.prems rely_trans show ?thesis by metis
  qed
  then show ?case by (auto intro: sat.sat_Step)
qed

lemma sat_map:
  assumes "sat rely guar (\<lambda>r. Q (f r)) p s"
  shows "sat rely guar Q (bind_act p (\<lambda>r. Ret (f r))) s"
  using assms by (induction rule: sat.induct) (auto intro: sat.intros)

text \<open>An error ends the handler; \<open>P\<close> must then hold of it at every later store.\<close>

lemma sat_attempt:
  assumes "\<And>e s'. r = Inl e \<Longrightarrow> rely s s' \<Longrightarrow> P (Inl e) s'"
    and "\<And>a. r = Inr a \<Longrightarrow> sat rely guar P (k a) s"
  shows "sat rely guar P (attempt r k) s"
  using assms by (cases r) (auto intro: sat.sat_Ret)

lemma sat_try:
  assumes "sat rely guar Q p s"
    and "\<And>e s'. rely s s' \<Longrightarrow> P (Inl e) s'"
    and "\<And>a s'. rely s s' \<Longrightarrow> Q (Inr a) s' \<Longrightarrow> sat rely guar P (k a) s'"
  shows "sat rely guar P (try_act p k) s"
  unfolding try_act_def
proof (rule sat_bind [OF assms(1)])
  fix r s'
  assume "rely s s'" "Q r s'"
  then show "sat rely guar P (case r of Inl e \<Rightarrow> Ret (Inl e) | Inr a \<Rightarrow> k a) s'"
    using assms(2,3) rely_trans by (cases r) (auto intro!: sat.sat_Ret)
qed

lemma sat_access:
  assumes "\<And>s' t r s''. rely s s' \<Longrightarrow> op t s' = (r, s'') \<Longrightarrow> guar t s' s''"
    and "\<And>s' t x s'' s3. rely s s' \<Longrightarrow> op t s' = (Inr x, s'') \<Longrightarrow> rely s'' s3 \<Longrightarrow> Q (Inr x) s3"
    and "\<And>e s'. rely s s' \<Longrightarrow> Q (Inl e) s'"
  shows "sat rely guar Q (access_err wrap op) s"
proof (unfold access_err_def, rule sat.sat_Step, goal_cases)
  case (1 s' t)
  obtain r s'' where op: "op t s' = (r, s'')" by force
  have g: "guar t s' s''" by (rule assms(1) [OF 1 op])
  have late: "rely s s''" by (rule rely_trans [OF 1 guar_rely [OF g]])
  have err: "sat rely guar Q (Ret (Inl e)) s1" if "rely s s1" for e s1
    using that assms(3) rely_trans by (auto intro!: sat.sat_Ret)
  have ok: "sat rely guar Q (Ret (Inr x)) s''" if "r = Inr x" for x
    using assms(2) [OF 1] op that by (auto intro!: sat.sat_Ret)
  show ?case
    using g err 1 late ok op by (cases r) (auto split: fault.split)
qed

lemma sat_local:
  assumes "\<And>r s'. rely s s' \<Longrightarrow> Q r s'"
  shows "sat rely guar Q (Step (\<lambda>t s. (Ret (g t), s))) s"
  using assms rely_trans by (auto intro!: sat.intros)

lemma sat_clock: "(\<And>r s'. rely s s' \<Longrightarrow> Q r s') \<Longrightarrow> sat rely guar Q clock s"
  unfolding clock_def by (rule sat_local)

lemma sat_read_account: "(\<And>r s'. rely s s' \<Longrightarrow> Q r s') \<Longrightarrow> sat rely guar Q read_account s"
  unfolding read_account_def by (rule sat_local)

lemma sat_submit: "(\<And>r s'. rely s s' \<Longrightarrow> Q r s') \<Longrightarrow> sat rely guar Q submit_transaction s"
  unfolding submit_transaction_def by (rule sat_local)

text \<open>Every step of a pool stays within the guarantee, and every answer meets its postcondition.\<close>

lemma step_pool_sat:
  assumes "length Qs = length ps" "\<And>j. j < length ps \<Longrightarrow> sat rely guar (Qs ! j) (ps ! j) s"
    and "step_pool (i, t) (ps, s) = (ps', s')"
  shows "guar t s s' \<and> length Qs = length ps' \<and> (\<forall>j < length ps'. sat rely guar (Qs ! j) (ps' ! j) s')"
proof (cases "i < length ps \<and> (\<exists>f. ps ! i = Step f)")
  case False
  then have "ps' = ps \<and> s' = s"
    using assms(3) by (auto simp: step_pool_def split: if_splits act.splits)
  with assms(1,2) show ?thesis by simp
next
  case True
  then obtain f where f: "i < length ps" "ps ! i = Step f" by blast
  have eq: "ps' = ps[i := fst (f t s)]" "s' = snd (f t s)"
    using assms(3) f by (auto simp: step_pool_def split: prod.splits)
  have "guar t s s' \<and> sat rely guar (Qs ! i) (fst (f t s)) s'"
    using assms(2) [OF f(1)] f(2) eq(2) by (auto simp: sat_Step_iff)
  then show ?thesis
    using assms(1,2) eq(1) f(1) sat_stable [OF assms(2) guar_rely [of t s s']]
    by (auto simp: nth_list_update)
qed

lemma run_pool_sat:
  assumes "length Qs = length ps" "\<And>j. j < length ps \<Longrightarrow> sat rely guar (Qs ! j) (ps ! j) s"
    and "run_pool sched (ps, s) = (ps', s')"
  shows "rely s s'" "j < length ps \<Longrightarrow> ps' ! j = Ret r \<Longrightarrow> (Qs ! j) r s'"
proof -
  have "rely s s' \<and> (\<forall>j < length ps. \<forall>r. ps' ! j = Ret r \<longrightarrow> (Qs ! j) r s')"
    using assms
  proof (induction sched arbitrary: ps s)
    case Nil
    then show ?case by (auto simp: sat_Ret_iff) (metis rely_refl sat_Ret_iff)
  next
    case (Cons d sched)
    obtain i t where d: "d = (i, t)" by force
    obtain ps1 s1 where cfg: "step_pool (i, t) (ps, s) = (ps1, s1)" by force
    from step_pool_sat [OF Cons.prems(1,2) cfg] have g: "guar t s s1" and len: "length Qs = length ps1"
      and all: "\<And>j. j < length ps1 \<Longrightarrow> sat rely guar (Qs ! j) (ps1 ! j) s1" by auto
    have "rely s1 s' \<and> (\<forall>j < length ps1. \<forall>r. ps' ! j = Ret r \<longrightarrow> (Qs ! j) r s')"
      using Cons.prems(3) cfg d by (intro Cons.IH [OF len all]) auto
    then show ?case
      using rely_trans [OF guar_rely [OF g]] len Cons.prems(1) by auto
  qed
  then show "rely s s'" "j < length ps \<Longrightarrow> ps' ! j = Ret r \<Longrightarrow> (Qs ! j) r s'" by blast+
qed

end

end
