(* ===== verification/Tx_Version.thy ===== *)
theory Tx_Version
  imports Pk_Prelude
begin

text \<open>
  Transaction messages: \<open>core/tx/version.rs\<close>, \<open>core/tx/wire.rs\<close> and the limit check of
  \<open>core/tx/build.rs\<close>.

  The message types belong to the Solana SDK; what is written here is the data the code reads
  (header, static keys, compiled instructions, lookups, the version-1 header configuration).
  A public key is its base58 text.  Compilation, serialization, signature verification and the
  version-1 limits are the SDK's and are fields of the parameter \<open>sdk\<close>.
\<close>

type_synonym pubkey = string
type_synonym bytes = "u8 list"

section \<open>Versions\<close>

datatype tx_version = V0 | V1

instantiation tx_version :: linorder
begin

definition less_eq_tx_version :: "tx_version \<Rightarrow> tx_version \<Rightarrow> bool" where
  "less_eq_tx_version v w \<longleftrightarrow> v = V0 \<or> w = V1"

definition less_tx_version :: "tx_version \<Rightarrow> tx_version \<Rightarrow> bool" where
  "less_tx_version v w \<longleftrightarrow> v = V0 \<and> w = V1"

instance
proof
  fix x y z :: tx_version
  show "x < y \<longleftrightarrow> x \<le> y \<and> \<not> y \<le> x" "x \<le> y \<or> y \<le> x" "x \<le> x"
    by (cases x; cases y; simp add: less_eq_tx_version_def less_tx_version_def)+
  show "x \<le> y \<Longrightarrow> y \<le> x \<Longrightarrow> x = y" "x \<le> y \<Longrightarrow> y \<le> z \<Longrightarrow> x \<le> z"
    by (cases x; cases y; cases z; simp add: less_eq_tx_version_def)+
qed

end

fun tx_version_u8 :: "tx_version \<Rightarrow> u8" where
  "tx_version_u8 V0 = 0"
| "tx_version_u8 V1 = 1"

definition try_from_u8 :: "u8 \<Rightarrow> string + tx_version" where
  "try_from_u8 v = (if v = 0 then Inr V0 else if v = 1 then Inr V1
     else Inl (''unsupported transaction version '' @ show_nat (unat v)))"

definition show_version :: "tx_version \<Rightarrow> string" where
  "show_version v = show_nat (unat (tx_version_u8 v))"

text \<open>\<open>join(", ")\<close> of the accepted versions, as the error messages print it.\<close>

fun join_comma :: "string list \<Rightarrow> string" where
  "join_comma [] = []"
| "join_comma [s] = s"
| "join_comma (s # ss) = s @ '', '' @ join_comma ss"

definition show_versions :: "tx_version list \<Rightarrow> string" where
  "show_versions vs = join_comma (map show_version vs)"

definition DEFAULT_ACCEPTED_VERSIONS :: "tx_version list" where
  "DEFAULT_ACCEPTED_VERSIONS = [V0]"

definition accepted_versions :: "tx_version list option \<Rightarrow> tx_version list" where
  "accepted_versions advertised = unwrap_or advertised DEFAULT_ACCEPTED_VERSIONS"

section \<open>Messages\<close>

record instruction =
  in_program_id :: pubkey
  in_accounts :: "(pubkey \<times> bool \<times> bool) list"
  in_data :: bytes

record compiled_instruction =
  ci_program_id_index :: u8
  ci_accounts :: bytes
  ci_data :: bytes

record transaction_config =
  tc_compute_unit_limit :: "u32 option"
  tc_priority_fee :: "u64 option"
  tc_heap_size :: "u32 option"
  tc_loaded_accounts_data_size_limit :: "u32 option"

record message_body =
  mb_num_required_signatures :: u8
  mb_static_account_keys :: "pubkey list"
  mb_instructions :: "compiled_instruction list"

datatype versioned_message =
    MLegacy message_body
  | MV0 message_body "pubkey list"
  | MV1 message_body transaction_config

fun body :: "versioned_message \<Rightarrow> message_body" where
  "body (MLegacy b) = b"
| "body (MV0 b lookups) = b"
| "body (MV1 b config) = b"

fun address_table_lookups :: "versioned_message \<Rightarrow> pubkey list option" where
  "address_table_lookups (MLegacy b) = None"
| "address_table_lookups (MV0 b lookups) = Some lookups"
| "address_table_lookups (MV1 b config) = None"

abbreviation static_account_keys :: "versioned_message \<Rightarrow> pubkey list" where
  "static_account_keys m \<equiv> mb_static_account_keys (body m)"

abbreviation message_instructions :: "versioned_message \<Rightarrow> compiled_instruction list" where
  "message_instructions m \<equiv> mb_instructions (body m)"

abbreviation num_required_signatures :: "versioned_message \<Rightarrow> nat" where
  "num_required_signatures m \<equiv> unat (mb_num_required_signatures (body m))"

record versioned_transaction =
  vt_signatures :: "bytes list"
  vt_message :: versioned_message

definition default_signature :: bytes where
  "default_signature = replicate 64 0"

record 'hash sdk =
  v0_try_compile :: "pubkey \<Rightarrow> instruction list \<Rightarrow> 'hash \<Rightarrow> string + message_body \<times> pubkey list"
  v1_try_compile_with_config :: "pubkey \<Rightarrow> instruction list \<Rightarrow> 'hash \<Rightarrow> transaction_config
      \<Rightarrow> string + message_body \<times> transaction_config"
  default_hash :: 'hash
  wincode_serialize :: "versioned_transaction \<Rightarrow> string + bytes"
  wincode_deserialize :: "bytes \<Rightarrow> string + versioned_transaction"
  message_serialize :: "versioned_message \<Rightarrow> bytes"
  signature_verify :: "bytes \<Rightarrow> pubkey \<Rightarrow> bytes \<Rightarrow> bool"
  base64_encode :: "bytes \<Rightarrow> string"
  base64_decode :: "string \<Rightarrow> string + bytes"
  V1_MAX_TRANSACTION_SIZE :: nat
  V1_MAX_ADDRESSES :: u8
  V1_MAX_INSTRUCTIONS :: u8
  V1_MAX_SIGNATURES :: u8

text \<open>A legacy message is policed as version 0.\<close>

fun version_of :: "versioned_message \<Rightarrow> core_error + tx_version" where
  "version_of (MLegacy b) = Inr V0"
| "version_of (MV0 b lookups) = Inr V0"
| "version_of (MV1 b config) = Inr V1"

section \<open>Limits\<close>

record tx_limits =
  max_bytes :: nat
  max_static_accounts :: nat
  max_instructions :: "nat option"
  max_signatures :: "nat option"

definition PACKET_DATA_SIZE :: nat where
  "PACKET_DATA_SIZE = 1280 - 40 - 8"

definition MAX_TX_ACCOUNT_LOCKS :: nat where
  "MAX_TX_ACCOUNT_LOCKS = 64"

fun limits :: "'hash sdk \<Rightarrow> tx_version \<Rightarrow> tx_limits" where
  "limits L V0 = \<lparr>max_bytes = PACKET_DATA_SIZE, max_static_accounts = MAX_TX_ACCOUNT_LOCKS,
     max_instructions = None, max_signatures = None\<rparr>"
| "limits L V1 = \<lparr>max_bytes = V1_MAX_TRANSACTION_SIZE L,
     max_static_accounts = unat (V1_MAX_ADDRESSES L),
     max_instructions = Some (unat (V1_MAX_INSTRUCTIONS L)),
     max_signatures = Some (unat (V1_MAX_SIGNATURES L))\<rparr>"

section \<open>The wire\<close>

definition serialize :: "'hash sdk \<Rightarrow> versioned_transaction \<Rightarrow> core_error + bytes" where
  "serialize L tx = (case wincode_serialize L tx of
     Inl e \<Rightarrow> Inl (SerializationError (''transaction serialization failed: '' @ e)) | Inr bs \<Rightarrow> Inr bs)"

definition serialized_size :: "'hash sdk \<Rightarrow> versioned_transaction \<Rightarrow> core_error + nat" where
  "serialized_size L tx = map_sum id length (serialize L tx)"

definition encode :: "'hash sdk \<Rightarrow> versioned_transaction \<Rightarrow> core_error + string" where
  "encode L tx = map_sum id (base64_encode L) (serialize L tx)"

definition decode_bytes :: "'hash sdk \<Rightarrow> bytes \<Rightarrow> core_error + versioned_transaction" where
  "decode_bytes L bs =
     (case wincode_deserialize L bs of
        Inl e \<Rightarrow> Inl (Other (''invalid transaction: '' @ e))
      | Inr tx \<Rightarrow>
          try_bind (version_of (vt_message tx)) (\<lambda>_.
          try_bind (serialize L tx) (\<lambda>again.
            if again \<noteq> bs
            then Inl (Other ''invalid transaction: non-canonical encoding or trailing bytes'')
            else Inr tx)))"

definition wire_decode :: "'hash sdk \<Rightarrow> string \<Rightarrow> core_error + versioned_transaction" where
  "wire_decode L b64 =
     (case base64_decode L b64 of
        Inl e \<Rightarrow> Inl (Other (''invalid base64 transaction: '' @ e))
      | Inr bs \<Rightarrow> decode_bytes L bs)"

definition check_limits :: "'hash sdk \<Rightarrow> versioned_transaction \<Rightarrow> tx_version \<Rightarrow> core_error + nat" where
  "check_limits L tx version =
     try_bind (serialized_size L tx) (\<lambda>size.
       let lim = limits L version; message = vt_message tx;
           accounts = length (static_account_keys message);
           instructions = length (message_instructions message);
           what = ''version '' @ show_version version @ '' transaction '' in
       if size > max_bytes lim
       then Inl (Other (what @ ''is '' @ show_nat size @ '' bytes, over the ''
              @ show_nat (max_bytes lim) @ ''-byte limit''))
       else if accounts > max_static_accounts lim
       then Inl (Other (what @ ''has '' @ show_nat accounts @ '' accounts, over the limit of ''
              @ show_nat (max_static_accounts lim)))
       else if (case max_instructions lim of Some m \<Rightarrow> instructions > m | None \<Rightarrow> False)
       then Inl (Other (what @ ''has '' @ show_nat instructions @ '' instructions, over the limit of ''
              @ show_nat (the (max_instructions lim))))
       else if (case max_signatures lim of Some m \<Rightarrow> num_required_signatures message > m | None \<Rightarrow> False)
       then Inl (Other (what @ ''requires '' @ show_nat (num_required_signatures message)
              @ '' signatures, over the limit of '' @ show_nat (the (max_signatures lim))))
       else Inr size)"

section \<open>Lemmas\<close>

lemma version_of_total: "\<exists>v. version_of m = Inr v"
  by (cases m) auto

lemma try_from_u8_inverse [simp]: "try_from_u8 (tx_version_u8 v) = Inr v"
  by (cases v) (simp_all add: try_from_u8_def)

text \<open>Within every limit of the version, and the size it has.\<close>

definition within_limits :: "'hash sdk \<Rightarrow> tx_version \<Rightarrow> versioned_transaction \<Rightarrow> nat \<Rightarrow> bool" where
  "within_limits L version tx n \<longleftrightarrow>
     (\<exists>bs. wincode_serialize L tx = Inr bs \<and> length bs = n)
     \<and> n \<le> max_bytes (limits L version)
     \<and> length (static_account_keys (vt_message tx)) \<le> max_static_accounts (limits L version)
     \<and> (case max_instructions (limits L version) of
          Some m \<Rightarrow> length (message_instructions (vt_message tx)) \<le> m | None \<Rightarrow> True)
     \<and> (case max_signatures (limits L version) of
          Some m \<Rightarrow> num_required_signatures (vt_message tx) \<le> m | None \<Rightarrow> True)"

lemma check_limits_ok: "check_limits L tx version = Inr n \<longleftrightarrow> within_limits L version tx n"
  by (cases "wincode_serialize L tx"; cases version)
    (auto simp: check_limits_def within_limits_def serialized_size_def serialize_def Let_def)

lemma decode_bytes_canonical:
  "decode_bytes L bs = Inr tx \<Longrightarrow> wincode_deserialize L bs = Inr tx \<and> wincode_serialize L tx = Inr bs"
  by (auto simp: decode_bytes_def serialize_def try_bind_Inr_iff split: sum.splits if_splits)

end
