(* ===== verification/Tx_Budget.thy ===== *)
theory Tx_Budget
  imports Tx_Version
begin

text \<open>
  Compute budgets and the builders: \<open>core/tx/budget.rs\<close> and \<open>core/tx/build.rs\<close>.

  A budget has two encodings, instructions in a version-0 message and the header of a
  version-1 message; \<open>declared_of\<close> reads either back.  The 128-bit intermediate products of the
  code are natural numbers: a 32-bit limit times a 64-bit price, and a 64-bit fee times a
  million, fit 128 bits.
\<close>

section \<open>Budgets\<close>

definition COMPUTE_BUDGET_PROGRAM_ID :: pubkey where
  "COMPUTE_BUDGET_PROGRAM_ID = ''ComputeBudget111111111111111111111111111111''"

definition SET_UNIT_LIMIT_TAG :: u8 where "SET_UNIT_LIMIT_TAG = 2"
definition SET_UNIT_PRICE_TAG :: u8 where "SET_UNIT_PRICE_TAG = 3"
definition SET_LOADED_ACCOUNTS_DATA_SIZE_LIMIT_TAG :: u8 where
  "SET_LOADED_ACCOUNTS_DATA_SIZE_LIMIT_TAG = 4"

definition MAX_LOADED_ACCOUNTS_DATA_SIZE_BYTES :: u32 where
  "MAX_LOADED_ACCOUNTS_DATA_SIZE_BYTES = 64 * 1024 * 1024"

lemmas tag_defs = SET_UNIT_LIMIT_TAG_def SET_UNIT_PRICE_TAG_def SET_LOADED_ACCOUNTS_DATA_SIZE_LIMIT_TAG_def

record compute_budget =
  bu_unit_limit :: u32
  bu_unit_price :: u64
  bu_loaded_limit :: u32

definition budget_new :: "u32 \<Rightarrow> u64 \<Rightarrow> compute_budget" where
  "budget_new unit_limit unit_price =
     \<lparr>bu_unit_limit = unit_limit, bu_unit_price = unit_price,
      bu_loaded_limit = MAX_LOADED_ACCOUNTS_DATA_SIZE_BYTES\<rparr>"

text \<open>200000 units per instruction, at most 1400000.\<close>

definition runtime_default :: "nat \<Rightarrow> compute_budget" where
  "runtime_default num_instructions =
     (let limit = saturating_mul (200000 :: u64) (of_nat num_instructions);
          limit = (if limit > 1400000 then 1400000 else limit) in
      budget_new (ucast limit) 0)"

definition div_ceil :: "nat \<Rightarrow> nat \<Rightarrow> nat" where
  "div_ceil a b = (a + b - 1) div b"

definition clamp_u64 :: "nat \<Rightarrow> u64" where
  "clamp_u64 n = of_nat (min n (2 ^ 64 - 1))"

definition priority_fee_lamports :: "compute_budget \<Rightarrow> u64" where
  "priority_fee_lamports b =
     (let micro = unat (bu_unit_limit b) * unat (bu_unit_price b) in
      clamp_u64 (div_ceil micro 1000000))"

definition unit_limit_instruction :: "u32 \<Rightarrow> instruction" where
  "unit_limit_instruction units =
     \<lparr>in_program_id = COMPUTE_BUDGET_PROGRAM_ID, in_accounts = [],
      in_data = SET_UNIT_LIMIT_TAG # le_bytes units\<rparr>"

definition unit_price_instruction :: "u64 \<Rightarrow> instruction" where
  "unit_price_instruction micro_lamports =
     \<lparr>in_program_id = COMPUTE_BUDGET_PROGRAM_ID, in_accounts = [],
      in_data = SET_UNIT_PRICE_TAG # le_bytes micro_lamports\<rparr>"

definition budget_instructions :: "compute_budget \<Rightarrow> instruction list" where
  "budget_instructions b =
     [unit_limit_instruction (bu_unit_limit b), unit_price_instruction (bu_unit_price b)]"

definition v1_config :: "compute_budget \<Rightarrow> transaction_config" where
  "v1_config b =
     \<lparr>tc_compute_unit_limit = Some (bu_unit_limit b),
      tc_priority_fee = Some (priority_fee_lamports b),
      tc_heap_size = None,
      tc_loaded_accounts_data_size_limit = Some (bu_loaded_limit b)\<rparr>"

section \<open>Reading a budget back\<close>

datatype compute_budget_op =
    UnitLimit u32
  | UnitPrice u64
  | LoadedAccountsDataSizeLimit u32

definition decode_compute_budget_op :: "compiled_instruction \<Rightarrow> compute_budget_op option" where
  "decode_compute_budget_op ix =
     (case ci_data ix of
        [] \<Rightarrow> None
      | tag # rest \<Rightarrow>
          if tag = SET_UNIT_LIMIT_TAG \<and> length (ci_data ix) = 5
          then Some (UnitLimit (from_le_bytes rest))
          else if tag = SET_UNIT_PRICE_TAG \<and> length (ci_data ix) = 9
          then Some (UnitPrice (from_le_bytes rest))
          else if tag = SET_LOADED_ACCOUNTS_DATA_SIZE_LIMIT_TAG \<and> length (ci_data ix) = 5
          then Some (LoadedAccountsDataSizeLimit (from_le_bytes rest))
          else None)"

record declared_budget =
  db_unit_limit :: "u32 option"
  db_unit_price :: "u64 option"
  db_loaded_limit :: "u32 option"
  db_instruction_indexes :: "nat list"

definition no_budget :: declared_budget where
  "no_budget = \<lparr>db_unit_limit = None, db_unit_price = None, db_loaded_limit = None,
     db_instruction_indexes = []\<rparr>"

definition is_compute_budget :: "pubkey list \<Rightarrow> compiled_instruction \<Rightarrow> bool" where
  "is_compute_budget keys ix \<longleftrightarrow>
     unat (ci_program_id_index ix) < length keys
     \<and> keys ! unat (ci_program_id_index ix) = COMPUTE_BUDGET_PROGRAM_ID"

text \<open>One ComputeBudget instruction of a version-0 message.\<close>

definition declare_op :: "compiled_instruction \<Rightarrow> declared_budget \<Rightarrow> core_error + declared_budget" where
  "declare_op ix d =
     (case decode_compute_budget_op ix of
        Some (UnitLimit units) \<Rightarrow>
          if db_unit_limit d \<noteq> None then Inl (Other ''duplicate SetComputeUnitLimit instruction'')
          else Inr (d\<lparr>db_unit_limit := Some units\<rparr>)
      | Some (UnitPrice price) \<Rightarrow>
          if db_unit_price d \<noteq> None then Inl (Other ''duplicate SetComputeUnitPrice instruction'')
          else Inr (d\<lparr>db_unit_price := Some price\<rparr>)
      | Some (LoadedAccountsDataSizeLimit n) \<Rightarrow>
          if db_loaded_limit d \<noteq> None
          then Inl (Other ''duplicate SetLoadedAccountsDataSizeLimit instruction'')
          else Inr (d\<lparr>db_loaded_limit := Some n\<rparr>)
      | None \<Rightarrow> Inl (Other ''unsupported ComputeBudget instruction''))"

fun scan_v0 :: "pubkey list \<Rightarrow> nat \<Rightarrow> compiled_instruction list \<Rightarrow> declared_budget
    \<Rightarrow> core_error + declared_budget" where
  "scan_v0 keys index [] d = Inr d"
| "scan_v0 keys index (ix # ixs) d =
     (if \<not> is_compute_budget keys ix then scan_v0 keys (Suc index) ixs d
      else try_bind (declare_op ix d) (\<lambda>d'.
        scan_v0 keys (Suc index) ixs
          (d'\<lparr>db_instruction_indexes := db_instruction_indexes d' @ [index]\<rparr>)))"

text \<open>The price a version-1 header amounts to, rounded up.\<close>

definition implied_price :: "u32 \<Rightarrow> u64 \<Rightarrow> u64" where
  "implied_price unit_limit fee =
     (if unit_limit = 0 then - 1 else clamp_u64 (div_ceil (unat fee * 1000000) (unat unit_limit)))"

definition declared_of :: "versioned_message \<Rightarrow> core_error + declared_budget" where
  "declared_of message =
     try_bind (version_of message) (\<lambda>version.
       case message of
         MV1 b config \<Rightarrow>
           if list_ex (is_compute_budget (mb_static_account_keys b)) (mb_instructions b)
           then Inl (Other ''version 1 transactions must not contain ComputeBudget instructions'')
           else try_bind (ok_or (tc_compute_unit_limit config)
                 (Other ''version 1 transaction config must set computeUnitLimit'')) (\<lambda>unit_limit.
             Inr \<lparr>db_unit_limit = Some unit_limit,
                  db_unit_price = map_option (implied_price unit_limit) (tc_priority_fee config),
                  db_loaded_limit = tc_loaded_accounts_data_size_limit config,
                  db_instruction_indexes = []\<rparr>)
       | _ \<Rightarrow> scan_v0 (static_account_keys message) 0 (message_instructions message) no_budget)"

section \<open>Builders\<close>

definition with_budget :: "compute_budget option \<Rightarrow> instruction list \<Rightarrow> instruction list" where
  "with_budget budget instructions =
     (case budget of Some b \<Rightarrow> budget_instructions b @ instructions | None \<Rightarrow> instructions)"

definition build_unsigned_unchecked :: "'hash sdk \<Rightarrow> tx_version \<Rightarrow> pubkey \<Rightarrow> instruction list
    \<Rightarrow> 'hash \<Rightarrow> compute_budget option \<Rightarrow> core_error + versioned_transaction" where
  "build_unsigned_unchecked L version fee_payer instructions recent_blockhash budget =
     try_bind (case version of
         V0 \<Rightarrow> (case v0_try_compile L fee_payer (with_budget budget instructions) recent_blockhash of
                  Inl e \<Rightarrow> Inl (Other (''failed to compile v0 message: '' @ e))
                | Inr (b, lookups) \<Rightarrow> Inr (MV0 b lookups))
       | V1 \<Rightarrow> (case v1_try_compile_with_config L fee_payer instructions recent_blockhash
                    (v1_config (unwrap_or budget (runtime_default (length instructions)))) of
                  Inl e \<Rightarrow> Inl (Other (''failed to compile v1 message: '' @ e))
                | Inr (b, config) \<Rightarrow> Inr (MV1 b config)))
       (\<lambda>message. Inr
          \<lparr>vt_signatures = replicate (num_required_signatures message) default_signature,
           vt_message = message\<rparr>)"

text \<open>\<open>build_unsigned\<close> repeats the same compilation and then enforces the limits.\<close>

definition build_unsigned :: "'hash sdk \<Rightarrow> tx_version \<Rightarrow> pubkey \<Rightarrow> instruction list
    \<Rightarrow> 'hash \<Rightarrow> compute_budget option \<Rightarrow> core_error + versioned_transaction" where
  "build_unsigned L version fee_payer instructions recent_blockhash budget =
     try_bind (build_unsigned_unchecked L version fee_payer instructions recent_blockhash budget) (\<lambda>tx.
     try_bind (check_limits L tx version) (\<lambda>_. Inr tx))"

fun first_fitting :: "(tx_version \<Rightarrow> core_error + versioned_transaction) \<Rightarrow> core_error
    \<Rightarrow> tx_version list \<Rightarrow> core_error + versioned_transaction" where
  "first_fitting build last_error [] = Inl last_error"
| "first_fitting build last_error (version # versions) =
     (case build version of
        Inr tx \<Rightarrow> Inr tx
      | Inl e \<Rightarrow> first_fitting build e versions)"

definition build_unsigned_fitting :: "'hash sdk \<Rightarrow> tx_version list \<Rightarrow> pubkey \<Rightarrow> instruction list
    \<Rightarrow> 'hash \<Rightarrow> compute_budget option \<Rightarrow> core_error + versioned_transaction" where
  "build_unsigned_fitting L accepted fee_payer instructions recent_blockhash budget =
     first_fitting (\<lambda>version. build_unsigned L version fee_payer instructions recent_blockhash budget)
       (Other ''no transaction version accepted'') (remdups_adj (sort accepted))"

definition measure_tx :: "'hash sdk \<Rightarrow> tx_version \<Rightarrow> pubkey \<Rightarrow> instruction list
    \<Rightarrow> compute_budget option \<Rightarrow> core_error + nat" where
  "measure_tx L version fee_payer instructions budget =
     try_bind (build_unsigned_unchecked L version fee_payer instructions (default_hash L) budget)
       (serialized_size L)"

section \<open>Lemmas: rounding\<close>

lemma div_ceil_le_iff: "0 < b \<Longrightarrow> div_ceil a b \<le> n \<longleftrightarrow> a \<le> n * b"
proof -
  assume b: "0 < b"
  have "div_ceil a b \<le> n \<longleftrightarrow> a + b - 1 < (n + 1) * b"
    using b by (simp add: div_ceil_def flip: less_Suc_eq_le) (simp add: div_less_iff_less_mult)
  also have "\<dots> \<longleftrightarrow> a \<le> n * b" using b by auto
  finally show ?thesis .
qed

lemma le_div_ceil: "0 < b \<Longrightarrow> a \<le> div_ceil a b * b"
  using div_ceil_le_iff [of b a "div_ceil a b"] by simp

lemma div_ceil_mono: "0 < b \<Longrightarrow> a \<le> c \<Longrightarrow> div_ceil a b \<le> div_ceil c b"
  by (simp add: div_ceil_le_iff) (use le_div_ceil [of b c] in linarith)

lemma unat_clamp_u64: "unat (clamp_u64 n) = min n (2 ^ 64 - 1)"
  by (simp add: clamp_u64_def unat_of_nat)

lemma priority_fee_mono:
  assumes "unat (bu_unit_limit a) * unat (bu_unit_price a) \<le> unat (bu_unit_limit b) * unat (bu_unit_price b)"
  shows "priority_fee_lamports a \<le> priority_fee_lamports b"
  using div_ceil_mono [OF _ assms, of 1000000]
  by (auto simp: priority_fee_lamports_def Let_def word_le_nat_alt unat_clamp_u64)

text \<open>The price read back from a header is never below the price the header was made from.\<close>

lemma implied_price_ge:
  assumes "0 < l" "unat l * unat p \<le> 1000000 * (2 ^ 64 - 1)"
  shows "p \<le> implied_price l (priority_fee_lamports (budget_new l p))"
proof -
  let ?fee = "div_ceil (unat l * unat p) 1000000"
  have l: "0 < unat l" using assms(1) by (simp add: unat_gt_0)
  have "?fee \<le> 2 ^ 64 - 1"
    using assms(2) by (simp add: div_ceil_le_iff mult.commute)
  then have fee: "unat (priority_fee_lamports (budget_new l p)) = ?fee"
    by (simp add: priority_fee_lamports_def budget_new_def unat_clamp_u64)
  have "unat p * unat l \<le> ?fee * 1000000"
    using le_div_ceil [of 1000000 "unat l * unat p"] by (simp add: mult.commute)
  also have "\<dots> \<le> div_ceil (?fee * 1000000) (unat l) * unat l"
    by (rule le_div_ceil [OF l])
  finally have "unat p \<le> div_ceil (?fee * 1000000) (unat l)"
    using l by simp
  moreover have "unat p \<le> 2 ^ 64 - 1"
    using unat_lt_2p [of p] by simp
  ultimately show ?thesis
    using assms(1) fee by (simp add: implied_price_def word_le_nat_alt unat_clamp_u64 word_gt_0)
qed

section \<open>Lemmas: compiled messages\<close>

text \<open>
  What the SDK's compilers promise: the fee payer is key zero, instruction \<open>n\<close> of the message
  is instruction \<open>n\<close> of the list (same program, same accounts, same data), no table is looked up when none is
  given, and a version-1 header is the configuration it was compiled with.
\<close>

definition compiled_as :: "pubkey \<Rightarrow> instruction list \<Rightarrow> message_body \<Rightarrow> bool" where
  "compiled_as fee_payer ixs b \<longleftrightarrow>
     mb_static_account_keys b \<noteq> [] \<and> hd (mb_static_account_keys b) = fee_payer
     \<and> list_all2 (\<lambda>ix ci. unat (ci_program_id_index ci) < length (mb_static_account_keys b)
          \<and> mb_static_account_keys b ! unat (ci_program_id_index ci) = in_program_id ix
          \<and> ci_data ci = in_data ix) ixs (mb_instructions b)
     \<and> list_all2 (\<lambda>ix ci. list_all2 (\<lambda>(key, _) a. unat a < length (mb_static_account_keys b)
            \<and> mb_static_account_keys b ! unat a = key) (in_accounts ix) (ci_accounts ci)) ixs (mb_instructions b)"

definition compiles_faithfully :: "'hash sdk \<Rightarrow> bool" where
  "compiles_faithfully L \<longleftrightarrow>
     (\<forall>payer ixs hash b lookups. v0_try_compile L payer ixs hash = Inr (b, lookups) \<longrightarrow>
        compiled_as payer ixs b \<and> lookups = [])
     \<and> (\<forall>payer ixs hash config b config'.
        v1_try_compile_with_config L payer ixs hash config = Inr (b, config') \<longrightarrow>
          compiled_as payer ixs b \<and> config' = config)"

definition foreign :: "instruction list \<Rightarrow> bool" where
  "foreign ixs \<longleftrightarrow> list_all (\<lambda>ix. in_program_id ix \<noteq> COMPUTE_BUDGET_PROGRAM_ID) ixs"

lemma scan_foreign:
  assumes "list_all2 (\<lambda>ix ci. unat (ci_program_id_index ci) < length keys
      \<and> keys ! unat (ci_program_id_index ci) = in_program_id ix \<and> ci_data ci = in_data ix) ixs cis"
    and "foreign ixs"
  shows "scan_v0 keys n cis d = Inr d \<and> \<not> list_ex (is_compute_budget keys) cis"
  using assms
proof (induction arbitrary: n rule: list_all2_induct)
  case (Cons ix ixs ci cis)
  then show ?case by (simp add: foreign_def is_compute_budget_def)
qed (simp add: foreign_def)

lemma decode_unit_limit [simp]:
  "ci_data ci = SET_UNIT_LIMIT_TAG # le_bytes (n :: u32) \<Longrightarrow> decode_compute_budget_op ci = Some (UnitLimit n)"
  by (simp add: decode_compute_budget_op_def tag_defs)

lemma decode_unit_price [simp]:
  "ci_data ci = SET_UNIT_PRICE_TAG # le_bytes (n :: u64) \<Longrightarrow> decode_compute_budget_op ci = Some (UnitPrice n)"
  by (simp add: decode_compute_budget_op_def tag_defs)

lemma declared_v0:
  assumes "compiled_as payer (budget_instructions b @ ixs) m" "foreign ixs"
  shows "declared_of (MV0 m lookups) = Inr \<lparr>db_unit_limit = Some (bu_unit_limit b),
    db_unit_price = Some (bu_unit_price b), db_loaded_limit = None, db_instruction_indexes = [0, 1]\<rparr>"
proof -
  let ?keys = "mb_static_account_keys m"
  obtain c1 c2 cs where cs: "mb_instructions m = c1 # c2 # cs"
      "ci_data c1 = SET_UNIT_LIMIT_TAG # le_bytes (bu_unit_limit b)" "is_compute_budget ?keys c1"
      "ci_data c2 = SET_UNIT_PRICE_TAG # le_bytes (bu_unit_price b)" "is_compute_budget ?keys c2"
      "list_all2 (\<lambda>ix ci. unat (ci_program_id_index ci) < length ?keys
        \<and> ?keys ! unat (ci_program_id_index ci) = in_program_id ix \<and> ci_data ci = in_data ix) ixs cs"
    using assms(1)
    by (auto simp: compiled_as_def budget_instructions_def list_all2_Cons1 is_compute_budget_def
        unit_limit_instruction_def unit_price_instruction_def)
  then show ?thesis
    using scan_foreign [OF cs(6) assms(2)]
    by (simp add: declared_of_def declare_op_def no_budget_def)
qed

lemma declared_v1:
  assumes "compiled_as payer ixs m" "foreign ixs"
  shows "declared_of (MV1 m (v1_config b)) = Inr \<lparr>db_unit_limit = Some (bu_unit_limit b),
    db_unit_price = Some (implied_price (bu_unit_limit b) (priority_fee_lamports b)),
    db_loaded_limit = Some (bu_loaded_limit b), db_instruction_indexes = []\<rparr>"
  using assms scan_foreign [of "mb_static_account_keys m" ixs "mb_instructions m"]
  by (simp add: declared_of_def compiled_as_def v1_config_def)

lemma priority_fee_of_new:
  "priority_fee_lamports b = priority_fee_lamports (budget_new (bu_unit_limit b) (bu_unit_price b))"
  by (simp add: priority_fee_lamports_def budget_new_def)

lemma build_unsigned_limits:
  "build_unsigned L v payer ixs hash budget = Inr tx \<Longrightarrow>
     version_of (vt_message tx) = Inr v \<and> (\<exists>n. within_limits L v tx n)
     \<and> vt_signatures tx = replicate (num_required_signatures (vt_message tx)) default_signature"
  by (cases v) (auto simp: build_unsigned_def build_unsigned_unchecked_def try_bind_Inr_iff check_limits_ok
      split: sum.splits prod.splits)

section \<open>Lemmas: the first version that fits\<close>

lemma distinct_remdups_adj: "sorted xs \<Longrightarrow> distinct (remdups_adj xs)"
  by (induction xs rule: remdups_adj.induct) auto

lemma first_fitting_lowest:
  assumes "sorted vs" "distinct vs"
  shows "first_fitting build e vs =
    (if {v \<in> set vs. \<exists>tx. build v = Inr tx} \<noteq> {}
     then build (Min {v \<in> set vs. \<exists>tx. build v = Inr tx})
     else if vs = [] then Inl e else build (Max (set vs)))"
  using assms
proof (induction vs arbitrary: e)
  case (Cons v vs)
  show ?case
  proof (cases "build v")
    case (Inr tx)
    then have "Min {w \<in> set (v # vs). \<exists>tx. build w = Inr tx} = v"
      using Cons.prems(1) by (intro Min_eqI) auto
    with Inr show ?thesis by auto
  next
    case (Inl e')
    have "{w \<in> set (v # vs). \<exists>tx. build w = Inr tx} = {w \<in> set vs. \<exists>tx. build w = Inr tx}"
      using Inl by auto
    moreover have "Max (set (v # vs)) = Max (set vs)" if "vs \<noteq> []"
    proof -
      have "v \<le> Max (set vs)"
        using Cons.prems(1) that Max_in [of "set vs"] by simp
      then show ?thesis using that by (simp add: max_def)
    qed
    ultimately show ?thesis
      using Cons.IH [of e'] Cons.prems Inl by auto
  qed
qed simp

section \<open>Properties\<close>

text \<open>
  A built budget is declared as asked.  Whatever instructions of other programs it carries, a
  transaction built with a budget is of the version asked for and within its limits, and what it declares
  is that unit limit and, on version 0, exactly that price; on version 1, where the header
  carries a total fee rounded up, a price that is at least it, so a cap on the declared price
  never lets through more than was asked for.
\<close>

theorem built_budget_declared:
  assumes "compiles_faithfully L" "foreign ixs"
    and "build_unsigned L v payer ixs hash (Some b) = Inr tx"
    and "v = V1 \<longrightarrow> 0 < bu_unit_limit b
      \<and> unat (bu_unit_limit b) * unat (bu_unit_price b) \<le> 1000000 * (2 ^ 64 - 1)"
  shows "version_of (vt_message tx) = Inr v \<and> (\<exists>n. check_limits L tx v = Inr n)
    \<and> (\<exists>d p. declared_of (vt_message tx) = Inr d \<and> db_unit_limit d = Some (bu_unit_limit b)
        \<and> db_unit_price d = Some p \<and> (if v = V0 then p = bu_unit_price b else bu_unit_price b \<le> p))"
proof -
  have "\<exists>d p. declared_of (vt_message tx) = Inr d \<and> db_unit_limit d = Some (bu_unit_limit b)
      \<and> db_unit_price d = Some p \<and> (if v = V0 then p = bu_unit_price b else bu_unit_price b \<le> p)"
  proof (cases v)
    case V0
    with assms(3) obtain m lookups where m: "vt_message tx = MV0 m lookups"
        "v0_try_compile L payer (budget_instructions b @ ixs) hash = Inr (m, lookups)"
      by (auto simp: build_unsigned_def build_unsigned_unchecked_def with_budget_def try_bind_Inr_iff
          split: sum.splits prod.splits)
    with assms(1) have "compiled_as payer (budget_instructions b @ ixs) m"
      unfolding compiles_faithfully_def by blast
    from declared_v0 [OF this assms(2)] m(1) V0 show ?thesis by simp
  next
    case V1
    with assms(3) obtain m config where m: "vt_message tx = MV1 m config"
        "v1_try_compile_with_config L payer ixs hash (v1_config b) = Inr (m, config)"
      by (auto simp: build_unsigned_def build_unsigned_unchecked_def try_bind_Inr_iff
          split: sum.splits prod.splits)
    with assms(1) have c: "compiled_as payer ixs m" "config = v1_config b"
      unfolding compiles_faithfully_def by blast+
    from declared_v1 [OF c(1) assms(2)] m(1) c(2) V1 assms(4)
      implied_price_ge [of "bu_unit_limit b" "bu_unit_price b"] priority_fee_of_new [of b]
    show ?thesis by simp
  qed
  with build_unsigned_limits [OF assms(3)] show ?thesis by (simp add: check_limits_ok)
qed

text \<open>
  A stand-in for the SDK: the message lists the fee payer and then the program of each
  instruction, up to two hundred instructions without accounts.
\<close>

definition toy_compile :: "pubkey \<Rightarrow> instruction list \<Rightarrow> string + message_body" where
  "toy_compile payer ixs =
     (if length ixs > 200 \<or> list_ex (\<lambda>ix. in_accounts ix \<noteq> []) ixs then Inl ''unsupported''
      else Inr \<lparr>mb_num_required_signatures = 1,
        mb_static_account_keys = payer # map in_program_id ixs,
        mb_instructions = map (\<lambda>n. \<lparr>ci_program_id_index = of_nat (Suc n), ci_accounts = [],
          ci_data = in_data (ixs ! n)\<rparr>) [0..<length ixs]\<rparr>)"

definition toy_sdk :: "unit sdk" where
  "toy_sdk =
     \<lparr>v0_try_compile = \<lambda>payer ixs h. map_sum id (\<lambda>b. (b, [])) (toy_compile payer ixs),
      v1_try_compile_with_config = \<lambda>payer ixs h config. map_sum id (\<lambda>b. (b, config)) (toy_compile payer ixs),
      default_hash = (),
      wincode_serialize = \<lambda>tx. Inr (concat (map ci_data (message_instructions (vt_message tx)))),
      wincode_deserialize = \<lambda>bs. Inl ''no'',
      message_serialize = \<lambda>m. concat (map ci_data (message_instructions m)),
      signature_verify = \<lambda>s k m. s \<noteq> default_signature,
      base64_encode = \<lambda>bs. [], base64_decode = \<lambda>s. Inl ''no'',
      V1_MAX_TRANSACTION_SIZE = 4096, V1_MAX_ADDRESSES = 64, V1_MAX_INSTRUCTIONS = 64,
      V1_MAX_SIGNATURES = 12\<rparr>"

lemma toy_compiled_as: "toy_compile payer ixs = Inr b \<Longrightarrow> compiled_as payer ixs b"
proof -
  have "unat (1 + word_of_nat n :: u8) = Suc n" if "n \<le> 200" for n
    using that by (simp add: unat_word_ariths unat_of_nat)
  then show "toy_compile payer ixs = Inr b \<Longrightarrow> compiled_as payer ixs b"
    by (auto simp: toy_compile_def compiled_as_def list_all2_conv_all_nth list_ex_iff split: if_splits)
qed

lemma toy_compiles_faithfully: "compiles_faithfully toy_sdk"
  by (auto simp: compiles_faithfully_def toy_sdk_def map_sum_def split: sum.splits intro: toy_compiled_as)

definition memo :: instruction where
  "memo = \<lparr>in_program_id = ''memo'', in_accounts = [], in_data = [1, 2, 3]\<rparr>"

theorem built_budget_declared_witness:
  "\<exists>tx d p. build_unsigned toy_sdk V1 ''payer'' [memo] () (Some (budget_new 20000 50)) = Inr tx
     \<and> declared_of (vt_message tx) = Inr d \<and> db_unit_price d = Some p \<and> 50 \<le> p"
proof -
  let ?b = "budget_new 20000 50"
  obtain tx where tx: "build_unsigned toy_sdk V1 ''payer'' [memo] () (Some ?b) = Inr tx"
    by (simp add: build_unsigned_def build_unsigned_unchecked_def toy_sdk_def toy_compile_def memo_def
        check_limits_def serialized_size_def serialize_def)
  have "foreign [memo]" by (simp add: foreign_def memo_def COMPUTE_BUDGET_PROGRAM_ID_def)
  moreover have "0 < bu_unit_limit ?b
      \<and> unat (bu_unit_limit ?b) * unat (bu_unit_price ?b) \<le> 1000000 * (2 ^ 64 - 1)"
    by (simp add: budget_new_def)
  ultimately show ?thesis
    using built_budget_declared [OF toy_compiles_faithfully _ tx] tx by (auto simp: budget_new_def)
qed

text \<open>
  The lowest version that fits.  \<open>build_unsigned_fitting\<close> answers with the transaction of
  the lowest accepted version that can carry the instructions, in whatever order and however
  often the versions are listed; when none can, with the error of the highest one; and with its
  own error when no version is accepted.
\<close>

theorem fitting_is_lowest:
  "build_unsigned_fitting L accepted payer ixs hash budget =
    (let build = (\<lambda>v. build_unsigned L v payer ixs hash budget);
         fits = {v. v \<in> set accepted \<and> (\<exists>tx. build v = Inr tx)} in
     if fits \<noteq> {} then build (Min fits)
     else if accepted = [] then Inl (Other ''no transaction version accepted'')
     else build (Max (set accepted)))"
proof -
  let ?vs = "remdups_adj (sort accepted)"
  have "sorted ?vs" "distinct ?vs" "set ?vs = set accepted"
    by (simp_all add: distinct_remdups_adj)
  moreover from this(3) have "?vs = [] \<longleftrightarrow> accepted = []" by (metis set_empty)
  ultimately show ?thesis
    by (simp only: build_unsigned_fitting_def first_fitting_lowest Let_def)
qed

end
