(* ===== verification/Tx_Policy.thy ===== *)
theory Tx_Policy
  imports Tx_Budget
begin

text \<open>
  The checks a server runs on a client's transaction before it co-signs: \<open>core/tx/policy.rs\<close>.
  The RPC client's account lookup is an argument.
\<close>

section \<open>Choosing a version\<close>

definition TX_V1_FEATURE_GATE :: pubkey where
  "TX_V1_FEATURE_GATE = ''txv1aq4pp281K9um3tnPgkfX8UqtFT6wcVW3hNezGLL''"

definition FEATURE_PROGRAM_ID :: pubkey where
  "FEATURE_PROGRAM_ID = ''Feature111111111111111111111111111111111111''"

datatype tx_v1_mode = Auto | On | Off

record account =
  acc_owner :: pubkey
  acc_data :: bytes

definition tx_v1_active :: "(pubkey \<Rightarrow> string + account) \<Rightarrow> bool" where
  "tx_v1_active get_account =
     (case get_account TX_V1_FEATURE_GATE of
        Inr a \<Rightarrow> acc_owner a = FEATURE_PROGRAM_ID \<and> acc_data a \<noteq> [] \<and> hd (acc_data a) = 1
      | Inl _ \<Rightarrow> False)"

fun resolve :: "tx_v1_mode \<Rightarrow> (pubkey \<Rightarrow> string + account) \<Rightarrow> tx_version list" where
  "resolve Off get_account = [V0]"
| "resolve On get_account = [V0, V1]"
| "resolve Auto get_account = (if tx_v1_active get_account then [V0, V1] else [V0])"

definition max_version :: "tx_version list \<Rightarrow> tx_version option" where
  "max_version vs = (if vs = [] then None else Some (fold max (tl vs) (hd vs)))"

definition highest :: "tx_version list \<Rightarrow> tx_version" where
  "highest accepted = unwrap_or (max_version accepted) V0"

definition negotiate :: "tx_version list option \<Rightarrow> tx_version option \<Rightarrow> core_error + tx_version" where
  "negotiate advertised max_signable =
     (let accepted = accepted_versions advertised in
      if accepted = []
      then Inl (Other ''the counterparty advertises no transaction version (transactionVersions is empty)'')
      else ok_or
        (max_version (filter (\<lambda>v. case max_signable of None \<Rightarrow> True | Some m \<Rightarrow> v \<le> m) accepted))
        (Other (''the server accepts transaction versions ['' @ show_versions accepted
           @ ''] but the signer signs up to version ''
           @ (case max_signable of None \<Rightarrow> [] | Some v \<Rightarrow> show_version v))))"

definition advertised :: "tx_version list \<Rightarrow> tx_version list option" where
  "advertised accepted = (if accepted = DEFAULT_ACCEPTED_VERSIONS then None else Some accepted)"

section \<open>Budget caps\<close>

datatype loaded_data_limit_rule = Maximum | Present

text \<open>The caps on the unit limit and on the price, shared by both versions.\<close>

definition check_unit_limit :: "u32 option \<Rightarrow> u32 \<Rightarrow> core_error + unit" where
  "check_unit_limit limit_opt max_unit_limit =
     (case limit_opt of
        None \<Rightarrow> Inr ()
      | Some limit \<Rightarrow>
          if limit = 0 then Inl (Other ''compute unit limit must be positive'')
          else if limit > max_unit_limit
          then Inl (Other (''compute unit limit '' @ show_nat (unat limit) @ '' exceeds maximum ''
                 @ show_nat (unat max_unit_limit)))
          else Inr ())"

definition price_error :: "u64 \<Rightarrow> u64 \<Rightarrow> core_error" where
  "price_error price max_price = Other (''compute unit price '' @ show_nat (unat price)
     @ '' exceeds maximum '' @ show_nat (unat max_price))"

definition loaded_accepted :: "loaded_data_limit_rule \<Rightarrow> u32 option \<Rightarrow> bool" where
  "loaded_accepted loaded loaded_limit =
     (case loaded of
        Maximum \<Rightarrow> loaded_limit = Some MAX_LOADED_ACCOUNTS_DATA_SIZE_BYTES
      | Present \<Rightarrow> (case loaded_limit of None \<Rightarrow> False
          | Some limit \<Rightarrow> limit > 0 \<and> limit \<le> MAX_LOADED_ACCOUNTS_DATA_SIZE_BYTES))"

definition loaded_error :: "loaded_data_limit_rule \<Rightarrow> core_error" where
  "loaded_error loaded = Other (''version 1 loaded accounts data size limit must be ''
     @ (case loaded of Maximum \<Rightarrow> [] | Present \<Rightarrow> ''present, nonzero and at most '')
     @ show_nat (unat MAX_LOADED_ACCOUNTS_DATA_SIZE_BYTES))"

definition check_v1_budget_caps_with :: "versioned_message \<Rightarrow> u32 \<Rightarrow> u64 \<Rightarrow> loaded_data_limit_rule
    \<Rightarrow> core_error + declared_budget option" where
  "check_v1_budget_caps_with message max_unit_limit max_unit_price loaded =
     try_bind (version_of message) (\<lambda>version.
       if version \<noteq> V1 then Inr None
       else try_bind (declared_of message) (\<lambda>declared.
         try_bind (check_unit_limit (db_unit_limit declared) max_unit_limit) (\<lambda>_.
           if (case db_unit_price declared of Some price \<Rightarrow> price > max_unit_price | None \<Rightarrow> False)
           then Inl (price_error (the (db_unit_price declared)) max_unit_price)
           else if \<not> loaded_accepted loaded (db_loaded_limit declared)
           then Inl (loaded_error loaded)
           else Inr (Some declared))))"

definition check_v1_budget_caps :: "versioned_message \<Rightarrow> u32 \<Rightarrow> u64 \<Rightarrow> core_error + declared_budget option" where
  "check_v1_budget_caps message max_unit_limit max_unit_price =
     check_v1_budget_caps_with message max_unit_limit max_unit_price Maximum"

definition reject_v1_heap_request :: "versioned_message \<Rightarrow> core_error + unit" where
  "reject_v1_heap_request message =
     (case message of
        MV1 b config \<Rightarrow>
          if tc_heap_size config \<noteq> None
          then Inl (Other ''version 1 transaction config must not request a heap size'')
          else Inr ()
      | _ \<Rightarrow> Inr ())"

text \<open>The limit the runtime gives a message that declares none.\<close>

definition implicit_limit :: "versioned_message \<Rightarrow> declared_budget \<Rightarrow> u32" where
  "implicit_limit message declared =
     bu_unit_limit (runtime_default
       (length (message_instructions message) - length (db_instruction_indexes declared)))"

definition check_v0_budget_caps :: "versioned_message \<Rightarrow> u32 \<Rightarrow> u64 \<Rightarrow> core_error + declared_budget option" where
  "check_v0_budget_caps message max_unit_limit max_unit_price =
     try_bind (version_of message) (\<lambda>version.
       if version \<noteq> V0 then Inr None
       else try_bind (declared_of message) (\<lambda>declared.
         if list_ex (\<lambda>index. ci_accounts (message_instructions message ! index) \<noteq> [])
              (db_instruction_indexes declared)
         then Inl (Other ''ComputeBudget instructions must not have accounts'')
         else if db_loaded_limit declared \<noteq> None
         then Inl (Other ''SetLoadedAccountsDataSizeLimit is not supported'')
         else try_bind (check_unit_limit (db_unit_limit declared) max_unit_limit) (\<lambda>_.
           case db_unit_price declared of
             None \<Rightarrow> Inr (Some declared)
           | Some price \<Rightarrow>
               if price > max_unit_price then Inl (price_error price max_unit_price)
               else if price > 0 \<and> db_unit_limit declared = None
                 \<and> implicit_limit message declared > max_unit_limit
               then Inl (Other (''implicit compute unit limit ''
                      @ show_nat (unat (implicit_limit message declared)) @ '' exceeds maximum ''
                      @ show_nat (unat max_unit_limit) @ ''; declare SetComputeUnitLimit''))
               else Inr (Some declared))))"

definition MAX_SPONSORED_PRIORITY_FEE_LAMPORTS :: u64 where
  "MAX_SPONSORED_PRIORITY_FEE_LAMPORTS = 2000"

definition priority_fee_of :: "versioned_message \<Rightarrow> declared_budget \<Rightarrow> u64" where
  "priority_fee_of message declared =
     (case message of
        MV1 b config \<Rightarrow> unwrap_or (tc_priority_fee config) 0
      | _ \<Rightarrow>
          let price = unwrap_or (db_unit_price declared) 0;
              limit = (case db_unit_limit declared of
                         Some limit \<Rightarrow> limit | None \<Rightarrow> implicit_limit message declared) in
          priority_fee_lamports (budget_new limit price))"

definition check_priority_fee :: "versioned_message \<Rightarrow> u64 \<Rightarrow> core_error + u64" where
  "check_priority_fee message max_lamports =
     try_bind (declared_of message) (\<lambda>declared.
       let fee = priority_fee_of message declared in
       if fee > max_lamports
       then Inl (Other (''priority fee '' @ show_nat (unat fee)
              @ '' lamports exceeds the sponsored maximum '' @ show_nat (unat max_lamports)))
       else Inr fee)"

definition require_budget_prefix :: "versioned_message \<Rightarrow> declared_budget \<Rightarrow> core_error + unit" where
  "require_budget_prefix message declared =
     (if list_ex (\<lambda>(position, index). position \<noteq> index)
           (enumerate 0 (db_instruction_indexes declared))
      then Inl (Other ''ComputeBudget instructions must lead the transaction'')
      else if db_unit_limit declared \<noteq> None \<and> db_unit_price declared \<noteq> None
        \<and> \<not> (case message_instructions message of
                [] \<Rightarrow> False
              | ix # _ \<Rightarrow> (case decode_compute_budget_op ix of Some (UnitLimit _) \<Rightarrow> True | _ \<Rightarrow> False))
      then Inl (Other ''SetComputeUnitLimit must precede SetComputeUnitPrice'')
      else Inr ())"

section \<open>The envelope\<close>

definition require_static_accounts :: "versioned_message \<Rightarrow> core_error + unit" where
  "require_static_accounts message =
     (if (case address_table_lookups message of Some lookups \<Rightarrow> lookups \<noteq> [] | None \<Rightarrow> False)
      then Inl (Other ''transactions with address lookup tables are not supported'')
      else Inr ())"

definition version_refused :: "string \<Rightarrow> tx_version list \<Rightarrow> core_error" where
  "version_refused what accepted =
     Other (what @ '' is not accepted; accepted versions: '' @ show_versions accepted)"

definition check_envelope :: "'hash sdk \<Rightarrow> versioned_transaction \<Rightarrow> tx_version list
    \<Rightarrow> core_error + tx_version" where
  "check_envelope L tx accepted =
     try_bind (version_of (vt_message tx)) (\<lambda>version.
       if version \<notin> set accepted
       then Inl (version_refused (''transaction version '' @ show_version version) accepted)
       else try_bind (require_static_accounts (vt_message tx)) (\<lambda>_.
         try_bind (check_limits L tx version) (\<lambda>_. Inr version)))"

definition refuse_legacy :: "versioned_message \<Rightarrow> tx_version list \<Rightarrow> core_error + unit" where
  "refuse_legacy message accepted =
     (case message of
        MLegacy _ \<Rightarrow> Inl (version_refused ''legacy transaction version'' accepted)
      | _ \<Rightarrow> Inr ())"

definition check_envelope_without_legacy :: "'hash sdk \<Rightarrow> versioned_transaction \<Rightarrow> tx_version list
    \<Rightarrow> core_error + tx_version" where
  "check_envelope_without_legacy L tx accepted =
     try_bind (refuse_legacy (vt_message tx) accepted) (\<lambda>_. check_envelope L tx accepted)"

text \<open>The signature slots, in order; \<open>index\<close> is the position of the first.\<close>

fun check_slots :: "'hash sdk \<Rightarrow> pubkey option \<Rightarrow> bytes \<Rightarrow> nat \<Rightarrow> (bytes \<times> pubkey) list
    \<Rightarrow> core_error + unit" where
  "check_slots L server_fee_payer message index [] = Inr ()"
| "check_slots L server_fee_payer message index ((signature, key) # slots) =
     (if server_fee_payer = Some key
      then (if index \<noteq> 0 \<or> signature \<noteq> default_signature
            then Inl (Other ''fee-payer signature slot must be empty before server co-signing'')
            else check_slots L server_fee_payer message (Suc index) slots)
      else if \<not> signature_verify L signature key message
      then Inl (Other (''invalid client transaction signature for required signer '' @ key))
      else check_slots L server_fee_payer message (Suc index) slots)"

definition require_presigned :: "'hash sdk \<Rightarrow> versioned_transaction \<Rightarrow> pubkey option
    \<Rightarrow> core_error + unit" where
  "require_presigned L tx server_fee_payer =
     (let required = num_required_signatures (vt_message tx);
          keys = static_account_keys (vt_message tx) in
      if length (vt_signatures tx) \<noteq> required \<or> length keys < required
      then Inl (Other ''transaction signature slots do not match its required signers'')
      else check_slots L server_fee_payer (message_serialize L (vt_message tx)) 0
             (zip (vt_signatures tx) keys))"

section \<open>Versions reported by the RPC\<close>

datatype transaction_version = LegacyVersion | Number u8

definition check_reported_version :: "transaction_version option \<Rightarrow> tx_version list
    \<Rightarrow> core_error + tx_version" where
  "check_reported_version reported accepted =
     try_bind
       (case reported of
          Some (Number n) \<Rightarrow> (case try_from_u8 n of Inl e \<Rightarrow> Inl (Other e) | Inr v \<Rightarrow> Inr v)
        | Some LegacyVersion \<Rightarrow> Inr V0
        | None \<Rightarrow> Inl (Other ''RPC did not report the transaction version''))
       (\<lambda>version.
          if version \<notin> set accepted
          then Inl (version_refused (''transaction version '' @ show_version version) accepted)
          else Inr version)"

definition check_reported_version_without_legacy :: "transaction_version option \<Rightarrow> tx_version list
    \<Rightarrow> core_error + tx_version" where
  "check_reported_version_without_legacy reported accepted =
     (if reported = Some LegacyVersion
      then Inl (version_refused ''legacy transaction version'' accepted)
      else check_reported_version reported accepted)"

section \<open>Lemmas: negotiation\<close>

lemma max_version_eq: "vs \<noteq> [] \<Longrightarrow> max_version vs = Some (Max (set vs))"
  by (cases vs) (simp_all add: max_version_def flip: Max.set_eq_fold)

text \<open>A client builds an accepted version it can sign, and the highest such.\<close>

lemma negotiate_ok:
  assumes "negotiate (advertised accepted) max_signable = Inr v"
  shows "v \<in> set accepted \<and> (\<forall>w \<in> set accepted. (\<forall>m. max_signable = Some m \<longrightarrow> w \<le> m) \<longrightarrow> w \<le> v)"
proof -
  let ?ok = "filter (\<lambda>w. case max_signable of None \<Rightarrow> True | Some m \<Rightarrow> w \<le> m) accepted"
  have acc: "accepted_versions (advertised accepted) = accepted"
    by (simp add: accepted_versions_def advertised_def)
  with assms have max: "max_version ?ok = Some v"
    by (auto simp: negotiate_def Let_def ok_or_def split: if_splits option.splits)
  then have "?ok \<noteq> []" by (auto simp: max_version_def)
  with max max_version_eq [of ?ok] have "v = Max (set ?ok)" by simp
  with \<open>?ok \<noteq> []\<close> have "v \<in> set ?ok" "\<forall>w \<in> set ?ok. w \<le> v"
    by (metis List.finite_set Max_in set_empty) (simp add: \<open>v = Max (set ?ok)\<close>)
  then show ?thesis by (auto split: option.splits)
qed

section \<open>Lemmas: fees\<close>

lemma check_unit_limit_ok:
  "check_unit_limit x m = Inr () \<longleftrightarrow> (case x of None \<Rightarrow> True | Some l \<Rightarrow> 0 < l \<and> l \<le> m)"
  by (auto simp: check_unit_limit_def not_less word_gt_0 split: option.splits)

lemma priority_fee_new_mono:
  assumes "unat l * unat p \<le> unat l' * unat p'"
  shows "priority_fee_lamports (budget_new l p) \<le> priority_fee_lamports (budget_new l' p')"
  using assms by (intro priority_fee_mono) (simp add: budget_new_def)

lemma implied_price_bounds_fee:
  assumes "0 < l" "l \<le> max_limit" "implied_price l fee \<le> max_price" "max_price < - 1"
  shows "fee \<le> priority_fee_lamports (budget_new max_limit max_price)"
proof -
  let ?c = "div_ceil (unat fee * 1000000) (unat l)"
  have l: "0 < unat l" "l \<noteq> 0" using assms(1) by (simp_all add: unat_gt_0)
  have "unat max_price < 2 ^ 64 - 1"
    using assms(4) by (simp add: word_less_nat_alt unsigned_minus_1_eq_mask mask_eq_exp_minus_1)
  then have "?c \<le> unat max_price"
    using assms(3) l by (auto simp: implied_price_def word_le_nat_alt unat_clamp_u64 min_def split: if_splits)
  then have "unat fee * 1000000 \<le> unat max_price * unat l"
    using l by (simp add: div_ceil_le_iff)
  also have "\<dots> \<le> unat max_price * unat max_limit"
    using assms(2) by (simp add: word_le_nat_alt)
  also have "\<dots> \<le> div_ceil (unat max_limit * unat max_price) 1000000 * 1000000"
    using le_div_ceil [of 1000000 "unat max_limit * unat max_price"] by (simp add: mult.commute)
  finally have "unat fee \<le> div_ceil (unat max_limit * unat max_price) 1000000" by simp
  moreover have "unat fee \<le> 2 ^ 64 - 1" using unat_lt_2p [of fee] by simp
  ultimately show ?thesis
    by (simp add: priority_fee_lamports_def budget_new_def word_le_nat_alt unat_clamp_u64)
qed

lemma v0_caps_bound:
  assumes "check_v0_budget_caps m max_limit max_price = Inr (Some d)"
  shows "declared_of m = Inr d
    \<and> priority_fee_of m d \<le> priority_fee_lamports (budget_new max_limit max_price)"
proof -
  have d: "version_of m = Inr V0" "declared_of m = Inr d" "check_unit_limit (db_unit_limit d) max_limit = Inr ()"
    and price: "\<And>p. db_unit_price d = Some p \<Longrightarrow> p \<le> max_price
      \<and> (0 < p \<and> db_unit_limit d = None \<longrightarrow> implicit_limit m d \<le> max_limit)"
    using assms
    by (auto simp: check_v0_budget_caps_def try_bind_Inr_iff split: if_splits option.splits)
  define limit where "limit = (case db_unit_limit d of Some l \<Rightarrow> l | None \<Rightarrow> implicit_limit m d)"
  have fee: "priority_fee_of m d = priority_fee_lamports (budget_new limit (unwrap_or (db_unit_price d) 0))"
    using d(1) by (cases m) (simp_all add: priority_fee_of_def limit_def Let_def split: option.split)
  have "unat limit * unat (unwrap_or (db_unit_price d) 0) \<le> unat max_limit * unat max_price"
  proof (cases "db_unit_price d")
    case (Some p)
    show ?thesis
    proof (cases "p = 0")
      case False
      then have "0 < p" by (simp add: word_gt_0)
      with price [OF Some] d(3) have "limit \<le> max_limit" "p \<le> max_price"
        by (auto simp: limit_def check_unit_limit_ok split: option.splits)
      with Some show ?thesis by (simp add: word_le_nat_alt mult_le_mono)
    qed (simp add: Some)
  qed simp
  with fee d(2) show ?thesis by (simp add: priority_fee_new_mono)
qed

lemma v1_caps_bound:
  assumes "check_v1_budget_caps m max_limit max_price = Inr (Some d)" "max_price < - 1"
  shows "declared_of m = Inr d
    \<and> priority_fee_of m d \<le> priority_fee_lamports (budget_new max_limit max_price)"
proof -
  have d: "version_of m = Inr V1" "declared_of m = Inr d" "check_unit_limit (db_unit_limit d) max_limit = Inr ()"
    and price: "\<And>p. db_unit_price d = Some p \<Longrightarrow> p \<le> max_price"
    using assms(1)
    by (auto simp: check_v1_budget_caps_def check_v1_budget_caps_with_def try_bind_Inr_iff
        split: if_splits option.splits)
  obtain b config where m: "m = MV1 b config" using d(1) by (cases m) auto
  obtain l where l: "db_unit_limit d = Some l"
      "db_unit_price d = map_option (implied_price l) (tc_priority_fee config)"
    using d(2) m by (auto simp: declared_of_def try_bind_Inr_iff split: if_splits)
  have "0 < l" "l \<le> max_limit" using d(3) l(1) by (simp_all add: check_unit_limit_ok)
  then have "unwrap_or (tc_priority_fee config) 0 \<le> priority_fee_lamports (budget_new max_limit max_price)"
    using price l(2) implied_price_bounds_fee [OF _ _ _ assms(2)]
    by (cases "tc_priority_fee config") simp_all
  with m d(2) show ?thesis by (simp add: priority_fee_of_def)
qed

section \<open>Lemmas: signature slots\<close>

lemma list_all_upt_Suc:
  "list_all P [0..<Suc k] \<longleftrightarrow> P 0 \<and> list_all (\<lambda>n. P (Suc n)) [0..<k]"
proof -
  have "(\<forall>n. n < Suc k \<longrightarrow> P n) \<longleftrightarrow> P 0 \<and> (\<forall>n. n < k \<longrightarrow> P (Suc n))"
    using less_Suc_eq_0_disj by auto
  then show ?thesis by (simp add: list_all_iff Ball_def del: upt_Suc)
qed

definition slot_ok :: "'hash sdk \<Rightarrow> pubkey option \<Rightarrow> bytes \<Rightarrow> nat \<Rightarrow> bytes \<times> pubkey \<Rightarrow> bool" where
  "slot_ok L payer message n slot =
     (if payer = Some (snd slot) then n = 0 \<and> fst slot = default_signature
      else signature_verify L (fst slot) (snd slot) message)"

lemma check_slots_Cons:
  "check_slots L payer message k (slot # slots) = Inr () \<longleftrightarrow>
     slot_ok L payer message k slot \<and> check_slots L payer message (Suc k) slots = Inr ()"
  by (cases slot) (auto simp: slot_ok_def)

lemma check_slots_ok:
  "check_slots L payer message k slots = Inr () \<longleftrightarrow>
     list_all (\<lambda>n. slot_ok L payer message (k + n) (slots ! n)) [0..<length slots]"
proof (induction slots arbitrary: k)
  case (Cons slot slots)
  then show ?case
    by (simp add: check_slots_Cons list_all_upt_Suc del: upt_Suc check_slots.simps)
qed simp

section \<open>Properties\<close>

text \<open>
  Capping the parts caps the total.  A message of either version that passes the budget
  caps of its version costs the sponsor at most the priority fee of the two caps together, and
  so passes the total-fee check for any ceiling that covers that fee.  This includes a
  version-0 message that sets a price and no limit, where the limit is the runtime's default
  for its instruction count, and a version-1 header, where the cap is applied to a derived
  price.
\<close>

theorem caps_bound_the_fee:
  assumes "check_v0_budget_caps m max_limit max_price = Inr (Some d)
      \<or> check_v1_budget_caps m max_limit max_price = Inr (Some d)"
    and "max_price < - 1"
    and "priority_fee_lamports (budget_new max_limit max_price) \<le> max_lamports"
  shows "\<exists>fee. check_priority_fee m max_lamports = Inr fee
    \<and> fee \<le> priority_fee_lamports (budget_new max_limit max_price)"
proof -
  have "declared_of m = Inr d"
      "priority_fee_of m d \<le> priority_fee_lamports (budget_new max_limit max_price)"
    using assms(1) v0_caps_bound v1_caps_bound [OF _ assms(2)] by blast+
  with assms(3) show ?thesis
    by (auto simp: check_priority_fee_def Let_def not_less)
qed

definition sample_v1 :: versioned_message where
  "sample_v1 = MV1 \<lparr>mb_num_required_signatures = 1, mb_static_account_keys = [''payer'', ''memo''],
       mb_instructions = [\<lparr>ci_program_id_index = 1, ci_accounts = [], ci_data = [7]\<rparr>]\<rparr>
     (v1_config (budget_new 20000 50))"

theorem caps_bound_the_fee_witness:
  "\<exists>fee. check_priority_fee sample_v1 MAX_SPONSORED_PRIORITY_FEE_LAMPORTS = Inr fee \<and> fee \<le> 2000"
proof -
  have fee: "priority_fee_lamports (budget_new 200000 10000) = 2000"
      "priority_fee_lamports (budget_new 20000 50) = 1"
    by (simp_all add: priority_fee_lamports_def budget_new_def div_ceil_def clamp_u64_def)
  have "\<exists>d. check_v1_budget_caps sample_v1 200000 10000 = Inr (Some d)"
    using fee(2)
    by (simp add: check_v1_budget_caps_def check_v1_budget_caps_with_def sample_v1_def declared_of_def
        is_compute_budget_def COMPUTE_BUDGET_PROGRAM_ID_def v1_config_def check_unit_limit_def
        implied_price_def div_ceil_def clamp_u64_def loaded_accepted_def budget_new_def)
  then obtain d where "check_v1_budget_caps sample_v1 200000 10000 = Inr (Some d)" by blast
  from caps_bound_the_fee [OF disjI2 [OF this], of MAX_SPONSORED_PRIORITY_FEE_LAMPORTS] fee show ?thesis
    by (simp add: MAX_SPONSORED_PRIORITY_FEE_LAMPORTS_def)
qed

text \<open>
  What the server co-signs.  The envelope check of the MPP methods passes exactly the
  transactions that are not legacy, of an accepted version, without lookup tables and within
  every limit of the version.  The pre-signing check passes exactly those with one slot per
  required signer in which every required signature but the server's own is valid over the
  message, the server's own being slot zero and empty wherever its key is a required signer.
\<close>

theorem cosign_gate_exact:
  "(check_envelope_without_legacy L tx accepted = Inr v \<longleftrightarrow>
      (\<exists>n. check_limits L tx v = Inr n) \<and> v \<in> set accepted
      \<and> (case vt_message tx of MLegacy b \<Rightarrow> False | MV0 b lookups \<Rightarrow> v = V0 \<and> lookups = []
         | MV1 b config \<Rightarrow> v = V1))
   \<and> (require_presigned L tx payer = Inr () \<longleftrightarrow>
      length (vt_signatures tx) = num_required_signatures (vt_message tx)
      \<and> num_required_signatures (vt_message tx) \<le> length (static_account_keys (vt_message tx))
      \<and> list_all (\<lambda>n. let signature = vt_signatures tx ! n; key = static_account_keys (vt_message tx) ! n in
            if payer = Some key then n = 0 \<and> signature = default_signature
            else signature_verify L signature key (message_serialize L (vt_message tx)))
          [0..<num_required_signatures (vt_message tx)])"
proof
  show "check_envelope_without_legacy L tx accepted = Inr v \<longleftrightarrow>
      (\<exists>n. check_limits L tx v = Inr n) \<and> v \<in> set accepted
      \<and> (case vt_message tx of MLegacy b \<Rightarrow> False | MV0 b lookups \<Rightarrow> v = V0 \<and> lookups = []
         | MV1 b config \<Rightarrow> v = V1)"
    by (cases "vt_message tx")
      (auto simp: check_envelope_without_legacy_def check_envelope_def refuse_legacy_def
        require_static_accounts_def try_bind_Inr_iff)
next
  let ?keys = "static_account_keys (vt_message tx)"
  show "require_presigned L tx payer = Inr () \<longleftrightarrow>
      length (vt_signatures tx) = num_required_signatures (vt_message tx)
      \<and> num_required_signatures (vt_message tx) \<le> length ?keys
      \<and> list_all (\<lambda>n. let signature = vt_signatures tx ! n; key = ?keys ! n in
            if payer = Some key then n = 0 \<and> signature = default_signature
            else signature_verify L signature key (message_serialize L (vt_message tx)))
          [0..<num_required_signatures (vt_message tx)]"
    by (auto simp: require_presigned_def Let_def check_slots_ok slot_ok_def list_all_iff split: if_splits)
qed

end
