(* ===== verification/Units.thy ===== *)
theory Units
  imports Pk_Prelude
begin

text \<open>
  Decimal amounts and base units: \<open>parse_units\<close> and \<open>format_units\<close> of \<open>core/units.rs\<close>.

  Text is the list of its bytes.  The 128-bit integers of the code are natural numbers with
  the 128-bit bound written out at the checked operations.
\<close>

section \<open>Operations\<close>

definition MAX_DECIMALS :: u8 where
  "MAX_DECIMALS = 18"

definition u128_bound :: nat where
  "u128_bound = 2 ^ 128"

text \<open>
  \<open>str::parse::<u128>\<close>: an optional plus sign, then at least one ASCII digit and nothing else,
  within 128 bits.
\<close>

definition strip_plus :: "string \<Rightarrow> string" where
  "strip_plus s = (case s of c # cs \<Rightarrow> if c = CHR ''+'' then cs else s | [] \<Rightarrow> [])"

definition parse_u128 :: "string \<Rightarrow> nat option" where
  "parse_u128 s =
     (let ds = strip_plus s in
      if ds \<noteq> [] \<and> list_all is_ascii_digit ds \<and> digits_value ds < u128_bound
      then Some (digits_value ds) else None)"

definition checked_pow :: "nat \<Rightarrow> nat \<Rightarrow> nat option" where
  "checked_pow b e = (if b ^ e < u128_bound then Some (b ^ e) else None)"

definition checked_mul :: "nat \<Rightarrow> nat \<Rightarrow> nat option" where
  "checked_mul a b = (if a * b < u128_bound then Some (a * b) else None)"

text \<open>\<open>str::split_once('.')\<close>.\<close>

definition split_once :: "string \<Rightarrow> (string \<times> string) option" where
  "split_once s = (if CHR ''.'' \<in> set s
     then Some (takeWhile (\<lambda>c. c \<noteq> CHR ''.'') s, tl (dropWhile (\<lambda>c. c \<noteq> CHR ''.'') s)) else None)"

definition invalid_amount :: "string \<Rightarrow> string \<Rightarrow> core_error" where
  "invalid_amount amount why = Other (''Invalid amount `'' @ amount @ ''`: '' @ why)"

definition decimals_error :: "u8 \<Rightarrow> core_error" where
  "decimals_error decimals = Other (''Decimals '' @ show_nat (unat decimals) @ '' exceeds maximum ''
     @ show_nat (unat MAX_DECIMALS))"

definition parse_units :: "string \<Rightarrow> u8 \<Rightarrow> core_error + string" where
  "parse_units amount decimals8 =
     (if decimals8 > MAX_DECIMALS then Inl (decimals_error decimals8)
      else if amount = [] then Inl (Other ''Empty amount'')
      else if length (filter (\<lambda>c. c = CHR ''.'') amount) > 1
      then Inl (invalid_amount amount ''more than one decimal point'')
      else (let decimals = unat decimals8 in
        case split_once amount of
          Some (integer, fraction) \<Rightarrow>
            if integer = [] \<or> fraction = []
            then Inl (invalid_amount amount ''integer and fractional parts must both be non-empty'')
            else if \<not> list_all is_ascii_digit integer \<or> \<not> list_all is_ascii_digit fraction
            then Inl (invalid_amount amount
                   ''only ASCII digits and a single optional decimal point are allowed'')
            else if length fraction > decimals
            then Inl (Other (''Too many decimal places: '' @ show_nat (length fraction) @ '' > ''
                   @ show_nat decimals))
            else (let combined = integer @ fraction @ replicate (decimals - length fraction) CHR ''0'';
                      trimmed = trim_start_zeros combined in
              Inr (if trimmed = [] then ''0'' else trimmed))
        | None \<Rightarrow>
            try_bind (ok_or (parse_u128 amount) (Other (''Invalid amount: '' @ amount))) (\<lambda>v.
            try_bind (ok_or (checked_pow 10 decimals)
                (Other (''10^'' @ show_nat decimals @ '' overflows u128 in parse_units''))) (\<lambda>factor.
            try_bind (ok_or (checked_mul v factor)
                (Other (show_nat v @ '' * 10^'' @ show_nat decimals @ '' overflows u128 in parse_units'')))
              (\<lambda>product. Inr (show_nat product))))))"

text \<open>The format \<open>{frac:0width$}\<close>: zeros on the left up to the width.\<close>

definition pad_zeros :: "nat \<Rightarrow> string \<Rightarrow> string" where
  "pad_zeros width s = replicate (width - length s) CHR ''0'' @ s"

definition format_units :: "string \<Rightarrow> u8 \<Rightarrow> core_error + string" where
  "format_units base_units decimals =
     (if decimals > MAX_DECIMALS then Inl (decimals_error decimals)
      else if base_units = [] \<or> \<not> list_all is_ascii_digit base_units
      then Inl (Other (''Invalid base units: '' @ base_units))
      else try_bind (ok_or (parse_u128 base_units) (Other (''Invalid base units: '' @ base_units)))
        (\<lambda>units.
          let scale = 10 ^ unat decimals; whole = units div scale; frac = units mod scale in
          if frac = 0 then Inr (show_nat whole)
          else Inr (show_nat whole @ ''.'' @ trim_end_zeros (pad_zeros (unat decimals) (show_nat frac)))))"

section \<open>Lemmas: digits\<close>

lemma digits_value_append:
  "digits_value (s @ t) = digits_value s * 10 ^ length t + digits_value t"
proof (induction t rule: rev_induct)
  case (snoc c t)
  have "digits_value (s @ t @ [c]) = 10 * digits_value (s @ t) + digit_value c"
    using digits_value_snoc [of "s @ t" c] by simp
  with snoc show ?case by (simp add: algebra_simps)
qed simp

lemma digit_value_0 [simp]: "digit_value CHR ''0'' = 0"
  by (simp add: digit_value_def)

lemma is_ascii_digit_0 [simp]: "is_ascii_digit CHR ''0''"
  by (simp add: is_ascii_digit_def)

lemma digits_value_replicate_0 [simp]: "digits_value (replicate n CHR ''0'') = 0"
  by (induction n) (simp_all add: digits_value_def)

lemma show_nat_digits_value:
  assumes "list_all is_ascii_digit s" "s \<noteq> []" "hd s \<noteq> CHR ''0''"
  shows "show_nat (digits_value s) = s"
  using assms
proof (induction s rule: rev_induct)
  case (snoc c s)
  have c: "is_ascii_digit c" using snoc.prems(1) by simp
  show ?case
  proof (cases "s = []")
    case True
    then show ?thesis
      using c digit_value_bound [OF c] digit_char_digit_value [OF c]
      by (simp add: digits_value_def show_nat.simps)
  next
    case False
    with snoc have IH: "show_nat (digits_value s) = s" by simp
    have "digits_value s \<noteq> 0"
    proof
      assume "digits_value s = 0"
      with IH have "s = [digit_char 0]" by (simp add: show_nat.simps)
      with snoc.prems(3) show False by (simp add: digit_char_def char_of_nat_zero)
    qed
    then show ?thesis
      using IH c digit_value_bound [OF c] digit_char_digit_value [OF c]
      by (subst show_nat.simps) simp
  qed
qed simp

lemma digits_value_trim: "digits_value (trim_start_zeros s) = digits_value s"
  by (induction s) (simp_all add: trim_start_zeros_def digits_value_def)

lemma trimmed_is_shown:
  assumes "list_all is_ascii_digit s"
  shows "(if trim_start_zeros s = [] then ''0'' else trim_start_zeros s) = show_nat (digits_value s)"
proof (cases "trim_start_zeros s = []")
  case True
  then have "digits_value s = 0" using digits_value_trim [of s] by simp
  with True show ?thesis by (simp add: show_nat.simps digit_char_def char_of_nat_zero)
next
  case False
  moreover have "list_all is_ascii_digit (trim_start_zeros s)"
    using assms set_dropWhileD unfolding trim_start_zeros_def list_all_iff by metis
  moreover have "hd (trim_start_zeros s) \<noteq> CHR ''0''"
    using False hd_dropWhile [of "\<lambda>c. c = CHR ''0''" s] by (auto simp: trim_start_zeros_def)
  ultimately show ?thesis
    using show_nat_digits_value [of "trim_start_zeros s"] by (simp add: digits_value_trim)
qed

lemma digits_value_less: "list_all is_ascii_digit s \<Longrightarrow> digits_value s < 10 ^ length s"
proof (induction s rule: rev_induct)
  case (snoc c s)
  then show ?case using digit_value_bound [of c] by (simp add: less_Suc_eq_le)
qed simp

section \<open>Lemmas: the two shapes of an amount\<close>

lemma dot_not_digit [simp]: "\<not> is_ascii_digit CHR ''.''" "\<not> is_ascii_digit CHR ''+''"
  by (simp_all add: is_ascii_digit_def)

lemma no_dot: "list_all is_ascii_digit s \<Longrightarrow> CHR ''.'' \<notin> set s"
  by (auto simp: list_all_iff)

lemma split_once_at: "CHR ''.'' \<notin> set i \<Longrightarrow> split_once (i @ CHR ''.'' # f) = Some (i, f)"
  by (auto simp: split_once_def takeWhile_append dropWhile_append)

lemma split_once_Some: "split_once s = Some (i, f) \<Longrightarrow> s = i @ CHR ''.'' # f \<and> CHR ''.'' \<notin> set i"
proof -
  assume split: "split_once s = Some (i, f)"
  then have "\<exists>x \<in> set s. \<not> (x \<noteq> CHR ''.'')"
    by (auto simp: split_once_def split: if_splits)
  then have "dropWhile (\<lambda>c. c \<noteq> CHR ''.'') s \<noteq> []"
    by (simp add: dropWhile_eq_Nil_conv)
  then obtain x xs where xs: "dropWhile (\<lambda>c. c \<noteq> CHR ''.'') s = x # xs" by (cases "dropWhile (\<lambda>c. c \<noteq> CHR ''.'') s") auto
  then have "x = CHR ''.''"
    by (simp add: dropWhile_eq_Cons_conv)
  with split xs show ?thesis
    using takeWhile_dropWhile_id [of "\<lambda>c. c \<noteq> CHR ''.''" s]
    by (auto simp: split_once_def dest: set_takeWhileD split: if_splits)
qed

lemma split_once_None: "split_once s = None \<longleftrightarrow> CHR ''.'' \<notin> set s"
  by (simp add: split_once_def)

text \<open>
  The number of base units an amount denotes: digits, a point and at most \<open>d\<close> digits, of any
  length; or digits alone, optionally after a plus sign, whose units fit 128 bits.
\<close>

definition denotes_units :: "string \<Rightarrow> nat \<Rightarrow> nat \<Rightarrow> bool" where
  "denotes_units amount d n \<longleftrightarrow>
     (\<exists>i f. amount = i @ CHR ''.'' # f \<and> i \<noteq> [] \<and> f \<noteq> []
        \<and> list_all is_ascii_digit i \<and> list_all is_ascii_digit f \<and> length f \<le> d
        \<and> n = digits_value i * 10 ^ d + digits_value f * 10 ^ (d - length f))
     \<or> (\<exists>ds. (amount = ds \<or> amount = CHR ''+'' # ds) \<and> ds \<noteq> [] \<and> list_all is_ascii_digit ds
        \<and> n = digits_value ds * 10 ^ d \<and> n < 2 ^ 128)"

lemma combined_value:
  assumes "length f \<le> d"
  shows "digits_value (i @ f @ replicate (d - length f) CHR ''0'') =
    digits_value i * 10 ^ d + digits_value f * 10 ^ (d - length f)"
  using assms by (simp add: digits_value_append algebra_simps flip: power_add)

lemma parse_fraction:
  assumes "i \<noteq> []" "f \<noteq> []" "list_all is_ascii_digit i" "list_all is_ascii_digit f"
    and "length f \<le> unat dec" "dec \<le> MAX_DECIMALS"
  shows "parse_units (i @ CHR ''.'' # f) dec =
    Inr (show_nat (digits_value i * 10 ^ unat dec + digits_value f * 10 ^ (unat dec - length f)))"
proof -
  let ?c = "i @ f @ replicate (unat dec - length f) CHR ''0''"
  have "filter (\<lambda>c. c = CHR ''.'') i = []" "filter (\<lambda>c. c = CHR ''.'') f = []"
    using no_dot [OF assms(3)] no_dot [OF assms(4)] by (auto simp: filter_empty_conv)
  moreover have "list_all is_ascii_digit ?c"
    using assms(3,4) by (auto simp: list_all_iff)
  then have "(if trim_start_zeros ?c = [] then ''0'' else trim_start_zeros ?c) =
      show_nat (digits_value i * 10 ^ unat dec + digits_value f * 10 ^ (unat dec - length f))"
    using trimmed_is_shown combined_value [OF assms(5)] by metis
  ultimately show ?thesis
    using assms split_once_at [OF no_dot [OF assms(3)], of f]
    by (simp add: parse_units_def Let_def not_less)
qed

lemma small_scale: "dec \<le> MAX_DECIMALS \<Longrightarrow> 10 ^ unat dec < u128_bound"
proof -
  assume "dec \<le> MAX_DECIMALS"
  then have "unat dec \<le> 18" by (simp add: MAX_DECIMALS_def word_le_nat_alt)
  then have "(10::nat) ^ unat dec \<le> 10 ^ 18" by (rule power_increasing) simp
  then show ?thesis by (simp add: u128_bound_def)
qed

lemma parse_whole:
  assumes "CHR ''.'' \<notin> set amount" "amount \<noteq> []" "dec \<le> MAX_DECIMALS"
  shows "parse_units amount dec = Inr s \<longleftrightarrow>
    (let ds = strip_plus amount; n = digits_value ds * 10 ^ unat dec in
      ds \<noteq> [] \<and> list_all is_ascii_digit ds \<and> n < u128_bound \<and> s = show_nat n)"
proof -
  let ?ds = "strip_plus amount"
  have "filter (\<lambda>c. c = CHR ''.'') amount = []"
    using assms(1) by (auto simp: filter_empty_conv)
  moreover have "digits_value ?ds < u128_bound" if "digits_value ?ds * 10 ^ unat dec < u128_bound"
    by (rule le_less_trans [OF _ that]) simp
  ultimately show ?thesis
    using assms small_scale [OF assms(3)]
    by (auto simp: parse_units_def Let_def split_once_def not_less parse_u128_def checked_pow_def
        checked_mul_def try_bind_Inr_iff ok_or_def split: if_splits)
qed

lemma strip_plus_digits:
  "strip_plus amount = ds \<and> list_all is_ascii_digit ds \<and> ds \<noteq> [] \<longleftrightarrow>
     (amount = ds \<or> amount = CHR ''+'' # ds) \<and> list_all is_ascii_digit ds \<and> ds \<noteq> []"
  by (auto simp: strip_plus_def split: list.splits if_splits)

section \<open>Lemmas: formatting\<close>

lemma list_all_show_nat [simp]: "list_all is_ascii_digit (show_nat n)"
  using show_nat_digits by (auto simp: list_all_iff)

lemma strip_plus_show_nat [simp]: "strip_plus (show_nat n) = show_nat n"
  using strip_plus_digits [of "show_nat n" "show_nat n"] by simp

lemma parse_u128_show_nat: "n < u128_bound \<Longrightarrow> parse_u128 (show_nat n) = Some n"
  by (simp add: parse_u128_def Let_def)

lemma length_show_nat: "n < 10 ^ Suc k \<Longrightarrow> length (show_nat n) \<le> Suc k"
proof (induction k arbitrary: n)
  case 0
  then show ?case by (subst show_nat.simps) simp
next
  case (Suc k)
  then show ?case
    using Suc.IH [of "n div 10"] by (subst show_nat.simps) (auto simp: div_less_iff_less_mult)
qed

lemma trim_end_snoc:
  "trim_end_zeros (s @ [c]) = (if c = CHR ''0'' then trim_end_zeros s else s @ [c])"
  by (simp add: trim_end_zeros_def)

lemma trim_end_value:
  "length (trim_end_zeros s) \<le> length s
   \<and> digits_value (trim_end_zeros s) * 10 ^ (length s - length (trim_end_zeros s)) = digits_value s"
proof (induction s rule: rev_induct)
  case Nil
  then show ?case by (simp add: trim_end_zeros_def)
next
  case (snoc c s)
  then show ?case
    by (auto simp: trim_end_snoc Suc_diff_le)
qed

lemma list_all_trim_end: "list_all P s \<Longrightarrow> list_all P (trim_end_zeros s)"
  unfolding trim_end_zeros_def list_all_iff by (auto dest: set_dropWhileD)

lemma format_fraction:
  assumes "0 < frac" "frac < 10 ^ d"
  defines "f \<equiv> trim_end_zeros (pad_zeros d (show_nat frac))"
  shows "f \<noteq> [] \<and> list_all is_ascii_digit f \<and> length f \<le> d
    \<and> digits_value f * 10 ^ (d - length f) = frac"
proof -
  obtain k where d: "d = Suc k" using assms(1,2) by (cases d) auto
  let ?p = "pad_zeros d (show_nat frac)"
  have "length ?p = d" "digits_value ?p = frac" "list_all is_ascii_digit ?p"
    using length_show_nat [of frac k] assms(2) d
    by (auto simp: pad_zeros_def digits_value_append list_all_iff show_nat_digits)
  with trim_end_value [of ?p] list_all_trim_end [of is_ascii_digit ?p] assms(1) show ?thesis
    unfolding f_def by auto
qed

section \<open>Properties\<close>

text \<open>
  Parsing a price is exact.  \<open>parse_units\<close> accepts precisely the amounts of the two
  shapes with at most 18 decimals, and its answer is the plain decimal text of the number of
  base units the amount denotes: no rounding, no overflow, nothing else accepted.  (The shapes
  include a leading plus sign without a point, and with a point the units are not bounded by
  128 bits.)
\<close>

theorem parse_units_exact:
  "parse_units amount dec = Inr s \<longleftrightarrow>
     dec \<le> 18 \<and> (\<exists>n. denotes_units amount (unat dec) n \<and> s = show_nat n)"
proof (cases "dec \<le> MAX_DECIMALS \<and> amount \<noteq> []")
  case False
  then show ?thesis
    by (auto simp: parse_units_def denotes_units_def MAX_DECIMALS_def)
next
  case ok: True
  show ?thesis
  proof (cases "split_once amount")
    case None
    then have dot: "CHR ''.'' \<notin> set amount" by (simp add: split_once_None)
    then have "\<nexists>i f. amount = i @ CHR ''.'' # f" by auto
    moreover have "parse_units amount dec = Inr s \<longleftrightarrow>
        (\<exists>ds. (strip_plus amount = ds \<and> list_all is_ascii_digit ds \<and> ds \<noteq> [])
          \<and> digits_value ds * 10 ^ unat dec < 2 ^ 128 \<and> s = show_nat (digits_value ds * 10 ^ unat dec))"
      using parse_whole [OF dot] ok by (auto simp: Let_def u128_bound_def)
    moreover have "dec \<le> 18" using ok by (simp add: MAX_DECIMALS_def)
    ultimately show ?thesis
      unfolding strip_plus_digits denotes_units_def by blast
  next
    case (Some p)
    then obtain i f where p: "amount = i @ CHR ''.'' # f" "CHR ''.'' \<notin> set i" "split_once amount = Some (i, f)"
      using split_once_Some by (metis surj_pair)
    have only: "i' = i \<and> f' = f" if "amount = i' @ CHR ''.'' # f'" "list_all is_ascii_digit i'" for i' f'
      using split_once_at [OF no_dot [OF that(2)], of f'] that(1) p(3) by simp
    have "\<not> list_all is_ascii_digit ds" if "amount = ds \<or> amount = CHR ''+'' # ds" for ds
      using that p(1) by (cases i) auto
    then have spec: "(\<exists>n. denotes_units amount (unat dec) n \<and> s = show_nat n) \<longleftrightarrow>
        i \<noteq> [] \<and> f \<noteq> [] \<and> list_all is_ascii_digit i \<and> list_all is_ascii_digit f \<and> length f \<le> unat dec
        \<and> s = show_nat (digits_value i * 10 ^ unat dec + digits_value f * 10 ^ (unat dec - length f))"
      using p(1) only unfolding denotes_units_def by blast
    show ?thesis
    proof (cases "i \<noteq> [] \<and> f \<noteq> [] \<and> list_all is_ascii_digit i \<and> list_all is_ascii_digit f \<and> length f \<le> unat dec")
      case True
      then show ?thesis
        using spec ok parse_fraction [of i f dec] p(1) by (auto simp: MAX_DECIMALS_def)
    next
      case False
      then have "\<nexists>s. parse_units amount dec = Inr s"
        using p(3) ok by (auto simp: parse_units_def Let_def)
      with spec False show ?thesis by blast
    qed
  qed
qed

text \<open>
  Formatting loses nothing.  For every 128-bit number of base units and at most 18
  decimals, \<open>format_units\<close> succeeds, and \<open>parse_units\<close> reads its answer back as that very
  number.
\<close>

theorem units_round_trip:
  assumes "n < 2 ^ 128" "dec \<le> 18"
  shows "\<exists>human. format_units (show_nat n) dec = Inr human \<and> parse_units human dec = Inr (show_nat n)"
proof -
  let ?d = "unat dec"
  let ?whole = "n div 10 ^ ?d"
  let ?frac = "n mod 10 ^ ?d"
  have dec: "dec \<le> MAX_DECIMALS" using assms(2) by (simp add: MAX_DECIMALS_def)
  have n: "?whole * 10 ^ ?d + ?frac = n" by (rule div_mult_mod_eq)
  have fmt: "format_units (show_nat n) dec = Inr (if ?frac = 0 then show_nat ?whole
      else show_nat ?whole @ CHR ''.'' # trim_end_zeros (pad_zeros ?d (show_nat ?frac)))"
    using dec assms(1) parse_u128_show_nat [of n]
    by (simp add: format_units_def Let_def not_less u128_bound_def)
  show ?thesis
  proof (cases "?frac = 0")
    case True
    have "CHR ''.'' \<notin> set (show_nat ?whole)" by (rule no_dot) simp
    with True n assms(1) dec have "parse_units (show_nat ?whole) dec = Inr (show_nat n)"
      using parse_whole [of "show_nat ?whole" dec "show_nat n"] by (simp add: Let_def u128_bound_def)
    with fmt True show ?thesis by simp
  next
    case False
    let ?f = "trim_end_zeros (pad_zeros ?d (show_nat ?frac))"
    have "?f \<noteq> []" "list_all is_ascii_digit ?f" "length ?f \<le> ?d"
        "digits_value ?f * 10 ^ (?d - length ?f) = ?frac"
      using format_fraction [of ?frac ?d] False by simp_all
    then have "parse_units (show_nat ?whole @ CHR ''.'' # ?f) dec = Inr (show_nat n)"
      using parse_fraction [of "show_nat ?whole" ?f dec] dec n by simp
    with fmt False show ?thesis by simp
  qed
qed

theorem units_round_trip_witness:
  "\<exists>human. format_units (show_nat 1500000) 6 = Inr human \<and> parse_units human 6 = Inr (show_nat 1500000)"
  using units_round_trip [of 1500000 6] by simp

end
