(* ===== verification/Charge_Request.thy ===== *)
theory Charge_Request
  imports Tx_Policy Units Kv_Store
begin

text \<open>
  The data of a charge: \<open>mpp/protocol/intents/charge.rs\<close>, \<open>mpp/protocol/solana.rs\<close> and
  \<open>core/mints.rs\<close>, with the errors of \<open>mpp/server/charge.rs\<close>.

  Text is the list of its UTF-8 bytes.  Public keys are their base58 text; reading one
  (\<open>Pubkey::from_str\<close>) and deriving program addresses belong to the Solana SDK and are fields of the
  parameter \<open>keylib\<close>.
\<close>

section \<open>Errors\<close>

record verification_error =
  ve_message :: string
  ve_code :: "string option"
  ve_retryable :: bool
  ve_type_uri :: string
  ve_title :: string
  ve_status :: nat

definition ve_new :: "string \<Rightarrow> verification_error" where
  "ve_new message = \<lparr>ve_message = message, ve_code = None, ve_retryable = False,
     ve_type_uri = ''tag:paymentauth.org,2024:verification-failed'',
     ve_title = ''Payment Verification Error'', ve_status = 402\<rparr>"

definition with_code :: "string \<Rightarrow> string \<Rightarrow> string \<Rightarrow> string \<Rightarrow> verification_error" where
  "with_code message code title type_uri = \<lparr>ve_message = message, ve_code = Some code,
     ve_retryable = False, ve_type_uri = type_uri, ve_title = title, ve_status = 402\<rparr>"

definition retryable :: "verification_error \<Rightarrow> verification_error" where
  "retryable e = e\<lparr>ve_retryable := True\<rparr>"

definition expired :: "string \<Rightarrow> verification_error" where
  "expired msg = with_code msg ''payment-expired'' ''Payment Challenge Expired''
     ''tag:paymentauth.org,2024:payment-expired''"

definition invalid_amount_error :: "string \<Rightarrow> verification_error" where
  "invalid_amount_error msg = with_code msg ''verification-failed'' ''Invalid Amount''
     ''tag:paymentauth.org,2024:verification-failed''"

definition invalid_recipient :: "string \<Rightarrow> verification_error" where
  "invalid_recipient msg = with_code msg ''verification-failed'' ''Invalid Recipient''
     ''tag:paymentauth.org,2024:verification-failed''"

definition transaction_failed :: "string \<Rightarrow> verification_error" where
  "transaction_failed msg = with_code msg ''verification-failed'' ''Transaction Failed''
     ''tag:paymentauth.org,2024:verification-failed''"

definition not_found :: "string \<Rightarrow> verification_error" where
  "not_found msg = with_code msg ''verification-failed'' ''Transaction Not Found''
     ''tag:paymentauth.org,2024:verification-failed''"

definition network_error :: "string \<Rightarrow> verification_error" where
  "network_error msg = retryable (with_code msg ''verification-failed'' ''Network Error''
     ''tag:paymentauth.org,2024:verification-failed'')"

definition credential_mismatch :: "string \<Rightarrow> verification_error" where
  "credential_mismatch msg = with_code msg ''malformed-credential'' ''Credential Mismatch''
     ''tag:paymentauth.org,2024:malformed-credential''"

definition invalid_payload :: "string \<Rightarrow> verification_error" where
  "invalid_payload msg = with_code msg ''malformed-credential'' ''Invalid Payload''
     ''tag:paymentauth.org,2024:malformed-credential''"

definition wrong_network :: "string \<Rightarrow> verification_error" where
  "wrong_network msg = with_code msg ''wrong-network'' ''Wrong Network''
     ''tag:paymentauth.org,2024:wrong-network''"

definition signature_consumed :: "string \<Rightarrow> verification_error" where
  "signature_consumed msg = with_code msg ''signature-consumed'' ''Signature Already Consumed''
     ''tag:paymentauth.org,2024:signature-consumed''"

definition too_many_splits :: "string \<Rightarrow> verification_error" where
  "too_many_splits msg = with_code msg ''verification-failed'' ''Too Many Splits''
     ''tag:paymentauth.org,2024:verification-failed''"

definition challenge_conflict :: "string \<Rightarrow> verification_error" where
  "challenge_conflict msg = with_code msg ''challenge-conflict''
     ''Challenge Already Presented With A Different Request''
     ''tag:paymentauth.org,2024:challenge-conflict''"

definition settlement_in_progress :: "string \<Rightarrow> verification_error" where
  "settlement_in_progress msg = retryable (with_code msg ''settlement-in-progress''
     ''Settlement Already In Progress'' ''tag:paymentauth.org,2024:settlement-in-progress'')"

text \<open>The errors of \<open>mpp::Error\<close> that this code raises, and their messages.\<close>

datatype charge_error = TooManySplits | InvalidConfig string | RpcFailed string | ChallengeExpired string | OtherError string

definition MAX_SPLITS :: nat where
  "MAX_SPLITS = 8"

fun show_charge_error :: "charge_error \<Rightarrow> string" where
  "show_charge_error TooManySplits = ''Splits exceed maximum of '' @ show_nat MAX_SPLITS @ '' entries''"
| "show_charge_error (InvalidConfig m) = ''Invalid configuration: '' @ m"
| "show_charge_error (RpcFailed m) = ''RPC error: '' @ m"
| "show_charge_error (ChallengeExpired m) = ''Challenge expired at '' @ m"
| "show_charge_error (OtherError m) = m"

fun mpp_of_core :: "core_error \<Rightarrow> charge_error" where
  "mpp_of_core (SerializationError m) = OtherError m"
| "mpp_of_core (Other m) = OtherError m"

section \<open>Requests\<close>

record hook_account =
  ha_address :: string
  ha_writable :: bool

record hook_descriptor =
  hd_program_id :: string
  hd_entrypoint :: bytes
  hd_accounts :: "hook_account list"
  hd_static_data :: bytes

record channel_hooks =
  ch_pre_fund :: "hook_descriptor option"
  ch_post_fund :: "hook_descriptor option"
  ch_pre_distribute :: "hook_descriptor option"
  ch_post_distribute :: "hook_descriptor option"

record channel_charge_profile =
  ccp_channel_program :: string
  ccp_channel_version :: u8
  ccp_channel_hooks :: channel_hooks
  ccp_recent_slot :: u64

record charge_split =
  sp_recipient :: string
  sp_amount :: string
  sp_ata_creation_required :: "bool option"
  sp_label :: "string option"
  sp_memo :: "string option"

record method_details =
  md_channel_charge :: "channel_charge_profile option"
  md_network :: "string option"
  md_decimals :: "u8 option"
  md_token_program :: "string option"
  md_fee_payer :: "bool option"
  md_fee_payer_key :: "string option"
  md_transaction_versions :: "tx_version list option"
  md_splits :: "charge_split list option"
  md_recent_blockhash :: "string option"
  md_confidential :: "bool option"
  md_auditor_elgamal_pubkey :: "string option"
  md_recipient_elgamal_pubkey :: "string option"

definition default_method_details :: method_details where
  "default_method_details = \<lparr>md_channel_charge = None, md_network = None, md_decimals = None,
     md_token_program = None, md_fee_payer = None, md_fee_payer_key = None,
     md_transaction_versions = None, md_splits = None, md_recent_blockhash = None,
     md_confidential = None, md_auditor_elgamal_pubkey = None, md_recipient_elgamal_pubkey = None\<rparr>"

fun json_get :: "json \<Rightarrow> string \<Rightarrow> json option" where
  "json_get (JObject kvs) k = map_of kvs k"
| "json_get _ k = None"

fun as_str :: "json \<Rightarrow> string option" where
  "as_str (JString s) = Some s"
| "as_str _ = None"

fun as_u64 :: "json \<Rightarrow> u64 option" where
  "as_u64 (JNumber n) = (if 0 \<le> n \<and> n < 2 ^ 64 then Some (of_int n) else None)"
| "as_u64 _ = None"

fun as_object :: "json \<Rightarrow> (string \<times> json) list option" where
  "as_object (JObject kvs) = Some kvs"
| "as_object _ = None"

fun as_array :: "json \<Rightarrow> json list option" where
  "as_array (JArray vs) = Some vs"
| "as_array _ = None"

record charge_request =
  cr_amount :: string
  cr_currency :: string
  cr_decimals :: "u8 option"
  cr_recipient :: "string option"
  cr_description :: "string option"
  cr_external_id :: "string option"
  cr_method_details :: "json option"

section \<open>Keys and programs\<close>

record keylib =
  key_from_str :: "string \<Rightarrow> string + pubkey"
  find_program_address :: "pubkey list \<Rightarrow> pubkey \<Rightarrow> pubkey \<times> u8"

definition TOKEN_PROGRAM :: pubkey where
  "TOKEN_PROGRAM = ''TokenkegQfeZyiNwAJbNbGKPFXCWuBvf9Ss623VQ5DA''"

definition TOKEN_2022_PROGRAM :: pubkey where
  "TOKEN_2022_PROGRAM = ''TokenzQdBNbLqP5VEhdkAS6EPFLC1PHnBqCXEpPxuEb''"

definition ASSOCIATED_TOKEN_PROGRAM :: pubkey where
  "ASSOCIATED_TOKEN_PROGRAM = ''ATokenGPvbdGVxr1b2hvZbsiqW5xWH25efTNsLJA8knL''"

definition COMPUTE_BUDGET_PROGRAM :: pubkey where
  "COMPUTE_BUDGET_PROGRAM = ''ComputeBudget111111111111111111111111111111''"

definition MEMO_PROGRAM :: pubkey where
  "MEMO_PROGRAM = ''MemoSq4gqABAXKb96qnH8TysNcWxMyWCqXgDLGmfcHr''"

definition SYSTEM_PROGRAM :: pubkey where
  "SYSTEM_PROGRAM = ''11111111111111111111111111111111''"

lemmas program_defs = TOKEN_PROGRAM_def TOKEN_2022_PROGRAM_def ASSOCIATED_TOKEN_PROGRAM_def
  COMPUTE_BUDGET_PROGRAM_def MEMO_PROGRAM_def SYSTEM_PROGRAM_def

lemma programs_distinct:
  "distinct [TOKEN_PROGRAM, TOKEN_2022_PROGRAM, ASSOCIATED_TOKEN_PROGRAM, COMPUTE_BUDGET_PROGRAM,
     MEMO_PROGRAM, SYSTEM_PROGRAM]"
  by (simp add: program_defs)

definition MAX_MEMO_BYTES :: nat where
  "MAX_MEMO_BYTES = 566"

section \<open>Currencies\<close>

definition USDC_MAINNET :: string where "USDC_MAINNET = ''EPjFWdd5AufqSSqeM2qN1xzybapC8G4wEGGkZwyTDt1v''"
definition USDC_DEVNET :: string where "USDC_DEVNET = ''4zMMC9srt5Ri5X14GAgXhaHii3GnPAEERYPJgZJDncDU''"
definition USDC_TESTNET :: string where "USDC_TESTNET = USDC_DEVNET"
definition USDTEST_DEVNET :: string where "USDTEST_DEVNET = ''6MJyWHwFpPsaTEuYarEz49ngtsSKPYn6yHqtJUW2a9St''"
definition USDT_MAINNET :: string where "USDT_MAINNET = ''Es9vMFrzaCERmJfrF4H2FYD4KCoNkY11McCe8BenwNYB''"
definition USDG_MAINNET :: string where "USDG_MAINNET = ''2u1tszSeqZ3qBWF3uNGPFc8TzMk2tdiwknnRMWGWjGWH''"
definition USDG_DEVNET :: string where "USDG_DEVNET = ''4F6PM96JJxngmHnZLBh9n58RH4aTVNWvDs2nuwrT5BP7''"
definition USDG_TESTNET :: string where "USDG_TESTNET = USDG_DEVNET"
definition PYUSD_MAINNET :: string where "PYUSD_MAINNET = ''2b1kV6DkPAnxd5ixfnxCpjxmKwqjjaYmCZfHsFu24GXo''"
definition PYUSD_DEVNET :: string where "PYUSD_DEVNET = ''CXk2AMBfi3TwaEL2468s6zP8xq9NxTXjp9gjMgzeUynM''"
definition PYUSD_TESTNET :: string where "PYUSD_TESTNET = PYUSD_DEVNET"
definition CASH_MAINNET :: string where "CASH_MAINNET = ''CASHx9KJUStyftLFWGvEVf59SGeG9sh5FfcnZMVPCASH''"
definition USDPT_MAINNET :: string where "USDPT_MAINNET = ''HVWf8JmLoHs99Lw8Psf3fyqAtA4crWxCPkrmSdNjhNH3''"

definition NETWORK_MAINNET :: string where "NETWORK_MAINNET = ''mainnet''"
definition NETWORK_DEVNET :: string where "NETWORK_DEVNET = ''devnet''"
definition NETWORK_LOCALNET :: string where "NETWORK_LOCALNET = ''localnet''"
definition DEFAULT_NETWORK :: string where "DEFAULT_NETWORK = NETWORK_MAINNET"

definition ascii_upper :: "char \<Rightarrow> char" where
  "ascii_upper c = (if 97 \<le> (of_char c :: nat) \<and> (of_char c :: nat) \<le> 122
     then char_of (of_char c - (32 :: nat)) else c)"

definition eq_ignore_ascii :: "string \<Rightarrow> string \<Rightarrow> bool" where
  "eq_ignore_ascii s t \<longleftrightarrow> map ascii_upper s = map ascii_upper t"

text \<open>
  \<open>str::to_uppercase\<close>, as far as a comparison with ASCII text can tell: the characters outside
  ASCII whose upper case is ASCII are dotless i, long s, sharp s and the ligatures from
  U+FB00 to U+FB06; the others are kept as they are.
\<close>

fun to_uppercase :: "string \<Rightarrow> string" where
  "to_uppercase (a # b # c # s) =
     (if a = CHR 0xEF \<and> b = CHR 0xAC \<and> c = CHR 0x80 then ''FF'' @ to_uppercase s
      else if a = CHR 0xEF \<and> b = CHR 0xAC \<and> c = CHR 0x81 then ''FI'' @ to_uppercase s
      else if a = CHR 0xEF \<and> b = CHR 0xAC \<and> c = CHR 0x82 then ''FL'' @ to_uppercase s
      else if a = CHR 0xEF \<and> b = CHR 0xAC \<and> c = CHR 0x83 then ''FFI'' @ to_uppercase s
      else if a = CHR 0xEF \<and> b = CHR 0xAC \<and> c = CHR 0x84 then ''FFL'' @ to_uppercase s
      else if a = CHR 0xEF \<and> b = CHR 0xAC \<and> (c = CHR 0x85 \<or> c = CHR 0x86) then ''ST'' @ to_uppercase s
      else if a = CHR 0xC4 \<and> b = CHR 0xB1 then ''I'' @ to_uppercase (c # s)
      else if a = CHR 0xC5 \<and> b = CHR 0xBF then ''S'' @ to_uppercase (c # s)
      else if a = CHR 0xC3 \<and> b = CHR 0x9F then ''SS'' @ to_uppercase (c # s)
      else ascii_upper a # to_uppercase (b # c # s))"
| "to_uppercase [a, b] =
     (if a = CHR 0xC4 \<and> b = CHR 0xB1 then ''I''
      else if a = CHR 0xC5 \<and> b = CHR 0xBF then ''S''
      else if a = CHR 0xC3 \<and> b = CHR 0x9F then ''SS''
      else [ascii_upper a, ascii_upper b])"
| "to_uppercase [a] = [ascii_upper a]"
| "to_uppercase [] = []"

definition by_network :: "string option \<Rightarrow> string \<Rightarrow> string \<Rightarrow> string \<Rightarrow> string" where
  "by_network network devnet testnet mainnet =
     (if network = Some ''devnet'' then devnet
      else if network = Some ''testnet'' then testnet else mainnet)"

definition resolve_stablecoin_mint :: "string \<Rightarrow> string option \<Rightarrow> string option" where
  "resolve_stablecoin_mint currency network =
     (let symbol = to_uppercase currency in
      if symbol = ''SOL'' then None
      else if symbol = ''USDC'' then Some (by_network network USDC_DEVNET USDC_TESTNET USDC_MAINNET)
      else if symbol = ''USDTEST'' \<and> network = Some NETWORK_DEVNET then Some USDTEST_DEVNET
      else if symbol = ''USDT'' then Some USDT_MAINNET
      else if symbol = ''USDG'' then Some (by_network network USDG_DEVNET USDG_TESTNET USDG_MAINNET)
      else if symbol = ''PYUSD'' then Some (by_network network PYUSD_DEVNET PYUSD_TESTNET PYUSD_MAINNET)
      else if symbol = ''CASH'' then Some CASH_MAINNET
      else if symbol = ''USDPT'' then Some USDPT_MAINNET
      else Some currency)"

definition try_resolve_stablecoin_mint :: "string \<Rightarrow> string option \<Rightarrow> charge_error + string option" where
  "try_resolve_stablecoin_mint currency network =
     (if (eq_ignore_ascii currency ''USDtest'' \<or> currency = USDTEST_DEVNET) \<and> network \<noteq> Some NETWORK_DEVNET
      then Inl (InvalidConfig (''USDtest is devnet-only; set network to `devnet` (got `''
             @ unwrap_or network DEFAULT_NETWORK @ ''`)''))
      else Inr (resolve_stablecoin_mint currency network))"

definition validate_network :: "string \<Rightarrow> charge_error + unit" where
  "validate_network network =
     (if network \<in> {NETWORK_MAINNET, NETWORK_DEVNET, NETWORK_LOCALNET} then Inr ()
      else if network = [] then Inl (InvalidConfig ''network must not be empty (one of `mainnet`, `devnet`, `localnet`)'')
      else Inl (InvalidConfig (''Unknown network `'' @ network @ ''` (allowed: `mainnet`, `devnet`, `localnet`)'')))"

definition stablecoin_uses_token_2022 :: "string \<Rightarrow> bool" where
  "stablecoin_uses_token_2022 mint \<longleftrightarrow> eq_ignore_ascii mint ''USDtest''
     \<or> mint \<in> {USDTEST_DEVNET, PYUSD_MAINNET, PYUSD_DEVNET, USDG_MAINNET, USDG_DEVNET, CASH_MAINNET, USDPT_MAINNET}"

definition default_token_program_for_currency :: "string \<Rightarrow> string option \<Rightarrow> string" where
  "default_token_program_for_currency currency network =
     (case resolve_stablecoin_mint currency network of
        Some mint \<Rightarrow> if stablecoin_uses_token_2022 mint then TOKEN_2022_PROGRAM else TOKEN_PROGRAM
      | None \<Rightarrow> TOKEN_PROGRAM)"

definition NATIVE_SOL_CURRENCY :: string where
  "NATIVE_SOL_CURRENCY = ''sol''"

definition currency_is_native_sol :: "string \<Rightarrow> bool" where
  "currency_is_native_sol currency = eq_ignore_ascii currency ''SOL''"

definition wire_currency :: "keylib \<Rightarrow> string \<Rightarrow> string \<Rightarrow> charge_error + string" where
  "wire_currency L currency network =
     (if currency_is_native_sol currency then Inr NATIVE_SOL_CURRENCY
      else try_bind (try_resolve_stablecoin_mint currency (Some network)) (\<lambda>resolved.
        let mint = unwrap_or resolved currency in
        try_bind (map_err (\<lambda>e. InvalidConfig (''Currency '' @ currency
              @ '' is neither a known symbol nor a valid mint address: '' @ e)) (key_from_str L mint))
          (\<lambda>_. Inr mint)))"

definition with_wire_currency :: "keylib \<Rightarrow> string \<Rightarrow> charge_request \<Rightarrow> charge_request" where
  "with_wire_currency L network request =
     (case wire_currency L (cr_currency request) network of
        Inr currency \<Rightarrow> if currency \<noteq> cr_currency request then request\<lparr>cr_currency := currency\<rparr> else request
      | Inl _ \<Rightarrow> request)"

definition resolve_expected_mint :: "keylib \<Rightarrow> string \<Rightarrow> string option \<Rightarrow> verification_error + pubkey" where
  "resolve_expected_mint L currency network =
     try_bind (map_err (\<lambda>e. invalid_payload (show_charge_error e)) (try_resolve_stablecoin_mint currency network))
       (\<lambda>resolved. try_bind (ok_or resolved (invalid_payload ''SOL does not use an SPL mint''))
         (\<lambda>mint. map_err (\<lambda>e. invalid_payload (''Invalid currency/mint: '' @ e)) (key_from_str L mint)))"

section \<open>Splits\<close>

text \<open>\<open>str::parse::<u64>\<close>.\<close>

definition parse_u64 :: "string \<Rightarrow> u64 option" where
  "parse_u64 s =
     (let ds = strip_plus s in
      if ds \<noteq> [] \<and> list_all is_ascii_digit ds \<and> digits_value ds < 2 ^ 64
      then Some (of_nat (digits_value ds)) else None)"

fun checked_sum :: "u64 \<Rightarrow> u64 list \<Rightarrow> u64 option" where
  "checked_sum acc [] = Some acc"
| "checked_sum acc (x # xs) = (case checked_add acc x of None \<Rightarrow> None | Some acc' \<Rightarrow> checked_sum acc' xs)"

definition checked_sum_split_amounts :: "charge_split list \<Rightarrow> u64 option" where
  "checked_sum_split_amounts splits = checked_sum 0 (map (\<lambda>s. unwrap_or (parse_u64 (sp_amount s)) 0) splits)"

fun validate_legs :: "keylib \<Rightarrow> nat \<Rightarrow> (string \<times> string option) list \<Rightarrow> charge_split list
    \<Rightarrow> charge_error + unit" where
  "validate_legs L idx seen [] = Inr ()"
| "validate_legs L idx seen (s # splits) =
     try_bind (map_err (\<lambda>e. InvalidConfig (''splits['' @ show_nat idx @ '']: invalid recipient pubkey: '' @ e))
         (key_from_str L (sp_recipient s))) (\<lambda>_.
     try_bind (ok_or (parse_u64 (sp_amount s)) (InvalidConfig (''splits['' @ show_nat idx @ '']: amount `''
         @ sp_amount s @ ''` is not a valid u64''))) (\<lambda>_.
       let leg = (sp_recipient s, if sp_memo s = Some [] then None else sp_memo s) in
       if leg \<in> set seen
       then Inl (InvalidConfig (''splits['' @ show_nat idx @ '']: duplicate recipient and memo''))
       else validate_legs L (Suc idx) (leg # seen) splits))"

definition validate_splits :: "keylib \<Rightarrow> charge_split list \<Rightarrow> charge_error + unit" where
  "validate_splits L splits =
     (if length splits > MAX_SPLITS then Inl TooManySplits
      else try_bind (validate_legs L 0 [] splits) (\<lambda>_.
        if checked_sum_split_amounts splits = None
        then Inl (InvalidConfig ''Sum of split amounts overflows u64'')
        else Inr ()))"

section \<open>Lemmas\<close>

lemma checked_sum_unat:
  "checked_sum acc xs = Some t \<Longrightarrow> unat t = unat acc + sum_list (map unat xs)"
  by (induction xs arbitrary: acc) (auto split: option.splits simp: checked_add_Some_iff)

lemma parse_u64_show: "parse_u64 (show_nat (unat n)) = Some n"
proof -
  have digit: "is_ascii_digit c" if "c \<in> set (show_nat (unat n))" for c using that by (rule show_nat_digits)
  moreover obtain c cs where s: "show_nat (unat n) = c # cs" by (cases "show_nat (unat n)") auto
  moreover have "c \<noteq> CHR ''+''" using digit [of c] s by (auto simp: is_ascii_digit_def)
  ultimately have "strip_plus (show_nat (unat n)) = show_nat (unat n)" by (simp add: strip_plus_def)
  then show ?thesis using digit unat_lt_2p [of n] by (simp add: parse_u64_def list_all_iff)
qed

end
