(* ===== verification/Channel_Deployment.thy ===== *)
theory Channel_Deployment
  imports Charge_Request Voucher
begin

text \<open>
  The deployments of the payment-channel program: \<open>core/payment_channel/v2.rs\<close> (callback hooks, their
  two encodings, the channel account and \<open>Deployment\<close>) and \<open>mpp/program/channel_deployment.rs\<close>.

  Reading and printing a key, SHA-256 and the generated reader of the channel account are fields of
  the parameter \<open>abi_lib\<close>.  Buffers that the code fills by offset are written out as the
  concatenation of their parts.
\<close>

section \<open>Keys\<close>

text \<open>The fields of the generated \<open>Channel\<close> account that the kit reads.\<close>

record channel_account =
  ca_status :: u8
  ca_closure_started_at :: i64
  ca_settled :: u64
  ca_deposit :: u64
  ca_salt :: u64
  ca_open_slot :: u64
  ca_grace_period :: u32
  ca_payer :: bytes
  ca_rent_payer :: bytes
  ca_payee :: bytes
  ca_mint :: bytes
  ca_authorized_signer :: bytes
  ca_distribution_hash :: bytes

record abi_lib =
  ab_from_str :: "string \<Rightarrow> string + bytes"
  ab_to_string :: "bytes \<Rightarrow> string"
  ab_sha256 :: "bytes \<Rightarrow> bytes"
  ab_channel_from_bytes :: "bytes \<Rightarrow> string + channel_account"

definition V1_PROGRAM_ID :: string where
  "V1_PROGRAM_ID = ''CHNLxYvVA28MJP9PrFuDXccuoGXAx7jBacfLEkahyGsX''"

definition V2_PROGRAM_ID :: string where
  "V2_PROGRAM_ID = ''CHNLxBtXw7VPqd5GMcbtVoEbn4ehyaSoiHj56Ao5sWkJ''"

definition CHANNEL_ACCOUNT_SIZE :: nat where
  "CHANNEL_ACCOUNT_SIZE = 1121"

definition HOOK_DESCRIPTOR_SIZE :: nat where
  "HOOK_DESCRIPTOR_SIZE = 206"

definition MAX_HOOK_ACCOUNTS :: nat where
  "MAX_HOOK_ACCOUNTS = 4"

definition MAX_STATIC_DATA :: nat where
  "MAX_STATIC_DATA = 32"

definition abi_invalid :: "string \<Rightarrow> core_error" where
  "abi_invalid message = Other (''payment-channel ABI: '' @ message)"

definition v1_parse_pubkey :: "abi_lib \<Rightarrow> string \<Rightarrow> core_error + bytes" where
  "v1_parse_pubkey A value =
     Pk_Prelude.map_err (\<lambda>e. Other (''invalid pubkey '' @ value @ '': '' @ e)) (ab_from_str A value)"

text \<open>The constant is a valid key, or the code panics here.\<close>

definition default_program_id :: "abi_lib \<Rightarrow> bytes" where
  "default_program_id A = projr (ab_from_str A V1_PROGRAM_ID)"

section \<open>Hooks\<close>

definition slots :: "channel_hooks \<Rightarrow> hook_descriptor option list" where
  "slots hooks = [ch_pre_fund hooks, ch_post_fund hooks, ch_pre_distribute hooks, ch_post_distribute hooks]"

definition hooks_empty :: "channel_hooks \<Rightarrow> bool" where
  "hooks_empty hooks = list_all (\<lambda>slot. slot = None) (slots hooks)"

definition no_hooks :: channel_hooks where
  "no_hooks = \<lparr>ch_pre_fund = None, ch_post_fund = None, ch_pre_distribute = None, ch_post_distribute = None\<rparr>"

text \<open>The accounts of a hook are read one by one; \<open>seen\<close> is the set of those before.\<close>

fun check_hook_accounts :: "abi_lib \<Rightarrow> bytes \<Rightarrow> bytes list \<Rightarrow> hook_account list \<Rightarrow> core_error + unit" where
  "check_hook_accounts A program seen [] = Inr ()"
| "check_hook_accounts A program seen (account # accounts) =
     try_bind (v1_parse_pubkey A (ha_address account)) (\<lambda>address.
     if address \<in> set seen \<or> address = program
     then Inl (abi_invalid ''duplicate or target-aliasing hook account'')
     else check_hook_accounts A program (address # seen) accounts)"

definition check_hook :: "abi_lib \<Rightarrow> hook_descriptor \<Rightarrow> core_error + unit" where
  "check_hook A hook =
     try_bind (v1_parse_pubkey A (hd_program_id hook)) (\<lambda>program.
     try_bind (if program = replicate 32 0 then Inr True
               else try_bind (v1_parse_pubkey A V2_PROGRAM_ID) (\<lambda>self. Inr (program = self))) (\<lambda>refused.
     if refused then Inl (abi_invalid ''enabled hook has zero or self target program'')
     else if length (hd_accounts hook) > MAX_HOOK_ACCOUNTS \<or> length (hd_static_data hook) > MAX_STATIC_DATA
     then Inl (abi_invalid ''hook exceeds account or static-data bounds'')
     else check_hook_accounts A program [] (hd_accounts hook)))"

fun check_slots_of :: "abi_lib \<Rightarrow> hook_descriptor option list \<Rightarrow> core_error + unit" where
  "check_slots_of A [] = Inr ()"
| "check_slots_of A (None # rest) = check_slots_of A rest"
| "check_slots_of A (Some hook # rest) = try_bind (check_hook A hook) (\<lambda>_. check_slots_of A rest)"

definition hooks_validate :: "abi_lib \<Rightarrow> channel_hooks \<Rightarrow> core_error + unit" where
  "hooks_validate A hooks = check_slots_of A (slots hooks)"

text \<open>The bytes of an account of a hook, and of a list of parts that may each fail.\<close>

definition encode_account :: "abi_lib \<Rightarrow> hook_account \<Rightarrow> core_error + bytes" where
  "encode_account A account =
     try_bind (v1_parse_pubkey A (ha_address account)) (\<lambda>address. Inr (address @ [of_bool (ha_writable account)]))"

fun encode_all :: "('a \<Rightarrow> core_error + bytes) \<Rightarrow> 'a list \<Rightarrow> core_error + bytes" where
  "encode_all f [] = Inr []"
| "encode_all f (x # xs) = try_bind (f x) (\<lambda>b. try_bind (encode_all f xs) (\<lambda>bs. Inr (b @ bs)))"

definition suffix_slot :: "abi_lib \<Rightarrow> hook_descriptor option \<Rightarrow> core_error + bytes" where
  "suffix_slot A slot =
     (case slot of
        None \<Rightarrow> Inr [0]
      | Some hook \<Rightarrow>
          try_bind (v1_parse_pubkey A (hd_program_id hook)) (\<lambda>program.
          try_bind (encode_all (encode_account A) (hd_accounts hook)) (\<lambda>accounts.
          Inr (1 # program @ hd_entrypoint hook @ [of_nat (length (hd_accounts hook)), of_nat (length (hd_static_data hook))]
                 @ hd_static_data hook @ accounts))))"

definition encode_open_suffix :: "abi_lib \<Rightarrow> channel_hooks \<Rightarrow> core_error + bytes" where
  "encode_open_suffix A hooks =
     try_bind (hooks_validate A hooks) (\<lambda>_. encode_all (suffix_slot A) (slots hooks))"

text \<open>The fixed form pads the static data to 32 bytes and the accounts to four.\<close>

definition fixed_slot :: "abi_lib \<Rightarrow> hook_descriptor option \<Rightarrow> core_error + bytes" where
  "fixed_slot A slot =
     (case slot of
        None \<Rightarrow> Inr (replicate HOOK_DESCRIPTOR_SIZE 0)
      | Some hook \<Rightarrow>
          try_bind (v1_parse_pubkey A (hd_program_id hook)) (\<lambda>program.
          try_bind (encode_all (encode_account A) (hd_accounts hook)) (\<lambda>accounts.
          Inr (program @ hd_entrypoint hook @ [of_nat (length (hd_accounts hook)), of_nat (length (hd_static_data hook))]
                 @ hd_static_data hook @ replicate (MAX_STATIC_DATA - length (hd_static_data hook)) 0
                 @ accounts @ replicate ((MAX_HOOK_ACCOUNTS - length (hd_accounts hook)) * 33) 0))))"

definition encode_fixed :: "abi_lib \<Rightarrow> channel_hooks \<Rightarrow> core_error + bytes" where
  "encode_fixed A hooks =
     try_bind (hooks_validate A hooks) (\<lambda>_. encode_all (fixed_slot A) (slots hooks))"

definition config_hash :: "abi_lib \<Rightarrow> channel_hooks \<Rightarrow> core_error + bytes" where
  "config_hash A hooks = try_bind (encode_fixed A hooks) (\<lambda>fixed. Inr (ab_sha256 A fixed))"

section \<open>Channel accounts\<close>

record channel_view =
  cv_channel :: channel_account
  cv_hooks :: channel_hooks
  cv_guard :: u8
  cv_operation_sequence :: u64
  cv_config_hash :: bytes

definition byte_range :: "nat \<Rightarrow> nat \<Rightarrow> 'a list \<Rightarrow> 'a list" where
  "byte_range i j xs = drop i (take j xs)"

definition decode_base :: "abi_lib \<Rightarrow> bytes \<Rightarrow> u8 \<Rightarrow> core_error + channel_account" where
  "decode_base A data version =
     (if length data \<noteq> 256 \<or> data ! 0 \<noteq> 1 \<or> data ! 1 \<noteq> version \<or> data ! 3 > 3
      then Inl (abi_invalid ''invalid channel length, version, or status'')
      else Pk_Prelude.map_err (\<lambda>_. abi_invalid ''invalid channel account'') (ab_channel_from_bytes A data))"

fun decode_accounts :: "abi_lib \<Rightarrow> bytes \<Rightarrow> nat list \<Rightarrow> core_error + hook_account list" where
  "decode_accounts A raw [] = Inr []"
| "decode_accounts A raw (index # rest) =
     (let offset = 74 + index * 33 in
      if raw ! (offset + 32) > 1 then Inl (abi_invalid ''invalid hook writable flag'')
      else try_bind (decode_accounts A raw rest) (\<lambda>accounts.
        Inr (\<lparr>ha_address = ab_to_string A (byte_range offset (offset + 32) raw), ha_writable = (raw ! (offset + 32) = 1)\<rparr>
               # accounts)))"

definition decode_slot :: "abi_lib \<Rightarrow> bytes \<Rightarrow> core_error + hook_descriptor option" where
  "decode_slot A raw =
     (if byte_range 0 32 raw = replicate 32 0
      then if list_ex (\<lambda>byte. byte \<noteq> 0) raw then Inl (abi_invalid ''disabled hook has nonzero payload'') else Inr None
      else
      let count = unat (raw ! 40); len = unat (raw ! 41) in
      if count > MAX_HOOK_ACCOUNTS \<or> len > MAX_STATIC_DATA then Inl (abi_invalid ''invalid hook bounds'')
      else if list_ex (\<lambda>byte. byte \<noteq> 0) (byte_range (42 + len) 74 raw)
              \<or> list_ex (\<lambda>byte. byte \<noteq> 0) (drop (74 + count * 33) raw)
      then Inl (abi_invalid ''noncanonical hook padding'')
      else try_bind (decode_accounts A raw [0..<count]) (\<lambda>accounts.
        Inr (Some \<lparr>hd_program_id = ab_to_string A (byte_range 0 32 raw), hd_entrypoint = byte_range 32 40 raw,
                   hd_accounts = accounts, hd_static_data = byte_range 42 (42 + len) raw\<rparr>)))"

definition raw_slot :: "bytes \<Rightarrow> nat \<Rightarrow> bytes" where
  "raw_slot data index = byte_range (297 + index * HOOK_DESCRIPTOR_SIZE) (297 + (index + 1) * HOOK_DESCRIPTOR_SIZE) data"

definition decode_channel :: "abi_lib \<Rightarrow> bytes \<Rightarrow> core_error + channel_view" where
  "decode_channel A data =
     (if length data \<noteq> CHANNEL_ACCOUNT_SIZE then Inl (abi_invalid ''invalid V2 channel length'')
      else
      try_bind (decode_base A (take 256 data) 2) (\<lambda>channel.
      if data ! 256 \<noteq> 0 then Inl (abi_invalid ''channel callback guard is active'')
      else
      try_bind (decode_slot A (raw_slot data 0)) (\<lambda>pre_fund.
      try_bind (decode_slot A (raw_slot data 1)) (\<lambda>post_fund.
      try_bind (decode_slot A (raw_slot data 2)) (\<lambda>pre_distribute.
      try_bind (decode_slot A (raw_slot data 3)) (\<lambda>post_distribute.
      let hooks = \<lparr>ch_pre_fund = pre_fund, ch_post_fund = post_fund, ch_pre_distribute = pre_distribute,
                   ch_post_distribute = post_distribute\<rparr> in
      try_bind (hooks_validate A hooks) (\<lambda>_.
      try_bind (config_hash A hooks) (\<lambda>hash.
      if hash \<noteq> byte_range 265 297 data then Inl (abi_invalid ''hook configuration hash mismatch'')
      else Inr \<lparr>cv_channel = channel, cv_hooks = hooks, cv_guard = 0,
                cv_operation_sequence = from_le_bytes (byte_range 257 265 data),
                cv_config_hash = byte_range 265 297 data\<rparr>))))))))"

section \<open>Deployments\<close>

record deployment =
  dp_program_id :: bytes
  dp_version :: u8

definition deployment_resolve :: "abi_lib \<Rightarrow> bytes \<Rightarrow> u8 option \<Rightarrow> core_error + deployment" where
  "deployment_resolve A program_id version =
     try_bind (if program_id = default_program_id A then Inr 1
               else try_bind (v1_parse_pubkey A V2_PROGRAM_ID) (\<lambda>v2.
                 if program_id = v2 then Inr 2 else Inl (abi_invalid ''unknown channel program''))) (\<lambda>actual.
     if unwrap_or version 1 \<noteq> actual then Inl (abi_invalid ''program and ABI version mismatch'')
     else Inr \<lparr>dp_program_id = program_id, dp_version = actual\<rparr>)"

definition deployment_decode :: "abi_lib \<Rightarrow> deployment \<Rightarrow> bytes \<Rightarrow> core_error + channel_view" where
  "deployment_decode A deployment data =
     try_bind (deployment_resolve A (dp_program_id deployment) (Some (dp_version deployment))) (\<lambda>_.
     if dp_version deployment = 2 then decode_channel A data
     else try_bind (decode_base A data 1) (\<lambda>channel.
       Inr \<lparr>cv_channel = channel, cv_hooks = no_hooks, cv_guard = 0, cv_operation_sequence = 0,
            cv_config_hash = replicate 32 0\<rparr>))"

definition decode_account :: "abi_lib \<Rightarrow> deployment \<Rightarrow> bytes \<Rightarrow> bytes \<Rightarrow> core_error + channel_view" where
  "decode_account A deployment owner data =
     (if owner \<noteq> dp_program_id deployment then Inl (abi_invalid ''channel account owner mismatch'')
      else deployment_decode A deployment data)"

definition resolve :: "abi_lib \<Rightarrow> bytes \<Rightarrow> u8 option \<Rightarrow> channel_hooks option \<Rightarrow> charge_error + deployment" where
  "resolve A program version hooks =
     try_bind (Pk_Prelude.map_err mpp_of_core (deployment_resolve A program version)) (\<lambda>deployment.
     if dp_version deployment = 1 \<and> hooks \<noteq> None
     then Inl (InvalidConfig ''channelHooks requires the V2 channel deployment'')
     else
     try_bind (case hooks of None \<Rightarrow> Inr () | Some h \<Rightarrow> Pk_Prelude.map_err mpp_of_core (hooks_validate A h)) (\<lambda>_.
     Inr deployment))"

definition resolve_for_network :: "abi_lib \<Rightarrow> bytes \<Rightarrow> u8 option \<Rightarrow> channel_hooks option \<Rightarrow> string
    \<Rightarrow> charge_error + deployment" where
  "resolve_for_network A program version hooks network =
     try_bind (resolve A program version hooks) (\<lambda>deployment.
     if dp_version deployment = 2
     then try_bind (validate_network network) (\<lambda>_.
       if network = NETWORK_MAINNET
       then Inl (InvalidConfig ''V2 channel deployment supports only devnet and localnet'')
       else Inr deployment)
     else Inr deployment)"

section \<open>Lemmas\<close>

text \<open>Base58 text of a key is unique: what reads as a key is 32 bytes and prints back as it was.\<close>

definition base58_lossless :: "abi_lib \<Rightarrow> bool" where
  "base58_lossless A \<longleftrightarrow> (\<forall>s k. ab_from_str A s = Inr k \<longrightarrow> length k = 32 \<and> ab_to_string A k = s)"

lemma range_skip: "length a = n \<Longrightarrow> byte_range (n + i) (n + j) (a @ b) = byte_range i j b"
  by (auto simp: byte_range_def)

lemma range_here: "length a = j \<Longrightarrow> byte_range 0 j (a @ b) = a"
  by (simp add: byte_range_def)

lemma drop_front: "length xs = n \<Longrightarrow> drop n (xs @ ys) = ys"
  by simp

lemma parse_lossless:
  assumes "base58_lossless A" "v1_parse_pubkey A s = Inr k"
  shows "length k = 32" "ab_to_string A k = s"
  using assms by (auto simp: base58_lossless_def v1_parse_pubkey_def Pk_Prelude.map_err_def split: sum.splits)

lemma encode_account_ok:
  assumes "base58_lossless A" "encode_account A x = Inr b"
  obtains k where "b = k @ [of_bool (ha_writable x)]" "length k = 32" "ab_to_string A k = ha_address x"
  using assms parse_lossless [OF assms(1)] by (auto simp: encode_account_def try_bind_Inr_iff)

lemma length_encode_accounts:
  assumes "base58_lossless A" "encode_all (encode_account A) xs = Inr bs"
  shows "length bs = 33 * length xs"
  using assms(2)
proof (induction xs arbitrary: bs)
  case (Cons x xs)
  then obtain b bs' where "encode_account A x = Inr b" "encode_all (encode_account A) xs = Inr bs'" "bs = b @ bs'"
    by (auto simp: try_bind_Inr_iff)
  with Cons.IH show ?case by (auto elim!: encode_account_ok [OF assms(1)])
qed simp

lemma decode_encoded_accounts:
  assumes "base58_lossless A" "encode_all (encode_account A) xs = Inr bs" "length pre = 74 + k * 33"
  shows "decode_accounts A (pre @ bs @ post) [k..<k + length xs] = Inr xs"
  using assms(2,3)
proof (induction xs arbitrary: bs pre k)
  case (Cons x xs)
  then obtain b bs' where bs: "encode_account A x = Inr b" "encode_all (encode_account A) xs = Inr bs'" "bs = b @ bs'"
    by (auto simp: try_bind_Inr_iff)
  obtain key where key: "b = key @ [of_bool (ha_writable x)]" "length key = 32" "ab_to_string A key = ha_address x"
    using encode_account_ok [OF assms(1) bs(1)] .
  let ?raw = "pre @ bs @ post"
  have raw: "?raw = (pre @ b) @ bs' @ post" by (simp add: bs(3))
  have "byte_range (74 + k * 33) (74 + k * 33 + 32) ?raw = key"
    using range_skip [of pre "74 + k * 33" 0 32] range_here [OF key(2)] Cons.prems(2) by (simp add: bs(3) key(1))
  moreover have "?raw ! (74 + k * 33 + 32) = of_bool (ha_writable x)"
    using Cons.prems(2) key(1,2) by (simp add: bs(3) nth_append)
  moreover have "decode_accounts A ?raw [Suc k..<Suc k + length xs] = Inr xs"
    unfolding raw using Cons.prems(2) key(1,2) by (intro Cons.IH bs(2)) simp
  moreover have "[k..<k + length (x # xs)] = k # [Suc k..<Suc k + length xs]"
    by (simp add: upt_conv_Cons del: upt_Suc)
  ultimately show ?case
    using key(3) by (cases "ha_writable x") (auto simp: Let_def simp del: upt_Suc)
qed simp

lemma zeros: "list_ex (\<lambda>byte. byte \<noteq> 0) (replicate n (0 :: u8)) \<longleftrightarrow> False"
  by (simp add: list_ex_iff)

lemma decode_fixed_slot:
  assumes "base58_lossless A" "fixed_slot A slot = Inr raw" "check_slots_of A [slot] = Inr ()"
    and "\<And>hook. slot = Some hook \<Longrightarrow> length (hd_entrypoint hook) = 8"
  shows "length raw = HOOK_DESCRIPTOR_SIZE" "decode_slot A raw = Inr slot"
proof -
  have "length raw = HOOK_DESCRIPTOR_SIZE \<and> decode_slot A raw = Inr slot"
  proof (cases slot)
    case None
    with assms(2) have raw: "raw = replicate 206 0"
      by (simp add: fixed_slot_def HOOK_DESCRIPTOR_SIZE_def)
    show ?thesis
      unfolding raw None by (simp add: decode_slot_def byte_range_def HOOK_DESCRIPTOR_SIZE_def zeros)
  next
    case (Some hook)
    obtain p accs where p: "v1_parse_pubkey A (hd_program_id hook) = Inr p" "encode_all (encode_account A) (hd_accounts hook) = Inr accs"
      and raw: "raw = p @ hd_entrypoint hook @ [of_nat (length (hd_accounts hook)), of_nat (length (hd_static_data hook))]
        @ hd_static_data hook @ replicate (MAX_STATIC_DATA - length (hd_static_data hook)) 0
        @ accs @ replicate ((MAX_HOOK_ACCOUNTS - length (hd_accounts hook)) * 33) 0"
      using assms(2) by (auto simp: Some fixed_slot_def try_bind_Inr_iff)
    have ok: "p \<noteq> replicate 32 0" "length (hd_accounts hook) \<le> 4" "length (hd_static_data hook) \<le> 32"
      using assms(3) p(1)
      by (auto simp: Some check_hook_def try_bind_Inr_iff MAX_HOOK_ACCOUNTS_def MAX_STATIC_DATA_def split: if_splits)
    have len: "length p = 32" "length (hd_entrypoint hook) = 8" "length accs = 33 * length (hd_accounts hook)"
      using parse_lossless(1) [OF assms(1) p(1)] assms(4) [OF Some] length_encode_accounts [OF assms(1) p(2)] by simp_all
    have counts: "unat (of_nat (length (hd_accounts hook)) :: u8) = length (hd_accounts hook)"
        "unat (of_nat (length (hd_static_data hook)) :: u8) = length (hd_static_data hook)"
      using ok(2,3) by (simp_all add: unat_of_nat)
    let ?pre = "p @ hd_entrypoint hook @ [of_nat (length (hd_accounts hook)), of_nat (length (hd_static_data hook))]
        @ hd_static_data hook @ replicate (32 - length (hd_static_data hook)) 0"
    let ?pad = "replicate ((4 - length (hd_accounts hook)) * 33) (0 :: u8)"
    have split: "raw = ?pre @ accs @ ?pad" "length ?pre = 74"
      using len ok(3) by (simp_all add: raw MAX_STATIC_DATA_def MAX_HOOK_ACCOUNTS_def)
    have parts: "byte_range 0 32 raw = p" "byte_range 32 40 raw = hd_entrypoint hook"
      "byte_range 42 (42 + length (hd_static_data hook)) raw = hd_static_data hook"
      "byte_range (42 + length (hd_static_data hook)) 74 raw = replicate (32 - length (hd_static_data hook)) 0"
      "raw ! 40 = of_nat (length (hd_accounts hook))" "raw ! 41 = of_nat (length (hd_static_data hook))"
      using len ok(3) by (simp_all add: split(1) byte_range_def nth_append)
    have pad: "drop (74 + length (hd_accounts hook) * 33) raw = ?pad"
      using drop_front [of "?pre @ accs" "74 + length (hd_accounts hook) * 33" ?pad] split len(3)
      by (simp only: append_assoc length_append)
    have accounts: "decode_accounts A raw [0..<length (hd_accounts hook)] = Inr (hd_accounts hook)"
      unfolding split(1) using decode_encoded_accounts [OF assms(1) p(2), of ?pre 0 ?pad] split(2) by simp
    have "length raw = 206" using len ok(2,3) by (simp add: split(1))
    then show ?thesis
      using ok parts pad accounts counts parse_lossless(2) [OF assms(1) p(1)]
      by (simp add: Some decode_slot_def Let_def HOOK_DESCRIPTOR_SIZE_def MAX_HOOK_ACCOUNTS_def MAX_STATIC_DATA_def zeros)
  qed
  then show "length raw = HOOK_DESCRIPTOR_SIZE" "decode_slot A raw = Inr slot" by simp_all
qed

lemma check_slots_of_each:
  assumes "check_slots_of A xs = Inr ()" "slot \<in> set xs"
  shows "check_slots_of A [slot] = Inr ()"
  using assms by (induction xs rule: check_slots_of.induct) (auto simp: try_bind_Inr_iff)

text \<open>The account of a V2 channel with these hooks, as the program lays it out.\<close>

definition channel_bytes :: "abi_lib \<Rightarrow> bytes \<Rightarrow> u64 \<Rightarrow> bytes \<Rightarrow> bytes" where
  "channel_bytes A base sequence fixed = base @ [0] @ le_bytes sequence @ ab_sha256 A fixed @ fixed"

text \<open>
  C35.  Hooks survive the chain.  For hooks that validate, the account that holds their fixed form
  beside a readable channel and the hash of that form decodes to exactly those hooks, the sequence
  number and the hash that were written.  Base58 must be lossless and SHA-256 32 bytes long.
\<close>

theorem hooks_round_trip:
  assumes "base58_lossless A" "encode_fixed A hooks = Inr fixed" "length (ab_sha256 A fixed) = 32"
    and "list_all (\<lambda>slot. case slot of None \<Rightarrow> True | Some hook \<Rightarrow> length (hd_entrypoint hook) = 8) (slots hooks)"
    and "decode_base A base 2 = Inr channel"
  shows "decode_channel A (channel_bytes A base sequence fixed)
    = Inr \<lparr>cv_channel = channel, cv_hooks = hooks, cv_guard = 0, cv_operation_sequence = sequence,
           cv_config_hash = ab_sha256 A fixed\<rparr>"
proof -
  let ?data = "channel_bytes A base sequence fixed"
  obtain pre post pred postd where hooks: "hooks = \<lparr>ch_pre_fund = pre, ch_post_fund = post, ch_pre_distribute = pred,
      ch_post_distribute = postd\<rparr>" by (cases hooks) auto
  have valid: "hooks_validate A hooks = Inr ()" and all: "encode_all (fixed_slot A) (slots hooks) = Inr fixed"
    using assms(2) by (auto simp: encode_fixed_def try_bind_Inr_iff)
  obtain r0 r1 r2 r3 where r: "fixed_slot A pre = Inr r0" "fixed_slot A post = Inr r1" "fixed_slot A pred = Inr r2"
      "fixed_slot A postd = Inr r3" and fixed: "fixed = r0 @ r1 @ r2 @ r3"
    using all by (auto simp: hooks slots_def try_bind_Inr_iff)
  have slot: "length raw = 206 \<and> decode_slot A raw = Inr slot" if "slot \<in> set (slots hooks)" "fixed_slot A slot = Inr raw" for slot raw
    using decode_fixed_slot [OF assms(1) that(2) check_slots_of_each [OF _ that(1)]] valid assms(4) that(1)
    by (auto simp: hooks_validate_def list_all_iff HOOK_DESCRIPTOR_SIZE_def split: option.splits)
  have decoded: "length r0 = 206" "length r1 = 206" "length r2 = 206" "length r3 = 206"
      "decode_slot A r0 = Inr pre" "decode_slot A r1 = Inr post" "decode_slot A r2 = Inr pred" "decode_slot A r3 = Inr postd"
    using slot [OF _ r(1)] slot [OF _ r(2)] slot [OF _ r(3)] slot [OF _ r(4)] by (simp_all add: hooks slots_def)
  have base: "length base = 256" using assms(5) by (auto simp: decode_base_def split: if_splits)
  have raws: "raw_slot ?data 0 = r0" "raw_slot ?data 1 = r1" "raw_slot ?data 2 = r2" "raw_slot ?data 3 = r3"
    using base assms(3) decoded(1-4)
    by (simp_all add: raw_slot_def byte_range_def channel_bytes_def fixed HOOK_DESCRIPTOR_SIZE_def)
  have rest: "length ?data = CHANNEL_ACCOUNT_SIZE" "take 256 ?data = base" "?data ! 256 = 0"
      "byte_range 257 265 ?data = le_bytes sequence" "byte_range 265 297 ?data = ab_sha256 A fixed"
    using base assms(3) decoded(1-4)
    by (simp_all add: byte_range_def channel_bytes_def fixed CHANNEL_ACCOUNT_SIZE_def nth_append)
  have "config_hash A hooks = Inr (ab_sha256 A fixed)"
    using assms(2) by (simp add: config_hash_def)
  then show ?thesis
    using rest raws decoded(5-8) valid assms(5)
    by (simp add: decode_channel_def Let_def hooks from_le_bytes_le_bytes)
qed

text \<open>A library in which a text of 32 ASCII characters is a key, and so are the two programs.\<close>

definition toy_account :: channel_account where
  "toy_account = \<lparr>ca_status = 0, ca_closure_started_at = 0, ca_settled = 0, ca_deposit = 1000, ca_salt = 7, ca_open_slot = 5,
     ca_grace_period = 900, ca_payer = [], ca_rent_payer = [], ca_payee = [], ca_mint = [], ca_authorized_signer = [],
     ca_distribution_hash = []\<rparr>"

definition toy_from_str :: "string \<Rightarrow> string + bytes" where
  "toy_from_str s = (if s = V1_PROGRAM_ID then Inr (replicate 32 201) else if s = V2_PROGRAM_ID then Inr (replicate 32 200)
     else if length s = 32 \<and> list_all (\<lambda>c. (of_char c :: nat) < 128) s then Inr (map (\<lambda>c. of_nat (of_char c)) s)
     else Inl ''not a key'')"

definition toy_to_string :: "bytes \<Rightarrow> string" where
  "toy_to_string k = (if k = replicate 32 201 then V1_PROGRAM_ID else if k = replicate 32 200 then V2_PROGRAM_ID
     else map (\<lambda>b. char_of (unat b)) k)"

definition toy_abi :: abi_lib where
  "toy_abi = \<lparr>ab_from_str = toy_from_str, ab_to_string = toy_to_string, ab_sha256 = (\<lambda>_. replicate 32 9),
     ab_channel_from_bytes = (\<lambda>_. Inr toy_account)\<rparr>"

lemma toy_abi_lossless: "base58_lossless toy_abi"
proof -
  have ascii: "map (\<lambda>b. char_of (unat b)) (map (\<lambda>c. of_nat (of_char c)) s :: bytes) = s"
      "(map (\<lambda>c. of_nat (of_char c)) s :: bytes) \<noteq> replicate 32 201" "(map (\<lambda>c. of_nat (of_char c)) s :: bytes) \<noteq> replicate 32 200"
    if "length s = 32" "list_all (\<lambda>c. (of_char c :: nat) < 128) s" for s
  proof -
    have byte: "unat (of_nat (of_char c) :: u8) = of_char c" for c :: char
      using nat_of_char_less_256 [of c] by (simp add: unat_of_nat)
    show "map (\<lambda>b. char_of (unat b)) (map (\<lambda>c. of_nat (of_char c)) s :: bytes) = s"
      by (simp add: byte comp_def)
    have "unat (map (\<lambda>c. of_nat (of_char c)) s ! 0 :: u8) < 128"
      using that byte by (auto simp: list_all_length)
    then show "(map (\<lambda>c. of_nat (of_char c)) s :: bytes) \<noteq> replicate 32 201" "(map (\<lambda>c. of_nat (of_char c)) s :: bytes) \<noteq> replicate 32 200"
      by auto
  qed
  show ?thesis
    using ascii by (auto simp: base58_lossless_def toy_abi_def toy_from_str_def toy_to_string_def split: if_splits)
qed

definition sample_hook :: hook_descriptor where
  "sample_hook = \<lparr>hd_program_id = replicate 32 (CHR ''p''), hd_entrypoint = [1, 2, 3, 4, 5, 6, 7, 8],
     hd_accounts = [\<lparr>ha_address = replicate 32 (CHR ''a''), ha_writable = True\<rparr>], hd_static_data = [9, 9]\<rparr>"

definition sample_hooks :: channel_hooks where
  "sample_hooks = no_hooks\<lparr>ch_post_fund := Some sample_hook\<rparr>"

theorem hooks_round_trip_witness:
  "\<exists>fixed. encode_fixed toy_abi sample_hooks = Inr fixed
     \<and> map_sum id cv_hooks (decode_channel toy_abi (channel_bytes toy_abi ([1, 2, 0, 0] @ replicate 252 0) 3 fixed)) = Inr sample_hooks"
proof -
  have keys: "v1_parse_pubkey toy_abi (replicate 32 (CHR ''p'')) = Inr (replicate 32 112)"
      "v1_parse_pubkey toy_abi (replicate 32 (CHR ''a'')) = Inr (replicate 32 97)"
      "v1_parse_pubkey toy_abi V2_PROGRAM_ID = Inr (replicate 32 200)"
    by (simp_all add: v1_parse_pubkey_def Pk_Prelude.map_err_def toy_abi_def toy_from_str_def V1_PROGRAM_ID_def V2_PROGRAM_ID_def
        eval_nat_numeral list_all_iff)
  have differ: "(replicate 32 112 :: bytes) \<noteq> replicate 32 0" "(replicate 32 112 :: bytes) \<noteq> replicate 32 200"
      "(replicate 32 97 :: bytes) \<noteq> replicate 32 112"
    by (simp_all add: replicate_eq_replicate)
  then have "hooks_validate toy_abi sample_hooks = Inr ()"
    by (simp add: hooks_validate_def slots_def sample_hooks_def no_hooks_def sample_hook_def check_hook_def keys
        MAX_HOOK_ACCOUNTS_def MAX_STATIC_DATA_def)
  then have "\<exists>fixed. encode_fixed toy_abi sample_hooks = Inr fixed"
    by (simp add: encode_fixed_def slots_def sample_hooks_def no_hooks_def sample_hook_def fixed_slot_def encode_account_def keys)
  then obtain fixed where fixed: "encode_fixed toy_abi sample_hooks = Inr fixed" ..
  have base: "decode_base toy_abi ([1, 2, 0, 0] @ replicate 252 0) 2 = Inr toy_account"
    by (simp add: decode_base_def toy_abi_def Pk_Prelude.map_err_def)
  have "list_all (\<lambda>slot. case slot of None \<Rightarrow> True | Some hook \<Rightarrow> length (hd_entrypoint hook) = 8) (slots sample_hooks)"
    by (simp add: slots_def sample_hooks_def no_hooks_def sample_hook_def)
  with fixed hooks_round_trip [OF toy_abi_lossless fixed _ this base, of 3] show ?thesis
    by (simp add: toy_abi_def)
qed

end
