(* ===== verification/Session_Config.thy ===== *)
theory Session_Config
  imports Session_Steps Voucher_Session Channel_Auth Channel_Deployment
begin

text \<open>
  The data of MPP sessions: the payloads of \<open>mpp/protocol/intents/session.rs\<close>, the messages that vouchers and
  proofs are signed over, the configuration of a server (\<open>mpp/server/session.rs\<close>), and
  \<open>mpp/server/session_binding.rs\<close>: the snapshot of the configuration a channel is bound to and
  the \<open>BoundStore\<close> through which every request reads and changes channels.

  Base58, Ed25519, SHA-256, the generated reader of the channel account and the JSON readers and writers are
  fields of the parameter \<open>session_lib\<close>.
\<close>

section \<open>Data\<close>

datatype voucher_signer = Client | Operator

record session_authentication =
  sa_challenge_id :: string
  sa_payer :: string
  sa_signature :: string

record voucher_data =
  vd_channel_id :: string
  vd_cumulative_amount :: string
  vd_expires_at :: "i64 option"

record signed_voucher =
  sv_data :: voucher_data
  sv_signer :: string
  sv_signature :: string

record voucher_payload =
  vpl_channel_id :: string
  vpl_voucher :: signed_voucher

record use_payload =
  up_channel_id :: string
  up_authentication :: session_authentication

record commit_payload =
  cp_delivery_id :: string
  cp_voucher :: signed_voucher

record close_payload =
  cz_channel_id :: string
  cz_authentication :: "session_authentication option"
  cz_voucher :: "signed_voucher option"

record topup_payload =
  tp_channel_id :: string
  tp_additional_amount :: string

record delivery_request =
  dr_session_id :: string
  dr_amount :: u64
  dr_delivery_id :: "string option"
  dr_commit_url :: "string option"
  dr_proof :: "string option"
  dr_expires_at :: "i64 option"

record metering_directive =
  md_delivery_id :: string
  md_session_id :: string
  md_amount :: string
  md_currency :: string
  md_sequence :: u64
  md_expires_at :: i64
  md_commit_url :: "string option"
  md_proof :: "string option"

datatype commit_status = Committed | Replayed

record commit_receipt =
  rc_delivery_id :: string
  rc_session_id :: string
  rc_amount :: string
  rc_cumulative :: string
  rc_status :: commit_status

record use_acceptance =
  ua_voucher :: signed_voucher
  ua_replay :: bool

record authenticated_use =
  au_channel_id :: string
  au_authentication :: string
  au_challenge_id :: string
  au_idempotency_key :: string

record operator_charge =
  oc_voucher :: signed_voucher
  oc_previous_cumulative :: u64
  oc_cumulative :: u64
  oc_charged :: u64
  oc_request_total :: u64
  oc_replay :: bool

record topup_acceptance =
  ta_state :: channel_state
  ta_replay :: bool
  ta_transaction_signature :: string

record split =
  spl_recipient :: "u8 list"
  spl_bps :: u16

record signing_key =
  sk_verifying_key :: "u8 list"
  sk_sign :: "u8 list \<Rightarrow> u8 list"

text \<open>A remote signer may answer differently each time it is asked.\<close>

record operator_signer =
  os_pubkey :: string
  os_sign_message :: "nat \<Rightarrow> u8 list \<Rightarrow> string + u8 list"

record session_config =
  sc_operator :: string
  sc_recipient :: string
  sc_splits :: "split list"
  sc_amount :: u64
  sc_suggested_deposit :: "u64 option"
  sc_minimum_deposit :: "u64 option"
  sc_currency :: string
  sc_decimals :: u8
  sc_network :: string
  sc_channel_program :: "bytes option"
  sc_channel_version :: "u8 option"
  sc_channel_hooks :: "channel_hooks option"
  sc_token_program :: "bytes option"
  sc_min_voucher_delta :: u64
  sc_voucher_signer :: voucher_signer
  sc_operator_signing_key :: "signing_key option"
  sc_fee_payer_signer :: "bytes option"
  sc_idle_timeout_options_seconds :: "u32 list option"
  sc_idle_timeout_seconds :: u32
  sc_grace_period_seconds :: u32
  sc_rpc_url :: "string option"

text \<open>The public part of a configuration, kept on the records of the channels opened under it.\<close>

record config_snapshot =
  sn_operator :: string
  sn_recipient :: string
  sn_splits :: "split list"
  sn_amount :: u64
  sn_suggested_deposit :: "u64 option"
  sn_minimum_deposit :: "u64 option"
  sn_currency :: string
  sn_decimals :: u8
  sn_network :: string
  sn_channel_program :: "bytes option"
  sn_channel_version :: "u8 option"
  sn_channel_hooks :: "channel_hooks option"
  sn_token_program :: "bytes option"
  sn_min_voucher_delta :: u64
  sn_voucher_signer :: voucher_signer
  sn_idle_timeout_options_seconds :: "u32 list option"
  sn_idle_timeout_seconds :: u32
  sn_grace_period_seconds :: u32
  sn_fee_payer :: "bytes option"

record session_binding =
  bn_version :: u32
  bn_policy :: json
  bn_snapshot :: config_snapshot

text \<open>The server: its configuration and the binding of its store.\<close>

record session_server = session_config +
  ss_binding :: "session_binding option"

record seal_parameters =
  sep_channel_id :: "u8 list"
  sep_authorized_signer :: "u8 list option"
  sep_payer :: "u8 list option"
  sep_rent_payer :: "u8 list option"
  sep_mint :: "u8 list option"
  sep_program_id :: "u8 list"
  sep_channel_version :: "u8 option"
  sep_channel_hooks :: "channel_hooks option"
  sep_settled :: u64
  sep_voucher_signature :: "string option"
  sep_voucher_expires_at :: "i64 option"
  sep_recipient :: "u8 list"
  sep_splits :: "split list"
  sep_distribution_hash :: "u8 list"

record 'key session_lib =
  sl_crypto :: "'key crypto"
  sl_batch :: "('key verify_parts \<Rightarrow> bool) option"
  sl_bs58_encode :: "bytes \<Rightarrow> string"
  sl_bs58_decode :: "string \<Rightarrow> string + bytes"
  sl_verify :: "'key \<Rightarrow> bytes \<Rightarrow> bytes \<Rightarrow> bool"
  sl_sha256 :: "bytes \<Rightarrow> bytes"
  sl_json_to_jcs :: "json \<Rightarrow> string + bytes"
  sl_authentication_to_string :: "session_authentication \<Rightarrow> string + string"
  sl_channel_from_bytes :: "bytes \<Rightarrow> string + channel_account"
  sl_binding_of_json :: "json \<Rightarrow> session_binding option"
  sl_binding_to_json :: "session_binding \<Rightarrow> string + json"

definition abi_of :: "'key session_lib \<Rightarrow> abi_lib" where
  "abi_of L = \<lparr>ab_from_str = pubkey_from_str (sl_crypto L), ab_to_string = sl_bs58_encode L, ab_sha256 = sl_sha256 L,
     ab_channel_from_bytes = sl_channel_from_bytes L\<rparr>"

definition OPERATOR_VOUCHER_ERROR :: string where
  "OPERATOR_VOUCHER_ERROR =
     ''a voucher does not authenticate an operator-signed session; present the session bearer proof (use)''"

definition MAX_IDEMPOTENCY_KEY_BYTES :: nat where
  "MAX_IDEMPOTENCY_KEY_BYTES = 255"

definition CHANNEL_SNAPSHOT_MAX_AGE_SECONDS :: u64 where
  "CHANNEL_SNAPSHOT_MAX_AGE_SECONDS = 30"

definition OPERATOR_CHARGE_ATTEMPTS :: nat where
  "OPERATOR_CHARGE_ATTEMPTS = 8"

definition MAX_PROCESSED_USES :: nat where
  "MAX_PROCESSED_USES = 256"

definition DEFAULT_SESSION_EXPIRES_AT :: i64 where
  "DEFAULT_SESSION_EXPIRES_AT = 4102444800"

definition SESSION_AUTHENTICATION_DOMAIN :: string where
  "SESSION_AUTHENTICATION_DOMAIN = ''mpp-session-auth-v1''"

definition SEALED_AT_KEY :: string where
  "SEALED_AT_KEY = ''mppSealedAt''"

definition OPEN_TERMINAL_KEY :: string where
  "OPEN_TERMINAL_KEY = ''mppSessionOpenTerminal''"

definition OPEN_TERMINAL_ERROR :: string where
  "OPEN_TERMINAL_ERROR = ''session open expired without funding; request a new channel''"

definition BINDING_KEY :: string where
  "BINDING_KEY = ''mppSessionBinding''"

section \<open>Messages and errors\<close>

definition session_store_err :: "store_error \<Rightarrow> charge_error" where
  "session_store_err e = OtherError (show_store_error e)"

definition internal_of :: "charge_error \<Rightarrow> store_error" where
  "internal_of e = Internal (show_charge_error e)"

text \<open>\<open>message_bytes\<close> of a voucher: the channel key, the amount and the expiry it is signed over.\<close>

definition voucher_message :: "'key session_lib \<Rightarrow> voucher_data \<Rightarrow> charge_error + u8 list" where
  "voucher_message L data =
     try_bind (Pk_Prelude.map_err (\<lambda>e. OtherError (''invalid pubkey '' @ vd_channel_id data @ '': '' @ e))
         (pubkey_from_str (sl_crypto L) (vd_channel_id data))) (\<lambda>channel_id.
     try_bind (ok_or (parse_u64 (vd_cumulative_amount data)) (OtherError ''invalid voucher cumulative'')) (\<lambda>cumulative.
       Inr (voucher_message_bytes channel_id cumulative (unwrap_or (vd_expires_at data) 0))))"

text \<open>The proof a payer signs once for the session.\<close>

definition authentication_message :: "'key session_lib \<Rightarrow> session_authentication \<Rightarrow> string
    \<Rightarrow> charge_error + u8 list" where
  "authentication_message L proof channel_id =
     Pk_Prelude.map_err OtherError (sl_json_to_jcs L (JObject
       [(''channelId'', JString channel_id), (''domain'', JString SESSION_AUTHENTICATION_DOMAIN),
        (''payer'', JString (sa_payer proof)), (''sessionChallengeId'', JString (sa_challenge_id proof))]))"

definition decode_array :: "'key session_lib \<Rightarrow> nat \<Rightarrow> string \<Rightarrow> string \<Rightarrow> charge_error + u8 list" where
  "decode_array L n wrong s =
     try_bind (Pk_Prelude.map_err OtherError (sl_bs58_decode L s)) (\<lambda>bytes.
       if length bytes = n then Inr bytes else Inl (OtherError wrong))"

definition verify_authentication :: "'key session_lib \<Rightarrow> session_authentication \<Rightarrow> string
    \<Rightarrow> charge_error + bool" where
  "verify_authentication L proof channel_id =
     try_bind (decode_array L 32 ''payer must be 32 bytes'' (sa_payer proof)) (\<lambda>payer.
     try_bind (decode_array L 64 ''signature must be 64 bytes'' (sa_signature proof)) (\<lambda>signature.
     try_bind (Pk_Prelude.map_err OtherError (key_from_bytes (sl_crypto L) payer)) (\<lambda>key.
     try_bind (authentication_message L proof channel_id) (\<lambda>message.
       Inr (sl_verify L key message signature)))))"

text \<open>The checks of a voucher signature; \<open>now\<close> is the clock the call reads.\<close>

definition verify_signature :: "'key session_lib \<Rightarrow> i64 \<Rightarrow> signed_voucher \<Rightarrow> string \<Rightarrow> i64
    \<Rightarrow> charge_error + unit" where
  "verify_signature L now voucher authorized_signer settlement_window =
     (if sv_signer voucher \<noteq> authorized_signer
      then Inl (OtherError ''voucher signer does not match the channel authorized signer'')
      else try_bind (ok_or (parse_u64 (vd_cumulative_amount (sv_data voucher)))
                       (OtherError ''Invalid cumulative in voucher'')) (\<lambda>cumulative.
        Pk_Prelude.map_err mpp_of_core
          (verify_voucher_signature (sl_crypto L) (vd_channel_id (sv_data voucher)) cumulative
             (unwrap_or (vd_expires_at (sv_data voucher)) 0) (sv_signature voucher) authorized_signer
             now settlement_window)))"

definition parse_pubkey :: "'key session_lib \<Rightarrow> string \<Rightarrow> charge_error + u8 list" where
  "parse_pubkey L s =
     try_bind (Pk_Prelude.map_err (\<lambda>e. OtherError (''Invalid pubkey '' @ s @ '': '' @ e)) (sl_bs58_decode L s)) (\<lambda>bytes.
       if length bytes = 32 then Inr bytes else Inl (OtherError (''Pubkey '' @ s @ '' is not 32 bytes'')))"

definition parse_pubkey_field :: "'key session_lib \<Rightarrow> string \<Rightarrow> string \<Rightarrow> charge_error + u8 list" where
  "parse_pubkey_field L value field =
     Pk_Prelude.map_err (\<lambda>e. OtherError (''invalid payment-channel '' @ field @ '': '' @ show_charge_error e))
       (parse_pubkey L value)"

definition expected_payment_channel_mint :: "'key session_lib \<Rightarrow> 'a session_config_scheme
    \<Rightarrow> charge_error + u8 list" where
  "expected_payment_channel_mint L C =
     try_bind (try_resolve_stablecoin_mint (sc_currency C) (Some (sc_network C))) (\<lambda>resolved.
     try_bind (ok_or resolved (OtherError ''payment-channel sessions require an SPL token'')) (\<lambda>mint.
       parse_pubkey_field L mint ''currency''))"

definition distribution_hash :: "'key session_lib \<Rightarrow> split list \<Rightarrow> u8 list" where
  "distribution_hash L recipients =
     sl_sha256 L (le_bytes (of_nat (length recipients) :: u32)
       @ concat (map (\<lambda>r. spl_recipient r @ le_bytes (spl_bps r)) recipients))"

section \<open>Configuration\<close>

definition channel_deployment :: "'key session_lib \<Rightarrow> 'a session_config_scheme \<Rightarrow> charge_error + deployment" where
  "channel_deployment L C =
     resolve_for_network (abi_of L) (unwrap_or (sc_channel_program C) (default_program_id (abi_of L)))
       (sc_channel_version C) (sc_channel_hooks C) (sc_network C)"

definition check_sponsored_deposit_floor :: "'a session_config_scheme \<Rightarrow> charge_error + unit" where
  "check_sponsored_deposit_floor C =
     (if sc_fee_payer_signer C \<noteq> None \<and> sc_minimum_deposit C = None
      then Inl (InvalidConfig (''sponsored sessions (fee_payer_signer) require minimum_deposit: the sponsor ''
             @ ''funds each channel's rent''))
      else Inr ())"

text \<open>\<open>.ok()\<close>.\<close>

definition ok :: "'e + 'a \<Rightarrow> 'a option" where
  "ok r = (case r of Inl _ \<Rightarrow> None | Inr a \<Rightarrow> Some a)"

definition or_option :: "'a option \<Rightarrow> 'a option \<Rightarrow> 'a option" where
  "or_option x y = (case x of Some a \<Rightarrow> Some a | None \<Rightarrow> y)"

definition capture :: "'key session_lib \<Rightarrow> 'a session_config_scheme \<Rightarrow> config_snapshot" where
  "capture L C =
     \<lparr>sn_operator = sc_operator C, sn_recipient = sc_recipient C, sn_splits = sc_splits C, sn_amount = sc_amount C,
      sn_suggested_deposit = sc_suggested_deposit C, sn_minimum_deposit = sc_minimum_deposit C,
      sn_currency = (case expected_payment_channel_mint L C of Inr mint \<Rightarrow> sl_bs58_encode L mint | Inl _ \<Rightarrow> sc_currency C),
      sn_decimals = sc_decimals C, sn_network = sc_network C,
      sn_channel_program = Some (unwrap_or (sc_channel_program C) (default_program_id (abi_of L))),
      sn_channel_version = (if sc_channel_version C = Some 1 then None else sc_channel_version C),
      sn_channel_hooks = sc_channel_hooks C,
      sn_token_program = or_option (sc_token_program C)
        (ok (parse_pubkey_field L (default_token_program_for_currency (sc_currency C) (Some (sc_network C))) ''token program'')),
      sn_min_voucher_delta = sc_min_voucher_delta C, sn_voucher_signer = sc_voucher_signer C,
      sn_idle_timeout_options_seconds = sc_idle_timeout_options_seconds C,
      sn_idle_timeout_seconds = sc_idle_timeout_seconds C, sn_grace_period_seconds = sc_grace_period_seconds C,
      sn_fee_payer = sc_fee_payer_signer C\<rparr>"

definition apply_to :: "'key session_lib \<Rightarrow> config_snapshot \<Rightarrow> 'a session_config_scheme
    \<Rightarrow> charge_error + 'a session_config_scheme" where
  "apply_to L snapshot C =
     try_bind (resolve_for_network (abi_of L) (unwrap_or (sn_channel_program snapshot) (default_program_id (abi_of L)))
         (sn_channel_version snapshot) (sn_channel_hooks snapshot) (sn_network snapshot)) (\<lambda>_.
     if sn_fee_payer snapshot \<noteq> sc_fee_payer_signer C
     then Inl (OtherError ''session snapshot fee-payer capability mismatch'')
     else Inr (C\<lparr>sc_operator := sn_operator snapshot, sc_recipient := sn_recipient snapshot, sc_splits := sn_splits snapshot,
       sc_amount := sn_amount snapshot, sc_suggested_deposit := sn_suggested_deposit snapshot,
       sc_minimum_deposit := sn_minimum_deposit snapshot, sc_currency := sn_currency snapshot,
       sc_decimals := sn_decimals snapshot, sc_network := sn_network snapshot,
       sc_channel_program := sn_channel_program snapshot, sc_channel_version := sn_channel_version snapshot,
       sc_channel_hooks := sn_channel_hooks snapshot, sc_token_program := sn_token_program snapshot,
       sc_min_voucher_delta := sn_min_voucher_delta snapshot, sc_voucher_signer := sn_voucher_signer snapshot,
       sc_idle_timeout_options_seconds := sn_idle_timeout_options_seconds snapshot,
       sc_idle_timeout_seconds := sn_idle_timeout_seconds snapshot,
       sc_grace_period_seconds := sn_grace_period_seconds snapshot\<rparr>))"

definition binding_new :: "'key session_lib \<Rightarrow> json \<Rightarrow> 'a session_config_scheme \<Rightarrow> session_binding" where
  "binding_new L policy C = \<lparr>bn_version = 1, bn_policy = policy, bn_snapshot = capture L C\<rparr>"

definition session_server_new :: "'key session_lib \<Rightarrow> session_config \<Rightarrow> session_server" where
  "session_server_new L config =
     session_config.extend config (session_server.fields
       (if unwrap_or (sc_channel_version config) 1 \<noteq> 1 then Some (binding_new L JNull config) else None))"

definition with_channel_binding :: "'key session_lib \<Rightarrow> json \<Rightarrow> session_server \<Rightarrow> session_server" where
  "with_channel_binding L policy C = C\<lparr>ss_binding := Some (binding_new L policy C)\<rparr>"

section \<open>Bound channels\<close>

definition session_open_is_terminal :: "channel_state \<Rightarrow> bool" where
  "session_open_is_terminal state \<longleftrightarrow> cs_extra state OPEN_TERMINAL_KEY \<noteq> None"

definition read_binding :: "'key session_lib \<Rightarrow> channel_state \<Rightarrow> charge_error + session_binding option" where
  "read_binding L state =
     (case cs_extra state BINDING_KEY of
        None \<Rightarrow> Inr None
      | Some value \<Rightarrow>
          try_bind (ok_or (sl_binding_of_json L value) (OtherError ''invalid session policy binding'')) (\<lambda>binding.
          if bn_version binding \<noteq> 1 then Inl (OtherError ''unsupported session policy binding version'')
          else Inr (Some binding)))"

definition binding_insert :: "'key session_lib \<Rightarrow> session_binding \<Rightarrow> channel_state \<Rightarrow> charge_error + channel_state" where
  "binding_insert L b state =
     try_bind (Pk_Prelude.map_err (\<lambda>e. OtherError (''serialize session binding: '' @ e)) (sl_binding_to_json L b))
       (\<lambda>value.
     Inr (state\<lparr>cs_schema_version := CHANNEL_STATE_SCHEMA_VERSION,
                cs_extra := (cs_extra state)(BINDING_KEY \<mapsto> value)\<rparr>))"

definition from_channel :: "'key session_lib \<Rightarrow> channel_state \<Rightarrow> charge_error + config_snapshot option" where
  "from_channel L state = try_bind (read_binding L state) (\<lambda>binding. Inr (map_option bn_snapshot binding))"

definition opens_channel :: "channel_state \<Rightarrow> bool" where
  "opens_channel state \<longleftrightarrow> (case cs_pending_setup state of Some setup \<Rightarrow> ps_opens_channel setup | None \<Rightarrow> False)"

definition require_binding :: "'key session_lib \<Rightarrow> channel_state \<Rightarrow> session_binding option \<Rightarrow> bool \<Rightarrow> charge_error + unit" where
  "require_binding L state expected allow_pending =
     (if session_open_is_terminal state then Inl (OtherError OPEN_TERMINAL_ERROR)
      else
      try_bind (read_binding L state) (\<lambda>binding.
      if binding \<noteq> expected then Inl (OtherError ''channel session policy binding mismatch'')
      else if \<not> allow_pending \<and> opens_channel state then Inl (OtherError ''channel open is pending confirmation'')
      else Inr ()))"

text \<open>
  \<open>BoundStore\<close>: every request reads and changes channels through it.  A record is checked before the
  closure sees it and the new one before it is written; \<open>wrap\<close> is how an error of the store reads among
  those of the closure.
\<close>

definition bound_check :: "'key session_lib \<Rightarrow> session_server \<Rightarrow> channel_state \<Rightarrow> store_error + unit" where
  "bound_check L C state = Pk_Prelude.map_err internal_of (require_binding L state (ss_binding C) False)"

definition bound_get :: "'key session_lib \<Rightarrow> session_server \<Rightarrow> string \<Rightarrow> channels
    \<Rightarrow> (store_error + channel_state option) \<times> channels" where
  "bound_get L C channel_id data =
     (case get_channel channel_id data of
        (Inr (Some state), data') \<Rightarrow> (try_bind (bound_check L C state) (\<lambda>_. Inr (Some state)), data')
      | (other, data') \<Rightarrow> (other, data'))"

definition guarded :: "'key session_lib \<Rightarrow> session_server \<Rightarrow> (store_error \<Rightarrow> 'e)
    \<Rightarrow> (channel_state option \<Rightarrow> 'e + channel_state \<times> 'x) \<Rightarrow> channel_state option \<Rightarrow> 'e + channel_state \<times> 'x" where
  "guarded L C wrap updater state =
     try_bind (case state of None \<Rightarrow> Inr () | Some st \<Rightarrow> Pk_Prelude.map_err wrap (bound_check L C st)) (\<lambda>_.
     try_bind (updater state) (\<lambda>(updated, cell).
     try_bind (Pk_Prelude.map_err wrap (bound_check L C updated)) (\<lambda>_.
     Inr (updated, cell))))"

definition bound_with :: "'key session_lib \<Rightarrow> session_server \<Rightarrow> (store_error \<Rightarrow> 'e) \<Rightarrow> string
    \<Rightarrow> (channel_state option \<Rightarrow> 'e + channel_state \<times> 'x) \<Rightarrow> channels \<Rightarrow> ('e + channel_state \<times> 'x) \<times> channels" where
  "bound_with L C wrap channel_id updater = update_with channel_id (guarded L C wrap updater)"

definition bound_update :: "'key session_lib \<Rightarrow> session_server \<Rightarrow> string
    \<Rightarrow> (channel_state option \<Rightarrow> store_error + channel_state) \<Rightarrow> channels \<Rightarrow> (store_error + channel_state) \<times> channels" where
  "bound_update L C channel_id updater data =
     map_prod (map_sum id fst) id (bound_with L C id channel_id (with_unit updater) data)"

definition mutating :: "channel_state option \<Rightarrow> unit mutator \<Rightarrow> channel_state option \<Rightarrow> store_error + channel_state" where
  "mutating seed mutator state =
     try_bind (ok_or (or_option state seed) (Internal ''Channel not found'')) (\<lambda>st.
     case mutator st of (r, st') \<Rightarrow> try_bind r (\<lambda>_. Inr st'))"

definition bound_mutate :: "'key session_lib \<Rightarrow> session_server \<Rightarrow> string \<Rightarrow> channel_state option \<Rightarrow> unit mutator
    \<Rightarrow> channels \<Rightarrow> (store_error + unit) \<times> channels" where
  "bound_mutate L C channel_id seed mutator data =
     map_prod (map_sum id (\<lambda>_. ())) id (bound_update L C channel_id (mutating seed mutator) data)"

definition bound_mark_sealed :: "'key session_lib \<Rightarrow> session_server \<Rightarrow> string \<Rightarrow> channels \<Rightarrow> (store_error + unit) \<times> channels" where
  "bound_mark_sealed L C channel_id =
     bound_mutate L C channel_id None (\<lambda>state. (Inr (), state\<lparr>cs_sealed := True\<rparr>))"

end
