(* ===== verification/Session_Server.thy ===== *)
theory Session_Server
  imports Session_Config
begin

text \<open>
  The session server of \<open>mpp/server/session.rs\<close>: metered payment on an open channel.

  Vouchers signed by the client, operator-signed uses charged at a fixed price
  (\<open>process_use\<close>) or at a metered total (\<open>charge_operator_request\<close>), metered deliveries
  (\<open>begin_delivery\<close>, \<open>record_delivery_usage\<close>, \<open>process_commit\<close>), the credit of a top-up,
  and the close.  Every handler is a tree of steps (\<open>Session_Steps\<close>): each call of the store
  is one step, so other requests may run between any two of them.  A closure given to
  \<open>update_channel\<close> is a function of its own, and the cell it captures is its second result.

  The answers of the chain come with the moment of the step that asks.
\<close>

section \<open>Clocks and deadlines\<close>

definition secs_u64 :: "i64 \<Rightarrow> u64" where
  "secs_u64 now = word_of_int (max now 0)"

definition millis_u64 :: "i64 \<Rightarrow> u64" where
  "millis_u64 now = word_of_int (max i64_min (min i64_max (now * 1000)))"

definition snapshot_max_age :: "session_server \<Rightarrow> u64" where
  "snapshot_max_age C = min CHANNEL_SNAPSHOT_MAX_AGE_SECONDS (ucast (sc_grace_period_seconds C) div 2)"

definition idle_lifecycle :: "channel_state \<Rightarrow> string \<Rightarrow> u64 \<Rightarrow> i64 \<Rightarrow> u32 \<Rightarrow> channel_lifecycle option" where
  "idle_lifecycle state owner now_ms voucher_expires_at grace =
     map_option (\<lambda>seconds.
       let idle = saturating_add now_ms (ucast seconds * 1000);
           close_after = (case u64_try_from_i64 voucher_expires_at of
               Some expires_at \<Rightarrow>
                 if expires_at > 0
                 then min idle (saturating_mul (saturating_sub expires_at (ucast grace)) 1000)
                 else idle
             | None \<Rightarrow> idle) in
       \<lparr>cl_owner = owner, cl_close_after = close_after\<rparr>) (cs_idle_timeout_seconds state)"

definition touched :: "i64 \<Rightarrow> string \<Rightarrow> i64 \<Rightarrow> u32 \<Rightarrow> channel_state \<Rightarrow> channel_state" where
  "touched now owner voucher_expires_at grace state =
     state\<lparr>cs_last_activity_at := millis_u64 now,
           cs_lifecycle := idle_lifecycle state owner (millis_u64 now) voucher_expires_at grace\<rparr>"

definition require_fresh_snapshot :: "i64 \<Rightarrow> channel_state \<Rightarrow> u64 \<Rightarrow> store_error + unit" where
  "require_fresh_snapshot now state max_age =
     (if saturating_sub (secs_u64 now) (onchain_observed_at state) > max_age
      then Inl (Internal (''channel '' @ cs_channel_id state @ '' has no confirmed onchain read in the last ''
             @ show_nat (unat max_age) @ ''s''))
      else Inr ())"

section \<open>Operator-signed uses\<close>

definition check_idempotency_key :: "string \<Rightarrow> charge_error + unit" where
  "check_idempotency_key key =
     (if key = [] then Inl (OtherError ''operator-signed use requires an Idempotency-Key'')
      else if length key > MAX_IDEMPOTENCY_KEY_BYTES
      then Inl (OtherError (''Idempotency-Key exceeds '' @ show_nat MAX_IDEMPOTENCY_KEY_BYTES @ '' bytes''))
      else Inr ())"

definition proof_mismatch :: store_error where
  "proof_mismatch = Internal ''use authentication does not match the proof bound at open''"

definition closed_error :: string where
  "closed_error = ''Channel is closed or close is pending''"

definition is_closed :: "channel_state \<Rightarrow> bool" where
  "is_closed state \<longleftrightarrow> cs_sealed state \<or> cs_close_requested_at state \<noteq> None"

definition check_use_binding :: "'key session_lib \<Rightarrow> channel_state \<Rightarrow> session_authentication
    \<Rightarrow> string \<Rightarrow> store_error + unit" where
  "check_use_binding L state proof authentication =
     (if cs_opening_challenge_id state = [] \<and> cs_authentication state = None
      then Inl (Internal ''session channel predates proof binding; open a new session'')
      else if cs_voucher_signer state \<noteq> ''operator''
        \<or> cs_authentication state \<noteq> Some authentication
        \<or> sa_challenge_id proof \<noteq> cs_opening_challenge_id state
        \<or> sa_payer proof \<noteq> cs_payer state
      then Inl proof_mismatch
      else try_bind (Pk_Prelude.map_err internal_of (verify_authentication L proof (cs_channel_id state)))
        (\<lambda>ok. if ok then Inr () else Inl proof_mismatch))"

definition check_bound_authentication :: "channel_state \<Rightarrow> string \<Rightarrow> store_error + unit" where
  "check_bound_authentication state authentication =
     (if cs_voucher_signer state \<noteq> ''operator'' \<or> cs_authentication state \<noteq> Some authentication
      then Inl proof_mismatch else Inr ())"

record recorded =
  ru_request_total :: u64
  ru_cumulative :: u64
  ru_voucher_signature :: string

definition find_use :: "channel_state \<Rightarrow> string \<Rightarrow> processed_use option" where
  "find_use state key = List.find (\<lambda>entry. pu_idempotency_key entry = key) (cs_processed_uses state)"

definition recorded_use :: "channel_state \<Rightarrow> authenticated_use \<Rightarrow> store_error + recorded option" where
  "recorded_use state authenticated =
     (case find_use state (au_idempotency_key authenticated) of
        None \<Rightarrow> Inr None
      | Some entry \<Rightarrow>
          (case pu_amount entry of
             Some request_total \<Rightarrow>
               if pu_challenge_id entry = au_challenge_id authenticated
               then Inr (Some \<lparr>ru_request_total = request_total, ru_cumulative = pu_cumulative entry,
                              ru_voucher_signature = pu_voucher_signature entry\<rparr>)
               else Inl (Internal ''Idempotency-Key was already used for a different request'')
           | None \<Rightarrow> Inl (Internal ''Idempotency-Key was already used for a different request'')))"

definition record_use :: "processed_use list \<Rightarrow> processed_use \<Rightarrow> processed_use list" where
  "record_use processed_uses entry =
     (let pushed = filter (\<lambda>r. pu_idempotency_key r \<noteq> pu_idempotency_key entry) processed_uses @ [entry] in
      drop (length pushed - MAX_PROCESSED_USES) pushed)"

definition operator_voucher :: "string \<Rightarrow> u64 \<Rightarrow> string \<Rightarrow> string \<Rightarrow> signed_voucher" where
  "operator_voucher channel_id cumulative signer signature =
     \<lparr>sv_data = \<lparr>vd_channel_id = channel_id, vd_cumulative_amount = show_nat (unat cumulative),
                 vd_expires_at = None\<rparr>,
      sv_signer = signer, sv_signature = signature\<rparr>"

definition replayed_charge :: "string \<Rightarrow> string \<Rightarrow> recorded \<Rightarrow> operator_charge" where
  "replayed_charge channel_id operator entry =
     \<lparr>oc_voucher = operator_voucher channel_id (ru_cumulative entry) operator (ru_voucher_signature entry),
      oc_previous_cumulative = ru_cumulative entry, oc_cumulative = ru_cumulative entry, oc_charged = 0,
      oc_request_total = ru_request_total entry, oc_replay = True\<rparr>"

text \<open>A charge of \<open>delta\<close> recorded under its request, with the voucher that covers it.\<close>

definition charged :: "i64 \<Rightarrow> string \<Rightarrow> u64 \<Rightarrow> string \<Rightarrow> processed_use \<Rightarrow> channel_state
    \<Rightarrow> store_error + channel_state" where
  "charged now owner delta signature entry state =
     try_bind (ok_or (checked_add (cs_spent_amount state) delta) (Internal ''session spent amount overflow''))
       (\<lambda>spent. Inr ((touched now owner 0 0 (state\<lparr>cs_cumulative := pu_cumulative entry,
           cs_spent_amount := spent, cs_highest_voucher_signature := Some signature,
           cs_highest_voucher_expires_at := Some 0\<rparr>))
         \<lparr>cs_processed_uses := record_use (cs_processed_uses state) entry\<rparr>))"

text \<open>The closure of \<open>process_use\<close>.\<close>

definition use_updater :: "'key session_lib \<Rightarrow> session_server \<Rightarrow> signing_key \<Rightarrow> string
    \<Rightarrow> use_payload \<Rightarrow> string \<Rightarrow> string \<Rightarrow> string \<Rightarrow> i64 \<Rightarrow> channel_state option
    \<Rightarrow> store_error + channel_state \<times> use_acceptance" where
  "use_updater L C signing_key signer payload authentication challenge_id idempotency_key now state_opt =
     try_bind (ok_or state_opt (Internal (''Channel '' @ up_channel_id payload @ '' not found''))) (\<lambda>state.
     if is_closed state then Inl (Internal closed_error)
     else try_bind (check_use_binding L state (up_authentication payload) authentication) (\<lambda>_.
     case find_use state idempotency_key of
       Some replay \<Rightarrow>
         Inr (state, \<lparr>ua_voucher = operator_voucher (cs_channel_id state) (pu_cumulative replay) signer
                                    (pu_voucher_signature replay),
                      ua_replay = True\<rparr>)
     | None \<Rightarrow>
         try_bind (require_fresh_snapshot now state (snapshot_max_age C)) (\<lambda>_.
         try_bind (ok_or (checked_add (cs_cumulative state) (sc_amount C)) (Internal ''session cumulative overflow''))
           (\<lambda>cumulative.
         if cumulative > cs_deposit state then Inl (Internal ''insufficient channel availability'')
         else
         try_bind (Pk_Prelude.map_err internal_of (voucher_message L
             (sv_data (operator_voucher (cs_channel_id state) cumulative signer [])))) (\<lambda>message.
         let signature = sl_bs58_encode L (sk_sign signing_key message) in
         try_bind (charged now (sc_operator C) (sc_amount C) signature
             \<lparr>pu_challenge_id = challenge_id, pu_idempotency_key = idempotency_key,
              pu_cumulative = cumulative, pu_voucher_signature = signature,
              pu_amount = Some (sc_amount C)\<rparr> state) (\<lambda>state'.
         Inr (state', \<lparr>ua_voucher = operator_voucher (cs_channel_id state) cumulative signer signature,
                       ua_replay = False\<rparr>)))))))"

text \<open>
  The closure of \<open>charge_operator_request\<close>: its error carries the \<open>moved\<close> flag, its result the
  \<open>replayed\<close> cell.
\<close>

definition still :: "store_error + 'a \<Rightarrow> store_error \<times> bool + 'a" where
  "still r = Pk_Prelude.map_err (\<lambda>e. (e, False)) r"

definition total_of :: "recorded option \<Rightarrow> u64" where
  "total_of r = (case r of None \<Rightarrow> 0 | Some entry \<Rightarrow> ru_request_total entry)"

definition charge_updater :: "session_server \<Rightarrow> authenticated_use \<Rightarrow> u64
    \<Rightarrow> (channel_state \<Rightarrow> charge_error + unit) \<Rightarrow> u64 \<Rightarrow> u64 \<Rightarrow> u64 \<Rightarrow> string \<Rightarrow> i64 \<Rightarrow> channel_state option
    \<Rightarrow> store_error \<times> bool + channel_state \<times> recorded option" where
  "charge_updater C authenticated request_total guard base charged_before cumulative signature now state_opt =
     try_bind (still (ok_or state_opt Channel_Store.not_found)) (\<lambda>state.
     if is_closed state then Inl (Internal closed_error, False)
     else
     try_bind (still (check_bound_authentication state (au_authentication authenticated))) (\<lambda>_.
     try_bind (still (require_fresh_snapshot now state (snapshot_max_age C))) (\<lambda>_.
     try_bind (still (recorded_use state authenticated)) (\<lambda>recorded.
     if (case recorded of Some entry \<Rightarrow> ru_request_total entry \<ge> request_total | None \<Rightarrow> False)
     then Inr (state, recorded)
     else if cs_cumulative state \<noteq> base \<or> total_of recorded \<noteq> charged_before
     then Inl (Internal ''operator charge watermark moved'', True)
     else if cumulative > cs_deposit state then Inl (Internal ''insufficient channel availability'', False)
     else
     try_bind (still (Pk_Prelude.map_err internal_of (guard state))) (\<lambda>_.
     try_bind (still (charged now (sc_operator C) (request_total - charged_before) signature
         \<lparr>pu_challenge_id = au_challenge_id authenticated,
          pu_idempotency_key = au_idempotency_key authenticated, pu_cumulative = cumulative,
          pu_voucher_signature = signature, pu_amount = Some request_total\<rparr> state)) (\<lambda>state'.
       Inr (state', None)))))))"

section \<open>Metered deliveries\<close>

fun add_amounts :: "u64 \<Rightarrow> pending_delivery list \<Rightarrow> u64 option" where
  "add_amounts acc [] = Some acc"
| "add_amounts acc (d # ds) = Option.bind (checked_add acc (pd_amount d)) (\<lambda>acc'. add_amounts acc' ds)"

definition delivery_exists :: "channel_state \<Rightarrow> string \<Rightarrow> bool" where
  "delivery_exists state delivery_id \<longleftrightarrow>
     list_ex (\<lambda>d. pd_delivery_id d = delivery_id) (cs_pending_deliveries state)
     \<or> list_ex (\<lambda>d. cd_delivery_id d = delivery_id) (cs_committed_deliveries state)"

definition begin_updater :: "session_server \<Rightarrow> delivery_request \<Rightarrow> string \<Rightarrow> i64 \<Rightarrow> channel_state option
    \<Rightarrow> store_error + channel_state \<times> metering_directive" where
  "begin_updater C request currency now state_opt =
     try_bind (ok_or state_opt (Internal (''Channel '' @ dr_session_id request @ '' not found''))) (\<lambda>state.
     if cs_sealed state then Inl (Internal ''Channel is already sealed'')
     else if cs_close_requested_at state \<noteq> None
     then Inl (Internal (''Channel close is pending '' @ [CHR 0xE2, CHR 0x80, CHR 0x94]
            @ '' no further deliveries accepted''))
     else
     try_bind (require_fresh_snapshot now state (snapshot_max_age C)) (\<lambda>_.
     if (case Option.bind (add_amounts (cs_cumulative state) (cs_pending_deliveries state))
             (\<lambda>acc. checked_add acc (dr_amount request)) of
           None \<Rightarrow> True | Some reserved \<Rightarrow> reserved > cs_deposit state)
     then Inl (Internal (''Delivery amount '' @ show_nat (unat (dr_amount request)) @ '' exceeds available deposit''))
     else
     let sequence = cs_next_delivery_sequence state + 1;
         delivery_id = unwrap_or (dr_delivery_id request)
           (dr_session_id request @ '':'' @ show_nat (unat sequence));
         expires_at = unwrap_or (dr_expires_at request) DEFAULT_SESSION_EXPIRES_AT in
     if delivery_exists state delivery_id
     then Inl (Internal (''Delivery '' @ delivery_id @ '' already exists''))
     else
     Inr (state\<lparr>cs_next_delivery_sequence := sequence,
            cs_pending_deliveries := cs_pending_deliveries state
              @ [\<lparr>pd_delivery_id = delivery_id, pd_amount = dr_amount request, pd_sequence = sequence,
                  pd_expires_at = expires_at, pd_request_fingerprint = None,
                  pd_handler_succeeded = False\<rparr>]\<rparr>,
          \<lparr>md_delivery_id = delivery_id, md_session_id = dr_session_id request,
           md_amount = show_nat (unat (dr_amount request)), md_currency = currency,
           md_sequence = sequence, md_expires_at = expires_at, md_commit_url = dr_commit_url request,
           md_proof = dr_proof request\<rparr>)))"

definition usage_updater :: "string \<Rightarrow> u64 \<Rightarrow> channel_state option \<Rightarrow> store_error + channel_state" where
  "usage_updater delivery_id amount state_opt =
     try_bind (ok_or state_opt Channel_Store.not_found) (\<lambda>state.
     try_bind (ok_or (position (\<lambda>d. pd_delivery_id d = delivery_id) (cs_pending_deliveries state))
         (Internal (''Delivery '' @ delivery_id @ '' not found''))) (\<lambda>index.
     let reserved = pd_amount (cs_pending_deliveries state ! index) in
     if amount > reserved
     then Inl (Internal (''Usage '' @ show_nat (unat amount) @ '' exceeds reserved amount '' @ show_nat (unat reserved)))
     else if amount = 0
     then Inr (state\<lparr>cs_pending_deliveries := remove_at index (cs_pending_deliveries state)\<rparr>)
     else Inr (state\<lparr>cs_pending_deliveries := (cs_pending_deliveries state)
            [index := (cs_pending_deliveries state ! index)\<lparr>pd_amount := amount\<rparr>]\<rparr>)))"

definition find_committed :: "channel_state \<Rightarrow> string \<Rightarrow> committed_delivery option" where
  "find_committed state delivery_id =
     List.find (\<lambda>d. cd_delivery_id d = delivery_id) (cs_committed_deliveries state)"

definition other_voucher :: "string \<Rightarrow> string" where
  "other_voucher delivery_id = ''Delivery '' @ delivery_id @ '' was already committed with different voucher''"

definition expired_delivery :: "string \<Rightarrow> string" where
  "expired_delivery delivery_id = ''Delivery '' @ delivery_id @ '' has expired''"

definition below_watermark :: "u64 \<Rightarrow> channel_state \<Rightarrow> string" where
  "below_watermark cumulative state = ''Commit cumulative '' @ show_nat (unat cumulative)
     @ '' must exceed watermark '' @ show_nat (unat (cs_cumulative state))"

definition above_deposit :: "u64 \<Rightarrow> channel_state \<Rightarrow> string" where
  "above_deposit cumulative state = ''Commit cumulative '' @ show_nat (unat cumulative)
     @ '' exceeds deposit '' @ show_nat (unat (cs_deposit state))"

text \<open>\<open>now\<close> is the clock the handler read, \<open>later\<close> the one the closure reads.\<close>

definition commit_updater :: "session_server \<Rightarrow> commit_payload \<Rightarrow> u64 \<Rightarrow> i64 \<Rightarrow> i64 \<Rightarrow> channel_state option
    \<Rightarrow> store_error + channel_state \<times> (u64 \<times> u64 \<times> commit_status)" where
  "commit_updater C payload new_cumulative now later state_opt =
     (let delivery_id = cp_delivery_id payload; signature = sv_signature (cp_voucher payload);
          expires_at = unwrap_or (vd_expires_at (sv_data (cp_voucher payload))) 0 in
     try_bind (ok_or state_opt (Internal (''Channel '' @ vd_channel_id (sv_data (cp_voucher payload)) @ '' not found'')))
       (\<lambda>state.
     if cs_sealed state then Inl (Internal ''Channel is already sealed'')
     else if cs_final_cumulative state \<noteq> None
     then Inl (Internal (''Channel close is pending '' @ [CHR 0xE2, CHR 0x80, CHR 0x94]
            @ '' final watermark is fixed at '' @ show_nat (unat (the (cs_final_cumulative state)))))
     else case find_committed state delivery_id of
       Some committed \<Rightarrow>
         if cd_cumulative committed = new_cumulative \<and> cd_voucher_signature committed = signature
         then Inr (state, (cd_amount committed, cd_cumulative committed, Replayed))
         else Inl (Internal (other_voucher delivery_id))
     | None \<Rightarrow>
     try_bind (ok_or (position (\<lambda>d. pd_delivery_id d = delivery_id) (cs_pending_deliveries state))
         (Internal (''Delivery '' @ delivery_id @ '' not found''))) (\<lambda>index.
     let pending = cs_pending_deliveries state ! index in
     if pd_expires_at pending \<le> now then Inl (Internal (expired_delivery delivery_id))
     else if new_cumulative \<le> cs_cumulative state then Inl (Internal (below_watermark new_cumulative state))
     else if new_cumulative > cs_deposit state then Inl (Internal (above_deposit new_cumulative state))
     else let actual_amount = new_cumulative - cs_cumulative state in
     if actual_amount \<noteq> pd_amount pending
     then Inl (Internal (''Commit amount '' @ show_nat (unat actual_amount) @ '' does not match delivery amount ''
            @ show_nat (unat (pd_amount pending))))
     else
     try_bind (ok_or (checked_add (cs_spent_amount state) actual_amount) (Internal ''session spent amount overflow''))
       (\<lambda>spent.
     let pushed = cs_committed_deliveries state
           @ [\<lparr>cd_delivery_id = delivery_id, cd_amount = actual_amount, cd_cumulative = new_cumulative,
               cd_voucher_signature = signature, cd_request_fingerprint = None,
               cd_settlement_response = None, cd_retain_until = 0, cd_cached_response = None\<rparr>] in
     Inr ((touched later (sc_operator C) expires_at (sc_grace_period_seconds C)
             (state\<lparr>cs_pending_deliveries := remove_at index (cs_pending_deliveries state),
                    cs_cumulative := new_cumulative, cs_spent_amount := spent,
                    cs_highest_voucher_signature := Some signature,
                    cs_highest_voucher_expires_at := Some expires_at\<rparr>))
            \<lparr>cs_committed_deliveries := drop (length pushed - MAX_COMMITTED_AUTHORIZATIONS) pushed\<rparr>,
          (actual_amount, new_cumulative, Committed))))))"

section \<open>Top-ups and closing\<close>

definition topup_updater :: "session_server \<Rightarrow> string \<Rightarrow> u64 \<Rightarrow> string \<Rightarrow> i64 \<Rightarrow> channel_state option
    \<Rightarrow> store_error + channel_state \<times> bool" where
  "topup_updater C channel_id additional_amount topup_signature now state_opt =
     try_bind (ok_or state_opt (Internal (''Channel '' @ channel_id @ '' not found''))) (\<lambda>state.
     if topup_signature \<in> set (cs_processed_topup_signatures state) then Inr (state, True)
     else if cs_sealed state then Inl (Internal ''Channel is already sealed'')
     else if cs_close_requested_at state \<noteq> None
     then Inl (Internal (''Channel close is pending '' @ [CHR 0xE2, CHR 0x80, CHR 0x94]
            @ '' no further top-ups accepted''))
     else
     try_bind (ok_or (checked_add (cs_deposit state) additional_amount) (Internal ''top-up deposit overflow''))
       (\<lambda>new_deposit.
     Inr ((touched now (sc_operator C) (unwrap_or (cs_highest_voucher_expires_at state) 0)
             (sc_grace_period_seconds C) state)
            \<lparr>cs_deposit := new_deposit,
             cs_processed_topup_signatures := cs_processed_topup_signatures state @ [topup_signature]\<rparr>,
          False)))"

definition predates_binding :: store_error where
  "predates_binding = Internal (''session channel predates proof binding; the lifecycle worker will close it'')"

text \<open>Who may close: the bound proof on an operator session, a final voucher on a client session.\<close>

definition check_close :: "'key session_lib \<Rightarrow> close_payload \<Rightarrow> channel_state \<Rightarrow> store_error + unit" where
  "check_close L payload state =
     (let unbound = cs_opening_challenge_id state = [] \<and> cs_authentication state = None in
      if cz_authentication payload \<noteq> None \<and> cs_voucher_signer state \<noteq> ''operator'' \<and> unbound
      then Inl predates_binding
      else if cs_voucher_signer state = ''operator'' then
        (if cz_voucher payload \<noteq> None then Inl (Internal ''operator close must not include a voucher'')
         else
         try_bind (ok_or (cz_authentication payload)
             (Internal ''operator close requires the proof bound at open'')) (\<lambda>authentication.
         if unbound then Inl predates_binding
         else
         try_bind (Pk_Prelude.map_err Internal (sl_authentication_to_string L authentication)) (\<lambda>encoded.
         if cs_authentication state \<noteq> Some encoded
           \<or> sa_challenge_id authentication \<noteq> cs_opening_challenge_id state
           \<or> sa_payer authentication \<noteq> cs_payer state
         then Inl (Internal ''close authentication does not match the proof bound at open'')
         else
         try_bind (Pk_Prelude.map_err internal_of (verify_authentication L authentication (cs_channel_id state)))
           (\<lambda>ok. if ok then Inr ()
              else Inl (Internal ''close authentication does not match the proof bound at open'')))))
      else if cz_authentication payload \<noteq> None
      then Inl (Internal ''client close must not include authentication'')
      else if cz_voucher payload = None then Inl (Internal ''client close requires a final voucher'')
      else Inr ())"

text \<open>The watermark, signature and expiry the close settles.\<close>

definition final_voucher :: "'key session_lib \<Rightarrow> session_server \<Rightarrow> i64 \<Rightarrow> signed_voucher option
    \<Rightarrow> channel_state \<Rightarrow> store_error + (u64 \<times> string option \<times> i64 option)" where
  "final_voucher L C now voucher_opt state =
     (case voucher_opt of
        None \<Rightarrow> Inr (cs_cumulative state, cs_highest_voucher_signature state, cs_highest_voucher_expires_at state)
      | Some voucher \<Rightarrow>
          try_bind (ok_or (parse_u64 (vd_cumulative_amount (sv_data voucher))) (Internal ''Invalid cumulative''))
            (\<lambda>cumulative.
          let verified = Pk_Prelude.map_err internal_of (verify_signature L now voucher (cs_authorized_signer state)
                (int (unat (sc_grace_period_seconds C)))) in
          if cumulative \<le> cs_cumulative state then
            (if cumulative = cs_cumulative state
               \<and> cs_highest_voucher_signature state = Some (sv_signature voucher)
             then try_bind verified (\<lambda>_.
               Inr (cs_cumulative state, cs_highest_voucher_signature state,
                    or_else (cs_highest_voucher_expires_at state)
                      (Some (unwrap_or (vd_expires_at (sv_data voucher)) 0))))
             else Inl (Internal (''Final voucher cumulative '' @ show_nat (unat cumulative)
                    @ '' must exceed watermark '' @ show_nat (unat (cs_cumulative state)))))
          else if cumulative > cs_deposit state then Inl (Internal ''Final voucher exceeds deposit'')
          else try_bind verified (\<lambda>_.
            Inr (cumulative, Some (sv_signature voucher),
                 Some (unwrap_or (vd_expires_at (sv_data voucher)) 0)))))"

definition owed :: "i64 \<Rightarrow> channel_state \<Rightarrow> pending_delivery list" where
  "owed now state = filter (\<lambda>d. owed_at_close d now) (cs_pending_deliveries state)"

text \<open>The final voucher must pay for the reservations that were, or may have been, delivered.\<close>

definition pay_owed :: "close_payload \<Rightarrow> i64 \<Rightarrow> u64 \<Rightarrow> u64 \<Rightarrow> channel_state \<Rightarrow> store_error + channel_state" where
  "pay_owed payload now live_pending new_cumulative state =
     (if live_pending > 0 then
        (let required = saturating_add (cs_cumulative state) live_pending in
         if cz_voucher payload = None \<or> new_cumulative < required
         then Inl (Internal (''Channel has '' @ show_nat (unat live_pending)
                @ '' in uncommitted deliveries; the final voucher must reach cumulative ''
                @ show_nat (unat required)))
         else
         try_bind (ok_or (checked_add (cs_spent_amount state) live_pending)
             (Internal ''session spent amount overflow'')) (\<lambda>spent.
           Inr (state\<lparr>cs_spent_amount := spent,
                  cs_pending_deliveries := filter (\<lambda>d. \<not> owed_at_close d now) (cs_pending_deliveries state)\<rparr>)))
      else Inr state)"

definition close_updater :: "'key session_lib \<Rightarrow> session_server \<Rightarrow> close_payload \<Rightarrow> u64 \<Rightarrow> i64
    \<Rightarrow> channel_state option \<Rightarrow> store_error + channel_state" where
  "close_updater L C payload now later state_opt =
     try_bind (ok_or state_opt Channel_Store.not_found) (\<lambda>state.
     if cs_sealed state then Inl (Internal ''Channel is already sealed'')
     else if cs_close_requested_at state \<noteq> None then Inl (Internal ''Close already requested'')
     else
     try_bind (ok_or (add_amounts 0 (owed (u64_as_i64 now) state)) (Internal ''pending delivery total overflow''))
       (\<lambda>live_pending.
     try_bind (check_close L payload state) (\<lambda>_.
     try_bind (final_voucher L C later (cz_voucher payload) state) (\<lambda>(new_cumulative, new_sig, new_expires_at).
     try_bind (pay_owed payload (u64_as_i64 now) live_pending new_cumulative state) (\<lambda>state'.
     Inr (state'\<lparr>cs_cumulative := new_cumulative, cs_highest_voucher_signature := new_sig,
            cs_highest_voucher_expires_at := new_expires_at, cs_close_requested_at := Some now,
            cs_final_cumulative := Some new_cumulative\<rparr>))))))"

section \<open>Handlers: the onchain snapshot\<close>

text \<open>A step of the store whose error becomes an error of the server.\<close>

definition on_store :: "(moment \<Rightarrow> channels \<Rightarrow> (store_error + 'x) \<times> channels) \<Rightarrow> (charge_error + 'x) act" where
  "on_store op = bind_act (access op) (\<lambda>r. Ret (Pk_Prelude.map_err session_store_err r))"

definition fetch_channel :: "'key session_lib \<Rightarrow> session_server \<Rightarrow> string \<Rightarrow> (charge_error + channel_state option) act" where
  "fetch_channel L C channel_id = on_store (\<lambda>t. bound_get L C channel_id)"

definition channel_missing :: "string \<Rightarrow> charge_error" where
  "channel_missing channel_id = OtherError (''Channel '' @ channel_id @ '' not found'')"

definition require_channel :: "'key session_lib \<Rightarrow> session_server \<Rightarrow> string \<Rightarrow> (charge_error + channel_state) act" where
  "require_channel L C channel_id =
     try_act (fetch_channel L C channel_id) (\<lambda>found. Ret (ok_or found (channel_missing channel_id)))"

definition read_channel_lifecycle :: "'key session_lib \<Rightarrow> session_server \<Rightarrow> string \<Rightarrow> u64
    \<Rightarrow> (charge_error + (observed_lifecycle \<times> u64) option \<times> u64) act" where
  "read_channel_lifecycle L C channel_id now =
     (if sc_rpc_url C = None
      then Ret (Inl (OtherError (''channel '' @ channel_id
             @ '' needs a confirmed onchain read before it accepts charges, and no RPC is configured'')))
      else
      attempt (channel_deployment L C) (\<lambda>deployment.
      attempt (parse_pubkey L channel_id) (\<lambda>_.
      bind_act read_account (\<lambda>answer.
      attempt (Pk_Prelude.map_err (\<lambda>e. RpcFailed (''channel account read failed: '' @ e)) answer) (\<lambda>(data, slot).
      case data of
        None \<Rightarrow> Ret (Inr (None, slot))
      | Some bytes \<Rightarrow>
          attempt (Pk_Prelude.map_err mpp_of_core (deployment_decode (abi_of L) deployment bytes)) (\<lambda>view.
            let channel = cv_channel view in
            Ret (Inr (Some (of_channel (ca_status channel) (ca_closure_started_at channel) now,
                            ca_settled channel), slot))))))))"

definition snapshot_due :: "u64 \<Rightarrow> u64 \<Rightarrow> channel_state \<Rightarrow> bool" where
  "snapshot_due now max_age state \<longleftrightarrow>
     \<not> cs_sealed state \<and> cs_close_requested_at state = None
     \<and> \<not> opens_channel state
     \<and> saturating_mul (saturating_sub now (onchain_observed_at state)) 2 \<ge> max_age"

text \<open>The closure that records a read; a closing channel is made due for the host at once.\<close>

definition snapshot_mutator :: "session_server \<Rightarrow> u64 \<Rightarrow> observed_lifecycle \<Rightarrow> u64 \<Rightarrow> u64
    \<Rightarrow> unit mutator" where
  "snapshot_mutator C now lifecycle settled slot state =
     (case record_onchain_observation \<lparr>ob_slot = Some slot, ob_lifecycle = lifecycle\<rparr> now
             (state\<lparr>cs_settled_on_chain := max (cs_settled_on_chain state) settled\<rparr>) of
        (Behind recorded, state') \<Rightarrow>
          (Inl (Internal (''channel read at slot '' @ show_nat (unat slot)
             @ '' is behind the recorded slot '' @ show_nat (unat recorded))), state')
      | (FreshObservation, state') \<Rightarrow>
          (Inr (), if lifecycle = Open then state'
             else state'\<lparr>cs_lifecycle := Some \<lparr>cl_owner = sc_operator C,
               cl_close_after = (case cs_lifecycle state' of
                   None \<Rightarrow> saturating_mul now 1000
                 | Some current \<Rightarrow> min (cl_close_after current) (saturating_mul now 1000))\<rparr>\<rparr>))"

definition lifecycle_result :: "string \<Rightarrow> observed_lifecycle \<Rightarrow> charge_error + unit" where
  "lifecycle_result channel_id lifecycle =
     (case lifecycle of
        Open \<Rightarrow> Inr ()
      | Closing started_at \<Rightarrow> Inl (OtherError (''Channel close is pending '' @ [CHR 0xE2, CHR 0x80, CHR 0x94]
          @ '' channel '' @ channel_id @ '' has been closing onchain since '' @ show_nat (unat started_at)
          @ ''; no further charges accepted''))
      | Terminal _ \<Rightarrow> Inl (OtherError (''Channel '' @ channel_id @ '' is already sealed onchain'')))"

definition refresh_channel_snapshot :: "'key session_lib \<Rightarrow> session_server \<Rightarrow> string
    \<Rightarrow> (charge_error + unit) act" where
  "refresh_channel_snapshot L C channel_id =
     bind_act clock (\<lambda>now_secs.
     let now = secs_u64 now_secs in
     try_act (fetch_channel L C channel_id) (\<lambda>found.
     if \<not> (case found of None \<Rightarrow> False | Some state \<Rightarrow> snapshot_due now (snapshot_max_age C) state)
     then Ret (Inr ())
     else
     try_act (read_channel_lifecycle L C channel_id now) (\<lambda>(read, slot).
     attempt (ok_or read (OtherError (''Channel '' @ channel_id @ '' not found onchain''))) (\<lambda>(lifecycle, settled).
     try_act (on_store (\<lambda>t. bound_mutate L C channel_id None (snapshot_mutator C now lifecycle settled slot))) (\<lambda>_.
     Ret (lifecycle_result channel_id lifecycle))))))"

section \<open>Handlers: vouchers\<close>

text \<open>The callback given to the shared acceptance: the debit, in the same update as the watermark.\<close>

definition debit_commit :: "session_server \<Rightarrow> u64 \<Rightarrow> bool \<Rightarrow> (channel_state \<Rightarrow> charge_error + unit)
    \<Rightarrow> i64 \<Rightarrow> i64 \<Rightarrow> commit_callback" where
  "debit_commit C amount allow_replay guard expires_at now state replay =
     try_bind (require_fresh_snapshot now state (snapshot_max_age C)) (\<lambda>_.
     if replay \<and> \<not> allow_replay
     then Inl (Internal ''voucher was already accepted; sign a new voucher for this request'')
     else
     try_bind (Pk_Prelude.map_err internal_of (guard state)) (\<lambda>_.
     try_bind (ok_or (checked_add (cs_spent_amount state) (if replay then 0 else amount))
         (Internal ''session spent amount overflow'')) (\<lambda>spent.
     Inr (touched now (sc_operator C) expires_at (sc_grace_period_seconds C)
            (state\<lparr>cs_spent_amount := spent\<rparr>)))))"

text \<open>\<open>accept_voucher_with_commit\<close> with its two calls of the store as steps.\<close>

definition accept_steps :: "'key session_lib \<Rightarrow> session_server \<Rightarrow> voucher_request \<Rightarrow> (i64 \<Rightarrow> commit_callback)
    \<Rightarrow> (charge_error + voucher_acceptance) act" where
  "accept_steps L C q commit =
     bind_act (access (\<lambda>t. bound_get L C (vq_channel_id q))) (\<lambda>found.
     attempt (Pk_Prelude.map_err (mpp_of_core \<circ> store_err) found) (\<lambda>found.
     attempt (ok_or found (channel_missing (vq_channel_id q))) (\<lambda>state.
     attempt (Pk_Prelude.map_err mpp_of_core (voucher_precheck (sl_crypto L) (sl_batch L) q state)) (\<lambda>_.
     bind_act (access (\<lambda>t. bound_with L C id (vq_channel_id q) (voucher_updater q (commit (mo_now t))))) (\<lambda>written.
     attempt (Pk_Prelude.map_err (mpp_of_core \<circ> store_err) written) (\<lambda>(new_state, was_replay).
     Ret (Inr \<lparr>va_cumulative = cs_cumulative new_state,
               va_charged = (if was_replay then 0
                             else saturating_sub (cs_cumulative new_state) (cs_cumulative state)),
               va_replay = was_replay\<rparr>)))))))"

definition priced_request :: "session_server \<Rightarrow> signed_voucher \<Rightarrow> u64 \<Rightarrow> u64 \<Rightarrow> i64 \<Rightarrow> voucher_request" where
  "priced_request C voucher amount new_cumulative now =
     \<lparr>vq_channel_id = vd_channel_id (sv_data voucher), vq_cumulative = new_cumulative,
      vq_expires_at = unwrap_or (vd_expires_at (sv_data voucher)) 0,
      vq_signature = sv_signature voucher, vq_now = now,
      vq_min_voucher_delta = sc_min_voucher_delta C,
      vq_settlement_window = int (unat (sc_grace_period_seconds C)),
      vq_required_availability = amount\<rparr>"

definition verify_voucher_priced :: "'key session_lib \<Rightarrow> session_server \<Rightarrow> voucher_payload
    \<Rightarrow> u64 \<Rightarrow> bool \<Rightarrow> (channel_state \<Rightarrow> charge_error + unit) \<Rightarrow> (charge_error + voucher_acceptance) act" where
  "verify_voucher_priced L C payload amount allow_replay guard =
     (let voucher = vpl_voucher payload; channel_id = vd_channel_id (sv_data voucher);
          expires_at = unwrap_or (vd_expires_at (sv_data voucher)) 0 in
      if sc_voucher_signer C = Operator then Ret (Inl (OtherError OPERATOR_VOUCHER_ERROR))
      else if vpl_channel_id payload \<noteq> channel_id
      then Ret (Inl (OtherError ''voucher action channelId does not match the signed voucher's channelId''))
      else
      try_act (require_channel L C channel_id) (\<lambda>state.
      if cs_voucher_signer state = ''operator'' then Ret (Inl (OtherError OPERATOR_VOUCHER_ERROR))
      else if sv_signer voucher \<noteq> cs_authorized_signer state
      then Ret (Inl (OtherError ''voucher signer does not match the channel authorized signer''))
      else
      attempt (ok_or (parse_u64 (vd_cumulative_amount (sv_data voucher)))
          (OtherError ''Invalid cumulative in voucher'')) (\<lambda>new_cumulative.
      try_act (refresh_channel_snapshot L C channel_id) (\<lambda>_.
      bind_act clock (\<lambda>now.
      accept_steps L C (priced_request C voucher amount new_cumulative now)
        (debit_commit C amount allow_replay guard expires_at))))))"

definition no_guard :: "channel_state \<Rightarrow> charge_error + unit" where
  "no_guard state = Inr ()"

definition verify_voucher :: "'key session_lib \<Rightarrow> session_server \<Rightarrow> voucher_payload
    \<Rightarrow> (charge_error + voucher_acceptance) act" where
  "verify_voucher L C payload = verify_voucher_priced L C payload (sc_amount C) True no_guard"

definition verify_voucher_with_guard :: "'key session_lib \<Rightarrow> session_server \<Rightarrow> voucher_payload
    \<Rightarrow> (channel_state \<Rightarrow> charge_error + unit) \<Rightarrow> (charge_error + voucher_acceptance) act" where
  "verify_voucher_with_guard L C payload guard = verify_voucher_priced L C payload (sc_amount C) False guard"

definition verify_voucher_for_amount :: "'key session_lib \<Rightarrow> session_server \<Rightarrow> voucher_payload
    \<Rightarrow> u64 \<Rightarrow> (charge_error + voucher_acceptance) act" where
  "verify_voucher_for_amount L C payload amount =
     (if amount = 0 then Ret (Inl (OtherError ''session voucher request amount must be positive''))
      else verify_voucher_priced L C payload amount False no_guard)"

section \<open>Handlers: uses\<close>

definition process_use :: "'key session_lib \<Rightarrow> session_server \<Rightarrow> use_payload \<Rightarrow> string \<Rightarrow> string
    \<Rightarrow> (charge_error + use_acceptance) act" where
  "process_use L C payload challenge_id idempotency_key =
     attempt (check_idempotency_key idempotency_key) (\<lambda>_.
     if sc_voucher_signer C \<noteq> Operator
     then Ret (Inl (OtherError ''use is only valid for operator-signed sessions''))
     else
     attempt (ok_or (sc_operator_signing_key C) (OtherError ''operator signing key is required for use'')) (\<lambda>key.
     let signer = sl_bs58_encode L (sk_verifying_key key) in
     if signer \<noteq> sc_operator C
     then Ret (Inl (OtherError ''operator signing key does not match configured operator''))
     else
     attempt (Pk_Prelude.map_err (\<lambda>e. OtherError (''serialize authentication: '' @ e))
         (sl_authentication_to_string L (up_authentication payload))) (\<lambda>authentication.
     try_act (refresh_channel_snapshot L C (up_channel_id payload)) (\<lambda>_.
     try_act (on_store (\<lambda>t. bound_with L C id (up_channel_id payload)
         (use_updater L C key signer payload authentication challenge_id idempotency_key (mo_now t)))) (\<lambda>(_, acceptance).
     Ret (Inr acceptance))))))"

definition authenticate_use :: "'key session_lib \<Rightarrow> session_server \<Rightarrow> use_payload \<Rightarrow> string \<Rightarrow> string
    \<Rightarrow> (charge_error + authenticated_use) act" where
  "authenticate_use L C payload challenge_id idempotency_key =
     attempt (check_idempotency_key idempotency_key) (\<lambda>_.
     if sc_voucher_signer C \<noteq> Operator
     then Ret (Inl (OtherError ''use is only valid for operator-signed sessions''))
     else
     attempt (Pk_Prelude.map_err (\<lambda>e. OtherError (''serialize authentication: '' @ e))
         (sl_authentication_to_string L (up_authentication payload))) (\<lambda>authentication.
     try_act (require_channel L C (up_channel_id payload)) (\<lambda>state.
     if is_closed state then Ret (Inl (OtherError closed_error))
     else
     attempt (Pk_Prelude.map_err session_store_err
         (check_use_binding L state (up_authentication payload) authentication)) (\<lambda>_.
     try_act (refresh_channel_snapshot L C (up_channel_id payload)) (\<lambda>_.
     Ret (Inr \<lparr>au_channel_id = up_channel_id payload, au_authentication = authentication,
               au_challenge_id = challenge_id, au_idempotency_key = idempotency_key\<rparr>))))))"

definition watermark_moved :: "'key session_lib \<Rightarrow> session_server \<Rightarrow> string \<Rightarrow> u64 \<Rightarrow> (charge_error + bool) act" where
  "watermark_moved L C channel_id base =
     try_act (fetch_channel L C channel_id) (\<lambda>found.
       Ret (Inr (case found of None \<Rightarrow> False | Some state \<Rightarrow> cs_cumulative state \<noteq> base)))"

text \<open>The attempts of \<open>charge_operator_request\<close>; the first argument counts those left.\<close>

fun charge_attempts :: "nat \<Rightarrow> 'key session_lib \<Rightarrow> session_server \<Rightarrow> authenticated_use
    \<Rightarrow> operator_signer \<Rightarrow> u64 \<Rightarrow> (channel_state \<Rightarrow> charge_error + unit) \<Rightarrow> (charge_error + operator_charge) act" where
  "charge_attempts 0 L C authenticated signer request_total guard =
     Ret (Inl (OtherError (''channel '' @ au_channel_id authenticated
            @ '' kept advancing concurrently; retry the request'')))"
| "charge_attempts (Suc n) L C authenticated signer request_total guard =
     (let channel_id = au_channel_id authenticated; operator = os_pubkey signer in
     try_act (require_channel L C channel_id) (\<lambda>state.
     if is_closed state then Ret (Inl (OtherError closed_error))
     else
     attempt (Pk_Prelude.map_err session_store_err
         (check_bound_authentication state (au_authentication authenticated))) (\<lambda>_.
     attempt (Pk_Prelude.map_err session_store_err (recorded_use state authenticated)) (\<lambda>recorded.
     if (case recorded of Some entry \<Rightarrow> ru_request_total entry \<ge> request_total | None \<Rightarrow> False)
     then Ret (Inr (replayed_charge channel_id operator (the recorded)))
     else
     let charged_before = total_of recorded; delta = request_total - charged_before;
         base = cs_cumulative state in
     attempt (ok_or (checked_add base delta) (OtherError ''session cumulative overflow'')) (\<lambda>cumulative.
     if cumulative > cs_deposit state then Ret (Inl (OtherError ''insufficient channel availability''))
     else
     attempt (voucher_message L (sv_data (operator_voucher channel_id cumulative operator []))) (\<lambda>message.
     attempt (Pk_Prelude.map_err (\<lambda>e. OtherError (''operator voucher signing failed: '' @ e))
         (os_sign_message signer n message)) (\<lambda>signed.
     let signature = sl_bs58_encode L signed in
     bind_act (access_err (\<lambda>e. (e, False)) (\<lambda>t. bound_with L C (\<lambda>e. (e, False)) channel_id
         (charge_updater C authenticated request_total guard base charged_before cumulative signature (mo_now t)))) (\<lambda>written.
     case written of
       Inr (_, Some entry) \<Rightarrow> Ret (Inr (replayed_charge channel_id operator entry))
     | Inr (_, None) \<Rightarrow>
         Ret (Inr \<lparr>oc_voucher = operator_voucher channel_id cumulative operator signature,
                   oc_previous_cumulative = base, oc_cumulative = cumulative, oc_charged = delta,
                   oc_request_total = request_total, oc_replay = False\<rparr>)
     | Inl (error, moved) \<Rightarrow>
         if moved then charge_attempts n L C authenticated signer request_total guard
         else
         try_act (watermark_moved L C channel_id base) (\<lambda>advanced.
         if advanced then charge_attempts n L C authenticated signer request_total guard
         else Ret (Inl (session_store_err error)))))))))))"

definition charge_operator_request :: "'key session_lib \<Rightarrow> session_server \<Rightarrow> authenticated_use
    \<Rightarrow> operator_signer \<Rightarrow> u64 \<Rightarrow> (channel_state \<Rightarrow> charge_error + unit) \<Rightarrow> (charge_error + operator_charge) act" where
  "charge_operator_request L C authenticated signer request_total guard =
     (if request_total = 0 then Ret (Inl (OtherError ''operator charge amount must be positive''))
      else if sc_voucher_signer C \<noteq> Operator
      then Ret (Inl (OtherError ''operator charges are only valid for operator-signed sessions''))
      else if os_pubkey signer \<noteq> sc_operator C
      then Ret (Inl (OtherError ''operator signer does not match configured operator''))
      else
      try_act (refresh_channel_snapshot L C (au_channel_id authenticated)) (\<lambda>_.
        charge_attempts OPERATOR_CHARGE_ATTEMPTS L C authenticated signer request_total guard))"

section \<open>Handlers: top-ups and deliveries\<close>

definition topup_channel :: "'key session_lib \<Rightarrow> session_server \<Rightarrow> topup_payload \<Rightarrow> (charge_error + u64 \<times> channel_state) act" where
  "topup_channel L C payload =
     attempt (ok_or (parse_u64 (tp_additional_amount payload)) (OtherError ''invalid additionalAmount''))
       (\<lambda>additional_amount.
     if additional_amount = 0 then Ret (Inl (OtherError ''additionalAmount must be positive''))
     else
     try_act (require_channel L C (tp_channel_id payload)) (\<lambda>existing.
     if is_closed existing then Ret (Inl (OtherError closed_error))
     else Ret (Inr (additional_amount, existing))))"

text \<open>
  Building, checking and landing the top-up transaction is \<open>verify_submit_and_fetch_topup\<close>; its
  answer, the confirmed signature, comes with the moment.
\<close>

definition process_topup_with_outcome :: "'key session_lib \<Rightarrow> session_server \<Rightarrow> topup_payload
    \<Rightarrow> (charge_error + topup_acceptance) act" where
  "process_topup_with_outcome L C payload =
     try_act (topup_channel L C payload) (\<lambda>(additional_amount, existing).
     if sc_rpc_url C = None
     then Ret (Inl (OtherError (''session transaction verification requires an RPC client; funding ''
            @ ''verification cannot be skipped'')))
     else
     bind_act submit_transaction (\<lambda>landed.
     attempt (Pk_Prelude.map_err OtherError landed) (\<lambda>topup_signature.
     try_act (on_store (\<lambda>t. bound_with L C id (tp_channel_id payload)
         (topup_updater C (tp_channel_id payload) additional_amount topup_signature (mo_now t)))) (\<lambda>(state, replay).
     Ret (Inr \<lparr>ta_state = state, ta_replay = replay, ta_transaction_signature = topup_signature\<rparr>)))))"

definition process_topup :: "'key session_lib \<Rightarrow> session_server \<Rightarrow> topup_payload \<Rightarrow> (charge_error + channel_state) act" where
  "process_topup L C payload =
     try_act (process_topup_with_outcome L C payload) (\<lambda>acceptance. Ret (Inr (ta_state acceptance)))"

definition begin_delivery :: "'key session_lib \<Rightarrow> session_server \<Rightarrow> delivery_request
    \<Rightarrow> (charge_error + metering_directive) act" where
  "begin_delivery L C request =
     (if dr_amount request = 0 then Ret (Inl (OtherError ''Delivery amount must be greater than zero''))
      else
      attempt (expected_payment_channel_mint L C) (\<lambda>mint.
      try_act (refresh_channel_snapshot L C (dr_session_id request)) (\<lambda>_.
      try_act (on_store (\<lambda>t. bound_with L C id (dr_session_id request)
          (begin_updater C request (sl_bs58_encode L mint) (mo_now t)))) (\<lambda>(_, directive).
      Ret (Inr directive)))))"

definition record_delivery_usage :: "'key session_lib \<Rightarrow> session_server \<Rightarrow> string \<Rightarrow> string \<Rightarrow> u64 \<Rightarrow> (charge_error + unit) act" where
  "record_delivery_usage L C channel_id delivery_id amount =
     try_act (on_store (\<lambda>t. bound_update L C channel_id (usage_updater delivery_id amount))) (\<lambda>_. Ret (Inr ()))"

definition commit_receipt_of :: "commit_payload \<Rightarrow> u64 \<times> u64 \<times> commit_status \<Rightarrow> commit_receipt" where
  "commit_receipt_of payload outcome =
     (case outcome of (amount, cumulative, status) \<Rightarrow>
        \<lparr>rc_delivery_id = cp_delivery_id payload,
         rc_session_id = vd_channel_id (sv_data (cp_voucher payload)),
         rc_amount = show_nat (unat amount), rc_cumulative = show_nat (unat cumulative), rc_status = status\<rparr>)"

definition process_commit :: "'key session_lib \<Rightarrow> session_server \<Rightarrow> commit_payload
    \<Rightarrow> (charge_error + commit_receipt) act" where
  "process_commit L C payload =
     (let voucher = cp_voucher payload; channel_id = vd_channel_id (sv_data voucher);
          delivery_id = cp_delivery_id payload; window = int (unat (sc_grace_period_seconds C)) in
     attempt (ok_or (parse_u64 (vd_cumulative_amount (sv_data voucher)))
         (OtherError ''Invalid cumulative in commit voucher'')) (\<lambda>new_cumulative.
     try_act (require_channel L C channel_id) (\<lambda>state.
     case find_committed state delivery_id of
       Some committed \<Rightarrow>
         if cd_cumulative committed = new_cumulative \<and> cd_voucher_signature committed = sv_signature voucher
         then bind_act clock (\<lambda>now.
           attempt (verify_signature L now voucher (cs_authorized_signer state) window) (\<lambda>_.
           Ret (Inr (commit_receipt_of payload (cd_amount committed, cd_cumulative committed, Replayed)))))
         else Ret (Inl (OtherError (other_voucher delivery_id)))
     | None \<Rightarrow>
     attempt (ok_or (List.find (\<lambda>d. pd_delivery_id d = delivery_id) (cs_pending_deliveries state))
         (OtherError (''Delivery '' @ delivery_id @ '' not found''))) (\<lambda>pending.
     bind_act clock (\<lambda>now.
     if pd_expires_at pending \<le> now then Ret (Inl (OtherError (expired_delivery delivery_id)))
     else if new_cumulative \<le> cs_cumulative state
     then Ret (Inl (OtherError (below_watermark new_cumulative state)))
     else if new_cumulative > cs_deposit state then Ret (Inl (OtherError (above_deposit new_cumulative state)))
     else
     bind_act clock (\<lambda>verified_at.
     attempt (verify_signature L verified_at voucher (cs_authorized_signer state) window) (\<lambda>_.
     try_act (on_store (\<lambda>t. bound_with L C id channel_id
         (commit_updater C payload new_cumulative now (mo_now t)))) (\<lambda>(_, outcome).
     Ret (Inr (commit_receipt_of payload outcome)))))))))) "

section \<open>Handlers: closing\<close>

definition settled_mutator :: "u64 \<Rightarrow> unit mutator" where
  "settled_mutator onchain state = (Inr (), state\<lparr>cs_settled_on_chain := max (cs_settled_on_chain state) onchain\<rparr>)"

definition seal_params_of :: "'key session_lib \<Rightarrow> session_server \<Rightarrow> string \<Rightarrow> channel_state
    \<Rightarrow> charge_error + seal_parameters" where
  "seal_params_of L C channel_id state =
     (let (voucher_signature, voucher_expires_at) =
        (if cs_settled_on_chain state \<ge> cs_cumulative state then (None, None)
         else (cs_highest_voucher_signature state, cs_highest_voucher_expires_at state)) in
     try_bind (parse_pubkey L channel_id) (\<lambda>channel_pubkey.
     try_bind (parse_pubkey L (sc_recipient C)) (\<lambda>recipient_pubkey.
     Inr \<lparr>sep_channel_id = channel_pubkey,
          sep_authorized_signer = ok (parse_pubkey L (cs_authorized_signer state)),
          sep_payer = ok (parse_pubkey L (cs_payer state)),
          sep_rent_payer = ok (parse_pubkey L (cs_rent_payer state)),
          sep_mint = ok (expected_payment_channel_mint L C),
          sep_program_id = unwrap_or (sc_channel_program C) (default_program_id (abi_of L)),
          sep_channel_version = sc_channel_version C, sep_channel_hooks = sc_channel_hooks C,
          sep_settled = max (cs_cumulative state) (cs_settled_on_chain state),
          sep_voucher_signature = voucher_signature, sep_voucher_expires_at = voucher_expires_at,
          sep_recipient = recipient_pubkey, sep_splits = sc_splits C,
          sep_distribution_hash = distribution_hash L (sc_splits C)\<rparr>)))"

text \<open>A failed read falls back to the stored watermark.\<close>

definition seal_with_read :: "'key session_lib \<Rightarrow> session_server \<Rightarrow> string \<Rightarrow> channel_state
    \<Rightarrow> charge_error + (observed_lifecycle \<times> u64) option \<times> u64 \<Rightarrow> (charge_error + seal_parameters) act" where
  "seal_with_read L C channel_id state read =
     (case read of
        Inr (Some (_, onchain), _) \<Rightarrow>
          if onchain > cs_settled_on_chain state
          then try_act (on_store (\<lambda>t. bound_mutate L C channel_id None (settled_mutator onchain))) (\<lambda>_.
            Ret (seal_params_of L C channel_id (state\<lparr>cs_settled_on_chain := onchain\<rparr>)))
          else Ret (seal_params_of L C channel_id state)
      | _ \<Rightarrow> Ret (seal_params_of L C channel_id state))"

definition seal_params :: "'key session_lib \<Rightarrow> session_server \<Rightarrow> string
    \<Rightarrow> (charge_error + seal_parameters) act" where
  "seal_params L C channel_id =
     try_act (require_channel L C channel_id) (\<lambda>state.
     if cs_cumulative state > cs_deposit state
     then Ret (Inl (OtherError (''Channel '' @ channel_id @ '' cumulative '' @ show_nat (unat (cs_cumulative state))
            @ '' exceeds deposit '' @ show_nat (unat (cs_deposit state)))))
     else
     bind_act clock (\<lambda>now.
     bind_act (read_channel_lifecycle L C channel_id (secs_u64 now)) (\<lambda>read.
     seal_with_read L C channel_id state read)))"

definition process_close :: "'key session_lib \<Rightarrow> session_server \<Rightarrow> close_payload
    \<Rightarrow> (charge_error + seal_parameters) act" where
  "process_close L C payload =
     bind_act clock (\<lambda>now.
     if (case cz_voucher payload of None \<Rightarrow> False
         | Some voucher \<Rightarrow> vd_channel_id (sv_data voucher) \<noteq> cz_channel_id payload)
     then Ret (Inl (OtherError ''close voucher channelId does not match the close channelId''))
     else
     try_act (on_store (\<lambda>t. bound_update L C (cz_channel_id payload)
         (close_updater L C payload (word_of_int now) (mo_now t)))) (\<lambda>_.
     seal_params L C (cz_channel_id payload)))"

definition sealed_at_mutator :: "i64 \<Rightarrow> unit mutator" where
  "sealed_at_mutator now state =
     (Inr (), case cs_extra state SEALED_AT_KEY of
        Some _ \<Rightarrow> state
      | None \<Rightarrow> state\<lparr>cs_extra := (cs_extra state)(SEALED_AT_KEY \<mapsto> JNumber now)\<rparr>)"

definition session_mark_sealed :: "'key session_lib \<Rightarrow> session_server \<Rightarrow> string \<Rightarrow> (charge_error + unit) act" where
  "session_mark_sealed L C channel_id =
     try_act (on_store (\<lambda>t. bound_mark_sealed L C channel_id)) (\<lambda>_.
     bind_act clock (\<lambda>now.
     on_store (\<lambda>t. bound_mutate L C channel_id None (sealed_at_mutator now))))"

fun as_i64 :: "json \<Rightarrow> i64 option" where
  "as_i64 (JNumber n) = (if in_i64 n then Some n else None)"
| "as_i64 _ = None"

definition sealed_at :: "'key session_lib \<Rightarrow> session_server \<Rightarrow> string \<Rightarrow> (charge_error + i64 option) act" where
  "sealed_at L C channel_id =
     try_act (fetch_channel L C channel_id) (\<lambda>found.
     Ret (Inr (Option.bind found (\<lambda>state. Option.bind (cs_extra state SEALED_AT_KEY) as_i64))))"

section \<open>Requests\<close>

datatype request =
    ReqVoucher voucher_payload
  | ReqVoucherGuard voucher_payload "channel_state \<Rightarrow> charge_error + unit"
  | ReqVoucherAmount voucher_payload u64
  | ReqUse use_payload string string
  | ReqAuthenticate use_payload string string
  | ReqCharge authenticated_use operator_signer u64 "channel_state \<Rightarrow> charge_error + unit"
  | ReqTopUp topup_payload
  | ReqBegin delivery_request
  | ReqUsage string string u64
  | ReqCommit commit_payload
  | ReqClose close_payload
  | ReqSealParams string
  | ReqMarkSealed string

datatype reply =
    RepVoucher "charge_error + voucher_acceptance"
  | RepUse "charge_error + use_acceptance"
  | RepAuthenticate "charge_error + authenticated_use"
  | RepCharge "charge_error + operator_charge"
  | RepTopUp "charge_error + topup_acceptance"
  | RepBegin "charge_error + metering_directive"
  | RepUsage "charge_error + unit"
  | RepCommit "charge_error + commit_receipt"
  | RepClose "charge_error + seal_parameters"
  | RepSealed "charge_error + unit"

definition answering :: "('a \<Rightarrow> 'b) \<Rightarrow> 'a act \<Rightarrow> 'b act" where
  "answering f p = bind_act p (\<lambda>r. Ret (f r))"

fun serve :: "'key session_lib \<Rightarrow> session_server \<Rightarrow> request \<Rightarrow> reply act" where
  "serve L C (ReqVoucher p) = answering RepVoucher (verify_voucher L C p)"
| "serve L C (ReqVoucherGuard p g) = answering RepVoucher (verify_voucher_with_guard L C p g)"
| "serve L C (ReqVoucherAmount p a) = answering RepVoucher (verify_voucher_for_amount L C p a)"
| "serve L C (ReqUse p c k) = answering RepUse (process_use L C p c k)"
| "serve L C (ReqAuthenticate p c k) = answering RepAuthenticate (authenticate_use L C p c k)"
| "serve L C (ReqCharge u s n g) = answering RepCharge (charge_operator_request L C u s n g)"
| "serve L C (ReqTopUp p) = answering RepTopUp (process_topup_with_outcome L C p)"
| "serve L C (ReqBegin r) = answering RepBegin (begin_delivery L C r)"
| "serve L C (ReqUsage i d n) = answering RepUsage (record_delivery_usage L C i d n)"
| "serve L C (ReqCommit p) = answering RepCommit (process_commit L C p)"
| "serve L C (ReqClose p) = answering RepClose (process_close L C p)"
| "serve L C (ReqSealParams i) = answering RepClose (seal_params L C i)"
| "serve L C (ReqMarkSealed i) = answering RepSealed (session_mark_sealed L C i)"

end
