(* ===== verification/Session_Ledger.thy ===== *)
theory Session_Ledger
  imports Session_Server
begin

text \<open>
  What the session server promises about one channel: a ledger of amounts with nine kinds of
  moves, and the proof that every step of every handler, at whatever moment and against whatever
  record it finds, is one of these moves or leaves the ledger alone.

  The ledger counts in natural numbers, so that no statement about it depends on the width of a
  machine integer; that the code's checked arithmetic never wraps is part of the refinement.
\<close>

section \<open>The ledger\<close>

record ledger =
  lg_signer :: string
  lg_operator :: bool
  lg_deposit :: nat
  lg_cumulative :: nat
  lg_spent :: nat
  lg_closed :: bool
  lg_sealed :: bool
  lg_final :: "nat option"
  lg_voucher :: "(string \<times> i64) option"
  lg_observed :: nat
  lg_uses :: "(string \<times> string \<times> nat option) list"
  lg_topups :: "string list"
  lg_pending :: "(string \<times> nat) list"
  lg_committed :: "(string \<times> nat) list"

definition abs_use :: "processed_use \<Rightarrow> string \<times> string \<times> nat option" where
  "abs_use u = (pu_idempotency_key u, pu_challenge_id u, map_option unat (pu_amount u))"

definition abs_pending :: "pending_delivery \<Rightarrow> string \<times> nat" where
  "abs_pending d = (pd_delivery_id d, unat (pd_amount d))"

definition abs_committed :: "committed_delivery \<Rightarrow> string \<times> nat" where
  "abs_committed d = (cd_delivery_id d, unat (cd_amount d))"

fun both :: "'a option \<Rightarrow> 'b option \<Rightarrow> ('a \<times> 'b) option" where
  "both (Some a) (Some b) = Some (a, b)"
| "both _ _ = None"

definition voucher_of :: "channel_state \<Rightarrow> (string \<times> i64) option" where
  "voucher_of st = both (cs_highest_voucher_signature st) (cs_highest_voucher_expires_at st)"

definition ledger_of :: "channel_state \<Rightarrow> ledger" where
  "ledger_of st =
     \<lparr>lg_signer = cs_authorized_signer st, lg_operator = (cs_voucher_signer st = ''operator''),
      lg_deposit = unat (cs_deposit st), lg_cumulative = unat (cs_cumulative st),
      lg_spent = unat (cs_spent_amount st), lg_closed = is_closed st, lg_sealed = cs_sealed st,
      lg_final = map_option unat (cs_final_cumulative st), lg_voucher = voucher_of st,
      lg_observed = unat (onchain_observed_at st), lg_uses = map abs_use (cs_processed_uses st),
      lg_topups = cs_processed_topup_signatures st,
      lg_pending = map abs_pending (cs_pending_deliveries st),
      lg_committed = map abs_committed (cs_committed_deliveries st)\<rparr>"

section \<open>Its moves\<close>

datatype event =
    EvObserve
  | EvVoucher nat nat
  | EvCharge string string nat
  | EvTopUp string nat
  | EvReserve string nat
  | EvUsage string nat
  | EvCommit string nat
  | EvClose nat

definition total_in :: "ledger \<Rightarrow> string \<Rightarrow> nat" where
  "total_in l key =
     (case map_of (lg_uses l) key of Some (_, Some n) \<Rightarrow> n | _ \<Rightarrow> 0)"

text \<open>The record of a request, replaced or added; only the newest are kept.\<close>

definition put_use :: "string \<Rightarrow> string \<Rightarrow> nat \<Rightarrow> (string \<times> string \<times> nat option) list
    \<Rightarrow> (string \<times> string \<times> nat option) list" where
  "put_use key challenge n us =
     (let pushed = filter (\<lambda>u. fst u \<noteq> key) us @ [(key, challenge, Some n)] in
      drop (length pushed - MAX_PROCESSED_USES) pushed)"

fun set_usage :: "string \<Rightarrow> nat \<Rightarrow> (string \<times> nat) list \<Rightarrow> (string \<times> nat) list" where
  "set_usage d n [] = []"
| "set_usage d n (x # xs) =
     (if fst x = d then (if n = 0 then xs else (d, n) # xs) else x # set_usage d n xs)"

definition sum_pending :: "(string \<times> nat) list \<Rightarrow> nat" where
  "sum_pending ds = sum_list (map snd ds)"

definition fresh_at :: "nat \<Rightarrow> i64 \<Rightarrow> ledger \<Rightarrow> bool" where
  "fresh_at m now l \<longleftrightarrow> unat (secs_u64 now) - lg_observed l \<le> m"

definition u64_max :: nat where
  "u64_max = 2 ^ 64 - 1"

text \<open>
  \<open>m\<close> is the longest a confirmed read admits charges and \<open>genuine\<close> the vouchers that verify:
  signer, amount, expiry, signature.
\<close>

inductive move :: "nat \<Rightarrow> (string \<Rightarrow> nat \<Rightarrow> i64 \<Rightarrow> string \<Rightarrow> bool) \<Rightarrow> i64 \<Rightarrow> event \<Rightarrow> ledger \<Rightarrow> ledger \<Rightarrow> bool"
  for m :: nat and genuine :: "string \<Rightarrow> nat \<Rightarrow> i64 \<Rightarrow> string \<Rightarrow> bool" and now :: i64 where
  observe: "(lg_closed l \<longrightarrow> closed) \<Longrightarrow> (lg_sealed l \<longrightarrow> sealed) \<Longrightarrow>
    move m genuine now EvObserve l (l\<lparr>lg_closed := closed, lg_sealed := sealed, lg_observed := observed\<rparr>)"
| voucher: "\<not> lg_closed l \<Longrightarrow> fresh_at m now l \<Longrightarrow> lg_cumulative l < c \<Longrightarrow> c \<le> lg_deposit l \<Longrightarrow>
    price \<le> c - lg_spent l \<Longrightarrow> \<not> lg_operator l \<Longrightarrow> genuine (lg_signer l) c expires_at signature \<Longrightarrow>
    move m genuine now (EvVoucher c price) l
      (l\<lparr>lg_cumulative := c, lg_spent := lg_spent l + price, lg_voucher := Some (signature, expires_at)\<rparr>)"
| charge: "\<not> lg_closed l \<Longrightarrow> lg_operator l \<Longrightarrow> fresh_at m now l \<Longrightarrow>
    (case map_of (lg_uses l) key of None \<Rightarrow> True | Some (ch, n) \<Rightarrow> ch = challenge \<and> n \<noteq> None) \<Longrightarrow>
    total_in l key \<le> n \<Longrightarrow> lg_cumulative l + (n - total_in l key) \<le> lg_deposit l \<Longrightarrow>
    move m genuine now (EvCharge key challenge n) l
      (l\<lparr>lg_cumulative := lg_cumulative l + (n - total_in l key),
         lg_spent := lg_spent l + (n - total_in l key), lg_voucher := Some (signature, 0),
         lg_uses := put_use key challenge n (lg_uses l)\<rparr>)"
| topup: "\<not> lg_closed l \<Longrightarrow> transaction \<notin> set (lg_topups l) \<Longrightarrow>
    move m genuine now (EvTopUp transaction n) l
      (l\<lparr>lg_deposit := lg_deposit l + n, lg_topups := lg_topups l @ [transaction]\<rparr>)"
| reserve: "\<not> lg_closed l \<Longrightarrow> fresh_at m now l \<Longrightarrow>
    lg_cumulative l + sum_pending (lg_pending l) + n \<le> lg_deposit l \<Longrightarrow> 0 < n \<Longrightarrow>
    d \<notin> fst ` set (lg_pending l) \<Longrightarrow> d \<notin> fst ` set (lg_committed l) \<Longrightarrow>
    move m genuine now (EvReserve d n) l (l\<lparr>lg_pending := lg_pending l @ [(d, n)]\<rparr>)"
| usage: "map_of (lg_pending l) d = Some r \<Longrightarrow> n \<le> r \<Longrightarrow>
    move m genuine now (EvUsage d n) l (l\<lparr>lg_pending := set_usage d n (lg_pending l)\<rparr>)"
| commit: "\<not> lg_sealed l \<Longrightarrow> lg_final l = None \<Longrightarrow> map_of (lg_pending l) d = Some n \<Longrightarrow> 0 < n \<Longrightarrow>
    lg_cumulative l + n \<le> lg_deposit l \<Longrightarrow> d \<notin> fst ` set (lg_committed l) \<Longrightarrow>
    genuine (lg_signer l) (lg_cumulative l + n) expires_at signature \<Longrightarrow>
    move m genuine now (EvCommit d n) l
      (l\<lparr>lg_cumulative := lg_cumulative l + n, lg_spent := lg_spent l + n,
         lg_voucher := Some (signature, expires_at), lg_pending := set_usage d 0 (lg_pending l),
         lg_committed := (let pushed = lg_committed l @ [(d, n)] in
           drop (length pushed - MAX_COMMITTED_AUTHORIZATIONS) pushed)\<rparr>)"
| close: "\<not> lg_closed l \<Longrightarrow> mset (lg_pending l) = mset due + mset rest \<Longrightarrow>
    min (lg_cumulative l + sum_pending due) u64_max \<le> c \<Longrightarrow> lg_spent l + sum_pending due \<le> u64_max \<Longrightarrow>
    lg_cumulative l \<le> c \<Longrightarrow> c \<le> lg_deposit l \<or> c = lg_cumulative l \<Longrightarrow>
    c = lg_cumulative l \<and> v = lg_voucher l
      \<or> \<not> lg_operator l \<and> (\<exists>expires_at signature.
          v = Some (signature, expires_at) \<and> genuine (lg_signer l) c expires_at signature) \<Longrightarrow>
    move m genuine now (EvClose c) l
      (l\<lparr>lg_cumulative := c, lg_spent := lg_spent l + sum_pending due, lg_voucher := v,
         lg_pending := rest, lg_closed := True, lg_final := Some c\<rparr>)"

lemma charge_eq:
  assumes "\<not> lg_closed l" "lg_operator l" "fresh_at m now l"
    "case map_of (lg_uses l) key of None \<Rightarrow> True | Some (ch, n) \<Rightarrow> ch = challenge \<and> n \<noteq> None"
    "total_in l key \<le> n" "lg_cumulative l + (n - total_in l key) \<le> lg_deposit l"
    "l' = l\<lparr>lg_cumulative := lg_cumulative l + (n - total_in l key),
       lg_spent := lg_spent l + (n - total_in l key), lg_voucher := Some (signature, 0),
       lg_uses := put_use key challenge n (lg_uses l)\<rparr>"
  shows "move m genuine now (EvCharge key challenge n) l l'"
  using assms move.charge by simp

inductive_cases move_chargeE: "move m genuine now (EvCharge key challenge n) l l'"
inductive_cases move_closeE: "move m genuine now (EvClose c) l l'"

text \<open>
  A voucher verifies when its signature does, over the bytes of this channel, amount and expiry,
  under the key of the signer: by the strict check, or by the verdict of the batched one.
\<close>

definition genuine :: "'key session_lib \<Rightarrow> string \<Rightarrow> string \<Rightarrow> nat \<Rightarrow> i64 \<Rightarrow> string \<Rightarrow> bool" where
  "genuine L channel_id signer c expires_at signature \<longleftrightarrow>
     (\<exists>now window parts.
        voucher_verify_parts (sl_crypto L) channel_id (of_nat c) expires_at signature signer now window = Inr parts
        \<and> (verify_strict (sl_crypto L) (vp_key parts) (vp_message parts) (vp_signature parts)
           \<or> (case sl_batch L of None \<Rightarrow> False | Some verdict \<Rightarrow> verdict parts)))"

section \<open>Lemmas: words and lists\<close>

lemma ledger_of_fields [simp]:
  "lg_signer (ledger_of st) = cs_authorized_signer st"
  "lg_operator (ledger_of st) = (cs_voucher_signer st = ''operator'')"
  "lg_deposit (ledger_of st) = unat (cs_deposit st)"
  "lg_cumulative (ledger_of st) = unat (cs_cumulative st)"
  "lg_spent (ledger_of st) = unat (cs_spent_amount st)"
  "lg_closed (ledger_of st) = is_closed st"
  "lg_sealed (ledger_of st) = cs_sealed st"
  "lg_final (ledger_of st) = map_option unat (cs_final_cumulative st)"
  "lg_voucher (ledger_of st) = voucher_of st"
  "lg_observed (ledger_of st) = unat (onchain_observed_at st)"
  "lg_uses (ledger_of st) = map abs_use (cs_processed_uses st)"
  "lg_topups (ledger_of st) = cs_processed_topup_signatures st"
  "lg_pending (ledger_of st) = map abs_pending (cs_pending_deliveries st)"
  "lg_committed (ledger_of st) = map abs_committed (cs_committed_deliveries st)"
  by (simp_all add: ledger_of_def)

lemma unat_checked_add: "checked_add a b = Some c \<Longrightarrow> unat c = unat a + unat (b :: u64)"
  by (auto simp: checked_add_def unat_word_ariths split: if_splits)

lemma unat_diff: "b \<le> a \<Longrightarrow> unat (a - b :: u64) = unat a - unat b"
  by (simp add: unat_sub)

lemma add_amounts_sum:
  "add_amounts a ds = Some b \<Longrightarrow> unat b = unat a + sum_pending (map abs_pending ds)"
  by (induction ds arbitrary: a)
    (auto simp: sum_pending_def abs_pending_def unat_checked_add split: Option.bind_splits)

lemma map_of_abs_use: "map_of (map abs_use us) key
    = map_option (\<lambda>u. (pu_challenge_id u, map_option unat (pu_amount u)))
        (List.find (\<lambda>u. pu_idempotency_key u = key) us)"
  by (induction us) (auto simp: abs_use_def)

lemma record_use_abs:
  assumes "map_option unat (pu_amount entry) = Some n"
  shows "map abs_use (record_use us entry)
    = put_use (pu_idempotency_key entry) (pu_challenge_id entry) n (map abs_use us)"
proof -
  let ?k = "pu_idempotency_key entry"
  let ?pushed = "filter (\<lambda>r. pu_idempotency_key r \<noteq> ?k) us @ [entry]"
  have "map abs_use (filter (\<lambda>r. pu_idempotency_key r \<noteq> ?k) us) = filter (\<lambda>u. fst u \<noteq> ?k) (map abs_use us)"
    by (induction us) (auto simp: abs_use_def)
  then have eq: "filter (\<lambda>u. fst u \<noteq> ?k) (map abs_use us) @ [(?k, pu_challenge_id entry, Some n)] = map abs_use ?pushed"
    using assms by (auto simp: abs_use_def)
  show ?thesis
    unfolding record_use_def put_use_def Let_def eq by (simp only: length_map drop_map)
qed

lemma position_map_of:
  "position (\<lambda>d. pd_delivery_id d = k) ds = Some i
    \<Longrightarrow> map_of (map abs_pending ds) k = Some (unat (pd_amount (ds ! i)))"
  by (induction ds arbitrary: i) (auto simp: abs_pending_def split: if_splits)

lemma position_remove:
  "position (\<lambda>d. pd_delivery_id d = k) ds = Some i
    \<Longrightarrow> map abs_pending (remove_at i ds) = set_usage k 0 (map abs_pending ds)"
  by (induction ds arbitrary: i) (auto simp: abs_pending_def remove_at_def split: if_splits)

lemma position_update:
  "position (\<lambda>d. pd_delivery_id d = k) ds = Some i \<Longrightarrow> n \<noteq> 0
    \<Longrightarrow> map abs_pending (ds[i := (ds ! i)\<lparr>pd_amount := n\<rparr>]) = set_usage k (unat n) (map abs_pending ds)"
  by (induction ds arbitrary: i) (auto simp: abs_pending_def unat_eq_0 split: if_splits)

lemma fresh_snapshot_iff:
  "require_fresh_snapshot now st (snapshot_max_age C) = Inr ()
    \<longleftrightarrow> fresh_at (unat (snapshot_max_age C)) now (ledger_of st)"
  by (auto simp: require_fresh_snapshot_def fresh_at_def ledger_of_def word_less_nat_alt)

lemma ledger_of_touched [simp]: "ledger_of (touched now owner e g st) = ledger_of st"
  by (simp add: touched_def ledger_of_def is_closed_def voucher_of_def onchain_observed_at_def)

section \<open>Every closure makes a move\<close>

abbreviation moves :: "'key session_lib \<Rightarrow> session_server \<Rightarrow> string \<Rightarrow> i64 \<Rightarrow> event
    \<Rightarrow> channel_state \<Rightarrow> channel_state \<Rightarrow> bool" where
  "moves L C i now e st st' \<equiv>
     move (unat (snapshot_max_age C)) (genuine L i) now e (ledger_of st) (ledger_of st')"

lemma verify_request_genuine:
  assumes "verify_request (sl_crypto L) (sl_batch L) q signer = Inr ()"
  shows "genuine L (vq_channel_id q) signer (unat (vq_cumulative q)) (vq_expires_at q) (vq_signature q)"
  using assms
  by (fastforce simp: verify_request_def genuine_def verify_voucher_signature_def try_bind_Inr_iff
      split: option.splits if_splits)

lemma verify_signature_genuine:
  assumes "verify_signature L now voucher signer window = Inr ()"
    and "parse_u64 (vd_cumulative_amount (sv_data voucher)) = Some c"
  shows "sv_signer voucher = signer"
    and "genuine L (vd_channel_id (sv_data voucher)) signer (unat c)
      (unwrap_or (vd_expires_at (sv_data voucher)) 0) (sv_signature voucher)"
  using assms
  by (fastforce simp: verify_signature_def genuine_def verify_voucher_signature_def try_bind_Inr_iff
      split: option.splits if_splits)+

lemma voucher_move:
  assumes "voucher_updater q (debit_commit C price allow_replay guard (vq_expires_at q) now) (Some st) = Inr (st', replay)"
    and "vq_required_availability q = price" "cs_voucher_signer st \<noteq> ''operator''"
    and "vq_cumulative q \<le> cs_deposit st"
    and "genuine L i (cs_authorized_signer st) (unat (vq_cumulative q)) (vq_expires_at q) (vq_signature q)"
  shows "if replay then ledger_of st' = ledger_of st
    else moves L C i now (EvVoucher (unat (vq_cumulative q)) (unat price)) st st'"
proof (cases replay)
  case True
  with assms(1) have "\<exists>spent. checked_add (cs_spent_amount st) 0 = Some spent
      \<and> st' = touched now (sc_operator C) (vq_expires_at q) (sc_grace_period_seconds C) (st\<lparr>cs_spent_amount := spent\<rparr>)"
    by (auto simp: voucher_updater_def debit_commit_def try_bind_Inr_iff split: if_splits)
  then have "ledger_of st' = ledger_of st"
    by (auto simp: checked_add_def split: if_splits)
  with True show ?thesis by simp
next
  case False
  let ?st = "\<lambda>spent. touched now (sc_operator C) (vq_expires_at q) (sc_grace_period_seconds C) (st\<lparr>cs_spent_amount := spent\<rparr>)"
  obtain spent where open_st: "\<not> is_closed st" and fresh: "require_fresh_snapshot now st (snapshot_max_age C) = Inr ()"
    and above: "cs_cumulative st < vq_cumulative q"
    and avail: "\<not> saturating_sub (vq_cumulative q) (cs_spent_amount st) < price"
    and spent: "checked_add (cs_spent_amount st) price = Some spent"
    and st': "st' = (?st spent)\<lparr>cs_cumulative := vq_cumulative q,
        cs_highest_voucher_signature := Some (vq_signature q), cs_highest_voucher_expires_at := Some (vq_expires_at q)\<rparr>"
    using assms(1,2) False
    by (auto simp: voucher_updater_def debit_commit_def try_bind_Inr_iff is_closed_def not_le split: if_splits)
  have l': "ledger_of st' = (ledger_of st)\<lparr>lg_cumulative := unat (vq_cumulative q),
      lg_spent := lg_spent (ledger_of st) + unat price, lg_voucher := Some (vq_signature q, vq_expires_at q)\<rparr>"
    using unat_checked_add [OF spent]
    by (simp add: st' touched_def ledger_of_def is_closed_def voucher_of_def onchain_observed_at_def)
  have "unat price \<le> unat (vq_cumulative q) - unat (cs_spent_amount st)"
    using avail by (simp add: word_less_nat_alt)
  then have "moves L C i now (EvVoucher (unat (vq_cumulative q)) (unat price)) st st'"
    using open_st fresh [unfolded fresh_snapshot_iff] above assms(3-5) unfolding l'
    by (intro move.voucher) (simp_all add: ledger_of_def word_less_nat_alt word_le_nat_alt)
  with False show ?thesis by simp
qed

lemma charged_ledger:
  assumes "charged now owner delta signature entry st = Inr st'" "pu_amount entry = Some n"
  shows "ledger_of st' = (ledger_of st)\<lparr>lg_cumulative := unat (pu_cumulative entry),
      lg_spent := lg_spent (ledger_of st) + unat delta, lg_voucher := Some (signature, 0),
      lg_uses := put_use (pu_idempotency_key entry) (pu_challenge_id entry) (unat n) (lg_uses (ledger_of st))\<rparr>"
proof -
  obtain spent where spent: "checked_add (cs_spent_amount st) delta = Some spent"
    and st': "st' = (touched now owner 0 0 (st\<lparr>cs_cumulative := pu_cumulative entry, cs_spent_amount := spent,
        cs_highest_voucher_signature := Some signature, cs_highest_voucher_expires_at := Some 0\<rparr>))
      \<lparr>cs_processed_uses := record_use (cs_processed_uses st) entry\<rparr>"
    using assms(1) by (auto simp: charged_def try_bind_Inr_iff)
  show ?thesis
    using unat_checked_add [OF spent] record_use_abs [of entry "unat n" "cs_processed_uses st"] assms(2)
    by (simp add: st' touched_def ledger_of_def is_closed_def voucher_of_def onchain_observed_at_def)
qed

lemma use_move:
  assumes "use_updater L C key signer payload authentication challenge idem now (Some st) = Inr (st', a)"
  shows "if ua_replay a then st' = st \<and> find_use st idem \<noteq> None
    else moves L C i now (EvCharge idem challenge (unat (sc_amount C))) st st'"
proof (cases "find_use st idem")
  case (Some u)
  with assms show ?thesis
    by (auto simp: use_updater_def try_bind_Inr_iff split: if_splits)
next
  case None
  obtain cumulative signature where open_st: "\<not> is_closed st"
    and bind: "check_use_binding L st (up_authentication payload) authentication = Inr ()"
    and fresh: "require_fresh_snapshot now st (snapshot_max_age C) = Inr ()"
    and sum: "checked_add (cs_cumulative st) (sc_amount C) = Some cumulative"
    and fits: "\<not> cumulative > cs_deposit st"
    and st': "charged now (sc_operator C) (sc_amount C) signature
        \<lparr>pu_challenge_id = challenge, pu_idempotency_key = idem, pu_cumulative = cumulative,
         pu_voucher_signature = signature, pu_amount = Some (sc_amount C)\<rparr> st = Inr st'"
    and a: "\<not> ua_replay a"
    using assms None
    by (auto simp: use_updater_def try_bind_Inr_iff Let_def split: if_splits)
  have op: "cs_voucher_signer st = ''operator''"
    using bind by (auto simp: check_use_binding_def split: if_splits)
  have absent: "map_of (lg_uses (ledger_of st)) idem = None"
    using None by (simp add: map_of_abs_use find_use_def)
  then have zero: "total_in (ledger_of st) idem = 0"
    by (simp add: total_in_def)
  have "moves L C i now (EvCharge idem challenge (unat (sc_amount C))) st st'"
    using open_st op fresh [unfolded fresh_snapshot_iff] fits absent unat_checked_add [OF sum]
    by (intro charge_eq [where signature = signature])
      (simp_all add: charged_ledger [OF st'] zero not_less word_le_nat_alt)
  with a show ?thesis by simp
qed

lemma recorded_total:
  assumes "recorded_use st u = Inr r"
  shows "total_in (ledger_of st) (au_idempotency_key u) = unat (total_of r)"
    and "case map_of (lg_uses (ledger_of st)) (au_idempotency_key u) of None \<Rightarrow> r = None
      | Some (ch, n) \<Rightarrow> ch = au_challenge_id u \<and> n = Some (unat (total_of r)) \<and> r \<noteq> None"
  using assms
  by (auto simp: recorded_use_def find_use_def ledger_of_def total_in_def map_of_abs_use total_of_def
      split: option.splits if_splits)

lemma charge_move:
  assumes "charge_updater C u n guard base before cumulative signature now (Some st) = Inr (st', r)"
    and "checked_add base (n - before) = Some cumulative" "before < n"
  shows "case r of
      Some entry \<Rightarrow> st' = st \<and> n \<le> ru_request_total entry
        \<and> total_in (ledger_of st) (au_idempotency_key u) = unat (ru_request_total entry)
    | None \<Rightarrow> moves L C i now (EvCharge (au_idempotency_key u) (au_challenge_id u) (unat n)) st st'"
proof (cases r)
  case (Some entry)
  with assms(1) have "st' = st \<and> n \<le> ru_request_total entry \<and> recorded_use st u = Inr (Some entry)"
    by (auto simp: charge_updater_def still_def try_bind_Inr_iff Let_def split: if_splits option.splits)
  with recorded_total [of st u r] Some show ?thesis by (simp add: total_of_def)
next
  case None
  obtain rec where open_st: "\<not> is_closed st"
    and bind: "check_bound_authentication st (au_authentication u) = Inr ()"
    and fresh: "require_fresh_snapshot now st (snapshot_max_age C) = Inr ()"
    and rec: "recorded_use st u = Inr rec" and base: "cs_cumulative st = base" "total_of rec = before"
    and fits: "\<not> cumulative > cs_deposit st"
    and st': "charged now (sc_operator C) (n - before) signature
        \<lparr>pu_challenge_id = au_challenge_id u, pu_idempotency_key = au_idempotency_key u,
         pu_cumulative = cumulative, pu_voucher_signature = signature, pu_amount = Some n\<rparr> st = Inr st'"
    using assms(1) None
    by (auto simp: charge_updater_def still_def try_bind_Inr_iff Let_def split: if_splits option.splits)
  have op: "cs_voucher_signer st = ''operator''"
    using bind by (auto simp: check_bound_authentication_def split: if_splits)
  have total: "total_in (ledger_of st) (au_idempotency_key u) = unat before"
    using recorded_total(1) [OF rec] base(2) by simp
  have diff: "unat (n - before) = unat n - unat before"
    using assms(3) by (simp add: unat_diff)
  have "moves L C i now (EvCharge (au_idempotency_key u) (au_challenge_id u) (unat n)) st st'"
    using open_st op fresh [unfolded fresh_snapshot_iff] fits recorded_total(2) [OF rec]
      unat_checked_add [OF assms(2)] assms(3) base(1)
    by (intro charge_eq [where signature = signature])
      (simp_all add: charged_ledger [OF st'] total diff not_less word_le_nat_alt word_less_nat_alt
        split: option.splits prod.splits)
  with None show ?thesis by simp
qed

lemma topup_move:
  assumes "topup_updater C i amount transaction now (Some st) = Inr (st', replay)"
  shows "if replay then st' = st else moves L C i now (EvTopUp transaction (unat amount)) st st'"
proof (cases replay)
  case False
  obtain deposit where d: "checked_add (cs_deposit st) amount = Some deposit"
    and st: "\<not> is_closed st" "transaction \<notin> set (cs_processed_topup_signatures st)"
    and st': "st' = (touched now (sc_operator C) (unwrap_or (cs_highest_voucher_expires_at st) 0)
        (sc_grace_period_seconds C) st)\<lparr>cs_deposit := deposit,
          cs_processed_topup_signatures := cs_processed_topup_signatures st @ [transaction]\<rparr>"
    using assms False by (auto simp: topup_updater_def try_bind_Inr_iff is_closed_def split: if_splits)
  have "ledger_of st' = (ledger_of st)\<lparr>lg_deposit := lg_deposit (ledger_of st) + unat amount,
      lg_topups := lg_topups (ledger_of st) @ [transaction]\<rparr>"
    using unat_checked_add [OF d]
    by (simp add: st' ledger_of_def touched_def is_closed_def voucher_of_def onchain_observed_at_def)
  then show ?thesis
    using move.topup [of "ledger_of st" transaction] st False by simp
qed (use assms in \<open>auto simp: topup_updater_def try_bind_Inr_iff split: if_splits\<close>)

lemma begin_move:
  assumes "begin_updater C request currency now (Some st) = Inr (st', d)" "dr_amount request \<noteq> 0"
  shows "moves L C i now (EvReserve (md_delivery_id d) (unat (dr_amount request))) st st'"
proof -
  let ?sequence = "cs_next_delivery_sequence st + 1"
  obtain acc reserved where st: "\<not> is_closed st"
    and fresh: "require_fresh_snapshot now st (snapshot_max_age C) = Inr ()"
    and acc: "add_amounts (cs_cumulative st) (cs_pending_deliveries st) = Some acc"
    and reserved: "checked_add acc (dr_amount request) = Some reserved" "reserved \<le> cs_deposit st"
    and new: "\<not> delivery_exists st (md_delivery_id d)"
    and st': "st' = st\<lparr>cs_next_delivery_sequence := ?sequence,
        cs_pending_deliveries := cs_pending_deliveries st
          @ [\<lparr>pd_delivery_id = md_delivery_id d, pd_amount = dr_amount request, pd_sequence = ?sequence,
              pd_expires_at = md_expires_at d, pd_request_fingerprint = None, pd_handler_succeeded = False\<rparr>]\<rparr>"
    using assms(1)
    by (auto simp: begin_updater_def try_bind_Inr_iff is_closed_def Let_def not_less
        split: if_splits option.splits Option.bind_splits)
  have "ledger_of st' = (ledger_of st)\<lparr>lg_pending := lg_pending (ledger_of st)
      @ [(md_delivery_id d, unat (dr_amount request))]\<rparr>"
    by (simp add: st' ledger_of_def is_closed_def voucher_of_def onchain_observed_at_def abs_pending_def)
  moreover have "md_delivery_id d \<notin> fst ` set (lg_pending (ledger_of st))"
      "md_delivery_id d \<notin> fst ` set (lg_committed (ledger_of st))"
    using new by (auto simp: delivery_exists_def list_ex_iff abs_pending_def abs_committed_def)
  ultimately show ?thesis
    using move.reserve [of "ledger_of st" "unat (snapshot_max_age C)" now "unat (dr_amount request)"
        "md_delivery_id d"] st fresh [unfolded fresh_snapshot_iff] assms(2)
      add_amounts_sum [OF acc] unat_checked_add [OF reserved(1)] reserved(2)
    by (simp add: word_le_nat_alt unat_gt_0)
qed

lemma usage_move:
  assumes "usage_updater d n (Some st) = Inr st'"
  shows "moves L C i now (EvUsage d (unat n)) st st'"
proof -
  obtain index where pos: "position (\<lambda>p. pd_delivery_id p = d) (cs_pending_deliveries st) = Some index"
    and le: "n \<le> pd_amount (cs_pending_deliveries st ! index)"
    and st': "st' = (if n = 0 then st\<lparr>cs_pending_deliveries := remove_at index (cs_pending_deliveries st)\<rparr>
        else st\<lparr>cs_pending_deliveries := (cs_pending_deliveries st)
          [index := (cs_pending_deliveries st ! index)\<lparr>pd_amount := n\<rparr>]\<rparr>)"
    using assms by (auto simp: usage_updater_def try_bind_Inr_iff Let_def not_less split: if_splits)
  have "ledger_of st' = (ledger_of st)\<lparr>lg_pending := set_usage d (unat n) (lg_pending (ledger_of st))\<rparr>"
    using position_remove [OF pos] position_update [OF pos, of n]
    by (auto simp: st' ledger_of_def is_closed_def voucher_of_def onchain_observed_at_def)
  then show ?thesis
    using move.usage [of "ledger_of st" d _ "unat n"] position_map_of [OF pos] le
    by (simp add: word_le_nat_alt)
qed

lemma commit_move:
  assumes "commit_updater C payload c now later (Some st) = Inr (st', (n, c', status))"
    and "genuine L i (cs_authorized_signer st) (unat c) (unwrap_or (vd_expires_at (sv_data (cp_voucher payload))) 0)
      (sv_signature (cp_voucher payload))"
  shows "case status of
      Replayed \<Rightarrow> st' = st
    | Committed \<Rightarrow> moves L C i later (EvCommit (cp_delivery_id payload) (unat n)) st st'"
proof (cases status)
  case Replayed
  with assms(1) show ?thesis
    by (auto simp: commit_updater_def try_bind_Inr_iff Let_def split: if_splits option.splits)
next
  case Committed
  let ?d = "cp_delivery_id payload" and ?sig = "sv_signature (cp_voucher payload)"
    and ?e = "unwrap_or (vd_expires_at (sv_data (cp_voucher payload))) 0"
  let ?pushed = "cs_committed_deliveries st
      @ [\<lparr>cd_delivery_id = ?d, cd_amount = n, cd_cumulative = c, cd_voucher_signature = ?sig,
          cd_request_fingerprint = None, cd_settlement_response = None, cd_retain_until = 0,
          cd_cached_response = None\<rparr>]"
  obtain index spent where st: "\<not> cs_sealed st" "cs_final_cumulative st = None" "find_committed st ?d = None"
    and pos: "position (\<lambda>p. pd_delivery_id p = ?d) (cs_pending_deliveries st) = Some index"
    and above: "cs_cumulative st < c" "c \<le> cs_deposit st"
    and n: "n = c - cs_cumulative st" "n = pd_amount (cs_pending_deliveries st ! index)"
    and spent: "checked_add (cs_spent_amount st) n = Some spent"
    and st': "st' = (touched later (sc_operator C) ?e (sc_grace_period_seconds C)
        (st\<lparr>cs_pending_deliveries := remove_at index (cs_pending_deliveries st), cs_cumulative := c,
            cs_spent_amount := spent, cs_highest_voucher_signature := Some ?sig,
            cs_highest_voucher_expires_at := Some ?e\<rparr>))
        \<lparr>cs_committed_deliveries := drop (length ?pushed - MAX_COMMITTED_AUTHORIZATIONS) ?pushed\<rparr>"
    using assms(1) Committed
    by (auto simp: commit_updater_def try_bind_Inr_iff Let_def not_less not_le split: if_splits option.splits)
  have sum: "unat (cs_cumulative st) + unat n = unat c" and pos_n: "0 < unat n"
    using above(1) unat_diff [OF order.strict_implies_order [OF above(1)]]
    by (simp_all add: n(1) word_less_nat_alt)
  have "ledger_of st' = (ledger_of st)\<lparr>lg_cumulative := lg_cumulative (ledger_of st) + unat n,
      lg_spent := lg_spent (ledger_of st) + unat n, lg_voucher := Some (?sig, ?e),
      lg_pending := set_usage ?d 0 (lg_pending (ledger_of st)),
      lg_committed := (let pushed = lg_committed (ledger_of st) @ [(?d, unat n)] in
        drop (length pushed - MAX_COMMITTED_AUTHORIZATIONS) pushed)\<rparr>"
    using position_remove [OF pos] unat_checked_add [OF spent] sum
    by (simp add: st' ledger_of_def touched_def is_closed_def voucher_of_def onchain_observed_at_def
        abs_committed_def Let_def drop_map MAX_COMMITTED_AUTHORIZATIONS_def)
  moreover have "?d \<notin> fst ` set (lg_committed (ledger_of st))"
    using st(3) by (auto simp: find_committed_def find_None_iff abs_committed_def)
  ultimately show ?thesis
    using move.commit [of "ledger_of st" ?d "unat n" "genuine L i" ?e ?sig] st assms(2) sum pos_n
      position_map_of [OF pos] above(2) n(2) Committed
    by (simp add: word_le_nat_alt)
qed

lemma filter_mset_split:
  "mset (map f xs) = mset (map f (filter P xs)) + mset (map f (filter (\<lambda>x. \<not> P x) xs))"
  by (induction xs) auto

lemma final_voucher_cases:
  assumes "final_voucher L C now voucher_opt st = Inr (c, signature, expires_at)"
    and "\<And>v. voucher_opt = Some v \<Longrightarrow> vd_channel_id (sv_data v) = i"
  shows "c = cs_cumulative st \<and> signature = cs_highest_voucher_signature st
      \<and> expires_at = cs_highest_voucher_expires_at st
    \<or> voucher_opt \<noteq> None \<and> (c = cs_cumulative st \<or> cs_cumulative st < c \<and> c \<le> cs_deposit st)
      \<and> (\<exists>s e. signature = Some s \<and> expires_at = Some e \<and> genuine L i (cs_authorized_signer st) (unat c) e s)"
proof (cases voucher_opt)
  case None
  with assms(1) show ?thesis by (simp add: final_voucher_def)
next
  case (Some v)
  have verified: "genuine L i (cs_authorized_signer st) (unat n)
      (unwrap_or (vd_expires_at (sv_data v)) 0) (sv_signature v)"
    if "verify_signature L now v (cs_authorized_signer st) w = Inr u"
      "parse_u64 (vd_cumulative_amount (sv_data v)) = Some n" for w n u
    using verify_signature_genuine(2) [of L now v "cs_authorized_signer st" w n] that assms(2) [OF Some] by simp
  show ?thesis
    using assms(1) Some verified [of _ _ c]
    by (fastforce simp: final_voucher_def try_bind_Inr_iff Let_def or_else_def not_le not_less
        split: if_splits option.splits)
qed

lemma unat_le_u64_max [simp]: "unat (x :: u64) \<le> u64_max"
  using unat_lt_2p [of x] by (simp add: u64_max_def)

lemma saturating_add_le: "saturating_add a b \<le> c \<Longrightarrow> min (unat a + unat b) u64_max \<le> unat (c :: u64)"
  by (auto simp: saturating_add_def word_le_nat_alt unat_word_ariths u64_max_def unsigned_minus_1_eq_mask mask_eq_exp_minus_1
      split: if_splits)

lemma pay_owed_ledger:
  assumes "pay_owed payload now live c st = Inr st1" "add_amounts 0 (owed now st) = Some live"
  shows "\<exists>due rest. st1 = st\<lparr>cs_spent_amount := cs_spent_amount st1, cs_pending_deliveries := rest\<rparr>
      \<and> unat (cs_spent_amount st1) = unat (cs_spent_amount st) + sum_pending due
      \<and> mset (map abs_pending (cs_pending_deliveries st)) = mset due + mset (map abs_pending rest)
      \<and> sum_pending due = unat live \<and> (live > 0 \<longrightarrow> cz_voucher payload \<noteq> None
        \<and> min (unat (cs_cumulative st) + unat live) u64_max \<le> unat c)"
proof (cases "live > 0")
  case False
  then have "live = 0" by (simp add: word_gt_0)
  with assms(1) show ?thesis
    by (intro exI [of _ "[]"] exI [of _ "cs_pending_deliveries st"]) (auto simp: pay_owed_def sum_pending_def)
next
  case True
  obtain spent where spent: "checked_add (cs_spent_amount st) live = Some spent"
    and c: "saturating_add (cs_cumulative st) live \<le> c" and v: "cz_voucher payload \<noteq> None"
    and st1: "st1 = st\<lparr>cs_spent_amount := spent,
        cs_pending_deliveries := filter (\<lambda>d. \<not> owed_at_close d now) (cs_pending_deliveries st)\<rparr>"
    using assms(1) True by (auto simp: pay_owed_def try_bind_Inr_iff Let_def not_less split: if_splits)
  have sum: "sum_pending (map abs_pending (owed now st)) = unat live"
    using add_amounts_sum [OF assms(2)] by simp
  show ?thesis
    using unat_checked_add [OF spent] sum saturating_add_le [OF c] v
      filter_mset_split [of abs_pending "cs_pending_deliveries st" "\<lambda>d. owed_at_close d now"]
    by (intro exI [of _ "map abs_pending (owed now st)"]
        exI [of _ "filter (\<lambda>d. \<not> owed_at_close d now) (cs_pending_deliveries st)"])
      (simp add: st1 owed_def)
qed

lemma close_move:
  assumes "close_updater L C payload now later (Some st) = Inr st'"
    and "\<And>v. cz_voucher payload = Some v \<Longrightarrow> vd_channel_id (sv_data v) = i"
  shows "moves L C i t (EvClose (unat (cs_cumulative st'))) st st'"
proof -
  obtain live c s e st1 where st: "\<not> is_closed st" and live: "add_amounts 0 (owed (u64_as_i64 now) st) = Some live"
    and who: "check_close L payload st = Inr ()"
    and final: "final_voucher L C later (cz_voucher payload) st = Inr (c, s, e)"
    and st1: "pay_owed payload (u64_as_i64 now) live c st = Inr st1"
    and st': "st' = st1\<lparr>cs_cumulative := c, cs_highest_voucher_signature := s,
        cs_highest_voucher_expires_at := e, cs_close_requested_at := Some now, cs_final_cumulative := Some c\<rparr>"
    using assms(1)
    by (auto simp: close_updater_def try_bind_Inr_iff is_closed_def Let_def split: if_splits)
  obtain due rest where st1': "st1 = st\<lparr>cs_spent_amount := cs_spent_amount st1, cs_pending_deliveries := rest\<rparr>"
    and spent: "unat (cs_spent_amount st1) = unat (cs_spent_amount st) + sum_pending due"
    and parts: "mset (map abs_pending (cs_pending_deliveries st)) = mset due + mset (map abs_pending rest)"
    and live_due: "sum_pending due = unat live" "live > 0 \<Longrightarrow> min (unat (cs_cumulative st) + unat live) u64_max \<le> unat c"
    using pay_owed_ledger [OF st1 live] by blast
  have op: "cs_voucher_signer st \<noteq> ''operator'' \<or> cz_voucher payload = None"
    using who by (auto simp: check_close_def Let_def split: if_splits)
  note cases = final_voucher_cases [OF final assms(2)]
  have "ledger_of st' = (ledger_of st)\<lparr>lg_cumulative := unat c, lg_spent := lg_spent (ledger_of st) + sum_pending due,
      lg_voucher := both s e, lg_pending := map abs_pending rest, lg_closed := True, lg_final := Some (unat c)\<rparr>"
    using spent unfolding st'
    by (subst st1') (simp add: ledger_of_def is_closed_def voucher_of_def onchain_observed_at_def)
  moreover have "min (unat (cs_cumulative st) + sum_pending due) u64_max \<le> unat c"
    using live_due cases by (cases "live > 0") (auto simp: word_gt_0 word_less_nat_alt min_def)
  ultimately show ?thesis
    using move.close [of "ledger_of st" due "map abs_pending rest" "unat c" "both s e" "genuine L i"] st parts cases op
      unat_le_u64_max [of "cs_spent_amount st1"] spent
    by (auto simp: st' voucher_of_def word_le_nat_alt word_less_nat_alt)
qed

lemma observe_eq:
  assumes "is_closed st \<longrightarrow> is_closed st'" "cs_sealed st \<longrightarrow> cs_sealed st'"
    and "ledger_of st' = (ledger_of st)\<lparr>lg_closed := is_closed st', lg_sealed := cs_sealed st',
      lg_observed := unat (onchain_observed_at st')\<rparr>"
  shows "moves L C i t EvObserve st st'"
  unfolding assms(3) using assms(1,2) by (intro move.observe) simp_all

lemma record_observation_move:
  assumes "record_onchain_observation ob now st = (r, st')"
  shows "moves L C i t EvObserve st st'"
  using assms
  by (intro observe_eq)
    (auto simp: record_onchain_observation_def Let_def apply_fences_def request_close_def renew_snapshot_def
      ledger_of_def is_closed_def voucher_of_def
      split: option.splits observed_lifecycle.splits if_splits)

lemma snapshot_move:
  assumes "snapshot_mutator C now lifecycle settled slot st = (r, st')"
  shows "moves L C i t EvObserve st st'"
proof -
  let ?ob = "\<lparr>ob_slot = Some slot, ob_lifecycle = lifecycle\<rparr>"
    and ?st = "st\<lparr>cs_settled_on_chain := max (cs_settled_on_chain st) settled\<rparr>"
  obtain r1 st1 where st1: "record_onchain_observation ?ob now ?st = (r1, st1)" by force
  have same: "ledger_of ?st = ledger_of st"
    by (simp add: ledger_of_def is_closed_def voucher_of_def onchain_observed_at_def)
  have "ledger_of st' = ledger_of st1"
    using assms unfolding snapshot_mutator_def st1
    by (auto simp: ledger_of_def is_closed_def voucher_of_def onchain_observed_at_def
        split: observation_outcome.splits if_splits)
  with record_observation_move [OF st1, where L = L and C = C and i = i and t = t] same show ?thesis by simp
qed

lemma seal_move: "moves L C i t EvObserve st (st\<lparr>cs_sealed := True\<rparr>)"
  by (rule observe_eq) (simp_all add: ledger_of_def is_closed_def voucher_of_def onchain_observed_at_def)

lemma settled_ledger: "settled_mutator n st = (r, st') \<Longrightarrow> ledger_of st' = ledger_of st"
  by (auto simp: settled_mutator_def ledger_of_def is_closed_def voucher_of_def onchain_observed_at_def)

lemma sealed_at_ledger: "sealed_at_mutator n st = (r, st') \<Longrightarrow> ledger_of st' = ledger_of st"
  by (auto simp: sealed_at_mutator_def ledger_of_def is_closed_def voucher_of_def onchain_observed_at_def
      SEALED_AT_KEY_def ONCHAIN_OBSERVED_AT_KEY_def split: option.splits)

end
