(* ===== verification/Session_Safety.thy ===== *)
theory Session_Safety
  imports Session_Ledger
begin

text \<open>
  Any number of session requests, interleaved step by step under an arbitrary schedule, with
  store calls that may fail or lose their reply.  Every step is a move of the channel's ledger,
  and what the requests are told holds of the ledger they leave behind.
\<close>

section \<open>What a request may do\<close>

definition names_amount :: "signed_voucher \<Rightarrow> nat \<Rightarrow> bool" where
  "names_amount v c \<longleftrightarrow> (\<exists>w. parse_u64 (vd_cumulative_amount (sv_data v)) = Some w \<and> c = unat w)"

definition voucher_event :: "voucher_payload \<Rightarrow> u64 \<Rightarrow> string \<Rightarrow> event \<Rightarrow> bool" where
  "voucher_event p price i e \<longleftrightarrow> i = vd_channel_id (sv_data (vpl_voucher p))
     \<and> (e = EvObserve \<or> (\<exists>c. names_amount (vpl_voucher p) c \<and> e = EvVoucher c (unat price)))"

fun may :: "session_server \<Rightarrow> request \<Rightarrow> string \<Rightarrow> event \<Rightarrow> bool" where
  "may C (ReqVoucher p) i e = voucher_event p (sc_amount C) i e"
| "may C (ReqVoucherGuard p g) i e = voucher_event p (sc_amount C) i e"
| "may C (ReqVoucherAmount p a) i e = voucher_event p a i e"
| "may C (ReqUse p ch k) i e =
     (i = up_channel_id p \<and> (e = EvObserve \<or> e = EvCharge k ch (unat (sc_amount C))))"
| "may C (ReqAuthenticate p ch k) i e = (i = up_channel_id p \<and> e = EvObserve)"
| "may C (ReqCharge u s n g) i e =
     (i = au_channel_id u
      \<and> (e = EvObserve \<or> e = EvCharge (au_idempotency_key u) (au_challenge_id u) (unat n)))"
| "may C (ReqTopUp p) i e = (i = tp_channel_id p \<and> (\<exists>tx n. e = EvTopUp tx n))"
| "may C (ReqBegin r) i e =
     (i = dr_session_id r \<and> (e = EvObserve \<or> (\<exists>d. e = EvReserve d (unat (dr_amount r)))))"
| "may C (ReqUsage j d n) i e = (i = j \<and> e = EvUsage d (unat n))"
| "may C (ReqCommit p) i e =
     (i = vd_channel_id (sv_data (cp_voucher p)) \<and> (\<exists>n. e = EvCommit (cp_delivery_id p) n))"
| "may C (ReqClose p) i e = (i = cz_channel_id p \<and> (\<exists>c. e = EvClose c))"
| "may C (ReqSealParams j) i e = False"
| "may C (ReqMarkSealed j) i e = (i = j \<and> e = EvObserve)"

type_synonym scope = "string \<Rightarrow> event \<Rightarrow> bool"

definition scope_of :: "session_server \<Rightarrow> request list \<Rightarrow> scope" where
  "scope_of C rs i e \<longleftrightarrow> (\<exists>r \<in> set rs. may C r i e)"

definition one_move :: "'key session_lib \<Rightarrow> session_server \<Rightarrow> scope \<Rightarrow> string
    \<Rightarrow> ledger \<Rightarrow> ledger \<Rightarrow> bool" where
  "one_move L C A i l l' \<longleftrightarrow>
     (\<exists>now e. A i e \<and> move (unat (snapshot_max_age C)) (genuine L i) now e l l')"

definition reaches :: "'key session_lib \<Rightarrow> session_server \<Rightarrow> scope \<Rightarrow> string
    \<Rightarrow> ledger \<Rightarrow> ledger \<Rightarrow> bool" where
  "reaches L C A i l l' \<longleftrightarrow> rtranclp (one_move L C A i) l l'"

definition session_rely :: "'key session_lib \<Rightarrow> session_server \<Rightarrow> scope
    \<Rightarrow> channels \<Rightarrow> channels \<Rightarrow> bool" where
  "session_rely L C A s s' \<longleftrightarrow>
     (\<forall>i. rel_option (\<lambda>st st'. reaches L C A i (ledger_of st) (ledger_of st')) (s i) (s' i))"

definition session_guar :: "'key session_lib \<Rightarrow> session_server \<Rightarrow> scope
    \<Rightarrow> moment \<Rightarrow> channels \<Rightarrow> channels \<Rightarrow> bool" where
  "session_guar L C A t s s' \<longleftrightarrow>
     (\<forall>i. rel_option (\<lambda>st st'. ledger_of st' = ledger_of st
         \<or> (\<exists>e. A i e \<and> moves L C i (mo_now t) e st st')) (s i) (s' i))"

section \<open>Lemmas: the relations\<close>

lemma reaches_refl [simp]: "reaches L C A i l l"
  by (simp add: reaches_def)

lemma reaches_trans: "reaches L C A i l1 l2 \<Longrightarrow> reaches L C A i l2 l3 \<Longrightarrow> reaches L C A i l1 l3"
  by (auto simp: reaches_def)

lemma reaches_step:
  "A i e \<Longrightarrow> move (unat (snapshot_max_age C)) (genuine L i) now e l l' \<Longrightarrow> reaches L C A i l l'"
  unfolding reaches_def by (rule r_into_rtranclp) (auto simp: one_move_def)

lemma reaches_keeps:
  assumes "reaches L C A i l l'" "P l"
    and "\<And>l l' now e. A i e \<Longrightarrow> move (unat (snapshot_max_age C)) (genuine L i) now e l l' \<Longrightarrow> P l \<Longrightarrow> P l'"
  shows "P l'"
  using assms(1) unfolding reaches_def
  by (induction rule: rtranclp_induct) (use assms(2,3) in \<open>auto simp: one_move_def\<close>)

lemma reaches_fixed:
  assumes "reaches L C A i l l'"
  shows "lg_signer l' = lg_signer l" "lg_operator l' = lg_operator l" "lg_deposit l \<le> lg_deposit l'"
    "lg_cumulative l \<le> lg_cumulative l'"
proof -
  have "lg_signer l' = lg_signer l \<and> lg_operator l' = lg_operator l \<and> lg_deposit l \<le> lg_deposit l'
      \<and> lg_cumulative l \<le> lg_cumulative l'"
    using assms
  proof (rule reaches_keeps)
    fix l1 l2 now e
    assume "move (unat (snapshot_max_age C)) (genuine L i) now e l1 l2"
      and "lg_signer l1 = lg_signer l \<and> lg_operator l1 = lg_operator l \<and> lg_deposit l \<le> lg_deposit l1
        \<and> lg_cumulative l \<le> lg_cumulative l1"
    then show "lg_signer l2 = lg_signer l \<and> lg_operator l2 = lg_operator l \<and> lg_deposit l \<le> lg_deposit l2
        \<and> lg_cumulative l \<le> lg_cumulative l2"
      by cases (auto simp: min_def split: if_splits)
  qed simp
  then show "lg_signer l' = lg_signer l" "lg_operator l' = lg_operator l" "lg_deposit l \<le> lg_deposit l'"
    "lg_cumulative l \<le> lg_cumulative l'" by simp_all
qed

lemma guar_session_rely: "session_guar L C A t s s' \<Longrightarrow> session_rely L C A s s'"
  unfolding session_guar_def session_rely_def
proof (intro allI)
  fix i
  assume "\<forall>i. rel_option (\<lambda>st st'. ledger_of st' = ledger_of st
      \<or> (\<exists>e. A i e \<and> moves L C i (mo_now t) e st st')) (s i) (s' i)"
  then show "rel_option (\<lambda>st st'. reaches L C A i (ledger_of st) (ledger_of st')) (s i) (s' i)"
    by (elim allE [of _ i] option.rel_mono_strong) (auto intro: reaches_step)
qed

interpretation session: step_order "session_rely L C A" "session_guar L C A" for L C A
proof
  show "session_rely L C A s s" for s
    by (simp add: session_rely_def option.rel_refl)
  show "session_guar L C A t s s" for t s
    by (simp add: session_guar_def option.rel_refl)
  show "session_rely L C A s1 s3" if "session_rely L C A s1 s2" "session_rely L C A s2 s3" for s1 s2 s3
    unfolding session_rely_def
  proof
    fix i
    have "rel_option (\<lambda>st st'. reaches L C A i (ledger_of st) (ledger_of st')) (s1 i) (s2 i)"
        "rel_option (\<lambda>st st'. reaches L C A i (ledger_of st) (ledger_of st')) (s2 i) (s3 i)"
      using that by (simp_all add: session_rely_def)
    then show "rel_option (\<lambda>st st'. reaches L C A i (ledger_of st) (ledger_of st')) (s1 i) (s3 i)"
      by (cases "s1 i"; cases "s2 i"; cases "s3 i") (auto intro: reaches_trans)
  qed
qed (rule guar_session_rely)

lemma rely_Some:
  assumes "session_rely L C A s s'" "s i = Some st"
  obtains st' where "s' i = Some st'" "reaches L C A i (ledger_of st) (ledger_of st')"
  using assms unfolding session_rely_def by (metis option_rel_Some1)

lemma guar_upd:
  assumes "s i = Some st" "ledger_of st' = ledger_of st \<or> (\<exists>e. A i e \<and> moves L C i (mo_now t) e st st')"
  shows "session_guar L C A t s (s(i \<mapsto> st'))"
  using assms by (auto simp: session_guar_def option.rel_refl)

abbreviation keeps :: "'key session_lib \<Rightarrow> session_server \<Rightarrow> scope
    \<Rightarrow> ('r \<Rightarrow> channels \<Rightarrow> bool) \<Rightarrow> 'r act \<Rightarrow> channels \<Rightarrow> bool" where
  "keeps L C A \<equiv> sat (session_rely L C A) (session_guar L C A)"

section \<open>Lemmas: the calls of the store\<close>

lemma keeps_on_store:
  assumes "\<And>s' t r s''. session_rely L C A s s' \<Longrightarrow> op t s' = (r, s'') \<Longrightarrow> session_guar L C A t s' s''"
    and "\<And>s' t x s'' s3. session_rely L C A s s' \<Longrightarrow> op t s' = (Inr x, s'') \<Longrightarrow> session_rely L C A s'' s3
      \<Longrightarrow> Q (Inr x) s3"
    and "\<And>e s'. session_rely L C A s s' \<Longrightarrow> Q (Inl e) s'"
  shows "keeps L C A Q (on_store op) s"
  unfolding on_store_def
proof (rule session.sat_bind)
  show "keeps L C A (\<lambda>r s'. \<forall>s3. session_rely L C A s' s3 \<longrightarrow> Q (Pk_Prelude.map_err session_store_err r) s3) (access op) s"
    unfolding access_def
    using assms(2,3) by (intro session.sat_access assms(1)) (auto dest: session.rely_trans)
qed (auto intro!: sat.sat_Ret)

text \<open>A closure that makes a move of the ledger whenever the record it finds satisfies \<open>P\<close>.\<close>

definition lawful :: "'key session_lib \<Rightarrow> session_server \<Rightarrow> scope \<Rightarrow> string
    \<Rightarrow> (channel_state \<Rightarrow> bool) \<Rightarrow> (moment \<Rightarrow> channel_state option \<Rightarrow> 'e + channel_state \<times> 'x) \<Rightarrow> bool" where
  "lawful L C A i P u \<longleftrightarrow>
     (\<forall>t. \<exists>e. u t None = Inl e)
     \<and> (\<forall>t st st' x. P st \<longrightarrow> u t (Some st) = Inr (st', x) \<longrightarrow>
          ledger_of st' = ledger_of st \<or> (\<exists>e. A i e \<and> moves L C i (mo_now t) e st st'))"

lemma lawfulI:
  assumes "\<And>t. \<exists>e. u t None = Inl e"
    and "\<And>t st st' x. P st \<Longrightarrow> u t (Some st) = Inr (st', x) \<Longrightarrow>
      ledger_of st' = ledger_of st \<or> (\<exists>e. A i e \<and> moves L C i (mo_now t) e st st')"
  shows "lawful L C A i P u"
  using assms unfolding lawful_def by blast

lemma update_with_lawful:
  assumes "lawful L C A i P u" "\<And>st. s i = Some st \<Longrightarrow> P st" "update_with i (u t) s = (r, s')"
  shows "session_guar L C A t s s' \<and> (\<forall>y. r = Inr y \<longrightarrow>
    (\<exists>st st' x. s i = Some st \<and> u t (Some st) = Inr (st', x) \<and> y = (st', x) \<and> s' = s(i \<mapsto> st')))"
proof (cases "u t (s i)")
  case (Inl e)
  with assms(3) show ?thesis by (auto simp: update_with_def)
next
  case (Inr z)
  then obtain st where st: "s i = Some st"
    using assms(1) by (cases "s i") (auto simp: lawful_def, metis Inl_Inr_False)
  obtain st' x where z: "z = (st', x)" by force
  have r: "r = Inr (st', x)" "s' = s(i \<mapsto> st')"
    using Inr st z assms(3) by (auto simp: update_with_def)
  have "ledger_of st' = ledger_of st \<or> (\<exists>e. A i e \<and> moves L C i (mo_now t) e st st')"
    using assms(1) assms(2) [OF st] Inr st z by (auto simp: lawful_def)
  with guar_upd [where s = s and i = i and st = st and st' = st' and L = L and C = C and A = A and t = t] r st Inr z
  show ?thesis by auto
qed

text \<open>The bound store runs a closure or refuses, so it makes no move the closure does not make.\<close>

lemma guarded_Inr:
  assumes "guarded L C wrap u st = Inr y"
  shows "u st = Inr y"
  using assms by (auto simp: guarded_def try_bind_Inr_iff split: prod.splits)

lemma lawful_guarded: "lawful L C A i P u \<Longrightarrow> lawful L C A i P (\<lambda>t. guarded L C wrap (u t))"
  unfolding lawful_def
  by (metis guarded_Inr old.sum.exhaust sum.distinct(1))

lemma bound_with_lawful:
  assumes "lawful L C A i P u" "\<And>st. s i = Some st \<Longrightarrow> P st" "bound_with L C wrap i (u t) s = (r, s')"
  shows "session_guar L C A t s s' \<and> (\<forall>y. r = Inr y \<longrightarrow>
    (\<exists>st st' x. s i = Some st \<and> u t (Some st) = Inr (st', x) \<and> y = (st', x) \<and> s' = s(i \<mapsto> st')))"
  using update_with_lawful [OF lawful_guarded [OF assms(1)] assms(2) assms(3) [unfolded bound_with_def]]
  by (blast dest: guarded_Inr)

lemma bound_update_lawful:
  assumes "lawful L C A i (\<lambda>_. True) (\<lambda>t. with_unit (u t))" "bound_update L C i (u t) s = (r, s')"
  shows "session_guar L C A t s s' \<and> (\<forall>st'. r = Inr st' \<longrightarrow>
    (\<exists>st. s i = Some st \<and> u t (Some st) = Inr st' \<and> s' = s(i \<mapsto> st')))"
proof -
  obtain r1 where r1: "bound_with L C id i (with_unit (u t)) s = (r1, s')" "r = map_sum id fst r1"
    using assms(2) by (cases "bound_with L C id i (with_unit (u t)) s") (auto simp: bound_update_def)
  show ?thesis
    using bound_with_lawful [OF assms(1) _ r1(1)] r1(2) by (cases r1) auto
qed

lemma keeps_update:
  assumes "lawful L C A i P u" "\<And>s' st. session_rely L C A s s' \<Longrightarrow> s' i = Some st \<Longrightarrow> P st"
    and "\<And>s' t st st' x s3. session_rely L C A s (s'(i \<mapsto> st')) \<Longrightarrow> s' i = Some st \<Longrightarrow> u t (Some st) = Inr (st', x) \<Longrightarrow>
      session_rely L C A (s'(i \<mapsto> st')) s3 \<Longrightarrow> Q (Inr (st', x)) s3"
    and "\<And>e s'. session_rely L C A s s' \<Longrightarrow> Q (Inl e) s'"
  shows "keeps L C A Q (access_err wrap (\<lambda>t. bound_with L C wrap' i (u t))) s"
proof (rule session.sat_access)
  fix s' t r s''
  assume r: "session_rely L C A s s'" "bound_with L C wrap' i (u t) s' = (r, s'')"
  show "session_guar L C A t s' s''"
    using bound_with_lawful [OF assms(1) assms(2) [OF r(1)] r(2)] by blast
next
  fix s' t y s'' s3
  assume r: "session_rely L C A s s'" "bound_with L C wrap' i (u t) s' = (Inr y, s'')" "session_rely L C A s'' s3"
  show "Q (Inr y) s3"
    using bound_with_lawful [OF assms(1) assms(2) [OF r(1)] r(2)] assms(3) r(3)
      session.rely_trans [OF r(1) session.guar_rely] by blast
qed (rule assms(4))

lemma keeps_store_update:
  assumes "lawful L C A i P u" "\<And>s' st. session_rely L C A s s' \<Longrightarrow> s' i = Some st \<Longrightarrow> P st"
    and "\<And>s' t st st' x s3. session_rely L C A s (s'(i \<mapsto> st')) \<Longrightarrow> s' i = Some st \<Longrightarrow> u t (Some st) = Inr (st', x) \<Longrightarrow>
      session_rely L C A (s'(i \<mapsto> st')) s3 \<Longrightarrow> Q (Inr (st', x)) s3"
    and "\<And>e s'. session_rely L C A s s' \<Longrightarrow> Q (Inl e) s'"
  shows "keeps L C A Q (on_store (\<lambda>t. bound_with L C id i (u t))) s"
proof (rule keeps_on_store)
  fix s' t r s''
  assume r: "session_rely L C A s s'" "bound_with L C id i (u t) s' = (r, s'')"
  show "session_guar L C A t s' s''"
    using bound_with_lawful [OF assms(1) assms(2) [OF r(1)] r(2)] by blast
next
  fix s' t y s'' s3
  assume r: "session_rely L C A s s'" "bound_with L C id i (u t) s' = (Inr y, s'')" "session_rely L C A s'' s3"
  show "Q (Inr y) s3"
    using bound_with_lawful [OF assms(1) assms(2) [OF r(1)] r(2)] assms(3) r(3)
      session.rely_trans [OF r(1) session.guar_rely] by blast
qed (rule assms(4))

lemma keeps_update_channel:
  assumes "lawful L C A i (\<lambda>_. True) (\<lambda>t. with_unit (u t))"
    and "\<And>s' t st st' s3. session_rely L C A s (s'(i \<mapsto> st')) \<Longrightarrow> s' i = Some st \<Longrightarrow> u t (Some st) = Inr st' \<Longrightarrow>
      session_rely L C A (s'(i \<mapsto> st')) s3 \<Longrightarrow> Q (Inr st') s3"
    and "\<And>e s'. session_rely L C A s s' \<Longrightarrow> Q (Inl e) s'"
  shows "keeps L C A Q (on_store (\<lambda>t. bound_update L C i (u t))) s"
proof (rule keeps_on_store)
  fix s' t r s''
  assume r: "session_rely L C A s s'" "bound_update L C i (u t) s' = (r, s'')"
  show "session_guar L C A t s' s''"
    using bound_update_lawful [OF assms(1) r(2)] by blast
next
  fix s' t st' s'' s3
  assume r: "session_rely L C A s s'" "bound_update L C i (u t) s' = (Inr st', s'')" "session_rely L C A s'' s3"
  show "Q (Inr st') s3"
    using bound_update_lawful [OF assms(1) r(2)] assms(2) r(3) session.rely_trans [OF r(1) session.guar_rely] by blast
qed (rule assms(3))

lemma keeps_mutate:
  assumes "\<And>t st st'. m t st = (Inr (), st') \<Longrightarrow>
      ledger_of st' = ledger_of st \<or> (\<exists>e. A i e \<and> moves L C i (mo_now t) e st st')"
    and "\<And>r s'. session_rely L C A s s' \<Longrightarrow> Q r s'"
  shows "keeps L C A Q (on_store (\<lambda>t. bound_mutate L C i None (m t))) s"
proof -
  have "lawful L C A i (\<lambda>_. True) (\<lambda>t. with_unit (mutating None (m t)))"
    using assms(1)
    by (intro lawfulI) (simp_all add: with_unit_def mutating_def or_option_def, force simp: try_bind_def split: prod.splits sum.splits)
  note lawful = bound_update_lawful [OF this]
  have guar: "session_guar L C A t s' s''" if eq: "bound_mutate L C i None (m t) s' = (r, s'')" for s' s'' t r
  proof -
    obtain r1 where "bound_update L C i (mutating None (m t)) s' = (r1, s'')"
      using eq by (cases "bound_update L C i (mutating None (m t)) s'") (auto simp: bound_mutate_def)
    from lawful [OF this] show ?thesis ..
  qed
  show ?thesis
  proof (rule keeps_on_store)
    show "Q (Inr x) s3" if "session_rely L C A s s'" "bound_mutate L C i None (m t) s' = (Inr x, s'')"
        "session_rely L C A s'' s3" for s' t x s'' s3
      using that guar assms(2) session.rely_trans session.guar_rely by metis
  qed (use guar assms(2) in auto)
qed

lemma bound_get_result:
  "bound_get L C i s = (r, s') \<Longrightarrow> s' = s \<and> (\<forall>found. r = Inr found \<longrightarrow> found = s i)"
  by (auto simp: bound_get_def get_channel_def try_bind_Inr_iff split: prod.splits sum.splits option.splits)

lemma keeps_require:
  assumes "\<And>e s'. session_rely L C A s s' \<Longrightarrow> Q (Inl e) s'"
    and "\<And>s' st s3. session_rely L C A s s' \<Longrightarrow> s' i = Some st \<Longrightarrow> session_rely L C A s' s3 \<Longrightarrow> Q (Inr st) s3"
  shows "keeps L C A Q (require_channel L C i) s"
  unfolding require_channel_def
proof (rule session.sat_try [where Q = "\<lambda>r s3. \<forall>found. r = Inr found \<longrightarrow>
    (\<exists>s'. session_rely L C A s s' \<and> s' i = found \<and> session_rely L C A s' s3)"])
  show "keeps L C A (\<lambda>r s3. \<forall>found. r = Inr found \<longrightarrow>
      (\<exists>s'. session_rely L C A s s' \<and> s' i = found \<and> session_rely L C A s' s3)) (fetch_channel L C i) s"
    unfolding fetch_channel_def by (rule keeps_on_store) (auto dest: bound_get_result)
  show "keeps L C A Q (Ret (ok_or a (channel_missing i))) s1"
    if prem: "session_rely L C A s s1" "\<forall>found. Inr a = Inr found \<longrightarrow>
      (\<exists>s'. session_rely L C A s s' \<and> s' i = found \<and> session_rely L C A s' s1)" for a s1
  proof (rule sat.sat_Ret)
    fix s2
    assume s2: "session_rely L C A s1 s2"
    obtain s' where s': "session_rely L C A s s'" "s' i = a" "session_rely L C A s' s1"
      using prem(2) by blast
    show "Q (ok_or a (channel_missing i)) s2"
      using assms(1) [OF session.rely_trans [OF prem(1) s2]]
        assms(2) [OF s'(1) _ session.rely_trans [OF s'(3) s2]] s'(2)
      by (cases a) simp_all
  qed
qed (rule assms(1))

text \<open>A handler of which only the moves matter.\<close>

definition quiet :: "'key session_lib \<Rightarrow> session_server \<Rightarrow> scope \<Rightarrow> 'r act \<Rightarrow> bool" where
  "quiet L C A p \<longleftrightarrow> (\<forall>s. keeps L C A (\<lambda>_ _. True) p s)"

named_theorems quiet_intros

lemma quiet_Ret [quiet_intros]: "quiet L C A (Ret r)"
  by (auto simp: quiet_def intro: sat.sat_Ret)

lemma quiet_bind [quiet_intros]: "quiet L C A p \<Longrightarrow> (\<And>r. quiet L C A (k r)) \<Longrightarrow> quiet L C A (bind_act p k)"
  unfolding quiet_def by (blast intro: session.sat_bind)

lemma quiet_try [quiet_intros]: "quiet L C A p \<Longrightarrow> (\<And>a. quiet L C A (k a)) \<Longrightarrow> quiet L C A (try_act p k)"
  unfolding quiet_def by (blast intro: session.sat_try)

lemma quiet_attempt [quiet_intros]: "(\<And>a. r = Inr a \<Longrightarrow> quiet L C A (k a)) \<Longrightarrow> quiet L C A (attempt r k)"
  by (cases r) (auto intro: quiet_Ret)

lemma quiet_if [quiet_intros]: "(b \<Longrightarrow> quiet L C A p) \<Longrightarrow> (\<not> b \<Longrightarrow> quiet L C A q) \<Longrightarrow> quiet L C A (if b then p else q)"
  by simp

lemma quiet_local [quiet_intros]:
  "quiet L C A clock" "quiet L C A read_account" "quiet L C A submit_transaction"
  by (auto simp: quiet_def intro: session.sat_clock session.sat_read_account session.sat_submit)

lemma quiet_require [quiet_intros]: "quiet L C A (require_channel L C i)"
  by (auto simp: quiet_def intro: keeps_require)

lemma quiet_fetch [quiet_intros]: "quiet L C A (fetch_channel L C i)"
  by (auto simp: quiet_def fetch_channel_def dest: bound_get_result intro!: keeps_on_store)

section \<open>Lemmas: the handlers\<close>

lemma quiet_mutate:
  assumes "\<And>t st st'. m t st = (Inr (), st') \<Longrightarrow>
      ledger_of st' = ledger_of st \<or> (\<exists>e. A i e \<and> moves L C i (mo_now t) e st st')"
  shows "quiet L C A (on_store (\<lambda>t. bound_mutate L C i None (m t)))"
  unfolding quiet_def by (intro allI keeps_mutate TrueI) (rule assms)

lemma quiet_update:
  assumes "lawful L C A i (\<lambda>_. True) u"
  shows "quiet L C A (on_store (\<lambda>t. bound_with L C id i (u t)))"
  unfolding quiet_def by (auto intro: keeps_store_update [OF assms])

lemma quiet_update_channel:
  assumes "lawful L C A i (\<lambda>_. True) (\<lambda>t. with_unit (u t))"
  shows "quiet L C A (on_store (\<lambda>t. bound_update L C i (u t)))"
  unfolding quiet_def by (auto intro: keeps_update_channel [OF assms])

lemma quiet_lifecycle [quiet_intros]: "quiet L C A (read_channel_lifecycle L' C' i now)"
  unfolding read_channel_lifecycle_def Let_def
  by (auto intro!: quiet_intros split: option.split prod.split)

lemma quiet_refresh:
  assumes "A i EvObserve"
  shows "quiet L C A (refresh_channel_snapshot L C i)"
  unfolding refresh_channel_snapshot_def Let_def
  using assms snapshot_move
  by (auto intro!: quiet_intros quiet_mutate split: prod.split) blast

lemma quiet_topup:
  assumes "\<And>tx n. A (tp_channel_id p) (EvTopUp tx n)"
  shows "quiet L C A (process_topup_with_outcome L C p)"
proof -
  have "lawful L C A (tp_channel_id p) (\<lambda>_. True) (\<lambda>t. topup_updater C (tp_channel_id p) n tx (mo_now t))" for n tx
  proof (rule lawfulI)
    show "ledger_of st' = ledger_of st \<or> (\<exists>e. A (tp_channel_id p) e \<and> moves L C (tp_channel_id p) (mo_now t) e st st')"
      if "topup_updater C (tp_channel_id p) n tx (mo_now t) (Some st) = Inr (st', x)" for t st st' x
      using topup_move [OF that, where L = L] assms by (cases x) auto
  qed (simp add: topup_updater_def)
  then show ?thesis
    unfolding process_topup_with_outcome_def topup_channel_def
    by (auto intro!: quiet_intros quiet_update split: prod.split)
qed

lemma quiet_begin:
  assumes "A (dr_session_id r) EvObserve" "\<And>d. A (dr_session_id r) (EvReserve d (unat (dr_amount r)))"
  shows "quiet L C A (begin_delivery L C r)"
proof -
  have "lawful L C A (dr_session_id r) (\<lambda>_. True) (\<lambda>t. begin_updater C r currency (mo_now t))"
    if pos: "dr_amount r \<noteq> 0" for currency
  proof (rule lawfulI)
    show "ledger_of st' = ledger_of st \<or> (\<exists>e. A (dr_session_id r) e \<and> moves L C (dr_session_id r) (mo_now t) e st st')"
      if u: "begin_updater C r currency (mo_now t) (Some st) = Inr (st', x)" for t st st' x
      using begin_move [OF u pos, where L = L and i = "dr_session_id r"] assms(2) by blast
  qed (simp add: begin_updater_def)
  then show ?thesis
    unfolding begin_delivery_def using assms(1)
    by (auto intro!: quiet_intros quiet_update quiet_refresh split: prod.split)
qed

lemma quiet_usage:
  assumes "A i (EvUsage d (unat n))"
  shows "quiet L C A (record_delivery_usage L C i d n)"
proof -
  have "lawful L C A i (\<lambda>_. True) (\<lambda>t. with_unit (usage_updater d n))"
  proof (rule lawfulI)
    show "ledger_of st' = ledger_of st \<or> (\<exists>e. A i e \<and> moves L C i (mo_now t) e st st')"
      if "with_unit (usage_updater d n) (Some st) = Inr (st', x)" for t st st' x
      using usage_move [where d = d and n = n and st = st and st' = st' and L = L and C = C and i = i and now = "mo_now t"]
        that assms by auto
  qed (simp add: with_unit_def usage_updater_def)
  then show ?thesis
    unfolding record_delivery_usage_def by (auto intro!: quiet_intros quiet_update_channel)
qed

lemma quiet_mark_sealed:
  assumes "A i EvObserve"
  shows "quiet L C A (session_mark_sealed L C i)"
proof -
  have "quiet L C A (on_store (\<lambda>t. bound_mark_sealed L C i))"
    unfolding bound_mark_sealed_def using assms seal_move [where L = L and C = C and i = i]
    by (intro quiet_mutate) auto
  moreover have "quiet L C A (on_store (\<lambda>t. bound_mutate L C i None (sealed_at_mutator now)))" for now
    by (rule quiet_mutate) (use sealed_at_ledger in blast)
  ultimately show ?thesis
    unfolding session_mark_sealed_def by (auto intro!: quiet_intros)
qed

text \<open>What a snapshot says of every later record.\<close>

lemma rely_later:
  assumes "session_rely L C A s s'" "s i = Some st" "s' i = Some st'"
  shows "cs_authorized_signer st' = cs_authorized_signer st"
    "cs_voucher_signer st' = ''operator'' \<longleftrightarrow> cs_voucher_signer st = ''operator''"
    "cs_deposit st \<le> cs_deposit st'" "reaches L C A i (ledger_of st) (ledger_of st')"
proof -
  have r: "reaches L C A i (ledger_of st) (ledger_of st')"
    using assms by (metis option.inject rely_Some)
  with reaches_fixed [OF r] show "cs_authorized_signer st' = cs_authorized_signer st"
    "cs_voucher_signer st' = ''operator'' \<longleftrightarrow> cs_voucher_signer st = ''operator''"
    "cs_deposit st \<le> cs_deposit st'" "reaches L C A i (ledger_of st) (ledger_of st')"
    by (simp_all add: word_le_nat_alt)
qed

lemma keeps_get:
  "keeps L C A (\<lambda>r s3. \<forall>found. r = Inr found \<longrightarrow>
    (\<exists>s'. session_rely L C A s s' \<and> s' i = found \<and> session_rely L C A s' s3)) (access (\<lambda>t. bound_get L C i)) s"
  unfolding access_def by (rule session.sat_access) (auto dest: bound_get_result)

lemma voucher_lawful:
  assumes "A (vq_channel_id q) (EvVoucher (unat (vq_cumulative q)) (unat (vq_required_availability q)))"
  shows "lawful L C A (vq_channel_id q)
    (\<lambda>st. cs_voucher_signer st \<noteq> ''operator'' \<and> vq_cumulative q \<le> cs_deposit st
      \<and> genuine L (vq_channel_id q) (cs_authorized_signer st) (unat (vq_cumulative q)) (vq_expires_at q) (vq_signature q))
    (\<lambda>t. voucher_updater q (debit_commit C (vq_required_availability q) allow_replay guard (vq_expires_at q) (mo_now t)))"
proof (rule lawfulI)
  fix t st st' x
  assume "cs_voucher_signer st \<noteq> ''operator'' \<and> vq_cumulative q \<le> cs_deposit st
      \<and> genuine L (vq_channel_id q) (cs_authorized_signer st) (unat (vq_cumulative q)) (vq_expires_at q) (vq_signature q)"
    and "voucher_updater q (debit_commit C (vq_required_availability q) allow_replay guard (vq_expires_at q) (mo_now t))
      (Some st) = Inr (st', x)"
  then show "ledger_of st' = ledger_of st
      \<or> (\<exists>e. A (vq_channel_id q) e \<and> moves L C (vq_channel_id q) (mo_now t) e st st')"
    using voucher_move [where L = L and i = "vq_channel_id q" and price = "vq_required_availability q"] assms
    by (cases x) fastforce+
qed simp

lemma keeps_accept:
  assumes "A (vq_channel_id q) (EvVoucher (unat (vq_cumulative q)) (unat (vq_required_availability q)))"
    and "\<And>s' st. session_rely L C A s s' \<Longrightarrow> s' (vq_channel_id q) = Some st \<Longrightarrow> cs_voucher_signer st \<noteq> ''operator''"
  shows "keeps L C A (\<lambda>_ _. True)
    (accept_steps L C q (debit_commit C (vq_required_availability q) allow_replay guard (vq_expires_at q))) s"
  unfolding accept_steps_def
proof (rule session.sat_bind [OF keeps_get], intro session.sat_attempt TrueI)
  fix r s1 found st u
  assume s1: "session_rely L C A s s1"
    and r: "\<forall>found. r = Inr found \<longrightarrow> (\<exists>s'. session_rely L C A s s' \<and> s' (vq_channel_id q) = found \<and> session_rely L C A s' s1)"
    and found: "Pk_Prelude.map_err (mpp_of_core \<circ> store_err) r = Inr found" "ok_or found (channel_missing (vq_channel_id q)) = Inr st"
    and pre: "Pk_Prelude.map_err mpp_of_core (voucher_precheck (sl_crypto L) (sl_batch L) q st) = Inr u"
  obtain s' where s': "s' (vq_channel_id q) = Some st" "session_rely L C A s' s1"
    using r found by auto
  have "voucher_precheck (sl_crypto L) (sl_batch L) q st = Inr ()"
    using pre by simp
  then have ok: "vq_cumulative q \<le> cs_deposit st"
      "genuine L (vq_channel_id q) (cs_authorized_signer st) (unat (vq_cumulative q)) (vq_expires_at q) (vq_signature q)"
    using verify_request_genuine by (auto simp: voucher_precheck_ok)
  have later: "cs_voucher_signer st' \<noteq> ''operator'' \<and> vq_cumulative q \<le> cs_deposit st'
      \<and> genuine L (vq_channel_id q) (cs_authorized_signer st') (unat (vq_cumulative q)) (vq_expires_at q) (vq_signature q)"
    if "session_rely L C A s1 s2" "s2 (vq_channel_id q) = Some st'" for s2 st'
    using rely_later [OF session.rely_trans [OF s'(2) that(1)] s'(1) that(2)] ok
      assms(2) [OF session.rely_trans [OF s1 that(1)] that(2)] by (auto intro: order.trans)
  have "keeps L C A (\<lambda>_ _. True) (access (\<lambda>t. bound_with L C id (vq_channel_id q)
      (voucher_updater q (debit_commit C (vq_required_availability q) allow_replay guard (vq_expires_at q) (mo_now t))))) s1"
    unfolding access_def
    by (rule keeps_update [OF voucher_lawful [where A = A and q = q, OF assms(1)]]) (erule (1) later, simp_all)
  then show "keeps L C A (\<lambda>_ _. True)
     (bind_act (access (\<lambda>t. bound_with L C id (vq_channel_id q)
         (voucher_updater q (debit_commit C (vq_required_availability q) allow_replay guard (vq_expires_at q) (mo_now t)))))
       (\<lambda>written. attempt (Pk_Prelude.map_err (mpp_of_core \<circ> store_err) written) (\<lambda>(new_state, was_replay).
         Ret (Inr \<lparr>va_cumulative = cs_cumulative new_state,
               va_charged = (if was_replay then 0
                             else saturating_sub (cs_cumulative new_state) (cs_cumulative st)),
               va_replay = was_replay\<rparr>)))) s1"
    by (rule session.sat_bind) (auto intro!: session.sat_attempt sat.sat_Ret split: prod.split)
qed

text \<open>The record a handler has read: it was there at some point since \<open>s\<close>.\<close>

definition seen :: "'key session_lib \<Rightarrow> session_server \<Rightarrow> scope \<Rightarrow> string \<Rightarrow> channels
    \<Rightarrow> 'e + channel_state \<Rightarrow> channels \<Rightarrow> bool" where
  "seen L C A i s r s3 \<longleftrightarrow> (\<forall>st. r = Inr st \<longrightarrow>
     (\<exists>s'. session_rely L C A s s' \<and> s' i = Some st \<and> session_rely L C A s' s3))"

lemma keeps_seen: "keeps L C A (seen L C A i s) (require_channel L C i) s"
  by (rule keeps_require) (auto simp: seen_def)

lemma keeps_if:
  assumes "b \<Longrightarrow> keeps L C A P p s" "\<not> b \<Longrightarrow> keeps L C A P q s"
  shows "keeps L C A P (if b then p else q) s"
  using assms by simp

lemma quiet_keeps: "quiet L C A p \<Longrightarrow> keeps L C A (\<lambda>_ _. True) p s"
  by (simp add: quiet_def)

lemma keeps_done: "keeps L C A (\<lambda>_ _. True) (Ret r) s"
  by (rule quiet_keeps) (rule quiet_Ret)

lemma keeps_voucher:
  assumes "\<And>i e. voucher_event p price i e \<Longrightarrow> A i e"
  shows "quiet L C A (verify_voucher_priced L C p price allow_replay guard)"
  unfolding verify_voucher_priced_def Let_def quiet_def
proof (intro allI keeps_if keeps_done, rule session.sat_try [OF keeps_seen], simp, intro keeps_if keeps_done session.sat_attempt TrueI)
  let ?v = "vpl_voucher p"
  let ?i = "vd_channel_id (sv_data ?v)"
  fix s st s1 c
  assume "session_rely L C A s s1" and st: "seen L C A ?i s (Inr st) s1" "cs_voucher_signer st \<noteq> ''operator''"
    and c: "ok_or (parse_u64 (vd_cumulative_amount (sv_data ?v))) (OtherError ''Invalid cumulative in voucher'') = Inr c"
  obtain s0 where s0: "s0 ?i = Some st" "session_rely L C A s0 s1"
    using st(1) by (auto simp: seen_def)
  have accept: "keeps L C A (\<lambda>_ _. True) (accept_steps L C (priced_request C ?v price c now)
      (debit_commit C price allow_replay guard (unwrap_or (vd_expires_at (sv_data ?v)) 0))) s3"
    if "session_rely L C A s1 s3" for s3 now
  proof -
    have "A ?i (EvVoucher (unat c) (unat price))"
      by (rule assms) (use c in \<open>auto simp: voucher_event_def names_amount_def\<close>)
    moreover have "cs_voucher_signer st' \<noteq> ''operator''" if r: "session_rely L C A s3 s4" "s4 ?i = Some st'" for s4 st'
      using rely_later(2) [OF session.rely_trans [OF s0(2) session.rely_trans [OF \<open>session_rely L C A s1 s3\<close> r(1)]] s0(1) r(2)]
        st(2) by simp
    ultimately show ?thesis
      using keeps_accept [where q = "priced_request C ?v price c now" and L = L and C = C and A = A and s = s3
          and allow_replay = allow_replay and guard = guard]
      by (simp add: priced_request_def)
  qed
  have "A ?i EvObserve"
    by (rule assms) (simp add: voucher_event_def)
  then show "keeps L C A (\<lambda>_ _. True) (try_act (refresh_channel_snapshot L C ?i) (\<lambda>_. bind_act clock (\<lambda>now.
      accept_steps L C (priced_request C ?v price c now)
        (debit_commit C price allow_replay guard (unwrap_or (vd_expires_at (sv_data ?v)) 0))))) s1"
    by (intro session.sat_try [OF quiet_keeps [OF quiet_refresh]] session.sat_bind [OF quiet_keeps [OF quiet_local(1)]]
        accept TrueI) (auto intro: session.rely_trans)
qed

lemma commit_lawful:
  assumes "\<And>n. A i (EvCommit (cp_delivery_id p) n)"
  shows "lawful L C A i
    (\<lambda>st. genuine L i (cs_authorized_signer st) (unat c) (unwrap_or (vd_expires_at (sv_data (cp_voucher p))) 0)
      (sv_signature (cp_voucher p)))
    (\<lambda>t. commit_updater C p c now (mo_now t))"
proof (rule lawfulI)
  show "ledger_of st' = ledger_of st \<or> (\<exists>e. A i e \<and> moves L C i (mo_now t) e st st')"
    if "genuine L i (cs_authorized_signer st) (unat c) (unwrap_or (vd_expires_at (sv_data (cp_voucher p))) 0)
        (sv_signature (cp_voucher p))"
      "commit_updater C p c now (mo_now t) (Some st) = Inr (st', x)" for t st st' x
  proof -
    obtain n c' status where x: "x = (n, c', status)" by (cases x)
    show ?thesis
      using commit_move [where L = L and i = i, OF that(2) [unfolded x] that(1)] assms
      by (cases status) auto
  qed
qed (simp add: commit_updater_def Let_def)

lemma quiet_commit:
  assumes "\<And>n. A (vd_channel_id (sv_data (cp_voucher p))) (EvCommit (cp_delivery_id p) n)"
  shows "quiet L C A (process_commit L C p)"
  unfolding process_commit_def Let_def quiet_def
proof (intro allI session.sat_attempt TrueI, rule session.sat_try [OF keeps_seen], simp)
  let ?v = "cp_voucher p"
  let ?i = "vd_channel_id (sv_data ?v)"
  fix s c st s1
  assume c: "ok_or (parse_u64 (vd_cumulative_amount (sv_data ?v))) (OtherError ''Invalid cumulative in commit voucher'') = Inr c"
    and st: "seen L C A ?i s (Inr st) s1"
  obtain s0 where s0: "s0 ?i = Some st" "session_rely L C A s0 s1"
    using st(1) by (auto simp: seen_def)
  have written: "keeps L C A (\<lambda>_ _. True) (try_act (on_store (\<lambda>t. bound_with L C id ?i (commit_updater C p c now (mo_now t))))
      (\<lambda>(_, outcome). Ret (Inr (commit_receipt_of p outcome)))) s3"
    if "session_rely L C A s1 s3" "verify_signature L at ?v (cs_authorized_signer st) w = Inr ()" for s3 now at w
  proof (rule session.sat_try [where Q = "\<lambda>_ _. True"])
    have "genuine L ?i (cs_authorized_signer st) (unat c) (unwrap_or (vd_expires_at (sv_data ?v)) 0) (sv_signature ?v)"
      using verify_signature_genuine(2) [OF that(2)] c by simp
    then have later: "genuine L ?i (cs_authorized_signer st') (unat c) (unwrap_or (vd_expires_at (sv_data ?v)) 0) (sv_signature ?v)"
      if "session_rely L C A s3 s4" "s4 ?i = Some st'" for s4 st'
      using rely_later(1) [OF session.rely_trans [OF s0(2) session.rely_trans [OF \<open>session_rely L C A s1 s3\<close> that(1)]] s0(1) that(2)]
      by simp
    show "keeps L C A (\<lambda>_ _. True) (on_store (\<lambda>t. bound_with L C id ?i (commit_updater C p c now (mo_now t)))) s3"
      by (rule keeps_store_update [OF commit_lawful [where A = A and p = p, OF assms]]) (erule (1) later, simp_all)
  qed (auto intro: keeps_done split: prod.split)
  show "keeps L C A (\<lambda>_ _. True)
    (case find_committed st (cp_delivery_id p) of
       None \<Rightarrow> attempt (ok_or (List.find (\<lambda>d. pd_delivery_id d = cp_delivery_id p) (cs_pending_deliveries st))
           (OtherError (''Delivery '' @ cp_delivery_id p @ '' not found''))) (\<lambda>pending.
         bind_act clock (\<lambda>now.
         if pd_expires_at pending \<le> now then Ret (Inl (OtherError (expired_delivery (cp_delivery_id p))))
         else if c \<le> cs_cumulative st then Ret (Inl (OtherError (below_watermark c st)))
         else if cs_deposit st < c then Ret (Inl (OtherError (above_deposit c st)))
         else bind_act clock (\<lambda>verified_at.
           attempt (verify_signature L verified_at ?v (cs_authorized_signer st) (int (unat (sc_grace_period_seconds C)))) (\<lambda>_.
           try_act (on_store (\<lambda>t. bound_with L C id ?i (commit_updater C p c now (mo_now t)))) (\<lambda>(_, outcome).
             Ret (Inr (commit_receipt_of p outcome)))))))
     | Some committed \<Rightarrow>
         if cd_cumulative committed = c \<and> cd_voucher_signature committed = sv_signature ?v
         then bind_act clock (\<lambda>now.
           attempt (verify_signature L now ?v (cs_authorized_signer st) (int (unat (sc_grace_period_seconds C)))) (\<lambda>_.
           Ret (Inr (commit_receipt_of p (cd_amount committed, cd_cumulative committed, Replayed)))))
         else Ret (Inl (OtherError (other_voucher (cp_delivery_id p))))) s1"
    by (cases "find_committed st (cp_delivery_id p)")
      (auto intro!: keeps_if keeps_done session.sat_attempt session.sat_bind [OF quiet_keeps [OF quiet_local(1)]] written
        intro: session.rely_trans simp del: if_split)
qed

section \<open>Lemmas: what the answers say\<close>

text \<open>At some point since \<open>s0\<close>, \<open>P\<close> held of the ledger of the channel.\<close>

definition since :: "'key session_lib \<Rightarrow> session_server \<Rightarrow> scope \<Rightarrow> string
    \<Rightarrow> channels \<Rightarrow> (ledger \<Rightarrow> bool) \<Rightarrow> channels \<Rightarrow> bool" where
  "since L C A i s0 P s \<longleftrightarrow> (\<exists>st0 st l. s0 i = Some st0 \<and> s i = Some st
     \<and> reaches L C A i (ledger_of st0) l \<and> reaches L C A i l (ledger_of st) \<and> P l)"

lemma since_later:
  assumes "session_rely L C A s s'" "since L C A i s0 P s"
  shows "since L C A i s0 P s'"
proof -
  obtain st0 st l where st: "s0 i = Some st0" "s i = Some st" "reaches L C A i (ledger_of st0) l"
      "reaches L C A i l (ledger_of st)" "P l"
    using assms(2) by (auto simp: since_def)
  obtain st' where "s' i = Some st'" "reaches L C A i (ledger_of st) (ledger_of st')"
    by (rule rely_Some [OF assms(1) st(2)])
  with st reaches_trans show ?thesis unfolding since_def by blast
qed

lemma rely_back:
  assumes "session_rely L C A s s'" "s' i = Some st'"
  obtains st where "s i = Some st" "reaches L C A i (ledger_of st) (ledger_of st')"
  using assms unfolding session_rely_def by (metis option_rel_Some2)

lemma since_now:
  assumes "session_rely L C A s0 s" "s i = Some st" "P (ledger_of st)"
  shows "since L C A i s0 P s"
proof -
  obtain st0 where "s0 i = Some st0" "reaches L C A i (ledger_of st0) (ledger_of st)"
    by (rule rely_back [OF assms(1,2)])
  with assms(2,3) show ?thesis
    unfolding since_def
    by (intro exI [of _ st0] exI [of _ st] exI [of _ "ledger_of st"]) simp
qed

lemma since_seen:
  assumes "session_rely L C A s0 s" "seen L C A i s (Inr st) s1" "P (ledger_of st)"
  shows "since L C A i s0 P s1"
proof -
  obtain s' where s': "session_rely L C A s s'" "s' i = Some st" "session_rely L C A s' s1"
    using assms(2) by (auto simp: seen_def)
  have "since L C A i s0 P s'"
    using since_now [where P = P, OF session.rely_trans [OF assms(1) s'(1)] s'(2)] assms(3) by simp
  then show ?thesis by (rule since_later [OF s'(3)])
qed

lemma since_written:
  assumes "session_rely L C A s0 (s(i \<mapsto> st))" "session_rely L C A (s(i \<mapsto> st)) s3" "P (ledger_of st)"
  shows "since L C A i s0 P s3"
  by (rule since_later [OF assms(2)], rule since_now [OF assms(1), where st = st]) (simp_all add: assms(3))

text \<open>A handler whose answer, when it is not an error, says \<open>P\<close>.\<close>

definition tells :: "'key session_lib \<Rightarrow> session_server \<Rightarrow> scope \<Rightarrow> string
    \<Rightarrow> channels \<Rightarrow> ('a \<Rightarrow> ledger \<Rightarrow> bool) \<Rightarrow> 'e + 'a \<Rightarrow> channels \<Rightarrow> bool" where
  "tells L C A i s0 P r s \<longleftrightarrow> (\<forall>a. r = Inr a \<longrightarrow> since L C A i s0 (P a) s)"

lemma tells_Inl [simp]: "tells L C A i s0 P (Inl e) s"
  by (simp add: tells_def)

lemma keeps_error [simp]: "keeps L C A (tells L C A i s0 P) (Ret (Inl e)) s"
  by (auto intro: sat.sat_Ret)

lemma keeps_told:
  assumes "since L C A i s0 (P a) s"
  shows "keeps L C A (tells L C A i s0 P) (Ret (Inr a)) s"
  using assms since_later by (auto intro!: sat.sat_Ret simp: tells_def)

lemma tells_try:
  assumes "keeps L C A Q p s" "\<And>a s'. session_rely L C A s s' \<Longrightarrow> Q (Inr a) s' \<Longrightarrow> keeps L C A (tells L C A i s0 P) (k a) s'"
  shows "keeps L C A (tells L C A i s0 P) (try_act p k) s"
  using assms by (auto intro: session.sat_try)

lemma tells_attempt:
  assumes "\<And>a. r = Inr a \<Longrightarrow> keeps L C A (tells L C A i s0 P) (k a) s"
  shows "keeps L C A (tells L C A i s0 P) (attempt r k) s"
  using assms by (cases r) simp_all

lemma put_use_key [simp]: "map_of (put_use key ch n us) key = Some (ch, Some n)"
proof -
  let ?old = "filter (\<lambda>u. fst u \<noteq> key) us"
  have "map_of (drop k ?old @ [(key, ch, Some n)]) key = Some (ch, Some n)" for k
  proof -
    have "map_of (drop k ?old) key = None"
      by (auto simp: map_of_eq_None_iff dest: in_set_dropD)
    then show ?thesis by (simp add: map_add_def)
  qed
  then show ?thesis
    by (simp add: put_use_def Let_def MAX_PROCESSED_USES_def)
qed

definition use_known :: "string \<Rightarrow> ledger \<Rightarrow> bool" where
  "use_known key l \<longleftrightarrow> map_of (lg_uses l) key \<noteq> None"

lemma charge_known:
  "move m g now (EvCharge key ch n) l l' \<Longrightarrow> use_known key l' \<and> total_in l' key = n"
  by (erule move_chargeE) (simp add: use_known_def total_in_def)

lemma keeps_use:
  assumes "A (up_channel_id p) EvObserve" "A (up_channel_id p) (EvCharge k ch (unat (sc_amount C)))"
    and start: "session_rely L C A s0 s"
  shows "keeps L C A (tells L C A (up_channel_id p) s0 (\<lambda>a. use_known k)) (process_use L C p ch k) s"
  unfolding process_use_def Let_def
proof (intro tells_attempt keeps_if keeps_error, rule tells_try [OF quiet_keeps [OF quiet_refresh [where A = A, OF assms(1)]]])
  fix key :: signing_key and s1 authentication
  assume "session_rely L C A s s1"
  note s1 = session.rely_trans [OF start this]
  let ?signer = "sl_bs58_encode L (sk_verifying_key key)"
  let ?u = "\<lambda>t. use_updater L C key ?signer p authentication ch k (mo_now t)"
  have lawful: "lawful L C A (up_channel_id p) (\<lambda>_. True) ?u"
  proof (rule lawfulI)
    show "ledger_of st' = ledger_of st \<or> (\<exists>e. A (up_channel_id p) e \<and> moves L C (up_channel_id p) (mo_now t) e st st')"
      if "?u t (Some st) = Inr (st', x)" for t st st' x
      using use_move [OF that, where i = "up_channel_id p"] assms(2) by (auto split: if_splits)
  qed (simp add: use_updater_def)
  have known: "use_known k (ledger_of st')" if "?u t (Some st) = Inr (st', x)" for t st st' x
  proof (cases "ua_replay x")
    case True
    with use_move [OF that, where i = "up_channel_id p"] show ?thesis
      by (auto simp: use_known_def map_of_abs_use find_use_def)
  next
    case False
    with use_move [OF that, where i = "up_channel_id p"]
    have "moves L C (up_channel_id p) (mo_now t) (EvCharge k ch (unat (sc_amount C))) st st'" by simp
    then show ?thesis by (blast dest: charge_known)
  qed
  show "keeps L C A (tells L C A (up_channel_id p) s0 (\<lambda>a. use_known k))
      (try_act (on_store (\<lambda>t. bound_with L C id (up_channel_id p) (?u t))) (\<lambda>(_, acceptance). Ret (Inr acceptance))) s1"
  proof (rule tells_try)
    show "keeps L C A (\<lambda>r s. \<forall>y. r = Inr y \<longrightarrow> since L C A (up_channel_id p) s0 (use_known k) s)
        (on_store (\<lambda>t. bound_with L C id (up_channel_id p) (?u t))) s1"
      by (rule keeps_store_update [OF lawful])
        (auto intro: since_written [OF session.rely_trans [OF s1]] known)
  qed (auto intro: keeps_told)
qed

definition charged_to :: "string \<Rightarrow> nat \<Rightarrow> ledger \<Rightarrow> bool" where
  "charged_to key n l \<longleftrightarrow> use_known key l \<and> n \<le> total_in l key"

lemma recorded_charged:
  assumes "recorded_use st u = Inr (Some entry)" "n \<le> ru_request_total entry"
  shows "charged_to (au_idempotency_key u) (unat n) (ledger_of st)"
  using recorded_total [OF assms(1)] assms(2)
  by (auto simp: charged_to_def use_known_def total_of_def word_le_nat_alt split: option.splits prod.splits)

lemma charge_lawful:
  assumes "A i (EvCharge (au_idempotency_key u) (au_challenge_id u) (unat n))"
    and "checked_add base (n - before) = Some cumulative" "before < n"
  shows "lawful L C A i (\<lambda>_. True) (\<lambda>t. charge_updater C u n guard base before cumulative signature (mo_now t))"
    and "charge_updater C u n guard base before cumulative signature now (Some st) = Inr (st', r)
      \<Longrightarrow> charged_to (au_idempotency_key u) (unat n) (ledger_of st')"
proof -
  show "lawful L C A i (\<lambda>_. True) (\<lambda>t. charge_updater C u n guard base before cumulative signature (mo_now t))"
  proof (rule lawfulI)
    show "ledger_of st' = ledger_of st \<or> (\<exists>e. A i e \<and> moves L C i (mo_now t) e st st')"
      if "charge_updater C u n guard base before cumulative signature (mo_now t) (Some st) = Inr (st', x)" for t st st' x
      using charge_move [OF that assms(2,3), where L = L and i = i] assms(1) by (cases x) auto
  qed (simp add: charge_updater_def still_def, blast)
  assume up: "charge_updater C u n guard base before cumulative signature now (Some st) = Inr (st', r)"
  show "charged_to (au_idempotency_key u) (unat n) (ledger_of st')"
  proof (cases r)
    case None
    with charge_move [OF up assms(2,3), where L = L and i = i]
    have "moves L C i now (EvCharge (au_idempotency_key u) (au_challenge_id u) (unat n)) st st'" by simp
    from charge_known [OF this] show ?thesis by (simp add: charged_to_def)
  next
    case (Some entry)
    with up have "recorded_use st u = Inr (Some entry)" "n \<le> ru_request_total entry" "st' = st"
      by (auto simp: charge_updater_def still_def try_bind_Inr_iff split: if_splits option.splits)
    with recorded_charged show ?thesis by simp
  qed
qed

lemma unrecorded_total:
  "\<not> (case r of Some entry \<Rightarrow> n \<le> ru_request_total entry | None \<Rightarrow> False) \<Longrightarrow> n \<noteq> 0 \<Longrightarrow> total_of r < n"
  by (cases r) (auto simp: total_of_def word_gt_0)

lemma keeps_attempts:
  assumes "A (au_channel_id u) (EvCharge (au_idempotency_key u) (au_challenge_id u) (unat n))" "n \<noteq> 0"
    and "session_rely L C A s0 s"
  shows "keeps L C A (tells L C A (au_channel_id u) s0 (\<lambda>a. charged_to (au_idempotency_key u) (unat n)))
    (charge_attempts k L C u signer n guard) s"
  using assms(3)
proof (induction k arbitrary: s)
  case (Suc k)
  let ?i = "au_channel_id u"
  let ?T = "tells L C A ?i s0 (\<lambda>a. charged_to (au_idempotency_key u) (unat n))"
  show ?case
    unfolding charge_attempts.simps Let_def
  proof (rule tells_try [OF keeps_seen], intro keeps_if keeps_error tells_attempt)
    fix st s1 x r
    assume st: "seen L C A ?i s (Inr st) s1" and r: "Pk_Prelude.map_err session_store_err (recorded_use st u) = Inr r"
      and reached: "case r of None \<Rightarrow> False | Some entry \<Rightarrow> n \<le> ru_request_total entry"
    then obtain entry where "recorded_use st u = Inr (Some entry)" "n \<le> ru_request_total entry" "r = Some entry"
      by (cases r) auto
    with recorded_charged show "keeps L C A ?T (Ret (Inr (replayed_charge ?i (os_pubkey signer) (the r)))) s1"
      by (intro keeps_told since_seen [OF Suc.prems st]) auto
  next
    fix st s1 x r cumulative message signed
    assume s1: "session_rely L C A s s1" and r: "\<not> (case r of None \<Rightarrow> False | Some entry \<Rightarrow> n \<le> ru_request_total entry)"
      and c: "ok_or (checked_add (cs_cumulative st) (n - total_of r)) (OtherError ''session cumulative overflow'') = Inr cumulative"
    have before: "total_of r < n"
      using unrecorded_total [OF r assms(2)] .
    have c': "checked_add (cs_cumulative st) (n - total_of r) = Some cumulative"
      using c by simp
    note law = charge_lawful [where A = A, OF assms(1) c' before]
    have again: "keeps L C A ?T (try_act (watermark_moved L C ?i base) (\<lambda>advanced.
        if advanced then charge_attempts k L C u signer n guard else Ret (Inl err))) s2"
      if "session_rely L C A s0 s2" for base err s2
    proof (rule tells_try [where Q = "\<lambda>_ _. True"])
      show "keeps L C A (\<lambda>_ _. True) (watermark_moved L C ?i base) s2"
        unfolding watermark_moved_def by (intro quiet_keeps quiet_intros)
    qed (auto intro: Suc.IH session.rely_trans [OF that])
    note start = session.rely_trans [OF Suc.prems s1]
    show "keeps L C A ?T
       (bind_act (access_err (\<lambda>e. (e, False)) (\<lambda>t. bound_with L C (\<lambda>e. (e, False)) ?i
           (charge_updater C u n guard (cs_cumulative st) (total_of r) cumulative (sl_bs58_encode L signed) (mo_now t)))) (\<lambda>written.
        case written of
          Inl (error, moved) \<Rightarrow>
            if moved then charge_attempts k L C u signer n guard
            else try_act (watermark_moved L C ?i (cs_cumulative st)) (\<lambda>advanced.
              if advanced then charge_attempts k L C u signer n guard else Ret (Inl (session_store_err error)))
        | Inr (_, None) \<Rightarrow>
            Ret (Inr \<lparr>oc_voucher = operator_voucher ?i cumulative (os_pubkey signer) (sl_bs58_encode L signed),
                      oc_previous_cumulative = cs_cumulative st, oc_cumulative = cumulative,
                      oc_charged = n - total_of r, oc_request_total = n, oc_replay = False\<rparr>)
        | Inr (_, Some entry) \<Rightarrow> Ret (Inr (replayed_charge ?i (os_pubkey signer) entry)))) s1"
    proof (rule session.sat_bind)
      show "keeps L C A (\<lambda>w s. \<forall>y. w = Inr y \<longrightarrow> since L C A ?i s0 (charged_to (au_idempotency_key u) (unat n)) s)
          (access_err (\<lambda>e. (e, False)) (\<lambda>t. bound_with L C (\<lambda>e. (e, False)) ?i
           (charge_updater C u n guard (cs_cumulative st) (total_of r) cumulative (sl_bs58_encode L signed) (mo_now t)))) s1"
        by (rule keeps_update [OF law(1)]) (auto intro: since_written [OF session.rely_trans [OF start]] law(2))
    qed (auto intro: keeps_told Suc.IH again session.rely_trans [OF start] split: sum.split option.split prod.split)
  qed
qed simp

lemma keeps_charge:
  assumes "A (au_channel_id u) EvObserve"
    "A (au_channel_id u) (EvCharge (au_idempotency_key u) (au_challenge_id u) (unat n))"
    and start: "session_rely L C A s0 s"
  shows "keeps L C A (tells L C A (au_channel_id u) s0 (\<lambda>a. charged_to (au_idempotency_key u) (unat n)))
    (charge_operator_request L C u signer n guard) s"
  unfolding charge_operator_request_def
  by (intro keeps_if keeps_error tells_try [OF quiet_keeps [OF quiet_refresh [where A = A, OF assms(1)]]]
      keeps_attempts assms(2) session.rely_trans [OF start])

text \<open>The ledger after a close: the amount to settle is fixed.\<close>

definition frozen :: "ledger \<Rightarrow> bool" where
  "frozen l \<longleftrightarrow> lg_closed l \<and> lg_final l = Some (lg_cumulative l)"

lemma move_frozen:
  assumes "move m g now e l l'" "frozen l"
  shows "frozen l' \<and> lg_cumulative l' = lg_cumulative l \<and> lg_deposit l' = lg_deposit l \<and> lg_voucher l' = lg_voucher l"
  using assms by cases (auto simp: frozen_def)

lemma reaches_frozen:
  assumes "reaches L C A i l l'" "frozen l"
  shows "frozen l' \<and> lg_cumulative l' = lg_cumulative l \<and> lg_deposit l' = lg_deposit l \<and> lg_voucher l' = lg_voucher l"
proof (rule reaches_keeps [OF assms(1)])
  fix l1 l2 now e
  assume "move (unat (snapshot_max_age C)) (genuine L i) now e l1 l2"
    "frozen l1 \<and> lg_cumulative l1 = lg_cumulative l \<and> lg_deposit l1 = lg_deposit l \<and> lg_voucher l1 = lg_voucher l"
  with move_frozen [of _ _ now e l1 l2]
  show "frozen l2 \<and> lg_cumulative l2 = lg_cumulative l \<and> lg_deposit l2 = lg_deposit l \<and> lg_voucher l2 = lg_voucher l"
    by auto
qed (use assms(2) in simp)

text \<open>
  What a quote says of the ledger it was read from: it is within the deposit, it settles at least
  the watermark, and a voucher it carries is the highest one, for exactly the amount settled.
\<close>

definition quotes :: "seal_parameters \<Rightarrow> ledger \<Rightarrow> bool" where
  "quotes params l \<longleftrightarrow> lg_cumulative l \<le> lg_deposit l \<and> lg_cumulative l \<le> unat (sep_settled params)
     \<and> (\<forall>signature e. sep_voucher_signature params = Some signature \<longrightarrow> sep_voucher_expires_at params = Some e \<longrightarrow>
          unat (sep_settled params) = lg_cumulative l \<and> lg_voucher l = Some (signature, e))"

lemma seal_params_quotes:
  assumes "seal_params_of L C i (st\<lparr>cs_settled_on_chain := n\<rparr>) = Inr params" "cs_cumulative st \<le> cs_deposit st"
  shows "quotes params (ledger_of st)"
  using assms
  by (auto simp: seal_params_of_def try_bind_Inr_iff quotes_def voucher_of_def word_le_nat_alt not_le max_def
      split: if_splits)

lemma keeps_seal:
  assumes "\<And>s' st. session_rely L C A s s' \<Longrightarrow> s' i = Some st \<Longrightarrow> F (ledger_of st)"
    and start: "session_rely L C A s0 s"
  shows "keeps L C A (tells L C A i s0 (\<lambda>params l. quotes params l \<and> F l)) (seal_params L C i) s"
  unfolding seal_params_def
proof (rule tells_try [OF keeps_seen], intro keeps_if keeps_error)
  fix st s1
  assume s1: "session_rely L C A s s1" and st: "seen L C A i s (Inr st) s1" and fits: "\<not> cs_deposit st < cs_cumulative st"
  obtain s' where s': "session_rely L C A s s'" "s' i = Some st"
    using st by (auto simp: seen_def)
  have F: "F (ledger_of st)" by (rule assms(1) [OF s'])
  have answer: "keeps L C A (tells L C A i s0 (\<lambda>params l. quotes params l \<and> F l))
      (Ret (seal_params_of L C i (st\<lparr>cs_settled_on_chain := n\<rparr>))) s2" if "session_rely L C A s1 s2" for n s2
  proof (cases "seal_params_of L C i (st\<lparr>cs_settled_on_chain := n\<rparr>)")
    case (Inr params)
    then have "quotes params (ledger_of st)"
      using seal_params_quotes [OF Inr] fits by simp
    with F st have "since L C A i s0 (\<lambda>l. quotes params l \<and> F l) s1"
      by (intro since_seen [OF start st]) simp
    with since_later [OF that] Inr show ?thesis by (simp add: keeps_told)
  qed simp
  have mutate: "quiet L C A (on_store (\<lambda>t. bound_mutate L C i None (settled_mutator n)))" for n
    by (rule quiet_mutate) (use settled_ledger in blast)
  have read: "keeps L C A (tells L C A i s0 (\<lambda>params l. quotes params l \<and> F l)) (seal_with_read L C i st read) s2"
    if "session_rely L C A s1 s2" for read s2
  proof -
    have stored: "keeps L C A (tells L C A i s0 (\<lambda>params l. quotes params l \<and> F l)) (Ret (seal_params_of L C i st)) s2"
      using answer [OF that, of "cs_settled_on_chain st"] by simp
    have "keeps L C A (tells L C A i s0 (\<lambda>params l. quotes params l \<and> F l))
        (try_act (on_store (\<lambda>t. bound_mutate L C i None (settled_mutator n)))
          (\<lambda>_. Ret (seal_params_of L C i (st\<lparr>cs_settled_on_chain := n\<rparr>)))) s2" for n
      by (rule tells_try [OF quiet_keeps [OF mutate]], rule answer) (rule session.rely_trans [OF that])
    with stored show ?thesis
      by (auto simp: seal_with_read_def split: sum.split option.split prod.split)
  qed
  show "keeps L C A (tells L C A i s0 (\<lambda>params l. quotes params l \<and> F l))
    (bind_act clock (\<lambda>now. bind_act (read_channel_lifecycle L C i (secs_u64 now)) (seal_with_read L C i st))) s1"
    by (intro session.sat_bind [OF quiet_keeps [OF quiet_local(1)]] session.sat_bind [OF quiet_keeps [OF quiet_lifecycle]] read)
      (rule session.rely_trans)
qed

lemma close_freezes:
  assumes "close_updater L C p now later (Some st) = Inr st'"
  shows "frozen (ledger_of st')"
  using assms by (auto simp: frozen_def close_updater_def try_bind_Inr_iff is_closed_def split: if_splits)

lemma keeps_close:
  assumes "\<And>c. A (cz_channel_id p) (EvClose c)" and start: "session_rely L C A s0 s"
  shows "keeps L C A (tells L C A (cz_channel_id p) s0 (\<lambda>params l. quotes params l \<and> frozen l)) (process_close L C p) s"
  unfolding process_close_def
proof (rule session.sat_bind [OF quiet_keeps [OF quiet_local(1)]], intro keeps_if keeps_error)
  let ?i = "cz_channel_id p"
  fix now s1
  assume s1: "session_rely L C A s s1" and ids: "\<not> (case cz_voucher p of None \<Rightarrow> False | Some voucher \<Rightarrow> vd_channel_id (sv_data voucher) \<noteq> ?i)"
  have lawful: "lawful L C A ?i (\<lambda>_. True) (\<lambda>t. with_unit (close_updater L C p (word_of_int now) (mo_now t)))"
  proof (rule lawfulI)
    show "ledger_of st' = ledger_of st \<or> (\<exists>e. A ?i e \<and> moves L C ?i (mo_now t) e st st')"
      if "with_unit (close_updater L C p (word_of_int now) (mo_now t)) (Some st) = Inr (st', x)" for t st st' x
    proof -
      have "close_updater L C p (word_of_int now) (mo_now t) (Some st) = Inr st'" using that by simp
      from close_move [OF this, where i = ?i and t = "mo_now t"] ids assms(1) show ?thesis
        by (cases "cz_voucher p") auto
    qed
  qed (simp add: with_unit_def close_updater_def)
  show "keeps L C A (tells L C A ?i s0 (\<lambda>params l. quotes params l \<and> frozen l))
      (try_act (on_store (\<lambda>t. bound_update L C ?i (close_updater L C p (word_of_int now) (mo_now t))))
        (\<lambda>_. seal_params L C ?i)) s1"
  proof (rule tells_try)
    show "keeps L C A (\<lambda>r s. \<forall>st'. r = Inr st' \<longrightarrow> (\<exists>st. s ?i = Some st \<and> frozen (ledger_of st)))
        (on_store (\<lambda>t. bound_update L C ?i (close_updater L C p (word_of_int now) (mo_now t)))) s1"
    proof (rule keeps_update_channel [OF lawful])
      fix s' t st st' s3
      assume "close_updater L C p (word_of_int now) (mo_now t) (Some st) = Inr st'"
        and r: "session_rely L C A (s'(?i \<mapsto> st')) s3"
      then have "frozen (ledger_of st')" by (simp add: close_freezes)
      moreover obtain st3 where "s3 ?i = Some st3" "reaches L C A ?i (ledger_of st') (ledger_of st3)"
        using rely_Some [OF r, of ?i st'] by auto
      ultimately show "\<forall>x. Inr st' = Inr x \<longrightarrow> (\<exists>st. s3 ?i = Some st \<and> frozen (ledger_of st))"
        using reaches_frozen by blast
    qed simp
    show "keeps L C A (tells L C A ?i s0 (\<lambda>params l. quotes params l \<and> frozen l)) (seal_params L C ?i) s2"
      if s2: "session_rely L C A s1 s2" and closed: "\<forall>st'. Inr a = Inr st' \<longrightarrow> (\<exists>st. s2 ?i = Some st \<and> frozen (ledger_of st))" for a :: channel_state and s2
    proof (rule keeps_seal)
      fix s3 st
      assume "session_rely L C A s2 s3" "s3 ?i = Some st"
      moreover obtain st2 where "s2 ?i = Some st2" "frozen (ledger_of st2)" using closed by auto
      ultimately show "frozen (ledger_of st)"
        using rely_later(4) reaches_frozen by blast
    qed (rule session.rely_trans [OF start session.rely_trans [OF s1 s2]])
  qed
qed

section \<open>Lemmas: pools of requests\<close>

text \<open>What each answer promises.\<close>

fun promise :: "'key session_lib \<Rightarrow> session_server \<Rightarrow> scope \<Rightarrow> channels \<Rightarrow> request
    \<Rightarrow> reply \<Rightarrow> channels \<Rightarrow> bool" where
  "promise L C A s0 (ReqUse p ch k) (RepUse r) s = tells L C A (up_channel_id p) s0 (\<lambda>a. use_known k) r s"
| "promise L C A s0 (ReqCharge u sg n g) (RepCharge r) s =
     tells L C A (au_channel_id u) s0 (\<lambda>a. charged_to (au_idempotency_key u) (unat n)) r s"
| "promise L C A s0 (ReqClose p) (RepClose r) s =
     tells L C A (cz_channel_id p) s0 (\<lambda>params l. quotes params l \<and> frozen l) r s"
| "promise L C A s0 (ReqSealParams i) (RepClose r) s = tells L C A i s0 (\<lambda>params l. quotes params l \<and> True) r s"
| "promise L C A s0 _ _ s = True"

lemma keeps_answering:
  assumes "keeps L C A Q p s" "\<And>r s'. Q r s' \<Longrightarrow> P (f r) s'"
  shows "keeps L C A P (answering f p) s"
  unfolding answering_def
  by (rule session.sat_map, rule session.sat_mono [OF assms(1)]) (rule assms(2))

lemmas quiet_answering = keeps_answering [OF quiet_keeps]

lemma keeps_serve:
  assumes "\<And>i e. may C r i e \<Longrightarrow> A i e"
  shows "keeps L C A (promise L C A s r) (serve L C r) s"
proof (cases r)
  case (ReqVoucher p)
  then have "quiet L C A (verify_voucher L C p)"
    unfolding verify_voucher_def using assms by (intro keeps_voucher) simp
  with ReqVoucher show ?thesis by (auto intro: quiet_answering)
next
  case (ReqVoucherGuard p g)
  then have "quiet L C A (verify_voucher_with_guard L C p g)"
    unfolding verify_voucher_with_guard_def using assms by (intro keeps_voucher) simp
  with ReqVoucherGuard show ?thesis by (auto intro: quiet_answering)
next
  case (ReqVoucherAmount p n)
  then have "quiet L C A (verify_voucher_for_amount L C p n)"
    unfolding verify_voucher_for_amount_def using assms by (intro quiet_if quiet_Ret keeps_voucher) simp
  with ReqVoucherAmount show ?thesis by (auto intro: quiet_answering)
next
  case (ReqUse p ch k)
  then have "keeps L C A (tells L C A (up_channel_id p) s (\<lambda>a. use_known k)) (process_use L C p ch k) s"
    using assms by (intro keeps_use) auto
  with ReqUse show ?thesis by (auto intro: keeps_answering)
next
  case (ReqAuthenticate p ch k)
  then have "quiet L C A (authenticate_use L C p ch k)"
    unfolding authenticate_use_def using assms by (intro quiet_intros quiet_refresh) auto
  with ReqAuthenticate show ?thesis by (auto intro: quiet_answering)
next
  case (ReqCharge u sg n g)
  then have "keeps L C A (tells L C A (au_channel_id u) s (\<lambda>a. charged_to (au_idempotency_key u) (unat n)))
      (charge_operator_request L C u sg n g) s"
    using assms by (intro keeps_charge) auto
  with ReqCharge show ?thesis by (auto intro: keeps_answering)
next
  case (ReqTopUp p)
  then have "quiet L C A (process_topup_with_outcome L C p)"
    using assms by (intro quiet_topup) auto
  with ReqTopUp show ?thesis by (auto intro: quiet_answering)
next
  case (ReqBegin d)
  then have "quiet L C A (begin_delivery L C d)"
    using assms by (intro quiet_begin) auto
  with ReqBegin show ?thesis by (auto intro: quiet_answering)
next
  case (ReqUsage i d n)
  then have "quiet L C A (record_delivery_usage L C i d n)"
    using assms by (intro quiet_usage) auto
  with ReqUsage show ?thesis by (auto intro: quiet_answering)
next
  case (ReqCommit p)
  then have "quiet L C A (process_commit L C p)"
    using assms by (intro quiet_commit) auto
  with ReqCommit show ?thesis by (auto intro: quiet_answering)
next
  case (ReqClose p)
  then have "keeps L C A (tells L C A (cz_channel_id p) s (\<lambda>params l. quotes params l \<and> frozen l)) (process_close L C p) s"
    using assms by (intro keeps_close) auto
  with ReqClose show ?thesis by (auto intro: keeps_answering)
next
  case (ReqSealParams i)
  have "keeps L C A (tells L C A i s (\<lambda>params l. quotes params l \<and> True)) (seal_params L C i) s"
    by (rule keeps_seal) auto
  with ReqSealParams show ?thesis by (auto intro: keeps_answering)
next
  case (ReqMarkSealed i)
  then have "quiet L C A (session_mark_sealed L C i)"
    using assms by (intro quiet_mark_sealed) auto
  with ReqMarkSealed show ?thesis by (auto intro: quiet_answering)
qed

lemma pool_starts:
  assumes "j < length (map (serve L C) rs)"
  shows "keeps L C (scope_of C rs) (map (promise L C (scope_of C rs) s) rs ! j) (map (serve L C) rs ! j) s"
proof -
  have "may C (rs ! j) i e \<Longrightarrow> scope_of C rs i e" for i e
    using assms by (auto simp: scope_of_def)
  then show ?thesis
    using assms keeps_serve [where A = "scope_of C rs" and r = "rs ! j" and C = C and L = L and s = s] by simp
qed

lemma pool_keeps:
  assumes "run_pool sched (map (serve L C) rs, s) = (ps', s')"
  shows "session_rely L C (scope_of C rs) s s'"
    and "j < length rs \<Longrightarrow> ps' ! j = Ret rep \<Longrightarrow> promise L C (scope_of C rs) s (rs ! j) rep s'"
  using session.run_pool_sat [where Qs = "map (promise L C (scope_of C rs) s) rs", OF _ pool_starts assms]
  by auto

end
