(* ===== verification/Session_Sample.thy ===== *)
theory Session_Sample
  imports Session_Safety
begin

text \<open>
  What a session request does when it is served alone, and a sample channel with the requests
  that the witnesses of the session properties run on it.
\<close>

section \<open>Lemmas: the handlers alone\<close>

lemma finish_on_store [simp]:
  "mo_fault t = Served \<Longrightarrow> finish (on_store op) t s = (case op t s of (r, s') \<Rightarrow> (Pk_Prelude.map_err session_store_err r, s'))"
  by (simp add: on_store_def finish_access)

text \<open>Whether a record is bound depends on its metadata and its setup only.\<close>

lemma bound_check_cong:
  assumes "cs_extra st' = cs_extra st" "cs_pending_setup st' = cs_pending_setup st"
  shows "bound_check L C st' = bound_check L C st"
  using assms by (simp add: bound_check_def require_binding_def session_open_is_terminal_def read_binding_def opens_channel_def)

lemma guarded_ok:
  assumes "bound_check L C st = Inr ()" "u (Some st) = Inr (st', x)"
    and "cs_extra st' = cs_extra st" "cs_pending_setup st' = cs_pending_setup st"
  shows "guarded L C wrap u (Some st) = Inr (st', x)"
  using assms bound_check_cong [OF assms(3,4), of L C] by (simp add: guarded_def)

lemma bound_with_ok:
  assumes "s i = Some st" "bound_check L C st = Inr ()" "u (Some st) = Inr (st', x)"
    and "cs_extra st' = cs_extra st" "cs_pending_setup st' = cs_pending_setup st"
  shows "bound_with L C wrap i u s = (Inr (st', x), s(i \<mapsto> st'))"
  using guarded_ok [where u = u and wrap = wrap, OF assms(2-5)] assms(1) by (simp add: bound_with_def update_with_def)

lemma bound_update_ok:
  assumes "s i = Some st" "bound_check L C st = Inr ()" "u (Some st) = Inr st'"
    and "cs_extra st' = cs_extra st" "cs_pending_setup st' = cs_pending_setup st"
  shows "bound_update L C i u s = (Inr st', s(i \<mapsto> st'))"
  using bound_with_ok [where s = s and i = i and st = st and st' = st' and L = L and C = C and u = "with_unit u" and wrap = id and x = "()"]
    assms by (simp add: bound_update_def)

lemma finish_fetch [simp]:
  assumes "mo_fault t = Served" "s i = Some st" "bound_check L C st = Inr ()"
  shows "finish (fetch_channel L C i) t s = (Inr (Some st), s)"
  using assms by (simp add: fetch_channel_def bound_get_def get_channel_def)

lemma finish_require [simp]:
  assumes "mo_fault t = Served" "s i = Some st" "bound_check L C st = Inr ()"
  shows "finish (require_channel L C i) t s = (Inr st, s)"
  using assms by (simp add: require_channel_def)

lemma finish_answering [simp]:
  "finish (answering f p) t s = (case finish p t s of (r, s') \<Rightarrow> (f r, s'))"
  by (simp add: answering_def)

lemma finish_refresh:
  assumes "mo_fault t = Served" "s i = Some st" "bound_check L C st = Inr ()"
    and "\<not> snapshot_due (secs_u64 (mo_now t)) (snapshot_max_age C) st"
  shows "finish (refresh_channel_snapshot L C i) t s = (Inr (), s)"
  using assms by (simp add: refresh_channel_snapshot_def Let_def)

lemma finish_accept:
  assumes "mo_fault t = Served" "s (vq_channel_id q) = Some st" "bound_check L C st = Inr ()"
    and "voucher_precheck (sl_crypto L) (sl_batch L) q st = Inr ()"
    and "voucher_updater q (commit (mo_now t)) (Some st) = Inr (st', False)"
    and "cs_extra st' = cs_extra st" "cs_pending_setup st' = cs_pending_setup st"
  shows "\<exists>a. finish (accept_steps L C q commit) t s = (Inr a, s(vq_channel_id q \<mapsto> st'))"
  using assms bound_with_ok [where i = "vq_channel_id q" and s = s and u = "voucher_updater q (commit (mo_now t))",
      OF assms(2,3,5,6,7)]
  by (simp add: accept_steps_def finish_access bound_get_def get_channel_def)

lemma snapshot_max_age_bounds:
  "unat (snapshot_max_age C) \<le> 30" "2 * unat (snapshot_max_age C) \<le> unat (sc_grace_period_seconds C)"
proof -
  have "unat (snapshot_max_age C) \<le> unat (30 :: u64)"
    "unat (snapshot_max_age C) \<le> unat (ucast (sc_grace_period_seconds C) div 2 :: u64)"
    unfolding snapshot_max_age_def CHANNEL_SNAPSHOT_MAX_AGE_SECONDS_def word_le_nat_alt [symmetric] by simp_all
  moreover have "unat (ucast (sc_grace_period_seconds C) div 2 :: u64) \<le> unat (sc_grace_period_seconds C) div 2"
    by (simp add: unat_div unsigned_ucast_eq div_le_mono)
  ultimately show "unat (snapshot_max_age C) \<le> 30" "2 * unat (snapshot_max_age C) \<le> unat (sc_grace_period_seconds C)"
    by simp_all
qed

lemma recent_read:
  assumes "2 * (unat (secs_u64 now) - unat (onchain_observed_at st)) < unat (snapshot_max_age C)"
  shows "\<not> snapshot_due (secs_u64 now) (snapshot_max_age C) st"
    and "require_fresh_snapshot now st (snapshot_max_age C) = Inr ()"
proof -
  let ?age = "saturating_sub (secs_u64 now) (onchain_observed_at st)"
  have age: "unat ?age = unat (secs_u64 now) - unat (onchain_observed_at st)"
    by (rule unat_saturating_sub)
  then have small: "unat ?age * 2 < unat (snapshot_max_age C)" "unat ?age * 2 < 2 ^ 64"
    using assms snapshot_max_age_bounds(1) [of C] by simp_all
  then have "unat (saturating_mul ?age 2) = unat ?age * 2"
    by (simp add: saturating_mul_def unat_word_ariths)
  with small show "\<not> snapshot_due (secs_u64 now) (snapshot_max_age C) st"
    by (auto simp: snapshot_due_def word_le_nat_alt)
  show "require_fresh_snapshot now st (snapshot_max_age C) = Inr ()"
    using small age by (auto simp: require_fresh_snapshot_def word_less_nat_alt)
qed

lemma charged_keeps:
  assumes "charged now owner delta signature entry st = Inr st'"
  shows "cs_extra st' = cs_extra st" "cs_pending_setup st' = cs_pending_setup st"
  using assms by (auto simp: charged_def try_bind_Inr_iff touched_def)

lemma finish_attempts:
  assumes t: "mo_fault t = Served" and st: "s (au_channel_id u) = Some st" and bound: "bound_check L C st = Inr ()"
    and "\<not> is_closed st" "check_bound_authentication st (au_authentication u) = Inr ()"
    and "require_fresh_snapshot (mo_now t) st (snapshot_max_age C) = Inr ()"
    and "recorded_use st u = Inr r" "total_of r < n"
    and "checked_add (cs_cumulative st) (n - total_of r) = Some c" "c \<le> cs_deposit st"
    and "guard st = Inr ()" "voucher_message L (sv_data (operator_voucher (au_channel_id u) c (os_pubkey signer) [])) = Inr m"
    and "os_sign_message signer k m = Inr sg"
    and "charged (mo_now t) (sc_operator C) (n - total_of r) (sl_bs58_encode L sg)
         \<lparr>pu_challenge_id = au_challenge_id u, pu_idempotency_key = au_idempotency_key u, pu_cumulative = c,
          pu_voucher_signature = sl_bs58_encode L sg, pu_amount = Some n\<rparr> st = Inr st'"
  shows "finish (charge_attempts (Suc k) L C u signer n guard) t s =
    (Inr \<lparr>oc_voucher = operator_voucher (au_channel_id u) c (os_pubkey signer) (sl_bs58_encode L sg),
          oc_previous_cumulative = cs_cumulative st, oc_cumulative = c, oc_charged = n - total_of r,
          oc_request_total = n, oc_replay = False\<rparr>, s(au_channel_id u \<mapsto> st'))"
proof -
  have "\<not> (case r of Some entry \<Rightarrow> ru_request_total entry \<ge> n | None \<Rightarrow> False)"
    using assms(8) by (auto simp: total_of_def split: option.splits)
  moreover have "charge_updater C u n guard (cs_cumulative st) (total_of r) c (sl_bs58_encode L sg) (mo_now t) (Some st) = Inr (st', None)"
    using assms calculation leD [OF assms(10)] by (simp add: charge_updater_def still_def)
  then have "bound_with L C (\<lambda>e. (e, False)) (au_channel_id u)
      (charge_updater C u n guard (cs_cumulative st) (total_of r) c (sl_bs58_encode L sg) (mo_now t)) s
    = (Inr (st', None), s(au_channel_id u \<mapsto> st'))"
    using st bound charged_keeps [OF assms(14)] by (intro bound_with_ok [where st = st]) simp_all
  moreover have "\<not> cs_deposit st < c" using assms(10) by simp
  ultimately show ?thesis
    using assms(1-9,11-13) by (simp add: Let_def finish_access [OF t])
qed

lemma finish_charge:
  assumes "mo_fault t = Served" "s (au_channel_id u) = Some st" "bound_check L C st = Inr ()" "\<not> is_closed st"
    and "sc_voucher_signer C = Operator" "os_pubkey signer = sc_operator C"
    and "check_bound_authentication st (au_authentication u) = Inr ()"
    and "2 * (unat (secs_u64 (mo_now t)) - unat (onchain_observed_at st)) < unat (snapshot_max_age C)"
    and "recorded_use st u = Inr r" "total_of r < n" "guard st = Inr ()"
    and "unat (cs_cumulative st) + (unat n - unat (total_of r)) \<le> unat (cs_deposit st)"
    and "cs_spent_amount st \<le> cs_cumulative st"
    and "pubkey_from_str (sl_crypto L) (au_channel_id u) = Inr key" "\<And>k m. \<exists>sg. os_sign_message signer k m = Inr sg"
  shows "\<exists>a st'. finish (serve L C (ReqCharge u signer n guard)) t s = (RepCharge (Inr a), s(au_channel_id u \<mapsto> st'))
    \<and> oc_charged a = n - total_of r \<and> \<not> oc_replay a
    \<and> unat (cs_cumulative st') = unat (cs_cumulative st) + (unat n - unat (total_of r))
    \<and> oc_cumulative a = cs_cumulative st' \<and> total_in (ledger_of st') (au_idempotency_key u) = unat n"
proof -
  let ?d = "n - total_of r" and ?i = "au_channel_id u"
  let ?c = "cs_cumulative st + ?d"
  have d: "unat ?d = unat n - unat (total_of r)"
    using assms(10) by (simp add: unat_sub)
  have room: "unat (cs_cumulative st) + unat ?d < 2 ^ 64" "unat (cs_spent_amount st) + unat ?d < 2 ^ 64"
    using assms(12,13) d unsigned_less [of "cs_deposit st", where 'a = nat] by (simp_all add: word_le_nat_alt)
  then have c: "checked_add (cs_cumulative st) ?d = Some ?c" "unat ?c = unat (cs_cumulative st) + unat ?d"
      "checked_add (cs_spent_amount st) ?d = Some (cs_spent_amount st + ?d)"
    by (simp_all add: checked_add_def unat_word_ariths)
  have fits: "?c \<le> cs_deposit st"
    using assms(12) c(2) d by (simp add: word_le_nat_alt)
  have "\<exists>m. voucher_message L (sv_data (operator_voucher ?i ?c (os_pubkey signer) [])) = Inr m"
    using assms(14) parse_u64_show [of ?c] by (simp add: voucher_message_def operator_voucher_def)
  then obtain m where m: "voucher_message L (sv_data (operator_voucher ?i ?c (os_pubkey signer) [])) = Inr m" ..
  obtain sg where sg: "os_sign_message signer 7 m = Inr sg" using assms(15) by blast
  let ?entry = "\<lparr>pu_challenge_id = au_challenge_id u, pu_idempotency_key = au_idempotency_key u, pu_cumulative = ?c,
          pu_voucher_signature = sl_bs58_encode L sg, pu_amount = Some n\<rparr>"
  obtain st' where st': "charged (mo_now t) (sc_operator C) ?d (sl_bs58_encode L sg) ?entry st = Inr st'"
    using c(3) by (simp add: charged_def)
  have after: "cs_cumulative st' = ?c" "cs_processed_uses st' = record_use (cs_processed_uses st) ?entry"
    using st' by (auto simp: charged_def try_bind_Inr_iff touched_def)
  obtain a where a: "finish (charge_attempts (Suc 7) L C u signer n guard) t s = (Inr a, s(?i \<mapsto> st'))"
      "oc_charged a = ?d" "\<not> oc_replay a" "oc_cumulative a = ?c"
    using finish_attempts [where guard = guard and C = C and s = s and u = u and st = st,
        OF assms(1,2,3,4,7) recent_read(2) [OF assms(8)] assms(9,10) c(1) fits assms(11) m sg st']
    by simp
  have "n \<noteq> 0" using assms(10) by auto
  then have "finish (serve L C (ReqCharge u signer n guard)) t s = (RepCharge (Inr a), s(?i \<mapsto> st'))"
    using a(1) assms(1,2,3,5,6) recent_read(1) [OF assms(8)]
    by (simp add: charge_operator_request_def OPERATOR_CHARGE_ATTEMPTS_def finish_refresh [of _ _ _ st] eval_nat_numeral del: charge_attempts.simps)
  moreover have "total_in (ledger_of st') (au_idempotency_key u) = unat n"
    using after(2) record_use_abs [of ?entry "unat n" "cs_processed_uses st"] by (simp add: total_in_def)
  ultimately show ?thesis
    using a(2-4) after(1) c(2) d by (intro exI [of _ a] exI [of _ st']) simp
qed

section \<open>A sample session\<close>

definition sample_session_lib :: "nat session_lib" where
  "sample_session_lib =
     \<lparr>sl_crypto = yes_crypto, sl_batch = None, sl_bs58_encode = (\<lambda>_. ''sig''),
      sl_bs58_decode = (\<lambda>_. Inr (replicate 32 0)), sl_verify = (\<lambda>_ _ _. True), sl_sha256 = id,
      sl_json_to_jcs = (\<lambda>_. Inr []), sl_authentication_to_string = (\<lambda>_. Inr ''proof''),
      sl_channel_from_bytes = (\<lambda>_. Inr toy_account),
      sl_binding_of_json = (\<lambda>_. None), sl_binding_to_json = (\<lambda>_. Inl [])\<rparr>"

definition sample_config :: session_server where
  "sample_config =
     \<lparr>sc_operator = ''op'', sc_recipient = ''recipient'', sc_splits = [], sc_amount = 10,
      sc_suggested_deposit = None, sc_minimum_deposit = None,
      sc_currency = ''USDC'', sc_decimals = 6, sc_network = ''mainnet'', sc_channel_program = None,
      sc_channel_version = None, sc_channel_hooks = None, sc_token_program = None, sc_min_voucher_delta = 0,
      sc_voucher_signer = Client, sc_operator_signing_key = None, sc_fee_payer_signer = None,
      sc_idle_timeout_options_seconds = None, sc_idle_timeout_seconds = 300, sc_grace_period_seconds = 900,
      sc_rpc_url = Some ''url'', ss_binding = None\<rparr>"

definition sample_moment :: moment where
  "sample_moment = \<lparr>mo_fault = Served, mo_now = 10, mo_account = Inl '''', mo_transaction = Inr ''tx''\<rparr>"

definition signed_for :: "u64 \<Rightarrow> signed_voucher" where
  "signed_for c = \<lparr>sv_data = \<lparr>vd_channel_id = ''chan'', vd_cumulative_amount = show_nat (unat c), vd_expires_at = None\<rparr>,
     sv_signer = ''signer'', sv_signature = ''sig''\<rparr>"

definition sample_begin :: request where
  "sample_begin = ReqBegin \<lparr>dr_session_id = ''chan'', dr_amount = 600, dr_delivery_id = Some ''d'',
     dr_commit_url = None, dr_proof = None, dr_expires_at = Some 1000\<rparr>"

definition voucher_900 :: request where
  "voucher_900 = ReqVoucher \<lparr>vpl_channel_id = ''chan'', vpl_voucher = signed_for 900\<rparr>"



lemma sample_mint: "\<exists>m. expected_payment_channel_mint sample_session_lib sample_config = Inr m"
  by (simp add: expected_payment_channel_mint_def sample_session_lib_def sample_config_def try_resolve_stablecoin_mint_def
   parse_pubkey_field_def parse_pubkey_def resolve_stablecoin_mint_def eq_ignore_ascii_def ascii_upper_def
   USDTEST_DEVNET_def)

lemma sample_fresh: "onchain_observed_at st = 0 \<Longrightarrow> \<not> snapshot_due (secs_u64 10) (snapshot_max_age sample_config) st"
  by (simp add: snapshot_due_def secs_u64_def snapshot_max_age_def CHANNEL_SNAPSHOT_MAX_AGE_SECONDS_def sample_config_def
    saturating_mul_def saturating_sub_def)


definition with_reservation :: channel_state where
  "with_reservation = sample_channel\<lparr>cs_next_delivery_sequence := 1, cs_pending_deliveries :=
     [\<lparr>pd_delivery_id = ''d'', pd_amount = 600, pd_sequence = 1, pd_expires_at = 1000, pd_request_fingerprint = None,
       pd_handler_succeeded = False\<rparr>]\<rparr>"

definition overrun_channel :: channel_state where
  "overrun_channel = with_reservation\<lparr>cs_cumulative := 900, cs_spent_amount := 110,
     cs_last_activity_at := 10000, cs_highest_voucher_signature := Some ''sig'', cs_highest_voucher_expires_at := Some 0\<rparr>"

lemma bound_samples [simp]:
  "bound_check sample_session_lib sample_config sample_channel = Inr ()"
  "bound_check sample_session_lib sample_config with_reservation = Inr ()"
  by (simp_all add: bound_check_def require_binding_def session_open_is_terminal_def read_binding_def opens_channel_def
      sample_channel_def with_reservation_def sample_config_def)

lemma sample_fields [simp]:
  "cs_extra with_reservation = cs_extra sample_channel" "cs_pending_setup with_reservation = cs_pending_setup sample_channel"
  "cs_extra overrun_channel = cs_extra sample_channel" "cs_pending_setup overrun_channel = cs_pending_setup sample_channel"
  by (simp_all add: with_reservation_def overrun_channel_def)

lemma observed_samples [simp]: "onchain_observed_at sample_channel = 0" "onchain_observed_at with_reservation = 0"
  by (simp_all add: onchain_observed_at_def sample_channel_def with_reservation_def)

lemma sample_begin_run:
  "\<exists>r. finish (serve sample_session_lib sample_config sample_begin) sample_moment [''chan'' \<mapsto> sample_channel]
     = (RepBegin (Inr r), [''chan'' \<mapsto> with_reservation])"
proof -
  obtain m where m: "expected_payment_channel_mint sample_session_lib sample_config = Inr m" using sample_mint ..
  have t: "mo_fault sample_moment = Served" "mo_now sample_moment = 10" by (simp_all add: sample_moment_def)
  have fresh: "require_fresh_snapshot 10 sample_channel (snapshot_max_age sample_config) = Inr ()"
    by (simp add: require_fresh_snapshot_def secs_u64_def snapshot_max_age_def
        CHANNEL_SNAPSHOT_MAX_AGE_SECONDS_def sample_config_def saturating_sub_def)
  have fits: "checked_add 100 (600 :: u64) = Some 700" by (simp add: checked_add_def)
  have "\<exists>d. begin_updater sample_config \<lparr>dr_session_id = ''chan'', dr_amount = 600, dr_delivery_id = Some ''d'',
      dr_commit_url = None, dr_proof = None, dr_expires_at = Some 1000\<rparr> (sl_bs58_encode sample_session_lib m) 10 (Some sample_channel)
    = Inr (with_reservation, d)"
    using fresh fits by (simp add: begin_updater_def) (simp add: sample_channel_def with_reservation_def Let_def delivery_exists_def)
  then show ?thesis
    using m t by (auto simp: sample_begin_def begin_delivery_def finish_refresh [of _ _ _ sample_channel] sample_fresh
      bound_with_ok [of _ _ sample_channel])
qed


lemma voucher_900_run:
  "\<exists>a. finish (serve sample_session_lib sample_config voucher_900) sample_moment [''chan'' \<mapsto> with_reservation]
     = (RepVoucher (Inr a), [''chan'' \<mapsto> overrun_channel])"
proof -
  let ?q = "priced_request sample_config (signed_for 900) 10 900 10"
  have t: "mo_fault sample_moment = Served" "mo_now sample_moment = 10" by (simp_all add: sample_moment_def)
  have fresh: "require_fresh_snapshot 10 with_reservation (snapshot_max_age sample_config) = Inr ()"
    by (simp add: require_fresh_snapshot_def secs_u64_def snapshot_max_age_def
        CHANNEL_SNAPSHOT_MAX_AGE_SECONDS_def sample_config_def saturating_sub_def)
  have p: "parse_u64 (vd_cumulative_amount (sv_data (signed_for 900))) = Some 900"
    using parse_u64_show [of 900] by (simp add: signed_for_def)
  have pre: "voucher_precheck (sl_crypto sample_session_lib) (sl_batch sample_session_lib) ?q with_reservation = Inr ()"
    by (simp add: voucher_precheck_ok) (simp add: priced_request_def sample_session_lib_def sample_config_def signed_for_def verify_request_def
       verify_voucher_signature_def voucher_verify_parts_def Voucher.map_err_def
      check_expiry_def yes_crypto_def toy_crypto_def with_reservation_def sample_channel_def le_saturating_sub)
  have up: "voucher_updater ?q (debit_commit sample_config 10 True no_guard 0 10) (Some with_reservation) = Inr (overrun_channel, False)"
    using fresh by (simp add: voucher_updater_def debit_commit_def no_guard_def) (simp add: with_reservation_def sample_channel_def is_replay_def priced_request_def signed_for_def
     checked_add_def touched_def overrun_channel_def idle_lifecycle_def saturating_sub_def millis_u64_def i64_min_def i64_max_def)
  obtain a where "finish (accept_steps sample_session_lib sample_config ?q (debit_commit sample_config 10 True no_guard 0)) sample_moment [''chan'' \<mapsto> with_reservation]
    = (Inr a, [''chan'' \<mapsto> overrun_channel])"
    using finish_accept [OF t(1) _ bound_samples(2) pre, where s = "[''chan'' \<mapsto> with_reservation]" and commit = "debit_commit sample_config 10 True no_guard 0" and st' = overrun_channel]
      up t(2) by (auto simp: priced_request_def signed_for_def)
  moreover have "vd_channel_id (sv_data (signed_for 900)) = ''chan''" "sv_signer (signed_for 900) = cs_authorized_signer with_reservation"
     "vd_expires_at (sv_data (signed_for 900)) = None" "cs_voucher_signer with_reservation \<noteq> ''operator''" "sc_voucher_signer sample_config = Client" "sc_amount sample_config = 10"
    by (simp_all add: signed_for_def with_reservation_def sample_channel_def sample_config_def)
  ultimately show ?thesis
    using t p by (simp add: voucher_900_def verify_voucher_def verify_voucher_priced_def Let_def finish_refresh [of _ _ _ with_reservation] sample_fresh)
qed

text \<open>A reservation of 600 and then a voucher for 900, on a deposit of 1000: both are accepted.\<close>

lemma overrun_run:
  "\<exists>sched d a. run_pool sched (map (serve sample_session_lib sample_config) [sample_begin, voucher_900], [''chan'' \<mapsto> sample_channel])
     = ([Ret (RepBegin (Inr d)), Ret (RepVoucher (Inr a))], [''chan'' \<mapsto> overrun_channel])"
proof -
  let ?p = "serve sample_session_lib sample_config sample_begin" and ?q = "serve sample_session_lib sample_config voucher_900"
  obtain d where d: "finish ?p sample_moment [''chan'' \<mapsto> sample_channel] = (RepBegin (Inr d), [''chan'' \<mapsto> with_reservation])"
    using sample_begin_run ..
  obtain a where a: "finish ?q sample_moment [''chan'' \<mapsto> with_reservation] = (RepVoucher (Inr a), [''chan'' \<mapsto> overrun_channel])"
    using voucher_900_run ..
  obtain m where m: "run_pool (replicate m (0, sample_moment)) ([?p, ?q], [''chan'' \<mapsto> sample_channel])
      = ([Ret (RepBegin (Inr d)), ?q], [''chan'' \<mapsto> with_reservation])"
    using finish_in_pool [of 0 "[?p, ?q]" ?p sample_moment "[''chan'' \<mapsto> sample_channel]"] d by auto
  obtain n where n: "run_pool (replicate n (1, sample_moment)) ([Ret (RepBegin (Inr d)), ?q], [''chan'' \<mapsto> with_reservation])
      = ([Ret (RepBegin (Inr d)), Ret (RepVoucher (Inr a))], [''chan'' \<mapsto> overrun_channel])"
    using finish_in_pool [of 1 "[Ret (RepBegin (Inr d)), ?q]" ?q sample_moment "[''chan'' \<mapsto> with_reservation]"] a by auto
  have "run_pool (replicate m (0, sample_moment) @ replicate n (1, sample_moment)) ([?p, ?q], [''chan'' \<mapsto> sample_channel])
      = ([Ret (RepBegin (Inr d)), Ret (RepVoucher (Inr a))], [''chan'' \<mapsto> overrun_channel])"
    using m n by (simp add: run_pool_def)
  then show ?thesis by auto
qed

text \<open>A client closes a channel nothing was spent on with a final voucher for 150.\<close>

definition unspent_channel :: channel_state where
  "unspent_channel = sample_channel\<lparr>cs_cumulative := 0, cs_spent_amount := 0\<rparr>"

definition closed_channel :: channel_state where
  "closed_channel = unspent_channel\<lparr>cs_cumulative := 150, cs_highest_voucher_signature := Some ''sig'',
     cs_highest_voucher_expires_at := Some 0, cs_close_requested_at := Some 10, cs_final_cumulative := Some 150\<rparr>"

definition close_150 :: close_payload where
  "close_150 = \<lparr>cz_channel_id = ''chan'', cz_authentication = None, cz_voucher = Some (signed_for 150)\<rparr>"

lemma bound_closed [simp]:
  "cs_extra closed_channel = cs_extra unspent_channel" "cs_pending_setup closed_channel = cs_pending_setup unspent_channel"
  "bound_check sample_session_lib sample_config unspent_channel = Inr ()"
  "bound_check sample_session_lib sample_config closed_channel = Inr ()"
  using bound_check_cong [of unspent_channel sample_channel sample_session_lib sample_config]
    bound_check_cong [of closed_channel sample_channel sample_session_lib sample_config]
  by (simp_all add: closed_channel_def unspent_channel_def)

lemma close_150_run:
  "\<exists>sched params. run_pool sched (map (serve sample_session_lib sample_config) [ReqClose close_150], [''chan'' \<mapsto> unspent_channel])
     = ([Ret (RepClose (Inr params))], [''chan'' \<mapsto> closed_channel])
     \<and> sep_voucher_signature params = Some ''sig'' \<and> sep_voucher_expires_at params = Some 0"
proof -
  let ?p = "serve sample_session_lib sample_config (ReqClose close_150)"
  have t: "mo_fault sample_moment = Served" "mo_now sample_moment = 10" "mo_account sample_moment = Inl []"
    by (simp_all add: sample_moment_def)
  have amount: "parse_u64 (vd_cumulative_amount (sv_data (signed_for 150))) = Some 150"
    using parse_u64_show [of 150] by (simp add: signed_for_def)
  have "verify_signature sample_session_lib 10 (signed_for 150) ''signer'' 900 = Inr ()"
    using amount by (simp add: verify_signature_def)
      (simp add: sample_session_lib_def signed_for_def verify_voucher_signature_def voucher_verify_parts_def
        Voucher.map_err_def check_expiry_def yes_crypto_def toy_crypto_def)
  moreover have "vd_expires_at (sv_data (signed_for 150)) = None" "sv_signature (signed_for 150) = ''sig''"
    by (simp_all add: signed_for_def)
  ultimately have "close_updater sample_session_lib sample_config close_150 10 10 (Some unspent_channel) = Inr closed_channel"
    using amount by (simp add: close_updater_def owed_def check_close_def final_voucher_def pay_owed_def close_150_def
        unspent_channel_def closed_channel_def sample_channel_def sample_config_def Let_def)
  moreover obtain params where params: "seal_params_of sample_session_lib sample_config ''chan'' closed_channel = Inr params"
      "sep_voucher_signature params = Some ''sig''" "sep_voucher_expires_at params = Some 0"
    by (simp add: seal_params_of_def closed_channel_def unspent_channel_def sample_channel_def parse_pubkey_def sample_session_lib_def)
  moreover have "finish (seal_params sample_session_lib sample_config ''chan'') sample_moment [''chan'' \<mapsto> closed_channel]
      = (Inr params, [''chan'' \<mapsto> closed_channel])"
  proof -
    have "\<exists>e. finish (read_channel_lifecycle sample_session_lib sample_config ''chan'' (secs_u64 10)) sample_moment s = (Inl e, s)" for s
      using t by (cases "sc_rpc_url sample_config"; cases "channel_deployment sample_session_lib sample_config";
          cases "parse_pubkey sample_session_lib ''chan''") (simp_all add: read_channel_lifecycle_def)
    then obtain e where "finish (read_channel_lifecycle sample_session_lib sample_config ''chan'' (secs_u64 10)) sample_moment
        [''chan'' \<mapsto> closed_channel] = (Inl e, [''chan'' \<mapsto> closed_channel])" by blast
    moreover have "\<not> cs_deposit closed_channel < cs_cumulative closed_channel"
      by (simp add: closed_channel_def unspent_channel_def sample_channel_def)
    ultimately show ?thesis
      using t params(1) by (simp add: seal_params_def seal_with_read_def)
  qed
  moreover have "vd_channel_id (sv_data (signed_for 150)) = ''chan''"
    by (simp add: signed_for_def)
  ultimately have "finish ?p sample_moment [''chan'' \<mapsto> unspent_channel] = (RepClose (Inr params), [''chan'' \<mapsto> closed_channel])"
    using t by (auto simp: process_close_def close_150_def bound_update_ok [of _ _ unspent_channel])
  then show ?thesis
    using finish_in_pool [of 0 "[?p]" ?p sample_moment "[''chan'' \<mapsto> unspent_channel]"] params by auto
qed

text \<open>An operator-signed channel, and a request metered at 25.\<close>

definition operator_channel :: channel_state where
  "operator_channel = sample_channel\<lparr>cs_voucher_signer := ''operator'', cs_authentication := Some ''proof''\<rparr>"

definition operator_config :: session_server where
  "operator_config = sample_config\<lparr>sc_voucher_signer := Operator\<rparr>"

definition sample_use :: authenticated_use where
  "sample_use = \<lparr>au_channel_id = ''chan'', au_authentication = ''proof'', au_challenge_id = ''ch'', au_idempotency_key = ''k''\<rparr>"

definition sample_operator :: operator_signer where
  "sample_operator = \<lparr>os_pubkey = ''op'', os_sign_message = (\<lambda>_ _. Inr [])\<rparr>"

lemma bound_operator [simp]: "bound_check sample_session_lib operator_config operator_channel = Inr ()"
  by (simp add: bound_check_def require_binding_def session_open_is_terminal_def read_binding_def opens_channel_def
      sample_channel_def operator_channel_def sample_config_def operator_config_def)

lemma operator_sample [simp]:
  "\<not> is_closed operator_channel" "sc_voucher_signer operator_config = Operator"
  "os_pubkey sample_operator = sc_operator operator_config"
  "check_bound_authentication operator_channel (au_authentication sample_use) = Inr ()"
  "onchain_observed_at operator_channel = 0" "recorded_use operator_channel sample_use = Inr None"
  "cs_cumulative operator_channel = 100" "cs_spent_amount operator_channel = 100" "cs_deposit operator_channel = 1000"
  "pubkey_from_str (sl_crypto sample_session_lib) i = Inr (replicate 32 0)"
  "os_sign_message sample_operator k m = Inr []" "au_channel_id sample_use = ''chan''" "au_idempotency_key sample_use = ''k''"
  "cs_voucher_signer operator_channel = ''operator''" "cs_processed_uses operator_channel = []"
  "unat (snapshot_max_age operator_config) = 30" "mo_fault sample_moment = Served" "unat (secs_u64 (mo_now sample_moment)) = 10"
  by (simp_all add: operator_channel_def operator_config_def sample_channel_def sample_config_def sample_use_def
      sample_operator_def sample_session_lib_def sample_moment_def is_closed_def check_bound_authentication_def
      onchain_observed_at_def recorded_use_def find_use_def yes_crypto_def toy_crypto_def snapshot_max_age_def
      CHANNEL_SNAPSHOT_MAX_AGE_SECONDS_def secs_u64_def)

end
