(* ===== verification/Session_Properties.thy ===== *)
theory Session_Properties
  imports Session_Sample
begin

text \<open>
  The properties of the session server.  Each speaks of any number of requests, of every kind,
  against any channels, run step by step under any schedule, while calls of the store may be
  refused or lose their reply.
\<close>

section \<open>Lemmas: solvency and redeemability\<close>

definition solvent :: "ledger \<Rightarrow> bool" where
  "solvent l \<longleftrightarrow> lg_spent l \<le> lg_cumulative l \<and> lg_cumulative l \<le> lg_deposit l"

lemma move_solvent: "move m g now e l l' \<Longrightarrow> solvent l \<Longrightarrow> solvent l'"
  by (erule move.cases) (auto simp: solvent_def)

text \<open>The server holds a voucher for exactly its watermark, unless the vouchers are its own.\<close>

definition redeemable :: "(string \<Rightarrow> nat \<Rightarrow> i64 \<Rightarrow> string \<Rightarrow> bool) \<Rightarrow> ledger \<Rightarrow> bool" where
  "redeemable g l \<longleftrightarrow> lg_operator l
     \<or> (case lg_voucher l of
          None \<Rightarrow> lg_cumulative l = 0
        | Some (signature, e) \<Rightarrow> g (lg_signer l) (lg_cumulative l) e signature)"

lemma move_redeemable: "move m g now e l l' \<Longrightarrow> redeemable g l \<Longrightarrow> redeemable g l'"
  by (erule move.cases) (auto simp: redeemable_def split: option.splits)

text \<open>The reservations of a channel that is used for deliveries alone.\<close>

definition covered :: "ledger \<Rightarrow> bool" where
  "covered l \<longleftrightarrow> lg_cumulative l + sum_pending (lg_pending l) \<le> lg_deposit l"

fun pays_outside :: "event \<Rightarrow> bool" where
  "pays_outside (EvVoucher c n) = True"
| "pays_outside (EvCharge k ch n) = True"
| "pays_outside (EvClose c) = True"
| "pays_outside _ = False"

lemma sum_set_usage:
  "map_of ds d = Some r \<Longrightarrow> sum_pending (set_usage d n ds) + r = sum_pending ds + n"
  by (induction ds) (auto simp: sum_pending_def split: if_splits)

lemma move_covered:
  assumes "move m g now e l l'" "\<not> pays_outside e" "covered l"
  shows "covered l'"
  using assms
proof cases
  case (usage d r n)
  with sum_set_usage [of "lg_pending l" d r n] assms(3) show ?thesis
    by (simp add: covered_def)
next
  case (commit d n expires_at signature)
  with sum_set_usage [of "lg_pending l" d n 0] assms(3) show ?thesis
    by (simp add: covered_def)
qed (auto simp: covered_def sum_pending_def)

section \<open>Lemmas: the charges of an operator session\<close>

definition keys_of :: "ledger \<Rightarrow> string set" where
  "keys_of l = fst ` set (lg_uses l)"

text \<open>
  The ledger of an operator session since \<open>l0\<close>, while its requests have keys in \<open>K\<close>: nothing
  was forgotten, and the watermark rose by what the requests' totals did.
\<close>

definition tallied :: "string set \<Rightarrow> scope \<Rightarrow> string \<Rightarrow> ledger \<Rightarrow> ledger \<Rightarrow> bool" where
  "tallied K A i l0 l \<longleftrightarrow>
     lg_operator l \<and> distinct (map fst (lg_uses l)) \<and> keys_of l \<subseteq> K
     \<and> (\<forall>k. total_in l0 k \<le> total_in l k)
     \<and> (\<forall>k. total_in l k = total_in l0 k \<or> (\<exists>ch. A i (EvCharge k ch (total_in l k))))
     \<and> lg_cumulative l = lg_cumulative l0 + (\<Sum>k\<in>K. total_in l k - total_in l0 k)"

lemma put_use_all:
  assumes "distinct (map fst us)" "fst ` set us \<union> {key} \<subseteq> K" "finite K" "card K \<le> MAX_PROCESSED_USES"
  shows "put_use key ch n us = filter (\<lambda>u. fst u \<noteq> key) us @ [(key, ch, Some n)]"
proof -
  let ?pushed = "filter (\<lambda>u. fst u \<noteq> key) us @ [(key, ch, Some n)]"
  have "distinct (map fst ?pushed)"
    using assms(1) by (auto simp: distinct_map_filter)
  then have "length ?pushed = card (fst ` set ?pushed)"
    using distinct_card [of "map fst ?pushed"] by (simp only: length_map set_map)
  also have "\<dots> \<le> card K"
    using assms(2,3) by (intro card_mono) auto
  finally have "length ?pushed - MAX_PROCESSED_USES = 0"
    using assms(4) by simp
  then show ?thesis
    unfolding put_use_def Let_def by simp
qed

lemma map_of_put_use:
  assumes "k \<noteq> key"
  shows "map_of (filter (\<lambda>u. fst u \<noteq> key) us @ [(key, ch, Some n)]) k = map_of us k"
  using assms by (induction us) auto

lemma move_tallied:
  assumes "move m g now e l l'" "A i e" "tallied K A i l0 l"
    and "finite K" "card K \<le> MAX_PROCESSED_USES"
    and "\<And>d n. \<not> A i (EvCommit d n)" "\<And>k ch n. A i (EvCharge k ch n) \<Longrightarrow> k \<in> K"
  shows "tallied K A i l0 l'"
  using assms(1)
proof cases
  case (charge key challenge n signature)
  let ?us = "filter (\<lambda>u. fst u \<noteq> key) (lg_uses l) @ [(key, challenge, Some n)]"
  have key: "key \<in> K" using assms(2,7) charge(1) by blast
  have us: "put_use key challenge n (lg_uses l) = ?us"
    using assms(3) key by (intro put_use_all [OF _ _ assms(4,5)]) (auto simp: tallied_def keys_of_def)
  have total: "total_in l' k = (if k = key then n else total_in l k)" for k
  proof (cases "k = key")
    case True
    then show ?thesis using charge(2) by (simp add: total_in_def)
  next
    case False
    then show ?thesis
      using charge(2) us map_of_put_use [OF False, of "lg_uses l" challenge n] by (simp add: total_in_def)
  qed
  have le: "total_in l0 key \<le> total_in l key" "total_in l key \<le> n"
    using assms(3) charge by (auto simp: tallied_def)
  have "(\<Sum>k\<in>K. total_in l' k - total_in l0 k)
      = (n - total_in l0 key) + (\<Sum>k\<in>K - {key}. total_in l k - total_in l0 k)"
    using assms(4) key by (subst sum.remove [of K key]) (auto simp: total intro!: sum.cong)
  moreover have "(\<Sum>k\<in>K. total_in l k - total_in l0 k)
      = (total_in l key - total_in l0 key) + (\<Sum>k\<in>K - {key}. total_in l k - total_in l0 k)"
    using assms(4) key by (subst sum.remove [of K key]) auto
  moreover have "lg_cumulative l' = lg_cumulative l + (n - total_in l key)"
    using charge(2) by simp
  moreover have "lg_cumulative l = lg_cumulative l0 + (\<Sum>k\<in>K. total_in l k - total_in l0 k)"
    using assms(3) by (simp add: tallied_def)
  ultimately have cum: "lg_cumulative l' = lg_cumulative l0 + (\<Sum>k\<in>K. total_in l' k - total_in l0 k)"
    using le by linarith
  have "distinct (map fst ?us)" "fst ` set ?us \<subseteq> K"
    using assms(3) key by (auto simp: tallied_def keys_of_def distinct_map_filter)
  moreover have "lg_operator l'" "lg_uses l' = ?us" "A i (EvCharge key challenge n)"
    using assms(2) charge us by simp_all
  moreover have "total_in l0 k \<le> total_in l' k" for k
    using assms(3) order.trans [OF le] by (auto simp: total tallied_def)
  moreover have "total_in l' k = total_in l0 k \<or> (\<exists>ch. A i (EvCharge k ch (total_in l' k)))" for k
    using assms(3) calculation(5) by (auto simp: total tallied_def)
  ultimately show ?thesis
    using cum by (simp only: tallied_def keys_of_def) blast
qed (use assms(2,3,6) in \<open>auto simp: tallied_def total_in_def keys_of_def\<close>)

section \<open>Lemmas: well-formed records\<close>

text \<open>
  Every request is recorded once and only the newest are kept; every reservation is for something
  and has an id of its own, which no remembered commit has; every top-up is counted once.
\<close>

definition well_formed :: "ledger \<Rightarrow> bool" where
  "well_formed l \<longleftrightarrow>
     distinct (map fst (lg_uses l)) \<and> length (lg_uses l) \<le> MAX_PROCESSED_USES
     \<and> distinct (map fst (lg_pending l)) \<and> (\<forall>d \<in> set (lg_pending l). 0 < snd d)
     \<and> distinct (map fst (lg_committed l)) \<and> length (lg_committed l) \<le> MAX_COMMITTED_AUTHORIZATIONS
     \<and> fst ` set (lg_pending l) \<inter> fst ` set (lg_committed l) = {} \<and> distinct (lg_topups l)"

lemma put_use_wf:
  assumes "distinct (map fst us)"
  shows "distinct (map fst (put_use key ch n us))" "length (put_use key ch n us) \<le> MAX_PROCESSED_USES"
proof -
  have "distinct (map fst (filter (\<lambda>u. fst u \<noteq> key) us @ [(key, ch, Some n)]))"
    using assms by (auto simp: distinct_map_filter)
  then show "distinct (map fst (put_use key ch n us))"
    unfolding put_use_def Let_def drop_map [symmetric] by (rule distinct_drop)
qed (simp add: put_use_def Let_def)

lemma set_usage_wf:
  assumes "distinct (map fst ds)" "\<forall>x \<in> set ds. 0 < snd x"
  shows "distinct (map fst (set_usage d n ds))" "\<forall>x \<in> set (set_usage d n ds). 0 < snd x"
    "fst ` set (set_usage d n ds) = fst ` set ds - (if n = 0 then {d} else {})"
proof -
  have sub: "fst ` set (set_usage d n ds) \<subseteq> fst ` set ds" for ds
    by (induction ds) auto
  show "distinct (map fst (set_usage d n ds))"
    using assms(1) by (induction ds) (use sub in \<open>auto simp: image_subset_iff\<close>, force+)
  show "\<forall>x \<in> set (set_usage d n ds). 0 < snd x"
    using assms(2) by (induction ds) auto
  show "fst ` set (set_usage d n ds) = fst ` set ds - (if n = 0 then {d} else {})"
    using assms(1) by (induction ds) (auto split: if_splits, force)
qed

lemma pushed_wf:
  assumes "distinct (map fst cs)" "d \<notin> fst ` set cs"
  shows "distinct (map fst (drop k (cs @ [(d, n)])))" "fst ` set (drop k (cs @ [(d, n)])) \<subseteq> insert d (fst ` set cs)"
proof -
  have "distinct (map fst (cs @ [(d, n)]))" using assms by simp
  then show "distinct (map fst (drop k (cs @ [(d, n)])))"
    unfolding drop_map [symmetric] by (rule distinct_drop)
  show "fst ` set (drop k (cs @ [(d, n)])) \<subseteq> insert d (fst ` set cs)"
    using set_drop_subset [of k "cs @ [(d, n)]"] by auto
qed

lemma kept_wf:
  assumes "mset ds = mset due + mset rest" "distinct (map fst ds)"
  shows "distinct (map fst rest)" "set rest \<subseteq> set ds"
proof -
  have "mset (map fst ds) = mset (map fst due @ map fst rest)" using assms(1) by simp
  then have "distinct (map fst due @ map fst rest)"
    using assms(2) mset_eq_imp_distinct_iff by blast
  then show "distinct (map fst rest)" by simp
  have "set ds = set due \<union> set rest"
    using arg_cong [OF assms(1), of set_mset] by simp
  then show "set rest \<subseteq> set ds" by blast
qed

lemma move_well_formed:
  assumes "move m g now e l l'" "well_formed l"
  shows "well_formed l'"
  using assms(1)
proof cases
  case (charge key challenge n signature)
  with assms(2) put_use_wf [of "lg_uses l"] show ?thesis by (simp add: well_formed_def)
next
  case (usage d r n)
  with assms(2) set_usage_wf [of "lg_pending l" d n] show ?thesis by (auto simp: well_formed_def)
next
  case (commit d n expires_at signature)
  then have d: "d \<notin> fst ` set (lg_committed l)" by simp
  let ?ds = "set_usage d 0 (lg_pending l)"
  let ?cs = "drop (length (lg_committed l @ [(d, n)]) - MAX_COMMITTED_AUTHORIZATIONS) (lg_committed l @ [(d, n)])"
  have "distinct (map fst ?ds)" "\<forall>x \<in> set ?ds. 0 < snd x" "fst ` set ?ds = fst ` set (lg_pending l) - {d}"
    using assms(2) set_usage_wf [of "lg_pending l" d 0] by (simp_all add: well_formed_def)
  moreover have "distinct (map fst ?cs)" "fst ` set ?cs \<subseteq> insert d (fst ` set (lg_committed l))"
    using assms(2) pushed_wf [OF _ d] by (simp_all only: well_formed_def)
  moreover have "fst ` set (lg_pending l) \<inter> fst ` set (lg_committed l) = {}"
    using assms(2) by (simp add: well_formed_def)
  then have "fst ` set ?ds \<inter> fst ` set ?cs = {}"
    using calculation(3,5) by blast
  moreover have "length ?cs \<le> MAX_COMMITTED_AUTHORIZATIONS" by simp
  moreover have "lg_pending l' = ?ds" "lg_committed l' = ?cs" "lg_uses l' = lg_uses l" "lg_topups l' = lg_topups l"
    using commit(2) by (simp_all add: Let_def)
  ultimately show ?thesis
    using assms(2) unfolding well_formed_def by (simp only: simp_thms)
next
  case (close due rest c v)
  have "distinct (map fst rest)" "set rest \<subseteq> set (lg_pending l)"
    using assms(2) kept_wf [OF close(4)] by (simp_all add: well_formed_def)
  then have "distinct (map fst rest)" "\<forall>d \<in> set rest. 0 < snd d" "fst ` set rest \<inter> fst ` set (lg_committed l) = {}"
    using assms(2) unfolding well_formed_def by blast+
  with assms(2) close(2) show ?thesis by (simp add: well_formed_def)
qed (use assms(2) in \<open>auto simp: well_formed_def\<close>)

section \<open>Lemmas: how long a handler runs\<close>

lemmas nat_literals = numeral_eq_Suc pred_numeral_simps Num.BitM.simps

named_theorems within_intros

lemma within_Ret [within_intros]: "within n (Ret r)"
  by (cases n) simp_all

lemma within_then [within_intros]:
  "within (Suc 0) p \<Longrightarrow> (\<And>r. within n (k r)) \<Longrightarrow> within (Suc n) (bind_act p k)"
  using within_bind [of "Suc 0" p n k] by simp

lemma within_then_try [within_intros]:
  "within (Suc 0) p \<Longrightarrow> (\<And>a. within n (k a)) \<Longrightarrow> within (Suc n) (try_act p k)"
  using within_try [of "Suc 0" p n k] by simp

lemma within_attempt_all [within_intros]: "(\<And>a. within n (k a)) \<Longrightarrow> within n (attempt r k)"
  by (rule within_attempt)

lemma within_if [within_intros]: "within n p \<Longrightarrow> within n q \<Longrightarrow> within n (if b then p else q)"
  by simp

lemma within_case [within_intros]:
  "(\<And>a b. within n (f a b)) \<Longrightarrow> within n (case x of (a, b) \<Rightarrow> f a b)"
  "within n p \<Longrightarrow> (\<And>a. within n (q a)) \<Longrightarrow> within n (case y of None \<Rightarrow> p | Some a \<Rightarrow> q a)"
  "(\<And>a. within n (g a)) \<Longrightarrow> (\<And>b. within n (h b)) \<Longrightarrow> within n (case z of Inl a \<Rightarrow> g a | Inr b \<Rightarrow> h b)"
  by (auto split: prod.split option.split sum.split)

lemma within_local_one [within_intros]:
  "within (Suc 0) clock" "within (Suc 0) read_account" "within (Suc 0) submit_transaction"
  "within (Suc 0) (access op)"
  by simp_all

lemma within_access_one [within_intros]: "within (Suc 0) (access_err wrap op)"
  by (auto simp: access_err_def split: fault.split prod.split)

lemma within_on_store [within_intros]: "within (Suc 0) (on_store op)"
  unfolding on_store_def by (intro within_intros)

lemma within_fetch [within_intros]: "within (Suc 0) (fetch_channel L C i)"
  unfolding fetch_channel_def by (rule within_on_store)

lemma within_require [within_intros]: "within (Suc 0) (require_channel L C i)"
  unfolding require_channel_def by (intro within_intros)

lemma within_lifecycle [within_intros]: "within (Suc 0) (read_channel_lifecycle L C i now)"
  unfolding read_channel_lifecycle_def Let_def
  by (intro within_intros)

lemma within_refresh: "within 4 (refresh_channel_snapshot L C i)"
  unfolding refresh_channel_snapshot_def Let_def nat_literals
  by (intro within_intros)

lemma within_refreshed:
  assumes "\<And>a. within n (k a)"
  shows "within (Suc (Suc (Suc (Suc n)))) (try_act (refresh_channel_snapshot L C i) k)"
  using within_try [OF within_refresh assms] by (simp add: numeral_eq_Suc)

lemma within_watermark [within_intros]: "within (Suc 0) (watermark_moved L C i base)"
  unfolding watermark_moved_def by (intro within_intros)

lemma within_attempts: "within (3 * n) (charge_attempts n L C u signer amount guard)"
proof (induction n)
  case (Suc n)
  have more: "within (Suc (3 * n)) (charge_attempts n L C u signer amount guard)"
    by (rule within_mono [OF Suc.IH]) simp
  have "3 * Suc n = Suc (Suc (Suc (3 * n)))" by simp
  then show ?case
    unfolding charge_attempts.simps Let_def
    by (simp only:) (intro within_intros more Suc.IH)
qed simp

lemma within_charge: "within 28 (charge_operator_request L C u signer n guard)"
proof -
  have "within (Suc (Suc (Suc (Suc (3 * 8))))) (charge_operator_request L C u signer n guard)"
    unfolding charge_operator_request_def OPERATOR_CHARGE_ATTEMPTS_def
    by (intro within_intros within_refreshed within_attempts)
  then show ?thesis by simp
qed

lemma within_voucher: "within 8 (verify_voucher_priced L C p price allow guard)"
  unfolding verify_voucher_priced_def accept_steps_def Let_def nat_literals
  by (intro within_intros within_refreshed)

lemma within_seal: "within 4 (seal_params L C i)"
  unfolding seal_params_def seal_with_read_def nat_literals
  by (intro within_intros)

lemma within_answering: "within n p \<Longrightarrow> within n (answering f p)"
  unfolding answering_def using within_bind [of n p 0 "\<lambda>r. Ret (f r)"] by simp

lemma within_serve: "within 28 (serve L C r)"
proof -
  have voucher: "within 28 (verify_voucher_priced L C p price allow guard)" for p price allow guard
    by (rule within_mono [OF within_voucher]) simp
  have use: "within 5 (process_use L C p ch k)" for p ch k
    unfolding process_use_def Let_def nat_literals
    by (intro within_intros within_refreshed)
  have authenticate: "within 5 (authenticate_use L C p ch k)" for p ch k
    unfolding authenticate_use_def nat_literals by (intro within_intros within_refreshed)
  have topup: "within 3 (process_topup_with_outcome L C p)" for p
  proof -
    have "within (Suc 0) (topup_channel L C p)"
      unfolding topup_channel_def by (intro within_intros)
    then show ?thesis
      unfolding process_topup_with_outcome_def nat_literals
      by (intro within_intros)
  qed
  have begin_d: "within 5 (begin_delivery L C d)" for d
    unfolding begin_delivery_def nat_literals
    by (intro within_intros within_refreshed)
  have commit: "within 4 (process_commit L C p)" for p
    unfolding process_commit_def Let_def nat_literals
    by (intro within_intros)
  have usage: "within (Suc 0) (record_delivery_usage L C i d n)" for i d n
    unfolding record_delivery_usage_def by (intro within_intros)
  have close: "within 6 (process_close L C p)" for p
    using within_seal [of L C] unfolding process_close_def nat_literals
    by (intro within_intros)
  have mark: "within 3 (session_mark_sealed L C i)" for i
    unfolding session_mark_sealed_def nat_literals
    by (intro within_intros)
  show ?thesis
  proof (cases r)
  qed (auto simp: verify_voucher_def verify_voucher_with_guard_def verify_voucher_for_amount_def
      intro!: within_answering voucher within_charge within_Ret
      intro: within_mono [OF use] within_mono [OF authenticate] within_mono [OF topup] within_mono [OF begin_d]
        within_mono [OF commit] within_mono [OF usage] within_mono [OF close] within_mono [OF mark] within_mono [OF within_seal])
qed

section \<open>Properties\<close>

text \<open>
  C13.  Every run of the session server is a run of the ledger.  Whatever requests are served
  together and however their steps interleave and the store fails, the channel is still there, and
  its ledger got where it is by moves that these requests allow.
\<close>

theorem session_refines_ledger:
  assumes "run_pool sched (map (serve L C) rs, s) = (ps', s')" "s i = Some st"
  shows "\<exists>st'. s' i = Some st' \<and> reaches L C (scope_of C rs) i (ledger_of st) (ledger_of st')"
  using rely_Some [OF pool_keeps(1) [OF assms(1)] assms(2)] by blast

theorem session_refines_ledger_witness:
  "\<exists>sched d a. run_pool sched (map (serve sample_session_lib sample_config) [sample_begin, voucher_900], [''chan'' \<mapsto> sample_channel])
      = ([Ret (RepBegin (Inr d)), Ret (RepVoucher (Inr a))], [''chan'' \<mapsto> overrun_channel])
    \<and> reaches sample_session_lib sample_config (scope_of sample_config [sample_begin, voucher_900]) ''chan''
        (ledger_of sample_channel) (ledger_of overrun_channel)"
proof -
  obtain sched d a where run: "run_pool sched (map (serve sample_session_lib sample_config) [sample_begin, voucher_900],
      [''chan'' \<mapsto> sample_channel]) = ([Ret (RepBegin (Inr d)), Ret (RepVoucher (Inr a))], [''chan'' \<mapsto> overrun_channel])"
    using overrun_run by blast
  with session_refines_ledger [OF run, of "''chan''" sample_channel] show ?thesis
    by (intro exI [of _ sched] exI [of _ d] exI [of _ a]) simp
qed

text \<open>
  C15.  The session server never serves more than the vouchers it holds authorize, and never holds
  more than the deposit backs: if a channel's spent amount is within its watermark and the
  watermark within the deposit, they still are after any requests, in any interleaving, and the
  watermark has not fallen.
\<close>

theorem session_stays_solvent:
  assumes "run_pool sched (map (serve L C) rs, s) = (ps', s')" "s i = Some st"
    and "cs_spent_amount st \<le> cs_cumulative st" "cs_cumulative st \<le> cs_deposit st"
  shows "\<exists>st'. s' i = Some st' \<and> cs_spent_amount st' \<le> cs_cumulative st'
    \<and> cs_cumulative st' \<le> cs_deposit st' \<and> cs_cumulative st \<le> cs_cumulative st'"
proof -
  obtain st' where st': "s' i = Some st'" and r: "reaches L C (scope_of C rs) i (ledger_of st) (ledger_of st')"
    using rely_Some [OF pool_keeps(1) [OF assms(1)] assms(2)] by blast
  have "solvent (ledger_of st')"
    by (rule reaches_keeps [OF r]) (use assms(3,4) move_solvent in \<open>auto simp: solvent_def word_le_nat_alt\<close>)
  with reaches_fixed(4) [OF r] st' show ?thesis
    by (simp add: solvent_def word_le_nat_alt)
qed

theorem session_stays_solvent_witness:
  "\<exists>sched ps' s' st'. run_pool sched (map (serve sample_session_lib sample_config) [sample_begin, voucher_900],
      [''chan'' \<mapsto> sample_channel]) = (ps', s')
    \<and> s' ''chan'' = Some st' \<and> cs_cumulative st' \<le> cs_deposit st' \<and> 100 \<le> cs_cumulative st'"
proof -
  obtain sched d a where run: "run_pool sched (map (serve sample_session_lib sample_config) [sample_begin, voucher_900],
      [''chan'' \<mapsto> sample_channel]) = ([Ret (RepBegin (Inr d)), Ret (RepVoucher (Inr a))], [''chan'' \<mapsto> overrun_channel])"
    using overrun_run by blast
  have "cs_spent_amount sample_channel \<le> cs_cumulative sample_channel" "cs_cumulative sample_channel \<le> cs_deposit sample_channel"
      "cs_cumulative sample_channel = 100"
    by (simp_all add: sample_channel_def)
  with session_stays_solvent [OF run, of "''chan''" sample_channel] run show ?thesis
    by (intro exI [of _ sched] exI) auto
qed

text \<open>
  C21.  The channel record stays well formed under any requests in any interleaving: each
  idempotency key is recorded once and at most 256 are kept, reservations are positive with ids of
  their own that no remembered commit shares, commits are remembered once and within their limit,
  and no top-up transaction is counted twice.
\<close>

theorem session_record_well_formed:
  assumes "run_pool sched (map (serve L C) rs, s) = (ps', s')" "s i = Some st" "well_formed (ledger_of st)"
  shows "\<exists>st'. s' i = Some st' \<and> well_formed (ledger_of st')"
proof -
  obtain st' where st': "s' i = Some st'" "reaches L C (scope_of C rs) i (ledger_of st) (ledger_of st')"
    using rely_Some [OF pool_keeps(1) [OF assms(1)] assms(2)] by blast
  have "well_formed (ledger_of st')"
    by (rule reaches_keeps [where P = well_formed, OF st'(2) assms(3)]) (rule move_well_formed)
  with st'(1) show ?thesis by blast
qed

theorem session_record_well_formed_witness:
  "\<exists>sched ps' s' st'. run_pool sched (map (serve sample_session_lib sample_config) [sample_begin, voucher_900],
      [''chan'' \<mapsto> sample_channel]) = (ps', s')
    \<and> s' ''chan'' = Some st' \<and> cs_pending_deliveries st' \<noteq> [] \<and> well_formed (ledger_of st')"
proof -
  obtain sched d a where run: "run_pool sched (map (serve sample_session_lib sample_config) [sample_begin, voucher_900],
      [''chan'' \<mapsto> sample_channel]) = ([Ret (RepBegin (Inr d)), Ret (RepVoucher (Inr a))], [''chan'' \<mapsto> overrun_channel])"
    using overrun_run by blast
  have "well_formed (ledger_of sample_channel)" "cs_pending_deliveries overrun_channel \<noteq> []"
    by (simp_all add: well_formed_def sample_channel_def overrun_channel_def with_reservation_def)
  with session_record_well_formed [OF run, of "''chan''" sample_channel] run show ?thesis
    by (intro exI [of _ sched] exI) auto
qed

text \<open>
  C22.  Every request finishes.  Whatever the other requests do, and whatever the store and the
  chain answer, a session request is done after at most 28 of its own steps: the retries of an
  operator charge cannot go on for ever.
\<close>

theorem session_request_finishes:
  assumes "j < length rs" "28 \<le> count_list (map fst sched) j"
  shows "\<exists>reply. fst (run_pool sched (map (serve L C) rs, s)) ! j = Ret reply"
  using assms within_serve [of L C "rs ! j"]
  by (intro within_run_pool [where n = 28]) simp_all

theorem session_request_finishes_witness:
  "\<exists>reply. fst (run_pool (replicate 28 (0, sample_moment))
      (map (serve sample_session_lib sample_config) [voucher_900], [''chan'' \<mapsto> with_reservation])) ! 0 = Ret reply"
proof -
  have "count_list (replicate n (0 :: nat)) 0 = n" for n by (induction n) simp_all
  then show ?thesis
    by (intro session_request_finishes) (simp_all only: map_replicate list.size fst_conv)
qed

text \<open>
  C14.  An operator session charges each request exactly once.  Let any requests other than commits
  run on an operator-signed channel, with at most 256 idempotency keys in all, old and new.  Then
  the watermark rises by exactly the sum of what the keys' recorded totals rose; every total is the
  one from before or one that was asked for under that key; and a metered charge that was answered
  with success is covered by the total of its key.  Retries, lost replies and concurrent charges of
  the same key change none of this.
\<close>

theorem operator_requests_charged_once:
  assumes "run_pool sched (map (serve L C) rs, s) = (ps', s')" "s i = Some st"
    and "cs_voucher_signer st = ''operator''" "distinct (map pu_idempotency_key (cs_processed_uses st))"
    and "K = keys_of (ledger_of st) \<union> {k. \<exists>ch n. scope_of C rs i (EvCharge k ch n)}"
    and "finite K" "card K \<le> 256" "\<And>d n. \<not> scope_of C rs i (EvCommit d n)"
  shows "\<exists>st'. s' i = Some st'
    \<and> unat (cs_cumulative st') = unat (cs_cumulative st)
        + (\<Sum>k\<in>K. total_in (ledger_of st') k - total_in (ledger_of st) k)
    \<and> (\<forall>k. total_in (ledger_of st) k \<le> total_in (ledger_of st') k
        \<and> (total_in (ledger_of st') k = total_in (ledger_of st) k
           \<or> (\<exists>ch. scope_of C rs i (EvCharge k ch (total_in (ledger_of st') k)))))
    \<and> (\<forall>j u signer n guard a. j < length rs \<longrightarrow> rs ! j = ReqCharge u signer n guard \<longrightarrow> au_channel_id u = i
        \<longrightarrow> ps' ! j = Ret (RepCharge (Inr a)) \<longrightarrow> unat n \<le> total_in (ledger_of st') (au_idempotency_key u))"
proof -
  let ?A = "scope_of C rs"
  obtain st' where st': "s' i = Some st'" and r: "reaches L C ?A i (ledger_of st) (ledger_of st')"
    using rely_Some [OF pool_keeps(1) [OF assms(1)] assms(2)] by blast
  have start: "tallied K ?A i (ledger_of st) (ledger_of st)"
    using assms(3-5) by (auto simp: tallied_def abs_use_def o_def)
  have step: "tallied K ?A i l0 l2" if "?A i e" "move (unat (snapshot_max_age C)) (genuine L i) now e l1 l2"
      "tallied K ?A i l0 l1" for l0 l1 l2 now e
    by (rule move_tallied [where A = ?A, OF that(2,1,3)])
      (use assms(5-8) in \<open>auto simp: MAX_PROCESSED_USES_def\<close>)
  have tallied: "tallied K ?A i (ledger_of st) l" if "reaches L C ?A i (ledger_of st) l" for l
    by (rule reaches_keeps [where P = "tallied K ?A i (ledger_of st)", OF that start]) (erule (2) step)
  have told: "unat n \<le> total_in (ledger_of st') (au_idempotency_key u)"
    if j: "j < length rs" "rs ! j = ReqCharge u signer n guard" "au_channel_id u = i"
      "ps' ! j = Ret (RepCharge (Inr a))" for j u signer n guard a
  proof -
    obtain l where l: "reaches L C ?A i (ledger_of st) l" "reaches L C ?A i l (ledger_of st')"
        "unat n \<le> total_in l (au_idempotency_key u)"
      using pool_keeps(2) [OF assms(1) j(1,4)] j(2,3) st' assms(2)
      by (auto simp: tells_def since_def charged_to_def)
    have "tallied K ?A i l l"
      using tallied [OF l(1)] by (simp add: tallied_def)
    then have "tallied K ?A i l (ledger_of st')"
      by (rule reaches_keeps [where P = "tallied K ?A i l", OF l(2)]) (erule (2) step)
    with l(3) show ?thesis by (auto simp: tallied_def intro: order.trans)
  qed
  show ?thesis
    using st' tallied [OF r] told by (intro exI [of _ st']) (auto simp: tallied_def)
qed

theorem operator_requests_charged_once_witness:
  "\<exists>sched ps' s' st'. run_pool sched (map (serve sample_session_lib operator_config) [ReqCharge sample_use sample_operator 25 no_guard],
      [''chan'' \<mapsto> operator_channel]) = (ps', s') \<and> s' ''chan'' = Some st'
    \<and> unat (cs_cumulative st') = 100 + total_in (ledger_of st') ''k'' \<and> 25 \<le> total_in (ledger_of st') ''k''"
proof -
  let ?r = "ReqCharge sample_use sample_operator 25 no_guard"
  let ?p = "serve sample_session_lib operator_config ?r" and ?s = "[''chan'' \<mapsto> operator_channel]"
  obtain a s' where "finish ?p sample_moment ?s = (RepCharge (Inr a), s')"
    using finish_charge [of sample_moment ?s sample_use operator_channel sample_session_lib operator_config sample_operator None 25 no_guard "replicate 32 0"]
    by (auto simp: total_of_def no_guard_def)
  then obtain n where run: "run_pool (replicate n (0, sample_moment)) (map (serve sample_session_lib operator_config) [?r], ?s)
      = ([Ret (RepCharge (Inr a))], s')"
    using finish_in_pool [of 0 "[?p]" ?p sample_moment ?s] by auto
  have K: "{''k''} = keys_of (ledger_of operator_channel) \<union> {k. \<exists>ch n. scope_of operator_config [?r] ''chan'' (EvCharge k ch n)}"
    by (auto simp: keys_of_def scope_of_def)
  from operator_requests_charged_once [OF run, of "''chan''" operator_channel "{''k''}", OF _ _ _ K] show ?thesis
    using run by (fastforce simp: scope_of_def total_in_def [of "ledger_of operator_channel"])
qed

text \<open>
  C16.  A close that was answered is final.  Once a close request has returned its settlement
  parameters, then whatever runs with it and after it, the channel stays closed with the same final
  watermark, within the deposit; the parameters settle at least that watermark, and when they carry
  a voucher it is the highest one held, for exactly the amount they settle.
\<close>

theorem close_is_final:
  assumes "run_pool sched (map (serve L C) rs, s) = (ps', s')" "j < length rs" "rs ! j = ReqClose p"
    and "ps' ! j = Ret (RepClose (Inr params))"
    and "run_pool later (map (serve L C) rs', s') = (ps'', s'')"
  shows "\<exists>st. s'' (cz_channel_id p) = Some st \<and> is_closed st
    \<and> cs_final_cumulative st = Some (cs_cumulative st) \<and> cs_cumulative st \<le> cs_deposit st
    \<and> cs_cumulative st \<le> sep_settled params
    \<and> (\<forall>signature e. sep_voucher_signature params = Some signature \<longrightarrow> sep_voucher_expires_at params = Some e \<longrightarrow>
         sep_settled params = cs_cumulative st \<and> voucher_of st = Some (signature, e))"
proof -
  let ?i = "cz_channel_id p"
  obtain st1 l where l: "s' ?i = Some st1" "reaches L C (scope_of C rs) ?i l (ledger_of st1)" "quotes params l" "frozen l"
    using pool_keeps(2) [OF assms(1,2,4)] assms(3) by (auto simp: tells_def since_def)
  obtain st where st: "s'' ?i = Some st" "reaches L C (scope_of C rs') ?i (ledger_of st1) (ledger_of st)"
    using rely_Some [OF pool_keeps(1) [OF assms(5)] l(1)] by blast
  have "frozen (ledger_of st) \<and> lg_cumulative (ledger_of st) = lg_cumulative l
      \<and> lg_deposit (ledger_of st) = lg_deposit l \<and> lg_voucher (ledger_of st) = lg_voucher l"
    using reaches_frozen [OF l(2,4)] reaches_frozen [OF st(2)] by auto
  with l(3) st(1) show ?thesis
    by (auto simp: frozen_def quotes_def word_le_nat_alt word_unat_eq_iff)
qed

theorem close_is_final_witness:
  "\<exists>sched params. run_pool sched (map (serve sample_session_lib sample_config) [ReqClose close_150], [''chan'' \<mapsto> unspent_channel])
      = ([Ret (RepClose (Inr params))], [''chan'' \<mapsto> closed_channel])
    \<and> is_closed closed_channel \<and> cs_final_cumulative closed_channel = Some (cs_cumulative closed_channel)
    \<and> sep_settled params = cs_cumulative closed_channel"
proof -
  obtain sched params where run: "run_pool sched (map (serve sample_session_lib sample_config) [ReqClose close_150],
      [''chan'' \<mapsto> unspent_channel]) = ([Ret (RepClose (Inr params))], [''chan'' \<mapsto> closed_channel])"
    and carries: "sep_voucher_signature params = Some ''sig''" "sep_voucher_expires_at params = Some 0"
    using close_150_run by blast
  have "cz_channel_id close_150 = ''chan''" by (simp add: close_150_def)
  with close_is_final [OF run, of 0 close_150 params "[]" "[]" "[]" "[''chan'' \<mapsto> closed_channel]"] run carries
  show ?thesis by (intro exI [of _ sched] exI [of _ params]) simp
qed

text \<open>
  C17.  What the server settles, the chain will honour.  On a client-signed channel that starts with
  a genuine voucher for its watermark, or without any voucher and nothing spent, the settlement
  parameters returned by a close or asked for at any time carry a voucher, if they carry one, that
  verifies under the channel's signer for exactly the amount they settle.
\<close>

theorem sealed_voucher_redeemable:
  assumes "run_pool sched (map (serve L C) rs, s) = (ps', s')" "s i = Some st"
    and "cs_voucher_signer st \<noteq> ''operator''" "redeemable (genuine L i) (ledger_of st)"
    and "j < length rs" "rs ! j = ReqSealParams i \<or> rs ! j = ReqClose p \<and> cz_channel_id p = i"
    and "ps' ! j = Ret (RepClose (Inr params))"
    and "sep_voucher_signature params = Some signature" "sep_voucher_expires_at params = Some e"
  shows "genuine L i (cs_authorized_signer st) (unat (sep_settled params)) e signature"
proof -
  obtain l where l: "reaches L C (scope_of C rs) i (ledger_of st) l" "quotes params l"
    using pool_keeps(2) [OF assms(1,5,7)] assms(2,6) by (auto simp: tells_def since_def)
  have "redeemable (genuine L i) l"
    by (rule reaches_keeps [where P = "redeemable (genuine L i)", OF l(1) assms(4)]) (rule move_redeemable)
  with l(2) reaches_fixed [OF l(1)] assms(3,8,9) show ?thesis
    by (auto simp: redeemable_def quotes_def)
qed

theorem sealed_voucher_redeemable_witness:
  "\<exists>sched params. run_pool sched (map (serve sample_session_lib sample_config) [ReqClose close_150], [''chan'' \<mapsto> unspent_channel])
      = ([Ret (RepClose (Inr params))], [''chan'' \<mapsto> closed_channel])
    \<and> genuine sample_session_lib ''chan'' ''signer'' (unat (sep_settled params)) 0 ''sig''"
proof -
  obtain sched params where run: "run_pool sched (map (serve sample_session_lib sample_config) [ReqClose close_150],
      [''chan'' \<mapsto> unspent_channel]) = ([Ret (RepClose (Inr params))], [''chan'' \<mapsto> closed_channel])"
    and carries: "sep_voucher_signature params = Some ''sig''" "sep_voucher_expires_at params = Some 0"
    using close_150_run by blast
  have "cz_channel_id close_150 = ''chan''" "cs_voucher_signer unspent_channel \<noteq> ''operator''"
      "cs_authorized_signer unspent_channel = ''signer''" "redeemable (genuine sample_session_lib ''chan'') (ledger_of unspent_channel)"
    by (simp_all add: close_150_def unspent_channel_def sample_channel_def redeemable_def voucher_of_def)
  with sealed_voucher_redeemable [OF run, of "''chan''" unspent_channel 0 close_150 params "''sig''" 0] run carries
  show ?thesis by (intro exI [of _ sched] exI [of _ params]) simp
qed

section \<open>Lemmas: one step of a pool\<close>

context step_order
begin

lemma run_pool_step:
  assumes "length Qs = length ps" "\<And>j. j < length ps \<Longrightarrow> sat rely guar (Qs ! j) (ps ! j) s"
    and "run_pool sched (ps, s) = (ps1, s1)" "step_pool (i, t) (ps1, s1) = (ps2, s2)"
  shows "guar t s1 s2"
  using assms
proof (induction sched arbitrary: ps s)
  case Nil
  then show ?case using step_pool_sat [of Qs ps s i t ps2 s2] by simp
next
  case (Cons d sched)
  obtain k u where d: "d = (k, u)" by force
  obtain ps' s' where cfg: "step_pool (k, u) (ps, s) = (ps', s')" by force
  from step_pool_sat [OF Cons.prems(1,2) cfg] have "length Qs = length ps'"
    "\<And>j. j < length ps' \<Longrightarrow> sat rely guar (Qs ! j) (ps' ! j) s'" by auto
  with Cons.prems(3,4) cfg d show ?case by (intro Cons.IH [of ps' s']) auto
qed

end

lemma pool_step:
  assumes "run_pool sched (map (serve L C) rs, s) = (ps, s1)" "step_pool (k, t) (ps, s1) = (ps2, s2)"
  shows "session_guar L C (scope_of C rs) t s1 s2"
  using session.run_pool_step [where Qs = "map (promise L C (scope_of C rs) s) rs", OF _ pool_starts assms] by simp

lemma run_pool_changes:
  assumes "run_pool sched (ps, s) = (ps', s')" "f s \<noteq> f s'"
  shows "\<exists>pre k t ps1 s1 ps2 s2. run_pool pre (ps, s) = (ps1, s1) \<and> step_pool (k, t) (ps1, s1) = (ps2, s2)
    \<and> f s1 \<noteq> f s2"
  using assms
proof (induction sched arbitrary: ps s)
  case (Cons d sched)
  obtain k t where d: "d = (k, t)" by force
  obtain ps1 s1 where cfg: "step_pool (k, t) (ps, s) = (ps1, s1)" by force
  show ?case
  proof (cases "f s = f s1")
    case True
    with Cons.prems cfg d Cons.IH [of ps1 s1] obtain pre k' t' ps2 s2 ps3 s3
      where "run_pool pre (ps1, s1) = (ps2, s2)" "step_pool (k', t') (ps2, s2) = (ps3, s3)" "f s2 \<noteq> f s3" by auto
    with cfg show ?thesis
      by (intro exI [of _ "(k, t) # pre"] exI [of _ k'] exI [of _ t']) auto
  next
    case False
    with cfg run_pool_Nil [of "(ps, s)"] show ?thesis by blast
  qed
qed simp

text \<open>
  C20.  No charge without a recent look at the chain.  While requests other than commits and closes
  run on a channel, whatever the interleaving, the step that raises its watermark finds it open and
  within thirty seconds, and within half the grace period, of its last confirmed read.
\<close>

theorem charges_need_fresh_read:
  assumes "run_pool sched (map (serve L C) rs, s) = (ps, s1)" "step_pool (k, t) (ps, s1) = (ps2, s2)"
    and "s1 i = Some st" "s2 i = Some st'" "cs_cumulative st \<noteq> cs_cumulative st'"
    and "\<And>p. ReqCommit p \<in> set rs \<Longrightarrow> vd_channel_id (sv_data (cp_voucher p)) \<noteq> i"
    and "\<And>p. ReqClose p \<in> set rs \<Longrightarrow> cz_channel_id p \<noteq> i"
  shows "\<not> is_closed st \<and> unat (secs_u64 (mo_now t)) - unat (onchain_observed_at st) \<le> 30
    \<and> 2 * (unat (secs_u64 (mo_now t)) - unat (onchain_observed_at st)) \<le> unat (sc_grace_period_seconds C)"
proof -
  have "rel_option (\<lambda>st st'. ledger_of st' = ledger_of st
      \<or> (\<exists>e. scope_of C rs i e \<and> moves L C i (mo_now t) e st st')) (s1 i) (s2 i)"
    using pool_step [OF assms(1,2)] by (simp add: session_guar_def)
  then have "ledger_of st' = ledger_of st \<or> (\<exists>e. scope_of C rs i e \<and> moves L C i (mo_now t) e st st')"
    using assms(3,4) by simp
  moreover have "ledger_of st' \<noteq> ledger_of st"
    using assms(5) ledger_of_fields(4) [of st] ledger_of_fields(4) [of st'] by (metis word_unat_eq_iff)
  ultimately obtain e where e: "scope_of C rs i e" "moves L C i (mo_now t) e st st'" by blast
  have no: "\<not> scope_of C rs i (EvCommit d n)" "\<not> scope_of C rs i (EvClose c)" for d n c
    using assms(6,7) by (auto simp: scope_of_def voucher_event_def elim!: may.elims)
  have cum: "lg_cumulative (ledger_of st') \<noteq> lg_cumulative (ledger_of st)"
    using assms(5) by (auto simp: word_unat_eq_iff)
  have "\<not> lg_closed (ledger_of st) \<and> fresh_at (unat (snapshot_max_age C)) (mo_now t) (ledger_of st)"
    using e(2) cum e(1) no by cases auto
  then show ?thesis
    using snapshot_max_age_bounds [of C] by (auto simp: fresh_at_def)
qed

theorem charges_need_fresh_read_witness:
  "\<exists>sched ps s1 k t ps2 s2 st st'.
     run_pool sched (map (serve sample_session_lib sample_config) [sample_begin, voucher_900], [''chan'' \<mapsto> sample_channel]) = (ps, s1)
     \<and> step_pool (k, t) (ps, s1) = (ps2, s2) \<and> s1 ''chan'' = Some st \<and> s2 ''chan'' = Some st'
     \<and> cs_cumulative st \<noteq> cs_cumulative st' \<and> \<not> is_closed st
     \<and> unat (secs_u64 (mo_now t)) - unat (onchain_observed_at st) \<le> 30"
proof -
  let ?ps = "map (serve sample_session_lib sample_config) [sample_begin, voucher_900]" and ?s = "[''chan'' \<mapsto> sample_channel]"
  let ?cum = "\<lambda>s :: channels. map_option cs_cumulative (s ''chan'')"
  obtain sched d a where run: "run_pool sched (?ps, ?s)
      = ([Ret (RepBegin (Inr d)), Ret (RepVoucher (Inr a))], [''chan'' \<mapsto> overrun_channel])"
    using overrun_run by blast
  have "?cum ?s \<noteq> ?cum [''chan'' \<mapsto> overrun_channel]"
    by (simp add: sample_channel_def overrun_channel_def)
  from run_pool_changes [where f = ?cum, OF run this] obtain pre k t ps s1 ps2 s2
    where step: "run_pool pre (?ps, ?s) = (ps, s1)" "step_pool (k, t) (ps, s1) = (ps2, s2)" "?cum s1 \<noteq> ?cum s2" by blast
  obtain st where st: "s1 ''chan'' = Some st"
    using rely_Some [OF pool_keeps(1) [OF step(1)], of "''chan''" sample_channel] by auto
  obtain st' where st': "s2 ''chan'' = Some st'"
    using rely_Some [OF guar_session_rely [OF pool_step [OF step(1,2)]] st] by blast
  have "\<not> is_closed st \<and> unat (secs_u64 (mo_now t)) - unat (onchain_observed_at st) \<le> 30"
    using charges_need_fresh_read [OF step(1,2) st st'] step(3) st st'
    by (simp add: sample_begin_def voucher_900_def)
  with step st st' show ?thesis by (auto intro!: exI)
qed

text \<open>
  C23.  Reservations hold, as long as the channel is used for deliveries alone.  If the watermark
  plus the reserved deliveries fit the deposit, they still do after any deliveries, usages,
  commits and top-ups in any interleaving; so a reserved delivery can always be committed.
\<close>

theorem reservations_hold:
  assumes "run_pool sched (map (serve L C) rs, s) = (ps', s')" "s i = Some st" "covered (ledger_of st)"
    and "\<And>r e. r \<in> set rs \<Longrightarrow> may C r i e \<Longrightarrow> \<not> pays_outside e"
  shows "\<exists>st'. s' i = Some st' \<and> covered (ledger_of st')
    \<and> (\<forall>d \<in> set (cs_pending_deliveries st'). unat (cs_cumulative st') + unat (pd_amount d) \<le> unat (cs_deposit st'))"
proof -
  obtain st' where st': "s' i = Some st'" "reaches L C (scope_of C rs) i (ledger_of st) (ledger_of st')"
    using rely_Some [OF pool_keeps(1) [OF assms(1)] assms(2)] by blast
  have c: "covered (ledger_of st')"
    by (rule reaches_keeps [where P = covered, OF st'(2) assms(3)])
      (use move_covered assms(4) in \<open>auto simp: scope_of_def\<close>)
  have "unat (pd_amount d) \<le> sum_pending (map abs_pending (cs_pending_deliveries st'))"
    if "d \<in> set (cs_pending_deliveries st')" for d
    using that unfolding sum_pending_def abs_pending_def by (intro member_le_sum_list) (auto simp: image_iff)
  with c st'(1) show ?thesis by (fastforce simp: covered_def)
qed

theorem reservations_hold_witness:
  "\<exists>sched ps' s' st'. run_pool sched (map (serve sample_session_lib sample_config) [sample_begin], [''chan'' \<mapsto> sample_channel]) = (ps', s')
    \<and> s' ''chan'' = Some st' \<and> cs_pending_deliveries st' \<noteq> [] \<and> covered (ledger_of st')"
proof -
  let ?p = "serve sample_session_lib sample_config sample_begin" and ?s = "[''chan'' \<mapsto> sample_channel]"
  obtain d where "finish ?p sample_moment ?s = (RepBegin (Inr d), [''chan'' \<mapsto> with_reservation])"
    using sample_begin_run ..
  then obtain n where run: "run_pool (replicate n (0, sample_moment)) (map (serve sample_session_lib sample_config) [sample_begin], ?s)
      = ([Ret (RepBegin (Inr d))], [''chan'' \<mapsto> with_reservation])"
    using finish_in_pool [of 0 "[?p]" ?p sample_moment ?s] by auto
  have "covered (ledger_of sample_channel)"
    by (simp add: covered_def sum_pending_def sample_channel_def)
  then have "covered (ledger_of with_reservation)"
    using reservations_hold [OF run, of "''chan''" sample_channel] by (fastforce simp: sample_begin_def)
  with run show ?thesis
    by (intro exI [of _ "replicate n (0, sample_moment)"]) (simp add: with_reservation_def)
qed

section \<open>Lemmas: closing with unpaid reservations\<close>

lemma unat_saturating_add: "unat (saturating_add a b) = min (unat a + unat b) u64_max" for a b :: u64
  by (auto simp: saturating_add_def u64_max_def unat_word_ariths unsigned_minus_1_eq_mask mask_eq_exp_minus_1 min_def)

lemma final_voucher_bound:
  "final_voucher L C now v st = Inr (c, sg, e) \<Longrightarrow> cs_cumulative st \<le> cs_deposit st \<Longrightarrow> c \<le> cs_deposit st"
  by (auto simp: final_voucher_def try_bind_Inr_iff Let_def not_less split: option.splits if_splits)

text \<open>
  C24.  A channel whose watermark has grown into its reservations cannot be closed.  If the
  deliveries that a close must pay for do not fit the deposit any more, every close request is
  refused, whatever voucher it brings, until the deposit grows.
\<close>

theorem overrun_reservations_block_close:
  assumes "cs_cumulative st \<le> cs_deposit st" "unat (cs_deposit st) < u64_max"
    and "unat (cs_deposit st) < unat (cs_cumulative st) + sum_pending (map abs_pending (owed (u64_as_i64 now) st))"
  shows "\<exists>e. close_updater L C p now later (Some st) = Inl e"
proof (rule ccontr)
  assume "\<not> ?thesis"
  then obtain st' where "close_updater L C p now later (Some st) = Inr st'"
    by (cases "close_updater L C p now later (Some st)") auto
  then obtain live c sg e st1 where live: "add_amounts 0 (owed (u64_as_i64 now) st) = Some live"
      and c: "final_voucher L C later (cz_voucher p) st = Inr (c, sg, e)"
      and pay: "pay_owed p (u64_as_i64 now) live c st = Inr st1"
    by (auto simp: close_updater_def try_bind_Inr_iff split: if_splits)
  have sum: "unat live = sum_pending (map abs_pending (owed (u64_as_i64 now) st))"
    using add_amounts_sum [OF live] by simp
  then have "0 < live"
    using assms(1,3) by (auto simp: word_gt_0 word_le_nat_alt)
  with pay have "saturating_add (cs_cumulative st) live \<le> c"
    by (auto simp: pay_owed_def Let_def split: if_splits)
  then have "min (unat (cs_cumulative st) + unat live) u64_max \<le> unat (cs_deposit st)"
    using final_voucher_bound [OF c assms(1)] by (simp add: word_le_nat_alt unat_saturating_add)
  with assms(2,3) sum show False by simp
qed

theorem overrun_reservations_block_close_witness:
  "(\<exists>sched d a. run_pool sched (map (serve sample_session_lib sample_config) [sample_begin, voucher_900], [''chan'' \<mapsto> sample_channel])
      = ([Ret (RepBegin (Inr d)), Ret (RepVoucher (Inr a))], [''chan'' \<mapsto> overrun_channel]))
    \<and> (\<forall>p now later. \<exists>e. close_updater sample_session_lib sample_config p now later (Some overrun_channel) = Inl e)"
proof -
  have "cs_cumulative overrun_channel = 900" "cs_deposit overrun_channel = 1000"
      "sum_pending (map abs_pending (owed now overrun_channel)) = 600" for now
    by (simp_all add: overrun_channel_def with_reservation_def sample_channel_def owed_def owed_at_close_def
        sum_pending_def abs_pending_def)
  then have "\<exists>e. close_updater sample_session_lib sample_config p now later (Some overrun_channel) = Inl e" for p now later
    by (intro overrun_reservations_block_close) (simp_all add: u64_max_def)
  with overrun_run show ?thesis by blast
qed

text \<open>
  C18.  An operator charge that nothing stands against goes through.  On an open operator-signed
  channel that this server admits and that was read recently, with the proof bound at its opening, the request not charged so far
  or charged for less, deposit for the difference, a guard that agrees and a signer that signs, the
  charge is answered with success after finitely many steps: it charges exactly the difference,
  raises the watermark by it and records the new total.
\<close>

theorem operator_charge_succeeds:
  assumes "mo_fault t = Served" "s (au_channel_id u) = Some st" "bound_check L C st = Inr ()" "\<not> is_closed st"
    and "sc_voucher_signer C = Operator" "os_pubkey signer = sc_operator C"
    and "check_bound_authentication st (au_authentication u) = Inr ()"
    and "2 * (unat (secs_u64 (mo_now t)) - unat (onchain_observed_at st)) < unat (snapshot_max_age C)"
    and "recorded_use st u = Inr r" "total_of r < n" "guard st = Inr ()"
    and "unat (cs_cumulative st) + (unat n - unat (total_of r)) \<le> unat (cs_deposit st)"
    and "cs_spent_amount st \<le> cs_cumulative st"
    and "pubkey_from_str (sl_crypto L) (au_channel_id u) = Inr key" "\<And>k m. \<exists>sg. os_sign_message signer k m = Inr sg"
  shows "\<exists>steps a st'. run_pool (replicate steps (0, t)) ([serve L C (ReqCharge u signer n guard)], s)
      = ([Ret (RepCharge (Inr a))], s(au_channel_id u \<mapsto> st'))
    \<and> oc_charged a = n - total_of r \<and> \<not> oc_replay a
    \<and> unat (cs_cumulative st') = unat (cs_cumulative st) + (unat n - unat (total_of r))
    \<and> oc_cumulative a = cs_cumulative st' \<and> total_in (ledger_of st') (au_idempotency_key u) = unat n"
proof -
  let ?p = "serve L C (ReqCharge u signer n guard)"
  obtain a st' where a: "finish ?p t s = (RepCharge (Inr a), s(au_channel_id u \<mapsto> st'))"
      "oc_charged a = n - total_of r" "\<not> oc_replay a"
      "unat (cs_cumulative st') = unat (cs_cumulative st) + (unat n - unat (total_of r))"
      "oc_cumulative a = cs_cumulative st'" "total_in (ledger_of st') (au_idempotency_key u) = unat n"
    using finish_charge [where s = s and u = u and st = st and guard = guard, OF assms] by blast
  obtain steps where "run_pool (replicate steps (0, t)) ([?p], s) = ([Ret (RepCharge (Inr a))], s(au_channel_id u \<mapsto> st'))"
    using finish_in_pool [of 0 "[?p]" ?p t s] a(1) by auto
  with a(2-6) show ?thesis by blast
qed

theorem operator_charge_succeeds_witness:
  "\<exists>steps a st'. run_pool (replicate steps (0, sample_moment))
      ([serve sample_session_lib operator_config (ReqCharge sample_use sample_operator 25 no_guard)], [''chan'' \<mapsto> operator_channel])
      = ([Ret (RepCharge (Inr a))], [''chan'' \<mapsto> st']) \<and> oc_charged a = 25 \<and> unat (cs_cumulative st') = 125"
  using operator_charge_succeeds [of sample_moment "[''chan'' \<mapsto> operator_channel]" sample_use operator_channel
      sample_session_lib operator_config sample_operator None 25 no_guard "replicate 32 0"]
  by (auto simp: total_of_def no_guard_def)

end
