(* ===== verification/Session_Admission.thy ===== *)
theory Session_Admission
  imports Session_Sample
begin

text \<open>
  What the bound store keeps requests away from: a channel whose opening is pending or was retired, or
  that is bound to another policy than the server's.
\<close>

section \<open>Channels that are turned away\<close>

definition turned_away :: "'key session_lib \<Rightarrow> session_server \<Rightarrow> string \<Rightarrow> channels \<Rightarrow> bool" where
  "turned_away L C i s \<longleftrightarrow> (\<exists>st e. s i = Some st \<and> bound_check L C st = Inl e)"

definition frozen :: "'key session_lib \<Rightarrow> session_server \<Rightarrow> channels \<Rightarrow> channels \<Rightarrow> bool" where
  "frozen L C s s' \<longleftrightarrow> (\<forall>i. turned_away L C i s \<longrightarrow> s' i = s i)"

lemma frozen_turned_away: "frozen L C s s' \<Longrightarrow> turned_away L C i s \<Longrightarrow> turned_away L C i s'"
  unfolding frozen_def turned_away_def by metis

lemma frozen_upd: "\<not> turned_away L C i s \<Longrightarrow> frozen L C s (s(i \<mapsto> st))"
  by (auto simp: frozen_def)

interpretation frozen: step_order "frozen L C" "\<lambda>t. frozen L C" for L C
proof
  show "frozen L C s1 s3" if "frozen L C s1 s2" "frozen L C s2 s3" for s1 s2 s3
    using that frozen_turned_away [OF that(1)] unfolding frozen_def by metis
qed (simp_all add: frozen_def)

text \<open>A handler that leaves them alone, and one that fails on channel \<open>i\<close> if it is one of them.\<close>

definition calm :: "'key session_lib \<Rightarrow> session_server \<Rightarrow> 'r act \<Rightarrow> bool" where
  "calm L C p \<longleftrightarrow> (\<forall>s. sat (frozen L C) (\<lambda>t. frozen L C) (\<lambda>_ _. True) p s)"

definition refusing :: "'key session_lib \<Rightarrow> session_server \<Rightarrow> string \<Rightarrow> ('e + 'a) act \<Rightarrow> bool" where
  "refusing L C i p \<longleftrightarrow> (\<forall>s. turned_away L C i s \<longrightarrow> sat (frozen L C) (\<lambda>t. frozen L C) (\<lambda>r _. isl r) p s)"

section \<open>Lemmas: the calls of the store\<close>

lemma guarded_turned_away:
  assumes "turned_away L C i s"
  shows "\<exists>e. guarded L C wrap u (s i) = Inl e"
  using assms by (auto simp: turned_away_def guarded_def Pk_Prelude.map_err_def try_bind_def)

lemma bound_with_away:
  assumes "bound_with L C wrap i u s = (r, s')"
  shows "frozen L C s s'" "turned_away L C i s \<Longrightarrow> isl r"
  using assms guarded_turned_away [of L C i s wrap u] frozen_upd [of L C i s]
  by (cases "turned_away L C i s"; cases "guarded L C wrap u (s i)";
      auto simp: bound_with_def update_with_def split: prod.splits)+

lemma bound_update_away:
  assumes "bound_update L C i u s = (r, s')"
  shows "frozen L C s s'" "turned_away L C i s \<Longrightarrow> isl r"
proof -
  obtain r1 where r1: "bound_with L C id i (with_unit u) s = (r1, s')" "r = map_sum id fst r1"
    using assms by (cases "bound_with L C id i (with_unit u) s") (auto simp: bound_update_def)
  show "frozen L C s s'" "turned_away L C i s \<Longrightarrow> isl r"
    using bound_with_away [OF r1(1)] r1(2) by (auto simp: isl_map_sum)
qed

lemma bound_mutate_away:
  assumes "bound_mutate L C i seed m s = (r, s')"
  shows "frozen L C s s'" "turned_away L C i s \<Longrightarrow> isl r"
proof -
  obtain r1 where r1: "bound_update L C i (mutating seed m) s = (r1, s')" "r = map_sum id (\<lambda>_. ()) r1"
    using assms by (cases "bound_update L C i (mutating seed m) s") (auto simp: bound_mutate_def)
  show "frozen L C s s'" "turned_away L C i s \<Longrightarrow> isl r"
    using bound_update_away [OF r1(1)] r1(2) by (auto simp: isl_map_sum)
qed

lemma bound_get_away:
  assumes "bound_get L C i s = (r, s')"
  shows "frozen L C s s'" "turned_away L C i s \<Longrightarrow> isl r"
  using assms by (auto simp: bound_get_def get_channel_def turned_away_def frozen_def split: option.splits)

lemmas bound_away = bound_with_away bound_update_away bound_mutate_away bound_get_away

text \<open>A record bound at its opening is admitted by the servers with that binding and by no other.\<close>

lemma bound_to_one_binding:
  assumes "binding_insert L b st = Inr st'" "bn_version b = 1" "\<not> session_open_is_terminal st" "\<not> opens_channel st"
    and "\<And>v. sl_binding_to_json L b = Inr v \<Longrightarrow> sl_binding_of_json L v = Some b"
  shows "bound_check L C st' = Inr () \<longleftrightarrow> ss_binding C = Some b"
proof -
  obtain v where v: "sl_binding_to_json L b = Inr v" "st' = st\<lparr>cs_schema_version := CHANNEL_STATE_SCHEMA_VERSION,
      cs_extra := (cs_extra st)(BINDING_KEY \<mapsto> v)\<rparr>"
    using assms(1) by (auto simp: binding_insert_def try_bind_Inr_iff)
  then have "read_binding L st' = Inr (Some b)" "\<not> session_open_is_terminal st'" "\<not> opens_channel st'"
    using assms(2-5)
    by (simp_all add: read_binding_def session_open_is_terminal_def opens_channel_def OPEN_TERMINAL_KEY_def BINDING_KEY_def)
  then show ?thesis
    by (auto simp: bound_check_def require_binding_def)
qed

section \<open>Lemmas: handlers that leave them alone\<close>

named_theorems calm_intros

lemma calm_Ret [calm_intros]: "calm L C (Ret r)"
  by (auto simp: calm_def intro: sat.sat_Ret)

lemma calm_bind [calm_intros]: "calm L C p \<Longrightarrow> (\<And>r. calm L C (k r)) \<Longrightarrow> calm L C (bind_act p k)"
  unfolding calm_def by (blast intro: frozen.sat_bind)

lemma calm_try [calm_intros]: "calm L C p \<Longrightarrow> (\<And>a. calm L C (k a)) \<Longrightarrow> calm L C (try_act p k)"
  unfolding calm_def by (blast intro: frozen.sat_try)

lemma calm_attempt [calm_intros]: "(\<And>a. calm L C (k a)) \<Longrightarrow> calm L C (attempt r k)"
  by (cases r) (auto intro: calm_Ret)

lemma calm_if [calm_intros]: "calm L C p \<Longrightarrow> calm L C q \<Longrightarrow> calm L C (if b then p else q)"
  by simp

lemma calm_option [calm_intros]: "calm L C p \<Longrightarrow> (\<And>x. calm L C (q x)) \<Longrightarrow> calm L C (case_option p q z)"
  by (simp split: option.split)

lemma calm_sum [calm_intros]: "(\<And>x. calm L C (p x)) \<Longrightarrow> (\<And>x. calm L C (q x)) \<Longrightarrow> calm L C (case_sum p q z)"
  by (simp split: sum.split)

lemma calm_prod [calm_intros]: "(\<And>x y. calm L C (p x y)) \<Longrightarrow> calm L C (case_prod p z)"
  by (simp split: prod.split)

lemma calm_local [calm_intros]: "calm L C clock" "calm L C read_account" "calm L C submit_transaction"
  by (auto simp: calm_def intro: frozen.sat_clock frozen.sat_read_account frozen.sat_submit)

lemma calm_access [calm_intros]:
  "(\<And>t s r s'. op t s = (r, s') \<Longrightarrow> frozen L C s s') \<Longrightarrow> calm L C (access_err wrap op)"
  unfolding calm_def by (auto intro: frozen.sat_access)

lemma calm_store [calm_intros]:
  assumes "\<And>t s r s'. op t s = (r, s') \<Longrightarrow> frozen L C s s'"
  shows "calm L C (access op)" "calm L C (on_store op)"
proof -
  show op: "calm L C (access op)"
    unfolding access_def by (rule calm_access) (rule assms)
  show "calm L C (on_store op)"
    unfolding on_store_def by (intro calm_bind calm_Ret op)
qed

lemma calm_fetch [calm_intros]: "calm L C (fetch_channel L C i)"
  unfolding fetch_channel_def by (rule calm_store) (rule bound_away)

lemma calm_require [calm_intros]: "calm L C (require_channel L C i)"
  unfolding require_channel_def by (intro calm_intros)

lemma calm_lifecycle [calm_intros]: "calm L C (read_channel_lifecycle L' C' i now)"
  unfolding read_channel_lifecycle_def Let_def by (intro calm_intros)

lemma calm_refresh [calm_intros]: "calm L C (refresh_channel_snapshot L C i)"
  unfolding refresh_channel_snapshot_def Let_def by (intro calm_intros) (rule bound_away)

lemma calm_attempts [calm_intros]: "calm L C (charge_attempts n L C u signer amount guard)"
proof (induction n)
  case (Suc n)
  then show ?case
    unfolding charge_attempts.simps Let_def watermark_moved_def
    by (intro calm_intros) (auto intro: bound_away)
qed (simp add: calm_Ret)

lemma calm_voucher [calm_intros]: "calm L C (verify_voucher_priced L C p price allow guard)"
  unfolding verify_voucher_priced_def accept_steps_def Let_def
  by (intro calm_intros) (auto intro: bound_away)

lemma calm_seal [calm_intros]: "calm L C (seal_params L C i)"
  unfolding seal_params_def seal_with_read_def by (intro calm_intros) (auto intro: bound_away)

lemma calm_handlers [calm_intros]:
  "calm L C (verify_voucher L C p)" "calm L C (verify_voucher_with_guard L C p guard)"
  "calm L C (verify_voucher_for_amount L C p price)" "calm L C (process_use L C q ch k)" "calm L C (authenticate_use L C q ch k)"
  "calm L C (charge_operator_request L C u signer amount guard)" "calm L C (process_topup_with_outcome L C tp)"
  "calm L C (begin_delivery L C d)" "calm L C (record_delivery_usage L C i di n)" "calm L C (process_commit L C cp)"
  "calm L C (process_close L C cl)" "calm L C (session_mark_sealed L C i)"
  unfolding verify_voucher_def verify_voucher_with_guard_def verify_voucher_for_amount_def process_use_def authenticate_use_def
    charge_operator_request_def process_topup_with_outcome_def topup_channel_def begin_delivery_def record_delivery_usage_def
    process_commit_def process_close_def session_mark_sealed_def bound_mark_sealed_def Let_def
  by (intro calm_intros; (rule bound_away; assumption)?)+

section \<open>Lemmas: handlers that fail\<close>

named_theorems refusing_intros

lemma refusing_Ret [refusing_intros]: "refusing L C i (Ret (Inl e))"
  by (auto simp: refusing_def intro: sat.sat_Ret)

lemma refusing_try [refusing_intros]: "refusing L C i p \<Longrightarrow> refusing L C i (try_act p k)"
  unfolding refusing_def by (auto intro!: frozen.sat_try [where Q = "\<lambda>r _. isl r"])

lemma refusing_attempt [refusing_intros]: "(\<And>a. refusing L C i (k a)) \<Longrightarrow> refusing L C i (attempt r k)"
  by (cases r) (auto intro: refusing_Ret)

lemma refusing_if [refusing_intros]: "refusing L C i p \<Longrightarrow> refusing L C i q \<Longrightarrow> refusing L C i (if b then p else q)"
  by simp

lemma refusing_clock [refusing_intros]: "(\<And>now. refusing L C i (k now)) \<Longrightarrow> refusing L C i (bind_act clock k)"
  unfolding refusing_def
  by (auto intro!: frozen.sat_bind [where Q = "\<lambda>_. turned_away L C i"] frozen.sat_clock dest: frozen_turned_away)

lemma refusing_store:
  assumes "\<And>t s r s'. op t s = (r, s') \<Longrightarrow> frozen L C s s'"
    and "\<And>t s r s'. turned_away L C i s \<Longrightarrow> op t s = (r, s') \<Longrightarrow> isl r"
  shows "refusing L C i (on_store op)"
  unfolding refusing_def on_store_def access_def
proof (intro allI impI frozen.sat_bind)
  fix s
  assume away: "turned_away L C i s"
  show "sat (frozen L C) (\<lambda>t. frozen L C) (\<lambda>r _. isl r) (access_err id op) s"
    using frozen_turned_away [OF _ away] assms(2) by (intro frozen.sat_access assms(1)) force+
next
  fix r :: "store_error + 'a" and s'
  assume "isl r"
  then show "sat (frozen L C) (\<lambda>t. frozen L C) (\<lambda>r _. isl r) (Ret (Pk_Prelude.map_err session_store_err r)) s'"
    by (cases r) (auto intro: sat.sat_Ret)
qed

lemma refusing_fetch [refusing_intros]: "refusing L C i (fetch_channel L C i)"
  unfolding fetch_channel_def by (rule refusing_store) (erule (1) bound_away | erule bound_away)+

lemma refusing_require [refusing_intros]: "refusing L C i (require_channel L C i)"
  unfolding require_channel_def by (intro refusing_intros)

lemma refusing_refresh [refusing_intros]: "refusing L C i (refresh_channel_snapshot L C i)"
  unfolding refresh_channel_snapshot_def Let_def by (intro refusing_intros)

lemma refusing_update [refusing_intros]:
  "refusing L C i (on_store (\<lambda>t. bound_update L C i (u t)))" "refusing L C i (on_store (\<lambda>t. bound_mutate L C i None (m t)))"
  by (rule refusing_store; simp add: bound_away)+

section \<open>The property\<close>

fun channel_of :: "request \<Rightarrow> string" where
  "channel_of (ReqVoucher p) = vd_channel_id (sv_data (vpl_voucher p))"
| "channel_of (ReqVoucherGuard p g) = vd_channel_id (sv_data (vpl_voucher p))"
| "channel_of (ReqVoucherAmount p a) = vd_channel_id (sv_data (vpl_voucher p))"
| "channel_of (ReqUse p c k) = up_channel_id p"
| "channel_of (ReqAuthenticate p c k) = up_channel_id p"
| "channel_of (ReqCharge u s n g) = au_channel_id u"
| "channel_of (ReqTopUp p) = tp_channel_id p"
| "channel_of (ReqBegin r) = dr_session_id r"
| "channel_of (ReqUsage i d n) = i"
| "channel_of (ReqCommit p) = vd_channel_id (sv_data (cp_voucher p))"
| "channel_of (ReqClose p) = cz_channel_id p"
| "channel_of (ReqSealParams i) = i"
| "channel_of (ReqMarkSealed i) = i"

fun failed :: "reply \<Rightarrow> bool" where
  "failed (RepVoucher r) = isl r"
| "failed (RepUse r) = isl r"
| "failed (RepAuthenticate r) = isl r"
| "failed (RepCharge r) = isl r"
| "failed (RepTopUp r) = isl r"
| "failed (RepBegin r) = isl r"
| "failed (RepUsage r) = isl r"
| "failed (RepCommit r) = isl r"
| "failed (RepClose r) = isl r"
| "failed (RepSealed r) = isl r"

lemma serve_calm: "calm L C (serve L C r)"
  by (cases r) (auto simp: answering_def intro!: calm_intros)

lemma refusing_handlers:
  "refusing L C (vd_channel_id (sv_data (vpl_voucher p))) (verify_voucher_priced L C p price allow guard)"
  "refusing L C (up_channel_id q) (process_use L C q ch k)" "refusing L C (up_channel_id q) (authenticate_use L C q ch k)"
  "refusing L C (au_channel_id u) (charge_operator_request L C u signer amount guard)"
  "refusing L C (tp_channel_id tp) (process_topup_with_outcome L C tp)" "refusing L C (dr_session_id d) (begin_delivery L C d)"
  "refusing L C i (record_delivery_usage L C i di n)"
  "refusing L C (vd_channel_id (sv_data (cp_voucher cp))) (process_commit L C cp)"
  "refusing L C (cz_channel_id cl) (process_close L C cl)" "refusing L C i (seal_params L C i)"
  "refusing L C i (session_mark_sealed L C i)"
  unfolding verify_voucher_priced_def process_use_def authenticate_use_def charge_operator_request_def
    process_topup_with_outcome_def topup_channel_def begin_delivery_def record_delivery_usage_def process_commit_def
    process_close_def seal_params_def session_mark_sealed_def bound_mark_sealed_def Let_def
  by (intro refusing_intros)+

lemma refused_answer:
  assumes "turned_away L C i s" "refusing L C i p" "\<And>x. failed (f x) = isl x"
  shows "sat (frozen L C) (\<lambda>t. frozen L C) (\<lambda>reply _. failed reply) (answering f p) s"
  using assms unfolding answering_def refusing_def by (intro frozen.sat_map) simp

lemma serve_refused:
  assumes "turned_away L C (channel_of r) s"
  shows "sat (frozen L C) (\<lambda>t. frozen L C) (\<lambda>reply _. failed reply) (serve L C r) s"
proof -
  have amount: "refusing L C (vd_channel_id (sv_data (vpl_voucher p))) (verify_voucher_for_amount L C p price)" for p price
    unfolding verify_voucher_for_amount_def by (intro refusing_intros refusing_handlers)
  show ?thesis
    using assms
    by (cases r) (auto simp: verify_voucher_def verify_voucher_with_guard_def
        intro: refused_answer [OF _ refusing_handlers(1)] refused_answer [OF _ amount] refused_answer [OF _ refusing_handlers(2)]
          refused_answer [OF _ refusing_handlers(3)] refused_answer [OF _ refusing_handlers(4)]
          refused_answer [OF _ refusing_handlers(5)] refused_answer [OF _ refusing_handlers(6)]
          refused_answer [OF _ refusing_handlers(7)] refused_answer [OF _ refusing_handlers(8)]
          refused_answer [OF _ refusing_handlers(9)] refused_answer [OF _ refusing_handlers(10)]
          refused_answer [OF _ refusing_handlers(11)])
qed

text \<open>
  What keeps a channel from being served, read from its record: its opening was retired, or is still
  pending, or its record is bound to something else than the binding the server was made with (a
  record without a binding belongs to a server without one).
\<close>

definition bound_elsewhere :: "'key session_lib \<Rightarrow> session_server \<Rightarrow> channel_state \<Rightarrow> bool" where
  "bound_elsewhere L C st \<longleftrightarrow>
     (case cs_extra st ''mppSessionBinding'' of
        None \<Rightarrow> ss_binding C \<noteq> None
      | Some v \<Rightarrow> ss_binding C = None \<or> sl_binding_of_json L v \<noteq> ss_binding C)"

definition unadmitted :: "'key session_lib \<Rightarrow> session_server \<Rightarrow> channel_state \<Rightarrow> bool" where
  "unadmitted L C st \<longleftrightarrow>
     cs_extra st ''mppSessionOpenTerminal'' \<noteq> None
     \<or> (\<exists>setup. cs_pending_setup st = Some setup \<and> ps_opens_channel setup)
     \<or> bound_elsewhere L C st"

lemma unadmitted_refused: "unadmitted L C st \<Longrightarrow> \<exists>e. bound_check L C st = Inl e"
  by (auto simp: unadmitted_def bound_elsewhere_def bound_check_def require_binding_def session_open_is_terminal_def
      read_binding_def opens_channel_def OPEN_TERMINAL_KEY_def BINDING_KEY_def Pk_Prelude.map_err_def try_bind_def ok_or_def
      split: option.splits sum.splits if_splits)

text \<open>
  C19.  A channel that is not admitted pays for nothing.  While the record of a channel says that its
  opening is pending, or that it was retired, or the channel is bound to another policy than the
  server's, no request of any kind changes its record, under any interleaving and whatever the store and
  the chain answer, and every request about it that ends is answered with an error.
\<close>

theorem unadmitted_channel_refused:
  assumes "run_pool sched (map (serve L C) rs, s) = (ps', s')" "s i = Some st" "unadmitted L C st"
  shows "s' i = Some st
    \<and> (\<forall>j reply. j < length rs \<and> channel_of (rs ! j) = i \<and> ps' ! j = Ret reply \<longrightarrow> failed reply)"
proof -
  let ?Q = "\<lambda>r (reply :: reply) (_ :: channels). channel_of r = i \<longrightarrow> failed reply"
  have away: "turned_away L C i s" using assms(2) unadmitted_refused [OF assms(3)] by (auto simp: turned_away_def)
  have each: "sat (frozen L C) (\<lambda>t. frozen L C) (?Q r) (serve L C r) s" for r
    using away serve_refused [of L C r s] serve_calm [of L C r]
    by (cases "channel_of r = i") (simp_all add: calm_def)
  note run = frozen.run_pool_sat [where Qs = "map ?Q rs" and ps = "map (serve L C) rs" and L = L and C = C, OF _ _ assms(1)]
  have "frozen L C s s'" using each by (intro run(1)) simp_all
  with away assms(2) have "s' i = Some st" by (simp add: frozen_def)
  moreover have "failed reply" if "j < length rs" "channel_of (rs ! j) = i" "ps' ! j = Ret reply" for j reply
    using run(2) [where j = j and r = reply] each that by simp
  ultimately show ?thesis by blast
qed

text \<open>A voucher for a channel whose opening is still pending, was retired, or is bound to some policy.\<close>

definition pending_channel :: channel_state where
  "pending_channel = sample_channel\<lparr>cs_pending_setup := Some \<lparr>ps_payer_signature = ''sig'', ps_deposit = 1000,
     ps_opens_channel = True, ps_expires_at = 100\<rparr>\<rparr>"

definition retired_channel :: channel_state where
  "retired_channel = sample_channel\<lparr>cs_extra := [''mppSessionOpenTerminal'' \<mapsto> JBool True]\<rparr>"

definition policy_channel :: channel_state where
  "policy_channel = sample_channel\<lparr>cs_extra := [''mppSessionBinding'' \<mapsto> JNull]\<rparr>"

lemma sample_unadmitted:
  "st \<in> {pending_channel, retired_channel, policy_channel} \<Longrightarrow> unadmitted sample_session_lib sample_config st"
  by (auto simp: unadmitted_def bound_elsewhere_def pending_channel_def retired_channel_def policy_channel_def
      sample_config_def)

theorem unadmitted_channel_refused_witness:
  "list_all (\<lambda>st. \<exists>sched reply s'.
     run_pool sched (map (serve sample_session_lib sample_config) [voucher_900], [''chan'' \<mapsto> st]) = ([Ret reply], s')
     \<and> failed reply \<and> s' ''chan'' = Some st) [pending_channel, retired_channel, policy_channel]"
  unfolding list_all_iff
proof
  fix st
  assume "st \<in> set [pending_channel, retired_channel, policy_channel]"
  then have "st \<in> {pending_channel, retired_channel, policy_channel}" by simp
  then have st: "unadmitted sample_session_lib sample_config st" by (rule sample_unadmitted)
  let ?p = "serve sample_session_lib sample_config voucher_900" and ?s = "[''chan'' \<mapsto> st]"
  obtain n reply s' where run: "run_pool (replicate n (0, sample_moment)) (map (serve sample_session_lib sample_config) [voucher_900], ?s)
      = ([Ret reply], s')"
    using finish_in_pool [of 0 "[?p]" ?p sample_moment ?s] by auto
  have "channel_of voucher_900 = ''chan''" by (simp add: voucher_900_def signed_for_def)
  with unadmitted_channel_refused [OF run, of "''chan''" st] st run
  show "\<exists>sched reply s'. run_pool sched (map (serve sample_session_lib sample_config) [voucher_900], ?s) = ([Ret reply], s')
     \<and> failed reply \<and> s' ''chan'' = Some st"
    by auto
qed

end
