(* ===== verification/Session_Client.thy ===== *)
theory Session_Client
  imports Session_Sample
begin

text \<open>
  The client of a session: \<open>ActiveSession\<close> of \<open>mpp/client/session.rs\<close>, which signs cumulative
  vouchers, and \<open>SessionConsumer\<close> of \<open>mpp/client/session_consumer.rs\<close>, which commits metered
  deliveries within a budget of its own.

  The key of a session may be remote, so what it answers is an argument \<open>sign\<close> of each operation
  that signs; a commit is sent through a transport that is a parameter too, over whatever state
  \<open>'w\<close> lies behind it.
\<close>

section \<open>Sessions\<close>

record active_session =
  as_channel_id :: "u8 list"
  as_cumulative :: u64
  as_expires_at :: i64
  as_signer_pubkey :: "u8 list"

definition DEFAULT_VOUCHER_EXPIRES_AT :: i64 where
  "DEFAULT_VOUCHER_EXPIRES_AT = DEFAULT_SESSION_EXPIRES_AT"

definition new_with_expiry :: "u8 list \<Rightarrow> u8 list \<Rightarrow> i64 \<Rightarrow> active_session" where
  "new_with_expiry channel_id signer expires_at =
     \<lparr>as_channel_id = channel_id, as_cumulative = 0, as_expires_at = expires_at, as_signer_pubkey = signer\<rparr>"

definition new_session :: "u8 list \<Rightarrow> u8 list \<Rightarrow> active_session" where
  "new_session channel_id signer = new_with_expiry channel_id signer DEFAULT_VOUCHER_EXPIRES_AT"

definition set_expires_at :: "i64 \<Rightarrow> active_session \<Rightarrow> active_session" where
  "set_expires_at expires_at session = session\<lparr>as_expires_at := expires_at\<rparr>"

definition authorized_signer :: "'key session_lib \<Rightarrow> active_session \<Rightarrow> string" where
  "authorized_signer L session = sl_bs58_encode L (as_signer_pubkey session)"

definition channel_id_str :: "'key session_lib \<Rightarrow> active_session \<Rightarrow> string" where
  "channel_id_str L session = sl_bs58_encode L (as_channel_id session)"

definition not_above_watermark :: "u64 \<Rightarrow> active_session \<Rightarrow> charge_error" where
  "not_above_watermark cumulative session =
     OtherError (''Voucher cumulative '' @ show_nat (unat cumulative) @ '' must exceed current watermark ''
       @ show_nat (unat (as_cumulative session)))"

definition prepare_voucher :: "'key session_lib \<Rightarrow> (u8 list \<Rightarrow> string + u8 list) \<Rightarrow> active_session
    \<Rightarrow> u64 \<Rightarrow> charge_error + signed_voucher" where
  "prepare_voucher L sign session cumulative =
     (if cumulative \<le> as_cumulative session then Inl (not_above_watermark cumulative session)
      else
      let data = \<lparr>vd_channel_id = channel_id_str L session, vd_cumulative_amount = show_nat (unat cumulative),
                  vd_expires_at = Some (as_expires_at session)\<rparr> in
      try_bind (voucher_message L data) (\<lambda>bytes.
      try_bind (Pk_Prelude.map_err (\<lambda>e. OtherError (''Signing failed: '' @ e)) (sign bytes)) (\<lambda>sig.
      Inr \<lparr>sv_data = data, sv_signer = authorized_signer L session, sv_signature = sl_bs58_encode L sig\<rparr>)))"

definition record_voucher :: "signed_voucher \<Rightarrow> active_session \<Rightarrow> charge_error + active_session" where
  "record_voucher voucher session =
     try_bind (ok_or (parse_u64 (vd_cumulative_amount (sv_data voucher))) (OtherError ''invalid voucher cumulative''))
       (\<lambda>cumulative.
     if cumulative \<le> as_cumulative session then Inl (not_above_watermark cumulative session)
     else Inr (session\<lparr>as_cumulative := cumulative\<rparr>))"

definition incremented :: "active_session \<Rightarrow> u64 \<Rightarrow> charge_error + u64" where
  "incremented session amount =
     ok_or (checked_add (as_cumulative session) amount)
       (OtherError (''voucher increment '' @ show_nat (unat amount) @ '' overflows the cumulative ''
         @ show_nat (unat (as_cumulative session))))"

definition prepare_increment :: "'key session_lib \<Rightarrow> (u8 list \<Rightarrow> string + u8 list) \<Rightarrow> active_session
    \<Rightarrow> u64 \<Rightarrow> charge_error + signed_voucher" where
  "prepare_increment L sign session amount =
     try_bind (incremented session amount) (\<lambda>cumulative. prepare_voucher L sign session cumulative)"

text \<open>The operations that advance the session return it beside their answer.\<close>

definition sign_voucher :: "'key session_lib \<Rightarrow> (u8 list \<Rightarrow> string + u8 list) \<Rightarrow> active_session
    \<Rightarrow> u64 \<Rightarrow> charge_error + signed_voucher \<times> active_session" where
  "sign_voucher L sign session cumulative =
     try_bind (prepare_voucher L sign session cumulative) (\<lambda>voucher.
     try_bind (record_voucher voucher session) (\<lambda>session'. Inr (voucher, session')))"

definition sign_increment :: "'key session_lib \<Rightarrow> (u8 list \<Rightarrow> string + u8 list) \<Rightarrow> active_session
    \<Rightarrow> u64 \<Rightarrow> charge_error + signed_voucher \<times> active_session" where
  "sign_increment L sign session amount =
     try_bind (incremented session amount) (\<lambda>cumulative. sign_voucher L sign session cumulative)"

definition prepare_voucher_action :: "'key session_lib \<Rightarrow> (u8 list \<Rightarrow> string + u8 list) \<Rightarrow> active_session
    \<Rightarrow> u64 \<Rightarrow> charge_error + voucher_payload" where
  "prepare_voucher_action L sign session amount =
     try_bind (prepare_increment L sign session amount) (\<lambda>voucher.
       Inr \<lparr>vpl_channel_id = vd_channel_id (sv_data voucher), vpl_voucher = voucher\<rparr>)"

definition voucher_action :: "'key session_lib \<Rightarrow> (u8 list \<Rightarrow> string + u8 list) \<Rightarrow> active_session
    \<Rightarrow> u64 \<Rightarrow> charge_error + voucher_payload \<times> active_session" where
  "voucher_action L sign session amount =
     try_bind (sign_increment L sign session amount) (\<lambda>(voucher, session').
       Inr (\<lparr>vpl_channel_id = vd_channel_id (sv_data voucher), vpl_voucher = voucher\<rparr>, session'))"

definition close_action :: "'key session_lib \<Rightarrow> (u8 list \<Rightarrow> string + u8 list) \<Rightarrow> active_session
    \<Rightarrow> u64 option \<Rightarrow> charge_error + close_payload \<times> active_session" where
  "close_action L sign session final_increment =
     (case final_increment of
        Some amount \<Rightarrow>
          if amount > 0
          then try_bind (sign_increment L sign session amount) (\<lambda>(voucher, session').
            Inr (\<lparr>cz_channel_id = channel_id_str L session', cz_authentication = None,
                  cz_voucher = Some voucher\<rparr>, session'))
          else Inr (\<lparr>cz_channel_id = channel_id_str L session, cz_authentication = None,
                     cz_voucher = None\<rparr>, session)
      | None \<Rightarrow> Inr (\<lparr>cz_channel_id = channel_id_str L session, cz_authentication = None,
                       cz_voucher = None\<rparr>, session))"

section \<open>Metered deliveries\<close>

record metering_usage =
  mu_delivery_id :: string
  mu_amount :: string

definition amount_base_units :: "metering_directive \<Rightarrow> charge_error + u64" where
  "amount_base_units directive =
     ok_or (parse_u64 (md_amount directive)) (OtherError (''invalid metering amount: '' @ md_amount directive))"

definition usage_base_units :: "metering_usage \<Rightarrow> charge_error + u64" where
  "usage_base_units usage =
     ok_or (parse_u64 (mu_amount usage)) (OtherError (''invalid metering usage amount: '' @ mu_amount usage))"

definition settle :: "metering_usage \<Rightarrow> metering_directive \<Rightarrow> charge_error + metering_directive" where
  "settle usage directive =
     (if mu_delivery_id usage \<noteq> md_delivery_id directive
      then Inl (OtherError (''usage delivery '' @ mu_delivery_id usage @ '' does not match directive ''
             @ md_delivery_id directive))
      else
      try_bind (amount_base_units directive) (\<lambda>reserved.
      try_bind (usage_base_units usage) (\<lambda>used.
      if used > reserved
      then Inl (OtherError (''mpp.usage amount '' @ show_nat (unat used)
             @ '' exceeds the reserved metering amount '' @ show_nat (unat reserved)))
      else Inr (directive\<lparr>md_amount := show_nat (unat used)\<rparr>))))"

record metering_budget =
  mb_max_per_delivery :: u64
  mb_max_cumulative :: u64

definition metering_budget_new :: "u64 \<Rightarrow> u64 \<Rightarrow> charge_error + metering_budget" where
  "metering_budget_new max_per_delivery max_cumulative =
     (if max_per_delivery = 0 \<or> max_per_delivery > max_cumulative
      then Inl (OtherError (''metering budget needs 0 < max_per_delivery ('' @ show_nat (unat max_per_delivery)
             @ '') <= max_cumulative ('' @ show_nat (unat max_cumulative) @ '')''))
      else Inr \<lparr>mb_max_per_delivery = max_per_delivery, mb_max_cumulative = max_cumulative\<rparr>)"

record session_consumer =
  cn_session :: active_session
  cn_budget :: metering_budget

text \<open>
  The transport: what it says of a directive before anything is signed, and what sending a commit
  answers.
\<close>

record 'w commit_transport =
  ct_check_directive :: "metering_directive \<Rightarrow> charge_error + unit"
  ct_commit :: "metering_directive \<Rightarrow> commit_payload \<Rightarrow> 'w \<Rightarrow> (charge_error + commit_receipt) \<times> 'w"

definition validate_directive :: "'key session_lib \<Rightarrow> 'w commit_transport \<Rightarrow> session_consumer
    \<Rightarrow> metering_directive \<Rightarrow> charge_error + u64" where
  "validate_directive L transport consumer directive =
     (let session = cn_session consumer; budget = cn_budget consumer; channel_id = channel_id_str L session in
      if md_session_id directive \<noteq> channel_id
      then Inl (OtherError (''metered delivery session '' @ md_session_id directive
             @ '' does not match active session '' @ channel_id))
      else
      try_bind (amount_base_units directive) (\<lambda>amount.
      if amount = 0 then Inl (OtherError ''metered delivery amount must be greater than zero'')
      else if amount > mb_max_per_delivery budget
      then Inl (OtherError (''metered delivery amount '' @ show_nat (unat amount)
             @ '' exceeds the per-delivery budget '' @ show_nat (unat (mb_max_per_delivery budget))))
      else
      try_bind (ok_or (case checked_add (as_cumulative session) amount of
            Some cumulative \<Rightarrow> if cumulative \<le> mb_max_cumulative budget then Some cumulative else None
          | None \<Rightarrow> None)
        (OtherError (''metered delivery amount '' @ show_nat (unat amount)
           @ '' takes the session past its cumulative budget '' @ show_nat (unat (mb_max_cumulative budget))
           @ '' (committed '' @ show_nat (unat (as_cumulative session)) @ '')''))) (\<lambda>cumulative.
      try_bind (ct_check_directive transport directive) (\<lambda>_.
      Inr cumulative))))"

text \<open>The answer, the consumer afterwards, and the state behind the transport.\<close>

definition commit_directive :: "'key session_lib \<Rightarrow> (u8 list \<Rightarrow> string + u8 list) \<Rightarrow> 'w commit_transport
    \<Rightarrow> metering_directive \<Rightarrow> session_consumer \<Rightarrow> 'w
    \<Rightarrow> (charge_error + commit_receipt) \<times> session_consumer \<times> 'w" where
  "commit_directive L sign transport directive consumer w =
     (case try_bind (validate_directive L transport consumer directive) (\<lambda>cumulative.
             prepare_voucher L sign (cn_session consumer) cumulative) of
        Inl e \<Rightarrow> (Inl e, consumer, w)
      | Inr voucher \<Rightarrow>
          (let payload = \<lparr>cp_delivery_id = md_delivery_id directive, cp_voucher = voucher\<rparr> in
           case ct_commit transport directive payload w of
             (Inl e, w') \<Rightarrow> (Inl e, consumer, w')
           | (Inr receipt, w') \<Rightarrow>
               (case record_voucher voucher (cn_session consumer) of
                  Inl e \<Rightarrow> (Inl e, consumer, w')
                | Inr session' \<Rightarrow> (Inr receipt, consumer\<lparr>cn_session := session'\<rparr>, w'))))"

text \<open>Taking delivery of an envelope checks its directive; acknowledging it commits it.\<close>

definition accept_delivery :: "'key session_lib \<Rightarrow> 'w commit_transport \<Rightarrow> session_consumer
    \<Rightarrow> 'p \<times> metering_directive \<Rightarrow> charge_error + 'p \<times> metering_directive" where
  "accept_delivery L transport consumer envelope =
     try_bind (validate_directive L transport consumer (snd envelope)) (\<lambda>_. Inr envelope)"

section \<open>Lemmas: one commit\<close>

lemma prepare_voucher_ok:
  assumes "prepare_voucher L sign session c = Inr voucher"
  shows "as_cumulative session < c" "parse_u64 (vd_cumulative_amount (sv_data voucher)) = Some c"
    "vd_channel_id (sv_data voucher) = channel_id_str L session"
    "record_voucher voucher session = Inr (session\<lparr>as_cumulative := c\<rparr>)"
  using assms by (auto simp: prepare_voucher_def record_voucher_def Let_def try_bind_Inr_iff parse_u64_show split: if_splits)

lemma validate_directive_ok:
  assumes "validate_directive L transport consumer d = Inr c"
  obtains n where "parse_u64 (md_amount d) = Some n" "0 < n" "n \<le> mb_max_per_delivery (cn_budget consumer)"
    "unat c = unat (as_cumulative (cn_session consumer)) + unat n" "c \<le> mb_max_cumulative (cn_budget consumer)"
  using assms
  by (auto simp: validate_directive_def Let_def try_bind_Inr_iff amount_base_units_def word_gt_0 not_less
      checked_add_def unat_word_ariths split: if_splits option.splits)

text \<open>
  A transport that writes down what it is given and answers at will, and a run of commits over it.
\<close>

definition recording :: "(metering_directive \<Rightarrow> charge_error + unit) \<Rightarrow> (commit_payload \<Rightarrow> charge_error + commit_receipt)
    \<Rightarrow> (metering_directive \<times> commit_payload) list commit_transport" where
  "recording check answer = \<lparr>ct_check_directive = check, ct_commit = (\<lambda>d p w. (answer p, w @ [(d, p)]))\<rparr>"

fun commit_all :: "'key session_lib
    \<Rightarrow> (metering_directive \<times> (u8 list \<Rightarrow> string + u8 list) \<times> 'w commit_transport) list \<Rightarrow> session_consumer \<Rightarrow> 'w
    \<Rightarrow> (charge_error + commit_receipt) list \<times> session_consumer \<times> 'w" where
  "commit_all L [] consumer w = ([], consumer, w)"
| "commit_all L ((d, sign, transport) # xs) consumer w =
     (case commit_directive L sign transport d consumer w of (r, consumer', w') \<Rightarrow>
      case commit_all L xs consumer' w' of (rs, consumer'', w'') \<Rightarrow> (r # rs, consumer'', w''))"

text \<open>What the receipts of a run are for.\<close>

fun receipted :: "(metering_directive \<times> 'x) list \<Rightarrow> (charge_error + commit_receipt) list \<Rightarrow> nat" where
  "receipted ((d, x) # xs) (Inr r # rs) = unat (the (parse_u64 (md_amount d))) + receipted xs rs"
| "receipted (_ # xs) (_ # rs) = receipted xs rs"
| "receipted _ _ = 0"

lemma commit_directive_recording:
  assumes "commit_directive L sign (recording check answer) d consumer w = (r, consumer', w')"
  shows "cn_budget consumer' = cn_budget consumer \<and> channel_id_str L (cn_session consumer') = channel_id_str L (cn_session consumer)
    \<and> unat (as_cumulative (cn_session consumer')) = unat (as_cumulative (cn_session consumer))
        + (case r of Inl _ \<Rightarrow> 0 | Inr _ \<Rightarrow> unat (the (parse_u64 (md_amount d))))
    \<and> (w' = w \<or> (\<exists>p c n. w' = w @ [(d, p)] \<and> cp_delivery_id p = md_delivery_id d
        \<and> vd_channel_id (sv_data (cp_voucher p)) = channel_id_str L (cn_session consumer)
        \<and> parse_u64 (vd_cumulative_amount (sv_data (cp_voucher p))) = Some c \<and> parse_u64 (md_amount d) = Some n
        \<and> n \<le> mb_max_per_delivery (cn_budget consumer) \<and> c \<le> mb_max_cumulative (cn_budget consumer)
        \<and> unat c = unat (as_cumulative (cn_session consumer)) + unat n))
    \<and> (case r of Inl _ \<Rightarrow> True | Inr _ \<Rightarrow> as_cumulative (cn_session consumer') \<le> mb_max_cumulative (cn_budget consumer))"
proof (cases "try_bind (validate_directive L (recording check answer) consumer d) (\<lambda>cumulative.
    prepare_voucher L sign (cn_session consumer) cumulative)")
  case (Inl e)
  with assms show ?thesis by (auto simp: commit_directive_def)
next
  case (Inr voucher)
  then obtain c where c: "validate_directive L (recording check answer) consumer d = Inr c"
      "prepare_voucher L sign (cn_session consumer) c = Inr voucher"
    by (auto simp: try_bind_Inr_iff)
  note facts = prepare_voucher_ok [OF c(2)]
  obtain n where n: "parse_u64 (md_amount d) = Some n" "n \<le> mb_max_per_delivery (cn_budget consumer)"
      "unat c = unat (as_cumulative (cn_session consumer)) + unat n" "c \<le> mb_max_cumulative (cn_budget consumer)"
    by (rule validate_directive_ok [OF c(1)])
  let ?p = "\<lparr>cp_delivery_id = md_delivery_id d, cp_voucher = voucher\<rparr>"
  have sent: "w' = w @ [(d, ?p)]"
    using assms Inr facts(4) by (cases "answer ?p") (auto simp: commit_directive_def recording_def)
  show ?thesis
  proof (cases "answer ?p")
    case Inl: (Inl e)
    with assms Inr have "r = Inl e" "consumer' = consumer"
      by (auto simp: commit_directive_def recording_def)
    with sent facts n show ?thesis by auto
  next
    case ok: (Inr receipt)
    with assms Inr facts(4) have "r = Inr receipt" "consumer' = consumer\<lparr>cn_session := (cn_session consumer)\<lparr>as_cumulative := c\<rparr>\<rparr>"
      by (auto simp: commit_directive_def recording_def)
    with sent facts n show ?thesis by (auto simp: channel_id_str_def)
  qed
qed

text \<open>A commit on the wire, given the budget, the channel and the watermark the session ends with.\<close>

definition within_budget :: "metering_budget \<Rightarrow> string \<Rightarrow> nat \<Rightarrow> metering_directive \<times> commit_payload \<Rightarrow> bool" where
  "within_budget budget channel_id final x \<longleftrightarrow>
     (\<exists>c n. parse_u64 (vd_cumulative_amount (sv_data (cp_voucher (snd x)))) = Some c
        \<and> parse_u64 (md_amount (fst x)) = Some n \<and> n \<le> mb_max_per_delivery budget
        \<and> c \<le> mb_max_cumulative budget \<and> unat c \<le> final + unat n
        \<and> cp_delivery_id (snd x) = md_delivery_id (fst x)
        \<and> vd_channel_id (sv_data (cp_voucher (snd x))) = channel_id)"

lemma commit_all_recording:
  assumes "commit_all L (map (\<lambda>(d, sign, check, answer). (d, sign, recording check answer)) xs) consumer w
      = (rs, consumer', w')"
    and "as_cumulative (cn_session consumer) \<le> mb_max_cumulative (cn_budget consumer)"
  shows "unat (as_cumulative (cn_session consumer')) = unat (as_cumulative (cn_session consumer)) + receipted xs rs
    \<and> as_cumulative (cn_session consumer') \<le> mb_max_cumulative (cn_budget consumer)
    \<and> (\<forall>x \<in> set w'. x \<in> set w \<or> within_budget (cn_budget consumer) (channel_id_str L (cn_session consumer))
          (unat (as_cumulative (cn_session consumer'))) x)"
  using assms
proof (induction xs arbitrary: consumer w rs)
  case Nil
  then show ?case by simp
next
  case (Cons x xs)
  obtain d sign check answer where x: "x = (d, sign, check, answer)" by (cases x)
  obtain r c1 w1 where one: "commit_directive L sign (recording check answer) d consumer w = (r, c1, w1)"
    by (cases "commit_directive L sign (recording check answer) d consumer w")
  obtain rs' where rest: "commit_all L (map (\<lambda>(d, sign, check, answer). (d, sign, recording check answer)) xs) c1 w1
      = (rs', consumer', w')" "rs = r # rs'"
    using Cons.prems(1) one by (auto simp: x split: prod.splits)
  note step = commit_directive_recording [OF one]
  have "as_cumulative (cn_session c1) \<le> mb_max_cumulative (cn_budget c1)"
    using step Cons.prems(2) by (cases r) (simp_all add: word_le_nat_alt)
  note later = Cons.IH [OF rest(1) this]
  have "receipted (x # xs) (r # rs') = (case r of Inl _ \<Rightarrow> 0 | Inr _ \<Rightarrow> unat (the (parse_u64 (md_amount d)))) + receipted xs rs'"
    by (cases r) (simp_all add: x)
  then have total: "unat (as_cumulative (cn_session consumer'))
      = unat (as_cumulative (cn_session consumer)) + receipted (x # xs) rs"
    using later step rest(2) by simp
  have one_sent: "y \<in> set w \<or> within_budget (cn_budget consumer) (channel_id_str L (cn_session consumer))
      (unat (as_cumulative (cn_session consumer'))) y" if "y \<in> set w1" for y
    using that step [THEN conjunct2, THEN conjunct2, THEN conjunct2, THEN conjunct1] total
    by (auto simp: within_budget_def)
  have eqs: "cn_budget c1 = cn_budget consumer" "channel_id_str L (cn_session c1) = channel_id_str L (cn_session consumer)"
    using step by simp_all
  show ?case
    using later total one_sent unfolding eqs by blast
qed

section \<open>Properties of the client\<close>

text \<open>
  C25.  A client never signs past its budget.  Whatever directives a server sends and however it
  answers the commits, every voucher that leaves the client is for its own channel and within the
  cumulative budget, and exceeds the watermark the client ends with by at most the amount of its own
  delivery, which is within the budget of one delivery; and the client's watermark grows by exactly
  the amounts of the deliveries it got a receipt for.
\<close>

theorem client_stays_in_budget:
  assumes "commit_all L (map (\<lambda>(d, sign, check, answer). (d, sign, recording check answer)) xs) consumer []
      = (rs, consumer', sent)"
    and "as_cumulative (cn_session consumer) \<le> mb_max_cumulative (cn_budget consumer)"
  shows "unat (as_cumulative (cn_session consumer')) = unat (as_cumulative (cn_session consumer)) + receipted xs rs
    \<and> as_cumulative (cn_session consumer') \<le> mb_max_cumulative (cn_budget consumer)
    \<and> list_all (\<lambda>(d, p). \<exists>c n.
          parse_u64 (vd_cumulative_amount (sv_data (cp_voucher p))) = Some c \<and> parse_u64 (md_amount d) = Some n
        \<and> c \<le> mb_max_cumulative (cn_budget consumer) \<and> n \<le> mb_max_per_delivery (cn_budget consumer)
        \<and> unat c \<le> unat (as_cumulative (cn_session consumer')) + unat n
        \<and> cp_delivery_id p = md_delivery_id d
        \<and> vd_channel_id (sv_data (cp_voucher p)) = channel_id_str L (cn_session consumer)) sent"
proof -
  note run = commit_all_recording [OF assms]
  then have "within_budget (cn_budget consumer) (channel_id_str L (cn_session consumer))
      (unat (as_cumulative (cn_session consumer'))) x" if "x \<in> set sent" for x
    using that by auto
  with run show ?thesis
    by (auto simp: list_all_iff within_budget_def)
qed

definition sample_directive :: metering_directive where
  "sample_directive = \<lparr>md_delivery_id = ''d'', md_session_id = ''sig'', md_amount = show_nat (unat (600 :: u64)), md_currency = ''USDC'',
     md_sequence = 1, md_expires_at = 1000, md_commit_url = None, md_proof = None\<rparr>"

definition sample_consumer :: session_consumer where
  "sample_consumer = \<lparr>cn_session = \<lparr>as_channel_id = replicate 32 0, as_cumulative = 100, as_expires_at = 0,
       as_signer_pubkey = replicate 32 0\<rparr>,
     cn_budget = \<lparr>mb_max_per_delivery = 700, mb_max_cumulative = 1000\<rparr>\<rparr>"

definition sample_receipt :: commit_receipt where
  "sample_receipt = \<lparr>rc_delivery_id = ''d'', rc_session_id = ''sig'', rc_amount = ''600'', rc_cumulative = ''700'',
     rc_status = Committed\<rparr>"

text \<open>The first delivery is committed, the second one would go past the budget.\<close>

theorem client_stays_in_budget_witness:
  "\<exists>rs consumer' sent.
     commit_all sample_session_lib (replicate 2 (sample_directive, \<lambda>_. Inr [], recording (\<lambda>_. Inr ()) (\<lambda>_. Inr sample_receipt)))
       sample_consumer [] = (rs, consumer', sent)
     \<and> length sent = 1 \<and> unat (as_cumulative (cn_session consumer')) = 700
     \<and> list_all (\<lambda>(d, p). cp_delivery_id p = ''d'') sent"
proof -
  let ?x = "(sample_directive, \<lambda>_ :: u8 list. Inr [] :: string + u8 list, \<lambda>_ :: metering_directive. Inr () :: charge_error + unit,
    \<lambda>_ :: commit_payload. Inr sample_receipt :: charge_error + commit_receipt)"
  let ?run = "commit_all sample_session_lib (map (\<lambda>(d, sign, check, answer). (d, sign, recording check answer)) [?x, ?x])
    sample_consumer []"
  have parse: "parse_u64 (show_nat 600) = Some 600" "parse_u64 (show_nat 700) = Some 700"
    using parse_u64_show [of 600] parse_u64_show [of 700] by simp_all
  note evals = sample_consumer_def sample_directive_def sample_session_lib_def recording_def commit_directive_def
    validate_directive_def amount_base_units_def prepare_voucher_def record_voucher_def voucher_message_def
    channel_id_str_def authorized_signer_def yes_crypto_def toy_crypto_def parse checked_add_def Let_def
  obtain p where one: "commit_directive sample_session_lib (\<lambda>_. Inr []) (recording (\<lambda>_. Inr ()) (\<lambda>_. Inr sample_receipt))
        sample_directive sample_consumer []
      = (Inr sample_receipt, sample_consumer\<lparr>cn_session := (cn_session sample_consumer)\<lparr>as_cumulative := 700\<rparr>\<rparr>,
         [(sample_directive, p)])" "cp_delivery_id p = ''d''"
    by (simp add: evals)
  have two: "\<exists>e. commit_directive sample_session_lib (\<lambda>_. Inr []) (recording (\<lambda>_. Inr ()) (\<lambda>_. Inr sample_receipt))
        sample_directive (sample_consumer\<lparr>cn_session := (cn_session sample_consumer)\<lparr>as_cumulative := 700\<rparr>\<rparr>) sent
      = (Inl e, sample_consumer\<lparr>cn_session := (cn_session sample_consumer)\<lparr>as_cumulative := 700\<rparr>\<rparr>, sent)" for sent
    by (simp add: evals)
  obtain e where "commit_directive sample_session_lib (\<lambda>_. Inr []) (recording (\<lambda>_. Inr ()) (\<lambda>_. Inr sample_receipt))
        sample_directive (sample_consumer\<lparr>cn_session := (cn_session sample_consumer)\<lparr>as_cumulative := 700\<rparr>\<rparr>) [(sample_directive, p)]
      = (Inl e, sample_consumer\<lparr>cn_session := (cn_session sample_consumer)\<lparr>as_cumulative := 700\<rparr>\<rparr>, [(sample_directive, p)])"
    using two by blast
  with one obtain consumer' where run: "?run = ([Inr sample_receipt, Inl e], consumer', [(sample_directive, p)])"
    by simp
  have "parse_u64 (md_amount sample_directive) = Some 600"
    by (simp only: sample_directive_def metering_directive.simps parse_u64_show)
  moreover have "unat (as_cumulative (cn_session sample_consumer)) = 100"
      "as_cumulative (cn_session sample_consumer) \<le> mb_max_cumulative (cn_budget sample_consumer)"
    by (simp_all add: sample_consumer_def)
  moreover have two_times: "replicate 2 x = [x, x]" for x :: 'x
    by (simp add: numeral_2_eq_2)
  ultimately show ?thesis
    using client_stays_in_budget [OF run] run one(2)
    by (intro exI [of _ "[Inr sample_receipt, Inl e]"] exI [of _ consumer'] exI [of _ "[(sample_directive, p)]"])
      (simp add: two_times)
qed

section \<open>Lemmas: client and server\<close>

text \<open>A transport straight to a session server, and one that loses the answer.\<close>

definition server_transport :: "'key session_lib \<Rightarrow> session_server \<Rightarrow> moment \<Rightarrow> channels commit_transport" where
  "server_transport L C t =
     \<lparr>ct_check_directive = (\<lambda>_. Inr ()), ct_commit = (\<lambda>d p. finish (process_commit L C p) t)\<rparr>"

definition losing :: "charge_error \<Rightarrow> 'w commit_transport \<Rightarrow> 'w commit_transport" where
  "losing e transport = transport\<lparr>ct_commit := (\<lambda>d p w. (Inl e, snd (ct_commit transport d p w)))\<rparr>"

lemma find_at_position:
  assumes "List.find P xs = Some x"
  obtains k where "position P xs = Some k" "xs ! k = x"
proof -
  have "\<exists>k. position P xs = Some k \<and> xs ! k = x"
    using assms
  proof (induction xs)
    case (Cons y ys)
    then show ?case by (auto split: if_splits intro: exI [of _ "Suc k" for k])
  qed simp
  with that show ?thesis by blast
qed

lemma find_pushed:
  assumes "List.find P xs = None" "P x" "0 < m"
  shows "List.find P (drop (length (xs @ [x]) - m) (xs @ [x])) = Some x"
proof -
  have none: "\<forall>y \<in> set xs. \<not> P y" using assms(1) by (simp add: find_None_iff)
  let ?k = "length (xs @ [x]) - m"
  have "drop ?k (xs @ [x]) = drop ?k xs @ [x]" using assms(3) by simp
  moreover have "List.find P (ys @ [x]) = Some x" if "set ys \<subseteq> set xs" for ys
    using that assms(2) none by (induction ys) auto
  ultimately show ?thesis using set_drop_subset by metis
qed

text \<open>What a commit finds ready on the server, and what it leaves there.\<close>

definition ready :: "channel_state \<Rightarrow> i64 \<Rightarrow> string \<Rightarrow> u64 \<Rightarrow> bool" where
  "ready st now d n \<longleftrightarrow>
     \<not> cs_sealed st \<and> cs_final_cumulative st = None \<and> find_committed st d = None
     \<and> (\<exists>pending. List.find (\<lambda>x. pd_delivery_id x = d) (cs_pending_deliveries st) = Some pending
          \<and> pd_amount pending = n \<and> now < pd_expires_at pending)
     \<and> 0 < n \<and> unat (cs_cumulative st) + unat n \<le> unat (cs_deposit st) \<and> cs_spent_amount st \<le> cs_cumulative st"

lemma commit_updater_ready:
  assumes "ready st now (cp_delivery_id p) n" "c = cs_cumulative st + n"
  shows "\<exists>st'. commit_updater C p c now later (Some st) = Inr (st', (n, c, Committed))
    \<and> cs_cumulative st' = c \<and> cs_authorized_signer st' = cs_authorized_signer st
    \<and> cs_extra st' = cs_extra st \<and> cs_pending_setup st' = cs_pending_setup st
    \<and> find_committed st' (cp_delivery_id p) = Some \<lparr>cd_delivery_id = cp_delivery_id p, cd_amount = n, cd_cumulative = c,
        cd_voucher_signature = sv_signature (cp_voucher p), cd_request_fingerprint = None,
        cd_settlement_response = None, cd_retain_until = 0, cd_cached_response = None\<rparr>"
proof -
  obtain pending where pending: "List.find (\<lambda>x. pd_delivery_id x = cp_delivery_id p) (cs_pending_deliveries st) = Some pending"
      "pd_amount pending = n" "now < pd_expires_at pending"
    using assms(1) by (auto simp: ready_def)
  obtain k where k: "position (\<lambda>x. pd_delivery_id x = cp_delivery_id p) (cs_pending_deliveries st) = Some k"
      "cs_pending_deliveries st ! k = pending"
    by (rule find_at_position [OF pending(1)])
  have n: "0 < n" and room: "unat (cs_cumulative st) + unat n \<le> unat (cs_deposit st)" "cs_spent_amount st \<le> cs_cumulative st"
    using assms(1) by (auto simp: ready_def)
  have fits: "unat (cs_cumulative st) + unat n < 2 ^ 64" "unat (cs_spent_amount st) + unat n < 2 ^ 64"
    using room unsigned_less [of "cs_deposit st", where 'a = nat] by (simp_all add: word_le_nat_alt)
  then have c: "unat c = unat (cs_cumulative st) + unat n"
    using assms(2) by (simp add: unat_word_ariths)
  have ok: "\<not> c \<le> cs_cumulative st" "\<not> cs_deposit st < c" "c - cs_cumulative st = n"
      "checked_add (cs_spent_amount st) n = Some (cs_spent_amount st + n)"
    using c room(1) n fits assms(2) by (simp_all add: word_le_nat_alt word_less_nat_alt checked_add_def unat_gt_0)
  have pushed: "List.find (\<lambda>d. cd_delivery_id d = cp_delivery_id p)
      (drop (length (cs_committed_deliveries st @ [x]) - MAX_COMMITTED_AUTHORIZATIONS) (cs_committed_deliveries st @ [x])) = Some x"
    if "cd_delivery_id x = cp_delivery_id p" for x
    using that assms(1)
    by (intro find_pushed) (simp_all add: ready_def find_committed_def MAX_COMMITTED_AUTHORIZATIONS_def)
  show ?thesis
    using assms(1) k pending ok pushed
    by (simp add: ready_def commit_updater_def Let_def touched_def find_committed_def del: length_append drop_append)
qed

lemma finish_commit:
  assumes "mo_fault t = Served" "s (vd_channel_id (sv_data (cp_voucher p))) = Some st" "bound_check L C st = Inr ()"
    and "parse_u64 (vd_cumulative_amount (sv_data (cp_voucher p))) = Some c" "c = cs_cumulative st + n"
    and "ready st (mo_now t) (cp_delivery_id p) n"
    and "verify_signature L (mo_now t) (cp_voucher p) (cs_authorized_signer st) (int (unat (sc_grace_period_seconds C))) = Inr ()"
  shows "\<exists>st'. finish (process_commit L C p) t s
      = (Inr (commit_receipt_of p (n, c, Committed)), s(vd_channel_id (sv_data (cp_voucher p)) \<mapsto> st'))
    \<and> finish (process_commit L C p) t (s(vd_channel_id (sv_data (cp_voucher p)) \<mapsto> st'))
      = (Inr (commit_receipt_of p (n, c, Replayed)), s(vd_channel_id (sv_data (cp_voucher p)) \<mapsto> st'))
    \<and> cs_cumulative st' = c"
proof -
  let ?i = "vd_channel_id (sv_data (cp_voucher p))"
  obtain st' where st': "commit_updater C p c (mo_now t) (mo_now t) (Some st) = Inr (st', (n, c, Committed))"
      "cs_cumulative st' = c" "cs_authorized_signer st' = cs_authorized_signer st"
      "cs_extra st' = cs_extra st" "cs_pending_setup st' = cs_pending_setup st"
      "find_committed st' (cp_delivery_id p) = Some \<lparr>cd_delivery_id = cp_delivery_id p, cd_amount = n, cd_cumulative = c,
        cd_voucher_signature = sv_signature (cp_voucher p), cd_request_fingerprint = None,
        cd_settlement_response = None, cd_retain_until = 0, cd_cached_response = None\<rparr>"
    using commit_updater_ready [OF assms(6,5)] by blast
  have bound: "bound_check L C st' = Inr ()"
    using bound_check_cong [OF st'(4,5), of L C] assms(3) by simp
  obtain pending where pending: "List.find (\<lambda>x. pd_delivery_id x = cp_delivery_id p) (cs_pending_deliveries st) = Some pending"
      "mo_now t < pd_expires_at pending" "find_committed st (cp_delivery_id p) = None"
    using assms(6) by (auto simp: ready_def)
  have "unat (cs_cumulative st) + unat n < 2 ^ 64"
    using assms(6) unsigned_less [of "cs_deposit st", where 'a = nat] by (simp add: ready_def)
  then have "unat c = unat (cs_cumulative st) + unat n"
    using assms(5) by (simp add: unat_word_ariths)
  then have ok: "\<not> c \<le> cs_cumulative st" "\<not> cs_deposit st < c"
    using assms(6) by (simp_all add: ready_def word_le_nat_alt word_less_nat_alt unat_gt_0)
  have "finish (process_commit L C p) t s = (Inr (commit_receipt_of p (n, c, Committed)), s(?i \<mapsto> st'))"
    using assms(1-4,7) st' pending ok by (simp add: process_commit_def Let_def bound_with_ok [of _ _ st])
  moreover have "finish (process_commit L C p) t (s(?i \<mapsto> st')) = (Inr (commit_receipt_of p (n, c, Replayed)), s(?i \<mapsto> st'))"
    using assms(1,4,7) bound st'(3,6) by (simp add: process_commit_def Let_def)
  ultimately show ?thesis using st'(2) by blast
qed

text \<open>
  C26.  Paying for a delivery brings client and server together, also over a lost reply.  Let client
  and server agree on the watermark, the channel be one that this server admits, the delivery be reserved for the amount of its directive, not
  expired, and within the deposit and the client's budget, and the client's key sign vouchers that
  verify under the signer of the channel.  Then committing the directive is answered with a receipt, and
  afterwards both watermarks are the old one plus the amount.  If the reply is lost instead, the
  client keeps its watermark, and committing the same directive again is answered as a replay,
  changes nothing on the server and leaves the client where the first receipt would have.
\<close>

theorem delivery_exchange:
  assumes "mo_fault t = Served" "channel_id_str L (cn_session consumer) = i" "s i = Some st" "bound_check L C st = Inr ()"
    and "as_cumulative (cn_session consumer) = cs_cumulative st"
    and "md_session_id d = i" "parse_u64 (md_amount d) = Some n" "ready st (mo_now t) (md_delivery_id d) n"
    and "n \<le> mb_max_per_delivery (cn_budget consumer)"
    and "unat (cs_cumulative st) + unat n \<le> unat (mb_max_cumulative (cn_budget consumer))"
    and "prepare_voucher L sign (cn_session consumer) (cs_cumulative st + n) = Inr voucher"
    and "verify_signature L (mo_now t) voucher (cs_authorized_signer st) (int (unat (sc_grace_period_seconds C))) = Inr ()"
  shows "\<exists>receipt consumer' st' replay.
      commit_directive L sign (server_transport L C t) d consumer s = (Inr receipt, consumer', s(i \<mapsto> st'))
    \<and> rc_status receipt = Committed \<and> rc_delivery_id receipt = md_delivery_id d
    \<and> as_cumulative (cn_session consumer') = cs_cumulative st' \<and> unat (cs_cumulative st') = unat (cs_cumulative st) + unat n
    \<and> commit_directive L sign (losing e (server_transport L C t)) d consumer s = (Inl e, consumer, s(i \<mapsto> st'))
    \<and> commit_directive L sign (server_transport L C t) d consumer (s(i \<mapsto> st')) = (Inr replay, consumer', s(i \<mapsto> st'))
    \<and> rc_status replay = Replayed"
proof -
  let ?c = "cs_cumulative st + n" and ?p = "\<lparr>cp_delivery_id = md_delivery_id d, cp_voucher = voucher\<rparr>"
  have "unat (cs_cumulative st) + unat n < 2 ^ 64" "0 < n"
    using assms(8) unsigned_less [of "cs_deposit st", where 'a = nat] by (simp_all add: ready_def)
  then have c: "unat ?c = unat (cs_cumulative st) + unat n" "checked_add (cs_cumulative st) n = Some ?c"
    by (simp_all add: unat_word_ariths checked_add_def)
  have valid: "validate_directive L transport consumer d = Inr ?c" if "ct_check_directive transport d = Inr ()"
    for transport :: "channels commit_transport"
    using that assms(2,5,6,7,9,10) c \<open>0 < n\<close>
    by (simp add: validate_directive_def Let_def amount_base_units_def word_le_nat_alt not_less word_gt_0)
  note voucher = prepare_voucher_ok [OF assms(11)]
  have i: "vd_channel_id (sv_data voucher) = i" using voucher(3) assms(2) by simp
  obtain st' where st': "finish (process_commit L C ?p) t s = (Inr (commit_receipt_of ?p (n, ?c, Committed)), s(i \<mapsto> st'))"
      "finish (process_commit L C ?p) t (s(i \<mapsto> st')) = (Inr (commit_receipt_of ?p (n, ?c, Replayed)), s(i \<mapsto> st'))"
      "cs_cumulative st' = ?c"
    using finish_commit [where s = s and st = st and p = ?p and n = n and t = t and L = L and C = C] assms(1,3,4,8,12) voucher(2) i
    by auto
  let ?consumer = "consumer\<lparr>cn_session := (cn_session consumer)\<lparr>as_cumulative := ?c\<rparr>\<rparr>"
  have "commit_directive L sign (server_transport L C t) d consumer s
      = (Inr (commit_receipt_of ?p (n, ?c, Committed)), ?consumer, s(i \<mapsto> st'))"
    "commit_directive L sign (losing e (server_transport L C t)) d consumer s = (Inl e, consumer, s(i \<mapsto> st'))"
    "commit_directive L sign (server_transport L C t) d consumer (s(i \<mapsto> st'))
      = (Inr (commit_receipt_of ?p (n, ?c, Replayed)), ?consumer, s(i \<mapsto> st'))"
    using valid [of "server_transport L C t"] valid [of "losing e (server_transport L C t)"] assms(11) voucher(4) st'
    by (simp_all add: commit_directive_def server_transport_def losing_def Let_def)
  then show ?thesis
    using c(1) st'(3)
    by (intro exI [of _ "commit_receipt_of ?p (n, ?c, Committed)"] exI [of _ ?consumer] exI [of _ st']
        exI [of _ "commit_receipt_of ?p (n, ?c, Replayed)"]) (simp add: commit_receipt_of_def)
qed

theorem delivery_exchange_witness:
  "\<exists>receipt consumer' st'.
     commit_directive sample_session_lib (\<lambda>_. Inr []) (server_transport sample_session_lib sample_config sample_moment) sample_directive
       sample_consumer [''sig'' \<mapsto> with_reservation\<lparr>cs_authorized_signer := ''sig''\<rparr>]
       = (Inr receipt, consumer', [''sig'' \<mapsto> st'])
     \<and> rc_status receipt = Committed \<and> as_cumulative (cn_session consumer') = cs_cumulative st'
     \<and> unat (cs_cumulative st') = 700"
proof -
  let ?st = "with_reservation\<lparr>cs_authorized_signer := ''sig''\<rparr>"
  have parse: "parse_u64 (md_amount sample_directive) = Some 600"
    by (simp only: sample_directive_def metering_directive.simps parse_u64_show)
  have "parse_u64 (show_nat 700) = Some 700" using parse_u64_show [of 700] by simp
  then obtain voucher where voucher: "prepare_voucher sample_session_lib (\<lambda>_. Inr []) (cn_session sample_consumer) (cs_cumulative ?st + 600) = Inr voucher"
      "verify_signature sample_session_lib (mo_now sample_moment) voucher (cs_authorized_signer ?st)
         (int (unat (sc_grace_period_seconds sample_config))) = Inr ()"
    by (simp add: prepare_voucher_def verify_signature_def voucher_message_def Let_def sample_consumer_def
        channel_id_str_def authorized_signer_def sample_session_lib_def yes_crypto_def toy_crypto_def with_reservation_def
        sample_channel_def verify_voucher_signature_def voucher_verify_parts_def Voucher.map_err_def check_expiry_def)
  have bound: "bound_check sample_session_lib sample_config ?st = Inr ()"
    using bound_check_cong [of ?st with_reservation sample_session_lib sample_config] by simp
  have "ready ?st (mo_now sample_moment) (md_delivery_id sample_directive) 600"
    by (simp add: ready_def with_reservation_def sample_channel_def find_committed_def sample_directive_def sample_moment_def)
  moreover have "channel_id_str sample_session_lib (cn_session sample_consumer) = ''sig''"
      "as_cumulative (cn_session sample_consumer) = cs_cumulative ?st" "md_session_id sample_directive = ''sig''"
      "600 \<le> mb_max_per_delivery (cn_budget sample_consumer)" "cs_cumulative ?st = 100"
      "unat (mb_max_cumulative (cn_budget sample_consumer)) = 1000"
    by (simp_all add: channel_id_str_def sample_session_lib_def sample_consumer_def with_reservation_def sample_channel_def
        sample_directive_def)
  ultimately show ?thesis
    using delivery_exchange [of sample_moment sample_session_lib sample_consumer "''sig''" "[''sig'' \<mapsto> ?st]" ?st sample_config sample_directive 600
        "\<lambda>_. Inr []" voucher] parse voucher bound
    by fastforce
qed

end
