(* ===== verification/Charge_Transfers.thy ===== *)
theory Charge_Transfers
  imports Charge_Request
begin

text \<open>
  The checks a client's payment transaction passes before the server co-signs and sends it:
  \<open>verify_client_pull_transaction\<close> of \<open>mpp/server/charge.rs\<close> and everything below it.

  A loop over the instructions of the message is recursion over \<open>enumerate 0\<close> of them; a set of
  instruction indexes is the list of its members in the order they were inserted.
\<close>

section \<open>Reading a message\<close>

definition slice_get :: "'a list \<Rightarrow> nat \<Rightarrow> 'a option" where
  "slice_get xs i = (if i < length xs then Some (xs ! i) else None)"

definition key_at :: "pubkey list \<Rightarrow> u8 \<Rightarrow> pubkey option" where
  "key_at account_keys index = slice_get account_keys (unat index)"

definition account_key :: "pubkey list \<Rightarrow> u8 \<Rightarrow> string \<Rightarrow> verification_error + pubkey" where
  "account_key account_keys index label =
     ok_or (key_at account_keys index) (invalid_payload (''Invalid '' @ label @ '' index''))"

definition program_of :: "pubkey list \<Rightarrow> compiled_instruction \<Rightarrow> verification_error + pubkey" where
  "program_of account_keys ix =
     ok_or (key_at account_keys (ci_program_id_index ix)) (invalid_payload ''Invalid program_id_index'')"

fun show_core_error :: "core_error \<Rightarrow> string" where
  "show_core_error (SerializationError m) = ''serialization error: '' @ m"
| "show_core_error (Other m) = m"

text \<open>\<open>map_err(|e| invalid_payload(prefix + e))\<close> on a result of the core.\<close>

definition core_result :: "string \<Rightarrow> core_error + 'a \<Rightarrow> verification_error + 'a" where
  "core_result prefix r = map_err (\<lambda>e. invalid_payload (prefix @ show_core_error e)) r"

definition ata_of :: "keylib \<Rightarrow> pubkey \<Rightarrow> pubkey \<Rightarrow> pubkey \<Rightarrow> pubkey" where
  "ata_of L owner token_program mint =
     fst (find_program_address L [owner, token_program, mint] ASSOCIATED_TOKEN_PROGRAM)"

section \<open>Expectations\<close>

definition expected_fee_payer :: "keylib \<Rightarrow> versioned_transaction \<Rightarrow> method_details
    \<Rightarrow> verification_error + pubkey option" where
  "expected_fee_payer L tx details =
     (if \<not> unwrap_or (md_fee_payer details) False then Inr None
      else try_bind (ok_or (md_fee_payer_key details)
          (invalid_payload ''feePayer=true requires feePayerKey in methodDetails'')) (\<lambda>fee_payer_key.
        try_bind (map_err (\<lambda>e. invalid_payload (''Invalid fee payer: '' @ e)) (key_from_str L fee_payer_key))
          (\<lambda>fee_payer. try_bind (ok_or (slice_get (static_account_keys (vt_message tx)) 0)
                (invalid_payload ''Transaction has no fee payer'')) (\<lambda>tx_fee_payer.
              if tx_fee_payer \<noteq> fee_payer
              then Inl (invalid_payload (''Transaction fee payer must be '' @ fee_payer))
              else Inr (Some fee_payer)))))"

definition expected_token_program :: "keylib \<Rightarrow> method_details \<Rightarrow> verification_error + pubkey option" where
  "expected_token_program L details =
     (case md_token_program details of
        None \<Rightarrow> Inr None
      | Some token_program \<Rightarrow>
          if token_program \<noteq> TOKEN_PROGRAM \<and> token_program \<noteq> TOKEN_2022_PROGRAM
          then Inl (invalid_payload (''Unsupported token program: '' @ token_program))
          else try_bind (map_err (\<lambda>e. invalid_payload (''Invalid token program: '' @ e))
              (key_from_str L token_program)) (\<lambda>pk. Inr (Some pk)))"

text \<open>The owners of all splits and of those that require an account, in order.\<close>

fun split_owners :: "keylib \<Rightarrow> charge_split list \<Rightarrow> verification_error + pubkey list \<times> pubkey list" where
  "split_owners L [] = Inr ([], [])"
| "split_owners L (s # splits) =
     try_bind (map_err (\<lambda>e. invalid_recipient (''Invalid split recipient: '' @ e)) (key_from_str L (sp_recipient s)))
       (\<lambda>owner. try_bind (split_owners L splits) (\<lambda>(owners, required).
          Inr (owner # owners,
            if sp_ata_creation_required s = Some True then owner # required else required)))"

record ata_creation_policy =
  acp_allowed_owners :: "pubkey list"
  acp_required_owners :: "pubkey list"

definition expected_ata_creation_policy :: "keylib \<Rightarrow> charge_split list \<Rightarrow> pubkey option
    \<Rightarrow> verification_error + ata_creation_policy" where
  "expected_ata_creation_policy L splits fee_payer =
     try_bind (split_owners L splits) (\<lambda>(owners, required).
       Inr \<lparr>acp_allowed_owners = (if fee_payer \<noteq> None then required else owners),
            acp_required_owners = required\<rparr>)"

definition expected_memos :: "string option \<Rightarrow> charge_split list \<Rightarrow> (string \<times> string) list" where
  "expected_memos external_id splits =
     (case external_id of Some e \<Rightarrow> if e \<noteq> [] then [(''externalId'', e)] else [] | None \<Rightarrow> [])
     @ concat (map (\<lambda>s. case sp_memo s of Some m \<Rightarrow> if m \<noteq> [] then [(''split'', m)] else []
                     | None \<Rightarrow> []) splits)"

section \<open>Transfers\<close>

text \<open>The instructions from a position on; the result is the index of the one that pays.\<close>

fun find_sol_leg :: "pubkey list \<Rightarrow> pubkey \<Rightarrow> u64 \<Rightarrow> pubkey option \<Rightarrow> nat list
    \<Rightarrow> (nat \<times> compiled_instruction) list \<Rightarrow> verification_error + nat" where
  "find_sol_leg account_keys recipient amount fee_payer matched [] =
     Inl (invalid_amount_error (''No matching SOL transfer of '' @ show_nat (unat amount)
       @ '' lamports to '' @ recipient))"
| "find_sol_leg account_keys recipient amount fee_payer matched ((index, ix) # ixs) =
     (if index \<in> set matched then find_sol_leg account_keys recipient amount fee_payer matched ixs
      else try_bind (program_of account_keys ix) (\<lambda>program_id.
        if program_id \<noteq> SYSTEM_PROGRAM \<or> length (ci_data ix) \<noteq> 12
           \<or> from_le_bytes (take 4 (ci_data ix)) \<noteq> (2 :: u32) \<or> length (ci_accounts ix) \<noteq> 2
        then find_sol_leg account_keys recipient amount fee_payer matched ixs
        else try_bind (account_key account_keys (ci_accounts ix ! 0) ''source'') (\<lambda>source.
        try_bind (account_key account_keys (ci_accounts ix ! 1) ''destination'') (\<lambda>dest.
          if dest = recipient \<and> from_le_bytes (drop 4 (ci_data ix)) = amount
          then (if fee_payer = Some source
                then Inl (invalid_payload ''Fee payer cannot fund the SOL payment transfer'')
                else Inr index)
          else find_sol_leg account_keys recipient amount fee_payer matched ixs))))"

definition verify_sol_transfer_instructions :: "versioned_transaction \<Rightarrow> pubkey list \<Rightarrow> pubkey \<Rightarrow> u64
    \<Rightarrow> pubkey option \<Rightarrow> nat list \<Rightarrow> verification_error + nat list" where
  "verify_sol_transfer_instructions tx account_keys recipient amount fee_payer matched =
     try_bind (find_sol_leg account_keys recipient amount fee_payer matched
         (enumerate 0 (message_instructions (vt_message tx)))) (\<lambda>index. Inr (matched @ [index]))"

fun find_spl_leg :: "keylib \<Rightarrow> pubkey list \<Rightarrow> pubkey \<Rightarrow> pubkey \<Rightarrow> u64 \<Rightarrow> pubkey option \<Rightarrow> u8 option
    \<Rightarrow> pubkey option \<Rightarrow> nat list \<Rightarrow> (nat \<times> compiled_instruction) list \<Rightarrow> verification_error + nat" where
  "find_spl_leg L account_keys recipient expected_mint amount token_program decimals fee_payer matched [] =
     Inl (invalid_amount_error (''No matching SPL transferChecked of '' @ show_nat (unat amount)
       @ '' to '' @ recipient))"
| "find_spl_leg L account_keys recipient expected_mint amount token_program decimals fee_payer matched
      ((index, ix) # ixs) =
     (let continue = find_spl_leg L account_keys recipient expected_mint amount token_program decimals
            fee_payer matched ixs in
      if index \<in> set matched then continue
      else try_bind (program_of account_keys ix) (\<lambda>program_id.
        if program_id \<noteq> TOKEN_PROGRAM \<and> program_id \<noteq> TOKEN_2022_PROGRAM then continue
        else if token_program \<noteq> None \<and> token_program \<noteq> Some program_id then continue
        else if ci_data ix = [] \<or> hd (ci_data ix) \<noteq> 12 then continue
        else if length (ci_data ix) \<noteq> 10 \<or> length (ci_accounts ix) \<noteq> 4 then continue
        else if from_le_bytes (take 8 (drop 1 (ci_data ix))) \<noteq> amount then continue
        else if decimals \<noteq> None \<and> decimals \<noteq> Some (ci_data ix ! 9) then continue
        else try_bind (account_key account_keys (ci_accounts ix ! 0) ''source'') (\<lambda>source_ata.
        try_bind (account_key account_keys (ci_accounts ix ! 2) ''destination'') (\<lambda>dest_ata.
        try_bind (account_key account_keys (ci_accounts ix ! 1) ''mint'') (\<lambda>mint.
          if mint \<noteq> expected_mint then continue
          else try_bind (account_key account_keys (ci_accounts ix ! 3) ''authority'') (\<lambda>authority.
            if fee_payer = Some authority
            then Inl (invalid_payload ''Fee payer cannot authorize the SPL payment transfer'')
            else if (case fee_payer of Some payer \<Rightarrow> source_ata = ata_of L payer program_id mint
                     | None \<Rightarrow> False)
            then Inl (invalid_payload ''Fee payer token account cannot fund the SPL payment transfer'')
            else if dest_ata = ata_of L recipient program_id mint then Inr index
            else continue))))))"

definition verify_spl_transfer_instructions :: "keylib \<Rightarrow> versioned_transaction \<Rightarrow> pubkey list \<Rightarrow> pubkey
    \<Rightarrow> pubkey \<Rightarrow> u64 \<Rightarrow> pubkey option \<Rightarrow> u8 option \<Rightarrow> pubkey option \<Rightarrow> nat list
    \<Rightarrow> verification_error + nat list" where
  "verify_spl_transfer_instructions L tx account_keys recipient expected_mint amount token_program
      decimals fee_payer matched =
     try_bind (find_spl_leg L account_keys recipient expected_mint amount token_program decimals
         fee_payer matched (enumerate 0 (message_instructions (vt_message tx))))
       (\<lambda>index. Inr (matched @ [index]))"

text \<open>The transfers of the splits, one after the other; \<open>verify\<close> is either of the checks above.\<close>

fun verify_split_transfers :: "keylib \<Rightarrow> (pubkey \<Rightarrow> u64 \<Rightarrow> nat list \<Rightarrow> verification_error + nat list)
    \<Rightarrow> charge_split list \<Rightarrow> nat list \<Rightarrow> verification_error + nat list" where
  "verify_split_transfers L verify [] matched = Inr matched"
| "verify_split_transfers L verify (s # splits) matched =
     try_bind (map_err (\<lambda>e. invalid_recipient (''Invalid split recipient: '' @ e)) (key_from_str L (sp_recipient s)))
       (\<lambda>split_pk. try_bind (ok_or (parse_u64 (sp_amount s)) (invalid_amount_error ''Invalid split amount'')) (\<lambda>amt.
          try_bind (verify split_pk amt matched) (\<lambda>matched'.
            verify_split_transfers L verify splits matched')))"

section \<open>Memos\<close>

fun find_memo :: "pubkey list \<Rightarrow> bytes \<Rightarrow> nat list \<Rightarrow> (nat \<times> compiled_instruction) list
    \<Rightarrow> verification_error + nat option" where
  "find_memo account_keys expected_data matched [] = Inr None"
| "find_memo account_keys expected_data matched ((index, ix) # ixs) =
     (if index \<in> set matched then find_memo account_keys expected_data matched ixs
      else try_bind (program_of account_keys ix) (\<lambda>program_id.
        if program_id = MEMO_PROGRAM \<and> ci_accounts ix = [] \<and> ci_data ix = expected_data
        then Inr (Some index)
        else find_memo account_keys expected_data matched ixs))"

definition as_bytes :: "string \<Rightarrow> bytes" where
  "as_bytes s = map of_char s"

fun verify_memos :: "(nat \<times> compiled_instruction) list \<Rightarrow> pubkey list \<Rightarrow> (string \<times> string) list
    \<Rightarrow> nat list \<Rightarrow> verification_error + nat list" where
  "verify_memos ixs account_keys [] matched = Inr matched"
| "verify_memos ixs account_keys ((label, memo_text) # memos) matched =
     (if length (as_bytes memo_text) > MAX_MEMO_BYTES
      then Inl (invalid_payload (''memo cannot exceed '' @ show_nat MAX_MEMO_BYTES @ '' bytes''))
      else try_bind (find_memo account_keys (as_bytes memo_text) matched ixs) (\<lambda>found.
        case found of
          None \<Rightarrow> Inl (invalid_payload (''No memo instruction found for '' @ label @ '' memo ''
                    @ [CHR 0x22] @ memo_text @ [CHR 0x22]))
        | Some index \<Rightarrow> verify_memos ixs account_keys memos (matched @ [index])))"

definition verify_memo_instructions :: "versioned_transaction \<Rightarrow> pubkey list \<Rightarrow> string option
    \<Rightarrow> charge_split list \<Rightarrow> nat list \<Rightarrow> verification_error + nat list" where
  "verify_memo_instructions tx account_keys external_id splits matched =
     verify_memos (enumerate 0 (message_instructions (vt_message tx))) account_keys
       (expected_memos external_id splits) matched"

section \<open>Everything else in the transaction\<close>

definition MAX_COMPUTE_UNIT_LIMIT :: u32 where
  "MAX_COMPUTE_UNIT_LIMIT = 200000"

definition MAX_COMPUTE_UNIT_PRICE_MICROLAMPORTS :: u64 where
  "MAX_COMPUTE_UNIT_PRICE_MICROLAMPORTS = 5000000"

definition MAX_COMPUTE_UNIT_PRICE_MICROLAMPORTS_FEE_SPONSORED :: u64 where
  "MAX_COMPUTE_UNIT_PRICE_MICROLAMPORTS_FEE_SPONSORED = 10000"

definition max_price :: "bool \<Rightarrow> u64" where
  "max_price fee_sponsored =
     (if fee_sponsored then MAX_COMPUTE_UNIT_PRICE_MICROLAMPORTS_FEE_SPONSORED
      else MAX_COMPUTE_UNIT_PRICE_MICROLAMPORTS)"

definition validate_compute_budget_instruction :: "compiled_instruction \<Rightarrow> bool
    \<Rightarrow> verification_error + unit" where
  "validate_compute_budget_instruction ix fee_sponsored =
     (if ci_accounts ix \<noteq> [] then Inl (invalid_payload ''Compute budget instruction must not have accounts'')
      else case decode_compute_budget_op ix of
        Some (UnitLimit units) \<Rightarrow>
          if units = 0 then Inl (invalid_payload ''Compute unit limit must be positive'')
          else if units > MAX_COMPUTE_UNIT_LIMIT
          then Inl (invalid_payload (''Compute unit limit '' @ show_nat (unat units)
                 @ '' exceeds maximum '' @ show_nat (unat MAX_COMPUTE_UNIT_LIMIT)))
          else Inr ()
      | Some (UnitPrice price) \<Rightarrow>
          if price > max_price fee_sponsored
          then Inl (invalid_payload (''Compute unit price '' @ show_nat (unat price)
                 @ '' exceeds maximum '' @ show_nat (unat (max_price fee_sponsored))))
          else Inr ()
      | Some (LoadedAccountsDataSizeLimit _) \<Rightarrow> Inl (invalid_payload ''Unsupported compute budget instruction'')
      | None \<Rightarrow> Inl (invalid_payload ''Unsupported compute budget instruction''))"

definition validate_create_ata_idempotent_instruction :: "keylib \<Rightarrow> compiled_instruction \<Rightarrow> pubkey list
    \<Rightarrow> pubkey option \<Rightarrow> pubkey list \<Rightarrow> pubkey option \<Rightarrow> pubkey \<Rightarrow> verification_error + pubkey" where
  "validate_create_ata_idempotent_instruction L ix account_keys expected_mint allowed_ata_owners
      token_program expected_payer =
     try_bind (ok_or expected_mint
         (invalid_payload ''ATA creation is not allowed for native SOL payments'')) (\<lambda>expected_mint.
     if ci_data ix \<noteq> [1] then Inl (invalid_payload ''Only idempotent ATA creation is allowed'')
     else if length (ci_accounts ix) \<noteq> 6 then Inl (invalid_payload ''Unexpected ATA creation account layout'')
     else
     try_bind (account_key account_keys (ci_accounts ix ! 0) ''ATA payer'') (\<lambda>payer.
     try_bind (account_key account_keys (ci_accounts ix ! 1) ''ATA address'') (\<lambda>ata.
     try_bind (account_key account_keys (ci_accounts ix ! 2) ''ATA owner'') (\<lambda>owner.
     try_bind (account_key account_keys (ci_accounts ix ! 3) ''ATA mint'') (\<lambda>mint.
     try_bind (account_key account_keys (ci_accounts ix ! 4) ''ATA system program'') (\<lambda>system_program.
     try_bind (account_key account_keys (ci_accounts ix ! 5) ''ATA token program'') (\<lambda>ix_token_program.
     if payer \<noteq> expected_payer then Inl (invalid_payload ''ATA payer must match the transaction fee payer'')
     else if mint \<noteq> expected_mint
     then Inl (invalid_payload ''ATA creation mint does not match the charge currency'')
     else if owner \<notin> set allowed_ata_owners
     then Inl (invalid_payload ''ATA creation owner is not authorized by the challenge'')
     else if system_program \<noteq> SYSTEM_PROGRAM
     then Inl (invalid_payload ''ATA creation must reference the System Program'')
     else if ix_token_program \<noteq> TOKEN_PROGRAM \<and> ix_token_program \<noteq> TOKEN_2022_PROGRAM
     then Inl (invalid_payload ''ATA creation uses an unsupported token program'')
     else if token_program \<noteq> None \<and> token_program \<noteq> Some ix_token_program
     then Inl (invalid_payload ''ATA creation token program does not match methodDetails.tokenProgram'')
     else if ata \<noteq> ata_of L owner ix_token_program mint
     then Inl (invalid_payload ''ATA creation address does not match owner/mint/token program'')
     else Inr owner)))))))"

definition unexpected :: "string \<Rightarrow> verification_error" where
  "unexpected program = invalid_payload (''Unexpected '' @ program @ '' instruction in payment transaction'')"

text \<open>One pass over the instructions; the result is the owners whose accounts are created.\<close>

fun allowlist_loop :: "keylib \<Rightarrow> pubkey list \<Rightarrow> nat list \<Rightarrow> pubkey option \<Rightarrow> pubkey list \<Rightarrow> pubkey option
    \<Rightarrow> pubkey option \<Rightarrow> pubkey \<Rightarrow> pubkey list \<Rightarrow> (nat \<times> compiled_instruction) list
    \<Rightarrow> verification_error + pubkey list" where
  "allowlist_loop L account_keys matched expected_mint allowed token_program fee_payer ata_payer created [] =
     Inr created"
| "allowlist_loop L account_keys matched expected_mint allowed token_program fee_payer ata_payer created
      ((index, ix) # ixs) =
     try_bind (program_of account_keys ix) (\<lambda>program_id.
       let continue = (\<lambda>created. allowlist_loop L account_keys matched expected_mint allowed token_program
             fee_payer ata_payer created ixs);
           if_matched = (\<lambda>name. if index \<in> set matched then continue created else Inl (unexpected name)) in
       if program_id = COMPUTE_BUDGET_PROGRAM
       then try_bind (validate_compute_budget_instruction ix (fee_payer \<noteq> None)) (\<lambda>_. continue created)
       else if program_id = MEMO_PROGRAM then if_matched ''Memo Program''
       else if program_id = SYSTEM_PROGRAM then if_matched ''System Program''
       else if program_id = TOKEN_PROGRAM \<or> program_id = TOKEN_2022_PROGRAM then if_matched ''Token Program''
       else if program_id = ASSOCIATED_TOKEN_PROGRAM
       then try_bind (validate_create_ata_idempotent_instruction L ix account_keys expected_mint allowed
           token_program ata_payer) (\<lambda>owner. continue (created @ [owner]))
       else Inl (invalid_payload (''Unexpected program instruction in payment transaction: '' @ program_id)))"

definition validate_instruction_allowlist :: "keylib \<Rightarrow> versioned_transaction \<Rightarrow> pubkey list \<Rightarrow> nat list
    \<Rightarrow> pubkey option \<Rightarrow> pubkey list \<Rightarrow> pubkey option \<Rightarrow> pubkey option \<Rightarrow> pubkey list
    \<Rightarrow> verification_error + unit" where
  "validate_instruction_allowlist L tx account_keys matched expected_mint allowed token_program
      fee_payer required_ata_owners =
     try_bind (ok_or (slice_get (static_account_keys (vt_message tx)) 0)
         (invalid_payload ''Transaction has no fee payer'')) (\<lambda>tx_fee_payer.
     try_bind (allowlist_loop L account_keys matched expected_mint allowed token_program fee_payer
         (unwrap_or fee_payer tx_fee_payer) [] (enumerate 0 (message_instructions (vt_message tx)))) (\<lambda>created.
       case find (\<lambda>owner. owner \<notin> set created) required_ata_owners of
         Some owner \<Rightarrow> Inl (invalid_payload
             (''Missing required ATA creation instruction for split recipient '' @ owner))
       | None \<Rightarrow> Inr ()))"

text \<open>The account that authorizes a matched transfer, if the instruction is one.\<close>

definition transfer_authority :: "pubkey list \<Rightarrow> compiled_instruction list \<Rightarrow> nat \<Rightarrow> pubkey option" where
  "transfer_authority account_keys ixs index =
     Option.bind (slice_get ixs index) (\<lambda>ix.
       let program = key_at account_keys (ci_program_id_index ix) in
       Option.bind
         (if program = Some SYSTEM_PROGRAM then Some 0
          else if program = Some TOKEN_PROGRAM \<or> program = Some TOKEN_2022_PROGRAM then Some 3
          else None)
         (\<lambda>position. Option.bind (slice_get (ci_accounts ix) position) (key_at account_keys)))"

fun common_authority :: "pubkey list \<Rightarrow> compiled_instruction list \<Rightarrow> pubkey option \<Rightarrow> nat list
    \<Rightarrow> verification_error + pubkey option" where
  "common_authority account_keys ixs funding [] = Inr funding"
| "common_authority account_keys ixs funding (index # matched) =
     (case transfer_authority account_keys ixs index of
        None \<Rightarrow> common_authority account_keys ixs funding matched
      | Some authority \<Rightarrow>
          if funding \<noteq> None \<and> funding \<noteq> Some authority
          then Inl (invalid_payload ''Payment transfers must share one funding authority'')
          else common_authority account_keys ixs (Some authority) matched)"

definition verify_required_signers :: "versioned_transaction \<Rightarrow> pubkey list \<Rightarrow> nat list
    \<Rightarrow> verification_error + unit" where
  "verify_required_signers tx account_keys matched =
     try_bind (common_authority account_keys (message_instructions (vt_message tx)) None matched) (\<lambda>funding.
       let allowed = take 1 account_keys @ (case funding of Some a \<Rightarrow> [a] | None \<Rightarrow> []) in
       if list_ex (\<lambda>signer. signer \<notin> set allowed)
            (take (num_required_signatures (vt_message tx)) account_keys)
       then Inl (invalid_payload ''Unexpected signer in payment transaction'')
       else Inr ())"

section \<open>The whole check\<close>

definition primary_amount :: "charge_request \<Rightarrow> charge_split list \<Rightarrow> verification_error + u64" where
  "primary_amount request splits =
     try_bind (ok_or (parse_u64 (cr_amount request))
         (invalid_amount_error (''Invalid amount: '' @ cr_amount request))) (\<lambda>total_amount.
     try_bind (ok_or (checked_sum_split_amounts splits)
         (invalid_amount_error ''Split amounts overflow u64'')) (\<lambda>splits_total.
       if total_amount < splits_total
       then Inl (invalid_amount_error ''Split amounts exceed total amount'')
       else if total_amount - splits_total = 0
       then Inl (invalid_amount_error ''Primary amount is zero after splits'')
       else Inr (total_amount - splits_total)))"

definition verify_native_charge :: "keylib \<Rightarrow> versioned_transaction \<Rightarrow> charge_request \<Rightarrow> charge_split list
    \<Rightarrow> pubkey \<Rightarrow> u64 \<Rightarrow> pubkey option \<Rightarrow> ata_creation_policy \<Rightarrow> verification_error + unit" where
  "verify_native_charge L tx request splits recipient_pk primary fee_payer ata_policy =
     (let account_keys = static_account_keys (vt_message tx);
          verify = (\<lambda>to amount. verify_sol_transfer_instructions tx account_keys to amount fee_payer) in
      try_bind (verify recipient_pk primary []) (\<lambda>matched.
      try_bind (verify_split_transfers L verify splits matched) (\<lambda>matched.
      try_bind (verify_memo_instructions tx account_keys (cr_external_id request) splits matched) (\<lambda>matched.
      try_bind (validate_instruction_allowlist L tx account_keys matched None
          (acp_allowed_owners ata_policy) None fee_payer (acp_required_owners ata_policy)) (\<lambda>_.
        verify_required_signers tx account_keys matched)))))"

definition verify_token_charge :: "keylib \<Rightarrow> versioned_transaction \<Rightarrow> charge_request \<Rightarrow> method_details
    \<Rightarrow> charge_split list \<Rightarrow> pubkey \<Rightarrow> u64 \<Rightarrow> pubkey option \<Rightarrow> ata_creation_policy
    \<Rightarrow> verification_error + unit" where
  "verify_token_charge L tx request details splits recipient_pk primary fee_payer ata_policy =
     try_bind (resolve_expected_mint L (cr_currency request) (md_network details)) (\<lambda>expected_mint.
     if acp_required_owners ata_policy \<noteq> [] \<and> isl (key_from_str L (cr_currency request))
     then Inl (invalid_payload ''ataCreationRequired requires currency to be an SPL token mint address'')
     else
     try_bind (expected_token_program L details) (\<lambda>token_program.
     let account_keys = static_account_keys (vt_message tx);
         verify = (\<lambda>to amount. verify_spl_transfer_instructions L tx account_keys to expected_mint amount
           token_program (md_decimals details) fee_payer) in
     try_bind (verify recipient_pk primary []) (\<lambda>matched.
     try_bind (verify_split_transfers L verify splits matched) (\<lambda>matched.
     try_bind (verify_memo_instructions tx account_keys (cr_external_id request) splits matched) (\<lambda>matched.
     try_bind (validate_instruction_allowlist L tx account_keys matched (Some expected_mint)
         (acp_allowed_owners ata_policy) token_program fee_payer (acp_required_owners ata_policy)) (\<lambda>_.
       verify_required_signers tx account_keys matched))))))"

definition verify_versioned_transaction_pre_broadcast :: "'hash sdk \<Rightarrow> keylib \<Rightarrow> versioned_transaction
    \<Rightarrow> charge_request \<Rightarrow> method_details \<Rightarrow> tx_version list \<Rightarrow> verification_error + unit" where
  "verify_versioned_transaction_pre_broadcast S L tx request details accepted =
     try_bind (core_result [] (check_envelope_without_legacy S tx accepted)) (\<lambda>_.
     let price_cap = max_price (unwrap_or (md_fee_payer details) False) in
     try_bind (core_result [] (check_v1_budget_caps (vt_message tx) MAX_COMPUTE_UNIT_LIMIT price_cap)) (\<lambda>_.
     let splits = unwrap_or (md_splits details) [] in
     if length splits > MAX_SPLITS
     then Inl (too_many_splits (''Too many splits: '' @ show_nat (length splits) @ '' (maximum ''
            @ show_nat MAX_SPLITS @ '')''))
     else
     try_bind (primary_amount request splits) (\<lambda>primary.
     try_bind (ok_or (cr_recipient request) (invalid_recipient ''No recipient in charge request'')) (\<lambda>recipient.
     try_bind (map_err (\<lambda>e. invalid_recipient (''Invalid recipient: '' @ e)) (key_from_str L recipient)) (\<lambda>recipient_pk.
     try_bind (expected_fee_payer L tx details) (\<lambda>fee_payer.
     let is_native_sol = (to_uppercase (cr_currency request) = ''SOL'') in
     if is_native_sol \<and> list_ex (\<lambda>s. sp_ata_creation_required s = Some True) splits
     then Inl (invalid_payload ''ataCreationRequired requires an SPL token charge'')
     else
     try_bind (expected_ata_creation_policy L splits fee_payer) (\<lambda>ata_policy.
     try_bind
       (if is_native_sol
        then verify_native_charge L tx request splits recipient_pk primary fee_payer ata_policy
        else verify_token_charge L tx request details splits recipient_pk primary fee_payer ata_policy) (\<lambda>_.
     try_bind (core_result [] (check_v0_budget_caps (vt_message tx) MAX_COMPUTE_UNIT_LIMIT price_cap))
       (\<lambda>_. Inr ())))))))))"

definition verify_client_pull_transaction :: "'hash sdk \<Rightarrow> keylib \<Rightarrow> versioned_transaction
    \<Rightarrow> charge_request \<Rightarrow> method_details \<Rightarrow> tx_version list \<Rightarrow> verification_error + unit" where
  "verify_client_pull_transaction S L tx request details accepted =
     try_bind (verify_versioned_transaction_pre_broadcast S L tx request details accepted) (\<lambda>_.
     try_bind (expected_fee_payer L tx details) (\<lambda>fee_payer.
       core_result ''Transaction signature verification failed: '' (require_presigned S tx fee_payer)))"

section \<open>What an instruction does\<close>

definition sol_payment :: "pubkey list \<Rightarrow> compiled_instruction \<Rightarrow> pubkey \<Rightarrow> pubkey \<Rightarrow> u64 \<Rightarrow> bool" where
  "sol_payment keys ix src dst amount \<longleftrightarrow>
     key_at keys (ci_program_id_index ix) = Some SYSTEM_PROGRAM
     \<and> ci_data ix = le_bytes (2 :: u32) @ le_bytes amount
     \<and> (\<exists>a b. ci_accounts ix = [a, b] \<and> key_at keys a = Some src \<and> key_at keys b = Some dst)"

definition token_payment :: "pubkey list \<Rightarrow> compiled_instruction \<Rightarrow> pubkey \<Rightarrow> pubkey \<Rightarrow> pubkey \<Rightarrow> pubkey
    \<Rightarrow> pubkey \<Rightarrow> u64 \<Rightarrow> u8 \<Rightarrow> bool" where
  "token_payment keys ix program src mint dst authority amount decimals \<longleftrightarrow>
     key_at keys (ci_program_id_index ix) = Some program
     \<and> program \<in> {TOKEN_PROGRAM, TOKEN_2022_PROGRAM}
     \<and> ci_data ix = 12 # le_bytes amount @ [decimals]
     \<and> (\<exists>a b c d. ci_accounts ix = [a, b, c, d] \<and> key_at keys a = Some src \<and> key_at keys b = Some mint
          \<and> key_at keys c = Some dst \<and> key_at keys d = Some authority)"

text \<open>
  The asset of a charge: native SOL, or a mint with the token program and decimals the server
  pinned, if it did.  A leg is paid by an instruction that moves the amount to the recipient (to
  its associated account, for a token) out of funds that are not the sponsor's; \<open>authority\<close> is
  who signs for it.
\<close>

type_synonym asset = "(pubkey \<times> pubkey option \<times> u8 option) option"

definition leg_paid :: "keylib \<Rightarrow> pubkey list \<Rightarrow> pubkey option \<Rightarrow> asset \<Rightarrow> pubkey \<Rightarrow> pubkey \<times> u64
    \<Rightarrow> compiled_instruction \<Rightarrow> bool" where
  "leg_paid L keys sponsor asset authority leg ix =
     (case asset of
        None \<Rightarrow> sol_payment keys ix authority (fst leg) (snd leg) \<and> sponsor \<noteq> Some authority
      | Some (mint, token_program, decimals) \<Rightarrow>
          (\<exists>program src d. token_payment keys ix program src mint (ata_of L (fst leg) program mint)
               authority (snd leg) d
             \<and> (token_program = None \<or> token_program = Some program)
             \<and> (decimals = None \<or> decimals = Some d)
             \<and> sponsor \<noteq> Some authority
             \<and> (\<forall>p. sponsor = Some p \<longrightarrow> src \<noteq> ata_of L p program mint)))"

definition budget_request :: "pubkey list \<Rightarrow> bool \<Rightarrow> compiled_instruction \<Rightarrow> bool" where
  "budget_request keys sponsored ix \<longleftrightarrow>
     key_at keys (ci_program_id_index ix) = Some COMPUTE_BUDGET_PROGRAM \<and> ci_accounts ix = []
     \<and> (case decode_compute_budget_op ix of
          Some (UnitLimit units) \<Rightarrow> 0 < units \<and> units \<le> MAX_COMPUTE_UNIT_LIMIT
        | Some (UnitPrice price) \<Rightarrow> price \<le> max_price sponsored
        | _ \<Rightarrow> False)"

definition memo_note :: "pubkey list \<Rightarrow> string list \<Rightarrow> compiled_instruction \<Rightarrow> bool" where
  "memo_note keys memos ix \<longleftrightarrow>
     key_at keys (ci_program_id_index ix) = Some MEMO_PROGRAM \<and> ci_accounts ix = []
     \<and> ci_data ix \<in> as_bytes ` set memos"

definition ata_creation :: "keylib \<Rightarrow> pubkey list \<Rightarrow> pubkey \<Rightarrow> asset \<Rightarrow> pubkey \<Rightarrow> compiled_instruction
    \<Rightarrow> bool" where
  "ata_creation L keys payer asset owner ix \<longleftrightarrow>
     (\<exists>mint token_program decimals program a b c d e f.
        asset = Some (mint, token_program, decimals)
        \<and> key_at keys (ci_program_id_index ix) = Some ASSOCIATED_TOKEN_PROGRAM
        \<and> ci_data ix = [1] \<and> ci_accounts ix = [a, b, c, d, e, f]
        \<and> key_at keys a = Some payer \<and> key_at keys b = Some (ata_of L owner program mint)
        \<and> key_at keys c = Some owner \<and> key_at keys d = Some mint
        \<and> key_at keys e = Some SYSTEM_PROGRAM \<and> key_at keys f = Some program
        \<and> program \<in> {TOKEN_PROGRAM, TOKEN_2022_PROGRAM}
        \<and> (token_program = None \<or> token_program = Some program))"

section \<open>Lemmas: reading instructions\<close>

lemma account_key_Inr [simp]: "account_key keys i label = Inr k \<longleftrightarrow> key_at keys i = Some k"
  by (cases "key_at keys i") (simp_all add: account_key_def)

lemma program_of_Inr [simp]: "program_of keys ix = Inr p \<longleftrightarrow> key_at keys (ci_program_id_index ix) = Some p"
  by (cases "key_at keys (ci_program_id_index ix)") (simp_all add: program_of_def)

lemma list_of_length:
  "length xs = 2 \<longleftrightarrow> (\<exists>a b. xs = [a, b])"
  "length xs = 4 \<longleftrightarrow> (\<exists>a b c d. xs = [a, b, c, d])"
  "length xs = 6 \<longleftrightarrow> (\<exists>a b c d e f. xs = [a, b, c, d, e, f])"
  by (auto simp: numeral_eq_Suc length_Suc_conv)

lemma sol_data_bytes:
  assumes "length bs = 12" "from_le_bytes (take 4 bs) = (2 :: u32)" "from_le_bytes (drop 4 bs) = (n :: u64)"
  shows "bs = le_bytes (2 :: u32) @ le_bytes n"
proof -
  have "take 4 bs = le_bytes (2 :: u32)" "drop 4 bs = le_bytes n"
    using assms le_bytes_from_le_bytes [of "take 4 bs", where 'a = 32]
      le_bytes_from_le_bytes [of "drop 4 bs", where 'a = 64] by simp_all
  then show ?thesis by (metis append_take_drop_id)
qed

lemma token_data_bytes:
  assumes "length bs = 10" "hd bs = 12" "from_le_bytes (take 8 (drop 1 bs)) = (n :: u64)"
  shows "bs = 12 # le_bytes n @ [bs ! 9]"
proof -
  obtain c cs where bs: "bs = c # cs" using assms(1) by (cases bs) auto
  have "cs = take 8 cs @ [cs ! 8]" using assms(1) bs take_Suc_conv_app_nth [of 8 cs] by simp
  moreover have "take 8 cs = le_bytes n"
    using assms bs le_bytes_from_le_bytes [of "take 8 cs", where 'a = 64] by simp
  ultimately show ?thesis using assms(2) bs by (metis Suc_numeral list.sel(1) nth_Cons_Suc semiring_norm(5))
qed

section \<open>Lemmas: the loops\<close>

lemma find_sol_leg_sound:
  "find_sol_leg keys to amount sponsor matched ixs = Inr i \<Longrightarrow>
     i \<notin> set matched \<and> (\<exists>ix a. (i, ix) \<in> set ixs \<and> leg_paid L keys sponsor None a (to, amount) ix)"
proof (induction ixs)
  case (Cons p ixs)
  obtain index ix where p: "p = (index, ix)" by force
  show ?case
  proof (cases "find_sol_leg keys to amount sponsor matched ixs = Inr i")
    case True
    with Cons.IH show ?thesis by auto
  next
    case False
    with Cons.prems p obtain src where i: "i = index" "index \<notin> set matched"
        "key_at keys (ci_program_id_index ix) = Some SYSTEM_PROGRAM" "length (ci_data ix) = 12"
        "from_le_bytes (take 4 (ci_data ix)) = (2 :: u32)" "length (ci_accounts ix) = 2"
        "key_at keys (ci_accounts ix ! 0) = Some src" "key_at keys (ci_accounts ix ! 1) = Some to"
        "from_le_bytes (drop 4 (ci_data ix)) = amount" "sponsor \<noteq> Some src"
      by (auto simp: try_bind_Inr_iff split: if_splits)
    then have "leg_paid L keys sponsor None src (to, amount) ix"
      using sol_data_bytes [of "ci_data ix" amount] by (auto simp: leg_paid_def sol_payment_def list_of_length)
    with i p show ?thesis by auto
  qed
qed simp

lemma find_spl_leg_sound:
  "find_spl_leg L keys to mint amount token_program decimals sponsor matched ixs = Inr i \<Longrightarrow>
     i \<notin> set matched \<and> (\<exists>ix a. (i, ix) \<in> set ixs
       \<and> leg_paid L keys sponsor (Some (mint, token_program, decimals)) a (to, amount) ix)"
proof (induction ixs)
  case (Cons p ixs)
  obtain index ix where p: "p = (index, ix)" by force
  show ?case
  proof (cases "find_spl_leg L keys to mint amount token_program decimals sponsor matched ixs = Inr i")
    case True
    with Cons.IH show ?thesis by auto
  next
    case False
    with Cons.prems p obtain program src authority where i: "i = index" "index \<notin> set matched"
        "key_at keys (ci_program_id_index ix) = Some program"
        "program = TOKEN_PROGRAM \<or> program = TOKEN_2022_PROGRAM"
        "token_program = None \<or> token_program = Some program"
        "hd (ci_data ix) = 12" "length (ci_data ix) = 10" "length (ci_accounts ix) = 4"
        "from_le_bytes (take 8 (drop 1 (ci_data ix))) = amount"
        "decimals = None \<or> decimals = Some (ci_data ix ! 9)"
        "key_at keys (ci_accounts ix ! 0) = Some src"
        "key_at keys (ci_accounts ix ! 2) = Some (ata_of L to program mint)"
        "key_at keys (ci_accounts ix ! 1) = Some mint" "key_at keys (ci_accounts ix ! 3) = Some authority"
        "sponsor \<noteq> Some authority" "\<forall>q. sponsor = Some q \<longrightarrow> src \<noteq> ata_of L q program mint"
      by (auto simp: try_bind_Inr_iff Let_def split: if_splits option.splits)
    have "ci_data ix = 12 # le_bytes amount @ [ci_data ix ! 9]"
      using token_data_bytes [OF i(7,6,9)] .
    then have "token_payment keys ix program src mint (ata_of L to program mint) authority amount (ci_data ix ! 9)"
      using i by (auto simp: token_payment_def list_of_length)
    then have "leg_paid L keys sponsor (Some (mint, token_program, decimals)) authority (to, amount) ix"
      using i by (auto simp: leg_paid_def)
    with i p show ?thesis by auto
  qed
qed simp

lemma in_enumerate: "(i, x) \<in> set (enumerate 0 xs) \<longleftrightarrow> i < length xs \<and> x = xs ! i"
  by (auto simp: in_set_enumerate_eq)

text \<open>A check that matches one instruction for a leg, and the legs of the splits one by one.\<close>

definition pays_one :: "(pubkey \<Rightarrow> u64 \<Rightarrow> nat list \<Rightarrow> verification_error + nat list)
    \<Rightarrow> (pubkey \<times> u64 \<Rightarrow> nat \<Rightarrow> bool) \<Rightarrow> bool" where
  "pays_one verify paid \<longleftrightarrow> (\<forall>to amount matched matched'. verify to amount matched = Inr matched' \<longrightarrow>
     (\<exists>i. matched' = matched @ [i] \<and> i \<notin> set matched \<and> paid (to, amount) i))"

definition split_leg :: "keylib \<Rightarrow> charge_split \<Rightarrow> pubkey \<times> u64 \<Rightarrow> bool" where
  "split_leg L s leg \<longleftrightarrow> key_from_str L (sp_recipient s) = Inr (fst leg) \<and> parse_u64 (sp_amount s) = Some (snd leg)"

lemma verify_split_transfers_sound:
  assumes "pays_one verify paid" "verify_split_transfers L verify splits matched = Inr matched'" "distinct matched"
  shows "\<exists>legs idx. list_all2 (split_leg L) splits legs \<and> matched' = matched @ idx
    \<and> distinct matched' \<and> list_all2 paid legs idx"
  using assms(2,3)
proof (induction splits arbitrary: matched)
  case Nil
  then show ?case by simp
next
  case (Cons s splits)
  then obtain pk amt m where s: "key_from_str L (sp_recipient s) = Inr pk" "parse_u64 (sp_amount s) = Some amt"
      "verify pk amt matched = Inr m" "verify_split_transfers L verify splits m = Inr matched'"
    by (auto simp: try_bind_Inr_iff)
  from assms(1) s(3) obtain i where i: "m = matched @ [i]" "i \<notin> set matched" "paid (pk, amt) i"
    unfolding pays_one_def by blast
  with Cons.IH [OF s(4)] Cons.prems(2) obtain legs idx where "list_all2 (split_leg L) splits legs"
      "matched' = m @ idx" "distinct matched'" "list_all2 paid legs idx" by auto
  moreover have "split_leg L s (pk, amt)" using s by (simp add: split_leg_def)
  ultimately show ?case using i
    by (intro exI [of _ "(pk, amt) # legs"] exI [of _ "i # idx"]) simp
qed

lemma find_memo_sound:
  "find_memo keys bs matched ixs = Inr (Some i) \<Longrightarrow> i \<notin> set matched \<and> (\<exists>ix. (i, ix) \<in> set ixs
     \<and> key_at keys (ci_program_id_index ix) = Some MEMO_PROGRAM \<and> ci_accounts ix = [] \<and> ci_data ix = bs)"
proof (induction ixs)
  case (Cons p ixs)
  then show ?case
    by (cases p; cases "find_memo keys bs matched ixs = Inr (Some i)")
      (auto simp: try_bind_Inr_iff split: if_splits)
qed simp

lemma verify_memos_sound:
  assumes "verify_memos (enumerate 0 ixs) keys memos matched = Inr matched'" "distinct matched"
  shows "\<exists>idx. matched' = matched @ idx \<and> distinct matched'
    \<and> list_all (\<lambda>i. i < length ixs \<and> memo_note keys (map snd memos) (ixs ! i)) idx"
  using assms
proof (induction memos arbitrary: matched)
  case Nil
  then show ?case by simp
next
  case (Cons m memos)
  obtain label body_text where m: "m = (label, body_text)" by force
  with Cons.prems obtain i where i: "find_memo keys (as_bytes body_text) matched (enumerate 0 ixs) = Inr (Some i)"
      "verify_memos (enumerate 0 ixs) keys memos (matched @ [i]) = Inr matched'"
    by (auto simp: try_bind_Inr_iff split: if_splits option.splits)
  from find_memo_sound [OF i(1)]
  have fresh: "i \<notin> set matched" and here: "i < length ixs \<and> memo_note keys (map snd (m # memos)) (ixs ! i)"
    by (auto simp: in_enumerate memo_note_def m)
  from Cons.IH [OF i(2)] fresh Cons.prems(2) obtain idx where "matched' = matched @ i # idx" "distinct matched'"
      "list_all (\<lambda>i. i < length ixs \<and> memo_note keys (map snd memos) (ixs ! i)) idx" by auto
  moreover have "memo_note keys (map snd memos) ix \<Longrightarrow> memo_note keys (map snd (m # memos)) ix" for ix
    by (auto simp: memo_note_def)
  ultimately show ?case using here by (intro exI [of _ "i # idx"]) (auto simp: list_all_iff)
qed

definition asset_mint :: "asset \<Rightarrow> pubkey option" where
  "asset_mint asset = map_option fst asset"

definition asset_program :: "asset \<Rightarrow> pubkey option" where
  "asset_program asset = Option.bind asset (fst \<circ> snd)"

lemma asset_simps [simp]:
  "asset_mint None = None" "asset_mint (Some (m, p, d)) = Some m"
  "asset_program None = None" "asset_program (Some (m, p, d)) = p"
  by (simp_all add: asset_mint_def asset_program_def)

lemma validate_compute_budget_sound:
  "validate_compute_budget_instruction ix sponsored = Inr u \<Longrightarrow>
     key_at keys (ci_program_id_index ix) = Some COMPUTE_BUDGET_PROGRAM \<Longrightarrow> budget_request keys sponsored ix"
  by (auto simp: validate_compute_budget_instruction_def budget_request_def word_neq_0_conv not_less
      split: if_splits option.splits compute_budget_op.splits)

lemma validate_create_ata_sound:
  assumes "validate_create_ata_idempotent_instruction L ix keys (asset_mint asset) allowed
      (asset_program asset) payer = Inr owner"
    and "key_at keys (ci_program_id_index ix) = Some ASSOCIATED_TOKEN_PROGRAM"
  shows "owner \<in> set allowed \<and> ata_creation L keys payer asset owner ix"
proof -
  from assms(1) obtain mint where "asset_mint asset = Some mint"
    by (cases "asset_mint asset") (simp_all add: validate_create_ata_idempotent_instruction_def)
  then obtain token_program decimals where asset: "asset = Some (mint, token_program, decimals)"
    by (auto simp: asset_mint_def)
  from assms(1) asset obtain program where ix: "ci_data ix = [1]" "length (ci_accounts ix) = 6"
      "key_at keys (ci_accounts ix ! 0) = Some payer"
      "key_at keys (ci_accounts ix ! 1) = Some (ata_of L owner program mint)"
      "key_at keys (ci_accounts ix ! 2) = Some owner" "key_at keys (ci_accounts ix ! 3) = Some mint"
      "key_at keys (ci_accounts ix ! 4) = Some SYSTEM_PROGRAM" "key_at keys (ci_accounts ix ! 5) = Some program"
      "owner \<in> set allowed" "program \<in> {TOKEN_PROGRAM, TOKEN_2022_PROGRAM}"
      "token_program = None \<or> token_program = Some program"
    by (auto simp: validate_create_ata_idempotent_instruction_def try_bind_Inr_iff split: if_splits)
  from ix(2) obtain a b c d e f where "ci_accounts ix = [a, b, c, d, e, f]" by (auto simp: list_of_length)
  with ix asset assms(2) show ?thesis unfolding ata_creation_def by auto
qed

lemma allowlist_loop_sound:
  assumes "allowlist_loop L keys matched (asset_mint asset) allowed (asset_program asset) sponsor payer
      created ixs = Inr created'"
  shows "set created \<subseteq> set created'
    \<and> (\<forall>(i, ix) \<in> set ixs. i \<in> set matched \<or> budget_request keys (sponsor \<noteq> None) ix
        \<or> (\<exists>owner \<in> set allowed. ata_creation L keys payer asset owner ix))
    \<and> (\<forall>owner \<in> set created'. owner \<in> set created
        \<or> (\<exists>(i, ix) \<in> set ixs. ata_creation L keys payer asset owner ix))"
  using assms
proof (induction ixs arbitrary: created)
  case (Cons p ixs)
  obtain index ix where p: "p = (index, ix)" by force
  from Cons.prems obtain program where program: "key_at keys (ci_program_id_index ix) = Some program"
    by (auto simp: p try_bind_Inr_iff)
  let ?rest = "\<lambda>created. allowlist_loop L keys matched (asset_mint asset) allowed (asset_program asset)
      sponsor payer created ixs = Inr created'"
  consider (budget) "budget_request keys (sponsor \<noteq> None) ix" "?rest created"
    | (matched) "index \<in> set matched" "?rest created"
    | (ata) owner where "owner \<in> set allowed" "ata_creation L keys payer asset owner ix" "?rest (created @ [owner])"
    using Cons.prems program validate_compute_budget_sound [of ix _ _ keys]
      validate_create_ata_sound [of L ix keys asset allowed payer]
    by (auto simp: p try_bind_Inr_iff Let_def split: if_splits)
  then show ?case
  proof cases
    case ata
    from Cons.IH [OF ata(3)] ata(1,2) show ?thesis by (fastforce simp: p)
  qed (use Cons.IH [of created] in \<open>fastforce simp: p\<close>)+
qed simp

lemma allowlist_sound:
  assumes "validate_instruction_allowlist L tx keys matched (asset_mint asset) allowed (asset_program asset)
      sponsor required = Inr u"
    and "keys = static_account_keys (vt_message tx)" "ixs = message_instructions (vt_message tx)"
    and "sponsor = None \<or> sponsor = Some (hd keys)"
  shows "keys \<noteq> []
    \<and> (\<forall>i < length ixs. i \<in> set matched \<or> budget_request keys (sponsor \<noteq> None) (ixs ! i)
        \<or> (\<exists>owner \<in> set allowed. ata_creation L keys (hd keys) asset owner (ixs ! i)))
    \<and> (\<forall>owner \<in> set required. \<exists>i < length ixs. ata_creation L keys (hd keys) asset owner (ixs ! i))"
proof -
  from assms(1,2) have keys: "keys \<noteq> []"
    by (cases keys) (auto simp: validate_instruction_allowlist_def slice_get_def)
  then have "slice_get keys 0 = Some (hd keys)" by (simp add: slice_get_def hd_conv_nth)
  with assms obtain created where loop: "allowlist_loop L keys matched (asset_mint asset) allowed
      (asset_program asset) sponsor (hd keys) [] (enumerate 0 ixs) = Inr created"
    and "find (\<lambda>owner. owner \<notin> set created) required = None"
    by (auto simp: validate_instruction_allowlist_def try_bind_Inr_iff split: option.splits)
  then have required: "owner \<in> set created" if "owner \<in> set required" for owner
    using that by (auto simp: find_None_iff)
  have all: "(i, ixs ! i) \<in> set (enumerate 0 ixs)" if "i < length ixs" for i using that by (simp add: in_enumerate)
  note sound = allowlist_loop_sound [OF loop]
  show ?thesis
  proof (intro conjI allI impI ballI)
    fix i
    assume "i < length ixs"
    with all sound show "i \<in> set matched \<or> budget_request keys (sponsor \<noteq> None) (ixs ! i)
        \<or> (\<exists>owner \<in> set allowed. ata_creation L keys (hd keys) asset owner (ixs ! i))" by fast
  next
    fix owner
    assume "owner \<in> set required"
    with required sound obtain i ix where "(i, ix) \<in> set (enumerate 0 ixs)"
      "ata_creation L keys (hd keys) asset owner ix" by fastforce
    then show "\<exists>i < length ixs. ata_creation L keys (hd keys) asset owner (ixs ! i)" by (auto simp: in_enumerate)
  qed (rule keys)
qed

lemma common_authority_sound:
  "common_authority keys ixs funding matched = Inr g \<Longrightarrow>
     (funding \<noteq> None \<longrightarrow> g = funding) \<and> (\<forall>i \<in> set matched. \<forall>a. transfer_authority keys ixs i = Some a \<longrightarrow> g = Some a)"
  by (induction matched arbitrary: funding) (fastforce split: option.splits if_splits)+

lemma leg_authority:
  assumes "leg_paid L keys sponsor asset a leg (ixs ! i)" "i < length ixs"
  shows "transfer_authority keys ixs i = Some a"
  using assms programs_distinct
  by (auto simp: transfer_authority_def slice_get_def leg_paid_def sol_payment_def token_payment_def
      split: option.splits)

section \<open>What acceptance means\<close>

definition charge_asset :: "keylib \<Rightarrow> charge_request \<Rightarrow> method_details \<Rightarrow> asset \<Rightarrow> bool" where
  "charge_asset L request details asset \<longleftrightarrow>
     (if to_uppercase (cr_currency request) = ''SOL'' then asset = None
      else (\<exists>mint token_program.
        resolve_expected_mint L (cr_currency request) (md_network details) = Inr mint
        \<and> expected_token_program L details = Inr token_program
        \<and> asset = Some (mint, token_program, md_decimals details)))"

text \<open>The legs of a charge: the recipient first, then the splits in order.\<close>

definition charge_legs :: "keylib \<Rightarrow> charge_request \<Rightarrow> method_details \<Rightarrow> (pubkey \<times> u64) list \<Rightarrow> bool" where
  "charge_legs L request details legs \<longleftrightarrow>
     (\<exists>recipient pk amount rest. cr_recipient request = Some recipient \<and> key_from_str L recipient = Inr pk
        \<and> legs = (pk, amount) # rest \<and> 0 < amount
        \<and> list_all2 (split_leg L) (unwrap_or (md_splits details) []) rest)"

definition paid_at :: "keylib \<Rightarrow> versioned_transaction \<Rightarrow> pubkey option \<Rightarrow> asset \<Rightarrow> pubkey \<times> u64 \<Rightarrow> nat \<Rightarrow> bool" where
  "paid_at L tx sponsor asset leg i \<longleftrightarrow>
     i < length (message_instructions (vt_message tx))
     \<and> (\<exists>authority. leg_paid L (static_account_keys (vt_message tx)) sponsor asset authority leg
          (message_instructions (vt_message tx) ! i))"

lemma core_result_Inr [simp]: "core_result prefix r = Inr a \<longleftrightarrow> r = Inr a"
  by (cases r) (simp_all add: core_result_def)

lemma sol_pays_one:
  "pays_one (\<lambda>to amount. verify_sol_transfer_instructions tx (static_account_keys (vt_message tx)) to amount sponsor)
     (paid_at L tx sponsor None)"
  unfolding pays_one_def
proof (intro allI impI)
  fix to amount matched matched'
  assume "verify_sol_transfer_instructions tx (static_account_keys (vt_message tx)) to amount sponsor matched = Inr matched'"
  then obtain i where "matched' = matched @ [i]" "find_sol_leg (static_account_keys (vt_message tx)) to amount
      sponsor matched (enumerate 0 (message_instructions (vt_message tx))) = Inr i"
    by (auto simp: verify_sol_transfer_instructions_def try_bind_Inr_iff)
  with find_sol_leg_sound [OF this(2), of L]
  show "\<exists>i. matched' = matched @ [i] \<and> i \<notin> set matched \<and> paid_at L tx sponsor None (to, amount) i"
    by (auto simp: paid_at_def in_enumerate)
qed

lemma spl_pays_one:
  "pays_one (\<lambda>to amount. verify_spl_transfer_instructions L tx (static_account_keys (vt_message tx)) to mint
       amount token_program decimals sponsor)
     (paid_at L tx sponsor (Some (mint, token_program, decimals)))"
  unfolding pays_one_def
proof (intro allI impI)
  fix to amount matched matched'
  assume "verify_spl_transfer_instructions L tx (static_account_keys (vt_message tx)) to mint amount
    token_program decimals sponsor matched = Inr matched'"
  then obtain i where "matched' = matched @ [i]" "find_spl_leg L (static_account_keys (vt_message tx)) to mint
      amount token_program decimals sponsor matched (enumerate 0 (message_instructions (vt_message tx))) = Inr i"
    by (auto simp: verify_spl_transfer_instructions_def try_bind_Inr_iff)
  with find_spl_leg_sound [OF this(2)]
  show "\<exists>i. matched' = matched @ [i] \<and> i \<notin> set matched
      \<and> paid_at L tx sponsor (Some (mint, token_program, decimals)) (to, amount) i"
    by (auto simp: paid_at_def in_enumerate)
qed

lemma native_charge_accepted:
  assumes "verify_native_charge L tx request splits pk primary sponsor policy = Inr ()"
  defines "keys \<equiv> static_account_keys (vt_message tx)"
  obtains verify m1 m2 m3 where
    "pays_one verify (paid_at L tx sponsor None)" "verify pk primary [] = Inr m1"
    "verify_split_transfers L verify splits m1 = Inr m2"
    "verify_memo_instructions tx keys (cr_external_id request) splits m2 = Inr m3"
    "validate_instruction_allowlist L tx keys m3 None (acp_allowed_owners policy) None sponsor
      (acp_required_owners policy) = Inr ()"
    "verify_required_signers tx keys m3 = Inr ()"
  using assms(1) sol_pays_one [of tx sponsor L]
  by (auto simp: verify_native_charge_def Let_def try_bind_Inr_iff keys_def intro: that)

lemma token_charge_accepted:
  assumes "verify_token_charge L tx request details splits pk primary sponsor policy = Inr ()"
  defines "keys \<equiv> static_account_keys (vt_message tx)"
  obtains mint token_program verify m1 m2 m3 where
    "resolve_expected_mint L (cr_currency request) (md_network details) = Inr mint"
    "expected_token_program L details = Inr token_program"
    "pays_one verify (paid_at L tx sponsor (Some (mint, token_program, md_decimals details)))"
    "verify pk primary [] = Inr m1" "verify_split_transfers L verify splits m1 = Inr m2"
    "verify_memo_instructions tx keys (cr_external_id request) splits m2 = Inr m3"
    "validate_instruction_allowlist L tx keys m3 (Some mint) (acp_allowed_owners policy) token_program
      sponsor (acp_required_owners policy) = Inr ()"
    "verify_required_signers tx keys m3 = Inr ()"
proof -
  let ?verify = "\<lambda>mint tp to amount. verify_spl_transfer_instructions L tx keys to mint amount tp
      (md_decimals details) sponsor"
  from assms(1) obtain mint tp m1 m2 m3 where
    "resolve_expected_mint L (cr_currency request) (md_network details) = Inr mint"
    "expected_token_program L details = Inr tp" "?verify mint tp pk primary [] = Inr m1"
    "verify_split_transfers L (?verify mint tp) splits m1 = Inr m2"
    "verify_memo_instructions tx keys (cr_external_id request) splits m2 = Inr m3"
    "validate_instruction_allowlist L tx keys m3 (Some mint) (acp_allowed_owners policy) tp
      sponsor (acp_required_owners policy) = Inr ()"
    "verify_required_signers tx keys m3 = Inr ()"
    unfolding verify_token_charge_def Let_def keys_def
    by (auto simp: try_bind_Inr_iff split: if_split_asm)
  then show thesis by (intro that [OF _ _ spl_pays_one]) (simp_all add: keys_def)
qed

lemma charge_accepted:
  assumes "verify_versioned_transaction_pre_broadcast S L tx request details accepted = Inr ()"
  defines "splits \<equiv> unwrap_or (md_splits details) []" and "keys \<equiv> static_account_keys (vt_message tx)"
  obtains sponsor asset primary recipient pk policy verify m1 m2 m3 where
    "expected_fee_payer L tx details = Inr sponsor" "charge_asset L request details asset"
    "primary_amount request splits = Inr primary" "cr_recipient request = Some recipient"
    "key_from_str L recipient = Inr pk" "expected_ata_creation_policy L splits sponsor = Inr policy"
    "pays_one verify (paid_at L tx sponsor asset)" "verify pk primary [] = Inr m1"
    "verify_split_transfers L verify splits m1 = Inr m2"
    "verify_memo_instructions tx keys (cr_external_id request) splits m2 = Inr m3"
    "validate_instruction_allowlist L tx keys m3 (asset_mint asset) (acp_allowed_owners policy)
      (asset_program asset) sponsor (acp_required_owners policy) = Inr ()"
    "verify_required_signers tx keys m3 = Inr ()"
proof -
  from assms(1) obtain primary recipient pk sponsor policy where head: "expected_fee_payer L tx details = Inr sponsor"
    "primary_amount request splits = Inr primary" "cr_recipient request = Some recipient"
    "key_from_str L recipient = Inr pk" "expected_ata_creation_policy L splits sponsor = Inr policy"
    and branch: "(if to_uppercase (cr_currency request) = ''SOL''
       then verify_native_charge L tx request splits pk primary sponsor policy
       else verify_token_charge L tx request details splits pk primary sponsor policy) = Inr ()"
    unfolding verify_versioned_transaction_pre_broadcast_def Let_def splits_def
    by (auto simp: try_bind_Inr_iff split: if_split_asm)
  show thesis
  proof (cases "to_uppercase (cr_currency request) = ''SOL''")
    case True
    then have "charge_asset L request details None" by (simp add: charge_asset_def)
    from that [OF head(1) this head(2-5)] branch True native_charge_accepted [of L tx request splits pk primary sponsor policy]
    show thesis by (simp add: keys_def) metis
  next
    case False
    with branch obtain mint tp verify m1 m2 m3 where *:
      "resolve_expected_mint L (cr_currency request) (md_network details) = Inr mint"
      "expected_token_program L details = Inr tp"
      "pays_one verify (paid_at L tx sponsor (Some (mint, tp, md_decimals details)))"
      "verify pk primary [] = Inr m1" "verify_split_transfers L verify splits m1 = Inr m2"
      "verify_memo_instructions tx keys (cr_external_id request) splits m2 = Inr m3"
      "validate_instruction_allowlist L tx keys m3 (Some mint) (acp_allowed_owners policy) tp
        sponsor (acp_required_owners policy) = Inr ()"
      "verify_required_signers tx keys m3 = Inr ()"
      using token_charge_accepted [of L tx request details splits pk primary sponsor policy, folded keys_def] by metis
    with False have "charge_asset L request details (Some (mint, tp, md_decimals details))"
      by (simp add: charge_asset_def)
    from that [OF head(1) this head(2-5) *(3-6)] *(7,8) show thesis by simp
  qed
qed

lemma split_owners_sound:
  "split_owners L splits = Inr (owners, required) \<Longrightarrow>
     (owner \<in> set owners \<longleftrightarrow> (\<exists>s \<in> set splits. key_from_str L (sp_recipient s) = Inr owner))
     \<and> (owner \<in> set required \<longleftrightarrow> (\<exists>s \<in> set splits. key_from_str L (sp_recipient s) = Inr owner
          \<and> sp_ata_creation_required s = Some True))"
  by (induction splits arbitrary: owners required) (fastforce simp: try_bind_Inr_iff split: if_splits)+

lemma ata_policy_sound:
  assumes "expected_ata_creation_policy L splits sponsor = Inr policy"
  shows "owner \<in> set (acp_allowed_owners policy) \<longleftrightarrow> (\<exists>s \<in> set splits. key_from_str L (sp_recipient s) = Inr owner
      \<and> (sponsor \<noteq> None \<longrightarrow> sp_ata_creation_required s = Some True))"
    and "owner \<in> set (acp_required_owners policy) \<longleftrightarrow> (\<exists>s \<in> set splits. key_from_str L (sp_recipient s) = Inr owner
      \<and> sp_ata_creation_required s = Some True)"
proof -
  from assms obtain owners required where so: "split_owners L splits = Inr (owners, required)"
    and "policy = \<lparr>acp_allowed_owners = (if sponsor \<noteq> None then required else owners),
      acp_required_owners = required\<rparr>"
    by (auto simp: expected_ata_creation_policy_def try_bind_Inr_iff)
  with split_owners_sound [OF so, of owner]
  show "owner \<in> set (acp_allowed_owners policy) \<longleftrightarrow> (\<exists>s \<in> set splits. key_from_str L (sp_recipient s) = Inr owner
      \<and> (sponsor \<noteq> None \<longrightarrow> sp_ata_creation_required s = Some True))"
    "owner \<in> set (acp_required_owners policy) \<longleftrightarrow> (\<exists>s \<in> set splits. key_from_str L (sp_recipient s) = Inr owner
      \<and> sp_ata_creation_required s = Some True)"
    by auto
qed

lemma legs_total:
  assumes "primary_amount request splits = Inr primary"
    "list_all2 (\<lambda>s leg. parse_u64 (sp_amount s) = Some (snd leg)) splits rest"
  shows "0 < primary \<and> (\<exists>total. parse_u64 (cr_amount request) = Some total
    \<and> unat total = unat primary + sum_list (map (unat \<circ> snd) rest))"
proof -
  from assms(1) obtain total splits_total where *: "parse_u64 (cr_amount request) = Some total"
      "checked_sum_split_amounts splits = Some splits_total" "splits_total \<le> total"
      "primary = total - splits_total" "primary \<noteq> 0"
    by (auto simp: primary_amount_def try_bind_Inr_iff not_less split: if_splits)
  have "map (\<lambda>s. unwrap_or (parse_u64 (sp_amount s)) 0) splits = map snd rest"
    using assms(2) by (induction rule: list_all2_induct) simp_all
  with *(2) have "unat splits_total = sum_list (map (unat \<circ> snd) rest)"
    using checked_sum_unat [of 0] by (simp add: checked_sum_split_amounts_def comp_def)
  with * show ?thesis by (simp add: word_gt_0 unat_sub word_le_nat_alt)
qed

lemma signers_sound:
  assumes "verify_required_signers tx keys matched = Inr ()" "i \<in> set matched"
    "transfer_authority keys (message_instructions (vt_message tx)) i = Some authority" "keys \<noteq> []"
  shows "(\<forall>j \<in> set matched. \<forall>a. transfer_authority keys (message_instructions (vt_message tx)) j = Some a \<longrightarrow> a = authority)
    \<and> set (take (num_required_signatures (vt_message tx)) keys) \<subseteq> {hd keys, authority}"
proof -
  let ?ixs = "message_instructions (vt_message tx)"
  from assms(1) obtain g where g: "common_authority keys ?ixs None matched = Inr g"
      "\<not> list_ex (\<lambda>signer. signer \<notin> set (take 1 keys @ (case g of Some a \<Rightarrow> [a] | None \<Rightarrow> [])))
        (take (num_required_signatures (vt_message tx)) keys)"
    by (auto simp: verify_required_signers_def try_bind_Inr_iff Let_def split: if_splits)
  with common_authority_sound [OF g(1)] assms(2,3) have "g = Some authority"
    "\<forall>j \<in> set matched. \<forall>a. transfer_authority keys ?ixs j = Some a \<longrightarrow> a = authority" by auto
  moreover have "take 1 keys = [hd keys]" using assms(4) by (cases keys) simp_all
  ultimately show ?thesis using g(2) by (auto simp: list_ex_iff)
qed

lemma legs_matched:
  assumes "pays_one verify paid" "verify pk primary [] = Inr m1"
    "verify_split_transfers L verify splits m1 = Inr m2"
    "verify_memo_instructions tx keys external_id splits m2 = Inr m3"
  shows "\<exists>rest memos. list_all2 (split_leg L) splits rest \<and> distinct m2
    \<and> list_all2 paid ((pk, primary) # rest) m2 \<and> set m3 = set m2 \<union> set memos
    \<and> (\<forall>i \<in> set memos. memo_note keys (map snd (expected_memos external_id splits))
        (message_instructions (vt_message tx) ! i))"
proof -
  from assms(1,2) obtain i where i: "m1 = [i]" "paid (pk, primary) i" unfolding pays_one_def by fastforce
  with verify_split_transfers_sound [OF assms(1,3)] obtain rest idx where rest:
      "list_all2 (split_leg L) splits rest" "m2 = i # idx" "distinct m2" "list_all2 paid rest idx" by auto
  from verify_memos_sound [OF assms(4) [unfolded verify_memo_instructions_def] rest(3)]
  obtain memos where "m3 = m2 @ memos" "list_all (\<lambda>i. i < length (message_instructions (vt_message tx))
      \<and> memo_note keys (map snd (expected_memos external_id splits)) (message_instructions (vt_message tx) ! i)) memos"
    by auto
  with rest i show ?thesis by (intro exI [of _ rest] exI [of _ memos]) (auto simp: list_all_iff)
qed

lemma sponsor_first:
  assumes "expected_fee_payer L tx details = Inr sponsor"
  shows "sponsor = None \<or> sponsor = Some (hd (static_account_keys (vt_message tx)))"
  using assms
  by (auto simp: expected_fee_payer_def try_bind_Inr_iff slice_get_def hd_conv_nth split: if_splits)

lemma one_authority:
  assumes "verify_required_signers tx keys matched = Inr ()" "keys \<noteq> []" "idx \<noteq> []" "set idx \<subseteq> set matched"
    and "list_all2 (paid_at L tx sponsor asset) legs idx"
    and "keys = static_account_keys (vt_message tx)" "ixs = message_instructions (vt_message tx)"
  shows "\<exists>authority.
      list_all2 (\<lambda>leg i. i < length ixs \<and> leg_paid L keys sponsor asset authority leg (ixs ! i)) legs idx
      \<and> set (take (num_required_signatures (vt_message tx)) keys) \<subseteq> {hd keys, authority}"
proof -
  have authority: "\<exists>a. i < length ixs \<and> leg_paid L keys sponsor asset a leg (ixs ! i) \<and> transfer_authority keys ixs i = Some a"
    if "paid_at L tx sponsor asset leg i" for leg i
    using that leg_authority [of L keys sponsor asset _ leg ixs i] by (auto simp: paid_at_def assms(6,7))
  from assms(3,5) obtain leg i where "paid_at L tx sponsor asset leg i" "i \<in> set idx"
    by (cases idx; cases legs) auto
  with authority assms(4) obtain a where "transfer_authority keys ixs i = Some a" "i \<in> set matched" by blast
  note sound = signers_sound [OF assms(1) this(2) _ assms(2), folded assms(7), OF this(1)]
  note one = sound [THEN conjunct1] and required = sound [THEN conjunct2]
  have "list_all2 (\<lambda>leg i. i < length ixs \<and> leg_paid L keys sponsor asset a leg (ixs ! i)) legs idx"
    using assms(5) by (rule list.rel_mono_strong) (use authority one assms(4) in blast)
  with required show ?thesis by blast
qed

lemma charge_paid:
  assumes "verify_client_pull_transaction S L tx request details accepted = Inr ()"
    and "keys = static_account_keys (vt_message tx)" "ixs = message_instructions (vt_message tx)"
    and "splits = unwrap_or (md_splits details) []"
  shows "\<exists>sponsor asset legs idx authority total.
     expected_fee_payer L tx details = Inr sponsor \<and> charge_asset L request details asset
     \<and> charge_legs L request details legs
     \<and> parse_u64 (cr_amount request) = Some total \<and> sum_list (map (unat \<circ> snd) legs) = unat total
     \<and> distinct idx
     \<and> list_all2 (\<lambda>leg i. i < length ixs \<and> leg_paid L keys sponsor asset authority leg (ixs ! i)) legs idx
     \<and> set (take (num_required_signatures (vt_message tx)) keys) \<subseteq> {hd keys, authority}
     \<and> (\<forall>i < length ixs. i \<in> set idx
          \<or> memo_note keys (map snd (expected_memos (cr_external_id request) splits)) (ixs ! i)
          \<or> budget_request keys (sponsor \<noteq> None) (ixs ! i)
          \<or> (\<exists>s \<in> set splits. \<exists>owner. key_from_str L (sp_recipient s) = Inr owner
               \<and> (sponsor \<noteq> None \<longrightarrow> sp_ata_creation_required s = Some True)
               \<and> ata_creation L keys (hd keys) asset owner (ixs ! i)))"
proof -
  from assms(1) have "verify_versioned_transaction_pre_broadcast S L tx request details accepted = Inr ()"
    by (auto simp: verify_client_pull_transaction_def try_bind_Inr_iff)
  then obtain sponsor asset primary recipient pk policy verify m1 m2 m3 where
    sponsor: "expected_fee_payer L tx details = Inr sponsor" and asset: "charge_asset L request details asset" and
    primary: "primary_amount request splits = Inr primary" and recipient: "cr_recipient request = Some recipient"
    "key_from_str L recipient = Inr pk" and policy: "expected_ata_creation_policy L splits sponsor = Inr policy" and
    pays: "pays_one verify (paid_at L tx sponsor asset)" "verify pk primary [] = Inr m1"
    "verify_split_transfers L verify splits m1 = Inr m2"
    "verify_memo_instructions tx keys (cr_external_id request) splits m2 = Inr m3" and
    allow: "validate_instruction_allowlist L tx keys m3 (asset_mint asset) (acp_allowed_owners policy)
      (asset_program asset) sponsor (acp_required_owners policy) = Inr ()" and
    signers: "verify_required_signers tx keys m3 = Inr ()"
    unfolding assms(2,4) by (rule charge_accepted)
  from legs_matched [OF pays] obtain rest memos where rest: "list_all2 (split_leg L) splits rest" "distinct m2"
      "list_all2 (paid_at L tx sponsor asset) ((pk, primary) # rest) m2" "set m3 = set m2 \<union> set memos"
      and memos: "\<forall>i \<in> set memos. memo_note keys (map snd (expected_memos (cr_external_id request) splits)) (ixs ! i)"
    unfolding assms(3) by auto
  from allowlist_sound [OF allow assms(2,3)] sponsor_first [OF sponsor]
  have keys: "keys \<noteq> []" and others: "\<forall>i < length ixs. i \<in> set m3 \<or> budget_request keys (sponsor \<noteq> None) (ixs ! i)
        \<or> (\<exists>owner \<in> set (acp_allowed_owners policy). ata_creation L keys (hd keys) asset owner (ixs ! i))"
    by (auto simp: assms(2))
  have "m2 \<noteq> []" "set m2 \<subseteq> set m3" using rest(3,4) by auto
  with one_authority [OF signers keys _ _ rest(3) assms(2,3)] obtain authority where
    paid: "list_all2 (\<lambda>leg i. i < length ixs \<and> leg_paid L keys sponsor asset authority leg (ixs ! i))
        ((pk, primary) # rest) m2"
    and required: "set (take (num_required_signatures (vt_message tx)) keys) \<subseteq> {hd keys, authority}" by blast
  have "list_all2 (\<lambda>s leg. parse_u64 (sp_amount s) = Some (snd leg)) splits rest"
    using rest(1) by (rule list_all2_mono) (simp add: split_leg_def)
  from legs_total [OF primary this] obtain total where total: "0 < primary" "parse_u64 (cr_amount request) = Some total"
    "sum_list (map (unat \<circ> snd) ((pk, primary) # rest)) = unat total" by auto
  have legs: "charge_legs L request details ((pk, primary) # rest)"
    using recipient rest(1) total(1) by (auto simp: charge_legs_def assms(4))
  have "\<forall>i < length ixs. i \<in> set m2
      \<or> memo_note keys (map snd (expected_memos (cr_external_id request) splits)) (ixs ! i)
      \<or> budget_request keys (sponsor \<noteq> None) (ixs ! i)
      \<or> (\<exists>s \<in> set splits. \<exists>owner. key_from_str L (sp_recipient s) = Inr owner
           \<and> (sponsor \<noteq> None \<longrightarrow> sp_ata_creation_required s = Some True)
           \<and> ata_creation L keys (hd keys) asset owner (ixs ! i))"
    using others rest(4) memos ata_policy_sound(1) [OF policy] by fast
  with sponsor asset legs total(2,3) rest(2) paid required show ?thesis by blast
qed

section \<open>Properties\<close>

text \<open>
  C28.  A client's transaction that the server is about to co-sign and send pays the charge
  exactly.  Its transfers are one per leg of the charge (the recipient with what the splits
  leave, then every split), each by an instruction of its own that moves exactly the leg's
  amount of the charged asset to the leg's recipient; the amounts add up to the charge.  All
  transfers are authorized by one account, which is not the sponsor, and no other key but the
  fee payer has to sign.  Every other instruction is a memo the charge asks for, a compute budget
  request within the caps, or the creation of the token account of a split's recipient, and a
  sponsor pays only for those the charge requires.
\<close>

theorem charge_pays_exactly:
  assumes "verify_client_pull_transaction S L tx request details accepted = Inr ()"
    and "keys = static_account_keys (vt_message tx)" "ixs = message_instructions (vt_message tx)"
    and "splits = unwrap_or (md_splits details) []"
  shows "\<exists>sponsor asset legs idx authority total.
     expected_fee_payer L tx details = Inr sponsor \<and> charge_asset L request details asset
     \<and> charge_legs L request details legs
     \<and> parse_u64 (cr_amount request) = Some total \<and> sum_list (map (unat \<circ> snd) legs) = unat total
     \<and> distinct idx
     \<and> list_all2 (\<lambda>leg i. i < length ixs \<and> leg_paid L keys sponsor asset authority leg (ixs ! i)) legs idx
     \<and> set (take (num_required_signatures (vt_message tx)) keys) \<subseteq> {hd keys, authority}
     \<and> (\<forall>i < length ixs. i \<in> set idx
          \<or> memo_note keys (map snd (expected_memos (cr_external_id request) splits)) (ixs ! i)
          \<or> budget_request keys (sponsor \<noteq> None) (ixs ! i)
          \<or> (\<exists>s \<in> set splits. \<exists>owner. key_from_str L (sp_recipient s) = Inr owner
               \<and> (sponsor \<noteq> None \<longrightarrow> sp_ata_creation_required s = Some True)
               \<and> ata_creation L keys (hd keys) asset owner (ixs ! i)))"
  by (rule charge_paid [OF assms])

text \<open>
  A sponsored charge of 100 lamports, 30 of which go to a split with a memo, paid with two
  transfers of the payer behind a compute budget request.
\<close>

definition toy_keys :: keylib where
  "toy_keys = \<lparr>key_from_str = \<lambda>s. if s = [] then Inl ''empty'' else Inr s,
     find_program_address = \<lambda>seeds program. (concat seeds, 255)\<rparr>"

definition sample_request :: charge_request where
  "sample_request = \<lparr>cr_amount = ''100'', cr_currency = ''sol'', cr_decimals = None,
     cr_recipient = Some ''shop'', cr_description = None, cr_external_id = None, cr_method_details = None\<rparr>"

definition sample_details :: method_details where
  "sample_details = default_method_details
     \<lparr>md_fee_payer := Some True, md_fee_payer_key := Some ''sponsor'',
      md_splits := Some [\<lparr>sp_recipient = ''tax'', sp_amount = ''30'', sp_ata_creation_required = None,
        sp_label = None, sp_memo = Some ''vat''\<rparr>]\<rparr>"

definition sol_transfer :: "u8 \<Rightarrow> u8 \<Rightarrow> u64 \<Rightarrow> compiled_instruction" where
  "sol_transfer src dst amount = \<lparr>ci_program_id_index = 4, ci_accounts = [src, dst],
     ci_data = le_bytes (2 :: u32) @ le_bytes amount\<rparr>"

definition sample_transaction :: versioned_transaction where
  "sample_transaction =
     \<lparr>vt_signatures = [default_signature, [1]],
      vt_message = MV0
        \<lparr>mb_num_required_signatures = 2,
         mb_static_account_keys = [''sponsor'', ''payer'', ''shop'', ''tax'', SYSTEM_PROGRAM, MEMO_PROGRAM,
           COMPUTE_BUDGET_PROGRAM],
         mb_instructions =
           [\<lparr>ci_program_id_index = 6, ci_accounts = [], ci_data = SET_UNIT_LIMIT_TAG # le_bytes (50000 :: u32)\<rparr>,
            \<lparr>ci_program_id_index = 6, ci_accounts = [], ci_data = SET_UNIT_PRICE_TAG # le_bytes (1000 :: u64)\<rparr>,
            sol_transfer 1 3 30, sol_transfer 1 2 70,
            \<lparr>ci_program_id_index = 5, ci_accounts = [], ci_data = as_bytes ''vat''\<rparr>]\<rparr> []\<rparr>"

lemmas sample_defs = sample_transaction_def sample_request_def sample_details_def default_method_details_def
  toy_keys_def

lemma sample_programs:
  "SYSTEM_PROGRAM \<noteq> MEMO_PROGRAM" "SYSTEM_PROGRAM \<noteq> COMPUTE_BUDGET_PROGRAM" "MEMO_PROGRAM \<noteq> COMPUTE_BUDGET_PROGRAM"
  "MEMO_PROGRAM \<noteq> SYSTEM_PROGRAM" "COMPUTE_BUDGET_PROGRAM \<noteq> SYSTEM_PROGRAM" "COMPUTE_BUDGET_PROGRAM \<noteq> MEMO_PROGRAM"
  using programs_distinct by auto

lemma sample_primary: "primary_amount sample_request (unwrap_or (md_splits sample_details) []) = Inr 70"
  by (simp add: sample_defs primary_amount_def parse_u64_def strip_plus_def is_ascii_digit_def digits_value_def
      digit_value_def checked_sum_split_amounts_def checked_add_def)

lemma sample_payer: "expected_fee_payer toy_keys sample_transaction sample_details = Inr (Some ''sponsor'')"
  by (simp add: sample_defs expected_fee_payer_def slice_get_def)

lemma sample_legs:
  "verify_sol_transfer_instructions sample_transaction (static_account_keys (vt_message sample_transaction))
     ''shop'' 70 (Some ''sponsor'') [] = Inr [3]"
  "verify_sol_transfer_instructions sample_transaction (static_account_keys (vt_message sample_transaction))
     ''tax'' 30 (Some ''sponsor'') [3] = Inr [3, 2]"
  by (simp_all add: sample_defs verify_sol_transfer_instructions_def program_of_def account_key_def key_at_def
      slice_get_def sol_transfer_def sample_programs)

lemma sample_memo:
  "verify_memo_instructions sample_transaction (static_account_keys (vt_message sample_transaction)) None
     (unwrap_or (md_splits sample_details) []) [3, 2] = Inr [3, 2, 4]"
  by (simp add: sample_defs verify_memo_instructions_def expected_memos_def program_of_def key_at_def
      slice_get_def sol_transfer_def sample_programs MAX_MEMO_BYTES_def as_bytes_def)

lemma sample_allowlist:
  "validate_instruction_allowlist toy_keys sample_transaction (static_account_keys (vt_message sample_transaction))
     [3, 2, 4] None [] None (Some ''sponsor'') [] = Inr ()"
  by (simp add: sample_defs validate_instruction_allowlist_def program_of_def key_at_def slice_get_def
      sol_transfer_def sample_programs validate_compute_budget_instruction_def decode_compute_budget_op_def
      tag_defs MAX_COMPUTE_UNIT_LIMIT_def max_price_def MAX_COMPUTE_UNIT_PRICE_MICROLAMPORTS_FEE_SPONSORED_def)

lemma sample_signers:
  "verify_required_signers sample_transaction (static_account_keys (vt_message sample_transaction)) [3, 2, 4] = Inr ()"
  using programs_distinct
  by (simp add: sample_defs verify_required_signers_def transfer_authority_def key_at_def slice_get_def
      sol_transfer_def sample_programs)

lemma sample_envelope: "check_envelope_without_legacy toy_sdk sample_transaction [V0] = Inr V0"
  by (simp add: sample_defs check_envelope_without_legacy_def refuse_legacy_def check_envelope_def
      require_static_accounts_def check_limits_def serialized_size_def serialize_def toy_sdk_def sol_transfer_def
      PACKET_DATA_SIZE_def MAX_TX_ACCOUNT_LOCKS_def as_bytes_def)

lemma signed_slot: "[1] \<noteq> default_signature"
  by (auto simp: default_signature_def dest: arg_cong [where f = length])

lemma sample_presigned: "require_presigned toy_sdk sample_transaction (Some ''sponsor'') = Inr ()"
  by (simp add: sample_defs require_presigned_def toy_sdk_def signed_slot)

lemma budget_program_id: "COMPUTE_BUDGET_PROGRAM_ID = COMPUTE_BUDGET_PROGRAM"
  by (simp add: COMPUTE_BUDGET_PROGRAM_ID_def COMPUTE_BUDGET_PROGRAM_def)

lemma sample_caps:
  "check_v1_budget_caps (vt_message sample_transaction) MAX_COMPUTE_UNIT_LIMIT (max_price True) = Inr None"
  "\<exists>d. check_v0_budget_caps (vt_message sample_transaction) MAX_COMPUTE_UNIT_LIMIT (max_price True) = Inr d"
  by (simp_all add: sample_defs check_v1_budget_caps_def check_v1_budget_caps_with_def check_v0_budget_caps_def
      declared_of_def is_compute_budget_def sol_transfer_def budget_program_id sample_programs declare_op_def
      decode_compute_budget_op_def tag_defs no_budget_def check_unit_limit_def MAX_COMPUTE_UNIT_LIMIT_def
      max_price_def MAX_COMPUTE_UNIT_PRICE_MICROLAMPORTS_FEE_SPONSORED_def)

lemma sample_policy:
  "expected_ata_creation_policy toy_keys (unwrap_or (md_splits sample_details) []) (Some ''sponsor'')
     = Inr \<lparr>acp_allowed_owners = [], acp_required_owners = []\<rparr>"
  by (simp add: sample_defs expected_ata_creation_policy_def)

lemma sample_accepted:
  "verify_client_pull_transaction toy_sdk toy_keys sample_transaction sample_request sample_details [V0] = Inr ()"
proof -
  have native: "to_uppercase (cr_currency sample_request) = ''SOL''"
    by code_simp
  have split: "key_from_str toy_keys ''tax'' = Inr ''tax''" "parse_u64 ''30'' = Some 30"
    by (simp_all add: toy_keys_def parse_u64_def strip_plus_def is_ascii_digit_def digits_value_def digit_value_def)
  have "verify_native_charge toy_keys sample_transaction sample_request (unwrap_or (md_splits sample_details) [])
      ''shop'' 70 (Some ''sponsor'') \<lparr>acp_allowed_owners = [], acp_required_owners = []\<rparr> = Inr ()"
    using sample_legs sample_memo sample_allowlist sample_signers split
    by (simp add: verify_native_charge_def sample_request_def sample_details_def)
  with native have "verify_versioned_transaction_pre_broadcast toy_sdk toy_keys sample_transaction sample_request
      sample_details [V0] = Inr ()"
    using sample_envelope sample_caps sample_primary sample_payer sample_policy
    by (auto simp: verify_versioned_transaction_pre_broadcast_def sample_details_def MAX_SPLITS_def
        sample_request_def toy_keys_def core_result_def)
  with sample_payer sample_presigned show ?thesis
    by (simp add: verify_client_pull_transaction_def core_result_def)
qed

theorem charge_pays_exactly_witness:
  "\<exists>legs (idx :: nat list). sum_list (map (unat \<circ> snd) legs) = 100 \<and> distinct idx \<and> length idx = length legs
     \<and> charge_legs toy_keys sample_request sample_details legs"
proof -
  have hundred: "parse_u64 (cr_amount sample_request) = Some 100"
    by (simp add: sample_request_def parse_u64_def strip_plus_def is_ascii_digit_def digits_value_def digit_value_def)
  show ?thesis
    using charge_pays_exactly [OF sample_accepted refl refl refl]
  proof (elim exE conjE)
    fix sponsor asset legs idx authority total
    assume "charge_legs toy_keys sample_request sample_details legs" "distinct idx"
      "parse_u64 (cr_amount sample_request) = Some total" "sum_list (map (unat \<circ> snd) legs) = unat total"
      and paid: "list_all2 (\<lambda>leg i. i < length (message_instructions (vt_message sample_transaction))
         \<and> leg_paid toy_keys (static_account_keys (vt_message sample_transaction)) sponsor asset authority leg
            (message_instructions (vt_message sample_transaction) ! i)) legs idx"
    then show ?thesis
      using hundred list_all2_lengthD [OF paid] by (intro exI [of _ legs] exI [of _ idx] conjI) simp_all
  qed
qed

lemma budget_caps_checked:
  "version_of m = Inr V0 \<Longrightarrow> check_v0_budget_caps m limit price \<noteq> Inr None"
  "version_of m = Inr V1 \<Longrightarrow> check_v1_budget_caps m limit price \<noteq> Inr None"
  by (auto simp: check_v1_budget_caps_def check_v1_budget_caps_with_def check_v0_budget_caps_def
      try_bind_Inr_iff split: if_splits option.splits)

text \<open>
  C34.  A sponsor's priority fee is bounded.  A transaction the server accepts for a charge it
  sponsors declares a readable compute budget, and the priority fee that budget makes the
  sponsor pay is at most 2000 lamports, for every message version.
\<close>

theorem sponsored_fee_bounded:
  assumes "verify_client_pull_transaction S L tx request details accepted = Inr ()"
    and "md_fee_payer details = Some True"
  shows "\<exists>d. declared_of (vt_message tx) = Inr d \<and> priority_fee_of (vt_message tx) d \<le> 2000"
proof -
  let ?m = "vt_message tx"
  have caps: "\<exists>d. check_v1_budget_caps ?m MAX_COMPUTE_UNIT_LIMIT (max_price True) = Inr d"
      "\<exists>d. check_v0_budget_caps ?m MAX_COMPUTE_UNIT_LIMIT (max_price True) = Inr d"
    using assms
    by (auto simp: verify_client_pull_transaction_def verify_versioned_transaction_pre_broadcast_def
        try_bind_Inr_iff Let_def split: if_splits)
  have fee: "priority_fee_lamports (budget_new MAX_COMPUTE_UNIT_LIMIT (max_price True)) = 2000"
    and cap: "max_price True < - 1"
    by (simp_all add: priority_fee_lamports_def budget_new_def div_ceil_def clamp_u64_def max_price_def
        MAX_COMPUTE_UNIT_LIMIT_def MAX_COMPUTE_UNIT_PRICE_MICROLAMPORTS_FEE_SPONSORED_def)
  obtain v where "version_of ?m = Inr v" by (cases ?m) simp_all
  then have "(\<exists>d. check_v1_budget_caps ?m MAX_COMPUTE_UNIT_LIMIT (max_price True) = Inr (Some d))
      \<or> (\<exists>d. check_v0_budget_caps ?m MAX_COMPUTE_UNIT_LIMIT (max_price True) = Inr (Some d))"
    using caps budget_caps_checked [of ?m MAX_COMPUTE_UNIT_LIMIT "max_price True"] by (cases v) (metis not_None_eq)+
  with fee v0_caps_bound v1_caps_bound [OF _ cap] show ?thesis by fastforce
qed

theorem sponsored_fee_bounded_witness:
  "\<exists>d. declared_of (vt_message sample_transaction) = Inr d \<and> priority_fee_of (vt_message sample_transaction) d \<le> 2000"
  by (rule sponsored_fee_bounded [OF sample_accepted]) (simp add: sample_details_def)

end
