(* ===== verification/Charge_Onchain.thy ===== *)
theory Charge_Onchain
  imports Charge_Transfers Charge_Replay
begin

text \<open>
  Push mode: a payment that is already onchain is checked from what the RPC reports of it,
  \<open>verify_on_chain\<close> of \<open>mpp/server/charge.rs\<close> and everything below it.  The instructions, inner
  ones included, come as the JSON of the \<open>jsonParsed\<close> encoding.
\<close>

section \<open>Reading parsed instructions\<close>

definition field_str :: "(string \<times> json) list \<Rightarrow> string \<Rightarrow> string option" where
  "field_str kvs key = Option.bind (map_of kvs key) as_str"

definition json_str :: "json \<Rightarrow> string \<Rightarrow> string option" where
  "json_str v key = Option.bind (json_get v key) as_str"

definition json_obj :: "json \<Rightarrow> string \<Rightarrow> (string \<times> json) list option" where
  "json_obj v key = Option.bind (json_get v key) as_object"

definition field_obj :: "(string \<times> json) list \<Rightarrow> string \<Rightarrow> (string \<times> json) list option" where
  "field_obj kvs key = Option.bind (map_of kvs key) as_object"

fun first_str :: "(string \<times> json) list \<Rightarrow> string list \<Rightarrow> string option" where
  "first_str info [] = None"
| "first_str info (key # keys) = (case field_str info key of Some s \<Rightarrow> Some s | None \<Rightarrow> first_str info keys)"

definition parsed_program_id :: "json \<Rightarrow> string option" where
  "parsed_program_id ix =
     (case json_str ix ''programId'' of
        Some program_id \<Rightarrow> Some program_id
      | None \<Rightarrow>
          (case json_str ix ''program'' of
             Some name \<Rightarrow>
               if name = ''system'' then Some SYSTEM_PROGRAM
               else if name = ''compute-budget'' then Some COMPUTE_BUDGET_PROGRAM
               else if name = ''spl-memo'' then Some MEMO_PROGRAM
               else if name = ''spl-associated-token-account'' then Some ASSOCIATED_TOKEN_PROGRAM
               else None
           | None \<Rightarrow> None))"

definition parsed_memo_text :: "json \<Rightarrow> string option" where
  "parsed_memo_text ix =
     (case json_get ix ''parsed'' of
        Some (JString m) \<Rightarrow> Some m
      | Some (JObject parsed) \<Rightarrow> Option.bind (field_obj parsed ''info'') (\<lambda>info. first_str info [''memo'', ''data''])
      | _ \<Rightarrow> None)"

definition verify_ata_owner :: "keylib \<Rightarrow> string \<Rightarrow> string \<Rightarrow> string \<Rightarrow> string \<Rightarrow> bool" where
  "verify_ata_owner L ata_address expected_owner mint token_program =
     (case (key_from_str L expected_owner, key_from_str L mint, key_from_str L token_program,
            key_from_str L ata_address) of
        (Inr owner, Inr mint_pk, Inr tp, Inr ata_pk) \<Rightarrow> ata_of L owner tp mint_pk = ata_pk
      | _ \<Rightarrow> False)"

section \<open>Transfers\<close>

text \<open>The \<open>info\<close> of an instruction whose parsed type is the given one.\<close>

definition parsed_info :: "string \<Rightarrow> json \<Rightarrow> (string \<times> json) list option" where
  "parsed_info type ix =
     (case json_obj ix ''parsed'' of
        Some parsed \<Rightarrow> if field_str parsed ''type'' = Some type then field_obj parsed ''info'' else None
      | None \<Rightarrow> None)"

fun find_sol_transfer_in :: "string \<Rightarrow> u64 \<Rightarrow> string option \<Rightarrow> nat list \<Rightarrow> (nat \<times> json) list
    \<Rightarrow> verification_error + nat" where
  "find_sol_transfer_in recipient amount fee_payer matched [] =
     Inl (invalid_amount_error (''No matching SOL transfer of '' @ show_nat (unat amount)
       @ '' lamports to '' @ recipient))"
| "find_sol_transfer_in recipient amount fee_payer matched ((index, ix) # ixs) =
     (let continue = find_sol_transfer_in recipient amount fee_payer matched ixs in
      if index \<in> set matched then continue
      else if parsed_program_id ix \<noteq> Some SYSTEM_PROGRAM then continue
      else case parsed_info ''transfer'' ix of
        None \<Rightarrow> continue
      | Some info \<Rightarrow>
          let dest = unwrap_or (field_str info ''destination'') [];
              source = unwrap_or (field_str info ''source'') [];
              lamports = unwrap_or (Option.bind (map_of info ''lamports'') as_u64) 0 in
          if dest = recipient \<and> lamports = amount
          then (if fee_payer = Some source
                then Inl (invalid_payload ''Fee payer cannot fund the SOL payment transfer'')
                else Inr index)
          else continue)"

definition find_sol_transfer :: "json list \<Rightarrow> string \<Rightarrow> u64 \<Rightarrow> string option \<Rightarrow> nat list
    \<Rightarrow> verification_error + nat list" where
  "find_sol_transfer instructions recipient amount fee_payer matched =
     try_bind (find_sol_transfer_in recipient amount fee_payer matched (enumerate 0 instructions))
       (\<lambda>index. Inr (matched @ [index]))"

definition fee_payer_account :: "keylib \<Rightarrow> string \<Rightarrow> string \<Rightarrow> string \<Rightarrow> string option" where
  "fee_payer_account L fee_payer mint program =
     (case (key_from_str L fee_payer, key_from_str L mint, key_from_str L program) of
        (Inr fee_payer_pk, Inr mint_pk, Inr program_pk) \<Rightarrow> Some (ata_of L fee_payer_pk program_pk mint_pk)
      | _ \<Rightarrow> None)"

fun find_spl_transfer_in :: "keylib \<Rightarrow> string \<Rightarrow> string \<Rightarrow> u64 \<Rightarrow> string option \<Rightarrow> string option
    \<Rightarrow> nat list \<Rightarrow> (nat \<times> json) list \<Rightarrow> verification_error + nat" where
  "find_spl_transfer_in L recipient expected_mint amount token_program fee_payer matched [] =
     Inl (invalid_amount_error (''No matching SPL transferChecked of '' @ show_nat (unat amount)
       @ '' to '' @ recipient))"
| "find_spl_transfer_in L recipient expected_mint amount token_program fee_payer matched ((index, ix) # ixs) =
     (let continue = find_spl_transfer_in L recipient expected_mint amount token_program fee_payer matched ixs;
          program = unwrap_or (json_str ix ''programId'') [] in
      if index \<in> set matched then continue
      else if program \<noteq> TOKEN_PROGRAM \<and> program \<noteq> TOKEN_2022_PROGRAM then continue
      else if token_program \<noteq> None \<and> token_program \<noteq> Some program then continue
      else case parsed_info ''transferChecked'' ix of
        None \<Rightarrow> continue
      | Some info \<Rightarrow>
          let token_amount = unwrap_or (Option.bind (field_obj info ''tokenAmount'')
                (\<lambda>t. Option.bind (field_str t ''amount'') parse_u64)) 0;
              dest = unwrap_or (field_str info ''destination'') [];
              source = unwrap_or (field_str info ''source'') [];
              authority = unwrap_or (field_str info ''authority'') [];
              mint = unwrap_or (field_str info ''mint'') [] in
          if token_amount = amount \<and> mint = expected_mint \<and> verify_ata_owner L dest recipient mint program
          then (case fee_payer of
                  None \<Rightarrow> Inr index
                | Some payer \<Rightarrow>
                    if authority = payer
                    then Inl (invalid_payload ''Fee payer cannot authorize the SPL payment transfer'')
                    else if fee_payer_account L payer mint program = Some source
                    then Inl (invalid_payload ''Fee payer token account cannot fund the SPL payment transfer'')
                    else Inr index)
          else continue)"

definition find_spl_transfer :: "keylib \<Rightarrow> json list \<Rightarrow> string \<Rightarrow> string \<Rightarrow> u64 \<Rightarrow> string option
    \<Rightarrow> string option \<Rightarrow> nat list \<Rightarrow> verification_error + nat list" where
  "find_spl_transfer L instructions recipient expected_mint amount token_program fee_payer matched =
     try_bind (find_spl_transfer_in L recipient expected_mint amount token_program fee_payer matched
         (enumerate 0 instructions)) (\<lambda>index. Inr (matched @ [index]))"

fun find_split_transfers :: "(string \<Rightarrow> u64 \<Rightarrow> nat list \<Rightarrow> verification_error + nat list) \<Rightarrow> string
    \<Rightarrow> charge_split list \<Rightarrow> nat list \<Rightarrow> verification_error + nat list" where
  "find_split_transfers find_one what [] matched = Inr matched"
| "find_split_transfers find_one what (s # splits) matched =
     try_bind (ok_or (parse_u64 (sp_amount s)) (invalid_amount_error ''Invalid split amount'')) (\<lambda>amt.
     try_bind (map_err (\<lambda>_. invalid_amount_error (''Missing split '' @ what @ '' to '' @ sp_recipient s))
         (find_one (sp_recipient s) amt matched)) (\<lambda>matched'.
       find_split_transfers find_one what splits matched'))"

definition verify_sol_transfers :: "json list \<Rightarrow> string \<Rightarrow> u64 \<Rightarrow> charge_split list \<Rightarrow> string option
    \<Rightarrow> verification_error + nat list" where
  "verify_sol_transfers instructions recipient primary splits fee_payer =
     (let find_one = (\<lambda>to amount. find_sol_transfer instructions to amount fee_payer) in
      try_bind (find_one recipient primary []) (find_split_transfers find_one ''transfer'' splits))"

definition verify_spl_transfers :: "keylib \<Rightarrow> json list \<Rightarrow> string \<Rightarrow> string \<Rightarrow> u64 \<Rightarrow> charge_split list
    \<Rightarrow> string option \<Rightarrow> string option \<Rightarrow> verification_error + nat list" where
  "verify_spl_transfers L instructions recipient mint primary splits token_program fee_payer =
     (let find_one = (\<lambda>to amount. find_spl_transfer L instructions to mint amount token_program fee_payer) in
      try_bind (find_one recipient primary []) (find_split_transfers find_one ''SPL transfer'' splits))"

section \<open>Memos and the rest\<close>

fun find_parsed_memo :: "string \<Rightarrow> nat list \<Rightarrow> (nat \<times> json) list \<Rightarrow> nat option" where
  "find_parsed_memo wanted matched [] = None"
| "find_parsed_memo wanted matched ((index, ix) # ixs) =
     (if index \<notin> set matched \<and> parsed_program_id ix = Some MEMO_PROGRAM \<and> parsed_memo_text ix = Some wanted
      then Some index else find_parsed_memo wanted matched ixs)"

fun verify_parsed_memos :: "json list \<Rightarrow> (string \<times> string) list \<Rightarrow> nat list
    \<Rightarrow> verification_error + nat list" where
  "verify_parsed_memos instructions [] matched = Inr matched"
| "verify_parsed_memos instructions ((label, wanted) # memos) matched =
     (if length wanted > MAX_MEMO_BYTES
      then Inl (invalid_payload (''memo cannot exceed '' @ show_nat MAX_MEMO_BYTES @ '' bytes''))
      else case find_parsed_memo wanted matched (enumerate 0 instructions) of
        None \<Rightarrow> Inl (invalid_payload (''No memo instruction found for '' @ label @ '' memo ''
                  @ [CHR 0x22] @ wanted @ [CHR 0x22]))
      | Some index \<Rightarrow> verify_parsed_memos instructions memos (matched @ [index]))"

definition verify_parsed_memo_instructions :: "json list \<Rightarrow> string option \<Rightarrow> charge_split list \<Rightarrow> nat list
    \<Rightarrow> verification_error + nat list" where
  "verify_parsed_memo_instructions instructions external_id splits matched =
     verify_parsed_memos instructions (expected_memos external_id splits) matched"

definition validate_parsed_ata_creation_instruction :: "keylib \<Rightarrow> json \<Rightarrow> string option \<Rightarrow> string list
    \<Rightarrow> string option \<Rightarrow> string option \<Rightarrow> verification_error + string" where
  "validate_parsed_ata_creation_instruction L ix expected_mint allowed_ata_owners pinned_program
      expected_payer =
     try_bind (ok_or expected_mint
         (invalid_payload ''ATA creation is not allowed for native SOL payments'')) (\<lambda>expected_mint.
     try_bind (ok_or (json_obj ix ''parsed'')
         (invalid_payload ''ATA creation instruction is missing parsed data'')) (\<lambda>parsed.
     if field_str parsed ''type'' \<noteq> Some ''createIdempotent''
     then Inl (invalid_payload ''Only idempotent ATA creation is allowed'')
     else
     try_bind (ok_or (field_obj parsed ''info'')
         (invalid_payload ''ATA creation parsed instruction is missing info'')) (\<lambda>info.
     try_bind (ok_or (first_str info [''source'', ''payer''])
         (invalid_payload ''ATA creation parsed instruction is missing payer'')) (\<lambda>payer.
     try_bind (ok_or (first_str info [''account'', ''associatedAccount'', ''associatedTokenAddress''])
         (invalid_payload ''ATA creation parsed instruction is missing account'')) (\<lambda>ata.
     try_bind (ok_or (first_str info [''wallet'', ''owner''])
         (invalid_payload ''ATA creation parsed instruction is missing owner'')) (\<lambda>owner.
     try_bind (ok_or (first_str info [''mint''])
         (invalid_payload ''ATA creation parsed instruction is missing mint'')) (\<lambda>mint.
     try_bind (ok_or (case first_str info [''tokenProgram''] of Some p \<Rightarrow> Some p | None \<Rightarrow> pinned_program)
         (invalid_payload ''ATA creation parsed instruction is missing token program'')) (\<lambda>token_program.
     if expected_payer \<noteq> None \<and> expected_payer \<noteq> Some payer
     then Inl (invalid_payload ''ATA payer must match the transaction fee payer'')
     else if mint \<noteq> expected_mint
     then Inl (invalid_payload ''ATA creation mint does not match the charge currency'')
     else if token_program \<noteq> TOKEN_PROGRAM \<and> token_program \<noteq> TOKEN_2022_PROGRAM
     then Inl (invalid_payload ''ATA creation uses an unsupported token program'')
     else if pinned_program \<noteq> None \<and> pinned_program \<noteq> Some token_program
     then Inl (invalid_payload ''ATA creation token program does not match methodDetails.tokenProgram'')
     else if \<not> verify_ata_owner L ata owner mint token_program
     then Inl (invalid_payload ''ATA creation address does not match owner/mint/token program'')
     else if owner \<notin> set allowed_ata_owners
     then Inl (invalid_payload ''ATA creation owner is not authorized by the challenge'')
     else Inr owner))))))))"

fun parsed_allowlist_loop :: "keylib \<Rightarrow> nat list \<Rightarrow> string option \<Rightarrow> string list \<Rightarrow> string option
    \<Rightarrow> string option \<Rightarrow> string list \<Rightarrow> (nat \<times> json) list \<Rightarrow> verification_error + string list" where
  "parsed_allowlist_loop L matched expected_mint allowed token_program ata_payer created [] = Inr created"
| "parsed_allowlist_loop L matched expected_mint allowed token_program ata_payer created ((index, ix) # ixs) =
     (let program_id = parsed_program_id ix;
          continue = (\<lambda>created. parsed_allowlist_loop L matched expected_mint allowed token_program ata_payer
            created ixs);
          if_matched = (\<lambda>name. if index \<in> set matched then continue created else Inl (unexpected name)) in
      if program_id = Some COMPUTE_BUDGET_PROGRAM then continue created
      else if program_id = Some MEMO_PROGRAM then if_matched ''Memo Program''
      else if program_id = Some SYSTEM_PROGRAM then if_matched ''System Program''
      else if program_id = Some TOKEN_PROGRAM \<or> program_id = Some TOKEN_2022_PROGRAM
      then if_matched ''Token Program''
      else if program_id = Some ASSOCIATED_TOKEN_PROGRAM
      then try_bind (validate_parsed_ata_creation_instruction L ix expected_mint allowed token_program ata_payer)
        (\<lambda>owner. continue (created @ [owner]))
      else Inl (invalid_payload (''Unexpected program instruction in payment transaction: ''
             @ unwrap_or program_id ''unknown'')))"

definition validate_parsed_instruction_allowlist :: "keylib \<Rightarrow> json list \<Rightarrow> nat list \<Rightarrow> string option
    \<Rightarrow> string list \<Rightarrow> string option \<Rightarrow> string option \<Rightarrow> string list \<Rightarrow> verification_error + unit" where
  "validate_parsed_instruction_allowlist L instructions matched expected_mint allowed token_program
      ata_payer required_ata_owners =
     try_bind (parsed_allowlist_loop L matched expected_mint allowed token_program ata_payer []
         (enumerate 0 instructions)) (\<lambda>created.
       case find (\<lambda>owner. owner \<notin> set created) required_ata_owners of
         Some owner \<Rightarrow> Inl (invalid_payload
             (''Missing required ATA creation instruction for split recipient '' @ owner))
       | None \<Rightarrow> Inr ())"

section \<open>The whole check\<close>

text \<open>
  What the RPC reports: the version, the transaction and its metadata as JSON (or why they could
  not be written as such), the error the transaction ended with and its block time.
\<close>

record confirmed_transaction =
  ct_version :: "transaction_version option"
  ct_transaction :: "string + json"
  ct_meta :: "(string option \<times> (string + json)) option"
  ct_block_time :: "i64 option"

definition json_array :: "json \<Rightarrow> string \<Rightarrow> json list option" where
  "json_array v key = Option.bind (json_get v key) as_array"

definition extract_parsed_instructions :: "confirmed_transaction \<Rightarrow> verification_error + json list" where
  "extract_parsed_instructions tx =
     try_bind (map_err (\<lambda>e. ve_new (''Failed to serialize transaction: '' @ e)) (ct_transaction tx)) (\<lambda>tx_json.
     let outer = unwrap_or (Option.bind (json_get tx_json ''message'') (\<lambda>m. json_array m ''instructions'')) [] in
     case ct_meta tx of
       None \<Rightarrow> Inr outer
     | Some (err, meta) \<Rightarrow>
         try_bind (map_err (\<lambda>e. ve_new (''Failed to serialize meta: '' @ e)) meta) (\<lambda>meta_json.
         let groups = unwrap_or (json_array meta_json ''innerInstructions'') [] in
         Inr (outer @ concat (map (\<lambda>group. unwrap_or (json_array group ''instructions'') []) groups))))"

text \<open>\<open>now.saturating_sub(block_time)\<close> in 64 bits.\<close>

definition confirmed_within_replay_retention :: "i64 option \<Rightarrow> i64 \<Rightarrow> verification_error + unit" where
  "confirmed_within_replay_retention block_time now =
     try_bind (ok_or block_time (credential_mismatch
         ''Push-mode transaction has no block time; its age cannot be bounded'')) (\<lambda>block_time.
     let retention = int (unat DEFAULT_CHARGE_RECORD_RETENTION);
         age = max i64_min (min i64_max (now - block_time)) in
     if age > retention
     then Inl (credential_mismatch (''Push-mode transaction confirmed '' @ show_nat (nat age)
            @ ''s ago, outside the '' @ show_nat (nat retention) @ ''s replay retention window''))
     else Inr ())"

definition verify_parsed_native :: "keylib \<Rightarrow> json list \<Rightarrow> charge_request \<Rightarrow> charge_split list \<Rightarrow> string
    \<Rightarrow> u64 \<Rightarrow> string option \<Rightarrow> ata_creation_policy \<Rightarrow> verification_error + unit" where
  "verify_parsed_native L instructions request splits recipient primary ata_payer ata_policy =
     (if list_ex (\<lambda>s. sp_ata_creation_required s = Some True) splits
      then Inl (invalid_payload ''ataCreationRequired requires an SPL token charge'')
      else
      try_bind (verify_sol_transfers instructions recipient primary splits ata_payer) (\<lambda>matched.
      try_bind (verify_parsed_memo_instructions instructions (cr_external_id request) splits matched) (\<lambda>matched.
        validate_parsed_instruction_allowlist L instructions matched None (acp_allowed_owners ata_policy)
          None ata_payer (acp_required_owners ata_policy))))"

definition verify_parsed_token :: "keylib \<Rightarrow> string option \<Rightarrow> json list \<Rightarrow> charge_request \<Rightarrow> method_details
    \<Rightarrow> charge_split list \<Rightarrow> string \<Rightarrow> u64 \<Rightarrow> string option \<Rightarrow> ata_creation_policy
    \<Rightarrow> verification_error + unit" where
  "verify_parsed_token L server_token_program instructions request details splits recipient primary ata_payer
      ata_policy =
     try_bind (resolve_expected_mint L (cr_currency request) (md_network details)) (\<lambda>expected_mint.
     if acp_required_owners ata_policy \<noteq> [] \<and> isl (key_from_str L (cr_currency request))
     then Inl (invalid_payload ''ataCreationRequired requires currency to be an SPL token mint address'')
     else
     try_bind (ok_or (case md_token_program details of Some p \<Rightarrow> Some p | None \<Rightarrow> server_token_program)
         (invalid_payload ''Missing tokenProgram and server has no resolved token program for this currency''))
       (\<lambda>token_program.
     try_bind (verify_spl_transfers L instructions recipient expected_mint primary splits (Some token_program)
         ata_payer) (\<lambda>matched.
     try_bind (verify_parsed_memo_instructions instructions (cr_external_id request) splits matched) (\<lambda>matched.
       validate_parsed_instruction_allowlist L instructions matched (Some expected_mint)
         (acp_allowed_owners ata_policy) (Some token_program) ata_payer (acp_required_owners ata_policy)))))"

text \<open>\<open>str::contains\<close>.\<close>

definition str_contains :: "string \<Rightarrow> string \<Rightarrow> bool" where
  "str_contains s t = list_ex (\<lambda>i. take (length t) (drop i s) = t) [0..<Suc (length s)]"

text \<open>
  The accepted versions and the token program are the server's; the reader of signatures, the
  RPC and the clock are arguments.
\<close>

definition verify_on_chain :: "keylib \<Rightarrow> tx_version list \<Rightarrow> string option \<Rightarrow> (string \<Rightarrow> string + unit)
    \<Rightarrow> (string \<Rightarrow> string + confirmed_transaction) \<Rightarrow> i64 \<Rightarrow> string \<Rightarrow> charge_request
    \<Rightarrow> method_details \<Rightarrow> verification_error + unit" where
  "verify_on_chain L accepted server_token_program signature_from_str get_transaction now signature_str
      request details =
     try_bind (map_err (\<lambda>e. invalid_payload (''Invalid signature: '' @ e)) (signature_from_str signature_str)) (\<lambda>_.
     try_bind (map_err (\<lambda>e. if str_contains e ''not found'' then not_found ''Transaction not found or not yet confirmed''
           else network_error (''RPC error: '' @ e)) (get_transaction signature_str)) (\<lambda>tx.
     try_bind (core_result [] (check_reported_version_without_legacy (ct_version tx) accepted)) (\<lambda>_.
     try_bind (case ct_meta tx of
         Some (Some err, meta) \<Rightarrow> Inl (transaction_failed (''Transaction failed: Some('' @ err @ '')''))
       | _ \<Rightarrow> Inr ()) (\<lambda>_.
     try_bind (confirmed_within_replay_retention (ct_block_time tx) now) (\<lambda>_.
     let splits = unwrap_or (md_splits details) [] in
     try_bind (primary_amount request splits) (\<lambda>primary.
     try_bind (ok_or (cr_recipient request) (invalid_recipient ''No recipient in charge request'')) (\<lambda>recipient.
     let is_native_sol = (to_uppercase (cr_currency request) = ''SOL'') in
     try_bind (extract_parsed_instructions tx) (\<lambda>instructions.
     let ata_payer = (if unwrap_or (md_fee_payer details) False then md_fee_payer_key details else None) in
     try_bind (case ata_payer of
         None \<Rightarrow> Inr None
       | Some key \<Rightarrow> map_sum id Some (map_err (\<lambda>e. invalid_payload (''Invalid fee payer: '' @ e)) (key_from_str L key)))
       (\<lambda>fee_payer_pubkey.
     try_bind (map_err (\<lambda>e. invalid_recipient (''Invalid recipient: '' @ e)) (key_from_str L recipient)) (\<lambda>_.
     try_bind (expected_ata_creation_policy L splits fee_payer_pubkey) (\<lambda>ata_policy.
     if is_native_sol
     then verify_parsed_native L instructions request splits recipient primary ata_payer ata_policy
     else verify_parsed_token L server_token_program instructions request details splits recipient primary
       ata_payer ata_policy)))))))))))"

section \<open>What a parsed instruction does\<close>

definition parsed_sol_payment :: "json \<Rightarrow> string \<Rightarrow> string \<Rightarrow> u64 \<Rightarrow> bool" where
  "parsed_sol_payment ix src dst amount \<longleftrightarrow>
     parsed_program_id ix = Some SYSTEM_PROGRAM
     \<and> (\<exists>info. parsed_info ''transfer'' ix = Some info
          \<and> unwrap_or (field_str info ''source'') [] = src
          \<and> unwrap_or (field_str info ''destination'') [] = dst
          \<and> unwrap_or (Option.bind (map_of info ''lamports'') as_u64) 0 = amount)"

definition parsed_token_payment :: "json \<Rightarrow> string \<Rightarrow> string \<Rightarrow> string \<Rightarrow> string \<Rightarrow> string \<Rightarrow> u64 \<Rightarrow> bool" where
  "parsed_token_payment ix program src mint dst authority amount \<longleftrightarrow>
     json_str ix ''programId'' = Some program \<and> program \<in> {TOKEN_PROGRAM, TOKEN_2022_PROGRAM}
     \<and> (\<exists>info. parsed_info ''transferChecked'' ix = Some info
          \<and> unwrap_or (field_str info ''source'') [] = src
          \<and> unwrap_or (field_str info ''destination'') [] = dst
          \<and> unwrap_or (field_str info ''authority'') [] = authority
          \<and> unwrap_or (field_str info ''mint'') [] = mint
          \<and> unwrap_or (Option.bind (field_obj info ''tokenAmount'')
              (\<lambda>t. Option.bind (field_str t ''amount'') parse_u64)) 0 = amount)"

text \<open>The asset is native SOL or a mint with its token program.\<close>

definition parsed_leg_paid :: "keylib \<Rightarrow> string option \<Rightarrow> (string \<times> string) option \<Rightarrow> string \<times> u64 \<Rightarrow> json
    \<Rightarrow> bool" where
  "parsed_leg_paid L sponsor asset leg ix =
     (case asset of
        None \<Rightarrow> (\<exists>src. parsed_sol_payment ix src (fst leg) (snd leg) \<and> sponsor \<noteq> Some src)
      | Some (mint, program) \<Rightarrow>
          (\<exists>src dst authority. parsed_token_payment ix program src mint dst authority (snd leg)
             \<and> verify_ata_owner L dst (fst leg) mint program \<and> sponsor \<noteq> Some authority
             \<and> (\<forall>p. sponsor = Some p \<longrightarrow> fee_payer_account L p mint program \<noteq> Some src)))"

definition parsed_memo :: "string list \<Rightarrow> json \<Rightarrow> bool" where
  "parsed_memo memos ix \<longleftrightarrow> parsed_program_id ix = Some MEMO_PROGRAM
     \<and> (\<exists>m \<in> set memos. parsed_memo_text ix = Some m)"

definition parsed_ata_creation :: "keylib \<Rightarrow> string option \<Rightarrow> (string \<times> string) option \<Rightarrow> string \<Rightarrow> json
    \<Rightarrow> bool" where
  "parsed_ata_creation L sponsor asset owner ix \<longleftrightarrow>
     parsed_program_id ix = Some ASSOCIATED_TOKEN_PROGRAM
     \<and> (\<exists>mint program info ata payer. asset = Some (mint, program)
          \<and> parsed_info ''createIdempotent'' ix = Some info
          \<and> first_str info [''source'', ''payer''] = Some payer
          \<and> first_str info [''account'', ''associatedAccount'', ''associatedTokenAddress''] = Some ata
          \<and> first_str info [''wallet'', ''owner''] = Some owner \<and> first_str info [''mint''] = Some mint
          \<and> verify_ata_owner L ata owner mint program
          \<and> (sponsor = None \<or> sponsor = Some payer))"

section \<open>Lemmas: the loops\<close>

lemma find_sol_transfer_sound:
  "find_sol_transfer_in to amount sponsor matched ixs = Inr i \<Longrightarrow>
     i \<notin> set matched \<and> (\<exists>ix. (i, ix) \<in> set ixs \<and> parsed_leg_paid L sponsor None (to, amount) ix)"
proof (induction ixs)
  case (Cons p ixs)
  obtain index ix where p: "p = (index, ix)" by force
  show ?case
  proof (cases "find_sol_transfer_in to amount sponsor matched ixs = Inr i")
    case False
    with Cons.prems p obtain info where i: "i = index" "index \<notin> set matched"
        "parsed_program_id ix = Some SYSTEM_PROGRAM" "parsed_info ''transfer'' ix = Some info"
        "unwrap_or (field_str info ''destination'') [] = to"
        "unwrap_or (Option.bind (map_of info ''lamports'') as_u64) 0 = amount"
        "sponsor \<noteq> Some (unwrap_or (field_str info ''source'') [])"
      by (auto simp: Let_def split: if_splits option.splits)
    then have "parsed_leg_paid L sponsor None (to, amount) ix"
      by (auto simp: parsed_leg_paid_def parsed_sol_payment_def)
    with i p show ?thesis by auto
  qed (use Cons.IH in auto)
qed simp

lemma find_spl_transfer_sound:
  "find_spl_transfer_in L to mint amount (Some program) sponsor matched ixs = Inr i \<Longrightarrow>
     i \<notin> set matched \<and> (\<exists>ix. (i, ix) \<in> set ixs \<and> parsed_leg_paid L sponsor (Some (mint, program)) (to, amount) ix)"
proof (induction ixs)
  case (Cons p ixs)
  obtain index ix where p: "p = (index, ix)" by force
  show ?case
  proof (cases "find_spl_transfer_in L to mint amount (Some program) sponsor matched ixs = Inr i")
    case False
    let ?str = "\<lambda>info k. unwrap_or (field_str info k) []"
    from False Cons.prems p obtain info where i: "i = index" "index \<notin> set matched"
        "unwrap_or (json_str ix ''programId'') [] = program" "program = TOKEN_PROGRAM \<or> program = TOKEN_2022_PROGRAM"
        "parsed_info ''transferChecked'' ix = Some info" "?str info ''mint'' = mint"
        "unwrap_or (Option.bind (field_obj info ''tokenAmount'')
          (\<lambda>t. Option.bind (field_str t ''amount'') parse_u64)) 0 = amount"
        "verify_ata_owner L (?str info ''destination'') to mint program"
        "sponsor \<noteq> Some (?str info ''authority'')"
        "\<forall>q. sponsor = Some q \<longrightarrow> fee_payer_account L q mint program \<noteq> Some (?str info ''source'')"
      by (auto simp: Let_def split: if_splits option.splits)
    then have "json_str ix ''programId'' = Some program"
      by (cases "json_str ix ''programId''") (auto simp: program_defs)
    with i have "parsed_token_payment ix program (?str info ''source'') mint (?str info ''destination'')
        (?str info ''authority'') amount" by (auto simp: parsed_token_payment_def)
    with i have "parsed_leg_paid L sponsor (Some (mint, program)) (to, amount) ix"
      by (auto simp: parsed_leg_paid_def)
    with i p show ?thesis by auto
  qed (use Cons.IH in auto)
qed simp

definition named_leg :: "charge_split \<Rightarrow> string \<times> u64 \<Rightarrow> bool" where
  "named_leg s leg \<longleftrightarrow> fst leg = sp_recipient s \<and> parse_u64 (sp_amount s) = Some (snd leg)"

lemma find_split_transfers_sound:
  assumes "pays_one find_one paid" "find_split_transfers find_one what splits matched = Inr matched'" "distinct matched"
  shows "\<exists>legs idx. list_all2 named_leg splits legs \<and> matched' = matched @ idx
    \<and> distinct matched' \<and> list_all2 paid legs idx"
  using assms(2,3)
proof (induction splits arbitrary: matched)
  case Nil
  then show ?case by simp
next
  case (Cons s splits)
  then obtain amt m where s: "parse_u64 (sp_amount s) = Some amt" "find_one (sp_recipient s) amt matched = Inr m"
      "find_split_transfers find_one what splits m = Inr matched'"
    by (auto simp: try_bind_Inr_iff)
  from assms(1) s(2) obtain i where i: "m = matched @ [i]" "i \<notin> set matched" "paid (sp_recipient s, amt) i"
    unfolding pays_one_def by blast
  with Cons.IH [OF s(3)] Cons.prems(2) obtain legs idx where "list_all2 named_leg splits legs"
      "matched' = m @ idx" "distinct matched'" "list_all2 paid legs idx" by auto
  moreover have "named_leg s (sp_recipient s, amt)" using s by (simp add: named_leg_def)
  ultimately show ?case using i
    by (intro exI [of _ "(sp_recipient s, amt) # legs"] exI [of _ "i # idx"]) simp
qed

lemma find_parsed_memo_sound:
  "find_parsed_memo wanted matched ixs = Some i \<Longrightarrow> i \<notin> set matched \<and> (\<exists>ix. (i, ix) \<in> set ixs
     \<and> parsed_program_id ix = Some MEMO_PROGRAM \<and> parsed_memo_text ix = Some wanted)"
proof (induction ixs)
  case (Cons p ixs)
  then show ?case
    by (cases p; cases "find_parsed_memo wanted matched ixs = Some i") (auto split: if_splits)
qed simp

lemma verify_parsed_memos_sound:
  assumes "verify_parsed_memos ixs memos matched = Inr matched'" "distinct matched"
  shows "\<exists>idx. matched' = matched @ idx \<and> distinct matched'
    \<and> list_all (\<lambda>i. i < length ixs \<and> parsed_memo (map snd memos) (ixs ! i)) idx"
  using assms
proof (induction memos arbitrary: matched)
  case Nil
  then show ?case by simp
next
  case (Cons m memos)
  obtain label wanted where m: "m = (label, wanted)" by force
  with Cons.prems obtain i where i: "find_parsed_memo wanted matched (enumerate 0 ixs) = Some i"
      "verify_parsed_memos ixs memos (matched @ [i]) = Inr matched'"
    by (auto split: if_splits option.splits)
  from find_parsed_memo_sound [OF i(1)]
  have fresh: "i \<notin> set matched" and here: "i < length ixs \<and> parsed_memo (map snd (m # memos)) (ixs ! i)"
    by (auto simp: in_enumerate parsed_memo_def m)
  from Cons.IH [OF i(2)] fresh Cons.prems(2) obtain idx where "matched' = matched @ i # idx" "distinct matched'"
      "list_all (\<lambda>i. i < length ixs \<and> parsed_memo (map snd memos) (ixs ! i)) idx" by auto
  moreover have "parsed_memo (map snd memos) ix \<Longrightarrow> parsed_memo (map snd (m # memos)) ix" for ix
    by (auto simp: parsed_memo_def)
  ultimately show ?case using here by (intro exI [of _ "i # idx"]) (auto simp: list_all_iff)
qed

lemma parsed_ata_creation_sound:
  assumes "validate_parsed_ata_creation_instruction L ix (map_option fst asset) allowed (map_option snd asset)
      sponsor = Inr owner"
    and "parsed_program_id ix = Some ASSOCIATED_TOKEN_PROGRAM"
  shows "owner \<in> set allowed \<and> parsed_ata_creation L sponsor asset owner ix"
proof -
  from assms(1) obtain mint program where asset: "asset = Some (mint, program)"
    by (cases asset) (auto simp: validate_parsed_ata_creation_instruction_def)
  with assms show ?thesis
    by (auto simp: validate_parsed_ata_creation_instruction_def parsed_ata_creation_def parsed_info_def
        try_bind_Inr_iff split: if_splits)
qed

lemma parsed_allowlist_loop_sound:
  assumes "parsed_allowlist_loop L matched (map_option fst asset) allowed (map_option snd asset) sponsor
      created ixs = Inr created'"
  shows "\<forall>(i, ix) \<in> set ixs. i \<in> set matched \<or> parsed_program_id ix = Some COMPUTE_BUDGET_PROGRAM
    \<or> (\<exists>owner \<in> set allowed. parsed_ata_creation L sponsor asset owner ix)"
  using assms
proof (induction ixs arbitrary: created)
  case (Cons p ixs)
  obtain index ix where p: "p = (index, ix)" by force
  let ?rest = "\<lambda>created. parsed_allowlist_loop L matched (map_option fst asset) allowed (map_option snd asset)
      sponsor created ixs = Inr created'"
  consider (budget) "parsed_program_id ix = Some COMPUTE_BUDGET_PROGRAM" "?rest created"
    | (matched) "index \<in> set matched" "?rest created"
    | (ata) owner where "owner \<in> set allowed" "parsed_ata_creation L sponsor asset owner ix" "?rest (created @ [owner])"
    using Cons.prems parsed_ata_creation_sound [of L ix asset allowed sponsor]
    by (auto simp: p try_bind_Inr_iff Let_def split: if_splits)
  then show ?case using Cons.IH by cases (auto simp: p)
qed simp

lemma sol_find_pays_one:
  "pays_one (\<lambda>to amount. find_sol_transfer ixs to amount sponsor)
     (\<lambda>leg i. i < length ixs \<and> parsed_leg_paid L sponsor None leg (ixs ! i))"
  unfolding pays_one_def
proof (intro allI impI)
  fix to amount matched matched'
  assume "find_sol_transfer ixs to amount sponsor matched = Inr matched'"
  then obtain i where "matched' = matched @ [i]" "find_sol_transfer_in to amount sponsor matched (enumerate 0 ixs) = Inr i"
    by (auto simp: find_sol_transfer_def try_bind_Inr_iff)
  with find_sol_transfer_sound [OF this(2), of L]
  show "\<exists>i. matched' = matched @ [i] \<and> i \<notin> set matched
      \<and> i < length ixs \<and> parsed_leg_paid L sponsor None (to, amount) (ixs ! i)"
    by (auto simp: in_enumerate)
qed

lemma spl_find_pays_one:
  "pays_one (\<lambda>to amount. find_spl_transfer L ixs to mint amount (Some program) sponsor)
     (\<lambda>leg i. i < length ixs \<and> parsed_leg_paid L sponsor (Some (mint, program)) leg (ixs ! i))"
  unfolding pays_one_def
proof (intro allI impI)
  fix to amount matched matched'
  assume "find_spl_transfer L ixs to mint amount (Some program) sponsor matched = Inr matched'"
  then obtain i where "matched' = matched @ [i]"
      "find_spl_transfer_in L to mint amount (Some program) sponsor matched (enumerate 0 ixs) = Inr i"
    by (auto simp: find_spl_transfer_def try_bind_Inr_iff)
  with find_spl_transfer_sound [OF this(2)]
  show "\<exists>i. matched' = matched @ [i] \<and> i \<notin> set matched
      \<and> i < length ixs \<and> parsed_leg_paid L sponsor (Some (mint, program)) (to, amount) (ixs ! i)"
    by (auto simp: in_enumerate)
qed

text \<open>Either branch of the check: the legs, the memos, and the rest of the instructions.\<close>

lemma parsed_charge_sound:
  assumes "pays_one find_one (\<lambda>leg i. i < length ixs \<and> parsed_leg_paid L sponsor asset leg (ixs ! i))"
    "try_bind (find_one to primary []) (find_split_transfers find_one what splits) = Inr m2"
    "verify_parsed_memo_instructions ixs external_id splits m2 = Inr m3"
    "validate_parsed_instruction_allowlist L ixs m3 (map_option fst asset) allowed (map_option snd asset) sponsor
      required = Inr ()"
  shows "\<exists>rest. list_all2 named_leg splits rest \<and> distinct m2
    \<and> list_all2 (\<lambda>leg i. i < length ixs \<and> parsed_leg_paid L sponsor asset leg (ixs ! i)) ((to, primary) # rest) m2
    \<and> (\<forall>i < length ixs. i \<in> set m2 \<or> parsed_memo (map snd (expected_memos external_id splits)) (ixs ! i)
         \<or> parsed_program_id (ixs ! i) = Some COMPUTE_BUDGET_PROGRAM
         \<or> (\<exists>owner \<in> set allowed. parsed_ata_creation L sponsor asset owner (ixs ! i)))"
proof -
  let ?paid = "\<lambda>leg i. i < length ixs \<and> parsed_leg_paid L sponsor asset leg (ixs ! i)"
  from assms(2) obtain m1 where m1: "find_one to primary [] = Inr m1"
      "find_split_transfers find_one what splits m1 = Inr m2" by (auto simp: try_bind_Inr_iff)
  from assms(1) m1(1) obtain i where i: "m1 = [i]" "?paid (to, primary) i" unfolding pays_one_def by fastforce
  with find_split_transfers_sound [OF assms(1) m1(2)] obtain rest idx where rest:
      "list_all2 named_leg splits rest" "m2 = i # idx" "distinct m2" "list_all2 ?paid rest idx" by auto
  from verify_parsed_memos_sound [OF assms(3) [unfolded verify_parsed_memo_instructions_def] rest(3)]
  obtain memos where memos: "m3 = m2 @ memos" "list_all (\<lambda>i. i < length ixs
      \<and> parsed_memo (map snd (expected_memos external_id splits)) (ixs ! i)) memos" by auto
  from assms(4) obtain created where "parsed_allowlist_loop L m3 (map_option fst asset) allowed
      (map_option snd asset) sponsor [] (enumerate 0 ixs) = Inr created"
    by (auto simp: validate_parsed_instruction_allowlist_def try_bind_Inr_iff)
  from parsed_allowlist_loop_sound [OF this] have others: "i \<in> set m3
      \<or> parsed_program_id (ixs ! i) = Some COMPUTE_BUDGET_PROGRAM
      \<or> (\<exists>owner \<in> set allowed. parsed_ata_creation L sponsor asset owner (ixs ! i))" if "i < length ixs" for i
    using that in_enumerate [of i "ixs ! i" ixs] by fast
  have "\<forall>i < length ixs. i \<in> set m2 \<or> parsed_memo (map snd (expected_memos external_id splits)) (ixs ! i)
         \<or> parsed_program_id (ixs ! i) = Some COMPUTE_BUDGET_PROGRAM
         \<or> (\<exists>owner \<in> set allowed. parsed_ata_creation L sponsor asset owner (ixs ! i))"
    using others memos by (auto simp: list_all_iff)
  with rest i show ?thesis by (intro exI [of _ rest]) simp
qed

definition push_asset :: "keylib \<Rightarrow> string option \<Rightarrow> charge_request \<Rightarrow> method_details
    \<Rightarrow> (string \<times> string) option \<Rightarrow> bool" where
  "push_asset L server_token_program request details asset \<longleftrightarrow>
     (if to_uppercase (cr_currency request) = ''SOL'' then asset = None
      else (\<exists>mint program. resolve_expected_mint L (cr_currency request) (md_network details) = Inr mint
        \<and> (case md_token_program details of Some p \<Rightarrow> Some p | None \<Rightarrow> server_token_program) = Some program
        \<and> asset = Some (mint, program)))"

lemma parsed_branch_sound:
  assumes "(if to_uppercase (cr_currency request) = ''SOL''
      then verify_parsed_native L ixs request splits to primary sponsor policy
      else verify_parsed_token L server_token_program ixs request details splits to primary sponsor policy) = Inr ()"
  shows "\<exists>asset rest idx. push_asset L server_token_program request details asset
    \<and> list_all2 named_leg splits rest \<and> distinct idx
    \<and> list_all2 (\<lambda>leg i. i < length ixs \<and> parsed_leg_paid L sponsor asset leg (ixs ! i)) ((to, primary) # rest) idx
    \<and> (\<forall>i < length ixs. i \<in> set idx \<or> parsed_memo (map snd (expected_memos (cr_external_id request) splits)) (ixs ! i)
         \<or> parsed_program_id (ixs ! i) = Some COMPUTE_BUDGET_PROGRAM
         \<or> (\<exists>owner \<in> set (acp_allowed_owners policy). parsed_ata_creation L sponsor asset owner (ixs ! i)))"
proof (cases "to_uppercase (cr_currency request) = ''SOL''")
  case True
  with assms obtain m2 m3 where *: "verify_sol_transfers ixs to primary splits sponsor = Inr m2"
      "verify_parsed_memo_instructions ixs (cr_external_id request) splits m2 = Inr m3"
      "validate_parsed_instruction_allowlist L ixs m3 (map_option fst (None :: (string \<times> string) option))
        (acp_allowed_owners policy) (map_option snd (None :: (string \<times> string) option)) sponsor
        (acp_required_owners policy) = Inr ()"
    by (auto simp: verify_parsed_native_def try_bind_Inr_iff split: if_splits)
  from parsed_charge_sound [OF sol_find_pays_one _ *(2,3)] *(1) True show ?thesis
    by (fastforce simp: verify_sol_transfers_def push_asset_def)
next
  case False
  with assms obtain mint program m2 m3 where *:
      "resolve_expected_mint L (cr_currency request) (md_network details) = Inr mint"
      "(case md_token_program details of Some p \<Rightarrow> Some p | None \<Rightarrow> server_token_program) = Some program"
      "verify_spl_transfers L ixs to mint primary splits (Some program) sponsor = Inr m2"
      "verify_parsed_memo_instructions ixs (cr_external_id request) splits m2 = Inr m3"
      "validate_parsed_instruction_allowlist L ixs m3 (map_option fst (Some (mint, program)))
        (acp_allowed_owners policy) (map_option snd (Some (mint, program))) sponsor (acp_required_owners policy) = Inr ()"
    by (auto simp: verify_parsed_token_def try_bind_Inr_iff split: if_splits)
  have "push_asset L server_token_program request details (Some (mint, program))"
    using False *(1,2) by (simp add: push_asset_def)
  with parsed_charge_sound [OF spl_find_pays_one _ *(4,5)] *(3) show ?thesis
    by (fastforce simp: verify_spl_transfers_def)
qed

text \<open>The two conditions of the check that are not plain results.\<close>

lemma not_failed_iff:
  "(case m of None \<Rightarrow> Inr () | Some (None, meta) \<Rightarrow> Inr () | Some (Some err, meta) \<Rightarrow> Inl (f err)) = Inr u
     \<longleftrightarrow> (\<forall>err meta. m \<noteq> Some (Some err, meta))"
  by (auto split: option.splits)

lemma payer_key_iff:
  "(case k of None \<Rightarrow> Inr None | Some key \<Rightarrow> map_sum id Some (map_err f (g key))) = Inr p
     \<longleftrightarrow> (case k of None \<Rightarrow> p = None | Some key \<Rightarrow> \<exists>pk. g key = Inr pk \<and> p = Some pk)"
  by (cases "k"; cases "g (the k)") auto

section \<open>Lemmas: what the RPC reports\<close>

text \<open>
  The instructions of the message, and, one list per group of the metadata's \<open>innerInstructions\<close>,
  those that programs invoked.
\<close>

definition reported_outer :: "confirmed_transaction \<Rightarrow> json list" where
  "reported_outer tx =
     (case ct_transaction tx of
        Inr (JObject members) \<Rightarrow>
          (case map_of members ''message'' of
             Some (JObject message) \<Rightarrow>
               (case map_of message ''instructions'' of Some (JArray ixs) \<Rightarrow> ixs | _ \<Rightarrow> [])
           | _ \<Rightarrow> [])
      | _ \<Rightarrow> [])"

definition reported_inner :: "confirmed_transaction \<Rightarrow> json list list" where
  "reported_inner tx =
     (case ct_meta tx of
        Some (err, Inr (JObject members)) \<Rightarrow>
          (case map_of members ''innerInstructions'' of
             Some (JArray groups) \<Rightarrow> map (\<lambda>group. case group of
                 JObject members \<Rightarrow> (case map_of members ''instructions'' of Some (JArray ixs) \<Rightarrow> ixs | _ \<Rightarrow> [])
               | _ \<Rightarrow> []) groups
           | _ \<Rightarrow> [])
      | _ \<Rightarrow> [])"

lemma json_array_cases:
  "unwrap_or (json_array v k) [] = (case v of
     JObject members \<Rightarrow> (case map_of members k of Some (JArray ixs) \<Rightarrow> ixs | _ \<Rightarrow> [])
   | _ \<Rightarrow> [])"
  by (auto simp: json_array_def split: json.split option.split)

lemma extracted_instructions:
  assumes "extract_parsed_instructions tx = Inr ixs"
  shows "ixs = reported_outer tx @ concat (reported_inner tx)"
proof -
  have outer: "unwrap_or (Option.bind (json_get v ''message'') (\<lambda>m. json_array m ''instructions'')) [] = reported_outer tx"
    if "ct_transaction tx = Inr v" for v
    using that by (auto simp: reported_outer_def json_array_def split: json.split option.split)
  have inner: "map (\<lambda>group. unwrap_or (json_array group ''instructions'') []) (unwrap_or (json_array v ''innerInstructions'') [])
      = reported_inner tx" if "ct_meta tx = Some (err, Inr v)" for err v
    using that unfolding json_array_cases by (simp add: reported_inner_def split: json.split option.split)
  show ?thesis
  proof (cases "ct_meta tx")
    case None
    with assms outer show ?thesis
      by (auto simp: extract_parsed_instructions_def reported_inner_def try_bind_Inr_iff map_err_Inr_iff)
  next
    case (Some reported)
    then obtain err meta where "ct_meta tx = Some (err, meta)" by (cases reported) auto
    with assms outer inner show ?thesis
      by (auto simp: extract_parsed_instructions_def Let_def try_bind_Inr_iff map_err_Inr_iff)
  qed
qed

section \<open>Properties\<close>

text \<open>
  C29.  A payment that was made beforehand is accepted only if the chain reports it without an error,
  it is of an accepted version and at most a day old, and it pays the charge exactly.  The
  instructions looked at are all those of its message followed by all those that its metadata
  reports as invoked by programs: one transfer per leg among them,
  each the leg's amount of the charged asset to the leg's recipient, adding up to the charge
  and none of it out of a sponsor's funds, and every other one is a memo the charge asks for, a compute
  budget request, or the creation of the token account of a split's recipient.  (A report without
  metadata counts as one without an error and without invoked instructions.)
\<close>

theorem push_pays_exactly:
  assumes "verify_on_chain L accepted server_token_program signature_from_str get_transaction now signature
      request details = Inr ()"
    and "splits = unwrap_or (md_splits details) []"
    and "sponsor = (if unwrap_or (md_fee_payer details) False then md_fee_payer_key details else None)"
  shows "\<exists>tx ixs asset legs idx total recipient primary t.
     get_transaction signature = Inr tx \<and> ixs = reported_outer tx @ concat (reported_inner tx)
     \<and> (\<forall>err meta. ct_meta tx \<noteq> Some (Some err, meta))
     \<and> (\<exists>v. check_reported_version_without_legacy (ct_version tx) accepted = Inr v)
     \<and> ct_block_time tx = Some t \<and> (in_i64 (now - t) \<longrightarrow> now - t \<le> 86400)
     \<and> cr_recipient request = Some recipient \<and> push_asset L server_token_program request details asset
     \<and> list_all2 named_leg splits (tl legs) \<and> hd legs = (recipient, primary) \<and> 0 < primary
     \<and> parse_u64 (cr_amount request) = Some total \<and> sum_list (map (unat \<circ> snd) legs) = unat total
     \<and> distinct idx
     \<and> list_all2 (\<lambda>leg i. i < length ixs \<and> parsed_leg_paid L sponsor asset leg (ixs ! i)) legs idx
     \<and> (\<forall>i < length ixs. i \<in> set idx
          \<or> parsed_memo (map snd (expected_memos (cr_external_id request) splits)) (ixs ! i)
          \<or> parsed_program_id (ixs ! i) = Some COMPUTE_BUDGET_PROGRAM
          \<or> (\<exists>s \<in> set splits. \<exists>owner. key_from_str L (sp_recipient s) = Inr owner
               \<and> (sponsor \<noteq> None \<longrightarrow> sp_ata_creation_required s = Some True)
               \<and> parsed_ata_creation L sponsor asset owner (ixs ! i)))"
proof -
  from assms(1) obtain tx v primary recipient ixs payer_pk policy where *:
      "get_transaction signature = Inr tx" "check_reported_version_without_legacy (ct_version tx) accepted = Inr v"
      "\<forall>err meta. ct_meta tx \<noteq> Some (Some err, meta)"
      "confirmed_within_replay_retention (ct_block_time tx) now = Inr ()"
      "primary_amount request splits = Inr primary" "cr_recipient request = Some recipient"
      "extract_parsed_instructions tx = Inr ixs" "sponsor \<noteq> None \<longrightarrow> payer_pk \<noteq> None"
      "expected_ata_creation_policy L splits payer_pk = Inr policy"
    and branch: "(if to_uppercase (cr_currency request) = ''SOL''
      then verify_parsed_native L ixs request splits recipient primary sponsor policy
      else verify_parsed_token L server_token_program ixs request details splits recipient primary sponsor policy) = Inr ()"
    unfolding verify_on_chain_def Let_def assms(2) [symmetric] assms(3) [symmetric]
    by (simp only: try_bind_Inr_iff not_failed_iff payer_key_iff ok_or_Inr_iff core_result_Inr map_err_Inr_iff)
      (elim exE conjE, cases sponsor, auto, blast)
  obtain t where t: "ct_block_time tx = Some t" "in_i64 (now - t) \<longrightarrow> now - t \<le> 86400"
    using *(4)
    by (auto simp: confirmed_within_replay_retention_def try_bind_Inr_iff Let_def in_i64_def
        DEFAULT_CHARGE_RECORD_RETENTION_def not_less i64_min_def min_def split: if_split_asm)
  from parsed_branch_sound [OF branch] obtain asset rest idx where legs:
      "push_asset L server_token_program request details asset" "list_all2 named_leg splits rest" "distinct idx"
      "list_all2 (\<lambda>leg i. i < length ixs \<and> parsed_leg_paid L sponsor asset leg (ixs ! i)) ((recipient, primary) # rest) idx"
    and others: "\<forall>i < length ixs. i \<in> set idx
         \<or> parsed_memo (map snd (expected_memos (cr_external_id request) splits)) (ixs ! i)
         \<or> parsed_program_id (ixs ! i) = Some COMPUTE_BUDGET_PROGRAM
         \<or> (\<exists>owner \<in> set (acp_allowed_owners policy). parsed_ata_creation L sponsor asset owner (ixs ! i))"
    by blast
  have "list_all2 (\<lambda>s leg. parse_u64 (sp_amount s) = Some (snd leg)) splits rest"
    using legs(2) by (rule list_all2_mono) (simp add: named_leg_def)
  from legs_total [OF *(5) this] obtain total where total: "0 < primary" "parse_u64 (cr_amount request) = Some total"
    "sum_list (map (unat \<circ> snd) ((recipient, primary) # rest)) = unat total" by auto
  have "\<forall>i < length ixs. i \<in> set idx
          \<or> parsed_memo (map snd (expected_memos (cr_external_id request) splits)) (ixs ! i)
          \<or> parsed_program_id (ixs ! i) = Some COMPUTE_BUDGET_PROGRAM
          \<or> (\<exists>s \<in> set splits. \<exists>owner. key_from_str L (sp_recipient s) = Inr owner
               \<and> (sponsor \<noteq> None \<longrightarrow> sp_ata_creation_required s = Some True)
               \<and> parsed_ata_creation L sponsor asset owner (ixs ! i))"
    using others *(8) ata_policy_sound(1) [OF *(9)] by fast
  with *(1-3,6) extracted_instructions [OF *(7)] t total legs show ?thesis
    by (intro exI [of _ tx] exI [of _ ixs] exI [of _ asset] exI [of _ "(recipient, primary) # rest"] exI [of _ idx]
        exI [of _ total] exI [of _ recipient] exI [of _ primary] exI [of _ t] conjI) simp_all
qed

text \<open>A payment of the sample charge: two transfers and the memo, which a program invoked, confirmed a minute ago.\<close>

definition parsed_transfer :: "string \<Rightarrow> string \<Rightarrow> int \<Rightarrow> json" where
  "parsed_transfer src dst lamports = JObject
     [(''program'', JString ''system''),
      (''parsed'', JObject [(''type'', JString ''transfer''),
         (''info'', JObject [(''source'', JString src), (''destination'', JString dst), (''lamports'', JNumber lamports)])])]"

definition sample_instructions :: "json list" where
  "sample_instructions =
     [parsed_transfer ''payer'' ''tax'' 30, parsed_transfer ''payer'' ''shop'' 70,
      JObject [(''program'', JString ''spl-memo''), (''parsed'', JString ''vat'')]]"

definition sample_confirmed :: confirmed_transaction where
  "sample_confirmed = \<lparr>ct_version = Some (Number 0),
     ct_transaction = Inr (JObject [(''message'', JObject [(''instructions'', JArray (take 2 sample_instructions))])]),
     ct_meta = Some (None, Inr (JObject [(''innerInstructions'',
       JArray [JObject [(''instructions'', JArray (drop 2 sample_instructions))]])])),
     ct_block_time = Some 940\<rparr>"

lemmas sample_json = sample_instructions_def parsed_transfer_def parsed_info_def parsed_program_id_def json_str_def
  json_obj_def field_str_def field_obj_def parsed_memo_text_def

lemma sample_extracted: "extract_parsed_instructions sample_confirmed = Inr sample_instructions"
  by (simp add: sample_confirmed_def extract_parsed_instructions_def json_array_def)

lemma sample_sol_transfers:
  "verify_sol_transfers sample_instructions ''shop'' 70 (unwrap_or (md_splits sample_details) []) (Some ''sponsor'')
     = Inr [1, 0]"
  by (simp add: verify_sol_transfers_def find_sol_transfer_def sample_json sample_details_def parse_u64_def
      strip_plus_def is_ascii_digit_def digits_value_def digit_value_def)

lemma sample_parsed_memo:
  "verify_parsed_memo_instructions sample_instructions None (unwrap_or (md_splits sample_details) []) [1, 0]
     = Inr [1, 0, 2]"
  by (simp add: verify_parsed_memo_instructions_def expected_memos_def sample_json sample_details_def
      MAX_MEMO_BYTES_def as_bytes_def)

lemma sample_parsed_allowlist:
  "validate_parsed_instruction_allowlist toy_keys sample_instructions [1, 0, 2] None allowed None payer [] = Inr ()"
  by (simp add: validate_parsed_instruction_allowlist_def sample_json sample_programs)

lemma sample_native: "to_uppercase (cr_currency sample_request) = ''SOL''"
  by code_simp

lemma sample_confirmed_accepted:
  "verify_on_chain toy_keys [V0] None (\<lambda>_. Inr ()) (\<lambda>_. Inr sample_confirmed) 1000 ''sig'' sample_request
     sample_details = Inr ()"
proof -
  let ?splits = "unwrap_or (md_splits sample_details) []"
  have "verify_parsed_native toy_keys sample_instructions sample_request ?splits ''shop'' 70 (Some ''sponsor'')
      \<lparr>acp_allowed_owners = [], acp_required_owners = []\<rparr> = Inr ()"
    using sample_sol_transfers sample_parsed_memo sample_parsed_allowlist [of "[]"]
    by (simp add: verify_parsed_native_def sample_request_def sample_details_def)
  moreover have "confirmed_within_replay_retention (ct_block_time sample_confirmed) 1000 = Inr ()"
    by (simp add: sample_confirmed_def confirmed_within_replay_retention_def DEFAULT_CHARGE_RECORD_RETENTION_def
        i64_min_def i64_max_def)
  moreover have "check_reported_version_without_legacy (ct_version sample_confirmed) [V0] = Inr V0"
    by (simp add: sample_confirmed_def check_reported_version_without_legacy_def check_reported_version_def
        try_from_u8_def)
  moreover obtain meta where "ct_meta sample_confirmed = Some (None, meta)" by (simp add: sample_confirmed_def)
  moreover have "cr_recipient sample_request = Some ''shop''" by (simp add: sample_request_def)
  moreover have "md_fee_payer sample_details = Some True" "md_fee_payer_key sample_details = Some ''sponsor''"
    by (simp_all add: sample_details_def)
  moreover have "key_from_str toy_keys ''sponsor'' = Inr ''sponsor''" "key_from_str toy_keys ''shop'' = Inr ''shop''"
    by (simp_all add: toy_keys_def)
  ultimately show ?thesis
    using sample_native sample_primary sample_extracted sample_policy
    by (simp add: verify_on_chain_def core_result_def)
qed

theorem push_pays_exactly_witness:
  "\<exists>ixs legs (idx :: nat list). ixs = sample_instructions
     \<and> sum_list (map (unat \<circ> snd) legs) = 100 \<and> distinct idx
     \<and> list_all2 (\<lambda>leg i. i < length ixs \<and> parsed_leg_paid toy_keys (Some ''sponsor'') None leg (ixs ! i)) legs idx"
proof -
  have hundred: "parse_u64 (cr_amount sample_request) = Some 100"
    by (simp add: sample_request_def parse_u64_def strip_plus_def is_ascii_digit_def digits_value_def digit_value_def)
  have asset: "push_asset toy_keys None sample_request sample_details a \<Longrightarrow> a = None" for a
    using sample_native by (simp add: push_asset_def)
  have sponsor: "(if unwrap_or (md_fee_payer sample_details) False then md_fee_payer_key sample_details else None)
      = Some ''sponsor''" by (simp add: sample_details_def)
  show ?thesis
    using push_pays_exactly [OF sample_confirmed_accepted refl sponsor [symmetric]]
  proof (elim exE conjE)
    fix tx ixs a legs idx total
    assume "Inr sample_confirmed = (Inr tx :: string + confirmed_transaction)" "ixs = reported_outer tx @ concat (reported_inner tx)"
      "push_asset toy_keys None sample_request sample_details a" "distinct idx"
      "parse_u64 (cr_amount sample_request) = Some total" "sum_list (map (unat \<circ> snd) legs) = unat total"
      "list_all2 (\<lambda>leg i. i < length ixs \<and> parsed_leg_paid toy_keys (Some ''sponsor'') a leg (ixs ! i)) legs idx"
    then show ?thesis
      using hundred asset [of a] extracted_instructions [OF sample_extracted] by (intro exI [of _ ixs] exI [of _ legs] exI [of _ idx] conjI) simp_all
  qed
qed

end
