(* ===== verification/Settlement.thy ===== *)
theory Settlement
  imports Tx_Policy "HOL-Library.Multiset"
begin

text \<open>
  Batched settlement: \<open>core/signing.rs\<close>, \<open>core/settlement/packing.rs\<close> and
  \<open>core/settlement/worker.rs\<close>.

  The actor loop of \<open>spawn\<close> is a step relation: a unit arrives, the linger timer fires (only
  when it is armed), or every handle is gone.  The transaction side of a flush runs on a
  \<open>world\<close>: the answers of the broadcaster and the signer come from an arbitrary environment
  state, and a log records the transactions the network took, each with the signature it answered, and what
  the confirmation polls answered.  Sleeping,
  tracing and the in-flight semaphore, which change no answer, are left out.
\<close>

section \<open>Signing\<close>

text \<open>\<open>'e\<close> is the state behind the signer and the broadcaster.\<close>

record 'e tx_signer =
  signer_pubkey :: pubkey
  sign_transaction :: "versioned_transaction \<Rightarrow> 'e \<Rightarrow> (string + versioned_transaction) \<times> 'e"

fun key_position :: "'a \<Rightarrow> 'a list \<Rightarrow> nat option" where
  "key_position x [] = None"
| "key_position x (y # ys) = (if x = y then Some 0 else map_option Suc (key_position x ys))"

definition sign_versioned_transaction_slot :: "'e tx_signer \<Rightarrow> versioned_transaction \<Rightarrow> 'e
    \<Rightarrow> (core_error + versioned_transaction) \<times> 'e" where
  "sign_versioned_transaction_slot signer tx e =
     (let required = num_required_signatures (vt_message tx) in
      case key_position (signer_pubkey signer) (static_account_keys (vt_message tx)) of
        None \<Rightarrow> (Inl (Other ''signer not found in transaction accounts''), e)
      | Some signer_index \<Rightarrow>
          if signer_index \<ge> required
          then (Inl (Other ''signer is not a required transaction signer''), e)
          else if length (vt_signatures tx) \<noteq> required
          then (Inl (Other (''transaction has '' @ show_nat (length (vt_signatures tx))
                 @ '' signature slots but requires '' @ show_nat required)), e)
          else (case sign_transaction signer tx e of
                  (Inl err, e') \<Rightarrow> (Inl (Other (''transaction signing failed: '' @ err)), e')
                | (Inr tx', e') \<Rightarrow> (Inr tx', e')))"

definition cosign_versioned_fee_payer :: "'e tx_signer \<Rightarrow> pubkey \<Rightarrow> versioned_transaction \<Rightarrow> 'e
    \<Rightarrow> (core_error + versioned_transaction) \<times> 'e" where
  "cosign_versioned_fee_payer signer expected_fee_payer tx e =
     (if signer_pubkey signer \<noteq> expected_fee_payer
      then (Inl (Other ''fee payer signer does not match the expected fee payer''), e)
      else if static_account_keys (vt_message tx) = []
        \<or> hd (static_account_keys (vt_message tx)) \<noteq> expected_fee_payer
      then (Inl (Other ''transaction fee payer does not match the expected fee payer''), e)
      else sign_versioned_transaction_slot signer tx e)"

section \<open>Packing\<close>

record channel_instruction_group =
  cg_channel_id :: string
  cg_instructions :: "instruction list"

definition tx_size :: "'hash sdk \<Rightarrow> tx_version \<Rightarrow> instruction list \<Rightarrow> pubkey
    \<Rightarrow> compute_budget option \<Rightarrow> core_error + nat" where
  "tx_size L version instructions payer budget = measure_tx L version payer instructions budget"

definition fits_tx :: "'hash sdk \<Rightarrow> tx_version \<Rightarrow> instruction list \<Rightarrow> pubkey
    \<Rightarrow> compute_budget option \<Rightarrow> bool" where
  "fits_tx L version instructions payer budget \<longleftrightarrow>
     (case try_bind (build_unsigned_unchecked L version payer instructions (default_hash L) budget)
             (\<lambda>tx. check_limits L tx version) of Inr _ \<Rightarrow> True | Inl _ \<Rightarrow> False)"

definition would_overflow_tx :: "'hash sdk \<Rightarrow> tx_version \<Rightarrow> instruction list \<Rightarrow> nat \<Rightarrow> instruction list
    \<Rightarrow> pubkey \<Rightarrow> compute_budget option \<Rightarrow> nat \<Rightarrow> bool" where
  "would_overflow_tx L version cur cur_group_count next_group payer budget max_groups_per_tx =
     (if cur_group_count \<ge> max max_groups_per_tx 1 then True
      else \<not> fits_tx L version (cur @ next_group) payer budget)"

text \<open>
  The loop shared by \<open>pack\<close> and the worker's \<open>regroup\<close>: \<open>cur\<close> is the batch being filled and
  \<open>overflow cur n next\<close> the boundary rule.
\<close>

fun pack_from :: "('a \<Rightarrow> instruction list) \<Rightarrow> (instruction list \<Rightarrow> nat \<Rightarrow> instruction list \<Rightarrow> bool)
    \<Rightarrow> 'a list \<Rightarrow> 'a list \<Rightarrow> 'a list list" where
  "pack_from instrs overflow cur [] = (if cur = [] then [] else [cur])"
| "pack_from instrs overflow cur (x # xs) =
     (if cur \<noteq> [] \<and> overflow (concat (map instrs cur)) (length cur) (instrs x)
      then cur # pack_from instrs overflow [x] xs
      else pack_from instrs overflow (cur @ [x]) xs)"

definition pack :: "'hash sdk \<Rightarrow> tx_version \<Rightarrow> channel_instruction_group list \<Rightarrow> pubkey
    \<Rightarrow> compute_budget option \<Rightarrow> nat \<Rightarrow> channel_instruction_group list list" where
  "pack L version groups payer budget max_groups_per_tx =
     pack_from cg_instructions
       (\<lambda>cur n next_group. would_overflow_tx L version cur n next_group payer budget max_groups_per_tx)
       [] groups"

section \<open>The worker\<close>

record settlement_unit =
  su_channel_id :: string
  su_instructions :: "instruction list"
  su_reply :: nat
  su_await_confirmation :: bool

record settlement_config =
  sc_operator :: pubkey
  sc_max_voucher_settlements_per_tx :: nat
  sc_linger :: nat
  sc_max_in_flight_tx :: nat
  sc_confirm_attempts :: u32
  sc_tx_version :: tx_version
  sc_compute_budget :: "compute_budget option"

definition MAX_VOUCHER_SETTLEMENTS_PER_TX :: nat where
  "MAX_VOUCHER_SETTLEMENTS_PER_TX = 4"

definition MAX_VOUCHER_SETTLEMENTS_PER_TX_V1 :: nat where
  "MAX_VOUCHER_SETTLEMENTS_PER_TX_V1 = 18"

fun max_voucher_settlements_per_tx :: "tx_version \<Rightarrow> nat" where
  "max_voucher_settlements_per_tx V0 = MAX_VOUCHER_SETTLEMENTS_PER_TX"
| "max_voucher_settlements_per_tx V1 = MAX_VOUCHER_SETTLEMENTS_PER_TX_V1"

definition settlement_config_new :: "pubkey \<Rightarrow> settlement_config" where
  "settlement_config_new operator =
     \<lparr>sc_operator = operator,
      sc_max_voucher_settlements_per_tx = max_voucher_settlements_per_tx V0,
      sc_linger = 350, sc_max_in_flight_tx = 16, sc_confirm_attempts = 10,
      sc_tx_version = V0, sc_compute_budget = None\<rparr>"

definition with_tx_version :: "tx_version \<Rightarrow> settlement_config \<Rightarrow> settlement_config" where
  "with_tx_version version cfg =
     cfg\<lparr>sc_tx_version := version,
         sc_max_voucher_settlements_per_tx := max_voucher_settlements_per_tx version\<rparr>"

definition regroup :: "'hash sdk \<Rightarrow> settlement_unit list \<Rightarrow> tx_version \<Rightarrow> pubkey
    \<Rightarrow> compute_budget option \<Rightarrow> nat \<Rightarrow> settlement_unit list list" where
  "regroup L units version payer budget max_per_tx =
     pack_from su_instructions
       (\<lambda>cur n next_group. would_overflow_tx L version cur n next_group payer budget max_per_tx) [] units"

text \<open>The state of the actor loop; \<open>None\<close> is a disarmed timer.\<close>

record worker =
  wk_pending :: "settlement_unit list"
  wk_deadline :: "nat option"
  wk_running :: bool

definition worker_start :: worker where
  "worker_start = \<lparr>wk_pending = [], wk_deadline = None, wk_running = True\<rparr>"

text \<open>
  The size trigger, \<open>while pending.len() >= max_per_tx\<close>: the full batches and what is left.
  The code clamps the bound to at least one, so the first case of the test never decides.
\<close>

function seal_full :: "nat \<Rightarrow> settlement_unit list \<Rightarrow> settlement_unit list list \<times> settlement_unit list" where
  "seal_full max_per_tx pending =
     (if max_per_tx = 0 \<or> length pending < max_per_tx then ([], pending)
      else (let (batches, rest) = seal_full max_per_tx (drop max_per_tx pending) in
        (take max_per_tx pending # batches, rest)))"
  by pat_completeness auto
termination
  by (relation "measure (\<lambda>(max_per_tx, pending). length pending)") auto

declare seal_full.simps [simp del]

datatype trigger = Size | Drain | Timer

definition worker_recv :: "settlement_config \<Rightarrow> nat \<Rightarrow> settlement_unit \<Rightarrow> worker
    \<Rightarrow> (trigger \<times> settlement_unit list) list \<times> worker" where
  "worker_recv cfg now u w =
     (let pending = wk_pending w @ [u];
          deadline = (case wk_deadline w of None \<Rightarrow> Some (now + sc_linger cfg) | Some d \<Rightarrow> Some d);
          (batches, rest) = seal_full (max (sc_max_voucher_settlements_per_tx cfg) 1) pending in
      (map (Pair Size) batches,
       w\<lparr>wk_pending := rest, wk_deadline := (if rest = [] then None else deadline)\<rparr>))"

definition worker_closed :: "worker \<Rightarrow> (trigger \<times> settlement_unit list) list \<times> worker" where
  "worker_closed w =
     (if wk_pending w \<noteq> [] then [(Drain, wk_pending w)] else [],
      w\<lparr>wk_pending := [], wk_running := False\<rparr>)"

definition worker_timer :: "worker \<Rightarrow> (trigger \<times> settlement_unit list) list \<times> worker" where
  "worker_timer w =
     (if wk_pending w \<noteq> [] then [(Timer, wk_pending w)] else [],
      w\<lparr>wk_pending := [], wk_deadline := None\<rparr>)"

text \<open>
  \<open>worker_run cfg w us flushes w'\<close>: from \<open>w\<close>, after the units \<open>us\<close> arrived in this order,
  the batches \<open>flushes\<close> were handed to \<open>spawn_flush\<close> and the loop is in \<open>w'\<close>.
\<close>

inductive worker_run :: "settlement_config \<Rightarrow> worker \<Rightarrow> settlement_unit list
    \<Rightarrow> (trigger \<times> settlement_unit list) list \<Rightarrow> worker \<Rightarrow> bool" for cfg w where
  start: "worker_run cfg w [] [] w"
| recv: "worker_run cfg w us fs w1 \<Longrightarrow> wk_running w1 \<Longrightarrow> worker_recv cfg now u w1 = (fs', w2)
    \<Longrightarrow> worker_run cfg w (us @ [u]) (fs @ fs') w2"
| timer: "worker_run cfg w us fs w1 \<Longrightarrow> wk_running w1 \<Longrightarrow> wk_deadline w1 \<noteq> None
    \<Longrightarrow> worker_timer w1 = (fs', w2) \<Longrightarrow> worker_run cfg w us (fs @ fs') w2"
| closed: "worker_run cfg w us fs w1 \<Longrightarrow> wk_running w1 \<Longrightarrow> worker_closed w1 = (fs', w2)
    \<Longrightarrow> worker_run cfg w us (fs @ fs') w2"

inductive_cases worker_runE: "worker_run cfg w us fs w'"

section \<open>One transaction\<close>

datatype confirm_outcome = Confirmed | Pending | Failed string

record ('e, 'hash) broadcaster =
  latest_blockhash :: "'e \<Rightarrow> (string + 'hash) \<times> 'e"
  send_tx :: "versioned_transaction \<Rightarrow> 'e \<Rightarrow> (string + string) \<times> 'e"
  confirm_tx :: "string \<Rightarrow> 'e \<Rightarrow> (string + confirm_outcome) \<times> 'e"

datatype log_entry = Sent versioned_transaction string | Polled string confirm_outcome

record 'e world =
  wo_env :: 'e
  wo_log :: "log_entry list"

definition call :: "('e \<Rightarrow> 'a \<times> 'e) \<Rightarrow> 'e world \<Rightarrow> 'a \<times> 'e world" where
  "call f w = (let (a, e) = f (wo_env w) in (a, w\<lparr>wo_env := e\<rparr>))"

definition logged :: "log_entry list \<Rightarrow> 'e world \<Rightarrow> 'e world" where
  "logged entries w = w\<lparr>wo_log := wo_log w @ entries\<rparr>"

fun show_core_error :: "core_error \<Rightarrow> string" where
  "show_core_error (SerializationError m) = ''serialization error: '' @ m"
| "show_core_error (Other m) = m"

definition sign_and_send :: "'hash sdk \<Rightarrow> settlement_config \<Rightarrow> 'e tx_signer
    \<Rightarrow> ('e, 'hash) broadcaster \<Rightarrow> instruction list \<Rightarrow> 'e world \<Rightarrow> (string + string) \<times> 'e world" where
  "sign_and_send L cfg signer B instructions w =
     (case call (latest_blockhash B) w of
        (Inl err, w1) \<Rightarrow> (Inl err, w1)
      | (Inr blockhash, w1) \<Rightarrow>
          (case build_unsigned L (sc_tx_version cfg) (sc_operator cfg) instructions blockhash
                  (sc_compute_budget cfg) of
             Inl err \<Rightarrow> (Inl (''settle build failed: '' @ show_core_error err), w1)
           | Inr tx \<Rightarrow>
               (case call (sign_versioned_transaction_slot signer tx) w1 of
                  (Inl err, w2) \<Rightarrow> (Inl (''settle signing failed: '' @ show_core_error err), w2)
                | (Inr tx', w2) \<Rightarrow>
                    (case call (send_tx B tx') w2 of
                       (Inl err, w3) \<Rightarrow> (Inl err, w3)
                     | (Inr sig, w3) \<Rightarrow> (Inr sig, logged [Sent tx' sig] w3)))))"

datatype confirm_failure = OnChain string | Unconfirmed string

fun into_message :: "confirm_failure \<Rightarrow> string" where
  "into_message (OnChain m) = m"
| "into_message (Unconfirmed m) = m"

primrec confirm_settlement :: "('e, 'hash) broadcaster \<Rightarrow> string \<Rightarrow> nat \<Rightarrow> 'e world
    \<Rightarrow> (confirm_failure + string) \<times> 'e world" where
  "confirm_settlement B sig 0 w =
     (Inl (Unconfirmed (''settlement '' @ sig @ '' was not confirmed in its window'')), w)"
| "confirm_settlement B sig (Suc attempts) w =
     (case call (confirm_tx B sig) w of
        (Inr outcome, w1) \<Rightarrow>
          (let w2 = logged [Polled sig outcome] w1 in
           case outcome of
             Confirmed \<Rightarrow> (Inr sig, w2)
           | Pending \<Rightarrow> confirm_settlement B sig attempts w2
           | Failed err \<Rightarrow>
               (Inl (OnChain (''settlement '' @ sig @ '' failed on-chain: '' @ err)), w2))
      | (Inl err, w1) \<Rightarrow> confirm_settlement B sig attempts w1)"

definition settle_alone :: "'hash sdk \<Rightarrow> settlement_config \<Rightarrow> 'e tx_signer
    \<Rightarrow> ('e, 'hash) broadcaster \<Rightarrow> instruction list \<Rightarrow> 'e world \<Rightarrow> (string + string) \<times> 'e world" where
  "settle_alone L cfg signer B instructions w =
     (case sign_and_send L cfg signer B instructions w of
        (Inl err, w1) \<Rightarrow> (Inl err, w1)
      | (Inr sig, w1) \<Rightarrow>
          (case confirm_settlement B sig (unat (sc_confirm_attempts cfg)) w1 of
             (r, w2) \<Rightarrow> (map_sum into_message id r, w2)))"

section \<open>One group\<close>

type_synonym replies = "(settlement_unit \<times> (string + string)) list"

primrec settle_each_alone :: "'hash sdk \<Rightarrow> settlement_config \<Rightarrow> 'e tx_signer
    \<Rightarrow> ('e, 'hash) broadcaster \<Rightarrow> settlement_unit list \<Rightarrow> 'e world \<Rightarrow> replies \<times> 'e world" where
  "settle_each_alone L cfg signer B [] w = ([], w)"
| "settle_each_alone L cfg signer B (u # us) w =
     (let (outcome, w1) = settle_alone L cfg signer B (su_instructions u) w;
          (replies, w2) = settle_each_alone L cfg signer B us w1 in
      ((u, outcome) # replies, w2))"

text \<open>
  \<open>settle_group\<close> with its background confirmation: the answers sent on the reply channels, in
  order.  Units already answered are re-sent alone without a second answer.
\<close>

definition settle_group :: "'hash sdk \<Rightarrow> settlement_config \<Rightarrow> 'e tx_signer
    \<Rightarrow> ('e, 'hash) broadcaster \<Rightarrow> settlement_unit list \<Rightarrow> 'e world \<Rightarrow> replies \<times> 'e world" where
  "settle_group L cfg signer B units w =
     (let flat = concat (map su_instructions units);
          (result, w1) = sign_and_send L cfg signer B flat w;
          packed = (length units > 1);
          is_ok = (case result of Inr _ \<Rightarrow> True | Inl _ \<Rightarrow> False);
          confirming = filter (\<lambda>u. su_await_confirmation u \<and> is_ok) units;
          immediate = filter (\<lambda>u. \<not> (su_await_confirmation u \<and> is_ok)) units;
          replied = (if packed \<and> is_ok then immediate else []);
          now_answered = map (\<lambda>u. (u, result)) immediate in
      case result of
        Inl err \<Rightarrow> (now_answered, w1)
      | Inr sig \<Rightarrow>
          (case confirm_settlement B sig (unat (sc_confirm_attempts cfg)) w1 of
             (outcome, w2) \<Rightarrow>
               if packed \<and> (case outcome of Inl (OnChain _) \<Rightarrow> True | _ \<Rightarrow> False)
               then (let (answers, w3) = settle_each_alone L cfg signer B confirming w2;
                         (_, w4) = settle_each_alone L cfg signer B replied w3 in
                     (now_answered @ answers, w4))
               else (now_answered @ map (\<lambda>u. (u, map_sum into_message id outcome)) confirming, w2)))"

text \<open>\<open>spawn_flush\<close>: the groups of one flush, one after the other.\<close>

primrec settle_groups :: "'hash sdk \<Rightarrow> settlement_config \<Rightarrow> 'e tx_signer
    \<Rightarrow> ('e, 'hash) broadcaster \<Rightarrow> settlement_unit list list \<Rightarrow> 'e world \<Rightarrow> replies \<times> 'e world" where
  "settle_groups L cfg signer B [] w = ([], w)"
| "settle_groups L cfg signer B (g # gs) w =
     (let (replies, w1) = settle_group L cfg signer B g w;
          (more, w2) = settle_groups L cfg signer B gs w1 in
      (replies @ more, w2))"

definition spawn_flush :: "'hash sdk \<Rightarrow> settlement_config \<Rightarrow> 'e tx_signer
    \<Rightarrow> ('e, 'hash) broadcaster \<Rightarrow> settlement_unit list \<Rightarrow> 'e world \<Rightarrow> replies \<times> 'e world" where
  "spawn_flush L cfg signer B units w =
     settle_groups L cfg signer B
       (regroup L units (sc_tx_version cfg) (sc_operator cfg) (sc_compute_budget cfg)
          (sc_max_voucher_settlements_per_tx cfg)) w"

section \<open>Lemmas: packing\<close>

lemma concat_pack_from [simp]: "concat (pack_from instrs overflow cur xs) = cur @ xs"
  by (induction xs arbitrary: cur) auto

text \<open>A batch the boundary rule lets through: within the cap, and fitting unless it is one operation.\<close>

definition batch_ok :: "'hash sdk \<Rightarrow> tx_version \<Rightarrow> pubkey \<Rightarrow> compute_budget option \<Rightarrow> nat
    \<Rightarrow> instruction list list \<Rightarrow> bool" where
  "batch_ok L version payer budget cap b \<longleftrightarrow>
     b \<noteq> [] \<and> length b \<le> max cap 1 \<and> (length b = 1 \<or> fits_tx L version (concat b) payer budget)"

lemma batch_ok_single [simp]: "batch_ok L version payer budget cap [x]"
  by (simp add: batch_ok_def)

lemma batch_ok_snoc:
  assumes "b \<noteq> []" "\<not> would_overflow_tx L version (concat b) (length b) x payer budget cap"
  shows "batch_ok L version payer budget cap (b @ [x])"
  using assms by (auto simp: batch_ok_def would_overflow_tx_def split: if_splits)

lemma pack_from_ok:
  fixes instrs :: "'a \<Rightarrow> instruction list"
  assumes "cur = [] \<or> batch_ok L version payer budget cap (map instrs cur)"
    and "b \<in> set (pack_from instrs
      (\<lambda>cur n x. would_overflow_tx L version cur n x payer budget cap) cur xs)"
  shows "batch_ok L version payer budget cap (map instrs b)"
  using assms
proof (induction xs arbitrary: cur)
  case Nil
  then show ?case by (auto split: if_splits)
next
  case (Cons x xs)
  let ?ov = "would_overflow_tx L version (concat (map instrs cur)) (length cur) (instrs x) payer budget cap"
  show ?case
  proof (cases "cur \<noteq> [] \<and> ?ov")
    case True
    with Cons.prems Cons.IH [of "[x]"] show ?thesis by auto
  next
    case False
    have "batch_ok L version payer budget cap (map instrs (cur @ [x]))"
    proof (cases "cur = []")
      case f: False
      with False batch_ok_snoc [of "map instrs cur" L version "instrs x" payer budget cap]
      show ?thesis by simp
    qed simp
    with False Cons.prems(2) Cons.IH [of "cur @ [x]"] show ?thesis by auto
  qed
qed

section \<open>Lemmas: the actor\<close>

lemma seal_full_split:
  "seal_full n pending = (batches, rest) \<Longrightarrow>
     concat batches @ rest = pending \<and> (0 < n \<longrightarrow> length rest < n)"
proof (induction n pending arbitrary: batches rest rule: seal_full.induct)
  case (1 n pending)
  show ?case
  proof (cases "n = 0 \<or> length pending < n")
    case True
    with "1.prems" show ?thesis by (auto simp: seal_full.simps)
  next
    case False
    obtain bs where "seal_full n (drop n pending) = (bs, rest)" "batches = take n pending # bs"
      using "1.prems" False by (subst (asm) (2) seal_full.simps) (auto split: prod.splits)
    with "1.IH" [OF False, of bs rest] show ?thesis by auto
  qed
qed

definition worker_inv :: "settlement_config \<Rightarrow> worker \<Rightarrow> bool" where
  "worker_inv cfg w \<longleftrightarrow>
     length (wk_pending w) < max (sc_max_voucher_settlements_per_tx cfg) 1
     \<and> (if wk_running w then wk_deadline w = None \<longleftrightarrow> wk_pending w = [] else wk_pending w = [])"

lemma worker_recv_inv:
  assumes "worker_recv cfg now u w = (fs, w')" "wk_running w"
  shows "worker_inv cfg w' \<and> concat (map snd fs) @ wk_pending w' = wk_pending w @ [u]"
proof -
  let ?n = "max (sc_max_voucher_settlements_per_tx cfg) 1"
  obtain batches rest where seal: "seal_full ?n (wk_pending w @ [u]) = (batches, rest)"
    by (metis surj_pair)
  with assms have "fs = map (Pair Size) batches" "wk_pending w' = rest" "wk_running w'"
      "wk_deadline w' = None \<longleftrightarrow> rest = []"
    by (auto simp: worker_recv_def Let_def split: option.splits if_splits)
  with seal_full_split [OF seal] show ?thesis by (simp add: worker_inv_def comp_def)
qed

lemma worker_run_inv:
  assumes "worker_run cfg w us fs w'" "worker_inv cfg w"
  shows "worker_inv cfg w' \<and> concat (map snd fs) @ wk_pending w' = wk_pending w @ us"
  using assms
proof (induction rule: worker_run.induct)
  case (recv us fs w1 now u fs' w2)
  with worker_recv_inv [OF recv.hyps(3,2)] show ?case by simp
qed (auto simp: worker_inv_def worker_timer_def worker_closed_def split: if_splits)

section \<open>Lemmas: the log\<close>

lemma wo_log_call [simp]: "call f w = (a, w') \<Longrightarrow> wo_log w' = wo_log w"
  by (auto simp: call_def split: prod.splits)

lemma set_log_logged [simp]: "set (wo_log (logged es w)) = set es \<union> set (wo_log w)"
  by (auto simp: logged_def)

text \<open>
  \<open>carries payer tx ixs\<close>: \<open>payer\<close> pays for \<open>tx\<close>, whose message has the instructions \<open>ixs\<close> one after
  the other, with the program, the accounts and the data of each.
\<close>

definition compiled_ix :: "pubkey list \<Rightarrow> instruction \<Rightarrow> compiled_instruction \<Rightarrow> bool" where
  "compiled_ix keys ix ci \<longleftrightarrow>
     unat (ci_program_id_index ci) < length keys \<and> keys ! unat (ci_program_id_index ci) = in_program_id ix
     \<and> ci_data ci = in_data ix
     \<and> list_all2 (\<lambda>(key, _) a. unat a < length keys \<and> keys ! unat a = key) (in_accounts ix) (ci_accounts ci)"

definition carries :: "pubkey \<Rightarrow> versioned_transaction \<Rightarrow> instruction list \<Rightarrow> bool" where
  "carries payer tx ixs \<longleftrightarrow>
     (let keys = static_account_keys (vt_message tx) in
      keys \<noteq> [] \<and> hd keys = payer
      \<and> (\<exists>before mid after. message_instructions (vt_message tx) = before @ mid @ after
            \<and> list_all2 (compiled_ix keys) ixs mid))"

lemma carries_part: "carries payer tx (before @ ixs @ after) \<Longrightarrow> carries payer tx ixs"
  unfolding carries_def Let_def list_all2_append1 by (metis append_assoc)

lemma carries_message: "vt_message tx' = vt_message tx \<Longrightarrow> carries payer tx' ixs = carries payer tx ixs"
  by (simp add: carries_def)

lemma compiled_carries:
  assumes "compiled_as payer (extra @ ixs) (body (vt_message tx))"
  shows "carries payer tx ixs"
proof -
  let ?m = "body (vt_message tx)"
  have "list_all2 (compiled_ix (mb_static_account_keys ?m)) (extra @ ixs) (mb_instructions ?m)"
    using assms by (auto simp: compiled_as_def compiled_ix_def list_all2_conv_all_nth)
  then have "\<exists>before mid after. mb_instructions ?m = before @ mid @ after
      \<and> list_all2 (compiled_ix (mb_static_account_keys ?m)) ixs mid"
    by (metis list_all2_append1 append_Nil2)
  moreover have "mb_static_account_keys ?m \<noteq> []" "hd (mb_static_account_keys ?m) = payer"
    using assms by (simp_all add: compiled_as_def)
  ultimately show ?thesis by (simp add: carries_def)
qed

lemma built_carries:
  assumes "compiles_faithfully L" "build_unsigned L version payer ixs hash budget = Inr tx"
  shows "carries payer tx ixs"
proof -
  from assms(2) have built: "build_unsigned_unchecked L version payer ixs hash budget = Inr tx"
    by (auto simp: build_unsigned_def try_bind_Inr_iff)
  have "\<exists>extra. compiled_as payer (extra @ ixs) (body (vt_message tx))"
  proof (cases version)
    case V0
    with built obtain b lookups where "v0_try_compile L payer (with_budget budget ixs) hash = Inr (b, lookups)"
        "body (vt_message tx) = b"
      by (auto simp: build_unsigned_unchecked_def try_bind_Inr_iff split: sum.splits)
    moreover obtain extra where "with_budget budget ixs = extra @ ixs"
      by (cases budget) (auto simp: with_budget_def)
    ultimately show ?thesis using assms(1) unfolding compiles_faithfully_def by metis
  next
    case V1
    with built obtain config b config' where "v1_try_compile_with_config L payer ixs hash config = Inr (b, config')"
        "body (vt_message tx) = b"
      by (auto simp: build_unsigned_unchecked_def try_bind_Inr_iff split: sum.splits)
    then show ?thesis using assms(1) unfolding compiles_faithfully_def by (metis append_Nil)
  qed
  then show ?thesis using compiled_carries by blast
qed

text \<open>A signer fills its slot and leaves the message alone.\<close>

definition keeps_message :: "'e tx_signer \<Rightarrow> bool" where
  "keeps_message signer \<longleftrightarrow>
     (\<forall>tx e tx' e'. sign_transaction signer tx e = (Inr tx', e') \<longrightarrow> vt_message tx' = vt_message tx)"

lemma signed_message:
  assumes "keeps_message signer" "sign_versioned_transaction_slot signer tx e = (Inr tx', e')"
  shows "vt_message tx' = vt_message tx"
  using assms
  by (auto simp: sign_versioned_transaction_slot_def Let_def keeps_message_def
      split: option.splits if_splits prod.splits sum.splits)

definition sent_in :: "pubkey \<Rightarrow> instruction list \<Rightarrow> string \<Rightarrow> log_entry set \<Rightarrow> bool" where
  "sent_in payer ixs sig log \<longleftrightarrow> (\<exists>tx. Sent tx sig \<in> log \<and> carries payer tx ixs)"

lemma sent_in_mono: "sent_in payer ixs sig log \<Longrightarrow> log \<subseteq> log' \<Longrightarrow> sent_in payer ixs sig log'"
  by (auto simp: sent_in_def)

lemma sent_in_part: "sent_in payer (before @ ixs @ after) sig log \<Longrightarrow> sent_in payer ixs sig log"
  using carries_part by (auto simp: sent_in_def)

lemma sign_and_send_sent:
  assumes "sign_and_send L cfg signer B ixs w = (Inr sig, w')"
  obtains hash tx w1 tx' w2 where
    "build_unsigned L (sc_tx_version cfg) (sc_operator cfg) ixs hash (sc_compute_budget cfg) = Inr tx"
    "call (sign_versioned_transaction_slot signer tx) w1 = (Inr tx', w2)" "Sent tx' sig \<in> set (wo_log w')"
  using assms unfolding sign_and_send_def
  by (auto split: prod.split_asm sum.split_asm)

lemma sign_and_send_log:
  assumes "compiles_faithfully L" "keeps_message signer" "sign_and_send L cfg signer B ixs w = (r, w')"
  shows "set (wo_log w) \<subseteq> set (wo_log w') \<and> (\<forall>sig. r = Inr sig \<longrightarrow> sent_in (sc_operator cfg) ixs sig (set (wo_log w')))"
proof -
  have "sent_in (sc_operator cfg) ixs sig (set (wo_log w'))" if "r = Inr sig" for sig
  proof -
    from assms(3) [unfolded that] obtain hash tx w1 tx' w2 where tx:
        "build_unsigned L (sc_tx_version cfg) (sc_operator cfg) ixs hash (sc_compute_budget cfg) = Inr tx"
        "call (sign_versioned_transaction_slot signer tx) w1 = (Inr tx', w2)" "Sent tx' sig \<in> set (wo_log w')"
      by (rule sign_and_send_sent)
    obtain e where "sign_versioned_transaction_slot signer tx (wo_env w1) = (Inr tx', e)"
      using tx(2) by (auto simp: call_def split: prod.split_asm)
    from carries_message [OF signed_message [OF assms(2) this]] built_carries [OF assms(1) tx(1)] tx(3)
    show ?thesis unfolding sent_in_def by blast
  qed
  moreover have "set (wo_log w) \<subseteq> set (wo_log w')"
    using assms(3) unfolding sign_and_send_def by (auto split: prod.splits sum.splits dest!: wo_log_call)
  ultimately show ?thesis by blast
qed

lemma confirm_settlement_log:
  assumes "confirm_settlement B sig n w = (r, w')"
  shows "set (wo_log w) \<subseteq> set (wo_log w')
    \<and> (\<forall>s. r = Inr s \<longrightarrow> s = sig \<and> Polled sig Confirmed \<in> set (wo_log w'))"
  using assms
proof (induction n arbitrary: w)
  case (Suc n)
  obtain answer w1 where call: "call (confirm_tx B sig) w = (answer, w1)" by force
  note log = wo_log_call [OF call]
  show ?case
  proof (cases answer)
    case (Inl e)
    with Suc.prems call have "confirm_settlement B sig n w1 = (r, w')" by simp
    from Suc.IH [OF this] log show ?thesis by auto
  next
    case (Inr outcome)
    show ?thesis
    proof (cases "outcome = Pending")
      case True
      with Suc.prems call Inr have "confirm_settlement B sig n (logged [Polled sig outcome] w1) = (r, w')"
        by simp
      from Suc.IH [OF this] log show ?thesis by auto
    next
      case False
      with Suc.prems call Inr log show ?thesis
        by (cases outcome) (auto simp: Let_def)
    qed
  qed
qed auto

text \<open>What an answer is worth to the unit that gets it.\<close>

definition answer_backed :: "pubkey \<Rightarrow> log_entry set \<Rightarrow> settlement_unit \<times> (string + string) \<Rightarrow> bool" where
  "answer_backed payer log = (\<lambda>(u, r). case r of
     Inl _ \<Rightarrow> True
   | Inr sig \<Rightarrow> sent_in payer (su_instructions u) sig log
       \<and> (su_await_confirmation u \<longrightarrow> Polled sig Confirmed \<in> log))"

lemma answer_backed_mono: "answer_backed payer log x \<Longrightarrow> log \<subseteq> log' \<Longrightarrow> answer_backed payer log' x"
  by (cases x) (auto simp: answer_backed_def intro: sent_in_mono split: sum.splits)

lemma settle_alone_log:
  assumes sound: "compiles_faithfully L" "keeps_message signer"
    and "settle_alone L cfg signer B (su_instructions u) w = (r, w')"
  shows "set (wo_log w) \<subseteq> set (wo_log w') \<and> answer_backed (sc_operator cfg) (set (wo_log w')) (u, r)"
proof -
  obtain r1 w1 where send: "sign_and_send L cfg signer B (su_instructions u) w = (r1, w1)" by force
  show ?thesis
  proof (cases r1)
    case (Inl e)
    with send sign_and_send_log [OF sound send] assms(3) show ?thesis
      by (auto simp: settle_alone_def answer_backed_def)
  next
    case (Inr sig)
    obtain r2 w2 where conf: "confirm_settlement B sig (unat (sc_confirm_attempts cfg)) w1 = (r2, w2)"
      by force
    have r: "r = map_sum into_message id r2" "w' = w2"
      using assms(3) send Inr conf by (simp_all add: settle_alone_def)
    have "sent_in (sc_operator cfg) (su_instructions u) sig (set (wo_log w2))"
      using sign_and_send_log [OF sound send] Inr confirm_settlement_log [OF conf] by (auto intro: sent_in_mono)
    with r sign_and_send_log [OF sound send] confirm_settlement_log [OF conf] show ?thesis
      by (cases r2) (auto simp: answer_backed_def)
  qed
qed

lemma settle_each_alone_log:
  assumes sound: "compiles_faithfully L" "keeps_message signer"
    and "settle_each_alone L cfg signer B us w = (rs, w')"
  shows "set (wo_log w) \<subseteq> set (wo_log w') \<and> map fst rs = us
    \<and> list_all (answer_backed (sc_operator cfg) (set (wo_log w'))) rs"
  using assms(3)
proof (induction us arbitrary: w rs)
  case (Cons u us)
  obtain r w1 where one: "settle_alone L cfg signer B (su_instructions u) w = (r, w1)" by force
  obtain rs1 where rest: "settle_each_alone L cfg signer B us w1 = (rs1, w')" "rs = (u, r) # rs1"
    using Cons.prems one by (auto split: prod.splits)
  from Cons.IH [OF rest(1)] settle_alone_log [OF sound one] rest(2) show ?case
    by (auto intro: answer_backed_mono)
qed simp

lemma answers_of_group:
  assumes "u \<in> set units" "sent_in payer (concat (map su_instructions units)) sig log"
    and "su_await_confirmation u \<Longrightarrow> Polled sig Confirmed \<in> log"
  shows "answer_backed payer log (u, Inr sig)"
proof -
  obtain before after where "units = before @ u # after"
    using assms(1) by (meson split_list)
  then have "concat (map su_instructions units) =
      concat (map su_instructions before) @ su_instructions u @ concat (map su_instructions after)"
    by simp
  with assms(2,3) show ?thesis by (auto simp: answer_backed_def intro: sent_in_part)
qed

lemma mset_partition: "mset (filter (\<lambda>x. \<not> P x) xs) + mset (filter P xs) = mset xs"
  by (induction xs) auto

lemma settle_group_log:
  assumes sound: "compiles_faithfully L" "keeps_message signer"
    and group: "settle_group L cfg signer B units w = (rs, w')"
  shows "set (wo_log w) \<subseteq> set (wo_log w') \<and> mset (map fst rs) = mset units
    \<and> list_all (answer_backed (sc_operator cfg) (set (wo_log w'))) rs"
proof -
  let ?backed = "answer_backed (sc_operator cfg)"
  let ?flat = "concat (map su_instructions units)"
  let ?conf = "filter su_await_confirmation units"
  let ?imm = "filter (\<lambda>u. \<not> su_await_confirmation u) units"
  obtain result w1 where send: "sign_and_send L cfg signer B ?flat w = (result, w1)" by force
  show ?thesis
  proof (cases result)
    case (Inl e)
    with group send have "rs = map (\<lambda>u. (u, Inl e)) units" "w' = w1"
      by (auto simp: settle_group_def Let_def)
    with sign_and_send_log [OF sound send] show ?thesis
      by (simp add: comp_def list_all_iff answer_backed_def)
  next
    case (Inr sig)
    obtain outcome w2 where conf: "confirm_settlement B sig (unat (sc_confirm_attempts cfg)) w1 = (outcome, w2)"
      by force
    have log2: "set (wo_log w) \<subseteq> set (wo_log w2)" "sent_in (sc_operator cfg) ?flat sig (set (wo_log w2))"
      using sign_and_send_log [OF sound send] confirm_settlement_log [OF conf] Inr by (auto intro: sent_in_mono)
    have imm: "list_all (?backed log) (map (\<lambda>u. (u, Inr sig)) ?imm)"
      if "set (wo_log w2) \<subseteq> log" for log
      using sent_in_mono [OF log2(2) that] by (auto simp: list_all_iff intro: answers_of_group [of _ units])
    show ?thesis
    proof (cases "length units > 1 \<and> (case outcome of Inl (OnChain _) \<Rightarrow> True | _ \<Rightarrow> False)")
      case True
      obtain answers w3 where alone: "settle_each_alone L cfg signer B ?conf w2 = (answers, w3)" by force
      obtain again w4 where again: "settle_each_alone L cfg signer B ?imm w3 = (again, w4)" by force
      have eq: "rs = map (\<lambda>u. (u, Inr sig)) ?imm @ answers" "w' = w4"
        using group send Inr conf True alone again by (simp_all add: settle_group_def Let_def)
      note logs = settle_each_alone_log [OF sound alone] settle_each_alone_log [OF sound again]
      have "list_all (?backed (set (wo_log w4))) answers"
        using logs by (auto simp: list_all_iff intro: answer_backed_mono)
      moreover have "mset (map fst rs) = mset units"
        using logs(1) eq(1) mset_partition [of su_await_confirmation units] by (simp add: comp_def)
      ultimately show ?thesis
        using eq logs log2(1) imm [of "set (wo_log w4)"] by auto
    next
      case False
      have eq: "rs = map (\<lambda>u. (u, Inr sig)) ?imm @ map (\<lambda>u. (u, map_sum into_message id outcome)) ?conf"
          "w' = w2"
        using group send Inr conf False by (auto simp: settle_group_def Let_def)
      have "list_all (?backed (set (wo_log w2))) (map (\<lambda>u. (u, map_sum into_message id outcome)) ?conf)"
      proof (cases outcome)
        case (Inr s)
        with confirm_settlement_log [OF conf] log2(2) show ?thesis
          by (auto simp: list_all_iff intro: answers_of_group [of _ units])
      qed (simp add: list_all_iff answer_backed_def)
      with eq log2 imm [OF order.refl] mset_partition [of su_await_confirmation units] show ?thesis
        by (simp add: comp_def)
    qed
  qed
qed

lemma settle_groups_log:
  assumes sound: "compiles_faithfully L" "keeps_message signer"
    and "settle_groups L cfg signer B gs w = (rs, w')"
  shows "set (wo_log w) \<subseteq> set (wo_log w') \<and> mset (map fst rs) = mset (concat gs)
    \<and> list_all (answer_backed (sc_operator cfg) (set (wo_log w'))) rs"
  using assms(3)
proof (induction gs arbitrary: w rs)
  case (Cons g gs)
  obtain r w1 where one: "settle_group L cfg signer B g w = (r, w1)" by force
  obtain rs1 where rest: "settle_groups L cfg signer B gs w1 = (rs1, w')" "rs = r @ rs1"
    using Cons.prems one by (auto split: prod.splits)
  from Cons.IH [OF rest(1)] settle_group_log [OF sound one] rest(2) show ?case
    by (auto simp: list_all_iff intro: answer_backed_mono)
qed simp

section \<open>Properties\<close>

text \<open>
  C33.  The worker loses nothing and sends nothing it should not.  In every run of the actor,
  the batches handed out followed by what is pending are exactly the units submitted, in
  order; while anything is pending the linger timer is armed, the pending units are fewer than
  a full batch, and once the worker has stopped nothing is pending.  The groups a batch is cut
  into are again that batch in order, none of them empty or above the cap, and each of them
  fits one transaction unless it is a single operation: an operation that does not fit on its own is
  still handed out as a group of one.
\<close>

theorem worker_loses_nothing:
  assumes "worker_run cfg worker_start us flushes w"
  shows "concat (map snd flushes) @ wk_pending w = us
    \<and> length (wk_pending w) < max (sc_max_voucher_settlements_per_tx cfg) 1
    \<and> (if wk_running w then wk_deadline w = None \<longleftrightarrow> wk_pending w = [] else wk_pending w = [])
    \<and> list_all (\<lambda>(_, batch).
         let groups = regroup L batch (sc_tx_version cfg) (sc_operator cfg) (sc_compute_budget cfg)
               (sc_max_voucher_settlements_per_tx cfg) in
         concat groups = batch \<and>
         list_all (\<lambda>g. g \<noteq> [] \<and> length g \<le> max (sc_max_voucher_settlements_per_tx cfg) 1
           \<and> (length g = 1 \<or> fits_tx L (sc_tx_version cfg) (concat (map su_instructions g))
                (sc_operator cfg) (sc_compute_budget cfg))) groups) flushes"
proof -
  have "worker_inv cfg worker_start" by (simp add: worker_inv_def worker_start_def)
  from worker_run_inv [OF assms this] show ?thesis
    using pack_from_ok [where cur = "[]" and instrs = su_instructions and L = L
        and version = "sc_tx_version cfg" and payer = "sc_operator cfg"
        and budget = "sc_compute_budget cfg" and cap = "sc_max_voucher_settlements_per_tx cfg"]
    by (auto simp: worker_inv_def worker_start_def regroup_def list_all_iff batch_ok_def Let_def)
qed

definition sample_unit :: "string \<Rightarrow> settlement_unit" where
  "sample_unit i = \<lparr>su_channel_id = i, su_instructions = [memo], su_reply = 0, su_await_confirmation = True\<rparr>"

theorem worker_loses_nothing_witness:
  "\<exists>flushes w. worker_run (settlement_config_new ''op'') worker_start [sample_unit ''a''] flushes w
     \<and> concat (map snd flushes) @ wk_pending w = [sample_unit ''a'']"
proof -
  let ?cfg = "settlement_config_new ''op''"
  obtain fs w where step: "worker_recv ?cfg 0 (sample_unit ''a'') worker_start = (fs, w)"
    by (metis surj_pair)
  have "worker_run ?cfg worker_start ([] @ [sample_unit ''a'']) ([] @ fs) w"
    using worker_run.recv [OF worker_run.start _ step] by (simp add: worker_start_def)
  with worker_loses_nothing [OF this] show ?thesis by auto
qed

text \<open>
  C32.  Every submitter is answered once, and truthfully.  Whatever the network and the chain do,
  with an SDK that compiles faithfully and a signer that leaves messages alone, one flush answers
  each of its units exactly once.  A unit that is answered with a signature is in a transaction that
  the network took under that signature: the operator pays for it and its message has the unit's
  instructions one after the other, each with its program, accounts and data.  If the unit asked to
  wait for confirmation, a poll reported that signature as confirmed, also when its first, packed
  transaction failed on chain and it was settled alone.
\<close>

theorem answers_once_and_truthful:
  assumes "compiles_faithfully L" "keeps_message signer" "spawn_flush L cfg signer B units w = (replies, w')"
  shows "mset (map fst replies) = mset units
    \<and> list_all (\<lambda>(u, r). case r of
          Inl _ \<Rightarrow> True
        | Inr sig \<Rightarrow> (\<exists>tx. Sent tx sig \<in> set (wo_log w') \<and> carries (sc_operator cfg) tx (su_instructions u))
            \<and> (su_await_confirmation u \<longrightarrow> Polled sig Confirmed \<in> set (wo_log w'))) replies"
  using settle_groups_log [OF assms(1,2) assms(3) [unfolded spawn_flush_def]]
  unfolding answer_backed_def sent_in_def by (simp add: regroup_def)

definition toy_signer :: "unit tx_signer" where
  "toy_signer = \<lparr>signer_pubkey = ''op'', sign_transaction = \<lambda>tx e. (Inr tx, e)\<rparr>"

definition toy_net :: "(unit, unit) broadcaster" where
  "toy_net = \<lparr>latest_blockhash = \<lambda>e. (Inr (), e), send_tx = \<lambda>tx e. (Inr ''sig'', e),
     confirm_tx = \<lambda>s e. (Inr Confirmed, e)\<rparr>"

lemma toy_flush:
  "map snd (fst (spawn_flush toy_sdk (settlement_config_new ''op'') toy_signer toy_net
     [sample_unit ''a'', sample_unit ''b''] \<lparr>wo_env = (), wo_log = []\<rparr>)) = [Inr ''sig'', Inr ''sig'']"
  by code_simp

theorem answers_once_and_truthful_witness:
  "\<exists>replies w' tx. spawn_flush toy_sdk (settlement_config_new ''op'') toy_signer toy_net
       [sample_unit ''a'', sample_unit ''b''] \<lparr>wo_env = (), wo_log = []\<rparr> = (replies, w')
     \<and> map snd replies = [Inr ''sig'', Inr ''sig''] \<and> Sent tx ''sig'' \<in> set (wo_log w') \<and> carries ''op'' tx [memo]"
proof -
  obtain replies w' where run: "spawn_flush toy_sdk (settlement_config_new ''op'') toy_signer toy_net
      [sample_unit ''a'', sample_unit ''b''] \<lparr>wo_env = (), wo_log = []\<rparr> = (replies, w')"
    by (metis surj_pair)
  have signer: "keeps_message toy_signer" by (simp add: keeps_message_def toy_signer_def)
  have told: "map snd replies = [Inr ''sig'', Inr ''sig'']" using toy_flush by (simp only: run fst_conv)
  note all = answers_once_and_truthful [OF toy_compiles_faithfully signer run]
  from told obtain u v where "replies = [(u, Inr ''sig''), (v, Inr ''sig'')]"
    by (cases replies; cases "tl replies") auto
  with all have "u = sample_unit ''a'' \<or> u = sample_unit ''b''"
    and "\<exists>tx. Sent tx ''sig'' \<in> set (wo_log w') \<and> carries ''op'' tx (su_instructions u)"
    by (auto simp: add_eq_conv_ex settlement_config_new_def)
  with run told show ?thesis by (auto simp: sample_unit_def)
qed

end
