(* ===== verification/Charge_Settle.thy ===== *)
theory Charge_Settle
  imports Charge_Onchain Charge_Concurrency Consumed_Signatures Mpp_Challenge Settlement
begin

text \<open>
  Settling an accepted charge credential: \<open>settle_payload\<close>, \<open>broadcast_pull\<close>, the broadcast fence and
  what they call in \<open>mpp/server/charge.rs\<close>.

  The server is one configured without channel charges and built without the \<open>confidential\<close>
  feature, so a channel charge is refused by \<open>validate_channel_policy\<close> and a bundle by
  \<open>settle_payload\<close>; the branches behind those refusals are not reached and not modelled.  Libraries
  are fields of \<open>charge_lib\<close>.  What one request sees of the outside (the clock at each place it is
  read, the answers of the RPC to each call) is a \<open>charge_env\<close>; a request that runs beside others has
  its own, so that the answers may depend on when it runs.  The text that \<open>diagnose_balances\<close> adds to
  an error message is one of those answers.  Where \<open>broadcast_pull\<close> enters the loop that sends a
  transaction it makes a \<open>Broadcast\<close> step with the signature of that transaction, the only step that
  hands anything to the network.
\<close>

section \<open>Data\<close>

text \<open>A text as the list of its UTF-8 bytes, and two characters that message texts use.\<close>

definition utf8_text :: "ustring \<Rightarrow> string" where
  "utf8_text s = map (\<lambda>b. char_of (b :: nat)) (utf8 s)"

definition em_dash :: string where
  "em_dash = [CHR 0xE2, CHR 0x80, CHR 0x94]"

definition section_sign :: string where
  "section_sign = [CHR 0xC2, CHR 0xA7]"

definition quoted :: "string \<Rightarrow> string" where
  "quoted s = CHR 0x27 # s @ [CHR 0x27]"

fun show_mpp_error :: "mpp_error \<Rightarrow> string" where
  "show_mpp_error (MppOther m) = utf8_text m"

fun show_store_error :: "store_error \<Rightarrow> string" where
  "show_store_error (Internal m) = ''Store error: '' @ m"
| "show_store_error (Serialization m) = ''Serialization error: '' @ m"

datatype credential_payload =
    TransactionPayload string
  | SignaturePayload string
  | BundlePayload "string list"

record payment_credential =
  cd_challenge :: payment_challenge
  cd_source :: "ustring option"
  cd_payload :: json

record 'hash charge_lib =
  lib_mac :: mac
  lib_codec :: "payment_credential mpp_codec"
  request_to_jcs :: "charge_request \<Rightarrow> string + nat list"
  value_to_jcs :: "json \<Rightarrow> string + nat list"
  splits_to_value :: "charge_split list \<Rightarrow> json"
  versions_to_value :: "tx_version list \<Rightarrow> json"
  request_from_slice :: "nat list \<Rightarrow> string + charge_request"
  value_from_slice :: "nat list \<Rightarrow> string + json"
  details_from_value :: "json \<Rightarrow> string + method_details"
  payload_from_value :: "json \<Rightarrow> string + credential_payload"
  payload_to_vec :: "credential_payload \<Rightarrow> string + nat list"
  sha256 :: "nat list \<Rightarrow> nat list"
  format_rfc3339 :: "int \<Rightarrow> string + ustring"
  parse_rfc3339 :: "ustring \<Rightarrow> int option"
  lib_records :: record_codec
  lib_keys :: keylib
  lib_sdk :: "'hash sdk"
  recent_blockhash :: "versioned_message \<Rightarrow> string"
  verify_and_hash_message :: "versioned_transaction \<Rightarrow> string + unit"
  signature_text :: "bytes \<Rightarrow> string"
  signature_from_str :: "string \<Rightarrow> string + unit"

text \<open>Times are nanoseconds since the epoch; \<open>unix_timestamp\<close> rounds down.\<close>

datatype clock_site = AtExpiry | AtReserve | AtPending | AtRelease | AtConfirm | AtFail | AtRetention | AtPush | AtReceipt

datatype send_error = Preflight "string option" "string list option" | SendFailed string

record charge_env =
  clock :: "clock_site \<Rightarrow> int"
  send_transaction :: "nat \<Rightarrow> versioned_transaction \<Rightarrow> send_error + string"
  send_skip_preflight :: "versioned_transaction \<Rightarrow> string + string"
  balance_detail :: "versioned_transaction \<Rightarrow> string"
  confirm_transaction :: "nat \<Rightarrow> string \<Rightarrow> string + bool"
  signature_status :: "string \<Rightarrow> string + (string + unit) option"
  signature_status_with_history :: "string \<Rightarrow> string + (string + unit) option"
  confirmed_at :: "string \<Rightarrow> string + confirmed_transaction"

definition unix_at :: "charge_env \<Rightarrow> clock_site \<Rightarrow> i64" where
  "unix_at E site = clock E site div 1000000000"

record mpp =
  mpp_secret :: ustring
  mpp_realm :: ustring
  mpp_currency :: string
  mpp_recipient :: string
  mpp_decimals :: u32
  mpp_network :: string
  mpp_token_program :: "string option"
  mpp_accepted_versions :: "tx_version list"
  mpp_accept_push_mode :: bool
  mpp_fee_payer :: bool
  mpp_fee_payer_signer :: "unit tx_signer option"

text \<open>\<open>Base64UrlJson::decode\<close> and \<open>decode_value\<close>.\<close>

definition decode_request :: "'hash charge_lib \<Rightarrow> ustring \<Rightarrow> string + charge_request" where
  "decode_request L raw =
     try_bind (map_err show_mpp_error (base64url_decode (lib_codec L) raw)) (\<lambda>bs.
       map_err (\<lambda>e. ''Failed to decode base64url JSON: '' @ e) (request_from_slice L bs))"

definition decode_value :: "'hash charge_lib \<Rightarrow> ustring \<Rightarrow> string + json" where
  "decode_value L raw =
     try_bind (map_err show_mpp_error (base64url_decode (lib_codec L) raw)) (\<lambda>bs.
       map_err (\<lambda>e. ''Invalid JSON in base64url: '' @ e) (value_from_slice L bs))"

section \<open>Consumed signatures\<close>

definition consume_signature :: "string \<Rightarrow> (verification_error + unit) prog" where
  "consume_signature signature_str =
     bind_prog (claim signature_str) (\<lambda>r. Done
       (try_bind (map_err (\<lambda>e. ve_new (''Store error: '' @ show_store_error e)) r) (\<lambda>inserted.
        if \<not> inserted then Inl (signature_consumed ''Transaction signature already consumed'')
        else Inr ())))"

text \<open>The outcome of a release is only logged.\<close>

definition release_signature :: "string \<Rightarrow> unit prog" where
  "release_signature signature = bind_prog (release signature) (\<lambda>_. Done ())"

section \<open>The broadcast fence\<close>

record broadcast_fence =
  bf_challenge_id :: string
  bf_generation :: nat
  bf_pending :: "string option"

definition fence_begin :: "record_codec \<Rightarrow> charge_env \<Rightarrow> broadcast_fence \<Rightarrow> string
    \<Rightarrow> ((verification_error + unit) \<times> broadcast_fence) prog" where
  "fence_begin J E fence signature =
     bind_prog (consume_signature signature) (\<lambda>consumed.
       case consumed of
         Inl e \<Rightarrow> Done (Inl e, fence)
       | Inr _ \<Rightarrow>
           bind_prog (mark_pending J (bf_challenge_id fence) (bf_generation fence) signature
               (unix_at E AtPending)) (\<lambda>marked.
             case marked of
               Inr True \<Rightarrow> Done (Inr (), fence\<lparr>bf_generation := bf_generation fence + 1,
                   bf_pending := Some signature\<rparr>)
             | Inr False \<Rightarrow>
                 bind_prog (release_signature signature) (\<lambda>_. Done (Inl (settlement_in_progress
                   ''This charge is being settled by another request; retry shortly''), fence))
             | Inl e \<Rightarrow> Done (Inl (ve_new (''Store error: '' @ show_store_error e)), fence)))"

definition fence_abandon :: "record_codec \<Rightarrow> charge_env \<Rightarrow> broadcast_fence \<Rightarrow> broadcast_fence prog" where
  "fence_abandon J E fence =
     (case bf_pending fence of
        None \<Rightarrow> Done fence
      | Some signature \<Rightarrow>
          (let fence = fence\<lparr>bf_pending := None\<rparr> in
           bind_prog (release_signature signature) (\<lambda>_.
           bind_prog (release_pending_record J (bf_challenge_id fence) (bf_generation fence) signature
               (unix_at E AtRelease)) (\<lambda>released. Done
             (if released = Inr True then fence\<lparr>bf_generation := bf_generation fence + 1\<rparr> else fence)))))"

section \<open>Pull mode\<close>

definition SURFPOOL_BLOCKHASH_PREFIX :: string where
  "SURFPOOL_BLOCKHASH_PREFIX = ''SURFNETxSAFEHASH''"

definition LOCALNET_NETWORK :: string where
  "LOCALNET_NETWORK = ''localnet''"

definition check_network_blockhash :: "string \<Rightarrow> string \<Rightarrow> verification_error + unit" where
  "check_network_blockhash network blockhash_b58 =
     (if take (length SURFPOOL_BLOCKHASH_PREFIX) blockhash_b58 \<noteq> SURFPOOL_BLOCKHASH_PREFIX then Inr ()
      else if network = LOCALNET_NETWORK then Inr ()
      else Inl (wrong_network (''Signed against localnet but the server expects '' @ network
        @ ''. Switch your client RPC to '' @ network @ '' and re-sign.'')))"

definition final_signature :: "'hash charge_lib \<Rightarrow> versioned_transaction \<Rightarrow> verification_error + string" where
  "final_signature L tx =
     (case vt_signatures tx of
        signature # _ \<Rightarrow>
          if signature \<noteq> default_signature then Inr (signature_text L signature)
          else Inl (invalid_payload ''Transaction is missing its fee-payer signature'')
      | [] \<Rightarrow> Inl (invalid_payload ''Transaction is missing its fee-payer signature''))"

definition cosign_fee_payer_slot :: "mpp \<Rightarrow> versioned_transaction \<Rightarrow> verification_error + versioned_transaction" where
  "cosign_fee_payer_slot M tx =
     try_bind (ok_or (mpp_fee_payer_signer M) (ve_new ''Fee payer enabled but no signer configured'')) (\<lambda>signer.
     let fee_payer_pubkey = signer_pubkey signer; keys = static_account_keys (vt_message tx) in
     if keys = [] \<or> hd keys \<noteq> fee_payer_pubkey
     then Inl (invalid_payload ''Fee payer not found in transaction accounts'')
     else if length (vt_signatures tx) \<noteq> num_required_signatures (vt_message tx)
     then Inl (invalid_payload ''Fee payer is not a required signer in the transaction'')
     else map_err (\<lambda>e. ve_new (''Fee payer signing failed: '' @ show_core_error e))
            (fst (cosign_versioned_fee_payer signer fee_payer_pubkey tx ())))"

text \<open>The blockhash the authenticated challenge was issued with, if it names one.\<close>

definition challenged_blockhash :: "'hash charge_lib \<Rightarrow> payment_challenge \<Rightarrow> string option" where
  "challenged_blockhash L challenge =
     (case decode_request L (pc_request challenge) of
        Inl _ \<Rightarrow> None
      | Inr issued \<Rightarrow> Option.bind (cr_method_details issued) (\<lambda>md.
          case details_from_value L md of Inl _ \<Rightarrow> None | Inr details \<Rightarrow> md_recent_blockhash details))"

text \<open>
  Everything \<open>broadcast_pull\<close> does before it records and sends the transaction: the transaction
  with all its signatures, the signature that names it, and whether it uses the challenged blockhash.
\<close>

definition prepare_pull :: "'hash charge_lib \<Rightarrow> mpp \<Rightarrow> string \<Rightarrow> charge_request \<Rightarrow> method_details
    \<Rightarrow> payment_challenge \<Rightarrow> verification_error + versioned_transaction \<times> string \<times> bool" where
  "prepare_pull L M transaction_b64 request details challenge =
     try_bind (map_err (\<lambda>e. invalid_payload (''Invalid base64 transaction: '' @ e))
         (base64_decode (lib_sdk L) transaction_b64)) (\<lambda>tx_bytes.
     try_bind (map_err (\<lambda>e. invalid_payload (''Invalid transaction: '' @ show_core_error e))
         (decode_bytes (lib_sdk L) tx_bytes)) (\<lambda>tx.
     let blockhash = recent_blockhash L (vt_message tx); challenged = challenged_blockhash L challenge in
     if challenged \<noteq> None \<and> challenged \<noteq> Some blockhash
     then Inl (credential_mismatch ''Transaction does not use the challenged blockhash'')
     else
     try_bind (check_network_blockhash (mpp_network M) blockhash) (\<lambda>_.
     try_bind (verify_client_pull_transaction (lib_sdk L) (lib_keys L) tx request details
         (mpp_accepted_versions M)) (\<lambda>_.
     try_bind (if unwrap_or (md_fee_payer details) False then cosign_fee_payer_slot M tx else Inr tx) (\<lambda>tx.
     try_bind (map_err (\<lambda>e. invalid_payload (''Transaction signature verification failed: '' @ e))
         (verify_and_hash_message L tx)) (\<lambda>_.
     try_bind (final_signature L tx) (\<lambda>local_signature.
       Inr (tx, local_signature, challenged = Some blockhash))))))))"

definition SIMULATION_MAX_ATTEMPTS :: nat where
  "SIMULATION_MAX_ATTEMPTS = 3"

text \<open>\<open>join("; ")\<close>.\<close>

fun join_logs :: "string list \<Rightarrow> string" where
  "join_logs [] = []"
| "join_logs [l] = l"
| "join_logs (l # ls) = l @ ''; '' @ join_logs ls"

definition log_detail :: "string list option \<Rightarrow> string" where
  "log_detail logs =
     (let logs = filter (\<lambda>l. str_contains l ''Error'' \<or> str_contains l ''error'' \<or> str_contains l ''failed'')
                   (unwrap_or logs []) in
      if logs = [] then [] else '' '' @ em_dash @ '' '' @ join_logs logs)"

definition is_blockhash_not_found_simulation :: "string option \<Rightarrow> bool" where
  "is_blockhash_not_found_simulation sim_err \<longleftrightarrow> sim_err = Some ''Blockhash not found''"

text \<open>
  How the sending loop ends: accepted under a signature, possibly sent, or never forwarded by a
  node (every attempt was rejected by preflight).
\<close>

datatype send_outcome = Sent string | MaybeSent verification_error | NeverSent verification_error

fun send_attempts :: "charge_env \<Rightarrow> versioned_transaction \<Rightarrow> bool \<Rightarrow> nat \<Rightarrow> bool \<Rightarrow> send_outcome" where
  "send_attempts E tx uses_challenge_blockhash 0 maybe_sent = MaybeSent (network_error ''Broadcast did not complete'')"
| "send_attempts E tx uses_challenge_blockhash (Suc left) maybe_sent =
     (let retrying = left > 0 in
      case send_transaction E (SIMULATION_MAX_ATTEMPTS - left) tx of
        Inr signature \<Rightarrow> Sent signature
      | Inl (Preflight sim_err logs) \<Rightarrow>
          if \<not> retrying \<and> uses_challenge_blockhash \<and> is_blockhash_not_found_simulation sim_err
          then (case send_skip_preflight E tx of
              Inr signature \<Rightarrow> Sent signature
            | Inl skip_err \<Rightarrow> MaybeSent (network_error
                (''Broadcast RPC error after blockhash preflight failure: '' @ skip_err)))
          else if retrying then send_attempts E tx uses_challenge_blockhash left maybe_sent
          else (let error = transaction_failed (''Simulation failed: ''
                  @ unwrap_or sim_err ''unknown error'' @ log_detail logs @ balance_detail E tx) in
                if maybe_sent then MaybeSent error else NeverSent error)
      | Inl (SendFailed err) \<Rightarrow>
          if retrying then send_attempts E tx uses_challenge_blockhash left True
          else MaybeSent (network_error (''Broadcast RPC error: '' @ err)))"

datatype settle_failure =
    Failed verification_error
  | Unconfirmed string verification_error

type_synonym settling = "((settle_failure + string) \<times> broadcast_fence) prog"

definition broadcast_pull :: "'hash charge_lib \<Rightarrow> mpp \<Rightarrow> charge_env \<Rightarrow> string \<Rightarrow> charge_request
    \<Rightarrow> method_details \<Rightarrow> payment_challenge \<Rightarrow> broadcast_fence \<Rightarrow> settling" where
  "broadcast_pull L M E transaction_b64 request details challenge fence =
     (case prepare_pull L M transaction_b64 request details challenge of
        Inl e \<Rightarrow> Done (Inl (Failed e), fence)
      | Inr (tx, local_signature, uses_challenge_blockhash) \<Rightarrow>
          bind_prog (fence_begin (lib_records L) E fence local_signature) (\<lambda>(begun, fence).
            case begun of
              Inl e \<Rightarrow> Done (Inl (Failed e), fence)
            | Inr _ \<Rightarrow>
                Broadcast local_signature
                (case send_attempts E tx uses_challenge_blockhash SIMULATION_MAX_ATTEMPTS False of
                   Sent signature \<Rightarrow> Done (Inr signature, fence)
                 | MaybeSent error \<Rightarrow> Done (Inl (Unconfirmed local_signature error), fence)
                 | NeverSent error \<Rightarrow>
                     bind_prog (fence_abandon (lib_records L) E fence) (\<lambda>fence.
                       Done (Inl (Failed error), fence)))))"

fun interpret_post_timeout_status :: "string + (string + unit) option \<Rightarrow> verification_error + unit" where
  "interpret_post_timeout_status (Inr (Some (Inr _))) = Inr ()"
| "interpret_post_timeout_status (Inr (Some (Inl on_chain_err))) =
     Inl (transaction_failed (''Transaction landed on-chain but failed: '' @ on_chain_err))"
| "interpret_post_timeout_status (Inr None) = Inl (network_error ''Transaction not confirmed within timeout'')"
| "interpret_post_timeout_status (Inl rpc_err) = Inl (network_error
     (''Transaction not confirmed within timeout; final status check failed: '' @ rpc_err))"

definition await_pull_confirmation :: "'hash charge_lib \<Rightarrow> charge_env \<Rightarrow> string \<Rightarrow> verification_error + unit" where
  "await_pull_confirmation L E signature_str =
     try_bind (map_err (\<lambda>e. invalid_payload (''Invalid settlement signature: '' @ e))
         (signature_from_str L signature_str)) (\<lambda>_.
     if list_ex (\<lambda>n. confirm_transaction E n signature_str = Inr True) [0..<30] then Inr ()
     else interpret_post_timeout_status (signature_status E signature_str))"

section \<open>Push mode\<close>

definition within_replay_retention :: "'hash charge_lib \<Rightarrow> int \<Rightarrow> ustring option
    \<Rightarrow> verification_error + unit" where
  "within_replay_retention L now expires =
     try_bind (ok_or expires (credential_mismatch
         ''Push-mode charges require a challenge expiry within the replay retention window'')) (\<lambda>expires.
     try_bind (ok_or (parse_rfc3339 L expires) (ve_new ''Invalid expires timestamp in challenge'')) (\<lambda>expires_at.
     let horizon = now + int (unat DEFAULT_CHARGE_RECORD_RETENTION) * 1000000000 in
     if expires_at > horizon
     then Inl (credential_mismatch (''Push-mode challenge expiry '' @ utf8_text expires @ '' exceeds the ''
            @ show_nat (unat DEFAULT_CHARGE_RECORD_RETENTION) @ ''s replay retention window''))
     else Inr ()))"

definition verify_push :: "'hash charge_lib \<Rightarrow> mpp \<Rightarrow> charge_env \<Rightarrow> string \<Rightarrow> charge_request \<Rightarrow> method_details
    \<Rightarrow> verification_error + string" where
  "verify_push L M E signature_str request details =
     try_bind (verify_on_chain (lib_keys L) (mpp_accepted_versions M) (mpp_token_program M)
         (signature_from_str L) (confirmed_at E) (unix_at E AtPush) signature_str request details)
       (\<lambda>_. Inr signature_str)"

section \<open>Settling a payload\<close>

text \<open>A server without a channel charge configuration refuses every channel charge.\<close>

definition validate_channel_policy :: "method_details \<Rightarrow> charge_error + unit" where
  "validate_channel_policy details =
     (case md_channel_charge details of
        None \<Rightarrow> Inr ()
      | Some profile \<Rightarrow> Inl (InvalidConfig ''channel charges are disabled''))"

definition settle_pull :: "'hash charge_lib \<Rightarrow> mpp \<Rightarrow> charge_env \<Rightarrow> string \<Rightarrow> charge_request
    \<Rightarrow> method_details \<Rightarrow> payment_challenge \<Rightarrow> broadcast_fence \<Rightarrow> settling" where
  "settle_pull L M E transaction request details challenge fence =
     bind_prog (broadcast_pull L M E transaction request details challenge fence) (\<lambda>(sent, fence). Done
       (try_bind sent (\<lambda>signature.
          case await_pull_confirmation L E signature of
            Inr _ \<Rightarrow> Inr signature
          | Inl error \<Rightarrow> if \<not> ve_retryable error then Inl (Failed error) else Inl (Unconfirmed signature error)),
        fence))"

definition settle_push :: "'hash charge_lib \<Rightarrow> mpp \<Rightarrow> charge_env \<Rightarrow> string \<Rightarrow> charge_request
    \<Rightarrow> method_details \<Rightarrow> payment_challenge \<Rightarrow> (verification_error + string) prog" where
  "settle_push L M E signature request details challenge =
     (if \<not> mpp_accept_push_mode M
      then Done (Inl (credential_mismatch (''Push-mode credentials are disabled on this server (Config.accept_push_mode is false; spec ''
             @ section_sign @ ''13.5)'')))
      else if unwrap_or (md_fee_payer details) False
      then Done (Inl (credential_mismatch
             ''Push-mode credentials are not allowed when the route uses a server-side fee payer''))
      else case try_bind (within_replay_retention L (clock E AtRetention) (pc_expires challenge)) (\<lambda>_.
             verify_push L M E signature request details) of
        Inl e \<Rightarrow> Done (Inl e)
      | Inr signature_str \<Rightarrow>
          bind_try (consume_signature signature_str) (\<lambda>_. Done (Inr signature_str)))"

definition settle_payload :: "'hash charge_lib \<Rightarrow> mpp \<Rightarrow> charge_env \<Rightarrow> credential_payload \<Rightarrow> charge_request
    \<Rightarrow> method_details \<Rightarrow> payment_challenge \<Rightarrow> broadcast_fence \<Rightarrow> settling" where
  "settle_payload L M E payload request details challenge fence =
     (case validate_channel_policy details of
        Inl e \<Rightarrow> Done (Inl (Failed (invalid_payload (show_charge_error e))), fence)
      | Inr _ \<Rightarrow>
          (case payload of
             TransactionPayload transaction \<Rightarrow> settle_pull L M E transaction request details challenge fence
           | SignaturePayload signature \<Rightarrow>
               bind_prog (settle_push L M E signature request details challenge) (\<lambda>r.
                 Done (map_err Failed r, fence))
           | BundlePayload transactions \<Rightarrow> Done (Inl (Failed (credential_mismatch
               ''Confidential-transfer bundle credentials are not supported by this server (built without the `confidential` feature)'')), fence)))"

end
