(* ===== verification/Charge_Verify.thy ===== *)
theory Charge_Verify
  imports Charge_Settle
begin

text \<open>
  Verifying a charge credential: \<open>verify_bound\<close> of \<open>mpp/server/charge.rs\<close>, the one way to a
  receipt, with what it checks before it settles and how it reconciles a broadcast whose outcome
  was unknown.
\<close>

section \<open>Receipts\<close>

datatype receipt_status = Success

record receipt =
  rc_status :: receipt_status
  rc_method :: string
  rc_timestamp :: int
  rc_reference :: string
  rc_challenge_id :: string

definition METHOD_NAME :: string where
  "METHOD_NAME = ''solana''"

definition receipt_success :: "charge_env \<Rightarrow> string \<Rightarrow> string \<Rightarrow> receipt" where
  "receipt_success E reference challenge_id =
     \<lparr>rc_status = Success, rc_method = METHOD_NAME, rc_timestamp = clock E AtReceipt,
      rc_reference = reference, rc_challenge_id = challenge_id\<rparr>"

section \<open>Comparing the presented request with the issued one\<close>

definition parse_method_details_for_compare :: "'hash charge_lib \<Rightarrow> json option \<Rightarrow> string
    \<Rightarrow> verification_error + method_details" where
  "parse_method_details_for_compare L md label =
     (case md of
        Some v \<Rightarrow> map_err (\<lambda>e. credential_mismatch (''Invalid '' @ label @ '' methodDetails: '' @ e))
                    (details_from_value L v)
      | None \<Rightarrow> Inr default_method_details)"

definition splits_eq :: "charge_split list option \<Rightarrow> charge_split list option \<Rightarrow> bool" where
  "splits_eq a b =
     (let a = unwrap_or a []; b = unwrap_or b [] in
      if length a \<noteq> length b then False
      else list_all (\<lambda>(x, y). sp_recipient x = sp_recipient y \<and> sp_amount x = sp_amount y
             \<and> sp_ata_creation_required x = sp_ata_creation_required y \<and> sp_label x = sp_label y
             \<and> sp_memo x = sp_memo y) (zip a b))"

definition same_channel_policy :: "method_details \<Rightarrow> method_details \<Rightarrow> bool" where
  "same_channel_policy a b =
     (case (md_channel_charge a, md_channel_charge b) of
        (None, None) \<Rightarrow> True
      | (Some p, Some q) \<Rightarrow> ccp_channel_program p = ccp_channel_program q
          \<and> ccp_channel_version p = ccp_channel_version q \<and> ccp_channel_hooks p = ccp_channel_hooks q
      | _ \<Rightarrow> False)"

definition compare_details :: "method_details \<Rightarrow> method_details \<Rightarrow> verification_error + unit" where
  "compare_details request_md expected_md =
     (if \<not> same_channel_policy request_md expected_md
      then Inl (credential_mismatch ''channel charge profile mismatch'')
      else if md_network request_md \<noteq> md_network expected_md
      then Inl (credential_mismatch ''methodDetails.network mismatch'')
      else if md_decimals request_md \<noteq> md_decimals expected_md
      then Inl (credential_mismatch ''methodDetails.decimals mismatch'')
      else if md_token_program request_md \<noteq> md_token_program expected_md
      then Inl (credential_mismatch ''methodDetails.tokenProgram mismatch'')
      else if md_fee_payer request_md \<noteq> md_fee_payer expected_md
      then Inl (credential_mismatch ''methodDetails.feePayer mismatch'')
      else if md_fee_payer_key request_md \<noteq> md_fee_payer_key expected_md
      then Inl (credential_mismatch ''methodDetails.feePayerKey mismatch'')
      else if unwrap_or (md_confidential request_md) False \<noteq> unwrap_or (md_confidential expected_md) False
      then Inl (credential_mismatch ''methodDetails.confidential mismatch'')
      else if md_auditor_elgamal_pubkey request_md \<noteq> md_auditor_elgamal_pubkey expected_md
        \<or> md_recipient_elgamal_pubkey request_md \<noteq> md_recipient_elgamal_pubkey expected_md
      then Inl (credential_mismatch ''methodDetails confidential keys mismatch'')
      else if \<not> splits_eq (md_splits request_md) (md_splits expected_md)
      then Inl (credential_mismatch ''methodDetails.splits mismatch'')
      else Inr ())"

definition compare_expected_to_request :: "'hash charge_lib \<Rightarrow> charge_request \<Rightarrow> charge_request
    \<Rightarrow> verification_error + unit" where
  "compare_expected_to_request L request expected =
     (if cr_amount request \<noteq> cr_amount expected
      then Inl (credential_mismatch (''Amount mismatch: credential has '' @ cr_amount request
             @ '' but endpoint expects '' @ cr_amount expected))
      else if cr_currency request \<noteq> cr_currency expected
      then Inl (credential_mismatch (''Currency mismatch: credential has '' @ cr_currency request
             @ '' but endpoint expects '' @ cr_currency expected))
      else if cr_recipient request \<noteq> cr_recipient expected
      then Inl (credential_mismatch ''Recipient mismatch'')
      else if cr_external_id request \<noteq> cr_external_id expected
      then Inl (credential_mismatch ''externalId mismatch'')
      else if cr_description request \<noteq> cr_description expected
      then Inl (credential_mismatch ''description mismatch'')
      else
      try_bind (parse_method_details_for_compare L (cr_method_details request) ''credential'') (\<lambda>request_md.
      try_bind (parse_method_details_for_compare L (cr_method_details expected) ''expected'') (\<lambda>expected_md.
        compare_details request_md expected_md)))"

section \<open>Pinned fields\<close>

definition is_charge :: "ustring \<Rightarrow> bool" where
  "is_charge intent \<longleftrightarrow> eq_ignore_ascii_case intent (ascii ''charge'')"

definition request_network :: "charge_request \<Rightarrow> verification_error + string" where
  "request_network request =
     (case Option.bind (cr_method_details request) (\<lambda>md. json_get md ''network'') of
        None \<Rightarrow> Inr ''mainnet''
      | Some network \<Rightarrow> ok_or (as_str network) (invalid_payload ''methodDetails.network must be a string''))"

definition verify_pinned_fields :: "mpp \<Rightarrow> payment_credential \<Rightarrow> charge_request \<Rightarrow> verification_error + unit" where
  "verify_pinned_fields M credential request =
     (let challenge = cd_challenge credential in
      if utf8_text (pc_method challenge) \<noteq> METHOD_NAME
      then Inl (credential_mismatch (''Credential method '' @ quoted (utf8_text (pc_method challenge))
             @ '' does not match this server (expected '' @ quoted METHOD_NAME @ '')''))
      else if \<not> is_charge (pc_intent challenge)
      then Inl (credential_mismatch (''Credential intent '' @ quoted (utf8_text (pc_intent challenge))
             @ '' is not a charge''))
      else if pc_realm challenge \<noteq> mpp_realm M
      then Inl (credential_mismatch (''Credential realm '' @ quoted (utf8_text (pc_realm challenge))
             @ '' does not match this server (expected '' @ quoted (utf8_text (mpp_realm M)) @ '')''))
      else if cr_currency request \<noteq> mpp_currency M
      then Inl (credential_mismatch (''Credential currency '' @ quoted (cr_currency request)
             @ '' does not match this server (expected '' @ quoted (mpp_currency M) @ '')''))
      else if cr_recipient request \<noteq> Some (mpp_recipient M)
      then Inl (credential_mismatch ''Credential recipient does not match this server'')
      else
      try_bind (request_network request) (\<lambda>network.
      if network \<noteq> mpp_network M
      then Inl (credential_mismatch (''Credential network '' @ quoted network
             @ '' does not match this server (expected '' @ quoted (mpp_network M) @ '')''))
      else Inr ()))"

section \<open>What identifies a presentation\<close>

definition hex_digit :: "nat \<Rightarrow> char" where
  "hex_digit n = char_of (if n < 10 then 48 + n else 87 + n)"

definition hex_byte :: "nat \<Rightarrow> string" where
  "hex_byte b = [hex_digit (b div 16), hex_digit (b mod 16)]"

definition normalized_request_digest :: "'hash charge_lib \<Rightarrow> ustring \<Rightarrow> ustring \<Rightarrow> credential_payload
    \<Rightarrow> verification_error + string" where
  "normalized_request_digest L challenge_id encoded_request payload =
     try_bind (map_err (\<lambda>e. ve_new (''Failed to hash credential payload for idempotency check: '' @ e))
         (payload_to_vec L payload)) (\<lambda>vec.
       Inr (concat (map hex_byte (sha256 L (utf8 challenge_id @ utf8 encoded_request @ vec)))))"

definition challenge_route :: "'hash charge_lib \<Rightarrow> payment_challenge \<Rightarrow> string option" where
  "challenge_route L challenge =
     Option.bind (pc_opaque challenge) (\<lambda>raw.
       case decode_value L raw of
         Inl _ \<Rightarrow> None
       | Inr v \<Rightarrow> Option.bind (json_get v ''route'') as_str)"

section \<open>Reconciling a broadcast of unknown outcome\<close>

definition expired_pending_charge :: "'hash charge_lib \<Rightarrow> payment_credential
    \<Rightarrow> (verification_error + (nat \<times> string) option) prog" where
  "expired_pending_charge L credential =
     (case payload_from_value L (cd_payload credential) of
        Inl _ \<Rightarrow> Done (Inr None)
      | Inr payload \<Rightarrow>
          (let challenge = cd_challenge credential in
           bind_try (Done (normalized_request_digest L (pc_id challenge) (pc_request challenge) payload)) (\<lambda>digest.
           bind_prog (pending (lib_records L) (utf8_text (pc_id challenge)) digest) (\<lambda>r. Done
             (map_err (\<lambda>e. ve_new (''Store error: '' @ show_store_error e)) r)))))"

definition unresolved :: "string \<Rightarrow> string \<Rightarrow> verification_error" where
  "unresolved signature detail = settlement_in_progress (''Transaction '' @ signature
     @ '' is not yet confirmed; retry shortly, do not pay again'' @ detail)"

definition already_settled :: "string \<Rightarrow> string \<Rightarrow> verification_error" where
  "already_settled challenge_id signature = signature_consumed (''Transaction signature already consumed ''
     @ em_dash @ '' challenge '' @ challenge_id @ '' was already settled (tx '' @ signature @ '')'')"

definition reconcile_pending_charge :: "'hash charge_lib \<Rightarrow> charge_env \<Rightarrow> string \<Rightarrow> nat \<Rightarrow> string
    \<Rightarrow> (verification_error + receipt) prog" where
  "reconcile_pending_charge L E challenge_id generation signature =
     (case signature_from_str L signature of
        Inl e \<Rightarrow> Done (Inl (ve_new (''Invalid pending settlement signature: '' @ e)))
      | Inr _ \<Rightarrow>
          (case signature_status_with_history E signature of
             Inl e \<Rightarrow> Done (Inl (unresolved signature ('': '' @ e)))
           | Inr None \<Rightarrow> Done (Inl (unresolved signature []))
           | Inr (Some (Inr _)) \<Rightarrow>
               bind_prog (confirm_pending (lib_records L) challenge_id generation signature
                   (unix_at E AtConfirm)) (\<lambda>claimed. Done
                 (case claimed of
                    Inl e \<Rightarrow> Inl (unresolved signature ('': '' @ show_store_error e))
                  | Inr False \<Rightarrow> Inl (already_settled challenge_id signature)
                  | Inr True \<Rightarrow> Inr (receipt_success E signature challenge_id)))
           | Inr (Some (Inl error)) \<Rightarrow>
               (let failure = transaction_failed (''Transaction landed on-chain but failed: '' @ error) in
                bind_prog (mark_failed (lib_records L) challenge_id generation (ve_message failure)
                    (unix_at E AtFail)) (\<lambda>_. Done (Inl failure)))))"

section \<open>Verifying a credential\<close>

text \<open>
  The expiry of the challenge.  An expired channel challenge goes on (to be refused by the channel
  policy); any other expired challenge goes on only with a pending broadcast to reconcile.
\<close>

definition expiry_gate :: "'hash charge_lib \<Rightarrow> charge_env \<Rightarrow> payment_credential
    \<Rightarrow> (verification_error + bool \<times> (nat \<times> string) option) prog" where
  "expiry_gate L E credential =
     (let challenge = cd_challenge credential in
      case pc_expires challenge of
        None \<Rightarrow> Done (Inr (False, None))
      | Some expires \<Rightarrow>
          (case parse_rfc3339 L expires of
             None \<Rightarrow> Done (Inl (ve_new ''Invalid expires timestamp in challenge''))
           | Some expires_at \<Rightarrow>
               if expires_at > clock E AtExpiry then Done (Inr (False, None))
               else bind_try (Done (map_err invalid_payload (decode_request L (pc_request challenge)))) (\<lambda>issued.
                 let channel = Option.bind (cr_method_details issued) (\<lambda>md. json_get md ''channelCharge'') in
                 if channel \<noteq> None \<and> channel \<noteq> Some JNull then Done (Inr (True, None))
                 else bind_try (expired_pending_charge L credential) (\<lambda>expired_pending.
                   if expired_pending = None
                   then Done (Inl (expired (''Challenge expired at '' @ utf8_text expires)))
                   else Done (Inr (False, expired_pending))))))"

text \<open>Everything that is decided from the credential and the request alone.\<close>

definition accept_terms :: "'hash charge_lib \<Rightarrow> mpp \<Rightarrow> payment_credential \<Rightarrow> charge_request
    \<Rightarrow> verification_error + credential_payload \<times> method_details \<times> string" where
  "accept_terms L M credential request =
     (let challenge = cd_challenge credential in
      try_bind (map_err (\<lambda>e. invalid_payload (''Failed to decode credential request: '' @ e))
          (decode_request L (pc_request challenge))) (\<lambda>credential_request.
      try_bind (compare_expected_to_request L credential_request request) (\<lambda>_.
      try_bind (verify_pinned_fields M credential request) (\<lambda>_.
      try_bind (map_err (\<lambda>e. invalid_payload (''Invalid credential payload: '' @ e))
          (payload_from_value L (cd_payload credential))) (\<lambda>payload.
      try_bind (case cr_method_details request of
          None \<Rightarrow> Inr default_method_details
        | Some v \<Rightarrow> map_err (\<lambda>e. invalid_payload (''Invalid method details: '' @ e)) (details_from_value L v))
        (\<lambda>details.
      if md_confidential details = Some True \<and> (case payload of BundlePayload _ \<Rightarrow> False | _ \<Rightarrow> True)
      then Inl (credential_mismatch
             ''Confidential challenges must be settled with a Bundle credential, not a cleartext transfer or push signature'')
      else
      try_bind (normalized_request_digest L (pc_id challenge) (pc_request challenge) payload) (\<lambda>digest.
        Inr (payload, details, digest))))))))"

definition conclude_settlement :: "'hash charge_lib \<Rightarrow> charge_env \<Rightarrow> string
    \<Rightarrow> (settle_failure + string) \<times> broadcast_fence \<Rightarrow> (verification_error + receipt) prog" where
  "conclude_settlement L E challenge_id outcome =
     (case outcome of
        (Inr signature_str, fence) \<Rightarrow>
          bind_prog (mark_confirmed (lib_records L) challenge_id (bf_generation fence) signature_str
              (unix_at E AtConfirm)) (\<lambda>marked. Done
            (case marked of
               Inr True \<Rightarrow> Inr (receipt_success E signature_str challenge_id)
             | Inr False \<Rightarrow> Inl (already_settled challenge_id signature_str)
             | Inl e \<Rightarrow>
                 if bf_pending fence \<noteq> None
                 then Inl (settlement_in_progress (''Transaction '' @ signature_str
                        @ '' confirmed but its record could not be stored; retry with the same credential, do not pay again: ''
                        @ show_store_error e))
                 else Inr (receipt_success E signature_str challenge_id)))
      | (Inl (Unconfirmed signature error), fence) \<Rightarrow>
          Done (Inl (settlement_in_progress (''Transaction '' @ signature
            @ '' was broadcast but not yet confirmed; retry with the same credential to reconcile, do not pay again: ''
            @ ve_message error)))
      | (Inl (Failed err), fence) \<Rightarrow>
          bind_prog (mark_failed (lib_records L) challenge_id (bf_generation fence) (ve_message err)
              (unix_at E AtFail)) (\<lambda>_. Done (Inl err)))"

definition settle_reservation :: "'hash charge_lib \<Rightarrow> mpp \<Rightarrow> charge_env \<Rightarrow> credential_payload \<Rightarrow> charge_request
    \<Rightarrow> method_details \<Rightarrow> payment_challenge \<Rightarrow> string \<Rightarrow> charge_reservation \<Rightarrow> (verification_error + receipt) prog" where
  "settle_reservation L M E payload request details challenge challenge_id reservation =
     (case reservation of
        AlreadyConfirmed signature \<Rightarrow> Done (Inl (already_settled challenge_id signature))
      | AlreadyFailed reason \<Rightarrow> Done (Inl (ve_new reason))
      | InProgress \<Rightarrow> Done (Inl (settlement_in_progress
          ''This challenge is already being settled by another request; retry shortly''))
      | Conflict \<Rightarrow> Done (Inl (challenge_conflict
          ''This challenge was already presented with a different request or credential''))
      | PendingConfirmation generation signature \<Rightarrow>
          reconcile_pending_charge L E challenge_id generation signature
      | Reserved generation \<Rightarrow>
          bind_prog (settle_payload L M E payload request details challenge
              \<lparr>bf_challenge_id = challenge_id, bf_generation = generation, bf_pending = None\<rparr>)
            (conclude_settlement L E challenge_id))"

definition verify_bound :: "'hash charge_lib \<Rightarrow> mpp \<Rightarrow> charge_env \<Rightarrow> payment_credential \<Rightarrow> charge_request
    \<Rightarrow> string option \<Rightarrow> (verification_error + receipt) prog" where
  "verify_bound L M E credential request route =
     (let request = with_wire_currency (lib_keys L) (mpp_network M) request;
          challenge = cd_challenge credential;
          expected_id = compute_challenge_id (lib_mac L) (mpp_secret M) (mpp_realm M) (pc_method challenge)
            (pc_intent challenge) (pc_request challenge) (pc_expires challenge) (pc_digest challenge)
            (pc_opaque challenge);
          challenge_id = utf8_text (pc_id challenge) in
      if \<not> constant_time_eq (pc_id challenge) expected_id
      then Done (Inl (credential_mismatch (''Challenge ID mismatch '' @ em_dash @ '' not issued by this server'')))
      else if challenge_route L challenge \<noteq> route
      then Done (Inl (credential_mismatch ''Credential was issued for a different route''))
      else
      bind_try (expiry_gate L E credential) (\<lambda>(expired_channel_challenge, expired_pending).
      bind_try (Done (accept_terms L M credential request)) (\<lambda>(payload, details, digest).
      bind_try (Done (map_err (\<lambda>e. invalid_payload (show_charge_error e)) (validate_channel_policy details))) (\<lambda>_.
      if expired_channel_challenge
      then Done (Inl (expired ''Expired channel challenge has no submitted payment to reconcile''))
      else case expired_pending of
        Some (generation, signature) \<Rightarrow>
          reconcile_pending_charge L E challenge_id generation signature
      | None \<Rightarrow>
          bind_prog (reserve (lib_records L) challenge_id digest CHARGE_RESERVATION_LEASE (unix_at E AtReserve)) (\<lambda>r.
            case r of
              Inl e \<Rightarrow> Done (Inl (ve_new (''Store error: '' @ show_store_error e)))
            | Inr reservation \<Rightarrow>
                settle_reservation L M E payload request details challenge challenge_id reservation)))))"

text \<open>The public entry points.\<close>

definition verify :: "'hash charge_lib \<Rightarrow> mpp \<Rightarrow> charge_env \<Rightarrow> payment_credential \<Rightarrow> charge_request
    \<Rightarrow> (verification_error + receipt) prog" where
  "verify L M E credential request = verify_bound L M E credential request None"

definition verify_credential_with_expected :: "'hash charge_lib \<Rightarrow> mpp \<Rightarrow> charge_env \<Rightarrow> payment_credential
    \<Rightarrow> charge_request \<Rightarrow> (verification_error + receipt) prog" where
  "verify_credential_with_expected L M E credential expected = verify L M E credential expected"

definition verify_credential_for_route :: "'hash charge_lib \<Rightarrow> mpp \<Rightarrow> charge_env \<Rightarrow> payment_credential
    \<Rightarrow> charge_request \<Rightarrow> string \<Rightarrow> (verification_error + receipt) prog" where
  "verify_credential_for_route L M E credential expected route =
     verify_bound L M E credential expected (Some route)"

end
