(* ===== verification/Store_Rely.thy ===== *)
theory Store_Rely
  imports Store_Contract
begin

text \<open>
  Rely-guarantee reasoning about programs that run beside others on one store.

  \<open>upholds\<close>: a program whose every step keeps the rely relation, whatever related view it runs on,
  and whose result satisfies a postcondition.  The rules compose along \<open>bind_prog\<close>; a program that
  upholds the relation can be put before a \<open>safe\<close> one (\<open>safe_bind\<close>), which is how the once-only
  argument reaches whole request handlers.  \<open>returns\<close> names the results a program can have at all,
  whatever the store answers.
\<close>

lemma bind_try_Done: "bind_try (Done r) f = (case r of Inl e \<Rightarrow> Done (Inl e) | Inr a \<Rightarrow> f a)"
  by (simp add: bind_try_def)

section \<open>Results under arbitrary answers\<close>

inductive returns :: "'r prog \<Rightarrow> 'r \<Rightarrow> bool" where
  "returns (Done r) r"
| "returns (c x) r \<Longrightarrow> returns (Get k c) r"
| "returns (c u) r \<Longrightarrow> returns (Put k v c) r"
| "returns (c u) r \<Longrightarrow> returns (Delete k c) r"
| "returns (c b) r \<Longrightarrow> returns (PutIfAbsent k v c) r"
| "returns (c b) r \<Longrightarrow> returns (PutIfEq k e v c) r"
| "returns p r \<Longrightarrow> returns (Broadcast m p) r"

inductive_simps returns_simps [simp]:
  "returns (Done r') r" "returns (Get k c) r" "returns (Put k v c) r" "returns (Delete k c) r"
  "returns (PutIfAbsent k v c) r" "returns (PutIfEq k e v c) r" "returns (Broadcast m p) r"

lemma returns_bind_prog [simp]: "returns (bind_prog p f) r \<longleftrightarrow> (\<exists>a. returns p a \<and> returns (f a) r)"
  by (induction p) auto

lemma returns_bind_try_Inr: "returns (bind_try p f) (Inr r) \<longleftrightarrow> (\<exists>a. returns p (Inr a) \<and> returns (f a) (Inr r))"
  by (force simp: bind_try_def split: sum.split_asm)

lemma vstep_returns: "vstep p V p' V' \<Longrightarrow> returns p' r \<Longrightarrow> returns p r"
  by (cases rule: vstep.cases) auto

section \<open>Programs that keep a relation\<close>

inductive upholds :: "(view \<Rightarrow> view \<Rightarrow> bool) \<Rightarrow> ('r \<Rightarrow> view \<Rightarrow> bool) \<Rightarrow> 'r prog \<Rightarrow> view \<Rightarrow> bool"
  for rely post where
  upholds_Done: "post r V \<Longrightarrow> upholds rely post (Done r) V"
| upholds_step:
    "(\<And>r. p \<noteq> Done r) \<Longrightarrow>
     (\<And>V1 p' V2. rely V V1 \<Longrightarrow> vstep p V1 p' V2 \<Longrightarrow> rely V1 V2 \<and> upholds rely post p' V2) \<Longrightarrow>
     upholds rely post p V"

inductive_simps upholds_Done_iff [simp]: "upholds rely post (Done r) V"

lemma bind_prog_eq_Done: "bind_prog p f = Done r \<longleftrightarrow> (\<exists>a. p = Done a \<and> f a = Done r)"
  by (cases p) auto

lemma vstep_bind_prog:
  assumes "vstep (bind_prog p f) V q V'" "\<And>a. p \<noteq> Done a"
  shows "\<exists>p'. q = bind_prog p' f \<and> vstep p V p' V'"
  using assms by (cases p) (auto intro: vstep.intros)

locale rely_order =
  fixes rely :: "view \<Rightarrow> view \<Rightarrow> bool"
  assumes refl [simp]: "rely V V"
    and trans: "rely V1 V2 \<Longrightarrow> rely V2 V3 \<Longrightarrow> rely V1 V3"
begin

lemma upholds_bind:
  assumes "upholds rely Q p V" "\<And>r V'. rely V V' \<Longrightarrow> Q r V' \<Longrightarrow> upholds rely post (f r) V'"
  shows "upholds rely post (bind_prog p f) V"
  using assms
proof (induction rule: upholds.induct)
  case (upholds_step p V)
  show ?case
  proof (rule upholds.upholds_step)
    fix V1 p' V2
    assume r: "rely V V1" and "vstep (bind_prog p f) V1 p' V2"
    then obtain q where q: "p' = bind_prog q f" "vstep p V1 q V2"
      using vstep_bind_prog upholds_step.hyps by blast
    with upholds_step.IH [OF r q(2)] upholds_step.prems trans [OF r] trans
    show "rely V1 V2 \<and> upholds rely post p' V2" by metis
  qed (use upholds_step.hyps in \<open>auto simp: bind_prog_eq_Done\<close>)
qed simp

lemma upholds_mono:
  assumes "upholds rely Q p V" "\<And>r V'. rely V V' \<Longrightarrow> Q r V' \<Longrightarrow> post r V'"
  shows "upholds rely post p V"
  using upholds_bind [OF assms(1), of post Done] assms(2) by simp

lemma safe_bind:
  assumes "upholds rely Q p V" "\<And>r V'. rely V V' \<Longrightarrow> Q r V' \<Longrightarrow> safe rely spent win (f r) V'"
  shows "safe rely spent win (bind_prog p f) V"
  using assms
proof (induction rule: upholds.induct)
  case (upholds_step p V)
  show ?case
  proof (rule safe_step)
    fix V1 p' V2
    assume r: "rely V V1" and "vstep (bind_prog p f) V1 p' V2"
    then obtain q where q: "p' = bind_prog q f" "vstep p V1 q V2"
      using vstep_bind_prog upholds_step.hyps by blast
    with upholds_step.IH [OF r q(2)] upholds_step.prems trans [OF r] trans
    show "rely V1 V2 \<and> (safe rely spent win p' V2 \<or> is_won win p' \<and> spent V2 \<and> \<not> spent V1)" by metis
  qed (use upholds_step.hyps in \<open>auto simp: bind_prog_eq_Done\<close>)
qed simp

lemma confined_upholds:
  assumes "confined P Q p" and upd: "\<And>V k x. P k \<Longrightarrow> rely V (V(k := x))"
  shows "upholds rely (\<lambda>r _. Q r) p V"
  using assms(1)
proof (induction p arbitrary: V)
  case (Get k c)
  then show ?case by (intro upholds_step) auto
next
  case (Put k v c)
  then show ?case by (intro upholds_step) (auto intro: upd)
next
  case (Delete k c)
  then show ?case by (intro upholds_step) (auto intro: upd)
next
  case (PutIfAbsent k v c)
  then show ?case by (intro upholds_step) (auto intro: upd)
next
  case (PutIfEq k e v c)
  then show ?case by (intro upholds_step) (auto intro: upd)
next
  case (Broadcast m p)
  then show ?case by (intro upholds_step) auto
qed simp

lemma upholds_Broadcast:
  "(\<And>V'. rely V V' \<Longrightarrow> upholds rely post p V') \<Longrightarrow> upholds rely post (Broadcast m p) V"
  by (rule upholds_step) auto

end

section \<open>Many requests\<close>

text \<open>A finished request satisfies its postcondition, whatever ran beside it.\<close>

locale rely_store = store_contract S view ok + rely_order rely
  for S :: "'s store" and view :: "'s \<Rightarrow> view" and ok :: "'s \<Rightarrow> bool" and rely :: "view \<Rightarrow> view \<Rightarrow> bool" +
  fixes post :: "'r \<Rightarrow> view \<Rightarrow> bool"
  assumes post_stable: "rely V V' \<Longrightarrow> post r V \<Longrightarrow> post r V'"
begin

lemma upholds_rely: "upholds rely post p V \<Longrightarrow> rely V V' \<Longrightarrow> upholds rely post p V'"
  using trans by (elim upholds.cases) (blast intro: upholds.intros post_stable)+

lemma upholds_step_at:
  assumes "ok s" "\<And>p. p \<in> set ps \<Longrightarrow> upholds rely post p (view s)" "step_at S i (ps, s) = (ps', s')"
  shows "ok s' \<and> (\<forall>p \<in> set ps'. upholds rely post p (view s'))"
proof (cases "i < length ps \<and> (\<forall>r. ps ! i \<noteq> Done r)")
  case True
  obtain p' where st: "step_prog S (ps ! i) s = (p', s')" and ps': "ps' = ps[i := p']"
    using assms(3) True by (auto simp: step_at_def split: prod.splits)
  have vs: "ok s'" "vstep (ps ! i) (view s) p' (view s')"
    using step_prog_vstep [OF assms(1) st] True by auto
  have "upholds rely post (ps ! i) (view s)" using assms(2) True by simp
  then have "rely (view s) (view s') \<and> upholds rely post p' (view s')"
    by (cases rule: upholds.cases) (use True vs refl [of "view s"] in blast)+
  then have r: "rely (view s) (view s')" and p': "upholds rely post p' (view s')" by auto
  have "upholds rely post q (view s')" if "q \<in> set ps'" for q
  proof -
    from that have "q = p' \<or> q \<in> set ps" using set_update_subset_insert ps' by fastforce
    with p' upholds_rely [OF assms(2) r] show ?thesis by blast
  qed
  with vs(1) show ?thesis by blast
next
  case False
  then have "step_at S i (ps, s) = (ps, s)"
    by (auto simp: step_at_def) (metis list_update_id)
  then show ?thesis using assms by simp
qed

lemma upholds_interleave:
  assumes "ok s" "\<And>p. p \<in> set ps \<Longrightarrow> upholds rely post p (view s)" "interleave S sched (ps, s) = (ps', s')"
    "Done r \<in> set ps'"
  shows "post r (view s')"
proof -
  have "ok s' \<and> (\<forall>p \<in> set ps'. upholds rely post p (view s'))"
    using assms(1-3)
  proof (induction sched arbitrary: ps s)
    case (Cons i sched)
    obtain qs t where "step_at S i (ps, s) = (qs, t)" by force
    with upholds_step_at [OF Cons.prems(1,2) this] Cons.IH [of t qs] Cons.prems(3) show ?case by simp
  qed simp
  with assms(4) show ?thesis by force
qed

end

end
