(* ===== verification/Charge_Receipts.thy ===== *)
theory Charge_Receipts
  imports Charge_Verify Store_Rely
begin

text \<open>
  The receipts of the charge server under concurrency.  \<open>ledger_ok\<close> is what the records of one
  challenge satisfy at every moment, also while a first reservation is undone: generations above
  the root are never taken back, only the last may be terminal, and a pending one names a payment
  that was checked.  Every step of every request keeps it (locale \<open>charge_ledger\<close>), so that a
  challenge yields at most one receipt, and that for a checked payment.
\<close>

section \<open>The relation every request keeps\<close>

definition ledger_ok :: "record_codec \<Rightarrow> string \<Rightarrow> (string \<Rightarrow> bool) \<Rightarrow> view \<Rightarrow> bool" where
  "ledger_ok J c paid V \<longleftrightarrow>
     (\<forall>v. V (charge_record_key c 0) = Some v \<longrightarrow> (\<exists>r. from_value J v = Inr r \<and> cr_state r = StReserved))
     \<and> (\<forall>g v. V (charge_record_key c (Suc g)) = Some v \<longrightarrow> (\<exists>r. from_value J v = Inr r
          \<and> (cr_state r = StPending \<longrightarrow> (\<exists>s. cr_final_signature r = Some s \<and> paid s))))
     \<and> (\<forall>g. V (charge_record_key c (Suc (Suc g))) \<noteq> None \<longrightarrow> (\<exists>r. has_record J c V (Suc g) r \<and> unsettled r))"

definition receipt_rely :: "record_codec \<Rightarrow> string \<Rightarrow> (string \<Rightarrow> bool) \<Rightarrow> view \<Rightarrow> view \<Rightarrow> bool" where
  "receipt_rely J c paid V V' \<longleftrightarrow>
     (\<forall>g v. V (charge_record_key c (Suc g)) = Some v \<longrightarrow> V' (charge_record_key c (Suc g)) = Some v)
     \<and> (ledger_ok J c paid V \<longrightarrow> ledger_ok J c paid V')"

definition settled_once :: "record_codec \<Rightarrow> string \<Rightarrow> view \<Rightarrow> bool" where
  "settled_once J c V \<longleftrightarrow> (\<exists>g r. has_record J c V (Suc g) r \<and> cr_state r = StConfirmed)"

text \<open>What a request still knows of a record it read: the root may be gone, but was a reservation.\<close>

definition read_at :: "record_codec \<Rightarrow> string \<Rightarrow> view \<Rightarrow> nat \<Rightarrow> charge_record \<Rightarrow> bool" where
  "read_at J c V g r \<longleftrightarrow> (if g = 0 then cr_state r = StReserved else has_record J c V g r)"

definition receipt_for :: "string \<Rightarrow> verification_error + receipt \<Rightarrow> bool" where
  "receipt_for c r \<longleftrightarrow> (case r of Inr rc \<Rightarrow> rc_challenge_id rc = c | Inl _ \<Rightarrow> False)"

lemma receipt_rely_has:
  "receipt_rely J c paid V V' \<Longrightarrow> has_record J c V (Suc g) r \<Longrightarrow> has_record J c V' (Suc g) r"
  by (auto simp: receipt_rely_def has_record_def)

lemma receipt_rely_read_at: "receipt_rely J c paid V V' \<Longrightarrow> read_at J c V g r \<Longrightarrow> read_at J c V' g r"
  by (cases g) (auto simp: read_at_def receipt_rely_has)

lemma receipt_rely_ok: "receipt_rely J c paid V V' \<Longrightarrow> ledger_ok J c paid V \<Longrightarrow> ledger_ok J c paid V'"
  by (simp add: receipt_rely_def)

lemma has_record_unique: "has_record J c V g r \<Longrightarrow> has_record J c V g r' \<Longrightarrow> r = r'"
  by (auto simp: has_record_def)

lemma settled_once_stable: "receipt_rely J c paid V V' \<Longrightarrow> settled_once J c V \<Longrightarrow> settled_once J c V'"
  unfolding settled_once_def by (blast dest: receipt_rely_has)

lemma receipt_rely_other:
  assumes "\<And>g. k \<noteq> charge_record_key c g"
  shows "receipt_rely J c paid V (V(k := x))"
proof -
  have eq: "(V(k := x)) (charge_record_key c g) = V (charge_record_key c g)" for g
    using assms [of g] by auto
  show ?thesis unfolding receipt_rely_def ledger_ok_def has_record_def eq by blast
qed

interpretation receipt_order: rely_order "receipt_rely J c paid" for J c paid
  by unfold_locales (auto simp: receipt_rely_def)

text \<open>Generations are contiguous above the root.\<close>

lemma ledger_ok_below:
  assumes "ledger_ok J c paid V" "V (charge_record_key c (Suc h)) \<noteq> None" "g < h"
  shows "\<exists>r. has_record J c V (Suc g) r \<and> unsettled r"
  using assms(2,3)
proof (induction h)
  case (Suc h)
  with assms(1) have "\<exists>r. has_record J c V (Suc h) r \<and> unsettled r" by (auto simp: ledger_ok_def)
  with Suc show ?case by (cases "g = h") (auto simp: has_record_def)
qed simp

lemma charge_key_generation [simp]: "charge_record_key c g = charge_record_key c h \<longleftrightarrow> g = h"
  by (auto simp: charge_record_key_def)

text \<open>Appending behind a record that was read and is not terminal.\<close>

lemma ledger_extend:
  assumes ok: "ledger_ok J c paid V" and r: "read_at J c V g r" "unsettled r"
    and free: "V (charge_record_key c (Suc g)) = None" and v: "from_value J v = Inr r'"
    and pending: "cr_state r' = StPending \<Longrightarrow> \<exists>s. cr_final_signature r' = Some s \<and> paid s"
  shows "receipt_rely J c paid V (V(charge_record_key c (Suc g) \<mapsto> v))" and "\<not> settled_once J c V"
proof -
  have above: "V (charge_record_key c (Suc h)) = None" if "g \<le> h" for h
    using ledger_ok_below [OF ok, of h g] free that
    by (cases "g = h"; cases "V (charge_record_key c (Suc h))") (auto simp: has_record_def)
  show "\<not> settled_once J c V"
  proof
    assume "settled_once J c V"
    then obtain h x where x: "has_record J c V (Suc h) x" "cr_state x = StConfirmed"
      by (auto simp: settled_once_def)
    then have "h < g" using above [of h] by (fastforce simp: has_record_def)
    have "unsettled x"
    proof (cases "Suc h = g")
      case True
      with r x have "x = r" using has_record_unique by (fastforce simp: read_at_def)
      with r show ?thesis by simp
    next
      case False
      with \<open>h < g\<close> obtain k where k: "g = Suc k" "h < k" by (cases g) auto
      with r(1) have "V (charge_record_key c (Suc k)) \<noteq> None" by (auto simp: read_at_def has_record_def)
      with ledger_ok_below [OF ok _ k(2)] x has_record_unique show ?thesis by blast
    qed
    with x show False by (simp add: unsettled_def)
  qed
  let ?V = "V(charge_record_key c (Suc g) \<mapsto> v)"
  have keep: "has_record J c ?V (Suc h) x" if "has_record J c V (Suc h) x" for h x
    using that free by (auto simp: has_record_def)
  have "ledger_ok J c paid ?V"
    unfolding ledger_ok_def
  proof (intro conjI allI impI)
    fix h
    assume "?V (charge_record_key c (Suc (Suc h))) \<noteq> None"
    then consider "g = Suc h" | "V (charge_record_key c (Suc (Suc h))) \<noteq> None" by (auto split: if_splits)
    then show "\<exists>x. has_record J c ?V (Suc h) x \<and> unsettled x"
    proof cases
      case 1
      with r keep show ?thesis by (auto simp: read_at_def)
    next
      case 2
      with ok keep show ?thesis by (meson ledger_ok_def)
    qed
  qed (use ok v pending in \<open>auto simp: ledger_ok_def split: if_splits\<close>)
  then show "receipt_rely J c paid V ?V" using free by (auto simp: receipt_rely_def)
qed

text \<open>The keys of consumed signatures are not those of charge records.\<close>

definition signature_key :: "string \<Rightarrow> bool" where
  "signature_key k \<longleftrightarrow> (\<exists>s. k = consumed_signature_key s \<or> k \<in> set (legacy_consumed_signature_keys s))"

lemma signature_key_not_charge: "signature_key k \<Longrightarrow> k \<noteq> charge_record_key c g"
  by (auto simp: signature_key_def consumed_signature_key_def legacy_consumed_signature_keys_def
      charge_record_key_def)

lemma signature_key_intros [simp]:
  "signature_key (consumed_signature_key s)" "k \<in> set (legacy_consumed_signature_keys s) \<Longrightarrow> signature_key k"
  by (auto simp: signature_key_def)

lemma confined_give_back: "list_all P keys \<Longrightarrow> confined P (\<lambda>_. True) (give_back keys)"
  by (induction keys) auto

lemma confined_take_legacy:
  "list_all P keys \<Longrightarrow> list_all P taken \<Longrightarrow> confined P (\<lambda>r. \<forall>t. r = Inr t \<longrightarrow> list_all P t) (take_legacy keys taken)"
proof (induction keys arbitrary: taken)
  case (Cons k keys)
  then show ?case by (auto intro!: confined_bind_prog [OF confined_give_back])
qed simp

lemma confined_claim [simp]: "confined signature_key (\<lambda>_. True) (claim s)"
proof -
  have keys: "list_all signature_key (legacy_consumed_signature_keys s)" by (auto simp: list_all_iff)
  show ?thesis
    unfolding claim_def claim_with_def Let_def
    by (rule confined_bind_prog [OF confined_take_legacy [OF keys]])
      (auto simp: claim_finish_def intro!: confined_bind_prog [OF confined_give_back] split: sum.split)
qed

lemma confined_delete_keys: "list_all P keys \<Longrightarrow> confined P (\<lambda>_. True) (delete_keys keys)"
  by (induction keys) (auto split: sum.split)

lemma confined_release [simp]: "confined signature_key (\<lambda>_. True) (release s)"
  by (auto simp: release_def release_holding_def list_all_iff intro!: confined_delete_keys split: sum.split)

lemma confined_consume_signature [simp]: "confined signature_key (\<lambda>_. True) (consume_signature s)"
  unfolding consume_signature_def by (rule confined_bind_prog [OF confined_claim]) simp

lemma confined_release_signature [simp]: "confined signature_key (\<lambda>_. True) (release_signature s)"
  unfolding release_signature_def by (rule confined_bind_prog [OF confined_release]) simp

section \<open>The operations of the ledger keep it\<close>

locale charge_ledger =
  fixes J :: record_codec
    and c :: string
    and paid :: "string \<Rightarrow> bool"
  assumes codec: "record_codec_ok J"
begin

abbreviation "rely \<equiv> receipt_rely J c paid"
abbreviation "ok \<equiv> ledger_ok J c paid"

lemmas bind = receipt_order.upholds_bind [of J c paid]

lemma upholds_try:
  assumes "upholds rely Q p V" "\<And>e V'. rely V V' \<Longrightarrow> post (Inl e) V'"
    "\<And>a V'. rely V V' \<Longrightarrow> Q (Inr a) V' \<Longrightarrow> upholds rely post (f a) V'"
  shows "upholds rely post (bind_try p f) V"
  unfolding bind_try_def using assms by (intro bind [OF assms(1)]) (auto split: sum.split)

lemma upholds_read:
  assumes "ok V"
  shows "upholds rely (\<lambda>x V'. \<forall>r. x = Inr (Some r) \<longrightarrow> read_at J c V' g r) (read J c g) V"
  unfolding read_def
proof (rule upholds_step)
  fix V1 p' V2
  let ?p = "Get (charge_record_key c g) (\<lambda>reply. Done (case reply of Inl e \<Rightarrow> Inl e | Inr None \<Rightarrow> Inr None
      | Inr (Some value) \<Rightarrow> (case from_value J value of Inl e \<Rightarrow> Inl (Serialization e) | Inr r \<Rightarrow> Inr (Some r))))"
  assume r: "rely V V1" and step: "vstep ?p V1 p' V2"
  have "ok V1" using receipt_rely_ok [OF r assms] .
  with step show "rely V1 V2 \<and> upholds rely (\<lambda>x V'. \<forall>r. x = Inr (Some r) \<longrightarrow> read_at J c V' g r) p' V2"
    by (cases g) (auto simp: read_at_def has_record_def ledger_ok_def split: option.splits sum.splits)
qed simp

lemma upholds_tip_loop:
  assumes "ok V" "read_at J c V g r"
  shows "upholds rely (\<lambda>x V'. \<forall>t r. x = Inr (Some (t, r)) \<longrightarrow> read_at J c V' t r) (tip_loop J c g r) V"
  using assms
proof (induction "MAX_CHARGE_RECORD_GENERATIONS - g" arbitrary: g r V rule: less_induct)
  case less
  show ?case
    unfolding tip_loop.simps [of J c g r]
  proof (rule upholds_try [OF upholds_read [OF less.prems(1)]])
    fix found V'
    assume r: "rely V V'" and found: "\<forall>r. Inr found = (Inr (Some r) :: store_error + _) \<longrightarrow> read_at J c V' (g + 1) r"
    have "read_at J c V' g r" "ok V'"
      using receipt_rely_read_at [OF r less.prems(2)] receipt_rely_ok [OF r less.prems(1)] .
    with found less.hyps [of "g + 1"] show "upholds rely (\<lambda>x V'. \<forall>t r. x = Inr (Some (t, r)) \<longrightarrow> read_at J c V' t r)
        (case found of None \<Rightarrow> Done (Inr (Some (g, r)))
         | Some r' \<Rightarrow> if g + 1 \<ge> MAX_CHARGE_RECORD_GENERATIONS then Done (Inl (exceeds_error c))
             else tip_loop J c (g + 1) r') V'"
      by (cases found) auto
  qed simp
qed

lemma upholds_tip:
  assumes "ok V"
  shows "upholds rely (\<lambda>x V'. \<forall>t r. x = Inr (Some (t, r)) \<longrightarrow> read_at J c V' t r) (tip J c) V"
  unfolding tip_def
  by (rule upholds_try [OF upholds_read [OF assms]])
    (use receipt_rely_ok [OF _ assms] upholds_tip_loop in \<open>auto split: option.split\<close>)

lemma upholds_tip_or_error:
  assumes "ok V"
  shows "upholds rely (\<lambda>x V'. \<forall>t r. x = Inr (t, r) \<longrightarrow> read_at J c V' t r) (tip_or_error J c) V"
  unfolding tip_or_error_def
  by (rule upholds_try [OF upholds_tip [OF assms]]) (auto simp: ok_or_def split: option.splits)

text \<open>An append that lands behind the record it was decided on.\<close>

lemma upholds_append:
  assumes "ok V" "read_at J c V g r" "unsettled r"
    and "cr_state r' = StPending \<Longrightarrow> \<exists>s. cr_final_signature r' = Some s \<and> paid s"
  shows "upholds rely (\<lambda>b V'. b = Inr True \<longrightarrow> has_record J c V' (Suc g) r') (append_record J c (Suc g) r') V"
proof -
  obtain v where v: "to_value J r' = Inr v" "from_value J v = Inr r'"
    using codec unfolding record_codec_ok_def by blast
  have "upholds rely (\<lambda>b V'. b = Inr True \<longrightarrow> has_record J c V' (Suc g) r')
      (PutIfAbsent (charge_record_key c (Suc g)) v Done) V"
  proof (rule upholds_step)
    fix V1 p' V2
    assume r: "rely V V1" and step: "vstep (PutIfAbsent (charge_record_key c (Suc g)) v Done) V1 p' V2"
    note now = receipt_rely_ok [OF r assms(1)] receipt_rely_read_at [OF r assms(2)] assms(3)
    from step show "rely V1 V2 \<and> upholds rely (\<lambda>b V'. b = Inr True \<longrightarrow> has_record J c V' (Suc g) r') p' V2"
      by cases (use ledger_extend(1) [OF now _ v(2) assms(4)] v in \<open>auto simp: has_record_def\<close>)
  qed simp
  with v show ?thesis by (simp add: append_record_def)
qed

lemma upholds_settle:
  assumes "ok V"
    and m: "\<And>t r. m (t, r) = (if t \<noteq> g \<or> \<not> guard r then Done (Inr False) else append_record J c (g + 1) (upd r))"
    and guard: "\<And>r. guard r \<Longrightarrow> unsettled r"
    and pending: "\<And>r. guard r \<Longrightarrow> cr_state (upd r) = StPending \<Longrightarrow> \<exists>s. cr_final_signature (upd r) = Some s \<and> paid s"
  shows "upholds rely (\<lambda>b V'. b = Inr True \<longrightarrow> (\<exists>r. read_at J c V' g r \<and> guard r \<and> has_record J c V' (Suc g) (upd r)))
    (bind_try (tip_or_error J c) m) V"
proof (rule upholds_try [OF upholds_tip_or_error [OF assms(1)]])
  fix a V'
  assume r: "rely V V'" and read: "\<forall>t r. Inr a = (Inr (t, r) :: store_error + _) \<longrightarrow> read_at J c V' t r"
  obtain t x where a: "a = (t, x)" by force
  have "upholds rely (\<lambda>b V'. b = Inr True \<longrightarrow> (\<exists>r. read_at J c V' g r \<and> guard r \<and> has_record J c V' (Suc g) (upd r)))
      (append_record J c (Suc g) (upd x)) V'" if "t = g" "guard x"
  proof (rule receipt_order.upholds_mono [OF upholds_append [of V' g x "upd x"]])
    show "ok V'" using receipt_rely_ok [OF r assms(1)] .
    show at: "read_at J c V' g x" using read that a by simp
    show "(b = Inr True \<longrightarrow> (\<exists>r. read_at J c V'' g r \<and> guard r \<and> has_record J c V'' (Suc g) (upd r)))"
      if "rely V' V''" "b = Inr True \<longrightarrow> has_record J c V'' (Suc g) (upd x)" for b :: "store_error + bool" and V''
      using that receipt_rely_read_at [OF that(1) at] \<open>guard x\<close> by blast
  qed (use that guard pending in auto)
  then show "upholds rely (\<lambda>b V'. b = Inr True \<longrightarrow> (\<exists>r. read_at J c V' g r \<and> guard r
      \<and> has_record J c V' (Suc g) (upd r))) (m a) V'"
    by (simp add: a m)
qed simp

lemma upholds_mark_pending:
  assumes "ok V" "paid s"
  shows "upholds rely (\<lambda>b V'. b = Inr True \<longrightarrow> (\<exists>r. has_record J c V' (Suc g) r \<and> cr_state r = StPending))
    (mark_pending J c g s now) V"
  unfolding mark_pending_def
  by (rule receipt_order.upholds_mono [OF upholds_settle [OF assms(1), where g = g
        and guard = "\<lambda>r. cr_state r = StReserved" and upd = "\<lambda>r. terminal now r StPending (Some s) None"]])
    (use assms(2) in \<open>auto simp: unsettled_def terminal_def\<close>)

lemma upholds_mark_failed:
  assumes "ok V"
  shows "upholds rely (\<lambda>_ _. True) (mark_failed J c g reason now) V"
  unfolding mark_failed_def
  by (rule receipt_order.upholds_mono [OF upholds_settle [OF assms, where g = g and guard = unsettled
        and upd = "\<lambda>r. terminal now r StFailed None (Some reason)"]])
    (auto simp: unsettled_def terminal_def)

lemma upholds_release_pending:
  assumes "ok V"
  shows "upholds rely (\<lambda>_ _. True) (release_pending_record J c g s now) V"
  unfolding release_pending_record_def
  by (rule receipt_order.upholds_mono [OF upholds_settle [OF assms, where g = g and guard = "holds_pending s"
        and upd = "\<lambda>r. r\<lparr>cr_state := StReserved, cr_final_signature := None, cr_updated_at := now, cr_expires_at := now\<rparr>"]])
    (auto simp: unsettled_def holds_pending_def)

lemma pending_paid:
  assumes "ok V" "read_at J c V g r" "holds_pending s r"
  shows "paid s"
proof -
  obtain h where "has_record J c V (Suc h) r"
    using assms(2,3) by (cases g) (auto simp: read_at_def holds_pending_def)
  then obtain v where "V (charge_record_key c (Suc h)) = Some v" "from_value J v = Inr r"
    by (auto simp: has_record_def)
  with assms(1,3) show ?thesis by (fastforce simp: ledger_ok_def holds_pending_def)
qed

lemma upholds_confirm_pending:
  assumes "ok V"
  shows "upholds rely (\<lambda>b _. b = Inr True \<longrightarrow> paid s) (confirm_pending J c g s now) V"
  unfolding confirm_pending_def
proof (rule receipt_order.upholds_mono [OF upholds_settle [OF assms, where g = g and guard = "holds_pending s"
      and upd = "\<lambda>r. terminal now r StConfirmed (Some s) None"]])
  fix b :: "store_error + bool" and V'
  assume "rely V V'" "b = Inr True \<longrightarrow> (\<exists>r. read_at J c V' g r \<and> holds_pending s r
      \<and> has_record J c V' (Suc g) (terminal now r StConfirmed (Some s) None))"
  then show "b = Inr True \<longrightarrow> paid s" using receipt_rely_ok [OF _ assms] pending_paid by blast
qed (auto simp: unsettled_def holds_pending_def terminal_def)

lemma upholds_mark_confirmed:
  assumes "ok V" "has_record J c V (Suc g) r" "cr_state r = StPending"
  shows "upholds rely (\<lambda>b _. b = Inr True \<longrightarrow> paid s) (mark_confirmed J c (Suc g) s now) V"
  unfolding mark_confirmed_def
proof (rule receipt_order.upholds_mono [OF upholds_settle [OF assms(1), where g = "Suc g"
      and guard = "\<lambda>r. cr_state r = StReserved \<or> holds_pending s r" and upd = "\<lambda>r. terminal now r StConfirmed (Some s) None"]])
  fix b :: "store_error + bool" and V'
  assume rely: "rely V V'" and won: "b = Inr True \<longrightarrow> (\<exists>x. read_at J c V' (Suc g) x
      \<and> (cr_state x = StReserved \<or> holds_pending s x) \<and> has_record J c V' (Suc (Suc g)) (terminal now x StConfirmed (Some s) None))"
  show "b = Inr True \<longrightarrow> paid s"
  proof
    assume "b = Inr True"
    with won obtain x where x: "read_at J c V' (Suc g) x" "cr_state x = StReserved \<or> holds_pending s x" by auto
    have "x = r" using x(1) receipt_rely_has [OF rely assms(2)] has_record_unique by (fastforce simp: read_at_def)
    with x assms(3) pending_paid [OF receipt_rely_ok [OF rely assms(1)] x(1)] show "paid s" by auto
  qed
qed (auto simp: unsettled_def holds_pending_def terminal_def split: charge_record_state.split)

text \<open>Reserving writes reservations only, and deletes nothing but the root.\<close>

lemma rely_delete_root: "rely V (V(charge_record_key c 0 := None))"
  by (auto simp: receipt_rely_def ledger_ok_def has_record_def)

lemma rely_put_root:
  assumes "from_value J v = Inr r" "cr_state r = StReserved"
  shows "rely V (V(charge_record_key c 0 \<mapsto> v))"
  using assms by (auto simp: receipt_rely_def ledger_ok_def has_record_def)

lemma upholds_append_root:
  assumes "cr_state r = StReserved"
  shows "upholds rely (\<lambda>_ _. True) (append_record J c 0 r) V"
proof -
  obtain v where v: "to_value J r = Inr v" "from_value J v = Inr r"
    using codec unfolding record_codec_ok_def by blast
  have "upholds rely (\<lambda>_ _. True) (PutIfAbsent (charge_record_key c 0) v Done) V"
    by (rule upholds_step) (auto intro: rely_put_root [OF v(2) assms])
  with v show ?thesis by (simp add: append_record_def)
qed

lemma upholds_reserve_loop:
  assumes "ok V"
  shows "upholds rely (\<lambda>_ _. True) (reserve_loop n J c d l now) V"
  using assms
proof (induction n arbitrary: V)
  case (Suc n)
  have append: "upholds rely (\<lambda>_ _. True) (bind_try (append_record J c (t + 1) (fresh_record c d l now))
      (\<lambda>won. if won then Done (Inr (Reserved (t + 1))) else reserve_loop n J c d l now)) V'"
    if "rely V V'" "read_at J c V' t r" "cr_state r = StReserved" for V' t r
    using that receipt_rely_ok [OF that(1) Suc.prems] receipt_rely_ok Suc.IH
    by (intro upholds_try [OF upholds_append [where g = t and r = r, unfolded Suc_eq_plus1]])
      (auto simp: unsettled_def fresh_record_def)
  show ?case
    unfolding reserve_loop.simps
    by (rule upholds_try [OF upholds_tip [OF Suc.prems]])
      (use append in \<open>auto split: option.split charge_record_state.split\<close>)
qed simp

lemma upholds_reserve:
  assumes "ok V"
  shows "upholds rely (\<lambda>_ _. True) (reserve J c d l now) V"
proof -
  have root: "upholds rely (\<lambda>_ _. True) (reserve_root J c d l now) V'" if r: "rely V V'" for V'
    unfolding reserve_root_def
  proof (rule upholds_try [OF upholds_append_root])
    fix won V''
    assume r': "rely V' V''"
    have ok: "ok V''" using receipt_rely_ok [OF r'] receipt_rely_ok [OF r assms] by blast
    have undo: "upholds rely (\<lambda>_ _. True) (Delete (charge_record_key c 0) (\<lambda>deleted. case deleted of
        Inl e \<Rightarrow> Done (Inl e) | Inr _ \<Rightarrow> Done (Inl (orphaned_error c)))) W" for W
      by (rule upholds_step) (auto intro: rely_delete_root)
    show "upholds rely (\<lambda>_ _. True) (if won then bind_try (read J c 1) (\<lambda>later.
           if later \<noteq> None then Delete (charge_record_key c 0) (\<lambda>deleted. case deleted of
                 Inl e \<Rightarrow> Done (Inl e) | Inr _ \<Rightarrow> Done (Inl (orphaned_error c)))
           else Done (Inr (Reserved 0)))
       else reserve_loop MAX_CHARGE_RECORD_GENERATIONS J c d l now) V''"
      using upholds_reserve_loop [OF ok] undo by (auto intro!: upholds_try [OF upholds_read [OF ok]])
  qed (simp_all add: fresh_record_def)
  have lost: "upholds rely (\<lambda>_ _. True) (root_lost J c) V"
  proof -
    have "upholds rely (\<lambda>_ _. True) (bind_try (read J c 0) (\<lambda>root. Done (Inr (root = None)))) V'" if "rely V V'" for V'
      by (rule upholds_try [OF upholds_read [OF receipt_rely_ok [OF that assms]]]) auto
    then show ?thesis
      unfolding root_lost_def by (intro upholds_try [OF upholds_read [OF assms]]) auto
  qed
  show ?thesis
    unfolding reserve_def by (rule upholds_try [OF lost]) (use root in auto)
qed

lemma upholds_pending:
  assumes "ok V"
  shows "upholds rely (\<lambda>_ _. True) (pending J c d) V"
  unfolding pending_def by (rule upholds_try [OF upholds_tip [OF assms]]) auto

text \<open>A confirmation wins only by turning an unsettled ledger into a settled one.\<close>

lemma safe_append_confirmed:
  assumes "ok V" "read_at J c V g r" "unsettled r" "cr_state r' = StConfirmed"
    and lost: "\<And>b V'. rely V V' \<Longrightarrow> b \<noteq> Inr True \<Longrightarrow> safe rely (settled_once J c) win (f b) V'"
    and won: "f (Inr True) = Done x"
  shows "safe rely (settled_once J c) win (bind_prog (append_record J c (Suc g) r') f) V"
proof -
  obtain v where v: "to_value J r' = Inr v" "from_value J v = Inr r'"
    using codec unfolding record_codec_ok_def by blast
  have "safe rely (settled_once J c) win (PutIfAbsent (charge_record_key c (Suc g)) v f) V"
  proof (rule safe_step)
    fix V1 p' V2
    assume r: "rely V V1" and step: "vstep (PutIfAbsent (charge_record_key c (Suc g)) v f) V1 p' V2"
    note now = receipt_rely_ok [OF r assms(1)] receipt_rely_read_at [OF r assms(2)] assms(3)
    have "settled_once J c (V1(charge_record_key c (Suc g) \<mapsto> v))"
      using v assms(4) by (auto simp: settled_once_def has_record_def)
    with step show "rely V1 V2 \<and> (safe rely (settled_once J c) win p' V2
        \<or> is_won win p' \<and> settled_once J c V2 \<and> \<not> settled_once J c V1)"
      by cases (use ledger_extend [OF now _ v(2)] assms(4) lost [OF r] won in
          \<open>cases "win x"; auto intro: safe_Done\<close>)+
  qed simp
  with v show ?thesis by (simp add: append_record_def)
qed

lemma safe_settle:
  assumes "ok V"
    and m: "\<And>t r. m (t, r) = (if t \<noteq> g \<or> \<not> guard r then Done (Inr False) else append_record J c (g + 1) (upd r))"
    and guard: "\<And>r. guard r \<Longrightarrow> unsettled r" "\<And>r. guard r \<Longrightarrow> cr_state (upd r) = StConfirmed"
    and lost: "\<And>b V'. rely V V' \<Longrightarrow> b \<noteq> Inr True \<Longrightarrow> safe rely (settled_once J c) win (f b) V'"
    and won: "f (Inr True) = Done x"
  shows "safe rely (settled_once J c) win (bind_prog (bind_try (tip_or_error J c) m) f) V"
  unfolding bind_try_def bind_prog_assoc
proof (rule receipt_order.safe_bind [OF upholds_tip_or_error [OF assms(1)]])
  fix a :: "store_error + nat \<times> charge_record" and V'
  assume r: "rely V V'" and read: "\<forall>t r. a = Inr (t, r) \<longrightarrow> read_at J c V' t r"
  have lost': "safe rely (settled_once J c) win (f b) V''" if "rely V' V''" "b \<noteq> Inr True" for b V''
    using lost [OF receipt_order.trans [OF r that(1)] that(2)] .
  show "safe rely (settled_once J c) win (bind_prog (case a of Inl e \<Rightarrow> Done (Inl e) | Inr a \<Rightarrow> m a) f) V'"
  proof (cases a)
    case (Inr tr)
    obtain t y where tr: "tr = (t, y)" by force
    have "safe rely (settled_once J c) win (bind_prog (append_record J c (Suc g) (upd y)) f) V'" if "t = g" "guard y"
      using that guard read Inr tr lost' won receipt_rely_ok [OF r assms(1)]
      by (intro safe_append_confirmed [where r = y and x = x]) auto
    with Inr tr lost' show ?thesis by (simp add: m)
  qed (use lost' in simp)
qed

lemma safe_confirm_pending:
  assumes "ok V" "\<And>b V'. rely V V' \<Longrightarrow> b \<noteq> Inr True \<Longrightarrow> safe rely (settled_once J c) win (f b) V'"
    "f (Inr True) = Done x"
  shows "safe rely (settled_once J c) win (bind_prog (confirm_pending J c g s now) f) V"
  unfolding confirm_pending_def
  by (rule safe_settle [OF assms(1), where g = g and guard = "holds_pending s"
        and upd = "\<lambda>r. terminal now r StConfirmed (Some s) None" and x = x])
    (use assms in \<open>auto simp: unsettled_def holds_pending_def terminal_def\<close>)

lemma safe_mark_confirmed:
  assumes "ok V" "\<And>b V'. rely V V' \<Longrightarrow> b \<noteq> Inr True \<Longrightarrow> safe rely (settled_once J c) win (f b) V'"
    "f (Inr True) = Done x"
  shows "safe rely (settled_once J c) win (bind_prog (mark_confirmed J c g s now) f) V"
  unfolding mark_confirmed_def
  by (rule safe_settle [OF assms(1), where g = g and guard = "\<lambda>r. cr_state r = StReserved \<or> holds_pending s r"
        and upd = "\<lambda>r. terminal now r StConfirmed (Some s) None" and x = x])
    (use assms in \<open>auto simp: unsettled_def holds_pending_def terminal_def split: charge_record_state.split\<close>)

section \<open>Settlement keeps it\<close>

lemma upholds_signatures:
  assumes "confined signature_key Q p"
  shows "upholds rely (\<lambda>r _. Q r) p V"
  by (rule receipt_order.confined_upholds [OF assms]) (simp add: receipt_rely_other signature_key_not_charge)

text \<open>The fence of a broadcast that was recorded: its generation holds the pending record.\<close>

definition fenced :: "broadcast_fence \<Rightarrow> view \<Rightarrow> bool" where
  "fenced fence V \<longleftrightarrow> bf_pending fence \<noteq> None
     \<and> (\<exists>g r. bf_generation fence = Suc g \<and> has_record J c V (Suc g) r \<and> cr_state r = StPending)"

lemma fenced_stable: "rely V V' \<Longrightarrow> fenced fence V \<Longrightarrow> fenced fence V'"
  unfolding fenced_def using receipt_rely_has by blast

lemma upholds_fence_begin:
  assumes "ok V" "bf_challenge_id fence = c" "paid s"
  shows "upholds rely (\<lambda>(begun, fence') V'. bf_challenge_id fence' = c \<and> (begun = Inr () \<longrightarrow> fenced fence' V'))
    (fence_begin J E fence s) V"
  unfolding fence_begin_def
proof (rule bind [OF upholds_signatures [OF confined_consume_signature]])
  fix consumed V'
  assume r: "rely V V'"
  let ?post = "\<lambda>(begun :: verification_error + unit, fence') V'. bf_challenge_id fence' = c \<and> (begun = Inr () \<longrightarrow> fenced fence' V')"
  have release: "upholds rely ?post (bind_prog (release_signature s) (\<lambda>_. Done (Inl e, fence))) V''"
    for e :: verification_error and V''
    using assms(2) by (intro bind [OF upholds_signatures [OF confined_release_signature]]) simp
  have "upholds rely ?post (bind_prog (mark_pending J c (bf_generation fence) s now) (\<lambda>marked.
      case marked of
        Inr True \<Rightarrow> Done (Inr (), fence\<lparr>bf_generation := bf_generation fence + 1, bf_pending := Some s\<rparr>)
      | Inr False \<Rightarrow> bind_prog (release_signature s) (\<lambda>_. Done (Inl (settlement_in_progress
                   ''This charge is being settled by another request; retry shortly''), fence))
      | Inl e \<Rightarrow> Done (Inl (ve_new (''Store error: '' @ show_store_error e)), fence))) V'" for now
    by (rule bind [OF upholds_mark_pending [OF receipt_rely_ok [OF r assms(1)] assms(3)]])
      (use assms(2) release in \<open>auto simp: fenced_def split: sum.split bool.split\<close>)
  then show "upholds rely ?post (case consumed of Inl e \<Rightarrow> Done (Inl e, fence)
      | Inr _ \<Rightarrow> bind_prog (mark_pending J (bf_challenge_id fence) (bf_generation fence) s
               (unix_at E AtPending)) (\<lambda>marked.
             case marked of
               Inr True \<Rightarrow> Done (Inr (), fence\<lparr>bf_generation := bf_generation fence + 1, bf_pending := Some s\<rparr>)
             | Inr False \<Rightarrow> bind_prog (release_signature s) (\<lambda>_. Done (Inl (settlement_in_progress
                   ''This charge is being settled by another request; retry shortly''), fence))
             | Inl e \<Rightarrow> Done (Inl (ve_new (''Store error: '' @ show_store_error e)), fence))) V'"
    using assms(2) by (simp split: sum.split)
qed

lemma upholds_fence_abandon:
  assumes "ok V" "bf_challenge_id fence = c"
  shows "upholds rely (\<lambda>_ _. True) (fence_abandon J E fence) V"
proof -
  have "upholds rely (\<lambda>_ _. True) (bind_prog (release_signature s) (\<lambda>_.
      bind_prog (release_pending_record J c g s now) (\<lambda>b. Done (f b)))) V"
    for s g now and f :: "store_error + bool \<Rightarrow> broadcast_fence"
    by (rule bind [OF upholds_signatures [OF confined_release_signature]],
        rule bind [OF upholds_release_pending [OF receipt_rely_ok [OF _ assms(1)]]]) simp_all
  with assms(2) show ?thesis by (simp add: fence_abandon_def Let_def split: option.split)
qed

lemma upholds_broadcast_pull:
  assumes "ok V" "bf_challenge_id fence = c" "lib_records L = J"
    and paid: "\<And>tx s uses. prepare_pull L M b64 request details challenge = Inr (tx, s, uses) \<Longrightarrow> paid s"
  shows "upholds rely (\<lambda>(sent, fence') V'. \<forall>s. sent = Inr s \<longrightarrow> fenced fence' V')
    (broadcast_pull L M E b64 request details challenge fence) V"
proof (cases "prepare_pull L M b64 request details challenge")
  case (Inr prepared)
  then obtain tx s uses where prep: "prepare_pull L M b64 request details challenge = Inr (tx, s, uses)"
    by (cases prepared) auto
  let ?post = "\<lambda>(sent :: settle_failure + string, fence') V'. \<forall>s. sent = Inr s \<longrightarrow> fenced fence' V'"
  have abandon: "upholds rely ?post (bind_prog (fence_abandon J E fence') (\<lambda>fence. Done (Inl e, fence))) V'"
    if "rely V V'" "bf_challenge_id fence' = c" for V' fence' e
    by (rule bind [OF upholds_fence_abandon [OF receipt_rely_ok [OF that(1) assms(1)] that(2)]]) simp
  have sending: "upholds rely ?post (Broadcast s (case send_attempts E tx uses n b of
        Sent signature \<Rightarrow> Done (Inr signature, fence')
      | MaybeSent error \<Rightarrow> Done (Inl (Unconfirmed s error), fence')
      | NeverSent error \<Rightarrow> bind_prog (fence_abandon J E fence') (\<lambda>fence. Done (Inl (Failed error), fence)))) V'"
    if "rely V V'" "bf_challenge_id fence' = c" "fenced fence' V'" for V' fence' n b
  proof (rule receipt_order.upholds_Broadcast)
    fix V''
    assume later: "rely V' V''"
    with abandon [OF receipt_order.trans [OF that(1)]] that(2,3) fenced_stable [OF later]
    show "upholds rely ?post (case send_attempts E tx uses n b of
        Sent signature \<Rightarrow> Done (Inr signature, fence')
      | MaybeSent error \<Rightarrow> Done (Inl (Unconfirmed s error), fence')
      | NeverSent error \<Rightarrow> bind_prog (fence_abandon J E fence') (\<lambda>fence. Done (Inl (Failed error), fence))) V''"
      by (simp split: send_outcome.split)
  qed
  show ?thesis
    unfolding broadcast_pull_def prep sum.case prod.case assms(3)
    by (rule bind [OF upholds_fence_begin [OF assms(1,2) paid [OF prep]]])
      (use sending in \<open>auto split: sum.split\<close>)
qed (simp add: broadcast_pull_def)

lemma upholds_settle_payload:
  assumes "ok V" "bf_challenge_id fence = c" "lib_records L = J" "\<not> mpp_accept_push_mode M"
    and paid: "\<And>b64 tx s uses. payload = TransactionPayload b64 \<Longrightarrow>
      prepare_pull L M b64 request details challenge = Inr (tx, s, uses) \<Longrightarrow> paid s"
  shows "upholds rely (\<lambda>(outcome, fence') V'. \<forall>s. outcome = Inr s \<longrightarrow> fenced fence' V')
    (settle_payload L M E payload request details challenge fence) V"
proof -
  have "upholds rely (\<lambda>(outcome, fence') V'. \<forall>s. outcome = Inr s \<longrightarrow> fenced fence' V')
      (settle_pull L M E b64 request details challenge fence) V" if "payload = TransactionPayload b64" for b64
    unfolding settle_pull_def
    by (rule bind [OF upholds_broadcast_pull [OF assms(1-3) paid [OF that]]]) (auto simp: try_bind_Inr_iff)
  with assms(4) show ?thesis
    by (auto simp: settle_payload_def settle_push_def split: sum.split credential_payload.split)
qed

lemma receipt_success_id [simp]:
  "rc_challenge_id (receipt_success E s c') = c'" "rc_reference (receipt_success E s c') = s"
  by (simp_all add: receipt_success_def)

lemma upholds_fail:
  assumes "ok V"
  shows "upholds rely (\<lambda>r _. \<forall>rc. r = Inr rc \<longrightarrow> paid (rc_reference rc))
    (bind_prog (mark_failed J c g reason now) (\<lambda>_. Done (Inl (failure :: verification_error)))) V"
  by (rule bind [OF upholds_mark_failed [OF assms]]) simp

lemma upholds_conclude:
  assumes "ok V" "lib_records L = J" "\<And>s. fst outcome = Inr s \<Longrightarrow> fenced (snd outcome) V"
  shows "upholds rely (\<lambda>r _. \<forall>rc. r = Inr rc \<longrightarrow> paid (rc_reference rc)) (conclude_settlement L E c outcome) V"
proof -
  obtain res fence where o: "outcome = (res, fence)" by force
  show ?thesis
  proof (cases res)
    case (Inl failure)
    then show ?thesis
      using upholds_fail [OF assms(1)] by (cases failure) (simp_all add: conclude_settlement_def o assms(2))
  next
    case (Inr s)
    with assms(3) o have f: "fenced fence V" by simp
    then obtain g r where r: "bf_generation fence = Suc g" "has_record J c V (Suc g) r" "cr_state r = StPending"
      by (auto simp: fenced_def)
    show ?thesis
      unfolding conclude_settlement_def o prod.case Inr sum.case assms(2) r(1)
      by (rule bind [OF upholds_mark_confirmed [OF assms(1) r(2,3)]])
        (use f in \<open>auto simp: fenced_def split: sum.splits bool.splits\<close>)
  qed
qed

lemma upholds_reconcile:
  assumes "ok V" "lib_records L = J"
  shows "upholds rely (\<lambda>r _. \<forall>rc. r = Inr rc \<longrightarrow> paid (rc_reference rc)) (reconcile_pending_charge L E c g s) V"
proof -
  have "upholds rely (\<lambda>r _. \<forall>rc. r = Inr rc \<longrightarrow> paid (rc_reference rc))
      (bind_prog (confirm_pending J c g s now) (\<lambda>claimed. Done (case claimed of
        Inl e \<Rightarrow> Inl (unresolved s ('': '' @ show_store_error e)) | Inr False \<Rightarrow> Inl (already_settled c s)
      | Inr True \<Rightarrow> Inr (receipt_success E s c)))) V" for now
    by (rule bind [OF upholds_confirm_pending [OF assms(1)]]) (auto split: sum.splits bool.splits)
  with upholds_fail [OF assms(1)] show ?thesis
    by (auto simp: reconcile_pending_charge_def assms(2) Let_def split: sum.split option.split)
qed

lemma safe_error: "safe rely (settled_once J c) (receipt_for c') (Done (Inl e)) V"
  by (auto intro: safe_Done simp: receipt_for_def)

lemma safe_fail:
  assumes "ok V"
  shows "safe rely (settled_once J c) (receipt_for c') (bind_prog (mark_failed J c g reason now) (\<lambda>_. Done (Inl failure))) V"
  by (rule receipt_order.safe_bind [OF upholds_mark_failed [OF assms]]) (rule safe_error)

lemma safe_conclude:
  assumes "ok V" "lib_records L = J" "\<And>s. fst outcome = Inr s \<Longrightarrow> fenced (snd outcome) V"
  shows "safe rely (settled_once J c) (receipt_for c') (conclude_settlement L E c outcome) V"
proof -
  obtain res fence where o: "outcome = (res, fence)" by force
  show ?thesis
  proof (cases res)
    case (Inl failure)
    then show ?thesis
      using safe_fail [OF assms(1)] safe_error
      by (cases failure) (simp_all add: conclude_settlement_def o assms(2))
  next
    case (Inr s)
    with assms(3) o have f: "bf_pending fence \<noteq> None" by (simp add: fenced_def)
    show ?thesis
      unfolding conclude_settlement_def o prod.case Inr sum.case assms(2)
      by (rule safe_mark_confirmed [OF assms(1), where x = "Inr (receipt_success E s c)"])
        (use f safe_error in \<open>auto split: sum.splits bool.splits\<close>)
  qed
qed

lemma safe_reconcile:
  assumes "ok V" "lib_records L = J"
  shows "safe rely (settled_once J c) (receipt_for c') (reconcile_pending_charge L E c g s) V"
proof -
  have "safe rely (settled_once J c) (receipt_for c')
      (bind_prog (confirm_pending J c g s now) (\<lambda>claimed. Done (case claimed of
        Inl e \<Rightarrow> Inl (unresolved s ('': '' @ show_store_error e)) | Inr False \<Rightarrow> Inl (already_settled c s)
      | Inr True \<Rightarrow> Inr (receipt_success E s c)))) V" for now
    by (rule safe_confirm_pending [OF assms(1), where x = "Inr (receipt_success E s c)"])
      (use safe_error in \<open>auto split: sum.splits bool.splits\<close>)
  with safe_fail [OF assms(1)] safe_error show ?thesis
    by (auto simp: reconcile_pending_charge_def assms(2) Let_def split: sum.split option.split)
qed

text \<open>
  The handler reaches a receipt only through a reconciliation or a settled reservation.  \<open>T\<close> is
  whatever is to be shown of those ends.
\<close>

definition reaches :: "((verification_error + receipt) prog \<Rightarrow> view \<Rightarrow> bool) \<Rightarrow> bool" where
  "reaches T \<longleftrightarrow> (\<forall>e V. T (Done (Inl e)) V)
     \<and> (\<forall>(p :: (verification_error + bool \<times> (nat \<times> string) option) prog) f V.
          upholds rely (\<lambda>_ _. True) p V \<longrightarrow> (\<forall>r V'. rely V V' \<longrightarrow> T (f r) V') \<longrightarrow> T (bind_prog p f) V)
     \<and> (\<forall>(p :: (store_error + charge_reservation) prog) f V.
          upholds rely (\<lambda>_ _. True) p V \<longrightarrow> (\<forall>r V'. rely V V' \<longrightarrow> T (f r) V') \<longrightarrow> T (bind_prog p f) V)"

lemma reaches_upholds:
  assumes "\<And>e V. post (Inl e) V"
  shows "reaches (upholds rely post)"
  using assms by (auto simp: reaches_def intro: bind)

lemma reaches_safe: "reaches (safe rely (settled_once J c) (receipt_for c'))"
  by (auto simp: reaches_def safe_error intro: receipt_order.safe_bind)

lemma upholds_expiry_gate:
  assumes "ok V" "lib_records L = J" "c = utf8_text (pc_id (cd_challenge credential))"
  shows "upholds rely (\<lambda>_ _. True) (expiry_gate L E credential) V"
proof -
  have pend: "upholds rely (\<lambda>_ _. True) (expired_pending_charge L credential) V"
    unfolding expired_pending_charge_def Let_def assms(2) assms(3) [symmetric]
    by (auto simp: bind_try_def intro!: bind [OF upholds_pending [OF assms(1)]] split: sum.split)
  show ?thesis
    unfolding expiry_gate_def Let_def
    by (auto intro!: upholds_try [OF pend] split: option.split) (auto simp: bind_try_def intro!: upholds_try [OF pend, unfolded bind_try_def] split: sum.split)
qed

lemma verify_bound_reaches:
  assumes T: "reaches T" and "ok V" "lib_records L = J" "c = utf8_text (pc_id (cd_challenge credential))"
    and wire: "wired = with_wire_currency (lib_keys L) (mpp_network M) request"
    and rec: "\<And>g s V'. ok V' \<Longrightarrow> T (reconcile_pending_charge L E c g s) V'"
    and set: "\<And>payload details digest reservation V'. ok V' \<Longrightarrow>
      accept_terms L M credential wired = Inr (payload, details, digest) \<Longrightarrow>
      T (settle_reservation L M E payload wired details (cd_challenge credential) c reservation) V'"
  shows "T (verify_bound L M E credential request route) V"
proof -
  have err: "T (Done (Inl e)) W" for e W using T by (simp add: reaches_def)
  have gate: "T (bind_try (expiry_gate L E credential) f) V" if "\<And>r V'. rely V V' \<Longrightarrow> T (f r) V'" for f
    using T upholds_expiry_gate [OF assms(2-4), of E] that err
    by (auto simp: reaches_def bind_try_def split: sum.split)
  have reserved: "T (bind_prog (reserve J c d l now) f) V'" if "ok V'" "\<And>r V''. rely V' V'' \<Longrightarrow> T (f r) V''" for d l now f V'
    using T upholds_reserve [OF that(1), of d l now] that(2) by (auto simp: reaches_def)
  have settle: "T (bind_prog (reserve J c digest l now) (case_sum (\<lambda>e. Done (Inl (g e)))
      (settle_reservation L M E payload wired details (cd_challenge credential) c))) V'"
    if "ok V'" "accept_terms L M credential wired = Inr (payload, details, digest)" for V' payload details digest l now g
    by (rule reserved [OF that(1)]) (auto split: sum.split intro: err set [OF receipt_rely_ok that(2)] that(1))
  show ?thesis
    unfolding verify_bound_def Let_def wire [symmetric] assms(3) assms(4) [symmetric]
    by (auto intro!: err gate rec settle receipt_rely_ok [OF _ assms(2)] simp: bind_try_Done split: sum.split option.split)
qed

lemma upholds_settle_reservation:
  assumes "ok V" "lib_records L = J" "\<not> mpp_accept_push_mode M"
    and paid: "\<And>b64 tx s uses. payload = TransactionPayload b64 \<Longrightarrow>
      prepare_pull L M b64 request details challenge = Inr (tx, s, uses) \<Longrightarrow> paid s"
  shows "upholds rely (\<lambda>r _. \<forall>rc. r = Inr rc \<longrightarrow> paid (rc_reference rc))
      (settle_reservation L M E payload request details challenge c reservation) V"
    and "safe rely (settled_once J c) (receipt_for c')
      (settle_reservation L M E payload request details challenge c reservation) V"
proof -
  have fence: "bf_challenge_id \<lparr>bf_challenge_id = c, bf_generation = g, bf_pending = None\<rparr> = c" for g by simp
  note settle = upholds_settle_payload [OF assms(1) fence assms(2,3) paid]
  have "upholds rely (\<lambda>r _. \<forall>rc. r = Inr rc \<longrightarrow> paid (rc_reference rc)) (bind_prog (settle_payload L M E payload request details challenge
      \<lparr>bf_challenge_id = c, bf_generation = g, bf_pending = None\<rparr>) (conclude_settlement L E c)) V" for g
    by (rule bind [OF settle]) (auto intro!: upholds_conclude assms(2) receipt_rely_ok [OF _ assms(1)])
  then show "upholds rely (\<lambda>r _. \<forall>rc. r = Inr rc \<longrightarrow> paid (rc_reference rc))
      (settle_reservation L M E payload request details challenge c reservation) V"
    using upholds_reconcile [OF assms(1,2)] by (simp add: settle_reservation_def split: charge_reservation.split)
  have "safe rely (settled_once J c) (receipt_for c') (bind_prog (settle_payload L M E payload request details challenge
      \<lparr>bf_challenge_id = c, bf_generation = g, bf_pending = None\<rparr>) (conclude_settlement L E c)) V" for g
    by (rule receipt_order.safe_bind [OF settle]) (auto intro!: safe_conclude assms(2) receipt_rely_ok [OF _ assms(1)])
  then show "safe rely (settled_once J c) (receipt_for c')
      (settle_reservation L M E payload request details challenge c reservation) V"
    using safe_reconcile [OF assms(1,2)] safe_error by (simp add: settle_reservation_def split: charge_reservation.split)
qed

end

section \<open>Whole requests\<close>

text \<open>The challenge carries the id the server computes for its fields.\<close>

definition authentic :: "'hash charge_lib \<Rightarrow> mpp \<Rightarrow> payment_challenge \<Rightarrow> bool" where
  "authentic L M challenge \<longleftrightarrow> pc_id challenge = compute_challenge_id (lib_mac L) (mpp_secret M) (mpp_realm M)
     (pc_method challenge) (pc_intent challenge) (pc_request challenge) (pc_expires challenge)
     (pc_digest challenge) (pc_opaque challenge)"

lemma verify_bound_unauthentic:
  assumes "\<not> (authentic L M (cd_challenge credential) \<and> challenge_route L (cd_challenge credential) = route)"
  shows "\<exists>e. verify_bound L M E credential request route = Done (Inl e)"
  using assms by (auto simp: verify_bound_def authentic_def Let_def constant_time_eq_iff)

text \<open>
  A payment a request prepared: presented with a challenge of this server for this route, decoded,
  checked against the accepted terms, and fully signed.
\<close>

definition prepares :: "'hash charge_lib \<Rightarrow> mpp \<Rightarrow> payment_credential \<Rightarrow> charge_request \<Rightarrow> string option \<Rightarrow> string \<Rightarrow> bool" where
  "prepares L M credential request route s \<longleftrightarrow>
     (let wired = with_wire_currency (lib_keys L) (mpp_network M) request in
      authentic L M (cd_challenge credential) \<and> challenge_route L (cd_challenge credential) = route
      \<and> (\<exists>b64 details digest tx uses. accept_terms L M credential wired = Inr (TransactionPayload b64, details, digest)
        \<and> prepare_pull L M b64 wired details (cd_challenge credential) = Inr (tx, s, uses)))"

context charge_ledger
begin

lemma verify_bound_keeps:
  assumes "ok V" "lib_records L = J" "\<not> mpp_accept_push_mode M" "c = utf8_text (pc_id (cd_challenge credential))"
    and paid: "\<And>s. prepares L M credential request route s \<Longrightarrow> paid s"
  shows "upholds rely (\<lambda>r _. \<forall>rc. r = Inr rc \<longrightarrow> paid (rc_reference rc)) (verify_bound L M E credential request route) V
    \<and> safe rely (settled_once J c) (receipt_for c') (verify_bound L M E credential request route) V"
proof (cases "authentic L M (cd_challenge credential) \<and> challenge_route L (cd_challenge credential) = route")
  case True
  let ?wired = "with_wire_currency (lib_keys L) (mpp_network M) request"
  have "paid s" if "accept_terms L M credential ?wired = Inr (payload, details, digest)"
      "payload = TransactionPayload b64" "prepare_pull L M b64 ?wired details (cd_challenge credential) = Inr (tx, s, uses)"
    for payload details digest b64 tx s uses
    using that True by (intro paid) (auto simp: prepares_def Let_def)
  note settle = upholds_settle_reservation [OF _ assms(2,3) this]
  have "upholds rely (\<lambda>r _. \<forall>rc. r = Inr rc \<longrightarrow> paid (rc_reference rc)) (verify_bound L M E credential request route) V"
    by (rule verify_bound_reaches [OF reaches_upholds assms(1,2,4) refl])
      (use upholds_reconcile [OF _ assms(2)] settle(1) in auto)
  moreover have "safe rely (settled_once J c) (receipt_for c') (verify_bound L M E credential request route) V"
    by (rule verify_bound_reaches [OF reaches_safe assms(1,2,4) refl])
      (use safe_reconcile [OF _ assms(2)] settle(2) in auto)
  ultimately show ?thesis ..
next
  case False
  from verify_bound_unauthentic [OF this, of E request] safe_error show ?thesis by auto
qed

end

section \<open>A request writes its own challenge's records and the signatures it claims\<close>

lemma confined_mono: "confined P Q p \<Longrightarrow> (\<And>k. P k \<Longrightarrow> P' k) \<Longrightarrow> (\<And>r. Q r \<Longrightarrow> Q' r) \<Longrightarrow> confined P' Q' p"
  by (induction p) auto

definition request_key :: "string \<Rightarrow> string \<Rightarrow> bool" where
  "request_key c k \<longleftrightarrow> own_key c k \<or> signature_key k"

lemma confined_own: "confined (own_key c) Q p \<Longrightarrow> confined (request_key c) Q p"
  by (erule confined_mono) (simp_all add: request_key_def)

lemma confined_signatures: "confined signature_key Q p \<Longrightarrow> confined (request_key c) Q p"
  by (erule confined_mono) (simp_all add: request_key_def)

lemma confined_settling [simp]:
  "confined (own_key c) (\<lambda>_. True) (mark_pending J c g s now)"
  "confined (own_key c) (\<lambda>_. True) (mark_confirmed J c g s now)"
  "confined (own_key c) (\<lambda>_. True) (confirm_pending J c g s now)"
  "confined (own_key c) (\<lambda>_. True) (release_pending_record J c g s now)"
  "confined (own_key c) (\<lambda>_. True) (mark_failed J c g s now)"
  "confined (own_key c) (\<lambda>_. True) (pending J c d)"
  by (auto simp: mark_pending_def mark_confirmed_def confirm_pending_def release_pending_record_def
      mark_failed_def pending_def intro!: confined_bind_try)

text \<open>The calls of the two ledgers hand out no transaction.\<close>

lemma silent_tip [simp]: "silent (tip J c)"
proof -
  have "silent (tip_loop J c g r)" for g r
  proof (induction J c g r rule: tip_loop.induct)
    case (1 J c g r)
    then show ?case
      by (subst tip_loop.simps) (auto simp: read_def intro!: silent_bind_try split: option.split)
  qed
  then show ?thesis by (auto simp: tip_def read_def intro!: silent_bind_try split: option.split)
qed

lemma silent_append [simp]: "silent (append_record J c g r)"
  by (simp add: append_record_def split: sum.split)

lemma silent_reserve [simp]: "silent (reserve J c d l now)"
proof -
  have "silent (reserve_loop n J c d l now)" for n
    by (induction n) (auto intro!: silent_bind_try split: option.split charge_record_state.split)
  then show ?thesis
    by (auto simp: reserve_def root_lost_def reserve_root_def read_def intro!: silent_bind_try split: sum.split)
qed

lemma silent_settling [simp]:
  "silent (mark_pending J c g s now)" "silent (mark_confirmed J c g s now)" "silent (confirm_pending J c g s now)"
  "silent (mark_failed J c g s now)" "silent (pending J c d)"
  by (auto simp: tip_or_error_def mark_pending_def mark_confirmed_def confirm_pending_def mark_failed_def pending_def
      intro!: silent_bind_try)

lemma silent_consume [simp]: "silent (consume_signature s)"
proof -
  have given: "silent (give_back keys)" for keys by (induction keys) simp_all
  have "silent (take_legacy keys taken)" for keys taken
    by (induction keys arbitrary: taken) (auto intro!: silent_bind_prog given split: sum.split)
  then show ?thesis
    unfolding consume_signature_def claim_def claim_with_def bind_try_def
    by (auto simp: claim_finish_def Let_def intro!: silent_bind_prog given split: sum.split)
qed

lemma silent_release [simp]: "silent (release_signature s)"
proof -
  have "silent (delete_keys keys)" for keys by (induction keys) (simp_all split: sum.split)
  then show ?thesis
    by (auto simp: release_signature_def release_def release_holding_def intro!: silent_bind_prog split: sum.split)
qed

lemma silent_fence_abandon [simp]: "silent (fence_abandon J E fence)"
proof -
  have "silent (release_pending_record J c g s now)" for c g s now
    by (auto simp: release_pending_record_def tip_or_error_def intro!: silent_bind_try)
  then show ?thesis unfolding fence_abandon_def Let_def by (auto intro!: silent_bind_prog split: option.split)
qed

lemma silent_fence_begin [simp]: "silent (fence_begin J E fence s)"
  unfolding fence_begin_def by (auto intro!: silent_bind_prog split: sum.split bool.split)

lemmas confined_then = confined_bind_prog [where Q' = "\<lambda>_. True"]

lemma confined_fence_begin:
  "bf_challenge_id fence = c \<Longrightarrow> confined (request_key c) (\<lambda>x. bf_challenge_id (snd x) = c) (fence_begin J E fence s)"
  unfolding fence_begin_def
  by (auto intro!: confined_then [OF confined_signatures [OF confined_consume_signature]]
      confined_then [OF confined_own [OF confined_settling(1)]]
      confined_then [OF confined_signatures [OF confined_release_signature]] split: sum.split bool.split)

lemma confined_fence_abandon:
  "bf_challenge_id fence = c \<Longrightarrow> confined (request_key c) (\<lambda>_. True) (fence_abandon J E fence)"
  unfolding fence_abandon_def Let_def
  by (auto intro!: confined_then [OF confined_signatures [OF confined_release_signature]]
      confined_then [OF confined_own [OF confined_settling(4)]] split: option.split)

lemma confined_broadcast_pull:
  assumes "bf_challenge_id fence = c"
  shows "confined (request_key c) (\<lambda>_. True) (broadcast_pull L M E b64 request details challenge fence)"
  using assms unfolding broadcast_pull_def
  by (auto intro!: confined_bind_prog [OF confined_fence_begin] confined_then [OF confined_fence_abandon]
      split: sum.split send_outcome.split)

lemma confined_settle_payload:
  assumes "bf_challenge_id fence = c"
  shows "confined (request_key c) (\<lambda>_. True) (settle_payload L M E payload request details challenge fence)"
  using assms unfolding settle_payload_def settle_pull_def settle_push_def bind_try_def
  by (auto intro!: confined_broadcast_pull [OF refl] confined_then
      [OF confined_signatures [OF confined_consume_signature]] confined_then split: sum.split credential_payload.split)

definition names_challenge :: "string \<Rightarrow> verification_error + receipt \<Rightarrow> bool" where
  "names_challenge c r \<longleftrightarrow> (\<forall>rc. r = Inr rc \<longrightarrow> rc_challenge_id rc = c)"

lemma names_challenge_simps [simp]:
  "names_challenge c (Inl e)" "names_challenge c (Inr rc) \<longleftrightarrow> rc_challenge_id rc = c"
  by (simp_all add: names_challenge_def)

lemma confined_conclude: "confined (request_key c) (names_challenge c) (conclude_settlement L E c outcome)"
  by (auto simp: conclude_settlement_def receipt_success_def intro!: confined_then [OF confined_own [OF confined_settling(2)]]
      confined_then [OF confined_own [OF confined_settling(5)]] split: sum.split settle_failure.split prod.split bool.split)

lemma confined_reconcile: "confined (request_key c) (names_challenge c) (reconcile_pending_charge L E c g s)"
  by (auto simp: reconcile_pending_charge_def receipt_success_def Let_def
      intro!: confined_then [OF confined_own [OF confined_settling(3)]]
      confined_then [OF confined_own [OF confined_settling(5)]] split: sum.split option.split bool.split)

lemma confined_settle_reservation:
  "confined (request_key c) (names_challenge c) (settle_reservation L M E payload request details challenge c reservation)"
  by (auto simp: settle_reservation_def confined_reconcile
      intro!: confined_then [OF confined_settle_payload] confined_conclude split: charge_reservation.split)

lemma confined_expiry_gate:
  assumes "c = utf8_text (pc_id (cd_challenge credential))"
  shows "confined (request_key c) (\<lambda>_. True) (expiry_gate L E credential)"
  unfolding expiry_gate_def expired_pending_charge_def Let_def assms
  by (auto intro!: confined_bind_try confined_then [OF confined_own [OF confined_settling(6)]]
      split: option.split sum.split)

lemma confined_verify_bound:
  assumes "c = utf8_text (pc_id (cd_challenge credential))"
  shows "confined (request_key c) (names_challenge c) (verify_bound L M E credential request route)"
  unfolding verify_bound_def Let_def assms [symmetric]
  by (auto intro!: confined_bind_try [OF confined_expiry_gate [OF assms]] confined_bind_try
      confined_then [OF confined_own [OF confined_reserve]] confined_reconcile confined_settle_reservation
      split: option.split sum.split)

section \<open>Properties\<close>

text \<open>One presentation of a credential to a server, with what it sees of the outside.\<close>

record presentation =
  ps_server :: mpp
  ps_env :: charge_env
  ps_credential :: payment_credential
  ps_request :: charge_request
  ps_route :: "string option"

definition presented_id :: "presentation \<Rightarrow> string" where
  "presented_id q = utf8_text (pc_id (cd_challenge (ps_credential q)))"

definition handle :: "'hash charge_lib \<Rightarrow> presentation \<Rightarrow> (verification_error + receipt) prog" where
  "handle L q = verify_bound L (ps_server q) (ps_env q) (ps_credential q) (ps_request q) (ps_route q)"

text \<open>Challenge ids are base64url, so they hold no colon.\<close>

definition ids_colon_free :: "'hash charge_lib \<Rightarrow> bool" where
  "ids_colon_free L \<longleftrightarrow> (\<forall>k x. colon_free (utf8_text (lib_mac L k x)))"

lemma handle_colon_free:
  assumes "ids_colon_free L" "\<nexists>e. handle L q = Done (Inl e)"
  shows "colon_free (presented_id q)"
proof -
  obtain k x where "pc_id (cd_challenge (ps_credential q)) = lib_mac L k x"
    using assms(2) verify_bound_unauthentic unfolding handle_def authentic_def compute_challenge_id_def by blast
  with assms(1) show ?thesis by (simp add: presented_id_def ids_colon_free_def)
qed

lemma request_key_other:
  assumes "colon_free c" "colon_free c'" "c' \<noteq> c" "request_key c' k"
  shows "k \<noteq> charge_record_key c g"
proof
  assume k: "k = charge_record_key c g"
  with assms(4) signature_key_not_charge obtain h where "charge_record_key c' h = charge_record_key c g"
    unfolding request_key_def own_key_def by metis
  with charge_record_key_inject [of c' c h g] assms(1-3) show False by (simp add: colon_free_def)
qed

context charge_ledger
begin

lemma handle_keeps:
  assumes "ok V" "lib_records L = J" "\<not> mpp_accept_push_mode (ps_server q)" "ids_colon_free L" "colon_free c"
    and paid: "\<And>s. presented_id q = c \<Longrightarrow> prepares L (ps_server q) (ps_credential q) (ps_request q) (ps_route q) s \<Longrightarrow> paid s"
  shows "upholds rely (\<lambda>r _. \<forall>rc. r = Inr rc \<longrightarrow> rc_challenge_id rc = c \<longrightarrow> paid (rc_reference rc)) (handle L q) V"
    and "safe rely (settled_once J c) (receipt_for c) (handle L q) V"
proof -
  let ?post = "\<lambda>r _. \<forall>rc. r = Inr rc \<longrightarrow> rc_challenge_id rc = c \<longrightarrow> paid (rc_reference rc)"
  have "upholds rely ?post (handle L q) V \<and> safe rely (settled_once J c) (receipt_for c) (handle L q) V"
  proof (cases "presented_id q = c")
    case True
    from verify_bound_keeps [where request = "ps_request q" and route = "ps_route q" and E = "ps_env q" and c' = c,
        OF assms(1-3) True [unfolded presented_id_def, symmetric] paid [OF True]]
    show ?thesis unfolding handle_def by (auto intro: receipt_order.upholds_mono)
  next
    case other: False
    show ?thesis
    proof (cases "\<exists>e. handle L q = Done (Inl e)")
      case True
      then show ?thesis by (auto intro: safe_error)
    next
      case False
      from handle_colon_free [OF assms(4) this] have cf: "colon_free (presented_id q)" .
      have conf: "confined (request_key (presented_id q)) (names_challenge (presented_id q)) (handle L q)"
        unfolding handle_def by (rule confined_verify_bound) (simp add: presented_id_def)
      have upd: "rely W (W(k := x))" if "request_key (presented_id q) k" for W k x
        using request_key_other [OF assms(5) cf other that] by (rule receipt_rely_other)
      have "upholds rely ?post (handle L q) V"
        by (rule receipt_order.upholds_mono [OF receipt_order.confined_upholds [OF conf]])
          (use upd other in \<open>auto simp: names_challenge_def\<close>)
      moreover have "safe rely (settled_once J c) (receipt_for c) (handle L q) V"
        by (rule confined_safe [where P = "request_key (presented_id q)"])
          (use upd other in \<open>auto intro: confined_mono [OF conf] simp: receipt_for_def split: sum.splits\<close>)
      ultimately show ?thesis by blast
    qed
  qed
  then show "upholds rely ?post (handle L q) V" "safe rely (settled_once J c) (receipt_for c) (handle L q) V" by auto
qed

end

lemma fresh_ledger_ok: "\<forall>g. V (charge_record_key c g) = None \<Longrightarrow> ledger_ok J c paid V"
  by (simp add: ledger_ok_def)

interpretation derived_ledger: charge_ledger derived_codec c paid for c paid
  by unfold_locales simp

lemma receipt_one_shot:
  assumes "codec_ok C"
  shows "one_shot (memory_store C) (memory_view C) (memory_ok C) (receipt_rely J c paid) (settled_once J c)"
  using memory_store_contract [OF assms] receipt_order.trans [of J c paid]
  by (auto simp: one_shot_def one_shot_axioms_def dest: settled_once_stable)

lemma receipt_rely_store:
  assumes "codec_ok C"
  shows "rely_store (memory_store C) (memory_view C) (memory_ok C) (receipt_rely J c paid)
    (\<lambda>r _. \<forall>rc. r = Inr rc \<longrightarrow> rc_challenge_id rc = c \<longrightarrow> paid (rc_reference rc))"
  using memory_store_contract [OF assms] receipt_order.rely_order_axioms
  by (simp add: rely_store_def rely_store_axioms_def)

interpretation receipt_shot: one_shot "memory_store value_codec" "memory_view value_codec" "memory_ok value_codec"
    "receipt_rely J c paid" "settled_once J c" "receipt_for c" for J c paid
  by (rule receipt_one_shot) simp

interpretation receipt_store: rely_store "memory_store value_codec" "memory_view value_codec" "memory_ok value_codec"
    "receipt_rely J c paid" "\<lambda>r _. \<forall>rc. r = Inr rc \<longrightarrow> rc_challenge_id rc = c \<longrightarrow> paid (rc_reference rc)" for J c paid
  by (rule receipt_rely_store) simp

end
