(* ===== verification/Charge_Handling.thy ===== *)
theory Charge_Handling
  imports Charge_Receipts
begin

text \<open>
  A charge request running alone: a good payment is answered with a receipt and its retry is
  refused; a broadcast whose outcome was unknown is reconciled by the retry.  The steps are read off
  the specification of the charge ledger (\<open>charge_spec\<close>) and of the signature ledger.
\<close>

section \<open>Lemmas: one method alone\<close>

text \<open>A request whose calls are served one after the other does what it does alone.\<close>

lemma interleave_step:
  assumes "step_prog S p s = (q, s1)" "i < length ps" "ps ! i = p"
    and "\<And>ps. i < length ps \<Longrightarrow> ps ! i = q \<Longrightarrow> \<exists>n. interleave S (replicate n i) (ps, s1) = (ps[i := Done r], s')"
  shows "\<exists>n. interleave S (replicate n i) (ps, s) = (ps[i := Done r], s')"
proof -
  obtain n where "interleave S (replicate n i) (ps[i := q], s1) = (ps[i := Done r], s')"
    using assms(4) [of "ps[i := q]"] assms(2) by auto
  with assms(1-3) show ?thesis by (intro exI [of _ "Suc n"]) (simp add: step_at_def)
qed

lemma interleave_run:
  assumes "run S p s = (r, s')" "i < length ps" "ps ! i = p"
  shows "\<exists>n. interleave S (replicate n i) (ps, s) = (ps[i := Done r], s')"
  using assms
proof (induction p arbitrary: ps s)
  case (Done r')
  then show ?case by (intro exI [of _ 0]) (auto, metis list_update_id)
next
  case (Get k f)
  from Get.prems show ?case
    by (cases "get_op S k s") (rule interleave_step [OF _ _ _ Get.IH], auto)
next
  case (Put k v f)
  from Put.prems show ?case
    by (cases "put_op S k v s") (rule interleave_step [OF _ _ _ Put.IH], auto)
next
  case (Delete k f)
  from Delete.prems show ?case
    by (cases "delete_op S k s") (rule interleave_step [OF _ _ _ Delete.IH], auto)
next
  case (PutIfAbsent k v f)
  from PutIfAbsent.prems show ?case
    by (cases "put_if_absent_op S k v s") (rule interleave_step [OF _ _ _ PutIfAbsent.IH], auto)
next
  case (PutIfEq k e v f)
  from PutIfEq.prems show ?case
    by (cases "put_if_eq_op S k e v s") (rule interleave_step [OF _ _ _ PutIfEq.IH], auto)
next
  case (Broadcast m p)
  show ?case
    by (rule interleave_step [OF _ _ _ Broadcast.IH]) (use Broadcast.prems in auto)
qed

lemma run_flag:
  assumes "chain_at J V (req_challenge q) rs" "record_codec_ok J"
    and "charge_prog J q = bind_prog p (\<lambda>r. Done (q, FlagReply r))" "charge_spec q rs = (FlagReply b, rs')"
  shows "\<exists>V'. run plain p V = (b, V') \<and> chain_at J V' (req_challenge q) rs'"
  using run_charge_prog [OF assms(1,2)] assms(3,4) by (auto simp: run_bind_prog split: prod.splits)

lemma chain_at_frame:
  assumes "chain_at J V c rs" "\<And>g. V' (charge_record_key c g) = V (charge_record_key c g)"
  shows "chain_at J V' c rs"
  using assms by (simp add: chain_at_def)

lemma chain_at_claimed:
  assumes "chain_at J V c rs"
  shows "chain_at J (claimed_view s v V) c rs"
proof (rule chain_at_frame [OF assms])
  fix g
  have "charge_record_key c g \<noteq> consumed_signature_key s" "charge_record_key c g \<notin> set (legacy_consumed_signature_keys s)"
    using signature_key_not_charge [of _ c g] by (metis signature_key_intros)+
  then show "claimed_view s v V (charge_record_key c g) = V (charge_record_key c g)"
    by (simp add: claimed_view_def)
qed

lemma run_own_frame:
  assumes "confined (own_key c) Q p" "run plain p V = (r, V')" "signature_key k"
  shows "V' k = V k"
  using run_confined [OF assms(1,2)] signature_key_not_charge [OF assms(3)] by (auto simp: own_key_def)

lemma spec_tip_at: "rs \<noteq> [] \<Longrightarrow> length rs \<le> 64 \<Longrightarrow> spec_tip c rs = Inr (Some (length rs - 1, last rs))"
  by (simp add: spec_tip_def MAX_CHARGE_RECORD_GENERATIONS_def)

lemma run_mark_pending_won:
  assumes "chain_at J V c rs" "record_codec_ok J" "length rs = Suc g" "g < 64" "cr_state (last rs) = StReserved"
  shows "\<exists>V'. run plain (mark_pending J c g s now) V = (Inr True, V')
    \<and> chain_at J V' c (rs @ [terminal now (last rs) StPending (Some s) None])"
proof -
  have "rs \<noteq> []" using assms(3) by auto
  then show ?thesis
    using run_flag [where q = "ReqMarkPending c g s now" and p = "mark_pending J c g s now", OF _ assms(2)] assms(1,3-5)
    by (simp add: spec_settle_def spec_tip_at)
qed

lemma run_mark_confirmed_won:
  assumes "chain_at J V c rs" "record_codec_ok J" "length rs = Suc g" "g < 64" "holds_pending s (last rs)"
  shows "\<exists>V'. run plain (mark_confirmed J c g s now) V = (Inr True, V')
    \<and> chain_at J V' c (rs @ [terminal now (last rs) StConfirmed (Some s) None])"
proof -
  have "rs \<noteq> []" using assms(3) by auto
  then show ?thesis
    using run_flag [where q = "ReqMarkConfirmed c g s now" and p = "mark_confirmed J c g s now", OF _ assms(2)] assms(1,3-5)
    by (simp add: spec_settle_def spec_tip_at)
qed

lemma run_confirm_pending_won:
  assumes "chain_at J V c rs" "record_codec_ok J" "length rs = Suc g" "g < 64" "holds_pending s (last rs)"
  shows "\<exists>V'. run plain (confirm_pending J c g s now) V = (Inr True, V')
    \<and> chain_at J V' c (rs @ [terminal now (last rs) StConfirmed (Some s) None])"
proof -
  have "rs \<noteq> []" using assms(3) by auto
  then show ?thesis
    using run_flag [where q = "ReqConfirmPending c g s now" and p = "confirm_pending J c g s now", OF _ assms(2)] assms(1,3-5)
    by (simp add: spec_settle_def spec_tip_at)
qed

section \<open>Lemmas: the handler up to its reservation\<close>

definition unexpired :: "'hash charge_lib \<Rightarrow> charge_env \<Rightarrow> payment_challenge \<Rightarrow> bool" where
  "unexpired L E challenge \<longleftrightarrow>
     (\<forall>expires. pc_expires challenge = Some expires \<longrightarrow> (\<exists>t. parse_rfc3339 L expires = Some t \<and> clock E AtExpiry < t))"

text \<open>
  A credential that passes the checks \<open>verify_bound\<close> makes on the credential and the request alone: the
  challenge is one of this server's and for this route, its request agrees with the one expected, the
  pinned fields and the payload are in order, and it is not a channel charge.  Its expiry and the
  transaction it brings are checked apart from these.
\<close>

definition admitted :: "'hash charge_lib \<Rightarrow> mpp \<Rightarrow> payment_credential \<Rightarrow> charge_request \<Rightarrow> string option
    \<Rightarrow> credential_payload \<Rightarrow> method_details \<Rightarrow> string \<Rightarrow> bool" where
  "admitted L M credential request route payload details digest \<longleftrightarrow>
     authentic L M (cd_challenge credential) \<and> challenge_route L (cd_challenge credential) = route
     \<and> accept_terms L M credential (with_wire_currency (lib_keys L) (mpp_network M) request)
         = Inr (payload, details, digest)
     \<and> md_channel_charge details = None"

lemma run_verify_admitted:
  assumes "admitted L M credential request route payload details digest" "unexpired L E (cd_challenge credential)"
    and "run plain (reserve (lib_records L) (utf8_text (pc_id (cd_challenge credential))) digest
      CHARGE_RESERVATION_LEASE (unix_at E AtReserve)) V = (Inr reservation, V')"
  shows "run plain (verify_bound L M E credential request route) V = run plain (settle_reservation L M E payload
    (with_wire_currency (lib_keys L) (mpp_network M) request) details (cd_challenge credential)
    (utf8_text (pc_id (cd_challenge credential))) reservation) V'"
proof -
  have gate: "expiry_gate L E credential = Done (Inr (False, None))"
    using assms(2) by (auto simp: expiry_gate_def unexpired_def Let_def split: option.split)
  have "validate_channel_policy details = Inr ()"
    using assms(1) by (simp add: admitted_def validate_channel_policy_def)
  with assms gate show ?thesis
    by (simp add: verify_bound_def admitted_def authentic_def constant_time_eq_iff bind_try_Done run_bind_prog Let_def)
qed

section \<open>Lemmas: what the handler sends\<close>

lemma silent_reconcile [simp]: "silent (reconcile_pending_charge L E c g s)"
  unfolding reconcile_pending_charge_def Let_def by (auto intro!: silent_bind_prog split: sum.split option.split)

lemma silent_conclude [simp]: "silent (conclude_settlement L E c outcome)"
  unfolding conclude_settlement_def
  by (cases outcome) (auto intro!: silent_bind_prog split: sum.split settle_failure.split)

lemma silent_expiry_gate [simp]: "silent (expiry_gate L E credential)"
  unfolding expiry_gate_def expired_pending_charge_def Let_def
  by (auto simp: bind_try_Done intro!: silent_bind_try silent_bind_prog split: option.split sum.split)

lemma broadcasts_verify_admitted:
  assumes "admitted L M credential request route payload details digest" "unexpired L E (cd_challenge credential)"
    and "run plain (reserve (lib_records L) (utf8_text (pc_id (cd_challenge credential))) digest
      CHARGE_RESERVATION_LEASE (unix_at E AtReserve)) V = (Inr reservation, V')"
  shows "broadcasts plain (verify_bound L M E credential request route) V = broadcasts plain (settle_reservation L M E payload
    (with_wire_currency (lib_keys L) (mpp_network M) request) details (cd_challenge credential)
    (utf8_text (pc_id (cd_challenge credential))) reservation) V'"
proof -
  have gate: "expiry_gate L E credential = Done (Inr (False, None))"
    using assms(2) by (auto simp: expiry_gate_def unexpired_def Let_def split: option.split)
  have "validate_channel_policy details = Inr ()"
    using assms(1) by (simp add: admitted_def validate_channel_policy_def)
  with assms gate show ?thesis
    by (simp add: verify_bound_def admitted_def authentic_def constant_time_eq_iff bind_try_Done broadcasts_bind_prog Let_def)
qed

text \<open>A transaction whose signature was recorded is handed out, once.\<close>

lemma broadcasts_reserved:
  assumes "prepare_pull L M b64 request details challenge = Inr (tx, s, uses)" "validate_channel_policy details = Inr ()"
    and "run plain (fence_begin (lib_records L) E \<lparr>bf_challenge_id = c, bf_generation = g, bf_pending = None\<rparr> s) V
      = ((Inr (), fence), V')"
  shows "broadcasts plain (settle_reservation L M E (TransactionPayload b64) request details challenge c (Reserved g)) V = [s]"
proof -
  have "broadcasts plain (broadcast_pull L M E b64 request details challenge
      \<lparr>bf_challenge_id = c, bf_generation = g, bf_pending = None\<rparr>) V = [s]"
    using assms(1,3) by (auto simp: broadcast_pull_def broadcasts_bind_prog split: send_outcome.split prod.split)
  then show ?thesis
    using assms(2) by (simp add: settle_reservation_def settle_payload_def settle_pull_def broadcasts_bind_prog split: prod.split)
qed

section \<open>Lemmas: a fresh challenge\<close>

lemma run_fence_begin:
  assumes "chain_at J V c rs" "record_codec_ok J" "length rs = Suc g" "g < 64" "cr_state (last rs) = StReserved"
    and "claimable s V"
  shows "\<exists>V'. run plain (fence_begin J E \<lparr>bf_challenge_id = c, bf_generation = g, bf_pending = None\<rparr> s) V
      = ((Inr (), \<lparr>bf_challenge_id = c, bf_generation = Suc g, bf_pending = Some s\<rparr>), V')
    \<and> chain_at J V' c (rs @ [terminal (unix_at E AtPending) (last rs) StPending (Some s) None])
    \<and> V' (consumed_signature_key s) = Some (JBool True)"
proof -
  have claim: "run plain (consume_signature s) V = (Inr (), claimed_view s (JBool True) V)"
    using assms(6) by (simp add: consume_signature_def run_bind_prog claim_def run_claim_with)
  from run_mark_pending_won [OF chain_at_claimed [OF assms(1)] assms(2-5)]
  obtain V' where V': "run plain (mark_pending J c g s (unix_at E AtPending)) (claimed_view s (JBool True) V) = (Inr True, V')"
    "chain_at J V' c (rs @ [terminal (unix_at E AtPending) (last rs) StPending (Some s) None])" by blast
  have "V' (consumed_signature_key s) = Some (JBool True)"
    using run_own_frame [OF confined_settling(1) V'(1) signature_key_intros(1)] by (simp add: claimed_view_def)
  with claim V' show ?thesis by (simp add: fence_begin_def run_bind_prog)
qed

text \<open>The chain of a challenge after a first reservation and a recorded broadcast.\<close>

definition broadcast_chain :: "charge_env \<Rightarrow> string \<Rightarrow> string \<Rightarrow> string \<Rightarrow> charge_record list" where
  "broadcast_chain E c digest s =
     (let r = fresh_record c digest CHARGE_RESERVATION_LEASE (unix_at E AtReserve) in
      [r, terminal (unix_at E AtPending) r StPending (Some s) None])"

lemma broadcast_chain_simps [simp]:
  "length (broadcast_chain E c d s) = Suc (Suc 0)" "broadcast_chain E c d s \<noteq> []"
  "holds_pending s (last (broadcast_chain E c d s))"
  "cr_state (last (broadcast_chain E c d s)) = StPending" "cr_final_signature (last (broadcast_chain E c d s)) = Some s"
  "cr_normalized_request_digest (last (broadcast_chain E c d s)) = d"
  by (simp_all add: broadcast_chain_def Let_def holds_pending_def terminal_def fresh_record_def)

lemma run_verify_fresh:
  assumes "admitted L M credential request route (TransactionPayload b64) details digest"
    and "unexpired L E (cd_challenge credential)" "record_codec_ok (lib_records L)"
    and "c = utf8_text (pc_id (cd_challenge credential))" "\<forall>g. V (charge_record_key c g) = None"
    and prep: "prepare_pull L M b64 (with_wire_currency (lib_keys L) (mpp_network M) request) details
      (cd_challenge credential) = Inr (tx, s, uses)"
    and "claimable s V"
  shows "\<exists>V'. chain_at (lib_records L) V' c (broadcast_chain E c digest s)
    \<and> V' (consumed_signature_key s) = Some (JBool True)
    \<and> broadcasts plain (verify_bound L M E credential request route) V = [s]
    \<and> (\<forall>signature. send_attempts E tx uses SIMULATION_MAX_ATTEMPTS False = Sent signature \<longrightarrow>
         run plain (verify_bound L M E credential request route) V = run plain (conclude_settlement L E c
           (case await_pull_confirmation L E signature of
              Inr _ \<Rightarrow> Inr signature
            | Inl error \<Rightarrow> if \<not> ve_retryable error then Inl (Failed error) else Inl (Unconfirmed signature error),
            \<lparr>bf_challenge_id = c, bf_generation = 1, bf_pending = Some s\<rparr>)) V')
    \<and> (\<forall>error. send_attempts E tx uses SIMULATION_MAX_ATTEMPTS False = MaybeSent error \<longrightarrow>
         run plain (verify_bound L M E credential request route) V = run plain (conclude_settlement L E c
           (Inl (Unconfirmed s error), \<lparr>bf_challenge_id = c, bf_generation = 1, bf_pending = Some s\<rparr>)) V')"
proof -
  let ?J = "lib_records L" and ?r = "fresh_record c digest CHARGE_RESERVATION_LEASE (unix_at E AtReserve)"
  have "chain_at ?J V c []" using assms(5) by (simp add: chain_at_def)
  from run_reserve [OF this assms(3), of digest CHARGE_RESERVATION_LEASE "unix_at E AtReserve"]
  obtain V1 where V1: "run plain (reserve ?J c digest CHARGE_RESERVATION_LEASE (unix_at E AtReserve)) V = (Inr (Reserved 0), V1)"
    "chain_at ?J V1 c [?r]" by (auto simp: spec_reserve.simps spec_tip_def)
  have same: "V1 k = V k" if "signature_key k" for k
    using run_own_frame [OF confined_reserve V1(1) that] .
  then have "claimable s V1"
    using assms(7) by (simp add: claimable_def list_all_iff)
  from run_fence_begin [OF V1(2) assms(3) _ _ _ this, of 0 E] obtain V' where V':
      "run plain (fence_begin ?J E \<lparr>bf_challenge_id = c, bf_generation = 0, bf_pending = None\<rparr> s) V1
        = ((Inr (), \<lparr>bf_challenge_id = c, bf_generation = Suc 0, bf_pending = Some s\<rparr>), V')"
      "chain_at ?J V' c (broadcast_chain E c digest s)" "V' (consumed_signature_key s) = Some (JBool True)"
    by (auto simp: broadcast_chain_def Let_def fresh_record_def)
  have policy: "validate_channel_policy details = Inr ()"
    using assms(1) by (simp add: admitted_def validate_channel_policy_def)
  note run = run_verify_admitted [OF assms(1,2), of V "Reserved 0" V1, folded assms(4), OF V1(1)]
  have "broadcasts plain (verify_bound L M E credential request route) V = [s]"
    unfolding broadcasts_verify_admitted [OF assms(1,2), of V "Reserved 0" V1, folded assms(4), OF V1(1)]
    by (rule broadcasts_reserved [OF prep policy V'(1)])
  then show ?thesis
    by (intro exI [of _ V'] conjI)
      (auto simp: V'(2,3) run settle_reservation_def settle_payload_def settle_pull_def broadcast_pull_def prep policy
        run_bind_prog V'(1))
qed

section \<open>Lemmas: retries\<close>

lemma run_retry_confirmed:
  assumes "admitted L M credential request route payload details digest"
    and "unexpired L E (cd_challenge credential)" "record_codec_ok (lib_records L)"
    and "c = utf8_text (pc_id (cd_challenge credential))" "chain_at (lib_records L) V c (rs @ [r])" "length rs < 64"
    and "cr_state r = StConfirmed" "cr_final_signature r = Some s" "cr_normalized_request_digest r = digest"
  shows "fst (run plain (verify_bound L M E credential request route) V) = Inl (already_settled c s)"
proof -
  have "spec_reserve c digest l n (rs @ [r]) = (Inr (AlreadyConfirmed s), rs @ [r])" for l n
    using assms(6-9) by (simp add: spec_reserve.simps spec_tip_at)
  with run_reserve [OF assms(5,3), of digest CHARGE_RESERVATION_LEASE "unix_at E AtReserve"] obtain V' where
    "run plain (reserve (lib_records L) c digest CHARGE_RESERVATION_LEASE (unix_at E AtReserve)) V
       = (Inr (AlreadyConfirmed s), V')" by auto
  from run_verify_admitted [OF assms(1,2), folded assms(4), OF this] show ?thesis
    by (simp add: settle_reservation_def)
qed

lemma run_reconcile:
  assumes "chain_at (lib_records L) V c rs" "record_codec_ok (lib_records L)" "length rs = Suc g" "g < 64"
    and "holds_pending s (last rs)" "signature_from_str L s = Inr ()" "signature_status_with_history E s = Inr (Some (Inr ()))"
  shows "fst (run plain (reconcile_pending_charge L E c g s) V) = Inr (receipt_success E s c)"
  using run_confirm_pending_won [OF assms(1-5), of "unix_at E AtConfirm"] assms(6,7)
  by (auto simp: reconcile_pending_charge_def run_bind_prog)

lemma run_pending_found:
  assumes "chain_at J V c (broadcast_chain E c digest s)" "record_codec_ok J"
  shows "\<exists>V'. run plain (pending J c digest) V = (Inr (Some (1, s)), V') \<and> chain_at J V' c (broadcast_chain E c digest s)"
  using run_charge_prog [of J V "ReqPending c digest" "broadcast_chain E c digest s"] assms
  by (auto simp: run_bind_prog spec_tip_at split: prod.splits)

text \<open>The issued request is not a channel charge.\<close>

definition plain_charge :: "'hash charge_lib \<Rightarrow> payment_challenge \<Rightarrow> bool" where
  "plain_charge L challenge \<longleftrightarrow> (\<forall>issued md. decode_request L (pc_request challenge) = Inr issued
     \<and> cr_method_details issued = Some md \<longrightarrow> json_get md ''channelCharge'' \<in> {None, Some JNull})"

lemma accept_terms_facts:
  assumes "accept_terms L M credential request = Inr (payload, details, digest)"
  shows "\<exists>issued. decode_request L (pc_request (cd_challenge credential)) = Inr issued
      \<and> compare_expected_to_request L issued request = Inr ()"
    and "verify_pinned_fields M credential request = Inr ()"
    and "payload_from_value L (cd_payload credential) = Inr payload"
    and "normalized_request_digest L (pc_id (cd_challenge credential)) (pc_request (cd_challenge credential)) payload = Inr digest"
    and "(case cr_method_details request of None \<Rightarrow> Inr default_method_details | Some v \<Rightarrow> details_from_value L v) = Inr details"
  using assms by (auto simp: accept_terms_def try_bind_Inr_iff Let_def split: if_split_asm option.splits)

lemma run_retry_pending:
  assumes adm: "admitted L M credential request route payload details digest"
    and readable: "\<forall>expires. pc_expires (cd_challenge credential) = Some expires \<longrightarrow> parse_rfc3339 L expires \<noteq> None"
    and "plain_charge L (cd_challenge credential)" and codec: "record_codec_ok (lib_records L)"
    and c: "c = utf8_text (pc_id (cd_challenge credential))"
    and chain: "chain_at (lib_records L) V c (broadcast_chain E c digest s)"
    and landed: "signature_from_str L s = Inr ()" "signature_status_with_history E' s = Inr (Some (Inr ()))"
  shows "fst (run plain (verify_bound L M E' credential request route) V) = Inr (receipt_success E' s c)
    \<and> broadcasts plain (verify_bound L M E' credential request route) V = []"
proof (cases "unexpired L E' (cd_challenge credential)")
  case True
  have "spec_reserve c digest l n (broadcast_chain E c digest s)
      = (Inr (PendingConfirmation 1 s), broadcast_chain E c digest s)" for l n
    by (simp add: spec_reserve.simps spec_tip_at)
  with run_reserve [OF chain codec, of digest CHARGE_RESERVATION_LEASE "unix_at E' AtReserve"] obtain V' where
    V': "run plain (reserve (lib_records L) c digest CHARGE_RESERVATION_LEASE (unix_at E' AtReserve)) V
       = (Inr (PendingConfirmation 1 s), V')" "chain_at (lib_records L) V' c (broadcast_chain E c digest s)" by auto
  from run_verify_admitted [OF adm True, folded c, OF V'(1)] run_reconcile [OF V'(2) codec _ _ _ landed, of 1]
    broadcasts_verify_admitted [OF adm True, folded c, OF V'(1)]
  show ?thesis by (simp add: settle_reservation_def)
next
  case False
  let ?ch = "cd_challenge credential" and ?req = "with_wire_currency (lib_keys L) (mpp_network M) request"
  from False readable obtain expires t where exp: "pc_expires ?ch = Some expires" "parse_rfc3339 L expires = Some t"
      "\<not> clock E' AtExpiry < t" by (auto simp: unexpired_def)
  have terms: "accept_terms L M credential ?req = Inr (payload, details, digest)"
    and policy: "validate_channel_policy details = Inr ()"
    using adm by (simp_all add: admitted_def validate_channel_policy_def)
  note facts = accept_terms_facts [OF terms]
  obtain issued where issued: "decode_request L (pc_request ?ch) = Inr issued" using facts(1) by blast
  with assms(3) have channel: "Option.bind (cr_method_details issued) (\<lambda>md. json_get md ''channelCharge'') \<in> {None, Some JNull}"
    by (cases "cr_method_details issued") (auto simp: plain_charge_def)
  from run_pending_found [OF chain codec] obtain V' where
    V': "run plain (pending (lib_records L) c digest) V = (Inr (Some (1, s)), V')"
      "chain_at (lib_records L) V' c (broadcast_chain E c digest s)" by blast
  have "run plain (expired_pending_charge L credential) V = (Inr (Some (1, s)), V')"
    using V'(1) facts(3,4) by (simp add: expired_pending_charge_def bind_try_Done run_bind_prog c)
  then have gate: "run plain (expiry_gate L E' credential) V = (Inr (False, Some (1, s)), V')"
    using exp issued channel by (auto simp: expiry_gate_def Let_def bind_try_Done run_bind_try)
  from run_reconcile [OF V'(2) codec _ _ _ landed, of 1] adm terms policy show ?thesis
    by (simp add: verify_bound_def Let_def admitted_def authentic_def constant_time_eq_iff run_bind_try
        broadcasts_bind_try gate c)
qed

lemma run_verify_paid:
  assumes "admitted L M credential request route (TransactionPayload b64) details digest"
    and "unexpired L E (cd_challenge credential)" "record_codec_ok (lib_records L)"
    and "c = utf8_text (pc_id (cd_challenge credential))" "\<forall>g. V (charge_record_key c g) = None"
    and "prepare_pull L M b64 (with_wire_currency (lib_keys L) (mpp_network M) request) details
      (cd_challenge credential) = Inr (tx, s, uses)"
    and "claimable s V"
    and "send_attempts E tx uses SIMULATION_MAX_ATTEMPTS False = Sent s" "await_pull_confirmation L E s = Inr ()"
  shows "\<exists>V'. run plain (verify_bound L M E credential request route) V = (Inr (receipt_success E s c), V')
    \<and> V' (consumed_signature_key s) = Some (JBool True)
    \<and> (\<forall>E'. unexpired L E' (cd_challenge credential) \<longrightarrow>
         fst (run plain (verify_bound L M E' credential request route) V') = Inl (already_settled c s))"
proof -
  let ?J = "lib_records L"
  from run_verify_fresh [OF assms(1-7)] assms(8,9) obtain V1 where V1:
      "chain_at ?J V1 c (broadcast_chain E c digest s)" "V1 (consumed_signature_key s) = Some (JBool True)"
      "run plain (verify_bound L M E credential request route) V = run plain (conclude_settlement L E c
         (Inr s, \<lparr>bf_challenge_id = c, bf_generation = 1, bf_pending = Some s\<rparr>)) V1" by auto
  from run_mark_confirmed_won [OF V1(1) assms(3), of 1 s "unix_at E AtConfirm"] obtain V' where V':
      "run plain (mark_confirmed ?J c 1 s (unix_at E AtConfirm)) V1 = (Inr True, V')"
      "chain_at ?J V' c (broadcast_chain E c digest s
         @ [terminal (unix_at E AtConfirm) (last (broadcast_chain E c digest s)) StConfirmed (Some s) None])" by auto
  have "V' (consumed_signature_key s) = Some (JBool True)"
    using run_own_frame [OF confined_settling(2) V'(1) signature_key_intros(1)] V1(2) by simp
  moreover have "fst (run plain (verify_bound L M E' credential request route) V') = Inl (already_settled c s)"
    if "unexpired L E' (cd_challenge credential)" for E'
    by (rule run_retry_confirmed [OF assms(1) that assms(3,4) V'(2)]) (simp_all add: terminal_def)
  ultimately show ?thesis using V1(3) V'(1) by (simp add: conclude_settlement_def run_bind_prog)
qed

lemma receipts_of_presentations:
  assumes "codec_ok C" "record_codec_ok (lib_records L)" "ids_colon_free L" "memory_ok C data"
    and "\<forall>q \<in> set qs. \<not> mpp_accept_push_mode (ps_server q)"
    and "colon_free c" "\<forall>g. data (charge_record_key c g) = None"
    and "interleave (memory_store C) sched (map (handle L) qs, data) = (ps, data')"
  shows "wins (receipt_for c) ps \<le> 1
    \<and> (\<forall>rc. Done (Inr rc) \<in> set ps \<and> rc_challenge_id rc = c \<longrightarrow>
        (\<exists>q \<in> set qs. presented_id q = c
           \<and> prepares L (ps_server q) (ps_credential q) (ps_request q) (ps_route q) (rc_reference rc)))"
proof -
  let ?J = "lib_records L"
  let ?paid = "\<lambda>s. \<exists>q \<in> set qs. presented_id q = c \<and> prepares L (ps_server q) (ps_credential q) (ps_request q) (ps_route q) s"
  have ledger: "charge_ledger ?J" using assms(2) by (simp add: charge_ledger_def)
  have fresh: "ledger_ok ?J c ?paid (memory_view C data)"
    using assms(7) by (intro fresh_ledger_ok) (simp add: memory_view_def)
  note keeps = charge_ledger.handle_keeps [OF ledger fresh refl _ assms(3,6)]
  have "upholds (receipt_rely ?J c ?paid) (\<lambda>r _. \<forall>rc. r = Inr rc \<longrightarrow> rc_challenge_id rc = c \<longrightarrow> ?paid (rc_reference rc)) p
        (memory_view C data)
      \<and> safe (receipt_rely ?J c ?paid) (settled_once ?J c) (receipt_for c) p (memory_view C data)"
    if "p \<in> set (map (handle L) qs)" for p
    using that assms(5) by (auto intro!: keeps)
  then have up: "\<And>p. p \<in> set (map (handle L) qs) \<Longrightarrow> upholds (receipt_rely ?J c ?paid)
      (\<lambda>r _. \<forall>rc. r = Inr rc \<longrightarrow> rc_challenge_id rc = c \<longrightarrow> ?paid (rc_reference rc)) p (memory_view C data)"
    and sf: "\<And>p. p \<in> set (map (handle L) qs) \<Longrightarrow>
      safe (receipt_rely ?J c ?paid) (settled_once ?J c) (receipt_for c) p (memory_view C data)"
    by blast+
  from one_shot.at_most_one_win(1) [OF receipt_one_shot [OF assms(1)] assms(4) sf assms(8)]
    rely_store.upholds_interleave [OF receipt_rely_store [OF assms(1)] assms(4) up assms(8)]
  show ?thesis by blast
qed

section \<open>Properties\<close>

text \<open>
  C2.  One receipt per challenge, and only for a checked payment.  However the store calls of any
  number of presentations interleave, on any servers that share the store and do not accept push
  payments, a challenge that was not presented before yields at most one receipt.  The payment that
  receipt names is a transaction that one of the presentations of this very challenge brought, and
  that its server found to pay the request it was asked for, fully signed.
\<close>

theorem one_receipt_per_challenge:
  assumes "codec_ok C" "record_codec_ok (lib_records L)" "ids_colon_free L" "memory_ok C data"
    and "\<forall>q \<in> set qs. \<not> mpp_accept_push_mode (ps_server q)"
    and "colon_free c" "\<forall>g. data (charge_record_key c g) = None"
    and "interleave (memory_store C) sched (map (handle L) qs, data) = (ps, data')"
  shows "wins (receipt_for c) ps \<le> 1
    \<and> (\<forall>rc. Done (Inr rc) \<in> set ps \<and> rc_challenge_id rc = c \<longrightarrow>
        (\<exists>q \<in> set qs. presented_id q = c
           \<and> prepares L (ps_server q) (ps_credential q) (ps_request q) (ps_route q) (rc_reference rc)))"
  by (rule receipts_of_presentations [OF assms])

text \<open>
  C3.  A good payment is answered, once.  On a fresh challenge, with no other request running, a credential
  that passes every check and whose transaction the node accepts and confirms is answered with a receipt for that
  transaction; its signature is consumed; and presenting the credential again is refused as already
  settled, at any later time before the challenge expires.
\<close>

theorem payment_gets_receipt:
  assumes "admitted L M credential request route (TransactionPayload b64) details digest"
    and "unexpired L E (cd_challenge credential)" "record_codec_ok (lib_records L)"
    and "c = utf8_text (pc_id (cd_challenge credential))" "\<forall>g. V (charge_record_key c g) = None"
    and "prepare_pull L M b64 (with_wire_currency (lib_keys L) (mpp_network M) request) details
      (cd_challenge credential) = Inr (tx, s, uses)"
    and "claimable s V"
    and "send_attempts E tx uses SIMULATION_MAX_ATTEMPTS False = Sent s" "await_pull_confirmation L E s = Inr ()"
  shows "\<exists>V'. run plain (verify_bound L M E credential request route) V = (Inr (receipt_success E s c), V')
    \<and> V' (consumed_signature_key s) = Some (JBool True)
    \<and> (\<forall>E'. unexpired L E' (cd_challenge credential) \<longrightarrow>
         fst (run plain (verify_bound L M E' credential request route) V') = Inl (already_settled c s))"
  by (rule run_verify_paid [OF assms])


section \<open>A concrete charge\<close>

definition sample_charge :: charge_request where
  "sample_charge = sample_request\<lparr>cr_method_details := Some (JObject [])\<rparr>"

definition sample_sdk :: "unit sdk" where
  "sample_sdk = toy_sdk\<lparr>wincode_deserialize := \<lambda>bs. Inr sample_transaction,
     base64_decode := \<lambda>s. wincode_serialize toy_sdk sample_transaction\<rparr>"

definition sample_signer :: "unit tx_signer" where
  "sample_signer = \<lparr>signer_pubkey = ''sponsor'',
     sign_transaction = \<lambda>tx e. (Inr (tx\<lparr>vt_signatures := [[7], [1]]\<rparr>), e)\<rparr>"

definition sample_mpp :: mpp where
  "sample_mpp = \<lparr>mpp_secret = [], mpp_realm = ascii ''api'', mpp_currency = ''sol'', mpp_recipient = ''shop'',
     mpp_decimals = 9,
     mpp_network = ''mainnet'', mpp_token_program = None, mpp_accepted_versions = [V0],
     mpp_accept_push_mode = False, mpp_fee_payer = True, mpp_fee_payer_signer = Some sample_signer\<rparr>"

definition sample_lib :: "unit charge_lib" where
  "sample_lib = \<lparr>lib_mac = \<lambda>k x. ascii ''id'',
     lib_codec = \<lparr>url_safe_no_pad_encode = \<lambda>bs. bs, url_safe_no_pad_decode = Inr, json_from_slice = \<lambda>bs. Inr (),
       credential_to_jcs = \<lambda>c. Inl [], credential_from_slice = \<lambda>bs. Inl []\<rparr>,
     request_to_jcs = \<lambda>r. Inl [], value_to_jcs = \<lambda>v. Inl [], splits_to_value = \<lambda>s. JNull, versions_to_value = \<lambda>v. JNull,
     request_from_slice = \<lambda>bs. Inr sample_charge, value_from_slice = \<lambda>bs. Inr JNull,
     details_from_value = \<lambda>v. Inr sample_details, payload_from_value = \<lambda>v. Inr (TransactionPayload ''tx''),
     payload_to_vec = \<lambda>p. Inr [], sha256 = \<lambda>bs. [], format_rfc3339 = \<lambda>t. Inl [], parse_rfc3339 = \<lambda>s. None, lib_records = derived_codec,
     lib_keys = toy_keys, lib_sdk = sample_sdk, recent_blockhash = \<lambda>m. ''hash'',
     verify_and_hash_message = \<lambda>tx. Inr (), signature_text = \<lambda>s. ''sig'', signature_from_str = \<lambda>s. Inr ()\<rparr>"

definition sample_credential :: payment_credential where
  "sample_credential = \<lparr>cd_challenge = \<lparr>pc_id = ascii ''id'', pc_realm = ascii ''api'', pc_method = ascii ''solana'',
       pc_intent = ascii ''charge'', pc_request = [], pc_expires = None, pc_description = None, pc_digest = None,
       pc_opaque = None\<rparr>, cd_source = None, cd_payload = JNull\<rparr>"

text \<open>The node accepts and confirms at once, or gives no answer until later.\<close>

definition sample_env :: "bool \<Rightarrow> charge_env" where
  "sample_env up = \<lparr>clock = \<lambda>site. 0,
     send_transaction = \<lambda>n tx. if up then Inr ''sig'' else Inl (SendFailed ''timeout''),
     send_skip_preflight = \<lambda>tx. Inl [], balance_detail = \<lambda>tx. [], confirm_transaction = \<lambda>n s. Inr up,
     signature_status = \<lambda>s. Inr None, signature_status_with_history = \<lambda>s. Inr (Some (Inr ())),
     confirmed_at = \<lambda>s. Inl []\<rparr>"

lemma sample_wired: "with_wire_currency toy_keys ''mainnet'' sample_charge = sample_charge"
proof -
  have "currency_is_native_sol ''sol''" by code_simp
  then show ?thesis
    by (simp add: with_wire_currency_def wire_currency_def sample_charge_def sample_request_def NATIVE_SOL_CURRENCY_def)
qed

lemma sample_charge_fields:
  "cr_amount sample_charge = cr_amount sample_request" "cr_currency sample_charge = cr_currency sample_request"
  "cr_recipient sample_charge = cr_recipient sample_request" "cr_external_id sample_charge = cr_external_id sample_request"
  by (simp_all add: sample_charge_def)

lemma sample_sdk_checks:
  "check_envelope_without_legacy sample_sdk sample_transaction [V0] = Inr V0"
  "require_presigned sample_sdk sample_transaction (Some ''sponsor'') = Inr ()"
  by (simp_all add: sample_defs check_envelope_without_legacy_def refuse_legacy_def check_envelope_def
      require_static_accounts_def check_limits_def serialized_size_def serialize_def sample_sdk_def toy_sdk_def
      sol_transfer_def PACKET_DATA_SIZE_def MAX_TX_ACCOUNT_LOCKS_def as_bytes_def require_presigned_def signed_slot)

lemma sample_charge_accepted:
  "verify_client_pull_transaction sample_sdk toy_keys sample_transaction sample_charge sample_details [V0] = Inr ()"
proof -
  have "verify_versioned_transaction_pre_broadcast sample_sdk toy_keys sample_transaction sample_charge sample_details [V0]
      = verify_versioned_transaction_pre_broadcast toy_sdk toy_keys sample_transaction sample_request sample_details [V0]"
    unfolding verify_versioned_transaction_pre_broadcast_def sample_sdk_checks(1) sample_envelope
      primary_amount_def verify_native_charge_def verify_token_charge_def sample_charge_fields ..
  also have "\<dots> = Inr ()"
    using sample_accepted by (auto simp: verify_client_pull_transaction_def try_bind_Inr_iff)
  finally show ?thesis
    using sample_payer sample_sdk_checks(2) by (simp add: verify_client_pull_transaction_def core_result_def)
qed

lemma sample_digest: "normalized_request_digest sample_lib i r payload = Inr []"
  by (simp add: normalized_request_digest_def sample_lib_def)

lemma sample_issued: "decode_request sample_lib raw = Inr sample_charge"
  by (simp add: decode_request_def base64url_decode_def sample_lib_def)

lemma sample_compared: "compare_expected_to_request sample_lib sample_charge sample_charge = Inr ()"
  by (simp add: compare_expected_to_request_def parse_method_details_for_compare_def sample_charge_def sample_request_def
      sample_lib_def compare_details_def same_channel_policy_def splits_eq_def sample_details_def default_method_details_def)

lemma sample_pinned: "verify_pinned_fields sample_mpp sample_credential sample_charge = Inr ()"
proof -
  have "utf8_text (ascii ''solana'') = ''solana''" "is_charge (ascii ''charge'')" by code_simp+
  then show ?thesis
    by (simp add: verify_pinned_fields_def request_network_def METHOD_NAME_def sample_charge_def sample_request_def
        sample_mpp_def sample_credential_def)
qed

lemma sample_admitted:
  "admitted sample_lib sample_mpp sample_credential sample_charge None (TransactionPayload ''tx'') sample_details []"
proof -
  have "with_wire_currency (lib_keys sample_lib) (mpp_network sample_mpp) sample_charge = sample_charge"
    using sample_wired by (simp add: sample_lib_def sample_mpp_def)
  moreover have "accept_terms sample_lib sample_mpp sample_credential sample_charge
      = Inr (TransactionPayload ''tx'', sample_details, [])"
    using sample_issued sample_compared sample_pinned sample_digest
    by (simp add: accept_terms_def Let_def)
      (simp add: sample_charge_def sample_lib_def sample_details_def default_method_details_def)
  ultimately show ?thesis
    by (simp add: admitted_def authentic_def challenge_route_def)
      (simp add: sample_credential_def sample_lib_def compute_challenge_id_def sample_details_def
        default_method_details_def)
qed

lemma cosigned_slot: "[7] \<noteq> default_signature"
  by (auto simp: default_signature_def dest: arg_cong [where f = length])

lemma sample_prepared:
  "\<exists>tx. prepare_pull sample_lib sample_mpp ''tx'' sample_charge sample_details (cd_challenge sample_credential)
      = Inr (tx, ''sig'', False)"
proof -
  have decoded: "\<exists>bs. base64_decode sample_sdk ''tx'' = Inr bs \<and> decode_bytes sample_sdk bs = Inr sample_transaction"
    by (simp add: sample_sdk_def toy_sdk_def decode_bytes_def serialize_def sample_transaction_def)
  have unchallenged: "challenged_blockhash sample_lib (cd_challenge sample_credential) = None"
    by (simp add: challenged_blockhash_def sample_issued sample_charge_def)
      (simp add: sample_lib_def sample_details_def default_method_details_def)
  obtain tx where cosigned: "cosign_fee_payer_slot sample_mpp sample_transaction = Inr tx"
      "final_signature sample_lib tx = Inr ''sig''"
    by (simp add: cosign_fee_payer_slot_def sample_mpp_def sample_signer_def sample_transaction_def
        cosign_versioned_fee_payer_def sign_versioned_transaction_slot_def final_signature_def cosigned_slot)
      (simp add: sample_lib_def)
  have lib: "lib_sdk sample_lib = sample_sdk" "lib_keys sample_lib = toy_keys" "mpp_accepted_versions sample_mpp = [V0]"
      "md_fee_payer sample_details = Some True" "check_network_blockhash n (recent_blockhash sample_lib m) = Inr ()"
      "verify_and_hash_message sample_lib t = Inr ()" for n m t
    by (simp_all add: sample_lib_def sample_mpp_def sample_details_def check_network_blockhash_def
        SURFPOOL_BLOCKHASH_PREFIX_def)
  from decoded cosigned show ?thesis
    by (auto simp: prepare_pull_def unchallenged lib sample_charge_accepted Let_def)
qed

lemma sample_sent:
  "send_attempts (sample_env True) tx uses SIMULATION_MAX_ATTEMPTS False = Sent ''sig''"
  "\<exists>e. send_attempts (sample_env False) tx uses SIMULATION_MAX_ATTEMPTS False = MaybeSent e"
  "await_pull_confirmation sample_lib (sample_env True) ''sig'' = Inr ()"
  by (simp_all add: sample_env_def SIMULATION_MAX_ATTEMPTS_def eval_nat_numeral await_pull_confirmation_def sample_lib_def)

lemma sample_facts:
  "unexpired sample_lib E (cd_challenge sample_credential)" "record_codec_ok (lib_records sample_lib)"
  "utf8_text (pc_id (cd_challenge sample_credential)) = ''id''" "claimable s Map.empty"
  "with_wire_currency (lib_keys sample_lib) (mpp_network sample_mpp) sample_charge = sample_charge"
  "signature_from_str sample_lib s = Inr ()" "plain_charge sample_lib (cd_challenge sample_credential)"
proof -
  have "utf8_text (ascii ''id'') = ''id''" by code_simp
  then show "utf8_text (pc_id (cd_challenge sample_credential)) = ''id''" by (simp add: sample_credential_def)
  show "with_wire_currency (lib_keys sample_lib) (mpp_network sample_mpp) sample_charge = sample_charge"
    using sample_wired by (simp add: sample_lib_def sample_mpp_def)
  show "plain_charge sample_lib (cd_challenge sample_credential)"
    by (simp add: plain_charge_def sample_issued) (simp add: sample_charge_def)
qed (simp_all add: unexpired_def sample_credential_def sample_lib_def claimable_def list_all_iff)

theorem payment_gets_receipt_witness:
  "\<exists>V'. run plain (verify_bound sample_lib sample_mpp (sample_env True) sample_credential sample_charge None) Map.empty
      = (Inr (receipt_success (sample_env True) ''sig'' ''id''), V')
    \<and> fst (run plain (verify_bound sample_lib sample_mpp (sample_env True) sample_credential sample_charge None) V')
      = Inl (already_settled ''id'' ''sig'')"
proof -
  obtain tx where "prepare_pull sample_lib sample_mpp ''tx'' sample_charge sample_details (cd_challenge sample_credential)
      = Inr (tx, ''sig'', False)" using sample_prepared by blast
  then show ?thesis
    using payment_gets_receipt [OF sample_admitted sample_facts(1,2) refl, of Map.empty tx "''sig''" False "sample_env True"]
      sample_facts sample_sent by auto
qed


definition sample_presentation :: presentation where
  "sample_presentation = \<lparr>ps_server = sample_mpp, ps_env = sample_env True, ps_credential = sample_credential,
     ps_request = sample_charge, ps_route = None\<rparr>"

text \<open>The same credential presented twice, the second time when the first was answered.\<close>

lemma sample_schedule:
  "\<exists>sched e data. interleave plain sched ([handle sample_lib sample_presentation, handle sample_lib sample_presentation], Map.empty)
     = ([Done (Inr (receipt_success (sample_env True) ''sig'' ''id'')), Done (Inl e)], data)"
proof -
  let ?p = "handle sample_lib sample_presentation"
  obtain tx where "prepare_pull sample_lib sample_mpp ''tx'' sample_charge sample_details (cd_challenge sample_credential)
      = Inr (tx, ''sig'', False)" using sample_prepared by blast
  then obtain V1 e V2 where "run plain ?p Map.empty = (Inr (receipt_success (sample_env True) ''sig'' ''id''), V1)"
      "run plain ?p V1 = (Inl e, V2)"
    using run_verify_paid [OF sample_admitted sample_facts(1,2) refl, of Map.empty tx "''sig''" False "sample_env True"]
      sample_facts sample_sent by (auto simp: handle_def sample_presentation_def) (metis prod.collapse)
  from interleave_run [OF this(1), of 0 "[?p, ?p]"] interleave_run [OF this(2), of 1
      "[Done (Inr (receipt_success (sample_env True) ''sig'' ''id'')), ?p]"]
  obtain n m where
    "interleave plain (replicate n 0) ([?p, ?p], Map.empty)
       = ([Done (Inr (receipt_success (sample_env True) ''sig'' ''id'')), ?p], V1)"
    "interleave plain (replicate m 1) ([Done (Inr (receipt_success (sample_env True) ''sig'' ''id'')), ?p], V1)
       = ([Done (Inr (receipt_success (sample_env True) ''sig'' ''id'')), Done (Inl e)], V2)" by auto
  then show ?thesis by (metis interleave_append)
qed

lemma sample_ids: "ids_colon_free sample_lib" "colon_free ''id''"
proof -
  have "colon_free (utf8_text (ascii ''id''))" by code_simp
  then show "ids_colon_free sample_lib" by (simp add: ids_colon_free_def sample_lib_def)
qed (simp add: colon_free_def)

theorem one_receipt_per_challenge_witness:
  "\<exists>sched e data. interleave plain sched ([handle sample_lib sample_presentation, handle sample_lib sample_presentation], Map.empty)
     = ([Done (Inr (receipt_success (sample_env True) ''sig'' ''id'')), Done (Inl e)], data)
     \<and> prepares sample_lib sample_mpp sample_credential sample_charge None ''sig''"
proof -
  from sample_schedule obtain sched e data where run: "interleave plain sched
      (map (handle sample_lib) [sample_presentation, sample_presentation], Map.empty)
     = ([Done (Inr (receipt_success (sample_env True) ''sig'' ''id'')), Done (Inl e)], data)" by auto
  have "prepares sample_lib sample_mpp sample_credential sample_charge None ''sig''"
    using one_receipt_per_challenge [OF codec_ok_value_codec sample_facts(2) sample_ids(1) memory_ok_empty _ sample_ids(2) _ run]
    by (auto simp: sample_presentation_def sample_mpp_def receipt_success_def)
  with run show ?thesis by auto
qed

end
