(* ===== verification/Charge_Issue.thy ===== *)
theory Charge_Issue
  imports Charge_Handling Units Tx_Policy
begin

text \<open>
  Making a charge server and issuing its challenges: \<open>Mpp::new\<close>, \<open>charge_with_options\<close>,
  \<open>charge_challenge_with_options\<close> and \<open>verify_payment_for_amount\<close> of \<open>mpp/server/charge.rs\<close>, with
  \<open>validate_confidential_charge\<close> and the token programs of \<open>mpp/protocol/solana.rs\<close>
  and \<open>minutes\<close> of \<open>mpp/expires.rs\<close>.  A challenge the server issues is one it will accept.
\<close>

section \<open>Token programs\<close>

definition is_known_stablecoin_mint :: "string \<Rightarrow> bool" where
  "is_known_stablecoin_mint mint \<longleftrightarrow>
     mint \<in> {USDC_MAINNET, USDC_DEVNET, USDTEST_DEVNET, USDT_MAINNET, USDG_MAINNET, USDG_DEVNET, PYUSD_MAINNET,
       PYUSD_DEVNET, CASH_MAINNET, USDPT_MAINNET}"

text \<open>\<open>mint_owner\<close> is the RPC lookup of a mint account: an error, no account, or its owner.\<close>

definition resolve_server_token_program :: "keylib \<Rightarrow> (pubkey \<Rightarrow> string + pubkey option) \<Rightarrow> string \<Rightarrow> string option
    \<Rightarrow> charge_error + string option" where
  "resolve_server_token_program L mint_owner currency network =
     (if currency_is_native_sol currency then Inr None
      else
      try_bind (try_resolve_stablecoin_mint currency network) (\<lambda>resolved.
      if (case resolved of Some mint \<Rightarrow> is_known_stablecoin_mint mint | None \<Rightarrow> False)
      then Inr (Some (default_token_program_for_currency currency network))
      else
      try_bind (map_err (\<lambda>e. InvalidConfig (''Currency '' @ currency
          @ '' is neither a known symbol nor a valid mint address: '' @ e)) (key_from_str L currency)) (\<lambda>mint_pk.
      try_bind (map_err (\<lambda>e. InvalidConfig (''Failed to fetch mint account for currency '' @ currency @ '': '' @ e))
          (mint_owner mint_pk)) (\<lambda>account.
      try_bind (ok_or account (InvalidConfig (''Mint account not found for currency '' @ currency))) (\<lambda>owner.
      if owner = TOKEN_PROGRAM then Inr (Some TOKEN_PROGRAM)
      else if owner = TOKEN_2022_PROGRAM then Inr (Some TOKEN_2022_PROGRAM)
      else Inl (InvalidConfig (''Mint '' @ currency @ '' is owned by unsupported program '' @ owner
             @ ''; expected the Token or Token-2022 program'')))))))"

section \<open>Making a server\<close>

definition SECRET_KEY_ENV_VAR :: string where
  "SECRET_KEY_ENV_VAR = ''MPP_SECRET_KEY''"

definition MIN_SECRET_KEY_BYTES :: nat where
  "MIN_SECRET_KEY_BYTES = 32"

definition detect_challenge_binding_secret :: "ustring option \<Rightarrow> charge_error + ustring" where
  "detect_challenge_binding_secret env_var = ok_or env_var (InvalidConfig (''Missing '' @ SECRET_KEY_ENV_VAR
     @ '' env var. Set it or pass challenge_binding_secret explicitly.''))"

definition validate_challenge_binding_secret :: "ustring \<Rightarrow> charge_error + unit" where
  "validate_challenge_binding_secret secret =
     (if length (utf8 secret) < MIN_SECRET_KEY_BYTES
      then Inl (InvalidConfig (''Secret key is too short ('' @ show_nat (length (utf8 secret)) @ '' bytes): require at least ''
             @ show_nat MIN_SECRET_KEY_BYTES @ '' bytes of cryptographically-random data (e.g. `openssl rand -base64 32`)''))
      else Inr ())"

text \<open>
  A configuration without channel charges and confidential settlement.  Of the store only whether it
  is given matters here; \<open>mpp_env\<close> is what \<open>Mpp::new\<close> reads of its surroundings.
\<close>

record config =
  cf_recipient :: string
  cf_currency :: string
  cf_decimals :: u8
  cf_network :: string
  cf_challenge_binding_secret :: "ustring option"
  cf_realm :: "ustring option"
  cf_fee_payer :: bool
  cf_fee_payer_signer :: "unit tx_signer option"
  cf_store :: "unit option"
  cf_accept_push_mode :: bool

definition default_config :: config where
  "default_config = \<lparr>cf_recipient = [], cf_currency = ''USDC'', cf_decimals = 6, cf_network = ''mainnet'',
     cf_challenge_binding_secret = None, cf_realm = None, cf_fee_payer = False, cf_fee_payer_signer = None,
     cf_store = None, cf_accept_push_mode = False\<rparr>"

record mpp_env =
  env_secret :: "ustring option"
  env_mint_owner :: "pubkey \<Rightarrow> string + pubkey option"

definition mpp_new :: "keylib \<Rightarrow> mpp_env \<Rightarrow> config \<Rightarrow> charge_error + mpp" where
  "mpp_new L R config =
     (if cf_recipient config = [] then Inl (InvalidConfig ''recipient is required'')
      else
      try_bind (map_err (\<lambda>e. InvalidConfig (''Invalid recipient pubkey: '' @ e)) (key_from_str L (cf_recipient config))) (\<lambda>_.
      if cf_fee_payer config \<and> cf_fee_payer_signer config = None
      then Inl (InvalidConfig (''Config.fee_payer is true but fee_payer_signer is None (spec '' @ section_sign
             @ ''7.2 requires feePayerKey)''))
      else
      try_bind (validate_network (cf_network config)) (\<lambda>_.
      try_bind (case cf_challenge_binding_secret config of
          Some secret \<Rightarrow> Inr secret | None \<Rightarrow> detect_challenge_binding_secret (env_secret R)) (\<lambda>secret.
      try_bind (validate_challenge_binding_secret secret) (\<lambda>_.
      case cf_realm config of
        None \<Rightarrow> Inl (InvalidConfig ''Config.realm is required: set a non-empty realm unique to this service'')
      | Some realm \<Rightarrow>
      if realm = [] then Inl (InvalidConfig ''Config.realm is required: set a non-empty realm unique to this service'')
      else
      try_bind (ok_or (cf_store config)
          (InvalidConfig ''Config.store is required: pass the replay store shared by every verifier'')) (\<lambda>_.
      try_bind (wire_currency L (cf_currency config) (cf_network config)) (\<lambda>currency.
      try_bind (resolve_server_token_program L (env_mint_owner R) currency (Some (cf_network config))) (\<lambda>token_program.
        Inr \<lparr>mpp_secret = secret, mpp_realm = realm, mpp_currency = currency, mpp_recipient = cf_recipient config,
             mpp_decimals = ucast (cf_decimals config), mpp_network = cf_network config,
             mpp_token_program = token_program, mpp_accepted_versions = [V0],
             mpp_accept_push_mode = cf_accept_push_mode config, mpp_fee_payer = cf_fee_payer config,
             mpp_fee_payer_signer = cf_fee_payer_signer config\<rparr>))))))))"

definition with_tx_v1 :: "mpp \<Rightarrow> tx_v1_mode \<Rightarrow> (pubkey \<Rightarrow> string + account) \<Rightarrow> mpp" where
  "with_tx_v1 M mode get_account = M\<lparr>mpp_accepted_versions := resolve mode get_account\<rparr>"

section \<open>Issuing a challenge\<close>

record charge_options =
  co_description :: "ustring option"
  co_external_id :: "ustring option"
  co_expires :: "ustring option"
  co_fee_payer :: bool
  co_splits :: "charge_split list"
  co_route :: "ustring option"

definition default_charge_options :: charge_options where
  "default_charge_options = \<lparr>co_description = None, co_external_id = None, co_expires = None, co_fee_payer = False,
     co_splits = [], co_route = None\<rparr>"

text \<open>What issuing reads of its surroundings: the clock, the blockhash cache and the node.\<close>

record issue_env =
  issue_clock :: int
  retention_clock :: int
  cached_blockhash :: "string option"
  latest_blockhash :: "string + string"

definition expires_offset :: "'hash charge_lib \<Rightarrow> int \<Rightarrow> int \<Rightarrow> ustring" where
  "expires_offset L now duration =
     (case format_rfc3339 L (now + duration) of Inr text \<Rightarrow> text | Inl _ \<Rightarrow> ascii ''1970-01-01T00:00:00Z'')"

definition expires_minutes :: "'hash charge_lib \<Rightarrow> int \<Rightarrow> nat \<Rightarrow> ustring" where
  "expires_minutes L now n = expires_offset L now (int n * 60 * 1000000000)"

definition from_typed :: "'hash charge_lib \<Rightarrow> charge_request \<Rightarrow> charge_error + ustring" where
  "from_typed L request =
     (case request_to_jcs L request of
        Inl e \<Rightarrow> Inl (OtherError (''Canonical JSON failed: '' @ e))
      | Inr bs \<Rightarrow> Inr (url_safe_no_pad_encode (lib_codec L) bs))"

definition from_json_value :: "'hash charge_lib \<Rightarrow> json \<Rightarrow> charge_error + ustring" where
  "from_json_value L v =
     (case value_to_jcs L v of
        Inl e \<Rightarrow> Inl (OtherError (''Canonical JSON failed: '' @ e))
      | Inr bs \<Rightarrow> Inr (url_safe_no_pad_encode (lib_codec L) bs))"

definition route_opaque :: "'hash charge_lib \<Rightarrow> ustring \<Rightarrow> charge_error + ustring" where
  "route_opaque L route = from_json_value L (JObject [(''route'', JString (utf8_text route))])"

definition check_push_replay_window :: "'hash charge_lib \<Rightarrow> mpp \<Rightarrow> issue_env \<Rightarrow> ustring \<Rightarrow> charge_error + unit" where
  "check_push_replay_window L M I expires =
     (if \<not> mpp_accept_push_mode M then Inr ()
      else map_err (\<lambda>e. InvalidConfig (ve_message e)) (within_replay_retention L (retention_clock I) (Some expires)))"

text \<open>\<open>serde_json::Map::insert\<close>: the members stay in key order.\<close>

fun text_less :: "string \<Rightarrow> string \<Rightarrow> bool" where
  "text_less _ [] = False"
| "text_less [] (_ # _) = True"
| "text_less (a # s) (b # t) = (of_char a < (of_char b :: nat) \<or> a = b \<and> text_less s t)"

fun map_insert :: "string \<Rightarrow> json \<Rightarrow> (string \<times> json) list \<Rightarrow> (string \<times> json) list" where
  "map_insert k v [] = [(k, v)]"
| "map_insert k v ((k', v') # m) =
     (if k = k' then (k, v) # m
      else if text_less k k' then (k, v) # (k', v') # m
      else (k', v') # map_insert k v m)"

definition insert_opt :: "string \<Rightarrow> json option \<Rightarrow> (string \<times> json) list \<Rightarrow> (string \<times> json) list" where
  "insert_opt k v m = (case v of None \<Rightarrow> m | Some v \<Rightarrow> map_insert k v m)"

definition challenge_details :: "'hash charge_lib \<Rightarrow> mpp \<Rightarrow> charge_options \<Rightarrow> string option \<Rightarrow> (string \<times> json) list" where
  "challenge_details L M options blockhash =
     (let details = map_insert ''network'' (JString (mpp_network M)) [];
          details = (if currency_is_native_sol (mpp_currency M) then details
            else map_insert ''decimals'' (JNumber (uint (mpp_decimals M))) details);
          details = (if co_fee_payer options \<or> mpp_fee_payer M
            then insert_opt ''feePayerKey'' (map_option (\<lambda>s. JString (signer_pubkey s)) (mpp_fee_payer_signer M))
              (map_insert ''feePayer'' (JBool True) details)
            else details);
          details = insert_opt ''tokenProgram'' (map_option JString (mpp_token_program M)) details;
          details = (if co_splits options = [] then details
            else map_insert ''splits'' (splits_to_value L (co_splits options)) details);
          details = insert_opt ''recentBlockhash'' (map_option JString blockhash) details in
      insert_opt ''transactionVersions'' (map_option (versions_to_value L) (advertised (mpp_accepted_versions M))) details)"

definition challenge_request :: "'hash charge_lib \<Rightarrow> mpp \<Rightarrow> charge_options \<Rightarrow> string \<Rightarrow> string option \<Rightarrow> charge_request" where
  "challenge_request L M options base_units blockhash =
     \<lparr>cr_amount = base_units, cr_currency = mpp_currency M, cr_decimals = None, cr_recipient = Some (mpp_recipient M),
      cr_description = map_option utf8_text (co_description options),
      cr_external_id = map_option utf8_text (co_external_id options),
      cr_method_details = Some (JObject (challenge_details L M options blockhash))\<rparr>"

definition issue_blockhash :: "issue_env \<Rightarrow> string option \<Rightarrow> string option" where
  "issue_blockhash I context =
     (case (case context of Some b \<Rightarrow> Some b | None \<Rightarrow> cached_blockhash I) of
        Some cached \<Rightarrow> Some cached
      | None \<Rightarrow> (case latest_blockhash I of Inr h \<Rightarrow> Some h | Inl _ \<Rightarrow> None))"

fun check_ata_splits :: "mpp \<Rightarrow> nat \<Rightarrow> charge_split list \<Rightarrow> charge_error + unit" where
  "check_ata_splits M idx [] = Inr ()"
| "check_ata_splits M idx (s # splits) =
     (if sp_ata_creation_required s = Some True \<and> sp_recipient s = mpp_recipient M
      then Inl (InvalidConfig (''splits['' @ show_nat idx
             @ '']: ataCreationRequired must not be true for the top-level recipient''))
      else check_ata_splits M (Suc idx) splits)"

definition validate_charge_options :: "'hash charge_lib \<Rightarrow> mpp \<Rightarrow> charge_options \<Rightarrow> charge_error + unit" where
  "validate_charge_options L M options =
     (if co_fee_payer options \<and> mpp_fee_payer_signer M = None
      then Inl (InvalidConfig ''ChargeOptions.fee_payer is true but this server has no fee_payer_signer configured'')
      else
      try_bind (validate_splits (lib_keys L) (co_splits options)) (\<lambda>_.
      try_bind (check_ata_splits M 0 (co_splits options)) (\<lambda>_.
      if \<not> list_ex (\<lambda>s. sp_ata_creation_required s = Some True) (co_splits options) then Inr ()
      else if currency_is_native_sol (mpp_currency M)
      then Inl (InvalidConfig ''ataCreationRequired requires an SPL token currency'')
      else
      try_bind (try_resolve_stablecoin_mint (mpp_currency M) (Some (mpp_network M))) (\<lambda>resolved.
      if resolved \<noteq> Some (mpp_currency M)
      then Inl (InvalidConfig ''ataCreationRequired requires currency to be an SPL token mint address'')
      else
      try_bind (map_err (\<lambda>e. InvalidConfig (''ataCreationRequired requires a valid SPL token mint address: '' @ e))
          (key_from_str (lib_keys L) (mpp_currency M))) (\<lambda>_. Inr ())))))"

definition charge_with_context :: "'hash charge_lib \<Rightarrow> mpp \<Rightarrow> issue_env \<Rightarrow> string \<Rightarrow> charge_options \<Rightarrow> string option
    \<Rightarrow> charge_error + payment_challenge" where
  "charge_with_context L M I amount options context =
     try_bind (validate_charge_options L M options) (\<lambda>_.
     try_bind (map_err mpp_of_core (parse_units amount (ucast (mpp_decimals M)))) (\<lambda>base_units.
     let request = challenge_request L M options base_units (issue_blockhash I context) in
     try_bind (from_typed L request) (\<lambda>encoded.
     let expires = unwrap_or (co_expires options) (expires_minutes L (issue_clock I) 5) in
     try_bind (check_push_replay_window L M I expires) (\<lambda>_.
     try_bind (case co_route options of None \<Rightarrow> Inr None | Some route \<Rightarrow> map_sum id Some (route_opaque L route)) (\<lambda>opaque.
       Inr (with_challenge_binding_secret_full (lib_mac L) (mpp_secret M) (mpp_realm M) (ascii METHOD_NAME)
         (ascii ''charge'') encoded (Some expires) None (co_description options) opaque))))))"

definition charge_with_options :: "'hash charge_lib \<Rightarrow> mpp \<Rightarrow> issue_env \<Rightarrow> string \<Rightarrow> charge_options
    \<Rightarrow> charge_error + payment_challenge" where
  "charge_with_options L M I amount options = charge_with_context L M I amount options None"

definition charge_variants_with_options :: "'hash charge_lib \<Rightarrow> mpp \<Rightarrow> issue_env \<Rightarrow> string \<Rightarrow> charge_options
    \<Rightarrow> charge_error + payment_challenge list" where
  "charge_variants_with_options L M I amount options =
     try_bind (charge_with_options L M I amount options) (\<lambda>challenge. Inr [challenge])"

definition mpp_charge :: "'hash charge_lib \<Rightarrow> mpp \<Rightarrow> issue_env \<Rightarrow> string \<Rightarrow> charge_error + payment_challenge" where
  "mpp_charge L M I amount = charge_with_options L M I amount default_charge_options"

section \<open>Verifying against a price\<close>

definition verify_payment_bound :: "'hash charge_lib \<Rightarrow> mpp \<Rightarrow> issue_env \<Rightarrow> charge_env \<Rightarrow> ustring \<Rightarrow> string
    \<Rightarrow> string option \<Rightarrow> (verification_error + receipt) prog" where
  "verify_payment_bound L M I E credential_str amount route =
     bind_try (Done (map_err (\<lambda>e. ve_new (''Failed to parse Authorization: '' @ show_mpp_error e))
         (parse_authorization (lib_codec L) credential_str))) (\<lambda>credential.
     bind_try (Done (map_err (\<lambda>e. ve_new (''Failed to build route challenge: '' @ show_charge_error e))
         (mpp_charge L M I amount))) (\<lambda>challenge.
     bind_try (Done (map_err (\<lambda>e. ve_new (''Failed to decode expected request: '' @ e))
         (decode_request L (pc_request challenge)))) (\<lambda>expected.
       verify_bound L M E credential expected route)))"

definition verify_payment_for_amount :: "'hash charge_lib \<Rightarrow> mpp \<Rightarrow> issue_env \<Rightarrow> charge_env \<Rightarrow> ustring \<Rightarrow> string
    \<Rightarrow> (verification_error + receipt) prog" where
  "verify_payment_for_amount L M I E credential_str amount = verify_payment_bound L M I E credential_str amount None"

definition verify_payment_for_route :: "'hash charge_lib \<Rightarrow> mpp \<Rightarrow> issue_env \<Rightarrow> charge_env \<Rightarrow> ustring \<Rightarrow> string
    \<Rightarrow> string \<Rightarrow> (verification_error + receipt) prog" where
  "verify_payment_for_route L M I E credential_str amount route =
     verify_payment_bound L M I E credential_str amount (Some route)"

section \<open>Challenges from a caller's request\<close>

definition validate_confidential_charge :: "string \<Rightarrow> method_details \<Rightarrow> charge_error + unit" where
  "validate_confidential_charge currency md =
     (if \<not> unwrap_or (md_confidential md) False then Inr ()
      else if eq_ignore_ascii currency ''sol''
      then Inl (InvalidConfig ''confidential transfers require an SPL Token-2022 mint, not native SOL'')
      else if md_token_program md \<noteq> None \<and> md_token_program md \<noteq> Some TOKEN_2022_PROGRAM
      then Inl (InvalidConfig ''confidential transfers require the Token-2022 program'')
      else if md_auditor_elgamal_pubkey md = Some []
      then Inl (InvalidConfig ''auditorElgamalPubkey, when present, must not be empty'')
      else if md_splits md \<noteq> None \<and> md_splits md \<noteq> Some []
      then Inl (InvalidConfig ''confidential transfers cannot be combined with splits'')
      else if md_fee_payer md \<noteq> Some True \<or> md_fee_payer_key md \<in> {None, Some []}
      then Inl (InvalidConfig ''confidential charges are gateway-sponsored: feePayer must be true and feePayerKey set'')
      else Inr ())"

definition confidential_sponsor :: "mpp \<Rightarrow> method_details \<Rightarrow> string + pubkey" where
  "confidential_sponsor M md =
     try_bind (ok_or (mpp_fee_payer_signer M)
         ''confidential charges require a fee_payer_signer (the gateway pays bundle fees)'') (\<lambda>signer.
     let sponsor = signer_pubkey signer in
     if md_fee_payer md \<noteq> Some True \<or> md_fee_payer_key md \<noteq> Some sponsor
     then Inl (''confidential charges must be sponsored by this gateway: feePayer=true and feePayerKey='' @ sponsor)
     else Inr sponsor)"

text \<open>The \<open>Debug\<close> text of an optional program id.\<close>

definition debug_option :: "string option \<Rightarrow> string" where
  "debug_option p = (case p of None \<Rightarrow> ''None'' | Some p \<Rightarrow> ''Some('' @ [CHR 0x22] @ p @ [CHR 0x22] @ '')'')"

definition parse_amount :: "charge_request \<Rightarrow> charge_error + u64" where
  "parse_amount request = ok_or (parse_u64 (cr_amount request)) (OtherError (''Invalid amount: '' @ cr_amount request))"

definition validate_request_details :: "'hash charge_lib \<Rightarrow> mpp \<Rightarrow> charge_request \<Rightarrow> method_details \<Rightarrow> charge_error + unit" where
  "validate_request_details L M request md =
     try_bind (validate_channel_policy md) (\<lambda>_.
     if md_network md \<noteq> None \<and> md_network md \<noteq> Some (mpp_network M)
     then Inl (InvalidConfig (''methodDetails.network `'' @ the (md_network md)
            @ ''` does not match server-configured network `'' @ mpp_network M @ ''`''))
     else if md_decimals md \<noteq> None \<and> ucast (the (md_decimals md)) \<noteq> mpp_decimals M
     then Inl (InvalidConfig (''methodDetails.decimals '' @ show_nat (unat (the (md_decimals md)))
            @ '' does not match server-configured decimals '' @ show_nat (unat (mpp_decimals M))))
     else if md_token_program md \<noteq> None \<and> md_token_program md \<noteq> mpp_token_program M
     then Inl (InvalidConfig (''methodDetails.tokenProgram `'' @ the (md_token_program md)
            @ ''` does not match server-resolved token program '' @ debug_option (mpp_token_program M)))
     else
     try_bind (case md_splits md of None \<Rightarrow> Inr () | Some splits \<Rightarrow> validate_splits (lib_keys L) splits) (\<lambda>_.
     try_bind (validate_confidential_charge (cr_currency request) md) (\<lambda>_.
     if md_confidential md = Some True
     then try_bind (map_err InvalidConfig (confidential_sponsor M md)) (\<lambda>_. Inr ())
     else Inr ())))"

definition validate_charge_request :: "'hash charge_lib \<Rightarrow> mpp \<Rightarrow> charge_request \<Rightarrow> charge_error + unit" where
  "validate_charge_request L M request =
     try_bind (parse_amount request) (\<lambda>_.
     if cr_currency request \<noteq> mpp_currency M
     then Inl (InvalidConfig (''ChargeRequest.currency `'' @ cr_currency request
            @ ''` does not match server wire currency `'' @ mpp_currency M @ ''` (use '' @ [CHR 0x22] @ ''sol''
            @ [CHR 0x22] @ '' or the mint address)''))
     else
     try_bind (ok_or (cr_recipient request) (InvalidConfig ''ChargeRequest.recipient is required'')) (\<lambda>recipient.
     try_bind (map_err (\<lambda>e. InvalidConfig (''Invalid recipient pubkey: '' @ e)) (key_from_str (lib_keys L) recipient)) (\<lambda>_.
     case cr_method_details request of
       None \<Rightarrow> Inr ()
     | Some md_value \<Rightarrow>
         try_bind (map_err (\<lambda>e. InvalidConfig (''Invalid methodDetails: '' @ e)) (details_from_value L md_value))
           (validate_request_details L M request))))"

definition charge_challenge_with_options :: "'hash charge_lib \<Rightarrow> mpp \<Rightarrow> issue_env \<Rightarrow> charge_request \<Rightarrow> ustring option
    \<Rightarrow> ustring option \<Rightarrow> charge_error + payment_challenge" where
  "charge_challenge_with_options L M I request expires description =
     (let request = with_wire_currency (lib_keys L) (mpp_network M) request in
      try_bind (validate_charge_request L M request) (\<lambda>_.
      try_bind (from_typed L request) (\<lambda>encoded.
      let expires = unwrap_or expires (expires_minutes L (issue_clock I) 5) in
      try_bind (check_push_replay_window L M I expires) (\<lambda>_.
        Inr (with_challenge_binding_secret_full (lib_mac L) (mpp_secret M) (mpp_realm M) (ascii METHOD_NAME)
          (ascii ''charge'') encoded (Some expires) None description None)))))"

definition charge_challenge :: "'hash charge_lib \<Rightarrow> mpp \<Rightarrow> issue_env \<Rightarrow> charge_request \<Rightarrow> charge_error + payment_challenge" where
  "charge_challenge L M I request = charge_challenge_with_options L M I request None None"

section \<open>Lemmas\<close>

lemma map_of_map_insert [simp]: "map_of (map_insert k v m) = (map_of m)(k \<mapsto> v)"
  by (induction m rule: map_insert.induct) (auto simp: fun_eq_iff)

lemma map_of_insert_opt: "map_of (insert_opt k v m) k' = (if k' = k \<and> v \<noteq> None then v else map_of m k')"
  by (simp add: insert_opt_def split: option.split)

lemma challenge_details_network [simp]:
  "map_of (challenge_details L M options blockhash) ''network'' = Some (JString (mpp_network M))"
  by (simp add: challenge_details_def Let_def map_of_insert_opt)

text \<open>The text of a key is the base58 form of 32 bytes.\<close>

definition keys_long :: "keylib \<Rightarrow> bool" where
  "keys_long K \<longleftrightarrow> (\<forall>s k. key_from_str K s = Inr k \<longrightarrow> 32 \<le> length s)"

lemma double_if: "n \<le> 2 * length x \<Longrightarrow> n \<le> 2 * length y \<Longrightarrow> n \<le> 2 * length (if P then x else y)"
  by simp

lemma to_uppercase_length: "length s \<le> 2 * length (to_uppercase s)"
proof (induction s rule: length_induct)
  case (1 s)
  then have IH: "length t \<le> 2 * length (to_uppercase t)" if "length t < length s" for t using that by blast
  consider "s = []" | a where "s = [a]" | a b where "s = [a, b]" | a b c t where "s = a # b # c # t"
    by (cases s rule: to_uppercase.cases) auto
  then show ?case
  proof cases
    case (4 a b c t)
    show ?thesis unfolding 4 to_uppercase.simps(1)
      by (intro double_if)
        (use IH [of t] IH [of "c # t"] IH [of "b # c # t"] 4 in \<open>simp_all del: to_uppercase.simps\<close>)
  qed (simp_all)
qed

lemma resolve_long:
  assumes "32 \<le> length s"
  shows "resolve_stablecoin_mint s network = Some s" "\<not> eq_ignore_ascii s t \<or> length t = length s"
proof -
  have "16 \<le> length (to_uppercase s)" using to_uppercase_length [of s] assms by simp
  then have "to_uppercase s \<noteq> t" if "length t < 16" for t using that by auto
  then show "resolve_stablecoin_mint s network = Some s" by (simp add: resolve_stablecoin_mint_def)
  show "\<not> eq_ignore_ascii s t \<or> length t = length s"
    by (auto simp: eq_ignore_ascii_def dest: arg_cong [where f = length])
qed

lemma resolve_usdtest:
  assumes "resolve_stablecoin_mint c network = Some USDTEST_DEVNET" "c \<noteq> USDTEST_DEVNET"
  shows "network = Some NETWORK_DEVNET"
proof -
  have "USDTEST_DEVNET \<notin> {by_network network USDC_DEVNET USDC_TESTNET USDC_MAINNET, USDT_MAINNET,
      by_network network USDG_DEVNET USDG_TESTNET USDG_MAINNET,
      by_network network PYUSD_DEVNET PYUSD_TESTNET PYUSD_MAINNET, CASH_MAINNET, USDPT_MAINNET}"
    by (simp add: by_network_def USDC_MAINNET_def USDC_DEVNET_def USDC_TESTNET_def USDTEST_DEVNET_def USDT_MAINNET_def
        USDG_MAINNET_def USDG_DEVNET_def USDG_TESTNET_def PYUSD_MAINNET_def PYUSD_DEVNET_def PYUSD_TESTNET_def
        CASH_MAINNET_def USDPT_MAINNET_def)
  with assms show ?thesis
    by (auto simp: resolve_stablecoin_mint_def Let_def split: if_splits)
qed

text \<open>A wire currency stands for itself.\<close>

lemma wire_currency_fixed:
  assumes "keys_long K" "wire_currency K currency network = Inr w"
  shows "wire_currency K w network = Inr w"
proof (cases "currency_is_native_sol currency")
  case True
  have "currency_is_native_sol ''sol''" by code_simp
  with True assms(2) show ?thesis by (simp add: wire_currency_def NATIVE_SOL_CURRENCY_def)
next
  case False
  with assms(2) obtain resolved k where r: "try_resolve_stablecoin_mint currency (Some network) = Inr resolved"
      "w = unwrap_or resolved currency" "key_from_str K w = Inr k"
    by (auto simp: wire_currency_def try_bind_Inr_iff Let_def)
  then have long: "32 \<le> length w" using assms(1) by (simp add: keys_long_def)
  have "\<not> currency_is_native_sol w" "\<not> eq_ignore_ascii w ''USDtest''"
    using resolve_long(2) [OF long] long by (fastforce simp: currency_is_native_sol_def)+
  moreover have "w = USDTEST_DEVNET \<longrightarrow> network = NETWORK_DEVNET"
  proof
    assume w: "w = USDTEST_DEVNET"
    have res: "resolve_stablecoin_mint currency (Some network) = resolved"
      using r(1) by (simp add: try_resolve_stablecoin_mint_def split: if_splits)
    show "network = NETWORK_DEVNET"
    proof (cases "currency = USDTEST_DEVNET")
      case True
      with r(1) show ?thesis by (simp add: try_resolve_stablecoin_mint_def split: if_splits)
    next
      case False
      with w r(2) have "resolved = Some USDTEST_DEVNET" by (cases resolved) (simp_all add: unwrap_or_def)
      with resolve_usdtest [of currency "Some network"] False res show ?thesis by simp
    qed
  qed
  ultimately show ?thesis
    using resolve_long(1) [OF long] r(3)
    by (auto simp: wire_currency_def try_resolve_stablecoin_mint_def try_bind_Inr_iff Let_def)
qed

lemma result_guards:
  "(if b then Inl e else x) = Inr y \<longleftrightarrow> \<not> b \<and> x = Inr y"
  "(case opt of None \<Rightarrow> Inl e | Some a \<Rightarrow> f a) = Inr y \<longleftrightarrow> (\<exists>a. opt = Some a \<and> f a = Inr y)"
  by (auto split: option.split)

lemma mpp_new_currency:
  assumes "mpp_new K R config = Inr M"
  shows "wire_currency K (cf_currency config) (mpp_network M) = Inr (mpp_currency M)"
  using assms unfolding mpp_new_def result_guards try_bind_Inr_iff by (elim exE conjE) auto

section \<open>What the server reads back of its own challenge\<close>

text \<open>The method details of an issued request, as a value of \<open>MethodDetails\<close>.\<close>

definition issued_details :: "mpp \<Rightarrow> charge_options \<Rightarrow> string option \<Rightarrow> method_details" where
  "issued_details M options blockhash =
     (let sponsored = co_fee_payer options \<or> mpp_fee_payer M in
      default_method_details\<lparr>md_network := Some (mpp_network M),
        md_decimals := (if currency_is_native_sol (mpp_currency M) then None else Some (ucast (mpp_decimals M))),
        md_token_program := mpp_token_program M,
        md_fee_payer := (if sponsored then Some True else None),
        md_fee_payer_key := (if sponsored then map_option signer_pubkey (mpp_fee_payer_signer M) else None),
        md_transaction_versions := advertised (mpp_accepted_versions M),
        md_splits := (if co_splits options = [] then None else Some (co_splits options)),
        md_recent_blockhash := blockhash\<rparr>)"

text \<open>
  Documented behaviour of serde and base64: a request is read back from its canonical JSON, and the
  members of its details as the fields they were written from.
\<close>

definition request_lossless :: "'hash charge_lib \<Rightarrow> charge_request \<Rightarrow> bool" where
  "request_lossless L request \<longleftrightarrow>
     (\<exists>bs. request_to_jcs L request = Inr bs \<and> base64url_lossless (lib_codec L) bs \<and> request_from_slice L bs = Inr request)"

definition details_lossless :: "'hash charge_lib \<Rightarrow> mpp \<Rightarrow> charge_options \<Rightarrow> string option \<Rightarrow> bool" where
  "details_lossless L M options blockhash \<longleftrightarrow>
     details_from_value L (JObject (challenge_details L M options blockhash)) = Inr (issued_details M options blockhash)"

definition value_lossless :: "'hash charge_lib \<Rightarrow> json \<Rightarrow> bool" where
  "value_lossless L v \<longleftrightarrow>
     (\<exists>bs. value_to_jcs L v = Inr bs \<and> base64url_lossless (lib_codec L) bs \<and> value_from_slice L bs = Inr v)"

lemma base64url_lossless_decode:
  "base64url_lossless C bs \<Longrightarrow> base64url_decode C (url_safe_no_pad_encode C bs) = Inr bs"
  by (simp add: base64url_lossless_def base64url_decode_plain)

lemma decode_from_typed: "request_lossless L request \<Longrightarrow> from_typed L request = Inr raw \<Longrightarrow> decode_request L raw = Inr request"
  by (auto simp: request_lossless_def from_typed_def decode_request_def base64url_lossless_decode)

lemma decode_route_opaque:
  assumes "value_lossless L (JObject [(''route'', JString (utf8_text route))])" "route_opaque L route = Inr raw"
    "pc_opaque challenge = Some raw"
  shows "challenge_route L challenge = Some (utf8_text route)"
  using assms by (auto simp: value_lossless_def route_opaque_def from_json_value_def challenge_route_def decode_value_def
      base64url_lossless_decode)

lemma issued_challenge:
  assumes "charge_with_options L M I amount options = Inr challenge"
  shows "\<exists>units encoded opaque. parse_units amount (ucast (mpp_decimals M)) = Inr units
    \<and> from_typed L (challenge_request L M options units (issue_blockhash I None)) = Inr encoded
    \<and> (case co_route options of None \<Rightarrow> opaque = None | Some route \<Rightarrow> \<exists>raw. route_opaque L route = Inr raw \<and> opaque = Some raw)
    \<and> challenge = with_challenge_binding_secret_full (lib_mac L) (mpp_secret M) (mpp_realm M) (ascii METHOD_NAME)
         (ascii ''charge'') encoded (Some (unwrap_or (co_expires options) (expires_minutes L (issue_clock I) 5))) None
         (co_description options) opaque"
  using assms unfolding charge_with_options_def charge_with_context_def Let_def try_bind_Inr_iff
  by (auto simp: map_sum_def split: option.splits sum.splits)

lemma issued_names:
  "method_name (ascii METHOD_NAME) = ascii ''solana''" "utf8_text (ascii ''solana'') = ''solana''"
  "intent_name (ascii ''charge'') = ascii ''charge''" "is_charge (ascii ''charge'')"
  by code_simp+

lemma splits_eq_refl [simp]: "splits_eq a a"
  by (auto simp: splits_eq_def list_all_iff set_zip Let_def)

lemma issued_compares:
  assumes "details_lossless L M options b" "details_lossless L M options' b'"
    and "options' = options\<lparr>co_expires := x, co_route := y\<rparr>"
  shows "compare_expected_to_request L (challenge_request L M options units b) (challenge_request L M options' units b') = Inr ()"
  using assms(1,2)
  by (simp add: compare_expected_to_request_def challenge_request_def parse_method_details_for_compare_def
      details_lossless_def assms(3) compare_details_def issued_details_def same_channel_policy_def Let_def
      default_method_details_def)

lemma issued_terms:
  assumes made: "mpp_new (lib_keys L) R config = Inr M0" "M = M0\<lparr>mpp_accepted_versions := versions\<rparr>" "keys_long (lib_keys L)"
    and issued: "charge_with_options L M I amount options = Inr challenge" "parse_units amount (ucast (mpp_decimals M)) = Inr units"
    and same: "options' = options\<lparr>co_expires := x, co_route := y\<rparr>"
    and lossless: "request_lossless L (challenge_request L M options units (issue_blockhash I None))"
      "details_lossless L M options (issue_blockhash I None)" "details_lossless L M options' b"
      "\<forall>route. co_route options = Some route \<longrightarrow> value_lossless L (JObject [(''route'', JString (utf8_text route))])"
    and credential: "cd_challenge credential = challenge" "payload_from_value L (cd_payload credential) = Inr payload"
      "payload_to_vec L payload = Inr vec"
  shows "\<exists>digest. admitted L M credential (challenge_request L M options' units b) (map_option utf8_text (co_route options))
    payload (issued_details M options' b) digest"
proof -
  let ?expected = "challenge_request L M options' units b"
  from issued_challenge [OF issued(1)] issued(2) obtain encoded opaque where
    enc: "from_typed L (challenge_request L M options units (issue_blockhash I None)) = Inr encoded"
    and opaque: "case co_route options of None \<Rightarrow> opaque = None | Some route \<Rightarrow> \<exists>raw. route_opaque L route = Inr raw \<and> opaque = Some raw"
    and ch: "challenge = with_challenge_binding_secret_full (lib_mac L) (mpp_secret M) (mpp_realm M) (ascii METHOD_NAME)
         (ascii ''charge'') encoded (Some (unwrap_or (co_expires options) (expires_minutes L (issue_clock I) 5))) None
         (co_description options) opaque" by auto
  have fields: "pc_opaque challenge = opaque" "pc_request challenge = encoded" "pc_method challenge = ascii ''solana''"
      "pc_intent challenge = ascii ''charge''" "pc_realm challenge = mpp_realm M"
    by (simp_all add: ch with_challenge_binding_secret_full_def issued_names)
  have auth: "authentic L M challenge"
    by (simp add: ch authentic_def with_challenge_binding_secret_full_def)
  have route: "challenge_route L challenge = map_option utf8_text (co_route options)"
    using opaque lossless(4) decode_route_opaque [of L _ _ challenge] fields(1)
    by (cases "co_route options") (auto simp: challenge_route_def)
  have "wire_currency (lib_keys L) (mpp_currency M) (mpp_network M) = Inr (mpp_currency M)"
    using wire_currency_fixed [OF made(3) mpp_new_currency [OF made(1)]] made(2) by simp
  then have wired: "with_wire_currency (lib_keys L) (mpp_network M) ?expected = ?expected"
    by (simp add: with_wire_currency_def challenge_request_def)
  have pinned: "verify_pinned_fields M credential ?expected = Inr ()"
    by (simp add: verify_pinned_fields_def credential(1) fields issued_names METHOD_NAME_def Let_def request_network_def
        challenge_request_def)
  have details: "cr_method_details ?expected = Some (JObject (challenge_details L M options' b))"
      "details_from_value L (JObject (challenge_details L M options' b)) = Inr (issued_details M options' b)"
      "md_confidential (issued_details M options' b) = None"
    using lossless(3) by (simp_all add: details_lossless_def challenge_request_def issued_details_def Let_def
        default_method_details_def)
  obtain digest where "normalized_request_digest L (pc_id challenge) (pc_request challenge) payload = Inr digest"
    using credential(3) by (simp add: normalized_request_digest_def)
  then have "accept_terms L M credential ?expected = Inr (payload, issued_details M options' b, digest)"
    using decode_from_typed [OF lossless(1) enc] issued_compares [OF lossless(2,3) same, of units] pinned credential(2)
    by (simp add: accept_terms_def Let_def details credential(1) fields(2))
  with auth route wired credential(1) show ?thesis
    by (intro exI) (auto simp: admitted_def issued_details_def Let_def default_method_details_def)
qed

text \<open>Whatever the store holds, a credential whose terms are not accepted gets no receipt.\<close>

lemma verify_bound_refused:
  assumes "\<exists>e. accept_terms L M credential (with_wire_currency (lib_keys L) (mpp_network M) request) = Inl e"
  shows "\<exists>e. fst (run S (verify_bound L M E credential request route) s) = Inl e"
  using assms
  by (auto simp: verify_bound_def Let_def run_bind_try bind_try_Done split: sum.splits prod.splits)

lemma accept_terms_mismatch:
  assumes "decode_request L (pc_request (cd_challenge credential)) = Inr issued"
    and "cr_amount issued \<noteq> cr_amount request \<or> cr_recipient issued \<noteq> Some (mpp_recipient M)
      \<or> request_network request \<noteq> Inr (mpp_network M)"
  shows "\<exists>e. accept_terms L M credential request = Inl e"
proof (rule ccontr)
  assume "\<nexists>e. accept_terms L M credential request = Inl e"
  then obtain payload details digest where ok: "accept_terms L M credential request = Inr (payload, details, digest)"
    by (cases "accept_terms L M credential request") auto
  note facts = accept_terms_facts [OF ok]
  have "cr_amount issued = cr_amount request" "cr_recipient issued = cr_recipient request"
    using facts(1) assms(1) by (auto simp: compare_expected_to_request_def split: if_split_asm)
  moreover have "cr_recipient request = Some (mpp_recipient M)" "request_network request = Inr (mpp_network M)"
    using facts(2) by (auto simp: verify_pinned_fields_def Let_def try_bind_Inr_iff split: if_split_asm)
  ultimately show False using assms(2) by simp
qed

section \<open>Properties\<close>

text \<open>
  C5.  The server recognises the challenges it issues.  A server made from a configuration issues a challenge
  for an amount, with any options; the credential echoes it with a readable payload, and the server
  rebuilds the request it expects from the same amount and the same options but for expiry and route, perhaps
  with another blockhash.  Then, on the route the challenge was made for and on no other, the credential passes the checks
  of \<open>verify_bound\<close> that are made on the credential and the request alone: the authenticity and the
  route of the challenge, the comparison of its request with the one expected, the pinned fields, the
  payload's form and the channel policy.  The expiry of the challenge and the payment itself are not part of
  this.
\<close>

theorem issued_challenge_admitted:
  assumes "mpp_new (lib_keys L) R config = Inr M0" "M = M0\<lparr>mpp_accepted_versions := versions\<rparr>" "keys_long (lib_keys L)"
    and "charge_with_options L M I amount options = Inr challenge" "charge_with_options L M I' amount options' = Inr challenge'"
    and "options' = options\<lparr>co_expires := x, co_route := y\<rparr>"
    and "\<forall>units. parse_units amount (ucast (mpp_decimals M)) = Inr units
      \<longrightarrow> request_lossless L (challenge_request L M options units (issue_blockhash I None))
        \<and> request_lossless L (challenge_request L M options' units (issue_blockhash I' None))"
    and "details_lossless L M options (issue_blockhash I None)" "details_lossless L M options' (issue_blockhash I' None)"
    and "\<forall>route. co_route options = Some route \<longrightarrow> value_lossless L (JObject [(''route'', JString (utf8_text route))])"
    and "cd_challenge credential = challenge" "payload_from_value L (cd_payload credential) = Inr payload"
      "payload_to_vec L payload = Inr vec"
  shows "\<exists>expected details digest. decode_request L (pc_request challenge') = Inr expected
    \<and> (\<forall>route. admitted L M credential expected route payload details digest
         \<longleftrightarrow> route = map_option utf8_text (co_route options))"
proof -
  from issued_challenge [OF assms(5)] obtain units encoded opaque where
    units: "parse_units amount (ucast (mpp_decimals M)) = Inr units"
    and enc: "from_typed L (challenge_request L M options' units (issue_blockhash I' None)) = Inr encoded"
    and ch: "pc_request challenge' = encoded"
    by (auto simp: with_challenge_binding_secret_full_def)
  have "decode_request L (pc_request challenge') = Inr (challenge_request L M options' units (issue_blockhash I' None))"
    using decode_from_typed [OF _ enc] assms(7) units ch by blast
  moreover from assms(7) units have "request_lossless L (challenge_request L M options units (issue_blockhash I None))" by blast
  note issued_terms [OF assms(1-4) units assms(6) this assms(8-13)]
  then obtain digest where adm: "admitted L M credential (challenge_request L M options' units (issue_blockhash I' None))
      (map_option utf8_text (co_route options)) payload (issued_details M options' (issue_blockhash I' None)) digest" by blast
  then have "admitted L M credential (challenge_request L M options' units (issue_blockhash I' None)) route payload
      (issued_details M options' (issue_blockhash I' None)) digest \<longleftrightarrow> route = map_option utf8_text (co_route options)" for route
    by (auto simp: admitted_def)
  ultimately show ?thesis by blast
qed

text \<open>
  C6.  A payment opens only the route it was priced for.  A credential that echoes a challenge the
  server issued for one amount is refused wherever the price comes to another number of base
  units, whatever the store holds and whatever the node answers, and wherever the route it is presented on
  is not the one the challenge was made for.
\<close>

theorem price_enforced:
  assumes "charge_with_options L M I amount options = Inr challenge"
    and "parse_units amount (ucast (mpp_decimals M)) = Inr units" "parse_units amount' (ucast (mpp_decimals M)) = Inr units'"
    and "request_lossless L (challenge_request L M options units (issue_blockhash I None))
      \<and> request_lossless L (challenge_request L M default_charge_options units' (issue_blockhash I' None))"
    and "\<forall>route. co_route options = Some route \<longrightarrow> value_lossless L (JObject [(''route'', JString (utf8_text route))])"
    and "parse_authorization (lib_codec L) header = Inr credential" "cd_challenge credential = challenge"
    and "units \<noteq> units' \<or> route \<noteq> map_option utf8_text (co_route options)"
  shows "\<exists>e. fst (run S (verify_payment_bound L M I' E header amount' route) s) = Inl e"
proof (cases "mpp_charge L M I' amount'")
  case (Inl e)
  then show ?thesis by (simp add: verify_payment_bound_def assms(6))
next
  case (Inr challenge')
  from issued_challenge [OF assms(1)] assms(2) obtain encoded opaque where
    enc: "from_typed L (challenge_request L M options units (issue_blockhash I None)) = Inr encoded" "pc_request challenge = encoded"
    and opaque: "case co_route options of None \<Rightarrow> opaque = None | Some r \<Rightarrow> \<exists>raw. route_opaque L r = Inr raw \<and> opaque = Some raw"
      "pc_opaque challenge = opaque"
    by (auto simp: with_challenge_binding_secret_full_def)
  have issued: "decode_request L (pc_request challenge) = Inr (challenge_request L M options units (issue_blockhash I None))"
    using decode_from_typed [OF _ enc(1)] assms(4) enc(2) by blast
  have routed: "challenge_route L challenge = map_option utf8_text (co_route options)"
    using opaque assms(5) decode_route_opaque [of L _ _ challenge] by (cases "co_route options") (auto simp: challenge_route_def)
  from issued_challenge [OF Inr [unfolded mpp_charge_def]] assms(3) obtain encoded' where
    "from_typed L (challenge_request L M default_charge_options units' (issue_blockhash I' None)) = Inr encoded'"
    "pc_request challenge' = encoded'" by (auto simp: with_challenge_binding_secret_full_def)
  then have "decode_request L (pc_request challenge')
      = Inr (challenge_request L M default_charge_options units' (issue_blockhash I' None))"
    using decode_from_typed assms(4) by blast
  then have run: "verify_payment_bound L M I' E header amount' route
      = verify_bound L M E credential (challenge_request L M default_charge_options units' (issue_blockhash I' None)) route"
    by (simp add: verify_payment_bound_def assms(6) Inr)
  show ?thesis
  proof (cases "units = units'")
    case True
    with assms(7,8) routed verify_bound_unauthentic [of L M credential route] show ?thesis
      unfolding run by (metis run.simps(1) fst_conv)
  next
    case False
    have "cr_amount (with_wire_currency K n r) = cr_amount r" for K n r
      by (simp add: with_wire_currency_def split: sum.split)
    with False have "\<exists>e. accept_terms L M credential (with_wire_currency (lib_keys L) (mpp_network M)
        (challenge_request L M default_charge_options units' (issue_blockhash I' None))) = Inl e"
      using issued assms(7) by (intro accept_terms_mismatch) (auto simp: challenge_request_def)
    then show ?thesis unfolding run by (rule verify_bound_refused)
  qed
qed

text \<open>
  C38.  Some challenges a server signs can never be paid.  \<open>charge_challenge_with_options\<close> checks that
  the recipient of the caller's request is a key, not that it is the server's own.
  It signs the challenge; but every credential
  that echoes it is refused, with any expected request, whatever the store holds.
\<close>

theorem unpayable_challenge_signed:
  assumes "charge_challenge_with_options L M I request expires description = Inr challenge"
    and "wired = with_wire_currency (lib_keys L) (mpp_network M) request" "request_lossless L wired"
    and "cr_recipient request \<noteq> Some (mpp_recipient M)"
    and "cd_challenge credential = challenge"
  shows "\<exists>e. fst (run S (verify_bound L M E credential expected route) s) = Inl e"
proof -
  from assms(1,2) obtain encoded where "from_typed L wired = Inr encoded" "pc_request challenge = encoded"
    by (auto simp: charge_challenge_with_options_def Let_def try_bind_Inr_iff with_challenge_binding_secret_full_def)
  then have "decode_request L (pc_request (cd_challenge credential)) = Inr wired"
    using decode_from_typed [OF assms(3)] assms(5) by blast
  moreover have "cr_recipient wired = cr_recipient request"
    by (simp add: assms(2) with_wire_currency_def split: sum.split)
  ultimately have "\<exists>e. accept_terms L M credential (with_wire_currency (lib_keys L) (mpp_network M) expected) = Inl e"
    using assms(4) by (intro accept_terms_mismatch) auto
  then show ?thesis by (rule verify_bound_refused)
qed

section \<open>A concrete server\<close>

definition long_keys :: keylib where
  "long_keys = \<lparr>key_from_str = \<lambda>s. if length s < 32 then Inl ''short'' else Inr s,
     find_program_address = \<lambda>seeds program. (concat seeds, 255)\<rparr>"

definition shop_config :: config where
  "shop_config = default_config\<lparr>cf_recipient := replicate 40 (CHR ''R''), cf_currency := ''SOL'', cf_decimals := 9,
     cf_challenge_binding_secret := Some (replicate 32 75), cf_realm := Some (ascii ''api''), cf_store := Some ()\<rparr>"

definition shop :: mpp where
  "shop = \<lparr>mpp_secret = replicate 32 75, mpp_realm = ascii ''api'', mpp_currency = ''sol'',
     mpp_recipient = replicate 40 (CHR ''R''), mpp_decimals = 9, mpp_network = ''mainnet'', mpp_token_program = None,
     mpp_accepted_versions = [V0], mpp_accept_push_mode = False, mpp_fee_payer = False, mpp_fee_payer_signer = None\<rparr>"

text \<open>Requests of this shop differ in their amount only, which stands for them on the wire.\<close>

definition shop_lib :: "unit charge_lib" where
  "shop_lib = sample_lib\<lparr>lib_keys := long_keys, request_to_jcs := \<lambda>r. Inr (map of_char (cr_amount r)),
     request_from_slice := \<lambda>bs. Inr (challenge_request sample_lib shop default_charge_options (map char_of bs) None),
     details_from_value := \<lambda>v. Inr (issued_details shop default_charge_options None),
     format_rfc3339 := \<lambda>t. Inr (ascii ''later''),
     lib_codec := \<lparr>url_safe_no_pad_encode = \<lambda>bs. bs, url_safe_no_pad_decode = Inr, json_from_slice = \<lambda>bs. Inr (),
       credential_to_jcs = \<lambda>c. Inl [], credential_from_slice = \<lambda>bs. Inr \<lparr>cd_challenge = \<lparr>pc_id = ascii ''id'', pc_realm = ascii ''api'',
         pc_method = ascii ''solana'', pc_intent = ascii ''charge'', pc_request = bs, pc_expires = Some (ascii ''later''),
         pc_description = None, pc_digest = None, pc_opaque = None\<rparr>, cd_source = None, cd_payload = JNull\<rparr>\<rparr>\<rparr>"

definition shop_env :: issue_env where
  "shop_env = \<lparr>issue_clock = 0, retention_clock = 0, cached_blockhash = None, latest_blockhash = Inl []\<rparr>"

definition shop_challenge :: "string \<Rightarrow> payment_challenge" where
  "shop_challenge units = \<lparr>pc_id = ascii ''id'', pc_realm = ascii ''api'', pc_method = ascii ''solana'',
     pc_intent = ascii ''charge'', pc_request = map of_char units, pc_expires = Some (ascii ''later''),
     pc_description = None, pc_digest = None, pc_opaque = None\<rparr>"

lemma shop_facts:
  "currency_is_native_sol ''SOL''" "currency_is_native_sol ''sol''" "length (utf8 (replicate 32 75)) = 32"
  "ascii ''api'' \<noteq> []"
  by code_simp+

lemma shop_prices: "parse_units ''0.5'' 9 = Inr ''500000000''" "parse_units ''0.7'' 9 = Inr ''700000000''"
  by (simp_all add: parse_units_def MAX_DECIMALS_def split_once_def is_ascii_digit_def trim_start_zeros_def Let_def)
    (simp_all add: eval_nat_numeral)

lemma shop_made: "mpp_new (lib_keys shop_lib) \<lparr>env_secret = None, env_mint_owner = \<lambda>k. Inl []\<rparr> shop_config = Inr shop"
  by (simp add: mpp_new_def shop_config_def default_config_def shop_lib_def long_keys_def validate_network_def
      NETWORK_MAINNET_def validate_challenge_binding_secret_def MIN_SECRET_KEY_BYTES_def shop_facts(3) wire_currency_def
      shop_facts(1) NATIVE_SOL_CURRENCY_def resolve_server_token_program_def shop_facts(2,4) shop_def)

lemma shop_details: "challenge_details shop_lib shop options None = challenge_details sample_lib shop options None"
    "issue_blockhash shop_env None = None"
  by (simp_all add: challenge_details_def Let_def shop_lib_def shop_env_def issue_blockhash_def sample_lib_def)

lemma shop_lossless:
  assumes "list_all (\<lambda>c. is_base64url (of_char c)) units" "units \<noteq> []"
  shows "request_lossless shop_lib (challenge_request shop_lib shop default_charge_options units None)"
    "details_lossless shop_lib shop default_charge_options None"
proof -
  have "map (\<lambda>c. char_of (of_char c :: nat)) units = units" by (simp add: map_idI)
  then show "request_lossless shop_lib (challenge_request shop_lib shop default_charge_options units None)"
    using assms by (simp add: request_lossless_def shop_details challenge_request_def)
      (simp add: shop_lib_def base64url_lossless_def list_all_iff comp_def challenge_request_def)
  show "details_lossless shop_lib shop default_charge_options None"
    by (simp add: details_lossless_def shop_lib_def)
qed

lemma shop_issues:
  assumes "parse_units amount 9 = Inr units"
  shows "charge_with_options shop_lib shop shop_env amount default_charge_options = Inr (shop_challenge units)"
  using assms
  by (simp add: charge_with_options_def charge_with_context_def validate_charge_options_def default_charge_options_def
      validate_splits_def checked_sum_split_amounts_def shop_def from_typed_def shop_lib_def challenge_request_def Let_def
      check_push_replay_window_def expires_minutes_def expires_offset_def shop_challenge_def
      with_challenge_binding_secret_full_def compute_challenge_id_def sample_lib_def issued_names)

definition shop_credential :: "string \<Rightarrow> payment_credential" where
  "shop_credential units = \<lparr>cd_challenge = shop_challenge units, cd_source = None, cd_payload = JNull\<rparr>"

lemma shop_texts: "list_all (\<lambda>c. is_base64url (of_char c)) ''500000000''" "list_all (\<lambda>c. is_base64url (of_char c)) ''700000000''"
  by (simp_all add: is_base64url_def)

theorem issued_challenge_admitted_witness:
  "\<exists>expected details digest. decode_request shop_lib (pc_request (shop_challenge ''500000000'')) = Inr expected
     \<and> admitted shop_lib shop (shop_credential ''500000000'') expected None (TransactionPayload ''tx'') details digest"
proof -
  have versions: "shop = shop\<lparr>mpp_accepted_versions := [V0]\<rparr>" by (simp add: shop_def)
  have keys: "keys_long (lib_keys shop_lib)" by (auto simp: keys_long_def shop_lib_def long_keys_def not_less split: if_splits)
  have opts: "default_charge_options = default_charge_options\<lparr>co_expires := None, co_route := None\<rparr>" "co_route default_charge_options = None"
    by (simp_all add: default_charge_options_def)
  have price: "parse_units ''0.5'' (ucast (mpp_decimals shop)) = Inr units \<longleftrightarrow> units = ''500000000''" for units
    using shop_prices(1) by (auto simp: shop_def)
  have credential: "cd_challenge (shop_credential ''500000000'') = shop_challenge ''500000000''"
      "payload_from_value shop_lib (cd_payload (shop_credential ''500000000'')) = Inr (TransactionPayload ''tx'')"
      "payload_to_vec shop_lib (TransactionPayload ''tx'') = Inr []"
    by (simp_all add: shop_credential_def shop_lib_def sample_lib_def)
  show ?thesis
    using issued_challenge_admitted [OF shop_made versions keys shop_issues [OF shop_prices(1)]
        shop_issues [OF shop_prices(1)] opts(1) _ _ _ _ credential]
      shop_lossless [OF shop_texts(1)] by (auto simp: price shop_details opts(2))
qed

theorem price_enforced_witness:
  "\<exists>header credential e. parse_authorization (lib_codec shop_lib) header = Inr credential
     \<and> cd_challenge credential = shop_challenge ''500000000''
     \<and> fst (run plain (verify_payment_bound shop_lib shop shop_env (sample_env True) header ''0.7'' None) Map.empty) = Inl e"
proof -
  let ?header = "ascii ''Payment 500000000''"
  have parsed: "\<exists>credential. parse_authorization (lib_codec shop_lib) ?header = Inr credential
      \<and> cd_challenge credential = shop_challenge ''500000000''"
    by (simp add: parse_authorization_def extract_payment_scheme_def ascii_def trim_def trim_start_def trim_end_by_def
        is_whitespace_def eq_ignore_ascii_case_def to_ascii_lowercase_def utf8_len_def MAX_TOKEN_LEN_def base64url_decode_def
        shop_lib_def shop_challenge_def)
  have price: "parse_units ''0.5'' (ucast (mpp_decimals shop)) = Inr ''500000000''"
      "parse_units ''0.7'' (ucast (mpp_decimals shop)) = Inr ''700000000''"
    using shop_prices by (simp_all add: shop_def)
  show ?thesis
    using parsed price_enforced [OF shop_issues [OF shop_prices(1)] price _ _ _ _, where I' = shop_env and header = ?header
        and E = "sample_env True" and S = plain and s = Map.empty and route = None]
      shop_lossless(1) [OF shop_texts(1)] shop_lossless(1) [OF shop_texts(2)]
    by (intro exI [of _ ?header]) (auto simp: shop_details default_charge_options_def)
qed

text \<open>The shop signs a challenge for a payment to somebody else.\<close>

definition foreign_request :: charge_request where
  "foreign_request = \<lparr>cr_amount = ''5'', cr_currency = ''sol'', cr_decimals = None,
     cr_recipient = Some (replicate 40 (CHR ''X'')), cr_description = None, cr_external_id = None, cr_method_details = None\<rparr>"

definition foreign_lib :: "unit charge_lib" where
  "foreign_lib = shop_lib\<lparr>request_from_slice := \<lambda>bs. Inr foreign_request\<rparr>"

theorem unpayable_challenge_signed_witness:
  "\<exists>challenge e. charge_challenge_with_options foreign_lib shop shop_env foreign_request None None = Inr challenge
     \<and> fst (run plain (verify_bound foreign_lib shop (sample_env True)
          \<lparr>cd_challenge = challenge, cd_source = None, cd_payload = JNull\<rparr> foreign_request None) Map.empty) = Inl e"
proof -
  have wired: "foreign_request = with_wire_currency (lib_keys foreign_lib) (mpp_network shop) foreign_request"
    using shop_facts(2) by (simp add: with_wire_currency_def wire_currency_def foreign_request_def NATIVE_SOL_CURRENCY_def)
  have amount: "parse_u64 ''5'' = Some 5"
    by (simp add: parse_u64_def strip_plus_def is_ascii_digit_def digits_value_def digit_value_def)
  obtain challenge where ch: "charge_challenge_with_options foreign_lib shop shop_env foreign_request None None = Inr challenge"
    unfolding charge_challenge_with_options_def wired [symmetric]
    using amount by (simp add: validate_charge_request_def parse_amount_def foreign_request_def shop_def foreign_lib_def
        shop_lib_def long_keys_def from_typed_def check_push_replay_window_def Let_def)
  have "request_lossless foreign_lib foreign_request"
    by (simp add: request_lossless_def foreign_lib_def foreign_request_def shop_lib_def base64url_lossless_def is_base64url_def)
  moreover have "cr_recipient foreign_request \<noteq> Some (mpp_recipient shop)"
    by (simp add: foreign_request_def shop_def)
  ultimately show ?thesis
    using unpayable_challenge_signed [OF ch wired, of
        "\<lparr>cd_challenge = challenge, cd_source = None, cd_payload = JNull\<rparr>" plain "sample_env True" foreign_request None
        Map.empty] ch by simp
qed

end
