(* ===== verification/Spec2Isabelle.thy ===== *)
theory Spec2Isabelle
  imports Consumed_Signatures Charge_Concurrency Channel_Ledger Voucher_Session Mpp_Challenge
    Session_Properties Session_Admission Session_Client Charge_Issue Settlement
begin

text \<open>
  Verification of the Rust payment kit: the shared core under \<open>src/rust/crates/kit/src/core\<close> and
  the charge and session methods of the MPP protocol under \<open>src/rust/crates/kit/src/mpp\<close>.

  \<^bold>\<open>The program.\<close>  The kit lets a server charge for HTTP requests on Solana.  Its protocol
  servers (MPP charge and session, x402) all rest on one core.  A key-value store remembers
  which transaction signatures were consumed and in which state each charge challenge is, so
  that no payment is answered twice.  A channel store keeps one record per payment channel: a
  deposit, a watermark of what the payer has authorized, reservations of requests that are being
  served, and the answers already given.  Vouchers signed by the payer raise the watermark.
  The transactions that clients send are checked before the server co-signs them, and
  settlements are packed into transactions and sent by a background worker.  An MPP server
  answers an unpaid request with signed challenges; the client pays and presents a credential
  that echoes one of them, with a transaction to broadcast or the signature of one it sent.  A
  session pays for many requests out of one channel: by vouchers of the client, by vouchers the
  operator signs for a client that proved itself once, or by deliveries that are reserved first and
  committed later; closing it fixes the amount that is settled onchain.

  \<^bold>\<open>Theories and sources.\<close>
  \<^item> \<open>Pk_Prelude\<close>: machine integers, results, little-endian bytes and decimal text.
  \<^item> \<open>Kv_Store\<close>: trait \<open>Store\<close> as a record of operations and \<open>MemoryStore\<close> (\<open>store.rs\<close>); code
    that awaits store calls is a \<open>prog\<close>, run alone by \<open>run\<close> and against others by \<open>interleave\<close>,
    where a schedule picks whose next call is served.  Handing a transaction to the network is a step
    of its own; \<open>broadcasts\<close> lists those of a request.
  \<^item> \<open>Store_Contract\<close>: what clients may assume of a store (locale \<open>store_contract\<close>), once-only
    wins under interleaving (locale \<open>one_shot\<close>) and stores that do not fail (\<open>reliable_store\<close>);
    all interpreted on \<open>MemoryStore\<close>.
  \<^item> \<open>Consumed_Signatures\<close>: \<open>ConsumedSignatures\<close> (\<open>store.rs\<close>), with claims, pending claims,
    confirmation and release.
  \<^item> \<open>Charge_Replay\<close>, \<open>Charge_Concurrency\<close>: \<open>ChargeReplayStore\<close> (\<open>store.rs\<close>), a chain of
    generations per challenge; its abstract specification on lists, and its behaviour under
    interleaving (locale \<open>charge_client\<close>).
  \<^item> \<open>Channel_State\<close>, \<open>Channel_Auth\<close>, \<open>Channel_Ledger\<close>: \<open>ChannelState\<close> (\<open>store.rs\<close>): deployment
    binding, onchain observations, and the reservations and commits of authorizations, with the
    one-slot machine they refine.
  \<^item> \<open>Channel_Store\<close>: \<open>MemoryChannelStore\<close> and \<open>RedisChannelStore\<close> (\<open>store.rs\<close>), the Lua scripts
    included.  A Redis method is an \<open>rprog\<close>; before each of its calls the environment may change
    the store at will and a reply may be lost.  Locale \<open>channel_store\<close> states what clients rely
    on; both stores interpret it.
  \<^item> \<open>Voucher\<close>: \<open>voucher.rs\<close>, \<open>batch_verify.rs\<close> and the signed bytes of \<open>payment_channel/v1.rs\<close>.
  \<^item> \<open>Voucher_Session\<close>: \<open>session.rs\<close>, acceptance of a voucher as a snapshot step and a locked
    step with anything in between.
  \<^item> \<open>Units\<close>: \<open>units.rs\<close>.
  \<^item> \<open>Tx_Version\<close>, \<open>Tx_Budget\<close>, \<open>Tx_Policy\<close>: \<open>tx/version.rs\<close>, \<open>tx/wire.rs\<close>, \<open>tx/budget.rs\<close>,
    \<open>tx/build.rs\<close> and \<open>tx/policy.rs\<close>.
  \<^item> \<open>Mpp_Headers\<close>, \<open>Mpp_Challenge\<close>: \<open>mpp/protocol/core/headers.rs\<close>, \<open>challenge.rs\<close> and
    \<open>types.rs\<close>: the challenge and credential headers and the ids that bind a challenge.
  \<^item> \<open>Charge_Request\<close>: \<open>mpp/protocol/solana.rs\<close>, \<open>intents/charge.rs\<close> and the errors of
    \<open>mpp/server/charge.rs\<close>: a charge, its splits, currencies and mints.
  \<^item> \<open>Charge_Transfers\<close>, \<open>Charge_Onchain\<close>: \<open>mpp/server/charge.rs\<close>: what a transaction must hold
    to be broadcast as the payment of a charge, and what a payment already onchain must hold.
  \<^item> \<open>Charge_Settle\<close>, \<open>Charge_Verify\<close>: \<open>mpp/server/charge.rs\<close>: \<open>verify_bound\<close>, the one way from a
    credential to a receipt, with \<open>settle_payload\<close>, \<open>broadcast_pull\<close>, the broadcast fence and the
    reconciliation of broadcasts of unknown outcome, as programs over the store.  What a request
    sees of the clock and of the node is its own \<open>charge_env\<close>, an arbitrary one.  The server is one
    without channel charges, built without confidential transfers.
  \<^item> \<open>Store_Rely\<close>, \<open>Charge_Receipts\<close>, \<open>Charge_Handling\<close>: what a request may rely on of those that run
    beside it (locales \<open>rely_order\<close>, \<open>rely_store\<close>), the ledger of a charge seen by its requests
    (locale \<open>charge_ledger\<close>), and the properties of whole requests, beside others and alone.
  \<^item> \<open>Charge_Issue\<close>: \<open>mpp/server/charge.rs\<close> and \<open>mpp/expires.rs\<close>: \<open>Mpp::new\<close>, issuing challenges and verifying
    a payment against a price.
  \<^item> \<open>Session_Steps\<close>: requests of the session server as trees of steps, one step per store call, and
    pools of them under arbitrary schedules.  At each step the \<open>moment\<close> brings the clock, the answer
    of the node and whether the store serves the call, refuses it, or serves it and loses the reply.
    Locale \<open>step_order\<close> is the rely-guarantee reasoning about pools, interpreted in \<open>Session_Safety\<close>.
  \<^item> \<open>Channel_Deployment\<close>: \<open>core/payment_channel/v2.rs\<close> and \<open>mpp/program/channel_deployment.rs\<close>: callback hooks,
    their encodings, channel accounts and deployments.
  \<^item> \<open>Session_Config\<close>: \<open>mpp/protocol/intents/session.rs\<close>, the configuration of \<open>mpp/server/session.rs\<close> and
    \<open>mpp/server/session_binding.rs\<close>: payloads, signed messages, and the \<open>BoundStore\<close> (\<open>bound_get\<close>, \<open>bound_with\<close>,
    \<open>bound_update\<close>, \<open>bound_mutate\<close>) that every session request goes through.
  \<^item> \<open>Session_Server\<close>: \<open>mpp/server/session.rs\<close>: vouchers,
    fixed-price and metered uses with their retry loop, deliveries, top-ups, close, settlement
    parameters and seal.  The closure given to \<open>update_channel\<close> is a definition of its own
    (\<open>use_updater\<close>, \<open>charge_updater\<close>, \<open>commit_updater\<close>, \<open>close_updater\<close> and so on); \<open>serve\<close> is the
    request of any kind.
  \<^item> \<open>Session_Ledger\<close>: the abstract ledger of a channel in natural numbers, its moves, and the proof
    that every closure makes one of them.
  \<^item> \<open>Session_Safety\<close>, \<open>Session_Sample\<close>, \<open>Session_Properties\<close>: every step of every pool is a move
    that its request allows, what the answers promise of the ledger, sample sessions, and the
    properties.
  \<^item> \<open>Session_Admission\<close>: what the bound store keeps away from requests (\<open>step_order\<close> interpreted once more).
  \<^item> \<open>Session_Client\<close>: \<open>mpp/client/session.rs\<close> and \<open>mpp/client/session_consumer.rs\<close>: the client that
    signs vouchers and commits deliveries within a budget, alone and against \<open>Session_Server\<close>.
  \<^item> \<open>Settlement\<close>: \<open>signing.rs\<close>, \<open>settlement/packing.rs\<close> and \<open>settlement/worker.rs\<close>.

  \<^bold>\<open>How the code is rendered.\<close>  A struct is a record with prefixed fields, an enum a datatype.
  Unsigned integers are words; timestamps are integers with the saturation or wrap-around of
  each operation written out.  \<open>Result\<close> is a sum with the error left and the message of the
  source kept; the operator \<open>?\<close> is \<open>try_bind\<close>.  The clock is an argument.  Libraries (serde text,
  Ed25519, the Solana SDK, the Redis connection, the broadcaster) are fields of parameter records;
  what is assumed of them is stated as named predicates (\<open>codec_ok\<close>, \<open>record_codec_ok\<close>,
  \<open>binding_codec_ok\<close>, \<open>text_ok\<close>, \<open>batch_sound\<close>, \<open>compiles_faithfully\<close>, \<open>base64url_lossless\<close>,
  \<open>collision_free\<close>, \<open>ids_colon_free\<close>, \<open>keys_long\<close>, \<open>request_lossless\<close>, \<open>details_lossless\<close>, \<open>value_lossless\<close>,
  \<open>keeps_message\<close>, \<open>signer_keeps_message\<close>), each shown to hold of a
  concrete instance by the witnesses.

  \<^bold>\<open>Bounds.\<close>  The loops of the charge chain carry the bound of 64 generations the code has, and
  its retry loops the attempt bound of the code; \<open>confirm_settlement\<close> recurses on the configured
  number of attempts.  The operator charge of a session carries the eight attempts of the code and
  every session request ends within 28 of its own steps.  No fuel was added.  Everything else is structural or has a termination
  proof, so every operation returns.

  \<^bold>\<open>What is shown.\<close>  No signature and no challenge is honoured twice under any interleaving: a
  challenge yields at most one receipt, and only for a transaction that pays exactly what the
  server asked for in it; what the server asks for it accepts, at that price and on that route only; a good payment gets its receipt, and a broadcast of unknown outcome gets it on a
  retry that hands nothing to the network; the channel record refines a one-slot machine whose watermark is the exact sum of the charges;
  the Redis operations are linearizable with respect to the in-memory ones; a voucher is charged
  once and never beyond the deposit; a session server, under any interleaving of its requests and
  with a store that fails at will, refines a ledger in which what was served stays within the
  watermark and the watermark within the deposit, each operator-signed request is charged its total
  once, no charge is made without a recent read of the chain, a channel whose opening is pending or was retired
  pays for nothing, a close that was answered is final and
  the voucher it settles with is one the chain accepts for exactly that amount; a session client signs
  nothing past its budget and agrees with the server on what was paid for a delivery, also when its reply is lost and it is committed again; amounts parse exactly and print back; a transaction's
  declared budget is what it was built with and its fee is bounded by the caps; hooks written to a channel account read back; challenge
  and credential headers read back as they were written and a challenge id binds every field it
  signs; a transaction or a payment accepted for a charge pays exactly that charge, leg by leg,
  out of the client's funds and does nothing else; the settlement worker loses no unit and answers each one once, with the signature of a
  transaction that holds its instructions.  Seven theorems state where the
  code falls short of its comments or of its contract (\<open>takeover_race_orphans_the_owner\<close>,
  \<open>overlapping_vouchers_over_report\<close>, \<open>refused_seed_differs\<close>, \<open>seal_text_effect\<close>,
  \<open>of_channel_classifies\<close>, \<open>unpayable_challenge_signed\<close>, \<open>overrun_reservations_block_close\<close>).

  \<^bold>\<open>Not modelled.\<close>  Listing and plain reads of the channel stores, connecting to Redis, the
  thread pool around the batched verifier, the RPC pipeline and its retries, tracing, and the
  in-flight semaphore (it delays a send, it decides nothing).  In \<open>spawn_flush\<close> the background
  confirmation of a group runs before the next group instead of beside it; the answers come
  from an arbitrary environment either way.  Of the MPP charge server,
  confidential bundles, channel charges and the text of the balance diagnosis are not modelled.  Of the session server,
  opening a channel, its challenges, the instructions that settle and distribute, and the checks of
  an open or top-up transaction are not modelled: they compare Solana transactions and channel
  accounts over SDK and generated types; what a top-up's landing answers is an arbitrary input of the
  step that asks.  Sessions run on the in-memory channel store with the faults above.  The
  subscription server, x402, the charge and subscription clients, the gate, the instruction builders and the generated
  program clients are outside this development.
\<close>

section \<open>From a challenge to its payment\<close>

text \<open>
  The transfers of a transaction are exactly the legs of a charge and add up to its amount: each leg is
  paid by an instruction of its own, and every other instruction is a memo the charge asks for, a
  compute budget request within the caps, or the creation of the token account of a split's recipient.
  Besides the fee payer only the account that pays has to sign.
\<close>

definition settles_charge :: "keylib \<Rightarrow> versioned_transaction \<Rightarrow> charge_request \<Rightarrow> method_details \<Rightarrow> bool" where
  "settles_charge L tx request details \<longleftrightarrow>
     (let keys = static_account_keys (vt_message tx); ixs = message_instructions (vt_message tx);
          splits = unwrap_or (md_splits details) [] in
      \<exists>sponsor asset legs idx authority total.
        expected_fee_payer L tx details = Inr sponsor \<and> charge_asset L request details asset
        \<and> charge_legs L request details legs
        \<and> parse_u64 (cr_amount request) = Some total \<and> sum_list (map (unat \<circ> snd) legs) = unat total
        \<and> distinct idx
        \<and> list_all2 (\<lambda>leg i. i < length ixs \<and> leg_paid L keys sponsor asset authority leg (ixs ! i)) legs idx
        \<and> set (take (num_required_signatures (vt_message tx)) keys) \<subseteq> {hd keys, authority}
        \<and> (\<forall>i < length ixs. i \<in> set idx
             \<or> memo_note keys (map snd (expected_memos (cr_external_id request) splits)) (ixs ! i)
             \<or> budget_request keys (sponsor \<noteq> None) (ixs ! i)
             \<or> (\<exists>s \<in> set splits. \<exists>owner. key_from_str L (sp_recipient s) = Inr owner
                  \<and> (sponsor \<noteq> None \<longrightarrow> sp_ata_creation_required s = Some True)
                  \<and> ata_creation L keys (hd keys) asset owner (ixs ! i))))"

lemma accepted_settles:
  assumes "verify_client_pull_transaction S L tx request details accepted = Inr ()"
  shows "settles_charge L tx request details"
  using charge_paid [OF assms refl refl refl] unfolding settles_charge_def Let_def
  by (elim exE conjE) (intro exI conjI)

lemma splits_eq_lists: "splits_eq a b \<Longrightarrow> unwrap_or a [] = unwrap_or b []"
  by (auto simp: splits_eq_def Let_def list_all_iff list.rel_eq [symmetric] list_all2_iff split: if_splits)

text \<open>The comparison of the presented with the issued request keeps every term a payment is read from.\<close>

lemma compared_settles:
  assumes "compare_expected_to_request L issued request = Inr ()"
    and "(case cr_method_details request of None \<Rightarrow> Inr default_method_details | Some v \<Rightarrow> details_from_value L v) = Inr details"
    and "settles_charge K tx request details"
  shows "\<exists>terms. parse_method_details_for_compare L (cr_method_details issued) ''credential'' = Inr terms
    \<and> settles_charge K tx issued terms"
proof -
  from assms(1) obtain terms wanted where same:
      "cr_amount issued = cr_amount request" "cr_currency issued = cr_currency request"
      "cr_recipient issued = cr_recipient request" "cr_external_id issued = cr_external_id request"
      "parse_method_details_for_compare L (cr_method_details issued) ''credential'' = Inr terms"
      "parse_method_details_for_compare L (cr_method_details request) ''expected'' = Inr wanted"
      "compare_details terms wanted = Inr ()"
    by (auto simp: compare_expected_to_request_def try_bind_Inr_iff split: if_split_asm)
  from assms(2) same(6) have "wanted = details"
    by (auto simp: parse_method_details_for_compare_def split: option.splits)
  with same(7) have "md_network terms = md_network details" "md_decimals terms = md_decimals details"
      "md_token_program terms = md_token_program details" "md_fee_payer terms = md_fee_payer details"
      "md_fee_payer_key terms = md_fee_payer_key details"
      and splits: "unwrap_or (md_splits terms) [] = unwrap_or (md_splits details) []"
    by (auto simp: compare_details_def splits_eq_lists split: if_split_asm)
  with same(1-3) have "expected_fee_payer K tx terms = expected_fee_payer K tx details"
      "charge_asset K issued terms = charge_asset K request details"
      "charge_legs K issued terms = charge_legs K request details"
    by (simp_all add: fun_eq_iff expected_fee_payer_def charge_asset_def charge_legs_def expected_token_program_def)
  with assms(3) same(1,4,5) splits show ?thesis by (simp add: settles_charge_def)
qed

text \<open>The fee payer's signer, if there is one, leaves the messages it signs alone.\<close>

definition signer_keeps_message :: "mpp \<Rightarrow> bool" where
  "signer_keeps_message M \<longleftrightarrow> (\<forall>signer. mpp_fee_payer_signer M = Some signer \<longrightarrow> keeps_message signer)"

lemma cosigned_message:
  assumes "signer_keeps_message M" "cosign_fee_payer_slot M tx = Inr sent"
  shows "vt_message sent = vt_message tx"
proof -
  from assms(2) obtain signer where "mpp_fee_payer_signer M = Some signer"
      "fst (sign_versioned_transaction_slot signer tx ()) = Inr sent"
    by (auto simp: cosign_fee_payer_slot_def cosign_versioned_fee_payer_def Let_def try_bind_Inr_iff split: if_split_asm)
  with assms(1) show ?thesis
    unfolding signer_keeps_message_def by (metis prod.collapse signed_message)
qed

lemma settles_charge_message:
  "vt_message tx' = vt_message tx \<Longrightarrow> settles_charge L tx' request details = settles_charge L tx request details"
  by (simp add: settles_charge_def expected_fee_payer_def)

lemma prepared_settles:
  assumes "prepare_pull L M b64 request details challenge = Inr (sent, s, uses)" "signer_keeps_message M"
  shows "settles_charge (lib_keys L) sent request details" "final_signature L sent = Inr s"
    "verify_and_hash_message L sent = Inr ()"
proof -
  from assms obtain tx where tx: "verify_client_pull_transaction (lib_sdk L) (lib_keys L) tx request details
        (mpp_accepted_versions M) = Inr ()"
      "vt_message sent = vt_message tx" "final_signature L sent = Inr s" "verify_and_hash_message L sent = Inr ()"
    by (auto simp: prepare_pull_def Let_def try_bind_Inr_iff cosigned_message split: if_split_asm)
  with accepted_settles [OF tx(1)] settles_charge_message [OF tx(2)]
  show "settles_charge (lib_keys L) sent request details" "final_signature L sent = Inr s"
    "verify_and_hash_message L sent = Inr ()" by simp_all
qed

text \<open>
  C1.  A receipt means that the issued charge was paid.  However the presentations of a fresh
  challenge interleave with each other and with those of other challenges, on servers that take no
  push payments and whose fee payer's signer leaves messages alone, with challenge ids that have no colon: a
  receipt for it names the signature of a fully signed transaction.  The challenge
  it was presented with is one this server made, for this route, and it asks for a payment to this
  server in its currency.  The transfers of the transaction are exactly the legs of the charge as the server
  issued it: each leg is paid its amount by one instruction, the amounts add up to the charge, and
  every other instruction of the transaction is a memo the charge asks for, a compute budget request within
  the caps, or the creation of the token account of a split's recipient.
\<close>

theorem receipt_means_paid:
  assumes "codec_ok C" "record_codec_ok (lib_records L)" "ids_colon_free L" "memory_ok C data"
    and "\<forall>q \<in> set qs. \<not> mpp_accept_push_mode (ps_server q) \<and> signer_keeps_message (ps_server q)"
    and "colon_free c" "\<forall>g. data (charge_record_key c g) = None"
    and "interleave (memory_store C) sched (map (handle L) qs, data) = (ps, data')"
    and "Done (Inr rc) \<in> set ps" "rc_challenge_id rc = c"
  shows "\<exists>q \<in> set qs. \<exists>issued terms sent.
       presented_id q = c \<and> authentic L (ps_server q) (cd_challenge (ps_credential q))
     \<and> challenge_route L (cd_challenge (ps_credential q)) = ps_route q
     \<and> decode_request L (pc_request (cd_challenge (ps_credential q))) = Inr issued
     \<and> parse_method_details_for_compare L (cr_method_details issued) ''credential'' = Inr terms
     \<and> cr_recipient issued = Some (mpp_recipient (ps_server q)) \<and> cr_currency issued = mpp_currency (ps_server q)
     \<and> settles_charge (lib_keys L) sent issued terms
     \<and> final_signature L sent = Inr (rc_reference rc) \<and> verify_and_hash_message L sent = Inr ()"
proof -
  have "\<forall>q \<in> set qs. \<not> mpp_accept_push_mode (ps_server q)" using assms(5) by blast
  from receipts_of_presentations [OF assms(1-4) this assms(6-8)] assms(9,10) obtain q where
    q: "q \<in> set qs" "presented_id q = c"
      and prep: "prepares L (ps_server q) (ps_credential q) (ps_request q) (ps_route q) (rc_reference rc)" by blast
  let ?M = "ps_server q" and ?ch = "cd_challenge (ps_credential q)"
  let ?req = "with_wire_currency (lib_keys L) (mpp_network ?M) (ps_request q)"
  from prep obtain b64 details digest sent uses where
    terms: "accept_terms L ?M (ps_credential q) ?req = Inr (TransactionPayload b64, details, digest)"
      and sent: "prepare_pull L ?M b64 ?req details ?ch = Inr (sent, rc_reference rc, uses)"
      and auth: "authentic L ?M ?ch" "challenge_route L ?ch = ps_route q"
    unfolding prepares_def Let_def by blast
  note facts = accept_terms_facts [OF terms]
  from facts(1) obtain issued where issued: "decode_request L (pc_request ?ch) = Inr issued"
      "compare_expected_to_request L issued ?req = Inr ()" by blast
  have same: "cr_recipient issued = cr_recipient ?req" "cr_currency issued = cr_currency ?req"
    using issued(2) by (simp_all add: compare_expected_to_request_def split: if_split_asm)
  have pinned: "cr_recipient ?req = Some (mpp_recipient ?M)" "cr_currency ?req = mpp_currency ?M"
    using facts(2) by (simp_all add: verify_pinned_fields_def Let_def split: if_split_asm)
  have "signer_keeps_message ?M" using assms(5) q(1) by blast
  note settled = prepared_settles [OF sent this]
  from compared_settles [OF issued(2) facts(5) settled(1)] q auth issued(1) same pinned settled(2,3)
  show ?thesis by (intro bexI [of _ q]) (simp_all, blast)
qed

theorem receipt_means_paid_witness:
  "\<exists>sched e data sent terms.
     interleave plain sched ([handle sample_lib sample_presentation, handle sample_lib sample_presentation], Map.empty)
       = ([Done (Inr (receipt_success (sample_env True) ''sig'' ''id'')), Done (Inl e)], data)
     \<and> settles_charge toy_keys sent sample_charge terms \<and> final_signature sample_lib sent = Inr ''sig''"
proof -
  from sample_schedule obtain sched e data where run: "interleave plain sched
      (map (handle sample_lib) [sample_presentation, sample_presentation], Map.empty)
     = ([Done (Inr (receipt_success (sample_env True) ''sig'' ''id'')), Done (Inl e)], data)" by auto
  have "\<forall>q \<in> set [sample_presentation, sample_presentation].
      \<not> mpp_accept_push_mode (ps_server q) \<and> signer_keeps_message (ps_server q)"
    by (simp add: sample_presentation_def sample_mpp_def signer_keeps_message_def keeps_message_def sample_signer_def)
  from receipt_means_paid [OF codec_ok_value_codec sample_facts(2) sample_ids(1) memory_ok_empty this sample_ids(2) _ run,
      of "receipt_success (sample_env True) ''sig'' ''id''"]
  obtain sent terms where "settles_charge toy_keys sent sample_charge terms" "final_signature sample_lib sent = Inr ''sig''"
    by (auto simp: sample_issued receipt_success_def) (simp add: sample_lib_def)
  with run show ?thesis by auto
qed

end
